(* ===== verification/Spp_Prelude.thy ===== *)
theory Spp_Prelude
  imports Main "HOL-Library.Word" "HOL-Library.Monad_Syntax" "HOL-Library.Multiset"
begin

text \<open>
  Shared ground of the development: the fixed-width integer types of the C sources, the
  \<open>errno\<close> values the code returns, checked array access (an access outside the bounds of a
  C array is undefined behaviour and is the value \<^term>\<open>None\<close> here, never a silent no-op),
  and the generic lemmas on words, masks and lists that the component theories use.
\<close>

unbundle bit_operations_syntax

section \<open>Machine integers and error numbers\<close>

type_synonym u8 = "8 word"
type_synonym u16 = "16 word"
type_synonym u32 = "32 word"
type_synonym u64 = "64 word"

named_theorems c_simps \<open>evaluation rules for the C-level helpers\<close>
named_theorems errno_simps \<open>values of the errno constants\<close>

definition ENOENT :: int where "ENOENT = 2"
definition ENOMEM :: int where "ENOMEM = 12"
definition EEXIST :: int where "EEXIST = 17"
definition ENODEV :: int where "ENODEV = 19"
definition EINVAL :: int where "EINVAL = 22"
definition ENOSPC :: int where "ENOSPC = 28"
definition ENOBUFS :: int where "ENOBUFS = 105"
definition EDQUOT :: int where "EDQUOT = 122"

declare ENOENT_def [errno_simps] ENOMEM_def [errno_simps] EEXIST_def [errno_simps]
  ENODEV_def [errno_simps] EINVAL_def [errno_simps] ENOSPC_def [errno_simps]
  ENOBUFS_def [errno_simps] EDQUOT_def [errno_simps]

section \<open>Checked array access\<close>

definition aget :: "'a list \<Rightarrow> nat \<Rightarrow> 'a option" where
  "aget xs i = (if i < length xs then Some (xs ! i) else None)"

definition aset :: "'a list \<Rightarrow> nat \<Rightarrow> 'a \<Rightarrow> 'a list option" where
  "aset xs i x = (if i < length xs then Some (xs[i := x]) else None)"

lemma aget_in [simp]: "i < length xs \<Longrightarrow> aget xs i = Some (xs ! i)"
  by (simp add: aget_def)

lemma aset_in [simp]: "i < length xs \<Longrightarrow> aset xs i x = Some (xs[i := x])"
  by (simp add: aset_def)

lemma aget_eq_Some_iff: "aget xs i = Some x \<longleftrightarrow> i < length xs \<and> xs ! i = x"
  by (auto simp: aget_def)

lemma aget_eq_None_iff: "aget xs i = None \<longleftrightarrow> length xs \<le> i"
  by (simp add: aget_def)

lemma aset_eq_Some_iff: "aset xs i x = Some ys \<longleftrightarrow> i < length xs \<and> ys = xs[i := x]"
  by (auto simp: aset_def)

lemma aset_eq_None_iff: "aset xs i x = None \<longleftrightarrow> length xs \<le> i"
  by (simp add: aset_def)

lemma aset_length: "aset xs i x = Some ys \<Longrightarrow> length ys = length xs"
  by (simp add: aset_eq_Some_iff)

lemma list_all_update: "list_all P xs \<Longrightarrow> P x \<Longrightarrow> list_all P (xs[i := x])"
  using set_update_subset_insert [of xs i x] by (auto simp: list_all_iff)

declare aget_def [c_simps] aset_def [c_simps]

fun the_default :: "'a \<Rightarrow> 'a option \<Rightarrow> 'a" where
  "the_default d None = d"
| "the_default d (Some x) = x"

section \<open>Strings\<close>

text \<open>
  A C string is the list of its characters before the terminating NUL. \<open>snprintf(dst, sz, "%s", s)\<close>
  keeps at most \<open>sz - 1\<close> characters, and \<open>strncmp(a, b, n) == 0\<close> compares at most \<open>n\<close>
  characters, the terminator included.
\<close>
definition snprintf_s :: "nat \<Rightarrow> string \<Rightarrow> string" where
  "snprintf_s sz s = take (sz - 1) s"

definition strncmp_eq :: "string \<Rightarrow> string \<Rightarrow> nat \<Rightarrow> bool" where
  "strncmp_eq a b n \<longleftrightarrow> take n a = take n b"

lemma strncmp_eq_refl [simp]: "strncmp_eq a a n"
  by (simp add: strncmp_eq_def)

lemma strncmp_eq_short: "length a < n \<Longrightarrow> strncmp_eq a b n \<longleftrightarrow> a = b"
  by (auto simp: strncmp_eq_def)

lemma strncmp_eq_short2: "length b < n \<Longrightarrow> strncmp_eq a b n \<longleftrightarrow> a = b"
  using strncmp_eq_short [of b n a] by (auto simp: strncmp_eq_def)

lemma snprintf_s_id: "length s < sz \<Longrightarrow> snprintf_s sz s = s"
  by (simp add: snprintf_s_def)

lemma snprintf_s_idem [simp]: "snprintf_s sz (snprintf_s sz s) = snprintf_s sz s"
  by (simp add: snprintf_s_def)

lemma length_snprintf_s: "0 < sz \<Longrightarrow> length (snprintf_s sz s) < sz"
  by (simp add: snprintf_s_def)

section \<open>Alignment\<close>

definition RTE_CACHE_LINE_SIZE :: nat where "RTE_CACHE_LINE_SIZE = 64"

definition RTE_ALIGN :: "nat \<Rightarrow> nat \<Rightarrow> nat" where
  "RTE_ALIGN v a = (v + (a - 1)) div a * a"

lemma RTE_ALIGN_bounds:
  assumes "0 < a"
  shows "v \<le> RTE_ALIGN v a" and "RTE_ALIGN v a < v + a" and "a dvd RTE_ALIGN v a"
proof -
  have e: "(v + (a - 1)) div a * a + (v + (a - 1)) mod a = v + (a - 1)" by (rule div_mult_mod_eq)
  have m: "(v + (a - 1)) mod a < a" using assms by simp
  show "v \<le> RTE_ALIGN v a" unfolding RTE_ALIGN_def using e m by linarith
  show "RTE_ALIGN v a < v + a" unfolding RTE_ALIGN_def using e assms by linarith
  show "a dvd RTE_ALIGN v a" by (simp add: RTE_ALIGN_def)
qed

section \<open>Words, masks and wrap-around\<close>

lemma unat_mask_and:
  fixes w m :: u32
  assumes "Suc (unat m) = 2 ^ k"
  shows "unat (w AND m) = unat w mod 2 ^ k"
proof -
  from assms have "unat m = 2 ^ k - 1" by simp
  then have m: "unat m = mask k" by (simp add: mask_eq_exp_minus_1)
  have "unat (w AND m) = unat w AND unat m" by (simp add: unsigned_and_eq)
  then show ?thesis by (simp add: m take_bit_eq_mask [symmetric] take_bit_eq_mod)
qed

lemma unat_and_not_mask: "unat ((w::'a::len word) AND NOT (mask k)) = unat w - unat w mod 2 ^ k"
proof -
  have "w = (w AND NOT (mask k)) + (w AND mask k)"
    by (subst disjunctive_add) (auto simp: bit_simps intro!: bit_word_eqI)
  then have sub: "w AND NOT (mask k) = w - (w AND mask k)" by (metis add_diff_cancel_right')
  have "unat (w AND mask k) = unat w mod 2 ^ k"
    by (metis take_bit_eq_mask take_bit_eq_mod unsigned_take_bit_eq)
  moreover have "unat (w - (w AND mask k)) = unat w - unat (w AND mask k)"
    by (rule unat_sub) (simp add: word_and_le2)
  ultimately show ?thesis using sub by argo
qed

lemma unat_and3: "unat ((n::u32) AND 3) = unat n mod 4"
  using unat_mask_and [of 3 2 n] by simp

lemma unat_and_not3: "unat ((n::u32) AND NOT 3) = unat n - unat n mod 4"
  using unat_and_not_mask [of n 2] by (simp add: mask_eq_exp_minus_1)

lemma unat_mod_pow2_add:
  fixes a :: u32
  assumes "k \<le> 32"
  shows "unat (a + b) mod 2 ^ k = (unat a + unat b) mod 2 ^ k"
proof -
  have "(2::nat) ^ k dvd 2 ^ 32" using assms by (rule le_imp_power_dvd)
  then show ?thesis by (simp add: unat_word_ariths mod_mod_cancel)
qed

text \<open>A nonzero word that shares no bit with its predecessor is a power of two.\<close>

lemma nat_and_pred_eq_0:
  fixes n :: nat
  shows "0 < n \<Longrightarrow> (n - 1) AND n = 0 \<Longrightarrow> \<exists>k. n = 2 ^ k"
proof (induction n rule: less_induct)
  case (less n)
  show ?case
  proof (cases "even n")
    case True
    then obtain m where n: "n = 2 * m" and m: "0 < m" using less.prems by auto
    have "n - 1 = 2 * (m - 1) + 1" using n m by simp
    then have "(n - 1) AND n = 2 * ((m - 1) AND m)"
      by (simp add: n and_nat_rec [of "Suc (2 * (m - Suc 0))"])
    with less.prems have "(m - 1) AND m = 0" by simp
    then obtain k where "m = 2 ^ k" using less.IH [of m] n m by auto
    then have "n = 2 ^ Suc k" using n by simp
    then show ?thesis by blast
  next
    case False
    then obtain m where n: "n = Suc (2 * m)" by (auto elim!: oddE)
    then have "(n - 1) AND n = 2 * m"
      by (simp add: and_nat_rec [of "2 * m"])
    with less.prems n have "n = 2 ^ 0" by simp
    then show ?thesis by blast
  qed
qed

lemma word_pow2:
  fixes x :: u32
  assumes "x \<noteq> 0" and "(x - 1) AND x = 0"
  obtains k where "k < 32" and "unat x = 2 ^ k"
proof -
  have pos: "0 < unat x" using assms(1) by (simp add: unat_gt_0)
  have "unat ((x - 1) AND x) = (unat x - 1) AND unat x"
    using assms(1) by (simp add: unsigned_and_eq unat_minus_one)
  with assms(2) have "(unat x - 1) AND unat x = 0" by simp
  then obtain k where k: "unat x = 2 ^ k" using nat_and_pred_eq_0 [OF pos] by blast
  have "(2::nat) ^ k < 2 ^ 32" using unsigned_less [of x, where ?'a = nat] k by simp
  then have "k < 32" by (rule power_less_imp_less_exp [rotated]) simp
  with k show thesis using that by blast
qed

end
