(* ===== verification/Rte_Memzone.thy ===== *)
theory Rte_Memzone
  imports Spp_Prelude
begin

text \<open>
  The table of named memory zones of \<open>lib/librte_eal/common/eal_common_memzone.c\<close>, through
  which the processes of the patch panel find each other's rings and pools. The memory
  configuration holds the table, the number of zones in use and the malloc heaps; the heap
  allocator itself is a parameter, a record of the functions the zone code calls. Then the
  invariant of the table and what reserving, looking up and freeing a zone do to it.
\<close>

unbundle bit_operations_syntax

section \<open>Data\<close>

definition RTE_MEMZONE_NAMESIZE :: nat where "RTE_MEMZONE_NAMESIZE = 32"
definition RTE_MAX_MEMZONE :: nat where "RTE_MAX_MEMZONE = 2560"
definition RTE_MAX_NUMA_NODES :: int where "RTE_MAX_NUMA_NODES = 8"
definition SOCKET_ID_ANY :: int where "SOCKET_ID_ANY = - 1"

text \<open>An address of 0 is \<open>NULL\<close>; a free slot of the table has a null address.\<close>
record rte_memzone =
  mz_name :: string
  mz_phys_addr :: u64
  mz_addr :: u64
  mz_len :: u64
  mz_hugepage_sz :: u64
  mz_socket_id :: int
  mz_flags :: u32
  mz_memseg_id :: u32

definition null_memzone :: rte_memzone where
  "null_memzone = \<lparr>mz_name = '''', mz_phys_addr = 0, mz_addr = 0, mz_len = 0, mz_hugepage_sz = 0,
     mz_socket_id = 0, mz_flags = 0, mz_memseg_id = 0\<rparr>"

text \<open>What the zone code reads of the heap element behind an address.\<close>
record malloc_elem =
  elem_size :: u64
  elem_hugepage_sz :: u64
  elem_socket_id :: int
  elem_memseg_id :: u32
  elem_phys :: u64

text \<open>The heap allocator (\<open>malloc_heap.c\<close>, \<open>rte_malloc.c\<close>), seen from outside.\<close>
record 'h heap_ops =
  malloc_heap_alloc :: "'h \<Rightarrow> int \<Rightarrow> u64 \<Rightarrow> u32 \<Rightarrow> u32 \<Rightarrow> u32 \<Rightarrow> u64 \<times> 'h"
  malloc_elem_from_data :: "'h \<Rightarrow> u64 \<Rightarrow> malloc_elem"
  greatest_free_size :: "'h \<Rightarrow> int \<Rightarrow> u64"
  malloc_get_numa_socket :: int
  rte_eal_has_hugepages :: bool
  rte_zmalloc :: "'h \<Rightarrow> u64 \<Rightarrow> u64 \<times> 'h"
  rte_free :: "'h \<Rightarrow> u64 \<Rightarrow> 'h"

definition MALLOC_ELEM_OVERHEAD :: u64 where "MALLOC_ELEM_OVERHEAD = 64"

record 'h eal =
  memzone_cnt :: u32
  memzone :: "rte_memzone list"
  malloc_heaps :: 'h
  rte_errno :: int

section \<open>Operations\<close>

text \<open>The index of the first entry with a property: the linear scans of the table.\<close>
fun scan :: "('a \<Rightarrow> bool) \<Rightarrow> 'a list \<Rightarrow> nat option" where
  "scan P [] = None"
| "scan P (x # xs) = (if P x then Some 0 else map_option Suc (scan P xs))"

definition memzone_lookup_thread_unsafe :: "('h, 'z) eal_scheme \<Rightarrow> string \<Rightarrow> nat option" where
  "memzone_lookup_thread_unsafe e name =
     scan (\<lambda>mz. mz_addr mz \<noteq> 0 \<and> strncmp_eq name (mz_name mz) RTE_MEMZONE_NAMESIZE) (memzone e)"

definition get_next_free_memzone :: "('h, 'z) eal_scheme \<Rightarrow> nat option" where
  "get_next_free_memzone e = scan (\<lambda>mz. mz_addr mz = 0) (memzone e)"

text \<open>The new value of \<open>*s\<close> and the returned length; the subtraction wraps.\<close>
definition find_heap_max_free_elem :: "'h heap_ops \<Rightarrow> 'h \<Rightarrow> int \<Rightarrow> u32 \<Rightarrow> int \<times> u64" where
  "find_heap_max_free_elem ops h socket align =
     (let (s, len) =
        fold (\<lambda>i (s, len).
                if socket \<noteq> SOCKET_ID_ANY \<and> socket \<noteq> i then (s, len)
                else if greatest_free_size ops h i > len then (i, greatest_free_size ops h i)
                else (s, len))
             [0..RTE_MAX_NUMA_NODES - 1] (socket, 0)
      in (s, len - MALLOC_ELEM_OVERHEAD - ucast align))"

definition rte_is_power_of_2 :: "u32 \<Rightarrow> bool" where
  "rte_is_power_of_2 n \<longleftrightarrow> n \<noteq> 0 \<and> n AND (n - 1) = 0"

text \<open>The loop over the other sockets after the first heap was full.\<close>
fun try_other_heaps ::
  "'h heap_ops \<Rightarrow> int list \<Rightarrow> int \<Rightarrow> u64 \<Rightarrow> u32 \<Rightarrow> u32 \<Rightarrow> u32 \<Rightarrow> 'h \<Rightarrow> u64 \<times> 'h" where
  "try_other_heaps ops [] socket len flags align bound h = (0, h)"
| "try_other_heaps ops (i # is) socket len flags align bound h =
     (if socket = i then try_other_heaps ops is socket len flags align bound h
      else case malloc_heap_alloc ops h i len flags align bound of
             (addr, h) \<Rightarrow>
               if addr \<noteq> 0 then (addr, h)
               else try_other_heaps ops is socket len flags align bound h)"

text \<open>
  The reservation in three parts, in the order of the code: the checks (the error number, or
  the rounded length, the requested length and the alignment), the allocation, the descriptor.
\<close>
definition memzone_check ::
  "('h, 'z) eal_scheme \<Rightarrow> string \<Rightarrow> u64 \<Rightarrow> int \<Rightarrow> u32 \<Rightarrow> u32 \<Rightarrow> int + (u64 \<times> u64 \<times> u32)" where
  "memzone_check e name len socket_id align bound =
     (if unat (memzone_cnt e) \<ge> RTE_MAX_MEMZONE then Inl ENOSPC
      else if memzone_lookup_thread_unsafe e name \<noteq> None then Inl EEXIST
      else if align \<noteq> 0 \<and> \<not> rte_is_power_of_2 align then Inl EINVAL
      else
        let align = (if align < 64 then 64 else align)
        in if len > - 1 - 63 then Inl EINVAL
      else
        let len = (len + 63) AND NOT 63;
            requested_len = max 64 len
        in if bound \<noteq> 0 \<and> (requested_len > ucast bound \<or> \<not> rte_is_power_of_2 bound) then Inl EINVAL
      else if socket_id \<noteq> SOCKET_ID_ANY \<and> socket_id \<ge> RTE_MAX_NUMA_NODES then Inl EINVAL
      else Inr (len, requested_len, align))"

definition memzone_heap_alloc ::
  "'h heap_ops \<Rightarrow> 'h \<Rightarrow> u64 \<Rightarrow> u64 \<Rightarrow> int \<Rightarrow> u32 \<Rightarrow> u32 \<Rightarrow> u32 \<Rightarrow> u64 \<times> u64 \<times> 'h" where
  "memzone_heap_alloc ops h len requested_len socket_id flags align bound =
     (let socket_id = (if rte_eal_has_hugepages ops then socket_id else SOCKET_ID_ANY);
          (socket_id, requested_len) =
            (if len = 0
             then (if bound \<noteq> 0 then (socket_id, ucast bound)
                   else find_heap_max_free_elem ops h socket_id align)
             else (socket_id, requested_len));
          socket = (if socket_id = SOCKET_ID_ANY then malloc_get_numa_socket ops else socket_id);
          (addr, h) = malloc_heap_alloc ops h socket requested_len flags align bound;
          (addr, h) =
            (if addr = 0 \<and> socket_id = SOCKET_ID_ANY
             then try_other_heaps ops [0..RTE_MAX_NUMA_NODES - 1] socket requested_len flags align bound h
             else (addr, h))
      in (addr, requested_len, h))"

definition memzone_fill :: "malloc_elem \<Rightarrow> string \<Rightarrow> u64 \<Rightarrow> u64 \<Rightarrow> rte_memzone" where
  "memzone_fill elem name addr requested_len =
     \<lparr>mz_name = snprintf_s RTE_MEMZONE_NAMESIZE name,
      mz_phys_addr = elem_phys elem,
      mz_addr = addr,
      mz_len = (if requested_len = 0 then elem_size elem else requested_len),
      mz_hugepage_sz = elem_hugepage_sz elem,
      mz_socket_id = elem_socket_id elem,
      mz_flags = 0,
      mz_memseg_id = elem_memseg_id elem\<rparr>"

definition memzone_reserve_aligned_thread_unsafe ::
  "'h heap_ops \<Rightarrow> ('h, 'z) eal_scheme \<Rightarrow> string \<Rightarrow> u64 \<Rightarrow> int \<Rightarrow> u32 \<Rightarrow> u32 \<Rightarrow> u32 \<Rightarrow>
     nat option \<times> ('h, 'z) eal_scheme" where
  "memzone_reserve_aligned_thread_unsafe ops e name len socket_id flags align bound =
     (case memzone_check e name len socket_id align bound of
        Inl err \<Rightarrow> (None, e\<lparr>rte_errno := err\<rparr>)
      | Inr (len, requested_len, align) \<Rightarrow>
          (case memzone_heap_alloc ops (malloc_heaps e) len requested_len socket_id flags align bound of
             (addr, requested_len, h) \<Rightarrow>
               let e = e\<lparr>malloc_heaps := h\<rparr>
               in if addr = 0 then (None, e\<lparr>rte_errno := ENOMEM\<rparr>)
                  else case get_next_free_memzone e of
                         None \<Rightarrow> (None, e\<lparr>rte_errno := ENOSPC\<rparr>)
                       | Some i \<Rightarrow>
                           (Some i,
                            e\<lparr>memzone_cnt := memzone_cnt e + 1,
                              memzone := (memzone e)[i :=
                                memzone_fill (malloc_elem_from_data ops h addr) name addr requested_len]\<rparr>)))"

definition rte_memzone_reserve_thread_safe ::
  "'h heap_ops \<Rightarrow> ('h, 'z) eal_scheme \<Rightarrow> string \<Rightarrow> u64 \<Rightarrow> int \<Rightarrow> u32 \<Rightarrow> u32 \<Rightarrow> u32 \<Rightarrow>
     nat option \<times> ('h, 'z) eal_scheme" where
  "rte_memzone_reserve_thread_safe ops e name len socket_id flags align bound =
     memzone_reserve_aligned_thread_unsafe ops e name len socket_id flags align bound"

definition rte_memzone_reserve_bounded ::
  "'h heap_ops \<Rightarrow> ('h, 'z) eal_scheme \<Rightarrow> string \<Rightarrow> u64 \<Rightarrow> int \<Rightarrow> u32 \<Rightarrow> u32 \<Rightarrow> u32 \<Rightarrow>
     nat option \<times> ('h, 'z) eal_scheme" where
  "rte_memzone_reserve_bounded ops e name len socket_id flags align bound =
     rte_memzone_reserve_thread_safe ops e name len socket_id flags align bound"

definition rte_memzone_reserve_aligned ::
  "'h heap_ops \<Rightarrow> ('h, 'z) eal_scheme \<Rightarrow> string \<Rightarrow> u64 \<Rightarrow> int \<Rightarrow> u32 \<Rightarrow> u32 \<Rightarrow>
     nat option \<times> ('h, 'z) eal_scheme" where
  "rte_memzone_reserve_aligned ops e name len socket_id flags align =
     rte_memzone_reserve_thread_safe ops e name len socket_id flags align 0"

definition rte_memzone_reserve ::
  "'h heap_ops \<Rightarrow> ('h, 'z) eal_scheme \<Rightarrow> string \<Rightarrow> u64 \<Rightarrow> int \<Rightarrow> u32 \<Rightarrow>
     nat option \<times> ('h, 'z) eal_scheme" where
  "rte_memzone_reserve ops e name len socket_id flags =
     rte_memzone_reserve_thread_safe ops e name len socket_id flags (of_nat RTE_CACHE_LINE_SIZE) 0"

text \<open>
  The argument is the index of the descriptor in the table, \<^term>\<open>None\<close> for a null pointer.
  The result \<^term>\<open>None\<close> is \<open>rte_panic\<close> or a pointer outside the table.
\<close>
definition rte_memzone_free ::
  "'h heap_ops \<Rightarrow> ('h, 'z) eal_scheme \<Rightarrow> nat option \<Rightarrow> (int \<times> ('h, 'z) eal_scheme) option" where
  "rte_memzone_free ops e mz =
     (case mz of
        None \<Rightarrow> Some (- EINVAL, e)
      | Some idx \<Rightarrow>
          do { z \<leftarrow> aget (memzone e) idx;
               let addr = mz_addr z;
               (ret, e) \<leftarrow>
                 (if addr = 0 then Some (- EINVAL, e)
                  else if memzone_cnt e = 0 then None
                  else Some (0, e\<lparr>memzone := (memzone e)[idx := null_memzone],
                                  memzone_cnt := memzone_cnt e - 1\<rparr>));
               Some (ret, e\<lparr>malloc_heaps := rte_free ops (malloc_heaps e) addr\<rparr>) })"

definition rte_memzone_lookup :: "('h, 'z) eal_scheme \<Rightarrow> string \<Rightarrow> nat option" where
  "rte_memzone_lookup e name = memzone_lookup_thread_unsafe e name"

text \<open>Initialisation in the primary process, the heap initialisation being a parameter.\<close>
definition rte_eal_memzone_init ::
  "bool \<Rightarrow> bool \<Rightarrow> ('h \<Rightarrow> int \<times> 'h) \<Rightarrow> ('h, 'z) eal_scheme \<Rightarrow> int \<times> ('h, 'z) eal_scheme" where
  "rte_eal_memzone_init secondary layout_null rte_eal_malloc_heap_init e =
     (if secondary then (0, e)
      else if layout_null then (- 1, e)
      else
        let e = e\<lparr>memzone_cnt := 0, memzone := replicate RTE_MAX_MEMZONE null_memzone\<rparr>;
            (ret, h) = rte_eal_malloc_heap_init (malloc_heaps e)
        in (ret, e\<lparr>malloc_heaps := h\<rparr>))"

definition rte_memzone_walk :: "(rte_memzone \<Rightarrow> 's \<Rightarrow> 's) \<Rightarrow> ('h, 'z) eal_scheme \<Rightarrow> 's \<Rightarrow> 's" where
  "rte_memzone_walk func e s = fold (\<lambda>mz s. if mz_addr mz \<noteq> 0 then func mz s else s) (memzone e) s"

section \<open>Scans and the invariant\<close>

lemma scan_Some: "scan P xs = Some i \<Longrightarrow> i < length xs \<and> P (xs ! i)"
  by (induction xs arbitrary: i) (auto split: if_splits)

lemma scan_None: "scan P xs = None \<longleftrightarrow> (\<forall>x\<in>set xs. \<not> P x)"
  by (induction xs) auto

lemma scan_update:
  assumes "i < length xs" and "\<not> P (xs ! i)"
  shows "scan P (xs[i := x]) =
    (if P x then (case scan P xs of None \<Rightarrow> Some i | Some j \<Rightarrow> Some (min i j)) else scan P xs)"
  using assms
proof (induction xs arbitrary: i)
  case (Cons y ys)
  then show ?case by (cases i) (auto split: option.splits)
qed simp

lemma scan_cong: "(\<And>x. x \<in> set xs \<Longrightarrow> P x = Q x) \<Longrightarrow> scan P xs = scan Q xs"
  by (induction xs) auto

lemma scan_clear:
  assumes "i < length xs" and "\<not> P x" and "\<And>j. j < length xs \<Longrightarrow> j \<noteq> i \<Longrightarrow> \<not> P (xs ! j)"
  shows "scan P (xs[i := x]) = None"
  using assms by (auto simp: scan_None in_set_conv_nth nth_list_update split: if_splits)

lemma length_filter_update:
  assumes "i < length xs"
  shows "length (filter P (xs[i := x])) + (if P (xs ! i) then 1 else 0) =
    length (filter P xs) + (if P x then 1 else 0)"
  using assms
proof (induction xs arbitrary: i)
  case (Cons y ys)
  then show ?case by (cases i) auto
qed simp

abbreviation mz_used :: "rte_memzone \<Rightarrow> bool" where
  "mz_used mz \<equiv> mz_addr mz \<noteq> 0"

text \<open>The table is complete, the counter is the number of zones in use, and names are terminated.\<close>
definition mz_inv :: "('h, 'z) eal_scheme \<Rightarrow> bool" where
  "mz_inv e \<longleftrightarrow> length (memzone e) = RTE_MAX_MEMZONE
     \<and> unat (memzone_cnt e) = length (filter mz_used (memzone e))
     \<and> list_all (\<lambda>mz. length (mz_name mz) < RTE_MEMZONE_NAMESIZE) (memzone e)"

text \<open>No two zones in use share a name.\<close>
definition mz_unique :: "('h, 'z) eal_scheme \<Rightarrow> bool" where
  "mz_unique e \<longleftrightarrow> (\<forall>i<length (memzone e). \<forall>j<length (memzone e).
     mz_used (memzone e ! i) \<longrightarrow> mz_used (memzone e ! j) \<longrightarrow>
     mz_name (memzone e ! i) = mz_name (memzone e ! j) \<longrightarrow> i = j)"

lemma mz_inv_cnt: "mz_inv e \<Longrightarrow> unat (memzone_cnt e) \<le> RTE_MAX_MEMZONE"
  unfolding mz_inv_def by (metis length_filter_le)

lemma mz_room:
  assumes "mz_inv e" and "unat (memzone_cnt e) < RTE_MAX_MEMZONE"
  shows "\<exists>i. get_next_free_memzone e = Some i"
proof (rule ccontr)
  assume "\<nexists>i. get_next_free_memzone e = Some i"
  then have "\<forall>mz\<in>set (memzone e). mz_used mz"
    by (auto simp: get_next_free_memzone_def scan_None [symmetric])
  then have "filter mz_used (memzone e) = memzone e" by (rule filter_True)
  then show False using assms by (simp add: mz_inv_def)
qed

text \<open>The two outcomes of a reservation.\<close>
definition mz_taken :: "string \<Rightarrow> ('h, 'z) eal_scheme \<Rightarrow> nat \<Rightarrow> ('h, 'z) eal_scheme \<Rightarrow> bool" where
  "mz_taken name e i e' \<longleftrightarrow> get_next_free_memzone e = Some i
     \<and> memzone_lookup_thread_unsafe e name = None
     \<and> (\<exists>z h. mz_used z \<and> mz_name z = snprintf_s RTE_MEMZONE_NAMESIZE name
          \<and> e' = e\<lparr>malloc_heaps := h, memzone_cnt := memzone_cnt e + 1, memzone := (memzone e)[i := z]\<rparr>)"

lemma check_fresh: "memzone_check e name len socket_id align bound = Inr x \<Longrightarrow>
    memzone_lookup_thread_unsafe e name = None \<and> unat (memzone_cnt e) < RTE_MAX_MEMZONE"
  by (simp add: memzone_check_def split: if_splits)

lemma next_free_heaps [simp]:
  "get_next_free_memzone (e\<lparr>malloc_heaps := h\<rparr>) = get_next_free_memzone e"
  by (simp add: get_next_free_memzone_def)

lemma reserve_cases:
  assumes "memzone_reserve_aligned_thread_unsafe ops e name len socket_id flags align bound = (r, e')"
  shows "(r = None \<and> (\<exists>h err. e' = e\<lparr>malloc_heaps := h, rte_errno := err\<rparr>)) \<or>
    (\<exists>i. r = Some i \<and> mz_taken name e i e')"
proof (cases "memzone_check e name len socket_id align bound")
  case (Inl err)
  then have "r = None \<and> e' = e\<lparr>malloc_heaps := malloc_heaps e, rte_errno := err\<rparr>"
    using assms by (simp add: memzone_reserve_aligned_thread_unsafe_def)
  then show ?thesis by blast
next
  case (Inr x)
  obtain len' req' align' where x: "x = (len', req', align')" by (cases x)
  obtain addr req h where a: "memzone_heap_alloc ops (malloc_heaps e) len' req' socket_id flags align' bound = (addr, req, h)"
    by (metis prod_cases3)
  show ?thesis
  proof (cases "addr = 0 \<or> get_next_free_memzone e = None")
    case True
    then have "r = None \<and> (\<exists>err. e' = e\<lparr>malloc_heaps := h, rte_errno := err\<rparr>)"
      using assms Inr x a by (auto simp: memzone_reserve_aligned_thread_unsafe_def Let_def split: if_splits option.splits)
    then show ?thesis by blast
  next
    case False
    then obtain i where i: "get_next_free_memzone e = Some i" "addr \<noteq> 0" by blast
    have "r = Some i" and "e' = e\<lparr>malloc_heaps := h, memzone_cnt := memzone_cnt e + 1, memzone := (memzone e)[i :=
        memzone_fill (malloc_elem_from_data ops h addr) name addr req]\<rparr>"
      using assms Inr x a i by (simp_all add: memzone_reserve_aligned_thread_unsafe_def Let_def)
    moreover have "mz_used (memzone_fill (malloc_elem_from_data ops h addr) name addr req)"
      and "mz_name (memzone_fill (malloc_elem_from_data ops h addr) name addr req) =
             snprintf_s RTE_MEMZONE_NAMESIZE name"
      using i(2) by (simp_all add: memzone_fill_def)
    ultimately show ?thesis using i(1) check_fresh [OF Inr] unfolding mz_taken_def by blast
  qed
qed

section \<open>What the operations keep and change\<close>

lemma mz_lookup_updates [simp]:
  "memzone_lookup_thread_unsafe (e\<lparr>malloc_heaps := h\<rparr>) = memzone_lookup_thread_unsafe e"
  "memzone_lookup_thread_unsafe (e\<lparr>rte_errno := err\<rparr>) = memzone_lookup_thread_unsafe e"
  "mz_inv (e\<lparr>malloc_heaps := h\<rparr>) = mz_inv e"
  "mz_inv (e\<lparr>rte_errno := err\<rparr>) = mz_inv e"
  "mz_unique (e\<lparr>malloc_heaps := h\<rparr>) = mz_unique e"
  "mz_unique (e\<lparr>rte_errno := err\<rparr>) = mz_unique e"
  by (simp_all add: memzone_lookup_thread_unsafe_def mz_inv_def mz_unique_def fun_eq_iff)

lemma mz_taken_slot:
  assumes "mz_taken name e i e'"
  shows "i < length (memzone e)" and "\<not> mz_used (memzone e ! i)"
  using assms scan_Some unfolding mz_taken_def get_next_free_memzone_def by fast+

lemma mz_taken_inv:
  assumes taken: "mz_taken name e i e'" and inv: "mz_inv e"
  shows "mz_inv e'" and "unat (memzone_cnt e') = Suc (unat (memzone_cnt e))"
proof -
  obtain z h where z: "mz_used z" "mz_name z = snprintf_s RTE_MEMZONE_NAMESIZE name"
    and e': "e' = e\<lparr>malloc_heaps := h, memzone_cnt := memzone_cnt e + 1, memzone := (memzone e)[i := z]\<rparr>"
    using taken unfolding mz_taken_def by blast
  note slot = mz_taken_slot [OF taken]
  have len: "length (filter mz_used ((memzone e)[i := z])) = Suc (length (filter mz_used (memzone e)))"
    using length_filter_update [OF slot(1), of mz_used z] slot(2) z(1) by simp
  have "length (filter mz_used ((memzone e)[i := z])) \<le> RTE_MAX_MEMZONE"
    using inv length_filter_le [of mz_used "(memzone e)[i := z]"] by (simp add: mz_inv_def)
  then have "Suc (unat (memzone_cnt e)) < 2 ^ 32"
    using len inv by (simp add: mz_inv_def RTE_MAX_MEMZONE_def)
  then have cnt: "unat (memzone_cnt e + 1) = Suc (unat (memzone_cnt e))"
    by (simp add: unat_word_ariths)
  then show "unat (memzone_cnt e') = Suc (unat (memzone_cnt e))" by (simp add: e')
  have "list_all (\<lambda>mz. length (mz_name mz) < RTE_MEMZONE_NAMESIZE) ((memzone e)[i := z])"
    using inv z(2) length_snprintf_s [of RTE_MEMZONE_NAMESIZE name]
    by (intro list_all_update) (simp_all add: mz_inv_def RTE_MEMZONE_NAMESIZE_def)
  then show "mz_inv e'" using inv len cnt by (simp add: mz_inv_def e')
qed

lemma mz_taken_lookup:
  assumes taken: "mz_taken name e i e'" and short: "length name < RTE_MEMZONE_NAMESIZE"
  shows "memzone_lookup_thread_unsafe e' name' =
    (if name' = name then Some i else memzone_lookup_thread_unsafe e name')"
proof -
  let ?P = "\<lambda>n mz. mz_used mz \<and> strncmp_eq n (mz_name mz) RTE_MEMZONE_NAMESIZE"
  obtain z h where z: "mz_used z" "mz_name z = name"
    and e': "memzone e' = (memzone e)[i := z]"
    using taken short unfolding mz_taken_def by (auto simp: snprintf_s_id)
  note slot = mz_taken_slot [OF taken]
  have "scan (?P name') ((memzone e)[i := z]) =
    (if ?P name' z then (case scan (?P name') (memzone e) of None \<Rightarrow> Some i | Some j \<Rightarrow> Some (min i j))
     else scan (?P name') (memzone e))"
    by (rule scan_update [OF slot(1)]) (simp add: slot(2))
  moreover have "?P name' z \<longleftrightarrow> name' = name"
    using z short by (simp add: strncmp_eq_short2)
  moreover have "scan (?P name) (memzone e) = None"
    using taken by (simp add: mz_taken_def memzone_lookup_thread_unsafe_def)
  ultimately show ?thesis by (auto simp: memzone_lookup_thread_unsafe_def e')
qed

lemma mz_taken_unique:
  assumes taken: "mz_taken name e i e'" and short: "length name < RTE_MEMZONE_NAMESIZE"
    and uniq: "mz_unique e"
  shows "mz_unique e'"
proof -
  obtain z where z: "mz_name z = name" and e': "memzone e' = (memzone e)[i := z]"
    using taken short unfolding mz_taken_def by (auto simp: snprintf_s_id)
  have fresh: "mz_name (memzone e ! j) \<noteq> name" if "j < length (memzone e)" "mz_used (memzone e ! j)" for j
    using taken that short
    by (auto simp: mz_taken_def memzone_lookup_thread_unsafe_def scan_None strncmp_eq_short)
  show ?thesis unfolding mz_unique_def
  proof (intro allI impI)
    fix j k
    assume len: "j < length (memzone e')" "k < length (memzone e')"
      and used: "mz_used (memzone e' ! j)" "mz_used (memzone e' ! k)"
      and eq: "mz_name (memzone e' ! j) = mz_name (memzone e' ! k)"
    consider "j = i" "k = i" | "j = i" "k \<noteq> i" | "j \<noteq> i" "k = i" | "j \<noteq> i" "k \<noteq> i" by blast
    then show "j = k"
    proof cases
      case 2
      then show ?thesis using len used eq z fresh [of k] by (simp add: e')
    next
      case 3
      then show ?thesis using len used eq z fresh [of j] by (simp add: e')
    next
      case 4
      then show ?thesis using len used eq uniq by (simp add: e' mz_unique_def)
    qed simp
  qed
qed

lemma free_result:
  assumes inv: "mz_inv e" and "i < length (memzone e)" and "mz_used (memzone e ! i)"
  shows "\<exists>e'. rte_memzone_free ops e (Some i) = Some (0, e') \<and> mz_inv e'
    \<and> memzone e' = (memzone e)[i := null_memzone]
    \<and> Suc (unat (memzone_cnt e')) = unat (memzone_cnt e)"
proof -
  have cnt: "Suc (length (filter mz_used ((memzone e)[i := null_memzone]))) = length (filter mz_used (memzone e))"
    using length_filter_update [OF assms(2), of mz_used null_memzone] assms(3)
    by (simp add: null_memzone_def)
  then have nz: "memzone_cnt e \<noteq> 0" using inv by (auto simp: mz_inv_def)
  then have dec: "Suc (unat (memzone_cnt e - 1)) = unat (memzone_cnt e)"
    by (simp add: unat_minus_one unat_gt_0)
  have "list_all (\<lambda>mz. length (mz_name mz) < RTE_MEMZONE_NAMESIZE) ((memzone e)[i := null_memzone])"
    using inv by (intro list_all_update) (simp_all add: mz_inv_def null_memzone_def RTE_MEMZONE_NAMESIZE_def)
  then show ?thesis
    using inv assms(2,3) cnt nz dec by (simp add: rte_memzone_free_def mz_inv_def)
qed

lemma free_lookup:
  assumes "mz_unique e" and "rte_memzone_lookup e name = Some i" and "mz_inv e"
    and "rte_memzone_free ops e (Some i) = Some (0, e')"
  shows "rte_memzone_lookup e' name = None"
proof -
  let ?P = "\<lambda>mz. mz_used mz \<and> strncmp_eq name (mz_name mz) RTE_MEMZONE_NAMESIZE"
  have i: "i < length (memzone e)" "?P (memzone e ! i)"
    using assms(2) scan_Some unfolding rte_memzone_lookup_def memzone_lookup_thread_unsafe_def by fast+
  have name: "\<And>j. j < length (memzone e) \<Longrightarrow> ?P (memzone e ! j) \<Longrightarrow> mz_name (memzone e ! j) = name"
    using assms(3) by (simp add: mz_inv_def list_all_length strncmp_eq_short2)
  have "scan ?P ((memzone e)[i := null_memzone]) = None"
  proof (rule scan_clear [OF i(1)])
    show "\<not> ?P null_memzone" by (simp add: null_memzone_def)
    fix j assume j: "j < length (memzone e)" "j \<noteq> i"
    show "\<not> ?P (memzone e ! j)"
    proof
      assume Pj: "?P (memzone e ! j)"
      have "mz_name (memzone e ! j) = mz_name (memzone e ! i)" using name [OF j(1) Pj] name [OF i] by simp
      then have "j = i" using assms(1) j(1) i Pj unfolding mz_unique_def by blast
      then show False using j(2) by blast
    qed
  qed
  moreover have "memzone e' = (memzone e)[i := null_memzone]"
    using free_result [OF assms(3) i(1), of ops] i(2) assms(4) by auto
  ultimately show ?thesis by (simp add: rte_memzone_lookup_def memzone_lookup_thread_unsafe_def)
qed

lemma round_up_64:
  fixes len :: u64
  assumes "len \<le> - 1 - 63"
  shows "unat ((len + 63) AND NOT 63) = RTE_ALIGN (unat len) 64"
proof -
  have "unat len \<le> unat (- 1 - 63 :: u64)" using assms by (simp only: word_le_nat_alt)
  then have "unat (len + 63) = unat len + 63" by (simp add: unat_word_ariths)
  moreover have "(63::u64) = mask 6" by (simp add: mask_eq_exp_minus_1)
  ultimately have "unat ((len + 63) AND NOT 63) = (unat len + 63) - (unat len + 63) mod 64"
    using unat_and_not_mask [of "len + 63" 6] by simp
  then show ?thesis by (simp add: RTE_ALIGN_def minus_mod_eq_div_mult)
qed

lemma heap_alloc_requested:
  "len \<noteq> 0 \<Longrightarrow> \<exists>addr h'. memzone_heap_alloc ops h len req socket_id flags align bound = (addr, req, h')"
  by (simp add: memzone_heap_alloc_def Let_def split_beta)

text \<open>The descriptor of a zone that was reserved with a length.\<close>
lemma reserve_zone:
  assumes "memzone_reserve_aligned_thread_unsafe ops e name len socket_id flags align 0 = (Some i, e')"
    and "len \<noteq> 0"
  obtains r addr h where "unat r = RTE_ALIGN (unat len) 64" and "r \<noteq> 0" and "addr \<noteq> 0"
    and "memzone_heap_alloc ops (malloc_heaps e) r r socket_id flags (if align < 64 then 64 else align) 0 = (addr, r, h)"
    and "memzone e' ! i = memzone_fill (malloc_elem_from_data ops h addr) name addr r"
proof -
  let ?r = "(len + 63) AND NOT 63" and ?al = "if align < 64 then 64 else align"
  obtain x where x: "memzone_check e name len socket_id align 0 = Inr x"
    using assms(1) by (auto simp: memzone_reserve_aligned_thread_unsafe_def split: sum.splits)
  have x': "x = (?r, max 64 ?r, ?al)" and le: "len \<le> - 1 - 63"
    using x by (auto simp: memzone_check_def Let_def not_less split: if_splits)
  have r: "unat ?r = RTE_ALIGN (unat len) 64" by (rule round_up_64 [OF le])
  have ge: "64 \<le> unat ?r"
  proof -
    have "0 < unat len" using assms(2) by (simp add: unat_gt_0)
    then have "0 < unat ?r" using r RTE_ALIGN_bounds(1) [of 64 "unat len"] by linarith
    moreover have "64 dvd unat ?r" using r RTE_ALIGN_bounds(3) [of 64 "unat len"] by simp
    ultimately show ?thesis by (metis dvd_imp_le)
  qed
  then have nz: "?r \<noteq> 0" and mx: "max 64 ?r = ?r" by (auto simp: max_def word_le_nat_alt)
  obtain addr h where a: "memzone_heap_alloc ops (malloc_heaps e) ?r ?r socket_id flags ?al 0 = (addr, ?r, h)"
    using heap_alloc_requested [OF nz, of ops "malloc_heaps e" ?r socket_id flags ?al 0] by auto
  have "addr \<noteq> 0" and free: "get_next_free_memzone e = Some i" and "memzone e' = (memzone e)[i :=
      memzone_fill (malloc_elem_from_data ops h addr) name addr ?r]"
    using assms(1) x a mx unfolding x'
    by (auto simp: memzone_reserve_aligned_thread_unsafe_def Let_def split: if_splits option.splits)
  moreover have "i < length (memzone e)" using free scan_Some unfolding get_next_free_memzone_def by fast
  ultimately show thesis using that [OF r nz _ a] by simp
qed

lemma reserve_len:
  assumes "memzone_reserve_aligned_thread_unsafe ops e name len socket_id flags align 0 = (Some i, e')"
    and "len \<noteq> 0"
  shows "unat (mz_len (memzone e' ! i)) = RTE_ALIGN (unat len) 64"
proof -
  obtain r addr h where "unat r = RTE_ALIGN (unat len) 64" "r \<noteq> 0"
    "memzone e' ! i = memzone_fill (malloc_elem_from_data ops h addr) name addr r"
    using reserve_zone [OF assms] .
  then show ?thesis by (simp add: memzone_fill_def)
qed

text \<open>
  What the heap promises of a block: it is aligned as asked for and lies in the lower half of the
  address space, where the memory of user programs is.
\<close>
definition heap_sound :: "'h heap_ops \<Rightarrow> bool" where
  "heap_sound ops \<longleftrightarrow> (\<forall>h s len fl al bd a h'. malloc_heap_alloc ops h s len fl al bd = (a, h') \<longrightarrow> a \<noteq> 0 \<longrightarrow> al \<noteq> 0 \<longrightarrow>
     unat al dvd unat a \<and> unat a + unat len < 2 ^ 63)"

lemma try_other_heaps_sound:
  assumes "heap_sound ops" and "try_other_heaps ops is socket len fl al bd h = (a, h')" and "a \<noteq> 0" and "al \<noteq> 0"
  shows "unat al dvd unat a \<and> unat a + unat len < 2 ^ 63"
  using assms(2)
proof (induction "is" arbitrary: h)
  case Nil
  then show ?case using assms(3) by simp
next
  case (Cons i "is")
  obtain a1 h1 where a1: "malloc_heap_alloc ops h i len fl al bd = (a1, h1)" by fastforce
  show ?case
  proof (cases "socket = i \<or> a1 = 0")
    case True
    then have "try_other_heaps ops is socket len fl al bd (if socket = i then h else h1) = (a, h')"
      using Cons.prems a1 by (cases "socket = i") auto
    then show ?thesis by (rule Cons.IH)
  next
    case False
    then have "a1 = a" using Cons.prems a1 by simp
    then show ?thesis using assms(1,3,4) a1 unfolding heap_sound_def by blast
  qed
qed

lemma heap_alloc_sound:
  assumes sound: "heap_sound ops" and "memzone_heap_alloc ops h len req socket_id fl al 0 = (a, req', h')"
    and "len \<noteq> 0" and "a \<noteq> 0" and "al \<noteq> 0"
  shows "unat al dvd unat a \<and> unat a + unat req < 2 ^ 63"
proof -
  define sid where "sid = (if rte_eal_has_hugepages ops then socket_id else SOCKET_ID_ANY)"
  define sock where "sock = (if sid = SOCKET_ID_ANY then malloc_get_numa_socket ops else sid)"
  obtain a1 h1 where a1: "malloc_heap_alloc ops h sock req fl al 0 = (a1, h1)" by fastforce
  show ?thesis
  proof (cases "a1 = 0 \<and> sid = SOCKET_ID_ANY")
    case True
    then have sk: "sock = malloc_get_numa_socket ops" by (simp add: sock_def)
    have "try_other_heaps ops [0..RTE_MAX_NUMA_NODES - 1] sock req fl al 0 h1 = (a, h')"
      using assms(2,3) a1 True unfolding sk by (auto simp: memzone_heap_alloc_def Let_def sid_def [symmetric] split: prod.splits)
    then show ?thesis using try_other_heaps_sound [OF sound] assms(4,5) by blast
  next
    case False
    then have "a1 = a"
      using assms(2,3) a1 by (auto simp: memzone_heap_alloc_def Let_def sid_def [symmetric] sock_def [symmetric])
    then show ?thesis using sound a1 assms(4,5) unfolding heap_sound_def by blast
  qed
qed

text \<open>A reserved zone is aligned and lies inside the address space.\<close>
lemma reserve_place:
  assumes sound: "heap_sound ops" and "rte_memzone_reserve ops e name len socket_id flags = (Some i, e')" and "len \<noteq> 0"
  shows "64 dvd unat (mz_addr (memzone e' ! i))"
    and "unat (mz_addr (memzone e' ! i)) + unat (mz_len (memzone e' ! i)) < 2 ^ 63"
proof -
  have res: "memzone_reserve_aligned_thread_unsafe ops e name len socket_id flags 64 0 = (Some i, e')"
    using assms(2) by (simp add: rte_memzone_reserve_def rte_memzone_reserve_thread_safe_def RTE_CACHE_LINE_SIZE_def)
  obtain r addr h where z: "r \<noteq> 0" "addr \<noteq> 0"
    "memzone_heap_alloc ops (malloc_heaps e) r r socket_id flags (if (64 :: u32) < 64 then 64 else 64) 0 = (addr, r, h)"
    "memzone e' ! i = memzone_fill (malloc_elem_from_data ops h addr) name addr r"
    using reserve_zone [OF res assms(3)] .
  then have "unat (64 :: u32) dvd unat addr \<and> unat addr + unat r < 2 ^ 63"
    by (intro heap_alloc_sound [OF sound z(3) [unfolded if_cancel] z(1,2)]) simp
  then show "64 dvd unat (mz_addr (memzone e' ! i))"
    "unat (mz_addr (memzone e' ! i)) + unat (mz_len (memzone e' ! i)) < 2 ^ 63"
    using z by (simp_all add: memzone_fill_def)
qed

lemma reserve_enospc:
  assumes inv: "mz_inv e"
    and "memzone_reserve_aligned_thread_unsafe ops e name len socket_id flags align bound = (None, e')"
  shows "rte_errno e' = ENOSPC \<longleftrightarrow> unat (memzone_cnt e) = RTE_MAX_MEMZONE"
proof (cases "memzone_check e name len socket_id align bound")
  case (Inl err)
  then have "rte_errno e' = err" using assms(2) by (auto simp: memzone_reserve_aligned_thread_unsafe_def)
  moreover have "err = ENOSPC \<longleftrightarrow> RTE_MAX_MEMZONE \<le> unat (memzone_cnt e)"
    using Inl by (auto simp: memzone_check_def Let_def errno_simps split: if_splits)
  ultimately show ?thesis using mz_inv_cnt [OF inv] by auto
next
  case (Inr x)
  then have room: "unat (memzone_cnt e) < RTE_MAX_MEMZONE" by (simp add: check_fresh)
  then obtain i where "get_next_free_memzone e = Some i" using mz_room [OF inv] by blast
  then have "rte_errno e' = ENOMEM"
    using assms(2) Inr
    by (auto simp: memzone_reserve_aligned_thread_unsafe_def Let_def split: if_splits prod.splits)
  then show ?thesis using room by (simp add: errno_simps)
qed

section \<open>Properties\<close>

text \<open>A heap with one large block for the witnesses: every allocation gets the next address.\<close>
definition bump_ops :: "u64 heap_ops" where
  "bump_ops = \<lparr>malloc_heap_alloc = (\<lambda>h s len flags align bound. (h, h + len)),
     malloc_elem_from_data = (\<lambda>h a. \<lparr>elem_size = 64, elem_hugepage_sz = 0x200000, elem_socket_id = 0,
        elem_memseg_id = 0, elem_phys = a\<rparr>),
     greatest_free_size = (\<lambda>h s. 0x40000000), malloc_get_numa_socket = 0, rte_eal_has_hugepages = True,
     rte_zmalloc = (\<lambda>h len. (h, h + len)), rte_free = (\<lambda>h a. h)\<rparr>"

definition eal_0 :: "u64 eal" where
  "eal_0 = \<lparr>memzone_cnt = 0, memzone = replicate RTE_MAX_MEMZONE null_memzone,
     malloc_heaps = 0x100000, rte_errno = 0\<rparr>"

lemma eal_0_inv: "mz_inv eal_0" "mz_unique eal_0"
  by (simp_all add: mz_inv_def mz_unique_def eal_0_def null_memzone_def list_all_iff RTE_MEMZONE_NAMESIZE_def)

lemma eal_0_fields: "memzone_cnt eal_0 = 0" "malloc_heaps eal_0 = 0x100000"
  by (simp_all add: eal_0_def)

lemma eal_0_lookup: "memzone_lookup_thread_unsafe eal_0 name = None"
  by (simp add: memzone_lookup_thread_unsafe_def scan_None eal_0_def null_memzone_def)

text \<open>
  C39. A memory zone reserved under a name that fits its field is found under that name and no
  other name changes its meaning; the zone is at least as long as asked for, in whole cache
  lines, the table stays consistent and its names stay unique. A reservation that fails leaves
  the table as it was, and the failure is for lack of room exactly when all slots are in use,
  so the "room in config but no free slot" failure never happens.
\<close>
theorem memzone_reserve_lookup:
  assumes inv: "mz_inv e" and short: "length name < RTE_MEMZONE_NAMESIZE" and "len \<noteq> 0"
    and res: "rte_memzone_reserve ops e name len socket_id flags = (r, e')"
  shows "mz_inv e' \<and> (mz_unique e \<longrightarrow> mz_unique e')
    \<and> (case r of
         Some i \<Rightarrow> (\<forall>name'. rte_memzone_lookup e' name' =
                      (if name' = name then Some i else rte_memzone_lookup e name'))
           \<and> unat (mz_len (memzone e' ! i)) = RTE_ALIGN (unat len) 64
       | None \<Rightarrow> memzone e' = memzone e
           \<and> (rte_errno e' = ENOSPC \<longleftrightarrow> unat (memzone_cnt e) = RTE_MAX_MEMZONE))"
proof -
  note r = res [unfolded rte_memzone_reserve_def rte_memzone_reserve_thread_safe_def]
  consider "r = None" "\<exists>h err. e' = e\<lparr>malloc_heaps := h, rte_errno := err\<rparr>"
    | i where "r = Some i" "mz_taken name e i e'"
    using reserve_cases [OF r] by blast
  then show ?thesis
  proof cases
    case 1
    then show ?thesis using inv reserve_enospc [OF inv r [unfolded 1(1)]] by auto
  next
    case 2
    then show ?thesis
      using mz_taken_inv(1) [OF 2(2) inv] mz_taken_unique [OF 2(2) short] mz_taken_lookup [OF 2(2) short]
        reserve_len [OF r [unfolded 2(1)] assms(3)]
      by (simp add: rte_memzone_lookup_def)
  qed
qed

theorem memzone_reserve_lookup_witness:
  "\<exists>r e'. rte_memzone_reserve bump_ops eal_0 ''RG_MProc_Client_0_RX'' 1152 0 0 = (r, e') \<and> mz_inv e'
     \<and> r \<noteq> None \<and> rte_memzone_lookup e' ''RG_MProc_Client_0_RX'' = r"
proof -
  let ?n = "''RG_MProc_Client_0_RX''"
  obtain r e' where res: "rte_memzone_reserve bump_ops eal_0 ?n 1152 0 0 = (r, e')" by fastforce
  have chk: "memzone_check eal_0 ?n 1152 0 64 0 = Inr (1152, 1152, 64)"
    by (simp add: memzone_check_def eal_0_lookup Let_def rte_is_power_of_2_def SOCKET_ID_ANY_def
        RTE_MAX_NUMA_NODES_def RTE_MAX_MEMZONE_def eal_0_fields)
  have "get_next_free_memzone eal_0 = Some 0"
    by (simp add: get_next_free_memzone_def eal_0_def RTE_MAX_MEMZONE_def null_memzone_def numeral_eq_Suc)
  then have "r = Some 0"
    using res chk
    by (auto simp: rte_memzone_reserve_def rte_memzone_reserve_thread_safe_def RTE_CACHE_LINE_SIZE_def
        memzone_reserve_aligned_thread_unsafe_def memzone_heap_alloc_def bump_ops_def Let_def eal_0_fields
        SOCKET_ID_ANY_def)
  then show ?thesis
    using memzone_reserve_lookup [OF eal_0_inv(1) _ _ res] res
    by (auto simp: RTE_MEMZONE_NAMESIZE_def)
qed

text \<open>
  Freeing a zone that a lookup found succeeds, never reaches the panic branch, keeps the
  table consistent, gives one slot back, and the name is unknown afterwards.
\<close>
theorem memzone_free_lookup:
  assumes "mz_inv e" and "mz_unique e" and "rte_memzone_lookup e name = Some i"
  shows "\<exists>e'. rte_memzone_free ops e (Some i) = Some (0, e') \<and> mz_inv e'
    \<and> Suc (unat (memzone_cnt e')) = unat (memzone_cnt e) \<and> rte_memzone_lookup e' name = None"
proof -
  have "i < length (memzone e)" "mz_used (memzone e ! i)"
    using assms(3) scan_Some unfolding rte_memzone_lookup_def memzone_lookup_thread_unsafe_def by fast+
  then obtain e' where "rte_memzone_free ops e (Some i) = Some (0, e')" "mz_inv e'"
    "Suc (unat (memzone_cnt e')) = unat (memzone_cnt e)"
    using free_result [OF assms(1)] by blast
  then show ?thesis using free_lookup [OF assms(2,3,1)] by blast
qed

definition eal_1 :: "u64 eal" where
  "eal_1 = eal_0\<lparr>memzone_cnt := 1, memzone := (memzone eal_0)[0 :=
     memzone_fill (malloc_elem_from_data bump_ops 0 0x1000) ''MProc_pool'' 0x1000 64]\<rparr>"

lemma eal_1_inv: "mz_inv eal_1" "mz_unique eal_1" "rte_memzone_lookup eal_1 ''MProc_pool'' = Some 0"
proof -
  have "replicate RTE_MAX_MEMZONE null_memzone = null_memzone # replicate 2559 null_memzone"
    by (simp add: RTE_MAX_MEMZONE_def replicate_Suc [symmetric] del: replicate_Suc)
  then have m: "memzone eal_1 = memzone_fill (malloc_elem_from_data bump_ops 0 0x1000) ''MProc_pool'' 0x1000 64
      # replicate 2559 null_memzone"
    by (simp add: eal_1_def eal_0_def)
  show "mz_inv eal_1"
    by (simp add: mz_inv_def m) (simp add: eal_1_def memzone_fill_def null_memzone_def list_all_iff
        RTE_MEMZONE_NAMESIZE_def RTE_MAX_MEMZONE_def snprintf_s_def)
  show "mz_unique eal_1"
    by (auto simp: mz_unique_def m nth_Cons null_memzone_def split: nat.splits)
  show "rte_memzone_lookup eal_1 ''MProc_pool'' = Some 0"
    by (simp add: rte_memzone_lookup_def memzone_lookup_thread_unsafe_def m memzone_fill_def
        strncmp_eq_short RTE_MEMZONE_NAMESIZE_def snprintf_s_def)
qed

theorem memzone_free_lookup_witness:
  "\<exists>e'. rte_memzone_free bump_ops eal_1 (Some 0) = Some (0, e') \<and> mz_inv e'
    \<and> Suc (unat (memzone_cnt e')) = unat (memzone_cnt eal_1) \<and> rte_memzone_lookup e' ''MProc_pool'' = None"
  by (rule memzone_free_lookup [OF eal_1_inv])

end
