(* ===== verification/Rte_Ring.thy ===== *)
theory Rte_Ring
  imports Rte_Memzone
begin

text \<open>
  The lock-free ring of \<open>lib/librte_ring\<close>: the structure, its initialisation, the
  single- and multi-producer enqueue, the single- and multi-consumer dequeue with the
  unrolled copy loops, the public wrappers and the counters. Indexes are 32-bit words and
  wrap, as in the code. A result \<^term>\<open>None\<close> is an access outside an array or a wait that
  never ends; the theorems show when neither happens.
\<close>

unbundle bit_operations_syntax

section \<open>The ring structure (rte_ring.h)\<close>

text \<open>
  The field \<open>memzone\<close> is the index of the zone in the memzone table, \<^term>\<open>None\<close> for
  \<open>NULL\<close>. The array \<open>ring[]\<close> that follows the structure is the list \<open>ring_slots\<close>.
\<close>

datatype rte_ring_queue_behavior =
  RTE_RING_QUEUE_FIXED | RTE_RING_QUEUE_VARIABLE

record ring_prod =
  prod_watermark :: u32
  prod_sp_enqueue :: bool
  prod_size :: u32
  prod_mask :: u32
  prod_head :: u32
  prod_tail :: u32

record ring_cons =
  cons_sc_dequeue :: bool
  cons_size :: u32
  cons_mask :: u32
  cons_head :: u32
  cons_tail :: u32

record 'a rte_ring =
  ring_name :: string
  ring_flags :: u32
  ring_memzone :: "nat option"
  prod :: ring_prod
  cons :: ring_cons
  ring_slots :: "'a list"

definition RTE_RING_NAMESIZE :: nat where "RTE_RING_NAMESIZE = 32"
definition RING_F_SP_ENQ :: u32 where "RING_F_SP_ENQ = 1"
definition RING_F_SC_DEQ :: u32 where "RING_F_SC_DEQ = 2"
definition RTE_RING_QUOT_EXCEED :: u32 where "RTE_RING_QUOT_EXCEED = push_bit 31 1"
definition RTE_RING_SZ_MASK :: u32 where "RTE_RING_SZ_MASK = 0x0fffffff"

text \<open>
  The x86-64 layout without \<open>RTE_RING_SPLIT_PROD_CONS\<close>: name, flags and memzone in the
  first cache line, both index structures in the second, \<open>ring[]\<close> from byte 128 on.
\<close>
definition sizeof_rte_ring :: nat where "sizeof_rte_ring = 128"

lemmas ring_consts = RTE_RING_NAMESIZE_def RING_F_SP_ENQ_def RING_F_SC_DEQ_def
  RTE_RING_QUOT_EXCEED_def RTE_RING_SZ_MASK_def RTE_CACHE_LINE_SIZE_def sizeof_rte_ring_def

section \<open>Sizing and initialisation (rte_ring.c)\<close>

definition POWEROF2 :: "u32 \<Rightarrow> bool" where
  "POWEROF2 x \<longleftrightarrow> (x - 1) AND x = 0"

definition rte_ring_get_memsize :: "u32 \<Rightarrow> int" where
  "rte_ring_get_memsize cnt =
     (if \<not> POWEROF2 cnt \<or> cnt > RTE_RING_SZ_MASK then - EINVAL
      else int (RTE_ALIGN (sizeof_rte_ring + unat cnt * 8) RTE_CACHE_LINE_SIZE))"

definition rte_ring_init :: "'a rte_ring \<Rightarrow> string \<Rightarrow> u32 \<Rightarrow> u32 \<Rightarrow> int \<times> 'a rte_ring" where
  "rte_ring_init r name cnt flags =
     (0, \<lparr>ring_name = snprintf_s RTE_RING_NAMESIZE name,
          ring_flags = flags,
          ring_memzone = None,
          prod = \<lparr>prod_watermark = cnt,
                  prod_sp_enqueue = (flags AND RING_F_SP_ENQ \<noteq> 0),
                  prod_size = cnt, prod_mask = cnt - 1,
                  prod_head = 0, prod_tail = 0\<rparr>,
          cons = \<lparr>cons_sc_dequeue = (flags AND RING_F_SC_DEQ \<noteq> 0),
                  cons_size = cnt, cons_mask = cnt - 1,
                  cons_head = 0, cons_tail = 0\<rparr>,
          ring_slots = ring_slots r\<rparr>)"

definition rte_ring_set_water_mark :: "'a rte_ring \<Rightarrow> u32 \<Rightarrow> int \<times> 'a rte_ring" where
  "rte_ring_set_water_mark r cnt =
     (if cnt \<ge> prod_size (prod r) then (- EINVAL, r)
      else
        let cnt = (if cnt = 0 then prod_size (prod r) else cnt)
        in (0, r\<lparr>prod := (prod r)\<lparr>prod_watermark := cnt\<rparr>\<rparr>))"

section \<open>The copy loops (ENQUEUE_PTRS and DEQUEUE_PTRS)\<close>

text \<open>
  Both macros run the same index computation and differ only in the assignment they make at
  each index pair: \<open>step i idx\<close> is \<open>r->ring[idx] = obj_table[i]\<close> for the enqueue and
  \<open>obj_table[i] = r->ring[idx]\<close> for the dequeue. The first loop is unrolled four times, the
  \<open>switch\<close> falls through, and the other branch runs to the end of the array and goes on at
  index 0. Loop indexes are natural numbers: they only grow, and an index would leave the array
  before it could leave 32 bits.
\<close>

function ptrs_loop4 ::
  "(nat \<Rightarrow> nat \<Rightarrow> 's \<Rightarrow> 's option) \<Rightarrow> nat \<Rightarrow> nat \<Rightarrow> nat \<Rightarrow> 's \<Rightarrow> (nat \<times> nat \<times> 's) option" where
  "ptrs_loop4 step bound i idx s =
     (if i < bound then
        do { s \<leftarrow> step i idx s;
             s \<leftarrow> step (i + 1) (idx + 1) s;
             s \<leftarrow> step (i + 2) (idx + 2) s;
             s \<leftarrow> step (i + 3) (idx + 3) s;
             ptrs_loop4 step bound (i + 4) (idx + 4) s }
      else Some (i, idx, s))"
  by pat_completeness auto
termination
  by (relation "measure (\<lambda>(step, bound, i, idx, s). bound - i)") auto

primrec ptrs_switch ::
  "(nat \<Rightarrow> nat \<Rightarrow> 's \<Rightarrow> 's option) \<Rightarrow> nat \<Rightarrow> nat \<Rightarrow> nat \<Rightarrow> 's \<Rightarrow> 's option" where
  "ptrs_switch step 0 i idx s = Some s"
| "ptrs_switch step (Suc k) i idx s =
     do { s \<leftarrow> step i idx s; ptrs_switch step k (i + 1) (idx + 1) s }"

function ptrs_to_end ::
  "(nat \<Rightarrow> nat \<Rightarrow> 's \<Rightarrow> 's option) \<Rightarrow> nat \<Rightarrow> nat \<Rightarrow> nat \<Rightarrow> 's \<Rightarrow> (nat \<times> 's) option" where
  "ptrs_to_end step sz i idx s =
     (if idx < sz then
        do { s \<leftarrow> step i idx s; ptrs_to_end step sz (i + 1) (idx + 1) s }
      else Some (i, s))"
  by pat_completeness auto
termination
  by (relation "measure (\<lambda>(step, sz, i, idx, s). sz - idx)") auto

function ptrs_from_start ::
  "(nat \<Rightarrow> nat \<Rightarrow> 's \<Rightarrow> 's option) \<Rightarrow> nat \<Rightarrow> nat \<Rightarrow> nat \<Rightarrow> 's \<Rightarrow> 's option" where
  "ptrs_from_start step n i idx s =
     (if i < n then
        do { s \<leftarrow> step i idx s; ptrs_from_start step n (i + 1) (idx + 1) s }
      else Some s)"
  by pat_completeness auto
termination
  by (relation "measure (\<lambda>(step, n, i, idx, s). n - i)") auto

definition copy_ptrs ::
  "(nat \<Rightarrow> nat \<Rightarrow> 's \<Rightarrow> 's option) \<Rightarrow> u32 \<Rightarrow> u32 \<Rightarrow> u32 \<Rightarrow> 's \<Rightarrow> 's option" where
  "copy_ptrs step idx n sz s =
     (if idx + n < sz then
        do { (i, ix, s) \<leftarrow> ptrs_loop4 step (unat (n AND NOT 3)) 0 (unat idx) s;
             ptrs_switch step (unat (n AND 3)) i ix s }
      else
        do { (i, s) \<leftarrow> ptrs_to_end step (unat sz) 0 (unat idx) s;
             ptrs_from_start step (unat n) i 0 s })"

definition enq_step :: "'a list \<Rightarrow> nat \<Rightarrow> nat \<Rightarrow> 'a list \<Rightarrow> 'a list option" where
  "enq_step obj_table i idx slots = do { x \<leftarrow> aget obj_table i; aset slots idx x }"

definition deq_step :: "'a list \<Rightarrow> nat \<Rightarrow> nat \<Rightarrow> 'a list \<Rightarrow> 'a list option" where
  "deq_step slots i idx obj_table = do { x \<leftarrow> aget slots idx; aset obj_table i x }"

definition ENQUEUE_PTRS :: "'a rte_ring \<Rightarrow> u32 \<Rightarrow> u32 \<Rightarrow> 'a list \<Rightarrow> u32 \<Rightarrow> 'a list option" where
  "ENQUEUE_PTRS r head msk obj_table n =
     copy_ptrs (enq_step obj_table) (head AND msk) n (prod_size (prod r)) (ring_slots r)"

definition DEQUEUE_PTRS :: "'a rte_ring \<Rightarrow> u32 \<Rightarrow> u32 \<Rightarrow> 'a list \<Rightarrow> u32 \<Rightarrow> 'a list option" where
  "DEQUEUE_PTRS r head msk obj_table n =
     copy_ptrs (deq_step (ring_slots r)) (head AND msk) n (cons_size (cons r)) obj_table"

section \<open>Enqueue and dequeue, single producer and single consumer\<close>

text \<open>
  The room check common to both enqueues: the early return value (\<^term>\<open>Inl\<close>) or the number
  of objects to write (\<^term>\<open>Inr\<close>).
\<close>
definition enq_reserve ::
  "u32 \<Rightarrow> u32 \<Rightarrow> rte_ring_queue_behavior \<Rightarrow> int + u32" where
  "enq_reserve free_entries n behavior =
     (if n > free_entries then
        (if behavior = RTE_RING_QUEUE_FIXED then Inl (- ENOBUFS)
         else if free_entries = 0 then Inl 0
         else Inr free_entries)
      else Inr n)"

text \<open>The return value after the objects have been written (the water mark test).\<close>
definition enq_return ::
  "u32 \<Rightarrow> u32 \<Rightarrow> u32 \<Rightarrow> u32 \<Rightarrow> rte_ring_queue_behavior \<Rightarrow> int" where
  "enq_return msk free_entries n watermark behavior =
     (if ((msk + 1) - free_entries + n) > watermark then
        (if behavior = RTE_RING_QUEUE_FIXED then - EDQUOT
         else sint (n OR RTE_RING_QUOT_EXCEED))
      else (if behavior = RTE_RING_QUEUE_FIXED then 0 else sint n))"

definition set_prod_head :: "u32 \<Rightarrow> 'a rte_ring \<Rightarrow> 'a rte_ring" where
  "set_prod_head h r = r\<lparr>prod := (prod r)\<lparr>prod_head := h\<rparr>\<rparr>"

definition set_prod_tail :: "u32 \<Rightarrow> 'a rte_ring \<Rightarrow> 'a rte_ring" where
  "set_prod_tail t r = r\<lparr>prod := (prod r)\<lparr>prod_tail := t\<rparr>\<rparr>"

definition set_cons_head :: "u32 \<Rightarrow> 'a rte_ring \<Rightarrow> 'a rte_ring" where
  "set_cons_head h r = r\<lparr>cons := (cons r)\<lparr>cons_head := h\<rparr>\<rparr>"

definition set_cons_tail :: "u32 \<Rightarrow> 'a rte_ring \<Rightarrow> 'a rte_ring" where
  "set_cons_tail t r = r\<lparr>cons := (cons r)\<lparr>cons_tail := t\<rparr>\<rparr>"

definition rte_ring_sp_do_enqueue ::
  "'a rte_ring \<Rightarrow> 'a list \<Rightarrow> u32 \<Rightarrow> rte_ring_queue_behavior \<Rightarrow> (int \<times> 'a rte_ring) option" where
  "rte_ring_sp_do_enqueue r obj_table n behavior =
     (let msk = prod_mask (prod r);
          ph = prod_head (prod r);
          ct = cons_tail (cons r);
          free_entries = msk + ct - ph
      in case enq_reserve free_entries n behavior of
           Inl ret \<Rightarrow> Some (ret, r)
         | Inr n \<Rightarrow>
             (let prod_next = ph + n;
                  r = set_prod_head prod_next r
              in do { slots \<leftarrow> ENQUEUE_PTRS r ph msk obj_table n;
                      let r = r\<lparr>ring_slots := slots\<rparr>;
                      let ret = enq_return msk free_entries n
                                  (prod_watermark (prod r)) behavior;
                      Some (ret, set_prod_tail prod_next r) }))"

definition deq_reserve ::
  "u32 \<Rightarrow> u32 \<Rightarrow> rte_ring_queue_behavior \<Rightarrow> int + u32" where
  "deq_reserve entries n behavior =
     (if n > entries then
        (if behavior = RTE_RING_QUEUE_FIXED then Inl (- ENOENT)
         else if entries = 0 then Inl 0
         else Inr entries)
      else Inr n)"

definition deq_return :: "u32 \<Rightarrow> rte_ring_queue_behavior \<Rightarrow> int" where
  "deq_return n behavior = (if behavior = RTE_RING_QUEUE_FIXED then 0 else sint n)"

definition rte_ring_sc_do_dequeue ::
  "'a rte_ring \<Rightarrow> 'a list \<Rightarrow> u32 \<Rightarrow> rte_ring_queue_behavior \<Rightarrow>
     (int \<times> 'a list \<times> 'a rte_ring) option" where
  "rte_ring_sc_do_dequeue r obj_table n behavior =
     (let msk = prod_mask (prod r);
          ch = cons_head (cons r);
          pt = prod_tail (prod r);
          entries = pt - ch
      in case deq_reserve entries n behavior of
           Inl ret \<Rightarrow> Some (ret, obj_table, r)
         | Inr n \<Rightarrow>
             (let cons_next = ch + n;
                  r = set_cons_head cons_next r
              in do { obj_table \<leftarrow> DEQUEUE_PTRS r ch msk obj_table n;
                      Some (deq_return n behavior, obj_table,
                            set_cons_tail cons_next r) }))"

section \<open>Multi-producer enqueue and multi-consumer dequeue\<close>

text \<open>
  Other cores may change the ring between the loads of the indexes and the compare-and-set,
  and while this core waits for its predecessors. What they do is an argument: a list with one
  entry per attempt (what happens between the two loads, and between the loads and the
  compare-and-set), and a list of the changes seen while waiting. Past the end of a list the
  ring is left alone. A wait that outlives its list never ends: \<^term>\<open>None\<close>.
\<close>

type_synonym 'a interference = "'a rte_ring \<Rightarrow> 'a rte_ring"

definition cmpset_prod_head :: "u32 \<Rightarrow> u32 \<Rightarrow> 'a rte_ring \<Rightarrow> bool \<times> 'a rte_ring" where
  "cmpset_prod_head expected new r =
     (if prod_head (prod r) = expected then (True, set_prod_head new r) else (False, r))"

definition cmpset_cons_head :: "u32 \<Rightarrow> u32 \<Rightarrow> 'a rte_ring \<Rightarrow> bool \<times> 'a rte_ring" where
  "cmpset_cons_head expected new r =
     (if cons_head (cons r) = expected then (True, set_cons_head new r) else (False, r))"

text \<open>
  The \<open>do ... while\<close> loop that moves \<open>prod.head\<close>: an early return value, or the old head, the
  number of objects and the free entries seen; and the ring after it.
\<close>
fun mp_move_head ::
  "('a interference \<times> 'a interference) list \<Rightarrow> 'a rte_ring \<Rightarrow> u32 \<Rightarrow>
     rte_ring_queue_behavior \<Rightarrow> (int + (u32 \<times> u32 \<times> u32)) \<times> 'a rte_ring" where
  "mp_move_head [] r maxn behavior =
     (let ph = prod_head (prod r);
          free_entries = prod_mask (prod r) + cons_tail (cons r) - ph
      in case enq_reserve free_entries maxn behavior of
           Inl ret \<Rightarrow> (Inl ret, r)
         | Inr n \<Rightarrow> (Inr (ph, n, free_entries), snd (cmpset_prod_head ph (ph + n) r)))"
| "mp_move_head ((e1, e2) # es) r maxn behavior =
     (let ph = prod_head (prod r);
          r = e1 r;
          free_entries = prod_mask (prod r) + cons_tail (cons r) - ph
      in case enq_reserve free_entries maxn behavior of
           Inl ret \<Rightarrow> (Inl ret, r)
         | Inr n \<Rightarrow>
             (case cmpset_prod_head ph (ph + n) (e2 r) of
                (True, r) \<Rightarrow> (Inr (ph, n, free_entries), r)
              | (False, r) \<Rightarrow> mp_move_head es r maxn behavior))"

fun mp_wait_tail :: "'a interference list \<Rightarrow> 'a rte_ring \<Rightarrow> u32 \<Rightarrow> 'a rte_ring option" where
  "mp_wait_tail es r ph =
     (if prod_tail (prod r) = ph then Some r
      else case es of [] \<Rightarrow> None | e # es \<Rightarrow> mp_wait_tail es (e r) ph)"

definition rte_ring_mp_do_enqueue ::
  "('a interference \<times> 'a interference) list \<Rightarrow> 'a interference list \<Rightarrow> 'a rte_ring \<Rightarrow>
     'a list \<Rightarrow> u32 \<Rightarrow> rte_ring_queue_behavior \<Rightarrow> (int \<times> 'a rte_ring) option" where
  "rte_ring_mp_do_enqueue es ws r obj_table n behavior =
     (let msk = prod_mask (prod r)
      in case mp_move_head es r n behavior of
           (Inl ret, r) \<Rightarrow> Some (ret, r)
         | (Inr (ph, n, free_entries), r) \<Rightarrow>
             do { slots \<leftarrow> ENQUEUE_PTRS r ph msk obj_table n;
                  let r = r\<lparr>ring_slots := slots\<rparr>;
                  let ret = enq_return msk free_entries n
                              (prod_watermark (prod r)) behavior;
                  r \<leftarrow> mp_wait_tail ws r ph;
                  Some (ret, set_prod_tail (ph + n) r) })"

fun mc_move_head ::
  "('a interference \<times> 'a interference) list \<Rightarrow> 'a rte_ring \<Rightarrow> u32 \<Rightarrow>
     rte_ring_queue_behavior \<Rightarrow> (int + (u32 \<times> u32)) \<times> 'a rte_ring" where
  "mc_move_head [] r maxn behavior =
     (let ch = cons_head (cons r);
          entries = prod_tail (prod r) - ch
      in case deq_reserve entries maxn behavior of
           Inl ret \<Rightarrow> (Inl ret, r)
         | Inr n \<Rightarrow> (Inr (ch, n), snd (cmpset_cons_head ch (ch + n) r)))"
| "mc_move_head ((e1, e2) # es) r maxn behavior =
     (let ch = cons_head (cons r);
          r = e1 r;
          entries = prod_tail (prod r) - ch
      in case deq_reserve entries maxn behavior of
           Inl ret \<Rightarrow> (Inl ret, r)
         | Inr n \<Rightarrow>
             (case cmpset_cons_head ch (ch + n) (e2 r) of
                (True, r) \<Rightarrow> (Inr (ch, n), r)
              | (False, r) \<Rightarrow> mc_move_head es r maxn behavior))"

fun mc_wait_tail :: "'a interference list \<Rightarrow> 'a rte_ring \<Rightarrow> u32 \<Rightarrow> 'a rte_ring option" where
  "mc_wait_tail es r ch =
     (if cons_tail (cons r) = ch then Some r
      else case es of [] \<Rightarrow> None | e # es \<Rightarrow> mc_wait_tail es (e r) ch)"

definition rte_ring_mc_do_dequeue ::
  "('a interference \<times> 'a interference) list \<Rightarrow> 'a interference list \<Rightarrow> 'a rte_ring \<Rightarrow>
     'a list \<Rightarrow> u32 \<Rightarrow> rte_ring_queue_behavior \<Rightarrow> (int \<times> 'a list \<times> 'a rte_ring) option" where
  "rte_ring_mc_do_dequeue es ws r obj_table n behavior =
     (let msk = prod_mask (prod r)
      in case mc_move_head es r n behavior of
           (Inl ret, r) \<Rightarrow> Some (ret, obj_table, r)
         | (Inr (ch, n), r) \<Rightarrow>
             do { obj_table \<leftarrow> DEQUEUE_PTRS r ch msk obj_table n;
                  r \<leftarrow> mc_wait_tail ws r ch;
                  Some (deq_return n behavior, obj_table, set_cons_tail (ch + n) r) })"

section \<open>The public operations\<close>

text \<open>
  From here on the multi-producer and multi-consumer calls run without interference: one core
  at a time. The burst calls return \<open>unsigned\<close>, the bulk calls \<open>int\<close>.
\<close>

definition rte_ring_mp_enqueue_bulk :: "'a rte_ring \<Rightarrow> 'a list \<Rightarrow> u32 \<Rightarrow> (int \<times> 'a rte_ring) option" where
  "rte_ring_mp_enqueue_bulk r obj_table n =
     rte_ring_mp_do_enqueue [] [] r obj_table n RTE_RING_QUEUE_FIXED"

definition rte_ring_sp_enqueue_bulk :: "'a rte_ring \<Rightarrow> 'a list \<Rightarrow> u32 \<Rightarrow> (int \<times> 'a rte_ring) option" where
  "rte_ring_sp_enqueue_bulk r obj_table n =
     rte_ring_sp_do_enqueue r obj_table n RTE_RING_QUEUE_FIXED"

definition rte_ring_enqueue_bulk :: "'a rte_ring \<Rightarrow> 'a list \<Rightarrow> u32 \<Rightarrow> (int \<times> 'a rte_ring) option" where
  "rte_ring_enqueue_bulk r obj_table n =
     (if prod_sp_enqueue (prod r) then rte_ring_sp_enqueue_bulk r obj_table n
      else rte_ring_mp_enqueue_bulk r obj_table n)"

definition rte_ring_mp_enqueue :: "'a rte_ring \<Rightarrow> 'a \<Rightarrow> (int \<times> 'a rte_ring) option" where
  "rte_ring_mp_enqueue r obj = rte_ring_mp_enqueue_bulk r [obj] 1"

definition rte_ring_sp_enqueue :: "'a rte_ring \<Rightarrow> 'a \<Rightarrow> (int \<times> 'a rte_ring) option" where
  "rte_ring_sp_enqueue r obj = rte_ring_sp_enqueue_bulk r [obj] 1"

definition rte_ring_enqueue :: "'a rte_ring \<Rightarrow> 'a \<Rightarrow> (int \<times> 'a rte_ring) option" where
  "rte_ring_enqueue r obj =
     (if prod_sp_enqueue (prod r) then rte_ring_sp_enqueue r obj
      else rte_ring_mp_enqueue r obj)"

definition rte_ring_mc_dequeue_bulk ::
  "'a rte_ring \<Rightarrow> 'a list \<Rightarrow> u32 \<Rightarrow> (int \<times> 'a list \<times> 'a rte_ring) option" where
  "rte_ring_mc_dequeue_bulk r obj_table n =
     rte_ring_mc_do_dequeue [] [] r obj_table n RTE_RING_QUEUE_FIXED"

definition rte_ring_sc_dequeue_bulk ::
  "'a rte_ring \<Rightarrow> 'a list \<Rightarrow> u32 \<Rightarrow> (int \<times> 'a list \<times> 'a rte_ring) option" where
  "rte_ring_sc_dequeue_bulk r obj_table n =
     rte_ring_sc_do_dequeue r obj_table n RTE_RING_QUEUE_FIXED"

definition rte_ring_dequeue_bulk ::
  "'a rte_ring \<Rightarrow> 'a list \<Rightarrow> u32 \<Rightarrow> (int \<times> 'a list \<times> 'a rte_ring) option" where
  "rte_ring_dequeue_bulk r obj_table n =
     (if cons_sc_dequeue (cons r) then rte_ring_sc_dequeue_bulk r obj_table n
      else rte_ring_mc_dequeue_bulk r obj_table n)"

definition rte_ring_mc_dequeue :: "'a rte_ring \<Rightarrow> 'a \<Rightarrow> (int \<times> 'a list \<times> 'a rte_ring) option" where
  "rte_ring_mc_dequeue r obj = rte_ring_mc_dequeue_bulk r [obj] 1"

definition rte_ring_sc_dequeue :: "'a rte_ring \<Rightarrow> 'a \<Rightarrow> (int \<times> 'a list \<times> 'a rte_ring) option" where
  "rte_ring_sc_dequeue r obj = rte_ring_sc_dequeue_bulk r [obj] 1"

definition rte_ring_dequeue :: "'a rte_ring \<Rightarrow> 'a \<Rightarrow> (int \<times> 'a list \<times> 'a rte_ring) option" where
  "rte_ring_dequeue r obj =
     (if cons_sc_dequeue (cons r) then rte_ring_sc_dequeue r obj
      else rte_ring_mc_dequeue r obj)"

definition rte_ring_full :: "'a rte_ring \<Rightarrow> bool" where
  "rte_ring_full r \<longleftrightarrow>
     (cons_tail (cons r) - prod_tail (prod r) - 1) AND prod_mask (prod r) = 0"

definition rte_ring_empty :: "'a rte_ring \<Rightarrow> bool" where
  "rte_ring_empty r \<longleftrightarrow> cons_tail (cons r) = prod_tail (prod r)"

definition rte_ring_count :: "'a rte_ring \<Rightarrow> u32" where
  "rte_ring_count r = (prod_tail (prod r) - cons_tail (cons r)) AND prod_mask (prod r)"

definition rte_ring_free_count :: "'a rte_ring \<Rightarrow> u32" where
  "rte_ring_free_count r = (cons_tail (cons r) - prod_tail (prod r) - 1) AND prod_mask (prod r)"

text \<open>The implicit conversion of the \<open>int\<close> result to the \<open>unsigned\<close> the burst calls return.\<close>
definition ret_unsigned :: "(int \<times> 'b) option \<Rightarrow> (u32 \<times> 'b) option" where
  "ret_unsigned = map_option (\<lambda>(ret, b). (word_of_int ret, b))"

definition rte_ring_mp_enqueue_burst :: "'a rte_ring \<Rightarrow> 'a list \<Rightarrow> u32 \<Rightarrow> (u32 \<times> 'a rte_ring) option" where
  "rte_ring_mp_enqueue_burst r obj_table n =
     ret_unsigned (rte_ring_mp_do_enqueue [] [] r obj_table n RTE_RING_QUEUE_VARIABLE)"

definition rte_ring_sp_enqueue_burst :: "'a rte_ring \<Rightarrow> 'a list \<Rightarrow> u32 \<Rightarrow> (u32 \<times> 'a rte_ring) option" where
  "rte_ring_sp_enqueue_burst r obj_table n =
     ret_unsigned (rte_ring_sp_do_enqueue r obj_table n RTE_RING_QUEUE_VARIABLE)"

definition rte_ring_enqueue_burst :: "'a rte_ring \<Rightarrow> 'a list \<Rightarrow> u32 \<Rightarrow> (u32 \<times> 'a rte_ring) option" where
  "rte_ring_enqueue_burst r obj_table n =
     (if prod_sp_enqueue (prod r) then rte_ring_sp_enqueue_burst r obj_table n
      else rte_ring_mp_enqueue_burst r obj_table n)"

definition rte_ring_mc_dequeue_burst ::
  "'a rte_ring \<Rightarrow> 'a list \<Rightarrow> u32 \<Rightarrow> (u32 \<times> 'a list \<times> 'a rte_ring) option" where
  "rte_ring_mc_dequeue_burst r obj_table n =
     ret_unsigned (rte_ring_mc_do_dequeue [] [] r obj_table n RTE_RING_QUEUE_VARIABLE)"

definition rte_ring_sc_dequeue_burst ::
  "'a rte_ring \<Rightarrow> 'a list \<Rightarrow> u32 \<Rightarrow> (u32 \<times> 'a list \<times> 'a rte_ring) option" where
  "rte_ring_sc_dequeue_burst r obj_table n =
     ret_unsigned (rte_ring_sc_do_dequeue r obj_table n RTE_RING_QUEUE_VARIABLE)"

definition rte_ring_dequeue_burst ::
  "'a rte_ring \<Rightarrow> 'a list \<Rightarrow> u32 \<Rightarrow> (u32 \<times> 'a list \<times> 'a rte_ring) option" where
  "rte_ring_dequeue_burst r obj_table n =
     (if cons_sc_dequeue (cons r) then rte_ring_sc_dequeue_burst r obj_table n
      else rte_ring_mc_dequeue_burst r obj_table n)"

end
