(* ===== verification/Burst_Queue.thy ===== *)
theory Burst_Queue
  imports Spp_Prelude
begin

text \<open>
  The contract between a packet queue and its user: bursts go in at one end, as many as fit,
  and come out at the other end, as many as there are, in order. The users of the rings and of
  the ring-backed ports rely on this contract only; its consequences for a whole sequence of
  operations are proved once, here, and the providers interpret the locale.
\<close>

datatype 'a queue_op = Enq "'a list" | Deq nat

text \<open>
  A run of operations: what was accepted, what was delivered and the queue at the end;
  \<^term>\<open>None\<close> when an operation fails.
\<close>
fun run_queue ::
  "('q \<Rightarrow> 'a list \<Rightarrow> (nat \<times> 'q) option) \<Rightarrow> ('q \<Rightarrow> nat \<Rightarrow> ('a list \<times> 'q) option) \<Rightarrow>
     'q \<Rightarrow> 'a queue_op list \<Rightarrow> ('a list \<times> 'a list \<times> 'q) option" where
  "run_queue enq deq q [] = Some ([], [], q)"
| "run_queue enq deq q (Enq xs # ops) =
     do { (k, q) \<leftarrow> enq q xs;
          (acc, del, q) \<leftarrow> run_queue enq deq q ops;
          Some (take k xs @ acc, del, q) }"
| "run_queue enq deq q (Deq n # ops) =
     do { (ys, q) \<leftarrow> deq q n;
          (acc, del, q) \<leftarrow> run_queue enq deq q ops;
          Some (acc, ys @ del, q) }"

fun op_fits :: "nat \<Rightarrow> 'a queue_op \<Rightarrow> bool" where
  "op_fits burst (Enq xs) \<longleftrightarrow> length xs \<le> burst"
| "op_fits burst (Deq n) \<longleftrightarrow> n \<le> burst"

locale burst_queue =
  fixes inv :: "'q \<Rightarrow> bool"
    and elems :: "'q \<Rightarrow> 'a list"
    and cap :: "'q \<Rightarrow> nat"
    and burst :: nat
    and enq :: "'q \<Rightarrow> 'a list \<Rightarrow> (nat \<times> 'q) option"
    and deq :: "'q \<Rightarrow> nat \<Rightarrow> ('a list \<times> 'q) option"
  assumes elems_cap: "inv q \<Longrightarrow> length (elems q) \<le> cap q"
    and enq_law: "\<lbrakk> inv q; length xs \<le> burst; k = min (length xs) (cap q - length (elems q)) \<rbrakk> \<Longrightarrow>
      \<exists>q'. enq q xs = Some (k, q') \<and> inv q' \<and> cap q' = cap q \<and> elems q' = elems q @ take k xs"
    and deq_law: "\<lbrakk> inv q; n \<le> burst \<rbrakk> \<Longrightarrow>
      \<exists>q'. deq q n = Some (take n (elems q), q') \<and> inv q' \<and> cap q' = cap q
         \<and> elems q' = drop n (elems q)"
begin

lemma run_fifo:
  assumes "inv q" and "list_all (op_fits burst) ops"
  shows "\<exists>acc del q'. run_queue enq deq q ops = Some (acc, del, q') \<and> inv q' \<and> cap q' = cap q
    \<and> del @ elems q' = elems q @ acc"
  using assms
proof (induction ops arbitrary: q)
  case Nil
  then show ?case by simp
next
  case (Cons x ops)
  show ?case
  proof (cases x)
    case (Enq xs)
    obtain k q1 where 1: "enq q xs = Some (k, q1)" "inv q1" "cap q1 = cap q"
      "elems q1 = elems q @ take k xs"
      using enq_law [OF Cons.prems(1), of xs] Cons.prems(2) Enq by auto
    with Cons.IH [of q1] Cons.prems(2) Enq show ?thesis by fastforce
  next
    case (Deq n)
    obtain q1 where 1: "deq q n = Some (take n (elems q), q1)" "inv q1" "cap q1 = cap q"
      "elems q1 = drop n (elems q)"
      using deq_law [OF Cons.prems(1), of n] Cons.prems(2) Deq by auto
    then obtain acc del q' where "run_queue enq deq q1 ops = Some (acc, del, q')" "inv q'"
      "cap q' = cap q" "del @ elems q' = drop n (elems q) @ acc"
      using Cons.IH [of q1] Cons.prems(2) Deq by auto
    moreover from this(4) have "take n (elems q) @ del @ elems q' = elems q @ acc"
      by (metis append_assoc append_take_drop_id)
    ultimately show ?thesis using 1 Deq by simp
  qed
qed

lemma run_conserves:
  assumes "inv q" and "list_all (op_fits burst) ops" and "run_queue enq deq q ops = Some (acc, del, q')"
  shows "mset (elems q) + mset acc = mset del + mset (elems q')"
proof -
  have "del @ elems q' = elems q @ acc" using run_fifo [OF assms(1,2)] assms(3) by simp
  then have "mset (del @ elems q') = mset (elems q @ acc)" by simp
  then show ?thesis by simp
qed

lemma enq_deq_roundtrip:
  assumes "inv q" and "elems q = []" and "length xs \<le> burst" and "length xs \<le> cap q"
  shows "\<exists>q1 q2. enq q xs = Some (length xs, q1) \<and> deq q1 (length xs) = Some (xs, q2) \<and> elems q2 = []"
proof -
  obtain q1 where 1: "enq q xs = Some (length xs, q1)" "inv q1" "elems q1 = xs"
    using enq_law [OF assms(1,3) refl] assms(2,4) by auto
  then show ?thesis using deq_law [OF 1(2) assms(3)] by auto
qed

lemma full_rejects:
  assumes "inv q" and "length (elems q) = cap q" and "length xs \<le> burst"
  shows "\<exists>q'. enq q xs = Some (0, q') \<and> elems q' = elems q"
  using enq_law [OF assms(1,3) refl] assms(2) by auto

end

end
