(* ===== verification/Rte_Ring_Correct.thy ===== *)
theory Rte_Ring_Correct
  imports Rte_Ring Burst_Queue
begin

text \<open>
  Correctness of the ring: the unrolled copy loops against a one-line reference loop, the
  well-formedness invariant, and the refinement of the index arithmetic to a bounded list.
\<close>

unbundle bit_operations_syntax

section \<open>The copy loops against a reference loop\<close>

primrec ref_ptrs ::
  "(nat \<Rightarrow> nat \<Rightarrow> 's \<Rightarrow> 's option) \<Rightarrow> nat \<Rightarrow> nat \<Rightarrow> nat \<Rightarrow> nat \<Rightarrow> 's \<Rightarrow> 's option" where
  "ref_ptrs step S idx 0 i s = Some s"
| "ref_ptrs step S idx (Suc k) i s =
     do { s \<leftarrow> step i ((idx + i) mod S) s; ref_ptrs step S idx k (Suc i) s }"

declare ptrs_loop4.simps [simp del] ptrs_to_end.simps [simp del] ptrs_from_start.simps [simp del]

lemma ref_ptrs_append:
  "ref_ptrs step S idx (a + b) i s =
     do { s \<leftarrow> ref_ptrs step S idx a i s; ref_ptrs step S idx b (i + a) s }"
  by (induction a arbitrary: i s) (auto split: bind_splits)

lemma ptrs_switch_ref:
  "idx + i + k \<le> S \<Longrightarrow> ptrs_switch step k i (idx + i) s = ref_ptrs step S idx k i s"
proof (induction k arbitrary: i s)
  case (Suc k)
  from Suc.prems have "(idx + i) mod S = idx + i" by simp
  moreover have "ptrs_switch step k (Suc i) (idx + Suc i) t = ref_ptrs step S idx k (Suc i) t" for t
    using Suc.prems by (intro Suc.IH) simp
  ultimately show ?case by simp
qed simp

lemma ptrs_loop4_ref:
  "idx + (i + 4 * m) \<le> S \<Longrightarrow>
   ptrs_loop4 step (i + 4 * m) i (idx + i) s =
     map_option (\<lambda>s. (i + 4 * m, idx + (i + 4 * m), s)) (ref_ptrs step S idx (4 * m) i s)"
proof (induction m arbitrary: i s)
  case 0
  then show ?case by (simp add: ptrs_loop4.simps)
next
  case (Suc m)
  have mod: "(idx + (i + d)) mod S = idx + (i + d)" if "d < 4" for d
    using that Suc.prems by simp
  have step: "ptrs_loop4 step (i + 4 * Suc m) (i + 4) (idx + (i + 4)) t =
      map_option (\<lambda>s. (i + 4 * Suc m, idx + (i + 4 * Suc m), s)) (ref_ptrs step S idx (4 * m) (i + 4) t)" for t
    using Suc.IH [of "i + 4" t] Suc.prems by (simp add: algebra_simps)
  have four: "4 * Suc m = Suc (Suc (Suc (Suc (4 * m))))" by simp
  show ?case
    using mod [of 0] mod [of 1] mod [of 2] mod [of 3] step
    by (subst ptrs_loop4.simps)
       (simp add: four numeral_eq_Suc add.assoc [symmetric] del: mult_Suc_right
         split: bind_splits)
qed

lemma ptrs_to_end_ref:
  "idx + i \<le> S \<Longrightarrow>
   ptrs_to_end step S i (idx + i) s =
     map_option (\<lambda>s. (S - idx, s)) (ref_ptrs step S idx (S - (idx + i)) i s)"
proof (induction "S - (idx + i)" arbitrary: i s)
  case 0
  then show ?case by (subst ptrs_to_end.simps) simp
next
  case (Suc k)
  then have lt: "idx + i < S" and k: "k = S - (idx + Suc i)" by simp_all
  have "ptrs_to_end step S (Suc i) (idx + Suc i) t =
      map_option (\<lambda>s. (S - idx, s)) (ref_ptrs step S idx k (Suc i) t)" for t
    using Suc.hyps(1) [of "Suc i" t] lt k by simp
  then show ?case
    using lt Suc.hyps(2) [symmetric] by (subst ptrs_to_end.simps) (simp split: bind_splits)
qed

lemma ptrs_from_start_ref:
  "\<lbrakk> idx \<le> S; S \<le> idx + i; idx + n \<le> S + S \<rbrakk> \<Longrightarrow>
   ptrs_from_start step n i (idx + i - S) s = ref_ptrs step S idx (n - i) i s"
proof (induction "n - i" arbitrary: i s)
  case 0
  then show ?case by (subst ptrs_from_start.simps) simp
next
  case (Suc k)
  then have lt: "i < n" and k: "k = n - Suc i" by simp_all
  have "(idx + i) mod S = idx + i - S"
    using Suc.prems lt by (subst le_mod_geq) simp_all
  moreover have "ptrs_from_start step n (Suc i) (idx + Suc i - S) t =
      ref_ptrs step S idx k (Suc i) t" for t
    using Suc.hyps(1) [of "Suc i" t] Suc.prems k by simp
  ultimately show ?case
    using lt Suc.prems Suc.hyps(2) [symmetric]
    by (subst ptrs_from_start.simps) (simp add: Suc_diff_le split: bind_splits)
qed

lemma copy_ptrs_ref:
  assumes "unat idx < unat S" and "unat n \<le> unat S" and "unat S < 2 ^ 31"
  shows "copy_ptrs step idx n S s = ref_ptrs step (unat S) (unat idx) (unat n) 0 s"
proof -
  have sum: "unat (idx + n) = unat idx + unat n"
    using assms by (subst unat_add_lem [THEN iffD1]) simp_all
  show ?thesis
  proof (cases "idx + n < S")
    case True
    then have lt: "unat idx + unat n < unat S" by (simp add: word_less_nat_alt sum)
    define m where "m = unat n div 4"
    have b: "unat (n AND NOT 3) = 4 * m" and t: "unat (n AND 3) = unat n - 4 * m"
      using unat_and_not3 [of n] unat_and3 [of n]
      by (simp_all add: m_def minus_mod_eq_mult_div minus_mult_div_eq_mod)
    have le: "4 * m \<le> unat n" by (simp add: m_def)
    have "copy_ptrs step idx n S s =
        do { s \<leftarrow> ref_ptrs step (unat S) (unat idx) (4 * m) 0 s;
             ref_ptrs step (unat S) (unat idx) (unat n - 4 * m) (4 * m) s }"
      using True lt le ptrs_loop4_ref [of "unat idx" 0 m "unat S" step s]
        ptrs_switch_ref [of "unat idx" "4 * m" "unat n - 4 * m" "unat S" step]
      unfolding copy_ptrs_def b t
      by (simp add: map_option_case split: option.splits bind_splits)
    also have "\<dots> = ref_ptrs step (unat S) (unat idx) (unat n) 0 s"
      using le ref_ptrs_append [of step "unat S" "unat idx" "4 * m" "unat n - 4 * m" 0 s] by simp
    finally show ?thesis .
  next
    case False
    then have ge: "unat S \<le> unat idx + unat n" by (simp add: word_less_nat_alt sum not_less)
    define a where "a = unat S - unat idx"
    have le: "a \<le> unat n" using ge by (simp add: a_def)
    have "copy_ptrs step idx n S s =
        do { s \<leftarrow> ref_ptrs step (unat S) (unat idx) a 0 s;
             ref_ptrs step (unat S) (unat idx) (unat n - a) a s }"
      using False assms ge ptrs_to_end_ref [of "unat idx" 0 "unat S" step s]
        ptrs_from_start_ref [of "unat idx" "unat S" a "unat n" step]
      by (simp add: copy_ptrs_def a_def map_option_case split: option.splits bind_splits)
    also have "\<dots> = ref_ptrs step (unat S) (unat idx) (unat n) 0 s"
      using le ref_ptrs_append [of step "unat S" "unat idx" a "unat n - a" 0 s] by simp
    finally show ?thesis .
  qed
qed

section \<open>The array as a bounded list\<close>

text \<open>
  \<open>ring_get s p n\<close> is the \<open>n\<close> elements of the circular array \<open>s\<close> from position \<open>p\<close> on,
  \<open>ring_put s p xs\<close> writes \<open>xs\<close> there.
\<close>

definition ring_get :: "'a list \<Rightarrow> nat \<Rightarrow> nat \<Rightarrow> 'a list" where
  "ring_get s p n = map (\<lambda>k. s ! ((p + k) mod length s)) [0..<n]"

fun ring_put :: "'a list \<Rightarrow> nat \<Rightarrow> 'a list \<Rightarrow> 'a list" where
  "ring_put s p [] = s"
| "ring_put s p (x # xs) = ring_put (s[p mod length s := x]) (Suc p) xs"

lemma length_ring_get [simp]: "length (ring_get s p n) = n"
  by (simp add: ring_get_def)

lemma length_ring_put [simp]: "length (ring_put s p xs) = length s"
  by (induction s p xs rule: ring_put.induct) auto

lemma ring_get_0 [simp]: "ring_get s p 0 = []"
  by (simp add: ring_get_def)

lemma nth_ring_get: "k < n \<Longrightarrow> ring_get s p n ! k = s ! ((p + k) mod length s)"
  by (simp add: ring_get_def)

lemma ring_get_append: "ring_get s p (m + n) = ring_get s p m @ ring_get s (p + m) n"
  by (rule nth_equalityI) (auto simp: nth_append nth_ring_get add.assoc)

lemma ring_get_mod: "ring_get s (p mod length s) n = ring_get s p n"
  by (rule nth_equalityI) (auto simp: nth_ring_get mod_simps)

lemma ring_put_cong:
  "p mod length s = q mod length s \<Longrightarrow> ring_put s p xs = ring_put s q xs"
proof (induction xs arbitrary: s p q)
  case (Cons x xs)
  then have "Suc p mod length s = Suc q mod length s" by (metis mod_Suc_eq)
  then have "ring_put (s[p mod length s := x]) (Suc p) xs = ring_put (s[p mod length s := x]) (Suc q) xs"
    by (intro Cons.IH) simp
  with Cons.prems show ?case by simp
qed simp

lemma mod_add_neq:
  fixes S d p :: nat
  assumes "0 < d" and "d < S"
  shows "(p + d) mod S \<noteq> p mod S"
proof
  assume "(p + d) mod S = p mod S"
  then have "S dvd d" using mod_eq_dvd_iff_nat [of p "p + d" S] by simp
  with assms show False using dvd_imp_le by fastforce
qed

lemma ring_put_other:
  "(\<And>k. k < length xs \<Longrightarrow> j \<noteq> (p + k) mod length s) \<Longrightarrow> ring_put s p xs ! j = s ! j"
proof (induction xs arbitrary: s p)
  case (Cons x xs)
  have "j \<noteq> (Suc p + k) mod length s" if "k < length xs" for k
    using Cons.prems [of "Suc k"] that by simp
  then have "ring_put (s[p mod length s := x]) (Suc p) xs ! j = s[p mod length s := x] ! j"
    by (intro Cons.IH) simp
  with Cons.prems [of 0] show ?case by simp
qed simp

lemma ring_put_nth:
  "\<lbrakk> k < length xs; length xs \<le> length s \<rbrakk> \<Longrightarrow>
   ring_put s p xs ! ((p + k) mod length s) = xs ! k"
proof (induction xs arbitrary: s p k)
  case (Cons x xs)
  let ?s = "s[p mod length s := x]"
  show ?case
  proof (cases k)
    case 0
    have "p mod length s \<noteq> (Suc p + j) mod length ?s" if "j < length xs" for j
      using mod_add_neq [of "Suc j" "length s" p] that Cons.prems(2) by simp
    then have "ring_put ?s (Suc p) xs ! (p mod length s) = ?s ! (p mod length s)"
      by (rule ring_put_other)
    moreover have "p mod length s < length s"
      using Cons.prems by (intro mod_less_divisor) (auto simp del: length_greater_0_conv)
    ultimately show ?thesis using 0 by simp
  next
    case (Suc j)
    have "ring_put ?s (Suc p) xs ! ((Suc p + j) mod length ?s) = xs ! j"
      using Suc Cons.prems by (intro Cons.IH) simp_all
    with Suc show ?thesis by simp
  qed
qed simp

lemma ring_get_put_new:
  "length xs \<le> length s \<Longrightarrow> ring_get (ring_put s p xs) p (length xs) = xs"
  by (rule nth_equalityI) (auto simp: nth_ring_get ring_put_nth)

lemma ring_get_put_old:
  assumes "k + length xs \<le> length s"
  shows "ring_get (ring_put s (c + k) xs) c k = ring_get s c k"
proof (rule nth_equalityI)
  fix i assume "i < length (ring_get (ring_put s (c + k) xs) c k)"
  then have i: "i < k" by simp
  have "(c + i) mod length s \<noteq> (c + k + j) mod length s" if "j < length xs" for j
  proof -
    have "0 < k - i + j" and "k - i + j < length s" using i that assms by linarith+
    then have "(c + i + (k - i + j)) mod length s \<noteq> (c + i) mod length s"
      by (rule mod_add_neq)
    moreover have "c + i + (k - i + j) = c + k + j" using i by simp
    ultimately show ?thesis by metis
  qed
  then have "ring_put s (c + k) xs ! ((c + i) mod length s) = s ! ((c + i) mod length s)"
    by (rule ring_put_other)
  with i show "ring_get (ring_put s (c + k) xs) c k ! i = ring_get s c k ! i"
    by (simp add: nth_ring_get)
qed simp

lemma ref_ptrs_enq:
  "\<lbrakk> length slots = S; 0 < S; i + n \<le> length obj \<rbrakk> \<Longrightarrow>
   ref_ptrs (enq_step obj) S idx n i slots = Some (ring_put slots (idx + i) (take n (drop i obj)))"
proof (induction n arbitrary: i slots)
  case (Suc n)
  then have "take (Suc n) (drop i obj) = obj ! i # take n (drop (Suc i) obj)"
    by (simp add: take_Suc_conv_app_nth Cons_nth_drop_Suc [symmetric])
  with Suc show ?case by (simp add: enq_step_def)
qed simp

lemma ref_ptrs_deq:
  "\<lbrakk> length slots = S; 0 < S; i + n \<le> length tab \<rbrakk> \<Longrightarrow>
   ref_ptrs (deq_step slots) S idx n i tab =
     Some (take i tab @ ring_get slots (idx + i) n @ drop (i + n) tab)"
proof (induction n arbitrary: i tab)
  case (Suc n)
  let ?x = "slots ! ((idx + i) mod S)"
  have get: "ring_get slots (idx + i) (Suc n) = ?x # ring_get slots (idx + Suc i) n"
    using ring_get_append [of slots "idx + i" 1 n] Suc.prems by (simp add: ring_get_def)
  have take: "take (Suc i) (tab[i := ?x]) = take i tab @ [?x]"
    using Suc.prems by (simp add: take_Suc_conv_app_nth)
  show ?case using Suc by (simp add: deq_step_def get take)
qed simp

section \<open>The invariant and the abstraction\<close>

text \<open>
  A ring between operations: a power-of-two size below the limit, masks and array to match,
  head and tail equal on each side, and no more elements than the mask (one slot stays free).
\<close>
definition ring_inv :: "'a rte_ring \<Rightarrow> bool" where
  "ring_inv r \<longleftrightarrow>
     (let S = prod_size (prod r)
      in POWEROF2 S \<and> S \<noteq> 0 \<and> S \<le> RTE_RING_SZ_MASK \<and> cons_size (cons r) = S
       \<and> prod_mask (prod r) = S - 1 \<and> cons_mask (cons r) = S - 1
       \<and> length (ring_slots r) = unat S
       \<and> prod_head (prod r) = prod_tail (prod r) \<and> cons_head (cons r) = cons_tail (cons r)
       \<and> prod_tail (prod r) - cons_tail (cons r) \<le> S - 1
       \<and> prod_watermark (prod r) \<le> S)"

definition ring_list :: "'a rte_ring \<Rightarrow> 'a list" where
  "ring_list r = ring_get (ring_slots r) (unat (cons_tail (cons r)))
                   (unat (prod_tail (prod r) - cons_tail (cons r)))"

definition ring_cap :: "'a rte_ring \<Rightarrow> nat" where
  "ring_cap r = unat (prod_mask (prod r))"

definition ring_free_n :: "'a rte_ring \<Rightarrow> nat" where
  "ring_free_n r = ring_cap r - length (ring_list r)"

lemma length_ring_list: "length (ring_list r) = unat (prod_tail (prod r) - cons_tail (cons r))"
  by (simp add: ring_list_def)

lemma ring_inv_size:
  assumes "ring_inv r"
  obtains k where "k < 28" and "unat (prod_size (prod r)) = 2 ^ k"
    and "Suc (unat (prod_mask (prod r))) = 2 ^ k" and "length (ring_slots r) = 2 ^ k"
    and "cons_size (cons r) = prod_size (prod r)"
proof -
  let ?S = "prod_size (prod r)"
  from assms have p: "(?S - 1) AND ?S = 0" and nz: "?S \<noteq> 0" and le: "?S \<le> RTE_RING_SZ_MASK"
    and m: "prod_mask (prod r) = ?S - 1" and len: "length (ring_slots r) = unat ?S"
    and c: "cons_size (cons r) = ?S"
    by (simp_all add: ring_inv_def POWEROF2_def Let_def)
  obtain k where k: "unat ?S = 2 ^ k" using word_pow2 [OF nz p] .
  have "unat ?S < 2 ^ 28"
    using le by (simp add: RTE_RING_SZ_MASK_def word_le_nat_alt)
  then have "(2::nat) ^ k < 2 ^ 28" using k by simp
  then have "k < 28" by (rule power_less_imp_less_exp [rotated]) simp
  moreover have "Suc (unat (?S - 1)) = unat ?S" using nz by (simp add: unat_minus_one unat_gt_0)
  ultimately show thesis using that [of k] k m len c by simp
qed

lemma ring_inv_used: "ring_inv r \<Longrightarrow> length (ring_list r) \<le> ring_cap r"
  by (simp add: ring_inv_def length_ring_list ring_cap_def Let_def word_le_nat_alt)

lemma ring_inv_idx:
  assumes "ring_inv r"
  shows "ring_cap r < length (ring_slots r)" and "Suc (ring_cap r) = length (ring_slots r)"
    and "ring_cap r < 2 ^ 28"
proof -
  obtain k where k: "k < 28" "Suc (unat (prod_mask (prod r))) = 2 ^ k"
    "length (ring_slots r) = 2 ^ k"
    using ring_inv_size [OF assms] .
  from k show a: "Suc (ring_cap r) = length (ring_slots r)" by (simp add: ring_cap_def)
  then show "ring_cap r < length (ring_slots r)" by simp
  have "(2::nat) ^ k \<le> 2 ^ 27" using k(1) by (intro power_increasing) simp_all
  then show "ring_cap r < 2 ^ 28" using a k(3) by simp
qed

lemma ring_inv_tails:
  "ring_inv r \<Longrightarrow> prod_head (prod r) = prod_tail (prod r)"
  "ring_inv r \<Longrightarrow> cons_head (cons r) = cons_tail (cons r)"
  by (simp_all add: ring_inv_def Let_def)

lemma free_entries_nat:
  assumes "ring_inv r"
  shows "unat (prod_mask (prod r) + cons_tail (cons r) - prod_head (prod r)) = ring_free_n r"
proof -
  let ?m = "prod_mask (prod r)" and ?d = "prod_tail (prod r) - cons_tail (cons r)"
  have eq: "?m + cons_tail (cons r) - prod_head (prod r) = ?m - ?d"
    using assms by (simp add: ring_inv_tails)
  have "?d \<le> ?m" using assms by (simp add: ring_inv_def Let_def)
  then have "unat (?m - ?d) = unat ?m - unat ?d" by (rule unat_sub)
  then show ?thesis by (simp add: eq ring_free_n_def ring_cap_def length_ring_list)
qed

lemma entries_nat:
  "ring_inv r \<Longrightarrow> unat (prod_tail (prod r) - cons_head (cons r)) = length (ring_list r)"
  by (simp add: ring_inv_tails length_ring_list)

section \<open>Exact results of the single-producer and single-consumer operations\<close>

definition ring_push :: "'a rte_ring \<Rightarrow> u32 \<Rightarrow> 'a list \<Rightarrow> 'a rte_ring" where
  "ring_push r n obj =
     (let t = prod_tail (prod r) + n
      in r\<lparr>ring_slots := ring_put (ring_slots r) (unat (prod_tail (prod r))) (take (unat n) obj),
           prod := (prod r)\<lparr>prod_head := t, prod_tail := t\<rparr>\<rparr>)"

definition ring_pop :: "'a rte_ring \<Rightarrow> u32 \<Rightarrow> 'a rte_ring" where
  "ring_pop r n =
     (let t = cons_tail (cons r) + n
      in r\<lparr>cons := (cons r)\<lparr>cons_head := t, cons_tail := t\<rparr>\<rparr>)"

lemma ring_push_frame [simp]:
  "ring_flags (ring_push r n obj) = ring_flags r" "ring_name (ring_push r n obj) = ring_name r"
  "ring_memzone (ring_push r n obj) = ring_memzone r" "cons (ring_push r n obj) = cons r"
  "prod_sp_enqueue (prod (ring_push r n obj)) = prod_sp_enqueue (prod r)"
  "prod_watermark (prod (ring_push r n obj)) = prod_watermark (prod r)"
  by (simp_all add: ring_push_def Let_def)

lemma ring_pop_frame [simp]:
  "ring_flags (ring_pop r n) = ring_flags r" "ring_name (ring_pop r n) = ring_name r"
  "ring_memzone (ring_pop r n) = ring_memzone r" "prod (ring_pop r n) = prod r"
  "cons_sc_dequeue (cons (ring_pop r n)) = cons_sc_dequeue (cons r)"
  by (simp_all add: ring_pop_def Let_def)

lemma ring_get_cong:
  "p mod length s = q mod length s \<Longrightarrow> ring_get s p n = ring_get s q n"
  by (metis ring_get_mod)

lemma masked_index:
  assumes "ring_inv r"
  shows "unat (h AND prod_mask (prod r)) = unat h mod length (ring_slots r)"
  using ring_inv_size [OF assms] unat_mask_and by metis

lemma copy_ptrs_ring:
  assumes "ring_inv r" and "unat n \<le> ring_cap r"
  shows "copy_ptrs step (h AND prod_mask (prod r)) n (prod_size (prod r)) s =
    ref_ptrs step (length (ring_slots r)) (unat h mod length (ring_slots r)) (unat n) 0 s"
proof -
  let ?L = "length (ring_slots r)"
  have S: "unat (prod_size (prod r)) = ?L" using assms(1) by (simp add: ring_inv_def Let_def)
  have pos: "0 < ?L" using ring_inv_idx(1) [OF assms(1)] by (rule le_less_trans [OF le0])
  have "?L < 2 ^ 31" using ring_inv_idx(2,3) [OF assms(1)] by simp
  then show ?thesis
    using copy_ptrs_ref [of "h AND prod_mask (prod r)" "prod_size (prod r)" n step s]
      masked_index [OF assms(1), of h] ring_inv_idx(1) [OF assms(1)] assms(2) pos S
    by (simp del: length_greater_0_conv)
qed

lemma enqueue_ptrs_ring:
  assumes "ring_inv r" and "unat n \<le> ring_cap r" and "unat n \<le> length obj"
  shows "copy_ptrs (enq_step obj) (h AND prod_mask (prod r)) n (prod_size (prod r)) (ring_slots r)
    = Some (ring_put (ring_slots r) (unat h) (take (unat n) obj))"
proof -
  have "0 < length (ring_slots r)" using ring_inv_idx(1) [OF assms(1)] by (rule le_less_trans [OF le0])
  then show ?thesis
    using assms ref_ptrs_enq [of "ring_slots r" "length (ring_slots r)" 0 "unat n" obj
        "unat h mod length (ring_slots r)"]
    by (simp add: copy_ptrs_ring ring_put_cong [of "unat h mod length (ring_slots r)" _ "unat h"])
qed

lemma dequeue_ptrs_ring:
  assumes "ring_inv r" and "unat n \<le> ring_cap r" and "unat n \<le> length tab"
  shows "copy_ptrs (deq_step (ring_slots r)) (h AND prod_mask (prod r)) n (prod_size (prod r)) tab
    = Some (ring_get (ring_slots r) (unat h) (unat n) @ drop (unat n) tab)"
proof -
  have "0 < length (ring_slots r)" using ring_inv_idx(1) [OF assms(1)] by (rule le_less_trans [OF le0])
  then show ?thesis
    using assms ref_ptrs_deq [of "ring_slots r" "length (ring_slots r)" 0 "unat n" tab
        "unat h mod length (ring_slots r)"]
    by (simp add: copy_ptrs_ring ring_get_mod)
qed

lemma enq_reserve_le:
  "enq_reserve f n b = Inr m \<Longrightarrow> m \<le> f \<and> m \<le> n"
  by (auto simp: enq_reserve_def split: if_splits)

lemma deq_reserve_le:
  "deq_reserve f n b = Inr m \<Longrightarrow> m \<le> f \<and> m \<le> n"
  by (auto simp: deq_reserve_def split: if_splits)

lemma sp_enqueue_exact:
  assumes inv: "ring_inv r" and len: "unat n \<le> length obj"
  shows "rte_ring_sp_do_enqueue r obj n b =
    (let f = prod_mask (prod r) + cons_tail (cons r) - prod_head (prod r)
     in case enq_reserve f n b of
          Inl ret \<Rightarrow> Some (ret, r)
        | Inr m \<Rightarrow> Some (enq_return (prod_mask (prod r)) f m (prod_watermark (prod r)) b,
                        ring_push r m obj))"
proof -
  let ?f = "prod_mask (prod r) + cons_tail (cons r) - prod_head (prod r)"
  show ?thesis
  proof (cases "enq_reserve ?f n b")
    case (Inl ret)
    then show ?thesis by (simp add: rte_ring_sp_do_enqueue_def Let_def)
  next
    case (Inr m)
    then have m: "unat m \<le> ring_free_n r" "unat m \<le> length obj"
      using enq_reserve_le [OF Inr] free_entries_nat [OF inv] len by (auto simp: word_le_nat_alt)
    then have "unat m \<le> ring_cap r" by (simp add: ring_free_n_def)
    then have "ENQUEUE_PTRS (set_prod_head (prod_head (prod r) + m) r) (prod_head (prod r))
        (prod_mask (prod r)) obj m =
      Some (ring_put (ring_slots r) (unat (prod_head (prod r))) (take (unat m) obj))"
      using m enqueue_ptrs_ring [OF inv, of m obj] by (simp add: ENQUEUE_PTRS_def set_prod_head_def)
    then show ?thesis using Inr inv
      by (simp add: rte_ring_sp_do_enqueue_def Let_def ring_push_def ring_inv_tails
          set_prod_head_def set_prod_tail_def)
  qed
qed

lemma sc_dequeue_exact:
  assumes inv: "ring_inv r" and len: "unat n \<le> length tab"
  shows "rte_ring_sc_do_dequeue r tab n b =
    (case deq_reserve (prod_tail (prod r) - cons_head (cons r)) n b of
       Inl ret \<Rightarrow> Some (ret, tab, r)
     | Inr m \<Rightarrow> Some (deq_return m b,
                     take (unat m) (ring_list r) @ drop (unat m) tab, ring_pop r m))"
proof (cases "deq_reserve (prod_tail (prod r) - cons_head (cons r)) n b")
  case (Inl ret)
  then show ?thesis by (simp add: rte_ring_sc_do_dequeue_def Let_def)
next
  case (Inr m)
  then have m: "unat m \<le> length (ring_list r)" "unat m \<le> length tab"
    using deq_reserve_le [OF Inr] entries_nat [OF inv] len by (auto simp: word_le_nat_alt)
  have cap: "unat m \<le> ring_cap r" using m(1) ring_inv_used [OF inv] by simp
  have "cons_size (cons r) = prod_size (prod r)" using inv by (simp add: ring_inv_def Let_def)
  then have "DEQUEUE_PTRS (set_cons_head (cons_head (cons r) + m) r) (cons_head (cons r))
      (prod_mask (prod r)) tab m =
    Some (ring_get (ring_slots r) (unat (cons_head (cons r))) (unat m) @ drop (unat m) tab)"
    using m cap dequeue_ptrs_ring [OF inv, of m tab] by (simp add: DEQUEUE_PTRS_def set_cons_head_def)
  moreover have "ring_get (ring_slots r) (unat (cons_tail (cons r))) (unat m) = take (unat m) (ring_list r)"
    using m(1) ring_get_append [of "ring_slots r" "unat (cons_tail (cons r))" "unat m"
        "length (ring_list r) - unat m"] by (simp add: ring_list_def)
  ultimately show ?thesis using Inr inv
    by (simp add: rte_ring_sc_do_dequeue_def Let_def ring_pop_def ring_inv_tails
        set_cons_head_def set_cons_tail_def)
qed

section \<open>Pushing and popping on the abstract list\<close>

lemma prod_pos_mod:
  assumes "ring_inv r"
  shows "unat (prod_tail (prod r)) mod length (ring_slots r) =
         (unat (cons_tail (cons r)) + length (ring_list r)) mod length (ring_slots r)"
proof -
  obtain k where k: "k < 28" "length (ring_slots r) = 2 ^ k" using ring_inv_size [OF assms] .
  have "unat (cons_tail (cons r) + (prod_tail (prod r) - cons_tail (cons r))) mod 2 ^ k =
      (unat (cons_tail (cons r)) + unat (prod_tail (prod r) - cons_tail (cons r))) mod 2 ^ k"
    using k(1) by (intro unat_mod_pow2_add) simp
  then show ?thesis using k(2) by (simp add: length_ring_list)
qed

lemma ring_push_inv:
  assumes inv: "ring_inv r" and n: "unat n \<le> ring_free_n r"
  shows "ring_inv (ring_push r n obj)"
proof -
  let ?d = "prod_tail (prod r) - cons_tail (cons r)"
  have le: "unat ?d + unat n \<le> unat (prod_mask (prod r))"
    using n ring_inv_used [OF inv] by (simp add: ring_free_n_def ring_cap_def length_ring_list)
  have "unat (?d + n) = unat ?d + unat n"
    using le unsigned_less [of "prod_mask (prod r)", where ?'a = nat]
    by (subst unat_add_lem [THEN iffD1]) simp_all
  with le have "?d + n \<le> prod_mask (prod r)" by (simp add: word_le_nat_alt)
  moreover have "prod_tail (prod r) + n - cons_tail (cons r) = ?d + n" by simp
  ultimately have "prod_tail (prod r) + n - cons_tail (cons r) \<le> prod_mask (prod r)" by (simp only:)
  with inv show ?thesis
    by (simp add: ring_inv_def ring_push_def Let_def)
qed

lemma ring_push_cap [simp]: "ring_cap (ring_push r n obj) = ring_cap r"
  by (simp add: ring_cap_def ring_push_def Let_def)

lemma ring_push_list:
  assumes inv: "ring_inv r" and n: "unat n \<le> ring_free_n r" and len: "unat n \<le> length obj"
  shows "ring_list (ring_push r n obj) = ring_list r @ take (unat n) obj"
proof -
  let ?d = "prod_tail (prod r) - cons_tail (cons r)" and ?s = "ring_slots r"
  let ?c = "unat (cons_tail (cons r))" and ?u = "length (ring_list r)"
  have le: "?u + unat n \<le> ring_cap r"
    using n ring_inv_used [OF inv] by (simp add: ring_free_n_def)
  have "unat (?d + n) = unat ?d + unat n"
    using le unsigned_less [of "prod_mask (prod r)", where ?'a = nat]
    by (subst unat_add_lem [THEN iffD1]) (simp_all add: ring_cap_def length_ring_list)
  then have cnt: "unat (prod_tail (prod r) + n - cons_tail (cons r)) = ?u + unat n"
    by (simp add: length_ring_list algebra_simps)
  have put: "ring_put ?s (unat (prod_tail (prod r))) (take (unat n) obj) =
      ring_put ?s (?c + ?u) (take (unat n) obj)"
    by (rule ring_put_cong) (rule prod_pos_mod [OF inv])
  have room: "?u + unat n \<le> length ?s" using le ring_inv_idx(1) [OF inv] by simp
  have "ring_list (ring_push r n obj) =
      ring_get (ring_put ?s (?c + ?u) (take (unat n) obj)) ?c (?u + unat n)"
    using cnt put by (simp add: ring_list_def ring_push_def Let_def)
  also have "\<dots> = ring_get ?s ?c ?u @ take (unat n) obj"
    using room len ring_get_put_old [of ?u "take (unat n) obj" ?s ?c]
      ring_get_put_new [of "take (unat n) obj" ?s "?c + ?u"]
    by (simp add: ring_get_append min_absorb2)
  finally show ?thesis by (simp add: ring_list_def length_ring_list)
qed

lemma ring_pop_used:
  assumes "unat n \<le> length (ring_list r)"
  shows "unat (prod_tail (prod r) - (cons_tail (cons r) + n)) = length (ring_list r) - unat n"
proof -
  have "unat (prod_tail (prod r) - cons_tail (cons r) - n) =
      unat (prod_tail (prod r) - cons_tail (cons r)) - unat n"
    using assms by (intro unat_sub) (simp add: word_le_nat_alt length_ring_list)
  then show ?thesis by (simp add: length_ring_list algebra_simps)
qed

lemma ring_pop_inv:
  assumes inv: "ring_inv r" and n: "unat n \<le> length (ring_list r)"
  shows "ring_inv (ring_pop r n)"
proof -
  have "prod_tail (prod r) - (cons_tail (cons r) + n) \<le> prod_mask (prod r)"
    using ring_pop_used [OF n] ring_inv_used [OF inv] by (simp add: word_le_nat_alt ring_cap_def)
  with inv show ?thesis by (simp add: ring_inv_def ring_pop_def Let_def)
qed

lemma ring_pop_cap [simp]: "ring_cap (ring_pop r n) = ring_cap r"
  by (simp add: ring_cap_def ring_pop_def Let_def)

lemma ring_pop_list:
  assumes inv: "ring_inv r" and n: "unat n \<le> length (ring_list r)"
  shows "ring_list (ring_pop r n) = drop (unat n) (ring_list r)"
proof -
  let ?c = "cons_tail (cons r)" and ?u = "length (ring_list r)" and ?s = "ring_slots r"
  obtain k where k: "k < 28" "length ?s = 2 ^ k" using ring_inv_size [OF inv] .
  then have "unat (?c + n) mod length ?s = (unat ?c + unat n) mod length ?s"
    using unat_mod_pow2_add [of k ?c n] by simp
  then have "ring_get ?s (unat (?c + n)) m = ring_get ?s (unat ?c + unat n) m" for m
    by (rule ring_get_cong)
  then have "ring_list (ring_pop r n) = ring_get ?s (unat ?c + unat n) (?u - unat n)"
    using ring_pop_used [OF n] by (simp add: ring_list_def ring_pop_def Let_def)
  moreover have "ring_list r = ring_get ?s (unat ?c) (unat n) @ ring_get ?s (unat ?c + unat n) (?u - unat n)"
    using n ring_get_append [of ?s "unat ?c" "unat n" "?u - unat n"]
    by (simp add: ring_list_def)
  ultimately show ?thesis by (metis append_eq_conv_conj length_ring_get)
qed

section \<open>Refinement to a bounded list\<close>

text \<open>How many of \<open>n\<close> objects an operation moves when \<open>room\<close> would fit.\<close>
definition moved :: "rte_ring_queue_behavior \<Rightarrow> nat \<Rightarrow> nat \<Rightarrow> nat" where
  "moved b n room = (if n \<le> room then n else if b = RTE_RING_QUEUE_FIXED then 0 else room)"

lemma moved_le: "moved b n room \<le> room" "moved b n room \<le> n"
  by (simp_all add: moved_def)

lemma enq_reserve_moved:
  assumes "unat f = room"
  shows "(case enq_reserve f n b of Inl _ \<Rightarrow> 0 | Inr m \<Rightarrow> unat m) = moved b (unat n) room"
  using assms by (auto simp: enq_reserve_def moved_def word_less_nat_alt)

lemma deq_reserve_moved:
  assumes "unat f = room"
  shows "(case deq_reserve f n b of Inl _ \<Rightarrow> 0 | Inr m \<Rightarrow> unat m) = moved b (unat n) room"
  using assms by (auto simp: deq_reserve_def moved_def word_less_nat_alt)

lemma sp_enqueue_refines:
  assumes inv: "ring_inv r" and len: "unat n \<le> length obj"
  obtains ret r' where "rte_ring_sp_do_enqueue r obj n b = Some (ret, r')" and "ring_inv r'"
    and "ring_list r' = ring_list r @ take (moved b (unat n) (ring_free_n r)) obj"
    and "ring_cap r' = ring_cap r"
proof -
  let ?f = "prod_mask (prod r) + cons_tail (cons r) - prod_head (prod r)"
  note f = free_entries_nat [OF inv]
  show thesis
  proof (cases "enq_reserve ?f n b")
    case (Inl ret)
    then have "rte_ring_sp_do_enqueue r obj n b = Some (ret, r)"
      by (simp add: sp_enqueue_exact [OF inv len] Let_def)
    moreover have "moved b (unat n) (ring_free_n r) = 0" using enq_reserve_moved [OF f, of n b] Inl by simp
    ultimately show thesis by (intro that [of ret r]) (simp_all add: inv)
  next
    case (Inr m)
    then have m: "unat m = moved b (unat n) (ring_free_n r)" using enq_reserve_moved [OF f, of n b] by simp
    then have le: "unat m \<le> ring_free_n r" "unat m \<le> length obj"
      using len moved_le [of b "unat n" "ring_free_n r"] by simp_all
    have "rte_ring_sp_do_enqueue r obj n b =
        Some (enq_return (prod_mask (prod r)) ?f m (prod_watermark (prod r)) b, ring_push r m obj)"
      using Inr by (simp add: sp_enqueue_exact [OF inv len] Let_def)
    then show thesis
      by (rule that) (simp_all add: m [symmetric] ring_push_inv [OF inv le(1)]
          ring_push_list [OF inv le])
  qed
qed

lemma sc_dequeue_refines:
  assumes inv: "ring_inv r" and len: "unat n \<le> length tab"
  obtains ret tab' r' where "rte_ring_sc_do_dequeue r tab n b = Some (ret, tab', r')" and "ring_inv r'"
    and "take (moved b (unat n) (length (ring_list r))) tab' =
         take (moved b (unat n) (length (ring_list r))) (ring_list r)"
    and "ring_list r' = drop (moved b (unat n) (length (ring_list r))) (ring_list r)"
    and "ring_cap r' = ring_cap r" and "length tab' = length tab"
proof -
  let ?e = "prod_tail (prod r) - cons_head (cons r)"
  note e = entries_nat [OF inv]
  show thesis
  proof (cases "deq_reserve ?e n b")
    case (Inl ret)
    then have "rte_ring_sc_do_dequeue r tab n b = Some (ret, tab, r)"
      by (simp add: sc_dequeue_exact [OF inv len])
    moreover have "moved b (unat n) (length (ring_list r)) = 0" using deq_reserve_moved [OF e, of n b] Inl by simp
    ultimately show thesis by (intro that [of ret tab r]) (simp_all add: inv)
  next
    case (Inr m)
    then have m: "unat m = moved b (unat n) (length (ring_list r))" using deq_reserve_moved [OF e, of n b] by simp
    then have le: "unat m \<le> length (ring_list r)" "unat m \<le> length tab"
      using len moved_le [of b "unat n" "length (ring_list r)"] by simp_all
    have "rte_ring_sc_do_dequeue r tab n b = Some (deq_return m b,
        take (unat m) (ring_list r) @ drop (unat m) tab, ring_pop r m)"
      using Inr by (simp add: sc_dequeue_exact [OF inv len])
    then show thesis
    proof (rule that)
      show "ring_inv (ring_pop r m)" by (rule ring_pop_inv [OF inv le(1)])
      show "ring_list (ring_pop r m) = drop (moved b (unat n) (length (ring_list r))) (ring_list r)"
        unfolding m [symmetric] by (rule ring_pop_list [OF inv le(1)])
      show "take (moved b (unat n) (length (ring_list r)))
          (take (unat m) (ring_list r) @ drop (unat m) tab) =
        take (moved b (unat n) (length (ring_list r))) (ring_list r)"
        unfolding m [symmetric] using le(1) by simp
      show "length (take (unat m) (ring_list r) @ drop (unat m) tab) = length tab"
        using le by simp
    qed simp
  qed
qed

section \<open>Without interference the multi-producer and multi-consumer versions agree\<close>

lemma mp_enqueue_eq_sp:
  assumes "ring_inv r"
  shows "rte_ring_mp_do_enqueue [] [] r obj n b = rte_ring_sp_do_enqueue r obj n b"
  using ring_inv_tails(1) [OF assms]
  by (auto simp: rte_ring_mp_do_enqueue_def rte_ring_sp_do_enqueue_def Let_def
      cmpset_prod_head_def set_prod_head_def split: sum.splits bind_splits)

lemma mc_dequeue_eq_sc:
  assumes "ring_inv r"
  shows "rte_ring_mc_do_dequeue [] [] r tab n b = rte_ring_sc_do_dequeue r tab n b"
  using ring_inv_tails(2) [OF assms]
  by (auto simp: rte_ring_mc_do_dequeue_def rte_ring_sc_do_dequeue_def Let_def
      cmpset_cons_head_def set_cons_head_def split: sum.splits bind_splits)

lemma enqueue_burst_eq:
  "ring_inv r \<Longrightarrow> rte_ring_enqueue_burst r obj n =
     ret_unsigned (rte_ring_sp_do_enqueue r obj n RTE_RING_QUEUE_VARIABLE)"
  by (simp add: rte_ring_enqueue_burst_def rte_ring_sp_enqueue_burst_def
      rte_ring_mp_enqueue_burst_def mp_enqueue_eq_sp)

lemma dequeue_burst_eq:
  "ring_inv r \<Longrightarrow> rte_ring_dequeue_burst r tab n =
     ret_unsigned (rte_ring_sc_do_dequeue r tab n RTE_RING_QUEUE_VARIABLE)"
  by (simp add: rte_ring_dequeue_burst_def rte_ring_sc_dequeue_burst_def
      rte_ring_mc_dequeue_burst_def mc_dequeue_eq_sc)

lemma enqueue_bulk_eq:
  "ring_inv r \<Longrightarrow> rte_ring_enqueue_bulk r obj n = rte_ring_sp_do_enqueue r obj n RTE_RING_QUEUE_FIXED"
  by (simp add: rte_ring_enqueue_bulk_def rte_ring_sp_enqueue_bulk_def
      rte_ring_mp_enqueue_bulk_def mp_enqueue_eq_sp)

lemma dequeue_bulk_eq:
  "ring_inv r \<Longrightarrow> rte_ring_dequeue_bulk r tab n = rte_ring_sc_do_dequeue r tab n RTE_RING_QUEUE_FIXED"
  by (simp add: rte_ring_dequeue_bulk_def rte_ring_sc_dequeue_bulk_def
      rte_ring_mc_dequeue_bulk_def mc_dequeue_eq_sc)

section \<open>Return values and the water mark\<close>

lemma quota_iff:
  assumes inv: "ring_inv r" and m: "unat m \<le> ring_free_n r"
    and f: "f = prod_mask (prod r) + cons_tail (cons r) - prod_head (prod r)"
  shows "(prod_mask (prod r) + 1 - f + m > prod_watermark (prod r)) \<longleftrightarrow>
    unat (prod_watermark (prod r)) \<le> length (ring_list r) + unat m"
proof -
  let ?M = "prod_mask (prod r)"
  have uf: "unat f = ring_free_n r" using free_entries_nat [OF inv] f by simp
  have used: "length (ring_list r) \<le> unat ?M" using ring_inv_used [OF inv] by (simp add: ring_cap_def)
  have M: "unat (?M + 1) = Suc (unat ?M)"
    using ring_inv_idx(3) [OF inv] by (subst unat_add_lem [THEN iffD1]) (simp_all add: ring_cap_def)
  have "f \<le> ?M + 1" using uf M by (simp add: word_le_nat_alt ring_free_n_def ring_cap_def)
  then have d: "unat (?M + 1 - f) = Suc (length (ring_list r))"
    using uf M used by (simp add: unat_sub ring_free_n_def ring_cap_def)
  have "unat (?M + 1 - f + m) = Suc (length (ring_list r)) + unat m"
    using d m used ring_inv_idx(3) [OF inv]
    by (subst unat_add_lem [THEN iffD1]) (simp_all add: ring_free_n_def ring_cap_def)
  then show ?thesis by (simp add: word_less_nat_alt less_Suc_eq_le)
qed

lemma word_of_int_sint [simp]: "word_of_int (sint (w :: u32)) = w"
  by simp

lemma quot_bit_clear:
  fixes w :: u32
  assumes "unat w < 2 ^ 31"
  shows "(w OR RTE_RING_QUOT_EXCEED) AND NOT RTE_RING_QUOT_EXCEED = w"
    and "w AND NOT RTE_RING_QUOT_EXCEED = w"
proof -
  have "\<not> bit w 31"
  proof
    assume "bit w 31"
    then have "bit (unat w) 31" by (simp add: bit_unsigned_iff)
    then have "odd (unat w div 2 ^ 31)" by (rule bit_iff_odd [THEN iffD1])
    moreover have "unat w div 2 ^ 31 = 0" using assms by simp
    ultimately show False by (metis even_zero)
  qed
  moreover have "bit RTE_RING_QUOT_EXCEED n \<longleftrightarrow> n = 31" for n
    unfolding RTE_RING_QUOT_EXCEED_def by (subst bit_push_bit_iff) (auto simp: bit_1_iff)
  ultimately show "w AND NOT RTE_RING_QUOT_EXCEED = w"
    and "(w OR RTE_RING_QUOT_EXCEED) AND NOT RTE_RING_QUOT_EXCEED = w"
    by (auto simp: bit_simps intro!: bit_word_eqI)
qed

text \<open>
  The count a burst reports, with the quota flag in bit 31 masked off, and the effect of the
  call on the abstract list.
\<close>

definition burst_count :: "u32 \<Rightarrow> nat" where
  "burst_count ret = unat (ret AND NOT RTE_RING_QUOT_EXCEED)"

lemma moved_variable: "moved RTE_RING_QUEUE_VARIABLE n room = min n room"
  by (simp add: moved_def min_def)

lemma enqueue_burst_result:
  assumes inv: "ring_inv r" and len: "unat n \<le> length obj"
  obtains ret r' where "rte_ring_enqueue_burst r obj n = Some (ret, r')" and "ring_inv r'"
    and "burst_count ret = min (unat n) (ring_free_n r)"
    and "ring_list r' = ring_list r @ take (min (unat n) (ring_free_n r)) obj"
    and "ring_cap r' = ring_cap r" and "prod_sp_enqueue (prod r') = prod_sp_enqueue (prod r)"
    and "ring_flags r' = ring_flags r" and "ring_name r' = ring_name r"
proof -
  let ?f = "prod_mask (prod r) + cons_tail (cons r) - prod_head (prod r)"
  let ?b = RTE_RING_QUEUE_VARIABLE
  note f = free_entries_nat [OF inv]
  show thesis
  proof (cases "enq_reserve ?f n ?b")
    case (Inl ret)
    then have ret: "ret = 0" by (auto simp: enq_reserve_def split: if_splits)
    have "min (unat n) (ring_free_n r) = 0"
      using enq_reserve_moved [OF f, of n ?b] Inl by (simp add: moved_variable)
    moreover have "rte_ring_enqueue_burst r obj n = Some (0, r)"
      using Inl ret by (simp add: enqueue_burst_eq [OF inv] sp_enqueue_exact [OF inv len] Let_def ret_unsigned_def)
    ultimately show thesis by (intro that [of 0 r]) (simp_all add: inv burst_count_def)
  next
    case (Inr m)
    then have m: "unat m = min (unat n) (ring_free_n r)"
      using enq_reserve_moved [OF f, of n ?b] by (simp add: moved_variable)
    have small: "unat m < 2 ^ 31"
      using m ring_inv_idx(3) [OF inv] by (simp add: ring_free_n_def)
    let ?ret = "word_of_int (enq_return (prod_mask (prod r)) ?f m (prod_watermark (prod r)) ?b) :: u32"
    have "rte_ring_enqueue_burst r obj n = Some (?ret, ring_push r m obj)"
      using Inr by (simp add: enqueue_burst_eq [OF inv] sp_enqueue_exact [OF inv len] Let_def ret_unsigned_def)
    moreover have "?ret AND NOT RTE_RING_QUOT_EXCEED = m"
      using quot_bit_clear [OF small] by (simp add: enq_return_def)
    then have "burst_count ?ret = unat m" by (simp add: burst_count_def)
    moreover have "ring_inv (ring_push r m obj)" by (rule ring_push_inv [OF inv]) (simp add: m)
    moreover have "ring_list (ring_push r m obj) = ring_list r @ take (unat m) obj"
      using m len by (intro ring_push_list [OF inv]) simp_all
    ultimately show thesis
      using that [of ?ret "ring_push r m obj"] m by simp
  qed
qed

lemma dequeue_burst_result:
  assumes inv: "ring_inv r" and len: "unat n \<le> length tab"
  obtains ret tab' r' where "rte_ring_dequeue_burst r tab n = Some (ret, tab', r')" and "ring_inv r'"
    and "unat ret = min (unat n) (length (ring_list r))"
    and "take (unat ret) tab' = take (unat n) (ring_list r)"
    and "ring_list r' = drop (unat n) (ring_list r)" and "length tab' = length tab"
    and "ring_cap r' = ring_cap r" and "ring_flags r' = ring_flags r" and "ring_name r' = ring_name r"
proof -
  let ?e = "prod_tail (prod r) - cons_head (cons r)"
  let ?b = RTE_RING_QUEUE_VARIABLE
  note e = entries_nat [OF inv]
  show thesis
  proof (cases "deq_reserve ?e n ?b")
    case (Inl ret)
    then have ret: "ret = 0" by (auto simp: deq_reserve_def split: if_splits)
    have z: "min (unat n) (length (ring_list r)) = 0"
      using deq_reserve_moved [OF e, of n ?b] Inl by (simp add: moved_variable)
    have "rte_ring_dequeue_burst r tab n = Some (0, tab, r)"
      using Inl ret by (simp add: dequeue_burst_eq [OF inv] sc_dequeue_exact [OF inv len] ret_unsigned_def)
    then show thesis
      using z by (intro that [of 0 tab r]) (auto simp: inv min_def split: if_splits)
  next
    case (Inr m)
    then have m: "unat m = min (unat n) (length (ring_list r))"
      using deq_reserve_moved [OF e, of n ?b] by (simp add: moved_variable)
    let ?tab = "take (unat m) (ring_list r) @ drop (unat m) tab"
    have eq: "rte_ring_dequeue_burst r tab n = Some (m, ?tab, ring_pop r m)"
      using Inr by (simp add: dequeue_burst_eq [OF inv] sc_dequeue_exact [OF inv len]
          ret_unsigned_def deq_return_def)
    have drop: "ring_list (ring_pop r m) = drop (unat n) (ring_list r)"
      using ring_pop_list [OF inv, of m] m by (simp add: min_def split: if_splits)
    have "take (unat m) ?tab = take (unat n) (ring_list r)" using m by (simp add: min_def)
    moreover have "length ?tab = length tab" using m len by simp
    moreover have "ring_inv (ring_pop r m)" using m by (intro ring_pop_inv [OF inv]) simp
    ultimately show thesis
      using drop m by (intro that [OF eq]) simp_all
  qed
qed

section \<open>The ring as a burst queue\<close>

definition ring_enq :: "'a rte_ring \<Rightarrow> 'a list \<Rightarrow> (nat \<times> 'a rte_ring) option" where
  "ring_enq r xs = map_option (\<lambda>(ret, r). (burst_count ret, r))
     (rte_ring_enqueue_burst r xs (word_of_nat (length xs)))"

text \<open>The caller's table holds \<open>n\<close> cells with some value \<open>z\<close> before the call.\<close>
definition ring_deq :: "'a \<Rightarrow> 'a rte_ring \<Rightarrow> nat \<Rightarrow> ('a list \<times> 'a rte_ring) option" where
  "ring_deq z r n = map_option (\<lambda>(ret, tab, r). (take (unat ret) tab, r))
     (rte_ring_dequeue_burst r (replicate n z) (word_of_nat n))"

lemma unat_word_of_nat_u32 [simp]: "n < 2 ^ 31 \<Longrightarrow> unat (word_of_nat n :: u32) = n"
  by (simp add: unat_of_nat)

interpretation ring_q: burst_queue ring_inv ring_list ring_cap "2 ^ 31 - 1" ring_enq "ring_deq z" for z
proof unfold_locales
  fix q :: "'a rte_ring" and xs :: "'a list" and k n
  show "ring_inv q \<Longrightarrow> length (ring_list q) \<le> ring_cap q" by (rule ring_inv_used)
  assume inv: "ring_inv q"
  show "\<exists>q'. ring_enq q xs = Some (k, q') \<and> ring_inv q' \<and> ring_cap q' = ring_cap q
      \<and> ring_list q' = ring_list q @ take k xs"
    if "length xs \<le> 2 ^ 31 - 1" and "k = min (length xs) (ring_cap q - length (ring_list q))"
  proof -
    have n: "unat (word_of_nat (length xs) :: u32) = length xs" using that(1) by simp
    then obtain ret q' where q': "rte_ring_enqueue_burst q xs (word_of_nat (length xs)) = Some (ret, q')"
      "ring_inv q'" "burst_count ret = min (length xs) (ring_free_n q)"
      "ring_list q' = ring_list q @ take (min (length xs) (ring_free_n q)) xs" "ring_cap q' = ring_cap q"
      using enqueue_burst_result [OF inv, of "word_of_nat (length xs)" xs] by (metis order_refl)
    then show ?thesis using that(2) by (simp add: ring_enq_def ring_free_n_def)
  qed
  show "\<exists>q'. ring_deq z q n = Some (take n (ring_list q), q') \<and> ring_inv q' \<and> ring_cap q' = ring_cap q
      \<and> ring_list q' = drop n (ring_list q)" if "n \<le> 2 ^ 31 - 1" for n
  proof -
    have n: "unat (word_of_nat n :: u32) = n" using that by simp
    then obtain ret tab q' where "rte_ring_dequeue_burst q (replicate n z) (word_of_nat n) = Some (ret, tab, q')"
      "ring_inv q'" "take (unat ret) tab = take n (ring_list q)" "ring_list q' = drop n (ring_list q)"
      "ring_cap q' = ring_cap q"
      using dequeue_burst_result [OF inv, of "word_of_nat n" "replicate n z"]
      by (metis length_replicate order_refl)
    then show ?thesis by (simp add: ring_deq_def)
  qed
qed

section \<open>Initialisation and counters\<close>

lemma ring_init_inv:
  assumes "POWEROF2 cnt" and "cnt \<noteq> 0" and "cnt \<le> RTE_RING_SZ_MASK"
    and "length (ring_slots r) = unat cnt"
  shows "ring_inv (snd (rte_ring_init r name cnt flags))"
    and "ring_list (snd (rte_ring_init r name cnt flags)) = []"
    and "ring_cap (snd (rte_ring_init r name cnt flags)) = unat cnt - 1"
  using assms
  by (simp_all add: ring_inv_def rte_ring_init_def ring_list_def ring_cap_def Let_def unat_minus_one
      word_le_nat_alt)

lemma ring_count_nat: "ring_inv r \<Longrightarrow> unat (rte_ring_count r) = length (ring_list r)"
  using masked_index [of r "prod_tail (prod r) - cons_tail (cons r)"] ring_inv_used [of r]
    ring_inv_idx(1) [of r]
  by (simp add: rte_ring_count_def length_ring_list)

lemma ring_free_count_nat:
  assumes inv: "ring_inv r"
  shows "unat (rte_ring_free_count r) = ring_free_n r"
proof -
  let ?m = "prod_mask (prod r)" and ?d = "prod_tail (prod r) - cons_tail (cons r)"
  obtain k where k: "k < 28" "Suc (unat ?m) = 2 ^ k" using ring_inv_size [OF inv] .
  have fc: "rte_ring_free_count r = (?m - ?d + (- 1 - ?m)) AND ?m"
    unfolding rte_ring_free_count_def by (rule arg_cong [where f = "\<lambda>w. w AND ?m"]) (simp add: algebra_simps)
  have dvd: "(2::nat) ^ k dvd unat (- 1 - ?m)"
  proof -
    have "unat (- 1 - ?m) = unat (- 1 :: u32) - unat ?m" by (rule unat_sub) simp
    moreover have "unat (- 1 :: u32) = 2 ^ 32 - 1" by (simp add: unsigned_minus_1_eq_mask mask_eq_exp_minus_1)
    ultimately have "unat (- 1 - ?m) = 2 ^ 32 - Suc (unat ?m)" by simp
    then have "unat (- 1 - ?m) = 2 ^ 32 - 2 ^ k" using k(2) by simp
    moreover have "(2::nat) ^ k dvd 2 ^ 32" using k(1) by (intro le_imp_power_dvd) simp
    ultimately show ?thesis by (simp add: dvd_diff_nat)
  qed
  have "unat ((?m - ?d + (- 1 - ?m)) AND ?m) = unat (?m - ?d + (- 1 - ?m)) mod 2 ^ k"
    by (rule unat_mask_and [OF k(2)])
  also have "\<dots> = (unat (?m - ?d) + unat (- 1 - ?m)) mod 2 ^ k"
    using k(1) by (intro unat_mod_pow2_add) simp
  also have "\<dots> = unat (?m - ?d) mod 2 ^ k" using dvd by (metis dvd_imp_mod_0 mod_add_right_eq add.right_neutral)
  also have "\<dots> = ring_free_n r"
  proof -
    have "?m - ?d = ?m + cons_tail (cons r) - prod_head (prod r)"
      using ring_inv_tails(1) [OF inv] by simp
    then have "unat (?m - ?d) = ring_free_n r" using free_entries_nat [OF inv] by argo
    moreover have "ring_free_n r < 2 ^ k" using k(2) by (simp add: ring_free_n_def ring_cap_def)
    ultimately show ?thesis by simp
  qed
  finally show ?thesis unfolding fc .
qed

section \<open>Bulk operations\<close>

lemma enq_fixed_result:
  assumes inv: "ring_inv r" and len: "unat n \<le> length obj"
  shows "\<exists>ret r'. rte_ring_sp_do_enqueue r obj n RTE_RING_QUEUE_FIXED = Some (ret, r')
    \<and> (if unat n \<le> ring_free_n r
       then ring_inv r' \<and> ring_cap r' = ring_cap r \<and> ring_list r' = ring_list r @ take (unat n) obj
         \<and> ret = (if unat (prod_watermark (prod r)) \<le> length (ring_list r') then - EDQUOT else 0)
       else ret = - ENOBUFS \<and> r' = r)"
proof -
  let ?f = "prod_mask (prod r) + cons_tail (cons r) - prod_head (prod r)"
  let ?b = RTE_RING_QUEUE_FIXED
  have f: "unat ?f = ring_free_n r" by (rule free_entries_nat [OF inv])
  show ?thesis
  proof (cases "unat n \<le> ring_free_n r")
    case True
    then have "enq_reserve ?f n ?b = Inr n" using f by (simp add: enq_reserve_def word_less_nat_alt)
    then have "rte_ring_sp_do_enqueue r obj n ?b =
        Some (enq_return (prod_mask (prod r)) ?f n (prod_watermark (prod r)) ?b, ring_push r n obj)"
      by (simp add: sp_enqueue_exact [OF inv len] Let_def)
    then show ?thesis
      using True len ring_push_inv [OF inv True] ring_push_list [OF inv True len] quota_iff [OF inv True refl]
      by (simp add: enq_return_def)
  next
    case False
    then have "enq_reserve ?f n ?b = Inl (- ENOBUFS)" using f by (simp add: enq_reserve_def word_less_nat_alt)
    then show ?thesis using False by (simp add: sp_enqueue_exact [OF inv len] Let_def)
  qed
qed

lemma deq_fixed_result:
  assumes inv: "ring_inv r" and len: "unat n \<le> length tab"
  shows "\<exists>ret tab' r'. rte_ring_sc_do_dequeue r tab n RTE_RING_QUEUE_FIXED = Some (ret, tab', r')
    \<and> (if unat n \<le> length (ring_list r)
       then ret = 0 \<and> ring_inv r' \<and> ring_cap r' = ring_cap r \<and> tab' = take (unat n) (ring_list r) @ drop (unat n) tab
         \<and> ring_list r' = drop (unat n) (ring_list r)
       else ret = - ENOENT \<and> tab' = tab \<and> r' = r)"
proof -
  let ?e = "prod_tail (prod r) - cons_head (cons r)"
  let ?b = RTE_RING_QUEUE_FIXED
  have e: "unat ?e = length (ring_list r)" by (rule entries_nat [OF inv])
  show ?thesis
  proof (cases "unat n \<le> length (ring_list r)")
    case True
    then have "deq_reserve ?e n ?b = Inr n" using e by (simp add: deq_reserve_def word_less_nat_alt)
    then show ?thesis
      using True ring_pop_inv [OF inv True] ring_pop_list [OF inv True]
      by (simp add: sc_dequeue_exact [OF inv len] deq_return_def)
  next
    case False
    then have "deq_reserve ?e n ?b = Inl (- ENOENT)" using e by (simp add: deq_reserve_def word_less_nat_alt)
    then show ?thesis using False by (simp add: sc_dequeue_exact [OF inv len])
  qed
qed

section \<open>Properties\<close>

text \<open>A ring of four slots holding two objects, used by the witnesses.\<close>
definition ring_4 :: "nat rte_ring" where
  "ring_4 = \<lparr>ring_name = ''MProc_Ring_0'', ring_flags = 3, ring_memzone = None,
     prod = \<lparr>prod_watermark = 4, prod_sp_enqueue = True, prod_size = 4, prod_mask = 3,
             prod_head = 1, prod_tail = 1\<rparr>,
     cons = \<lparr>cons_sc_dequeue = True, cons_size = 4, cons_mask = 3,
             cons_head = 0xFFFFFFFF, cons_tail = 0xFFFFFFFF\<rparr>,
     ring_slots = [12, 10, 11, 11]\<rparr>"

lemma ring_4_inv: "ring_inv ring_4"
  by (simp add: ring_inv_def ring_4_def POWEROF2_def RTE_RING_SZ_MASK_def Let_def)

lemma ring_4_list: "ring_list ring_4 = [11, 12]"
proof -
  have "[0..<2] = [0, 1::nat]" by (simp add: upt_rec)
  then show ?thesis by (simp add: ring_list_def ring_4_def ring_get_def)
qed

lemma ring_4_cap: "ring_cap ring_4 = 3"
  by (simp add: ring_cap_def ring_4_def)

text \<open>
  C35. A sequence of burst enqueues and dequeues on a well-formed ring never fails, keeps the
  ring well-formed, and is first-in first-out: what was delivered followed by what is still in
  the ring is what was in the ring before followed by what was accepted. The 32-bit indexes may
  wrap any number of times.
\<close>
theorem ring_run_fifo:
  assumes "ring_inv r" and "list_all (op_fits (2 ^ 31 - 1)) ops"
  shows "\<exists>acc del r'. run_queue ring_enq (ring_deq z) r ops = Some (acc, del, r')
    \<and> ring_inv r' \<and> ring_cap r' = ring_cap r \<and> del @ ring_list r' = ring_list r @ acc"
  using assms by (rule ring_q.run_fifo)

theorem ring_run_fifo_witness:
  "\<exists>acc del r'. run_queue ring_enq (ring_deq 0) ring_4 [Deq 1, Enq [13, 14, 15], Deq 2] = Some (acc, del, r')
    \<and> ring_inv r' \<and> ring_cap r' = ring_cap ring_4 \<and> del @ ring_list r' = ring_list ring_4 @ acc"
  by (rule ring_run_fifo) (simp_all add: ring_4_inv)

text \<open>
  C36. The copy macros with their loop unrolled four times, the fall-through switch and the
  two-part copy at the end of the array perform exactly the assignments of the simple loop that
  takes every index modulo the ring size, in the same order, for any assignment.
\<close>
theorem copy_ptrs_equiv_reference:
  assumes "unat idx < unat S" and "unat n \<le> unat S" and "unat S < 2 ^ 31"
  shows "copy_ptrs step idx n S s = ref_ptrs step (unat S) (unat idx) (unat n) 0 s"
  using assms by (rule copy_ptrs_ref)

theorem copy_ptrs_equiv_reference_witness:
  "copy_ptrs (enq_step [1, 2, 3 :: nat]) 3 3 4 [0, 0, 0, 0] =
     ref_ptrs (enq_step [1, 2, 3]) 4 3 3 0 [0, 0, 0, 0]"
  using copy_ptrs_equiv_reference [of 3 4 3 "enq_step [1, 2, 3 :: nat]" "[0, 0, 0, 0]"] by simp

text \<open>
  A bulk enqueue is all or nothing: with room for all \<open>n\<close> objects it appends exactly
  these and returns 0 or, above the water mark, \<open>-EDQUOT\<close>; without room it returns
  \<open>-ENOBUFS\<close> and the ring is unchanged. \<open>-EDQUOT\<close> is returned exactly when the ring holds at
  least \<open>watermark\<close> objects afterwards.
\<close>
theorem enqueue_bulk_all_or_nothing:
  assumes inv: "ring_inv r" and len: "unat n \<le> length obj"
  shows "\<exists>ret r'. rte_ring_enqueue_bulk r obj n = Some (ret, r')
    \<and> (if unat n \<le> ring_free_n r
       then ring_inv r' \<and> ring_cap r' = ring_cap r \<and> ring_list r' = ring_list r @ take (unat n) obj
         \<and> ret = (if unat (prod_watermark (prod r)) \<le> length (ring_list r') then - EDQUOT else 0)
       else ret = - ENOBUFS \<and> r' = r)"
  unfolding enqueue_bulk_eq [OF inv] by (rule enq_fixed_result [OF assms])

theorem enqueue_bulk_all_or_nothing_witness:
  "\<exists>ret r'. rte_ring_enqueue_bulk ring_4 [20, 21] 2 = Some (ret, r')
    \<and> (if unat (2 :: u32) \<le> ring_free_n ring_4
       then ring_inv r' \<and> ring_cap r' = ring_cap ring_4 \<and> ring_list r' = ring_list ring_4 @ take (unat (2 :: u32)) [20, 21]
         \<and> ret = (if unat (prod_watermark (prod ring_4)) \<le> length (ring_list r') then - EDQUOT else 0)
       else ret = - ENOBUFS \<and> r' = ring_4)"
  by (rule enqueue_bulk_all_or_nothing [OF ring_4_inv]) simp

text \<open>
  A bulk dequeue is all or nothing: with at least \<open>n\<close> objects in the ring it returns 0,
  fills the first \<open>n\<close> cells of the table with the oldest objects in order, leaves the other
  cells alone and removes exactly these objects; otherwise it returns \<open>-ENOENT\<close> and changes
  nothing.
\<close>
theorem dequeue_bulk_all_or_nothing:
  assumes inv: "ring_inv r" and len: "unat n \<le> length tab"
  shows "\<exists>ret tab' r'. rte_ring_dequeue_bulk r tab n = Some (ret, tab', r')
    \<and> (if unat n \<le> length (ring_list r)
       then ret = 0 \<and> ring_inv r' \<and> ring_cap r' = ring_cap r \<and> tab' = take (unat n) (ring_list r) @ drop (unat n) tab
         \<and> ring_list r' = drop (unat n) (ring_list r)
       else ret = - ENOENT \<and> tab' = tab \<and> r' = r)"
  unfolding dequeue_bulk_eq [OF inv] by (rule deq_fixed_result [OF assms])

theorem dequeue_bulk_all_or_nothing_witness:
  "\<exists>ret tab' r'. rte_ring_dequeue_bulk ring_4 [0, 0] 2 = Some (ret, tab', r')
    \<and> (if unat (2 :: u32) \<le> length (ring_list ring_4)
       then ret = 0 \<and> ring_inv r' \<and> ring_cap r' = ring_cap ring_4 \<and> tab' = take (unat (2 :: u32)) (ring_list ring_4) @ drop (unat (2 :: u32)) [0, 0]
         \<and> ring_list r' = drop (unat (2 :: u32)) (ring_list ring_4)
       else ret = - ENOENT \<and> tab' = [0, 0] \<and> r' = ring_4)"
  by (rule dequeue_bulk_all_or_nothing [OF ring_4_inv]) simp

end
