(* ===== verification/Rte_Ring_Registry.thy ===== *)
theory Rte_Ring_Registry
  imports Rte_Ring_Correct
begin

text \<open>
  Rings by name: \<open>rte_ring_create\<close>, \<open>rte_ring_free\<close> and \<open>rte_ring_lookup\<close> of
  \<open>lib/librte_ring/rte_ring.c\<close> over the memory zones and the list of rings that all processes
  share. Every client of the patch panel finds its ring with \<open>rte_ring_lookup\<close>.
\<close>

unbundle bit_operations_syntax

section \<open>State and operations\<close>

text \<open>
  The shared memory as the ring code sees it: the rings by address, and the tail queue of
  pairs of an entry's address and its \<open>data\<close> pointer.
\<close>
record ('h, 'a) ring_eal = "'h eal" +
  ring_at :: "u64 \<Rightarrow> 'a rte_ring option"
  ring_tailq :: "(u64 \<times> u64) list"

definition RTE_RING_MZ_PREFIX :: string where "RTE_RING_MZ_PREFIX = ''RG_''"
definition sizeof_rte_tailq_entry :: u64 where "sizeof_rte_tailq_entry = 24"

text \<open>The cells after the structure hold whatever the memory held: the argument \<open>mem\<close>.\<close>
definition raw_ring :: "(u64 \<Rightarrow> 'a) \<Rightarrow> u64 \<Rightarrow> u32 \<Rightarrow> 'a rte_ring" where
  "raw_ring mem a cnt =
     \<lparr>ring_name = '''', ring_flags = 0, ring_memzone = None,
      prod = \<lparr>prod_watermark = 0, prod_sp_enqueue = False, prod_size = 0, prod_mask = 0,
              prod_head = 0, prod_tail = 0\<rparr>,
      cons = \<lparr>cons_sc_dequeue = False, cons_size = 0, cons_mask = 0, cons_head = 0, cons_tail = 0\<rparr>,
      ring_slots = map (\<lambda>i. mem (a + of_nat (sizeof_rte_ring + 8 * i))) [0..<unat cnt]\<rparr>"

text \<open>The result is the address of the ring, 0 for \<open>NULL\<close>.\<close>
definition rte_ring_create ::
  "'h heap_ops \<Rightarrow> (u64 \<Rightarrow> 'a) \<Rightarrow> ('h, 'a, 'z) ring_eal_scheme \<Rightarrow> string \<Rightarrow> u32 \<Rightarrow> int \<Rightarrow> u32 \<Rightarrow>
     u64 \<times> ('h, 'a, 'z) ring_eal_scheme" where
  "rte_ring_create ops mem e name cnt socket_id flags =
     (let ring_size = rte_ring_get_memsize cnt
      in if ring_size < 0 then (0, e\<lparr>rte_errno := ring_size\<rparr>)
         else case rte_zmalloc ops (malloc_heaps e) sizeof_rte_tailq_entry of
           (te, h) \<Rightarrow>
             let e = e\<lparr>malloc_heaps := h\<rparr>
             in if te = 0 then (0, e\<lparr>rte_errno := ENOMEM\<rparr>)
                else case rte_memzone_reserve ops e
                            (snprintf_s RTE_MEMZONE_NAMESIZE (RTE_RING_MZ_PREFIX @ name))
                            (word_of_int ring_size) socket_id 0 of
                  (Some mz, e) \<Rightarrow>
                    let r = mz_addr (memzone e ! mz);
                        ring = (snd (rte_ring_init (raw_ring mem r cnt) name cnt flags))
                                 \<lparr>ring_memzone := Some mz\<rparr>
                    in (r, e\<lparr>ring_at := (ring_at e)(r \<mapsto> ring), ring_tailq := ring_tailq e @ [(te, r)]\<rparr>)
                | (None, e) \<Rightarrow> (0, e\<lparr>malloc_heaps := rte_free ops (malloc_heaps e) te\<rparr>))"

text \<open>\<^term>\<open>None\<close>: a pointer that is not a ring, or the panic of \<open>rte_memzone_free\<close>.\<close>
definition rte_ring_free ::
  "'h heap_ops \<Rightarrow> ('h, 'a, 'z) ring_eal_scheme \<Rightarrow> u64 \<Rightarrow> ('h, 'a, 'z) ring_eal_scheme option" where
  "rte_ring_free ops e r =
     (if r = 0 then Some e
      else do { ring \<leftarrow> ring_at e r;
                if ring_memzone ring = None then Some e
                else do {
                  (ret, e) \<leftarrow> rte_memzone_free ops e (ring_memzone ring);
                  if ret \<noteq> 0 then Some e
                  else let e = e\<lparr>ring_at := (ring_at e)(r := None)\<rparr>
                       in case scan (\<lambda>(te, d). d = r) (ring_tailq e) of
                            None \<Rightarrow> Some e
                          | Some i \<Rightarrow>
                              Some (e\<lparr>ring_tailq := take i (ring_tailq e) @ drop (Suc i) (ring_tailq e),
                                      malloc_heaps := rte_free ops (malloc_heaps e) (fst (ring_tailq e ! i))\<rparr>) } })"

fun ring_lookup_loop :: "(u64 \<Rightarrow> 'a rte_ring option) \<Rightarrow> string \<Rightarrow> (u64 \<times> u64) list \<Rightarrow> u64 option option" where
  "ring_lookup_loop rs name [] = Some None"
| "ring_lookup_loop rs name ((te, d) # q) =
     do { r \<leftarrow> rs d;
          if strncmp_eq name (ring_name r) RTE_RING_NAMESIZE then Some (Some d)
          else ring_lookup_loop rs name q }"

definition rte_ring_lookup :: "('h, 'a, 'z) ring_eal_scheme \<Rightarrow> string \<Rightarrow> (u64 \<times> ('h, 'a, 'z) ring_eal_scheme) option" where
  "rte_ring_lookup e name =
     do { te \<leftarrow> ring_lookup_loop (ring_at e) name (ring_tailq e);
          case te of None \<Rightarrow> Some (0, e\<lparr>rte_errno := ENOENT\<rparr>)
                   | Some r \<Rightarrow> Some (r, e) }"

section \<open>The invariant\<close>

text \<open>
  A ring of the list lies in a zone in use, at the start of the zone, inside it, and the zone
  carries the ring's name after the prefix.
\<close>
definition ring_placed :: "rte_memzone list \<Rightarrow> u64 \<Rightarrow> 'a rte_ring \<Rightarrow> bool" where
  "ring_placed zs a r \<longleftrightarrow> length (ring_name r) < RTE_RING_NAMESIZE \<and> a \<noteq> 0 \<and>
     (case ring_memzone r of
        None \<Rightarrow> False
      | Some i \<Rightarrow> i < length zs \<and> mz_addr (zs ! i) = a
          \<and> mz_name (zs ! i) = snprintf_s RTE_MEMZONE_NAMESIZE (RTE_RING_MZ_PREFIX @ ring_name r)
          \<and> sizeof_rte_ring + 8 * length (ring_slots r) \<le> unat (mz_len (zs ! i)))"

definition reg_inv :: "('h, 'a, 'z) ring_eal_scheme \<Rightarrow> bool" where
  "reg_inv e \<longleftrightarrow> mz_inv e \<and>
     list_all (\<lambda>(te, a). case ring_at e a of None \<Rightarrow> False | Some r \<Rightarrow> ring_placed (memzone e) a r)
       (ring_tailq e)"

lemma lookup_loop_None:
  assumes "\<And>te d. (te, d) \<in> set q \<Longrightarrow> \<exists>r. rs d = Some r \<and> \<not> strncmp_eq name (ring_name r) RTE_RING_NAMESIZE"
  shows "ring_lookup_loop rs name (q @ q') = ring_lookup_loop rs name q'"
  using assms
proof (induction q)
  case (Cons p q)
  obtain te d where p: "p = (te, d)" by (cases p)
  obtain r where "rs d = Some r" "\<not> strncmp_eq name (ring_name r) RTE_RING_NAMESIZE"
    using Cons.prems [of te d] p by auto
  moreover have "ring_lookup_loop rs name (q @ q') = ring_lookup_loop rs name q'"
    using Cons.prems by (intro Cons.IH) auto
  ultimately show ?case by (simp add: p)
qed simp

lemma lookup_loop_append:
  assumes "\<And>te d. (te, d) \<in> set q \<Longrightarrow> rs d \<noteq> None"
  shows "ring_lookup_loop rs name (q @ q') =
    (case ring_lookup_loop rs name q of Some None \<Rightarrow> ring_lookup_loop rs name q' | x \<Rightarrow> x)"
  using assms
proof (induction q)
  case (Cons p q)
  obtain te d where p: "p = (te, d)" by (cases p)
  obtain r where "rs d = Some r" using Cons.prems [of te d] p by auto
  moreover have "ring_lookup_loop rs name (q @ q') =
      (case ring_lookup_loop rs name q of Some None \<Rightarrow> ring_lookup_loop rs name q' | x \<Rightarrow> x)"
    using Cons.prems by (intro Cons.IH) auto
  ultimately show ?case by (simp add: p)
qed simp

lemma lookup_loop_cong:
  "(\<And>te d. (te, d) \<in> set q \<Longrightarrow> rs d = rs' d) \<Longrightarrow> ring_lookup_loop rs name q = ring_lookup_loop rs' name q"
proof (induction q)
  case (Cons p q)
  then have "ring_lookup_loop rs name q = ring_lookup_loop rs' name q" "rs (snd p) = rs' (snd p)"
    by (auto simp: prod_eq_iff intro: Cons.IH)
  then show ?case by (cases p; cases "rs' (snd p)") simp_all
qed simp

lemma reg_inv_live: "reg_inv e \<Longrightarrow> (te, d) \<in> set (ring_tailq e) \<Longrightarrow> \<exists>r. ring_at e d = Some r \<and> ring_placed (memzone e) d r"
  by (auto simp: reg_inv_def list_all_iff split: option.splits)

lemma ring_placed_update:
  assumes "ring_placed zs a r" and "\<not> mz_used (zs ! i)"
  shows "ring_placed (zs[i := z]) a r"
proof -
  obtain j where j: "ring_memzone r = Some j" using assms(1) by (auto simp: ring_placed_def split: option.splits)
  then have "i \<noteq> j" using assms by (auto simp: ring_placed_def)
  then show ?thesis using assms(1) j by (simp add: ring_placed_def)
qed

text \<open>A successful creation, taken apart.\<close>
lemma ring_create_cases:
  assumes "rte_ring_create ops mem e name cnt socket_id flags = (r, e')" and inv: "mz_inv e"
  shows "(r = 0 \<and> memzone e' = memzone e \<and> mz_inv e' \<and> ring_at e' = ring_at e \<and> ring_tailq e' = ring_tailq e) \<or>
    (r \<noteq> 0 \<and> rte_ring_get_memsize cnt \<ge> 0 \<and> (\<exists>te mz e1 e2.
       memzone e1 = memzone e \<and> mz_inv e1
       \<and> mz_taken (snprintf_s RTE_MEMZONE_NAMESIZE (RTE_RING_MZ_PREFIX @ name)) e1 mz e2
       \<and> unat (mz_len (memzone e2 ! mz)) \<ge> unat (word_of_int (rte_ring_get_memsize cnt) :: u64)
       \<and> r = mz_addr (memzone e2 ! mz)
       \<and> ring_at e2 = ring_at e \<and> ring_tailq e2 = ring_tailq e
       \<and> e' = e2\<lparr>ring_at := (ring_at e)(r \<mapsto> (snd (rte_ring_init (raw_ring mem r cnt) name cnt flags))
                                 \<lparr>ring_memzone := Some mz\<rparr>),
              ring_tailq := ring_tailq e @ [(te, r)]\<rparr>))"
proof (cases "rte_ring_get_memsize cnt < 0")
  case True
  then have "r = 0 \<and> e' = e\<lparr>rte_errno := rte_ring_get_memsize cnt\<rparr>"
    using assms(1) by (simp add: rte_ring_create_def)
  then show ?thesis using inv by simp
next
  case False
  let ?sz = "word_of_int (rte_ring_get_memsize cnt) :: u64"
  let ?n = "snprintf_s RTE_MEMZONE_NAMESIZE (RTE_RING_MZ_PREFIX @ name)"
  obtain te h where z: "rte_zmalloc ops (malloc_heaps e) sizeof_rte_tailq_entry = (te, h)" by fastforce
  let ?e1 = "e\<lparr>malloc_heaps := h\<rparr>"
  obtain m e2 where m: "rte_memzone_reserve ops ?e1 ?n ?sz socket_id 0 = (m, e2)" by fastforce
  note res = m [unfolded rte_memzone_reserve_def rte_memzone_reserve_thread_safe_def]
  consider "te = 0" | "te \<noteq> 0" "m = None" | mz where "te \<noteq> 0" "m = Some mz" by blast
  then show ?thesis
  proof cases
    case 1
    then have "r = 0 \<and> e' = ?e1\<lparr>rte_errno := ENOMEM\<rparr>"
      using assms(1) False z by (simp add: rte_ring_create_def)
    then show ?thesis using inv by simp
  next
    case 2
    then obtain h' err where "e2 = ?e1\<lparr>malloc_heaps := h', rte_errno := err\<rparr>"
      using reserve_cases [OF res] by auto
    moreover have "r = 0 \<and> e' = e2\<lparr>malloc_heaps := rte_free ops (malloc_heaps e2) te\<rparr>"
      using assms(1) False z 2 m by (simp add: rte_ring_create_def)
    ultimately show ?thesis using inv by simp
  next
    case 3
    then have taken: "mz_taken ?n ?e1 mz e2" using reserve_cases [OF res] by auto
    then obtain zn h' where zn: "mz_used zn"
      "e2 = ?e1\<lparr>malloc_heaps := h', memzone_cnt := memzone_cnt ?e1 + 1, memzone := (memzone ?e1)[mz := zn]\<rparr>"
      unfolding mz_taken_def by blast
    have len: "unat (mz_len (memzone e2 ! mz)) \<ge> unat ?sz"
    proof (cases "?sz = 0")
      case False
      then show ?thesis
        using reserve_len [OF res [unfolded 3(2)] False] RTE_ALIGN_bounds(1) [of 64 "unat ?sz"] by simp
    qed simp
    have r: "r = mz_addr (memzone e2 ! mz)"
      "e' = e2\<lparr>ring_at := (ring_at e2)(r \<mapsto> (snd (rte_ring_init (raw_ring mem r cnt) name cnt flags))
                  \<lparr>ring_memzone := Some mz\<rparr>), ring_tailq := ring_tailq e2 @ [(te, r)]\<rparr>"
      using assms(1) False z 3 m by (auto simp: rte_ring_create_def Let_def)
    have "memzone e2 ! mz = zn" using zn(2) mz_taken_slot(1) [OF taken] by simp
    then have "r \<noteq> 0" using zn(1) r(1) by simp
    moreover have "ring_at e2 = ring_at e" "ring_tailq e2 = ring_tailq e" by (simp_all add: zn(2))
    ultimately show ?thesis using taken len r inv False
      by (intro disjI2 conjI exI [of _ te] exI [of _ mz] exI [of _ ?e1] exI [of _ e2]) simp_all
  qed
qed

lemma memsize_nonneg:
  assumes "rte_ring_get_memsize cnt \<ge> 0"
  shows "POWEROF2 cnt" and "cnt \<le> RTE_RING_SZ_MASK"
    and "unat (word_of_int (rte_ring_get_memsize cnt) :: u64) \<ge> sizeof_rte_ring + 8 * unat cnt"
proof -
  show p: "POWEROF2 cnt" and m: "cnt \<le> RTE_RING_SZ_MASK"
    using assms by (auto simp: rte_ring_get_memsize_def errno_simps not_less split: if_splits)
  let ?v = "sizeof_rte_ring + unat cnt * 8"
  have eq: "rte_ring_get_memsize cnt = int (RTE_ALIGN ?v RTE_CACHE_LINE_SIZE)"
    using p m by (auto simp: rte_ring_get_memsize_def)
  have b: "?v \<le> RTE_ALIGN ?v RTE_CACHE_LINE_SIZE" "RTE_ALIGN ?v RTE_CACHE_LINE_SIZE < ?v + 64"
    using RTE_ALIGN_bounds [of 64 ?v] by (simp_all add: RTE_CACHE_LINE_SIZE_def)
  have "unat cnt < 2 ^ 32" using unsigned_less [of cnt, where ?'a = nat] by simp
  then have "RTE_ALIGN ?v RTE_CACHE_LINE_SIZE < 2 ^ 64" using b(2) by (simp add: sizeof_rte_ring_def)
  then have "unat (word_of_int (int (RTE_ALIGN ?v RTE_CACHE_LINE_SIZE)) :: u64) = RTE_ALIGN ?v RTE_CACHE_LINE_SIZE"
    by (simp add: unat_of_nat)
  then show "unat (word_of_int (rte_ring_get_memsize cnt) :: u64) \<ge> sizeof_rte_ring + 8 * unat cnt"
    using b(1) by (simp add: eq)
qed

lemma created_ring:
  assumes "length name < RTE_RING_NAMESIZE" and "POWEROF2 cnt" and "cnt \<le> RTE_RING_SZ_MASK"
    and r: "ring = (snd (rte_ring_init (raw_ring mem a cnt) name cnt flags))\<lparr>ring_memzone := Some mz\<rparr>"
  shows "ring_name ring = name" and "length (ring_slots ring) = unat cnt"
    and "cnt \<noteq> 0 \<Longrightarrow> ring_inv ring \<and> ring_list ring = [] \<and> ring_cap ring = unat cnt - 1"
proof -
  let ?i = "snd (rte_ring_init (raw_ring mem a cnt) name cnt flags)"
  show "ring_name ring = name" "length (ring_slots ring) = unat cnt"
    using assms(1) by (simp_all add: r rte_ring_init_def raw_ring_def snprintf_s_id)
  assume "cnt \<noteq> 0"
  then have "ring_inv ?i" "ring_list ?i = []" "ring_cap ?i = unat cnt - 1"
    using ring_init_inv [OF assms(2) \<open>cnt \<noteq> 0\<close> assms(3), of "raw_ring mem a cnt" name flags]
    by (simp_all add: raw_ring_def)
  then show "ring_inv ring \<and> ring_list ring = [] \<and> ring_cap ring = unat cnt - 1"
    by (simp add: r ring_inv_def ring_list_def ring_cap_def)
qed

lemma create_name_fresh:
  assumes inv: "reg_inv e" and live: "(te, d) \<in> set (ring_tailq e)" "ring_at e d = Some r"
    and taken: "mz_taken (snprintf_s RTE_MEMZONE_NAMESIZE (RTE_RING_MZ_PREFIX @ name)) e1 mz e2"
    and "memzone e1 = memzone e"
  shows "ring_name r \<noteq> name"
proof
  assume eq: "ring_name r = name"
  obtain i where i: "i < length (memzone e)" "mz_used (memzone e ! i)"
    "mz_name (memzone e ! i) = snprintf_s RTE_MEMZONE_NAMESIZE (RTE_RING_MZ_PREFIX @ name)"
    using reg_inv_live [OF inv live(1)] live(2) eq by (auto simp: ring_placed_def split: option.splits)
  then have "memzone e ! i \<in> set (memzone e)" by simp
  then show False
    using taken i(2,3) unfolding mz_taken_def memzone_lookup_thread_unsafe_def scan_None assms(5)
    by fastforce
qed

text \<open>Appending one ring to the list.\<close>
lemma lookup_extended:
  assumes inv: "reg_inv e" and ring: "ring_name ring = name" "length name < RTE_RING_NAMESIZE"
    and fresh: "r \<notin> snd ` set (ring_tailq e)"
    and names: "\<And>te d r'. (te, d) \<in> set (ring_tailq e) \<Longrightarrow> ring_at e d = Some r' \<Longrightarrow> ring_name r' \<noteq> name"
  shows "ring_lookup_loop ((ring_at e)(r \<mapsto> ring)) name' (ring_tailq e @ [(te, r)]) =
    (if name' = name then Some (Some r) else ring_lookup_loop (ring_at e) name' (ring_tailq e))"
proof -
  let ?rs = "(ring_at e)(r \<mapsto> ring)"
  have same: "?rs d = ring_at e d" if "(t, d) \<in> set (ring_tailq e)" for t d using that fresh by force
  have "?rs d \<noteq> None" if "(t, d) \<in> set (ring_tailq e)" for t d
    using that reg_inv_live [OF inv] same [OF that] by fastforce
  then have app: "ring_lookup_loop ?rs name' (ring_tailq e @ [(te, r)]) =
      (case ring_lookup_loop ?rs name' (ring_tailq e) of
         Some None \<Rightarrow> ring_lookup_loop ?rs name' [(te, r)] | x \<Rightarrow> x)"
    by (rule lookup_loop_append)
  have old: "ring_lookup_loop ?rs name' (ring_tailq e) = ring_lookup_loop (ring_at e) name' (ring_tailq e)"
    using same by (rule lookup_loop_cong)
  have last: "ring_lookup_loop ?rs name' [(te, r)] = (if name' = name then Some (Some r) else Some None)"
    using ring by (simp add: strncmp_eq_short2)
  show ?thesis
  proof (cases "name' = name")
    case True
    have "\<exists>r. ring_at e d = Some r \<and> \<not> strncmp_eq name (ring_name r) RTE_RING_NAMESIZE"
      if "(t, d) \<in> set (ring_tailq e)" for t d
      using reg_inv_live [OF inv that] names [OF that] ring(2) by (auto simp: strncmp_eq_short)
    then have "ring_lookup_loop (ring_at e) name (ring_tailq e @ []) = ring_lookup_loop (ring_at e) name []"
      by (rule lookup_loop_None)
    then show ?thesis using True app old last by simp
  next
    case False
    then show ?thesis using app old last by (simp split: option.splits)
  qed
qed

lemma lookup_result: "map_option fst (rte_ring_lookup e name) =
    map_option (case_option 0 id) (ring_lookup_loop (ring_at e) name (ring_tailq e))"
  by (cases "ring_lookup_loop (ring_at e) name (ring_tailq e)")
    (auto simp: rte_ring_lookup_def split: option.splits)

lemma ring_created:
  assumes inv: "reg_inv e" and short: "length name < RTE_RING_NAMESIZE"
    and create: "rte_ring_create ops mem e name cnt socket_id flags = (r, e')"
    and fresh: "r \<notin> snd ` set (ring_tailq e)"
  shows "reg_inv e' \<and>
    (if r = 0 then ring_at e' = ring_at e \<and> ring_tailq e' = ring_tailq e
     else (\<exists>ring. ring_at e' r = Some ring \<and> ring_placed (memzone e') r ring
            \<and> (cnt \<noteq> 0 \<longrightarrow> ring_inv ring \<and> ring_list ring = [] \<and> ring_cap ring = unat cnt - 1))
        \<and> (\<forall>name'. map_option fst (rte_ring_lookup e' name') =
             (if name' = name then Some r else map_option fst (rte_ring_lookup e name'))))"
proof (cases "r = 0")
  case True
  then show ?thesis using ring_create_cases [OF create] inv by (auto simp: reg_inv_def cong: option.case_cong)
next
  case False
  let ?n = "snprintf_s RTE_MEMZONE_NAMESIZE (RTE_RING_MZ_PREFIX @ name)"
  let ?ring = "\<lambda>mz. (snd (rte_ring_init (raw_ring mem r cnt) name cnt flags))\<lparr>ring_memzone := Some mz\<rparr>"
  have "mz_inv e" using inv by (simp add: reg_inv_def)
  from ring_create_cases [OF create this] False
  obtain te mz e1 e2 where sz: "rte_ring_get_memsize cnt \<ge> 0"
    and e1: "memzone e1 = memzone e" "mz_inv e1" and taken: "mz_taken ?n e1 mz e2"
    and len: "unat (mz_len (memzone e2 ! mz)) \<ge> unat (word_of_int (rte_ring_get_memsize cnt) :: u64)"
    and r: "r = mz_addr (memzone e2 ! mz)"
    and e': "e' = e2\<lparr>ring_at := (ring_at e)(r \<mapsto> ?ring mz), ring_tailq := ring_tailq e @ [(te, r)]\<rparr>"
    by blast
  note ring = created_ring [OF short memsize_nonneg(1,2) [OF sz] refl,
    where mem = mem and a = r and flags = flags and mz = mz]
  obtain z where z: "mz_used z" "mz_name z = ?n" "memzone e2 = (memzone e)[mz := z]"
    using taken e1(1) by (auto simp: mz_taken_def)
  have slot: "mz < length (memzone e)" "\<not> mz_used (memzone e ! mz)" using mz_taken_slot [OF taken] e1(1) by simp_all
  have placed: "ring_placed (memzone e2) r (?ring mz)"
    using ring(1,2) len memsize_nonneg(3) [OF sz] z slot(1) r short False
    by (simp add: ring_placed_def)
  have lookup: "map_option fst (rte_ring_lookup e' name') =
      (if name' = name then Some r else map_option fst (rte_ring_lookup e name'))" for name'
    using lookup_extended [OF inv ring(1) short fresh, of name' te]
      create_name_fresh [OF inv _ _ taken e1(1)]
    by (auto simp: lookup_result e')
  have "list_all (\<lambda>(te, a). case ring_at e' a of None \<Rightarrow> False | Some r \<Rightarrow> ring_placed (memzone e') a r)
      (ring_tailq e')"
    using reg_inv_live [OF inv] fresh placed ring_placed_update [OF _ slot(2)]
    by (fastforce simp: e' list_all_iff z(3))
  moreover have "mz_inv e'" using mz_taken_inv(1) [OF taken e1(2)] by (simp add: e' mz_inv_def)
  ultimately have "reg_inv e'" by (simp only: reg_inv_def simp_thms)
  then show ?thesis using False lookup placed ring(3) by (simp add: e')
qed

section \<open>Properties\<close>

text \<open>
  C40. Creating a ring under a name that fits, when the allocator does not hand out the address
  of a live ring: on success the ring is found under its name by every process, every other name
  means what it meant, the ring lies inside its zone, and a ring of nonzero size is well-formed,
  empty and holds one object less than its size. On failure no ring appears or disappears.
  Two live rings therefore never share a name.
\<close>
theorem ring_create_lookup:
  assumes inv: "reg_inv e" and short: "length name < RTE_RING_NAMESIZE"
    and create: "rte_ring_create ops mem e name cnt socket_id flags = (r, e')"
    and fresh: "r \<notin> snd ` set (ring_tailq e)"
  shows "reg_inv e' \<and>
    (if r = 0 then ring_at e' = ring_at e \<and> ring_tailq e' = ring_tailq e
     else (\<exists>ring. ring_at e' r = Some ring \<and> ring_placed (memzone e') r ring
            \<and> (cnt \<noteq> 0 \<longrightarrow> ring_inv ring \<and> ring_list ring = [] \<and> ring_cap ring = unat cnt - 1))
        \<and> (\<forall>name'. map_option fst (rte_ring_lookup e' name') =
             (if name' = name then Some r else map_option fst (rte_ring_lookup e name'))))"
  by (rule ring_created [OF assms])

definition ring_eal_0 :: "(u64, nat) ring_eal" where
  "ring_eal_0 = eal.extend eal_0 (ring_eal.fields Map.empty [])"

lemma ring_eal_0_inv: "reg_inv ring_eal_0" "ring_tailq ring_eal_0 = []"
  using eal_0_inv(1) by (simp_all add: reg_inv_def ring_eal_0_def ring_eal.defs eal.defs mz_inv_def)

theorem ring_create_lookup_witness:
  "\<exists>r e'. rte_ring_create bump_ops (\<lambda>_. 0) ring_eal_0 ''MProc_Client_0_RX'' 128 0 3 = (r, e') \<and> reg_inv e'
    \<and> (r \<noteq> 0 \<longrightarrow> map_option fst (rte_ring_lookup e' ''MProc_Client_0_RX'') = Some r)"
proof -
  obtain r e' where c: "rte_ring_create bump_ops (\<lambda>_. 0) ring_eal_0 ''MProc_Client_0_RX'' 128 0 3 = (r, e')"
    by fastforce
  have "reg_inv e'" "r \<noteq> 0 \<longrightarrow> map_option fst (rte_ring_lookup e' ''MProc_Client_0_RX'') = Some r"
    using ring_create_lookup [OF ring_eal_0_inv(1) _ c] by (simp_all add: ring_eal_0_inv(2) RTE_RING_NAMESIZE_def)
  then show ?thesis using c by blast
qed

end
