(* ===== verification/Rte_Eth_Ring.thy ===== *)
theory Rte_Eth_Ring
  imports Rte_Ring_Registry
begin

text \<open>
  The queues of the ring-backed ports (\<open>drivers/net/ring/rte_eth_ring.c\<close>): a queue is a ring
  with packet counters; receiving is a burst dequeue, transmitting a burst enqueue, and the
  counts are 16 bits wide. The queue meets the contract of \<open>burst_queue\<close>, with its counters in step.
\<close>

unbundle bit_operations_syntax

record ring_queue =
  rng :: u64
  rx_pkts :: u64
  tx_pkts :: u64
  err_pkts :: u64

text \<open>
  The queue's ring is passed beside it. Both branches of the code add to the same counter, one
  of them atomically; the counters are 64 bits wide and wrap.
\<close>
definition eth_ring_rx ::
  "ring_queue \<Rightarrow> 'm rte_ring \<Rightarrow> 'm list \<Rightarrow> u16 \<Rightarrow> (u16 \<times> 'm list \<times> ring_queue \<times> 'm rte_ring) option" where
  "eth_ring_rx q r bufs nb_bufs =
     do { (n, ptrs, r) \<leftarrow> rte_ring_dequeue_burst r bufs (ucast nb_bufs);
          let nb_rx = (ucast n :: u16);
          if ring_flags r AND RING_F_SC_DEQ \<noteq> 0
          then Some (nb_rx, ptrs, q\<lparr>rx_pkts := rx_pkts q + ucast nb_rx\<rparr>, r)
          else Some (nb_rx, ptrs, q\<lparr>rx_pkts := rx_pkts q + ucast nb_rx\<rparr>, r) }"

definition eth_ring_tx ::
  "ring_queue \<Rightarrow> 'm rte_ring \<Rightarrow> 'm list \<Rightarrow> u16 \<Rightarrow> (u16 \<times> ring_queue \<times> 'm rte_ring) option" where
  "eth_ring_tx q r bufs nb_bufs =
     do { (n, r) \<leftarrow> rte_ring_enqueue_burst r bufs (ucast nb_bufs);
          let nb_tx = (ucast n :: u16);
          let err = (word_of_int (int (unat nb_bufs) - int (unat nb_tx)) :: u64);
          if ring_flags r AND RING_F_SP_ENQ \<noteq> 0
          then Some (nb_tx, q\<lparr>tx_pkts := tx_pkts q + ucast nb_tx, err_pkts := err_pkts q + err\<rparr>, r)
          else Some (nb_tx, q\<lparr>tx_pkts := tx_pkts q + ucast nb_tx, err_pkts := err_pkts q + err\<rparr>, r) }"

section \<open>Correctness of one burst\<close>

lemma ucast16_quota:
  fixes ret :: u32
  assumes "burst_count ret < 2 ^ 16"
  shows "unat (ucast ret :: u16) = burst_count ret"
proof -
  have "\<not> bit RTE_RING_QUOT_EXCEED i" if "i < 16" for i
    using that unfolding RTE_RING_QUOT_EXCEED_def bit_push_bit_iff by simp
  then have "(ucast (ret AND NOT RTE_RING_QUOT_EXCEED) :: u16) = ucast ret"
    by (auto simp: bit_simps intro!: bit_word_eqI)
  moreover have "unat (ucast w :: u16) = unat w mod 2 ^ 16" for w :: u32
    by (simp add: unsigned_ucast_eq take_bit_eq_mod)
  ultimately have "unat (ucast ret :: u16) = unat (ret AND NOT RTE_RING_QUOT_EXCEED) mod 2 ^ 16"
    by metis
  then show ?thesis using assms by (simp add: burst_count_def)
qed

lemma unat_ucast_16_32 [simp]: "unat (ucast (n :: u16) :: u32) = unat n"
  and unat_ucast_16_64 [simp]: "unat (ucast (n :: u16) :: u64) = unat n"
  using unsigned_less [of n, where ?'a = nat] by (simp_all add: unsigned_ucast_eq take_bit_nat_eq_self)

text \<open>A ring keeps its name, flags and place when objects move through it.\<close>
definition ring_same :: "'m rte_ring \<Rightarrow> 'm rte_ring \<Rightarrow> bool" where
  "ring_same r r' \<longleftrightarrow> ring_name r' = ring_name r \<and> ring_flags r' = ring_flags r \<and> ring_cap r' = ring_cap r"

lemma eth_ring_rx_result:
  assumes inv: "ring_inv r" and len: "unat n \<le> length bufs"
  shows "\<exists>nb ptrs r'. eth_ring_rx q r bufs n = Some (nb, ptrs, q\<lparr>rx_pkts := rx_pkts q + ucast nb\<rparr>, r')
    \<and> ring_inv r' \<and> ring_same r r' \<and> length ptrs = length bufs
    \<and> unat nb = min (unat n) (length (ring_list r))
    \<and> take (unat nb) ptrs = take (unat n) (ring_list r) \<and> ring_list r' = drop (unat n) (ring_list r)"
proof -
  have n: "unat (ucast n :: u32) = unat n" by simp
  obtain ret ptrs r' where d: "rte_ring_dequeue_burst r bufs (ucast n) = Some (ret, ptrs, r')" "ring_inv r'"
    "unat ret = min (unat n) (length (ring_list r))" "take (unat ret) ptrs = take (unat n) (ring_list r)"
    "ring_list r' = drop (unat n) (ring_list r)" "length ptrs = length bufs"
    "ring_cap r' = ring_cap r" "ring_flags r' = ring_flags r" "ring_name r' = ring_name r"
    using dequeue_burst_result [OF inv, of "ucast n" bufs] len unfolding n by metis
  have "unat ret < 2 ^ 16" using d(3) unsigned_less [of n, where ?'a = nat] by simp
  then have nb: "unat (ucast ret :: u16) = unat ret" by (simp add: unsigned_ucast_eq take_bit_nat_eq_self)
  show ?thesis
    using d nb by (intro exI [of _ "ucast ret"] exI [of _ ptrs] exI [of _ r'])
      (simp add: eth_ring_rx_def ring_same_def Let_def)
qed

lemma eth_ring_tx_result:
  assumes inv: "ring_inv r" and len: "unat n \<le> length bufs"
    and k: "k = min (unat n) (ring_free_n r)"
  shows "\<exists>nb r'. eth_ring_tx q r bufs n =
      Some (nb, q\<lparr>tx_pkts := tx_pkts q + of_nat k, err_pkts := err_pkts q + of_nat (unat n - k)\<rparr>, r')
    \<and> ring_inv r' \<and> ring_same r r' \<and> unat nb = k \<and> ring_list r' = ring_list r @ take k bufs"
proof -
  have n: "unat (ucast n :: u32) = unat n" by simp
  obtain ret r' where e: "rte_ring_enqueue_burst r bufs (ucast n) = Some (ret, r')" "ring_inv r'"
    "burst_count ret = k" "ring_list r' = ring_list r @ take k bufs"
    "ring_cap r' = ring_cap r" "ring_flags r' = ring_flags r" "ring_name r' = ring_name r"
    using enqueue_burst_result [OF inv, of "ucast n" bufs] len unfolding n k by metis
  have kn: "k \<le> unat n" using k by simp
  have "burst_count ret < 2 ^ 16" using e(3) kn unsigned_less [of n, where ?'a = nat] by simp
  then have nb: "unat (ucast ret :: u16) = k" using ucast16_quota e(3) by simp
  have "unat (ucast (ucast ret :: u16) :: u64) = unat (of_nat k :: u64)"
    using nb e(3) \<open>burst_count ret < 2 ^ 16\<close> by (simp add: unat_of_nat)
  then have "(ucast (ucast ret :: u16) :: u64) = of_nat k" by (metis unsigned_word_eqI)
  moreover have "(word_of_int (int (unat n) - int (unat (ucast ret :: u16))) :: u64) = of_nat (unat n - k)"
    unfolding nb using kn by (simp add: of_nat_diff)
  ultimately show ?thesis
    using e nb by (intro exI [of _ "ucast ret"] exI [of _ r']) (simp add: eth_ring_tx_def ring_same_def Let_def)
qed

section \<open>The queue contract\<close>

definition ethq_enq :: "ring_queue \<times> 'm rte_ring \<Rightarrow> 'm list \<Rightarrow> (nat \<times> ring_queue \<times> 'm rte_ring) option" where
  "ethq_enq = (\<lambda>(q, r) xs. do { (n, q, r) \<leftarrow> eth_ring_tx q r xs (of_nat (length xs)); Some (unat n, q, r) })"

definition ethq_deq :: "'m \<Rightarrow> ring_queue \<times> 'm rte_ring \<Rightarrow> nat \<Rightarrow> ('m list \<times> ring_queue \<times> 'm rte_ring) option" where
  "ethq_deq z = (\<lambda>(q, r) n. do { (k, ptrs, q, r) \<leftarrow> eth_ring_rx q r (replicate n z) (of_nat n);
                                 Some (take (unat k) ptrs, q, r) })"

lemma unat_of_nat_u16 [simp]: "n < 2 ^ 16 \<Longrightarrow> unat (of_nat n :: u16) = n"
  by (simp add: unat_of_nat)

interpretation ethq: burst_queue "\<lambda>(q, r). ring_inv r" "\<lambda>(q, r). ring_list r" "\<lambda>(q, r). ring_cap r"
  "2 ^ 16 - 1" ethq_enq "ethq_deq z" for z
proof (unfold_locales, goal_cases)
  case (1 qr)
  then show ?case by (auto intro: ring_inv_used)
next
  case (2 qr xs k)
  obtain q r where qr: "qr = (q, r)" by (cases qr)
  have n: "unat (of_nat (length xs) :: u16) = length xs" using 2 by (intro unat_of_nat_u16) simp
  have inv: "ring_inv r" and k: "k = min (unat (of_nat (length xs) :: u16)) (ring_free_n r)"
    using 2 n by (simp_all add: qr ring_free_n_def)
  then show ?case
    using eth_ring_tx_result [OF inv _ k, of xs q] n by (auto simp: qr ethq_enq_def ring_same_def)
next
  case (3 qr n)
  obtain q r where qr: "qr = (q, r)" by (cases qr)
  have n: "unat (of_nat n :: u16) = n" using 3 by (intro unat_of_nat_u16) simp
  have inv: "ring_inv r" using 3 by (simp add: qr)
  show ?case
    using eth_ring_rx_result [OF inv, of "of_nat n" "replicate n z" q] n
    by (auto simp: qr ethq_deq_def ring_same_def)
qed

section \<open>Properties\<close>

text \<open>
  Any sequence of transmit and receive bursts on the queue of a ring-backed port succeeds and
  delivers the packets in the order in which they were accepted; none is lost between the two.
  The 16-bit counts the driver returns are exact, also when the ring reports that its water
  mark is exceeded.
\<close>
theorem eth_ring_run_fifo:
  assumes "ring_inv r" and "list_all (op_fits (2 ^ 16 - 1)) ops"
  shows "\<exists>acc del q' r'. run_queue ethq_enq (ethq_deq z) (q, r) ops = Some (acc, del, q', r')
    \<and> ring_inv r' \<and> ring_cap r' = ring_cap r \<and> del @ ring_list r' = ring_list r @ acc"
  using ethq.run_fifo [of "(q, r)" ops z] assms by fastforce

theorem eth_ring_run_fifo_witness:
  "\<exists>acc del q' r'. run_queue ethq_enq (ethq_deq 0) (\<lparr>rng = 0x1000, rx_pkts = 0, tx_pkts = 0, err_pkts = 0\<rparr>, ring_4)
      [Enq [20, 21, 22], Deq 32] = Some (acc, del, q', r')
    \<and> ring_inv r' \<and> ring_cap r' = ring_cap ring_4 \<and> del @ ring_list r' = ring_list ring_4 @ acc"
  by (rule eth_ring_run_fifo [OF ring_4_inv]) simp

text \<open>
  A transmit burst accounts for every packet it is given: the packets the ring accepts are
  added to the transmit counter, the others to the error counter, and the returned number is
  the number accepted.
\<close>
theorem eth_ring_tx_accounts:
  assumes "ring_inv r" and "unat n \<le> length bufs"
  shows "\<exists>nb q' r'. eth_ring_tx q r bufs n = Some (nb, q', r')
    \<and> unat nb = min (unat n) (ring_cap r - length (ring_list r))
    \<and> ring_list r' = ring_list r @ take (unat nb) bufs
    \<and> tx_pkts q' + err_pkts q' = tx_pkts q + err_pkts q + of_nat (unat n)
    \<and> tx_pkts q' = tx_pkts q + of_nat (unat nb)"
proof -
  let ?k = "min (unat n) (ring_free_n r)"
  have "(of_nat ?k + of_nat (unat n - ?k) :: u64) = of_nat (unat n)"
    by (metis le_add_diff_inverse min.cobounded1 of_nat_add)
  then have sum: "tx_pkts q + of_nat ?k + (err_pkts q + of_nat (unat n - ?k)) = tx_pkts q + err_pkts q + of_nat (unat n)"
    by (simp only: add.assoc add.left_commute [of "of_nat ?k"])
  obtain nb r' where "eth_ring_tx q r bufs n =
      Some (nb, q\<lparr>tx_pkts := tx_pkts q + of_nat ?k, err_pkts := err_pkts q + of_nat (unat n - ?k)\<rparr>, r')"
    "unat nb = ?k" "ring_list r' = ring_list r @ take ?k bufs"
    using eth_ring_tx_result [OF assms refl, of q] by blast
  then show ?thesis
    using sum unfolding ring_free_n_def
    by (intro exI [of _ nb] exI [of _ r'] exI conjI) (assumption | simp)+
qed

theorem eth_ring_tx_accounts_witness:
  "\<exists>nb q' r'. eth_ring_tx \<lparr>rng = 0x1000, rx_pkts = 0, tx_pkts = 5, err_pkts = 0\<rparr> ring_4 [20, 21, 22] 3 = Some (nb, q', r')
    \<and> unat nb = 1 \<and> ring_list r' = [11, 12, 20] \<and> tx_pkts q' + err_pkts q' = 8"
  using eth_ring_tx_accounts [OF ring_4_inv, of 3 "[20, 21, 22]" "\<lparr>rng = 0x1000, rx_pkts = 0, tx_pkts = 5, err_pkts = 0\<rparr>"]
  by (auto simp: ring_4_list ring_4_cap)

end
