(* ===== verification/Rte_Ethdev.thy ===== *)
theory Rte_Ethdev
  imports Rte_Eth_Ring
begin

text \<open>
  The table of Ethernet devices of \<open>lib/librte_ether/rte_ethdev.c\<close>: allocating, finding and
  releasing ports, the inquiries the patch panel makes, attaching and detaching virtual devices,
  and the dispatch of receive and transmit bursts to the driver of a port. A port is either
  backed by rings, which are modelled, or belongs to another driver (network card or vhost),
  which is a parameter.
\<close>

unbundle bit_operations_syntax

section \<open>Data\<close>

definition RTE_MAX_ETHPORTS :: nat where "RTE_MAX_ETHPORTS = 32"
definition RTE_ETH_NAME_MAX_LEN :: nat where "RTE_ETH_NAME_MAX_LEN = 32"
definition RTE_PMD_RING_MAX_RX_RINGS :: nat where "RTE_PMD_RING_MAX_RX_RINGS = 16"
definition RTE_PMD_RING_MAX_TX_RINGS :: nat where "RTE_PMD_RING_MAX_TX_RINGS = 16"
definition RTE_ETH_DEV_DETACHABLE :: u32 where "RTE_ETH_DEV_DETACHABLE = 1"
definition ENOTSUP :: int where "ENOTSUP = 95"

declare ENOTSUP_def [errno_simps]

datatype rte_eth_dev_type =
  RTE_ETH_DEV_UNKNOWN | RTE_ETH_DEV_PCI | RTE_ETH_DEV_VIRTUAL | RTE_ETH_DEV_MAX

datatype rte_kernel_driver =
  RTE_KDRV_UNKNOWN | RTE_KDRV_IGB_UIO | RTE_KDRV_VFIO | RTE_KDRV_UIO_GENERIC | RTE_KDRV_NIC_UIO | RTE_KDRV_NONE

text \<open>The private data of a ring-backed port (\<open>rte_eth_ring.c\<close>).\<close>
record pmd_internals =
  nb_rx_rings :: u32
  nb_tx_rings :: u32
  rx_ring_queues :: "ring_queue list"
  tx_ring_queues :: "ring_queue list"

text \<open>Which driver serves a port; the burst function pointers and private data come with it.\<close>
datatype pmd = Pmd_Ring pmd_internals | Pmd_Other

text \<open>
  The queue pointers of a ring-backed port are indexes into the arrays of its private data,
  \<^term>\<open>None\<close> for \<open>NULL\<close>.
\<close>
record rte_eth_dev_data =
  dd_name :: string
  dd_rx_queues :: "nat option list"
  dd_tx_queues :: "nat option list"
  dd_nb_rx_queues :: u16
  dd_nb_tx_queues :: u16
  dd_link_status :: bool
  dd_port_id :: u8
  dd_dev_flags :: u32
  dd_kdrv :: rte_kernel_driver
  dd_numa_node :: int

record rte_eth_dev =
  dev_attached :: bool
  dev_type :: rte_eth_dev_type
  dev_data :: rte_eth_dev_data
  dev_pmd :: "pmd option"

text \<open>
  \<open>eth_dev_data\<close> is the array \<open>rte_eth_dev_data\<close>. A port's own data starts as a copy of its
  entry; the entry keeps the name of the port after a driver has put other data in place and
  after a release.
\<close>
record ('h, 'm, 'x) eth_eal = "('h, 'm) ring_eal" +
  rte_eth_devices :: "rte_eth_dev list"
  eth_dev_data :: "rte_eth_dev_data list"
  nb_ports :: u8
  other_state :: 'x

text \<open>The burst functions of the other drivers, on their own state.\<close>
record ('m, 'x) other_pmd =
  other_rx :: "'x \<Rightarrow> u8 \<Rightarrow> u16 \<Rightarrow> u16 \<Rightarrow> 'm list \<times> 'x"
  other_tx :: "'x \<Rightarrow> u8 \<Rightarrow> u16 \<Rightarrow> 'm list \<Rightarrow> u16 \<times> 'x"

section \<open>The device table\<close>

text \<open>Results are indexes into \<open>rte_eth_devices\<close>, \<^term>\<open>None\<close> for \<open>NULL\<close>.\<close>
definition rte_eth_dev_allocated :: "('h, 'm, 'x) eth_eal \<Rightarrow> string \<Rightarrow> nat option" where
  "rte_eth_dev_allocated e name =
     scan (\<lambda>d. dev_attached d \<and> dd_name (dev_data d) = name) (rte_eth_devices e)"

definition rte_eth_dev_find_free_port :: "('h, 'm, 'x) eth_eal \<Rightarrow> u8" where
  "rte_eth_dev_find_free_port e =
     (case scan (\<lambda>d. \<not> dev_attached d) (rte_eth_devices e) of
        Some i \<Rightarrow> of_nat i | None \<Rightarrow> of_nat RTE_MAX_ETHPORTS)"

definition rte_eth_dev_allocate ::
  "('h, 'm, 'x) eth_eal \<Rightarrow> string \<Rightarrow> rte_eth_dev_type \<Rightarrow> nat option \<times> ('h, 'm, 'x) eth_eal" where
  "rte_eth_dev_allocate e name type =
     (let port_id = rte_eth_dev_find_free_port e
      in if unat port_id = RTE_MAX_ETHPORTS then (None, e)
         else if rte_eth_dev_allocated e name \<noteq> None then (None, e)
         else
           let d = rte_eth_devices e ! unat port_id;
               nm = snprintf_s RTE_ETH_NAME_MAX_LEN name;
               data = (eth_dev_data e ! unat port_id)\<lparr>dd_name := nm, dd_port_id := port_id\<rparr>;
               d = d\<lparr>dev_data := data, dev_attached := True, dev_type := type\<rparr>
           in (Some (unat port_id),
               e\<lparr>rte_eth_devices := (rte_eth_devices e)[unat port_id := d],
                 eth_dev_data := (eth_dev_data e)[unat port_id := data],
                 nb_ports := nb_ports e + 1\<rparr>))"

definition rte_eth_dev_release_port ::
  "('h, 'm, 'x) eth_eal \<Rightarrow> nat option \<Rightarrow> int \<times> ('h, 'm, 'x) eth_eal" where
  "rte_eth_dev_release_port e dev =
     (case dev of
        None \<Rightarrow> (- EINVAL, e)
      | Some i \<Rightarrow>
          (0, e\<lparr>rte_eth_devices := (rte_eth_devices e)[i := (rte_eth_devices e ! i)\<lparr>dev_attached := False\<rparr>],
                nb_ports := nb_ports e - 1\<rparr>))"

definition rte_eth_dev_is_valid_port :: "('h, 'm, 'x) eth_eal \<Rightarrow> u8 \<Rightarrow> bool" where
  "rte_eth_dev_is_valid_port e port_id \<longleftrightarrow>
     \<not> (unat port_id \<ge> RTE_MAX_ETHPORTS \<or> \<not> dev_attached (rte_eth_devices e ! unat port_id))"

definition rte_eth_dev_socket_id :: "('h, 'm, 'x) eth_eal \<Rightarrow> u8 \<Rightarrow> int" where
  "rte_eth_dev_socket_id e port_id =
     (if \<not> rte_eth_dev_is_valid_port e port_id then - 1
      else dd_numa_node (dev_data (rte_eth_devices e ! unat port_id)))"

definition rte_eth_dev_count :: "('h, 'm, 'x) eth_eal \<Rightarrow> u8" where
  "rte_eth_dev_count e = nb_ports e"

definition rte_eth_dev_get_device_type :: "('h, 'm, 'x) eth_eal \<Rightarrow> u8 \<Rightarrow> rte_eth_dev_type" where
  "rte_eth_dev_get_device_type e port_id =
     (if \<not> rte_eth_dev_is_valid_port e port_id then RTE_ETH_DEV_UNKNOWN
      else dev_type (rte_eth_devices e ! unat port_id))"

definition rte_eth_dev_get_name_by_port :: "('h, 'm, 'x) eth_eal \<Rightarrow> u8 \<Rightarrow> int + string" where
  "rte_eth_dev_get_name_by_port e port_id =
     (if \<not> rte_eth_dev_is_valid_port e port_id then Inl (- EINVAL)
      else Inr (dd_name (eth_dev_data e ! unat port_id)))"

text \<open>The names of the shared array are compared up to the length of the given name.\<close>
definition rte_eth_dev_get_port_by_name :: "('h, 'm, 'x) eth_eal \<Rightarrow> string \<Rightarrow> int \<times> u8" where
  "rte_eth_dev_get_port_by_name e name =
     (case scan (\<lambda>d. strncmp_eq name (dd_name d) (length name)) (eth_dev_data e) of
        Some i \<Rightarrow> (0, of_nat i)
      | None \<Rightarrow> (- ENODEV, of_nat RTE_MAX_ETHPORTS))"

definition rte_eth_dev_is_detachable :: "('h, 'm, 'x) eth_eal \<Rightarrow> u8 \<Rightarrow> int" where
  "rte_eth_dev_is_detachable e port_id =
     (if \<not> rte_eth_dev_is_valid_port e port_id then - EINVAL
      else
        let data = dev_data (rte_eth_devices e ! unat port_id)
        in case dd_kdrv data of
             RTE_KDRV_VFIO \<Rightarrow> - ENOTSUP
           | RTE_KDRV_UNKNOWN \<Rightarrow> - ENOTSUP
           | _ \<Rightarrow> (if dd_dev_flags data AND RTE_ETH_DEV_DETACHABLE \<noteq> 0 then 0 else 1))"

text \<open>
  The argument parser and the driver list of the EAL are parameters: \<open>parse\<close> splits the
  device string (\<^term>\<open>None\<close> on failure), \<open>vdev_init\<close> and \<open>vdev_uninit\<close> run the driver.
\<close>
definition rte_eth_dev_attach_vdev ::
  "(string \<Rightarrow> (string \<times> string) option) \<Rightarrow>
     (string \<Rightarrow> string \<Rightarrow> ('h, 'm, 'x) eth_eal \<Rightarrow> int \<times> ('h, 'm, 'x) eth_eal) \<Rightarrow>
     ('h, 'm, 'x) eth_eal \<Rightarrow> string \<Rightarrow> (int \<times> u8 option) \<times> ('h, 'm, 'x) eth_eal" where
  "rte_eth_dev_attach_vdev parse vdev_init e vdevargs =
     (case parse vdevargs of
        None \<Rightarrow> ((- 1, None), e)
      | Some (name, args) \<Rightarrow>
          (case vdev_init name args e of
             (ret, e) \<Rightarrow>
               if ret \<noteq> 0 then ((- 1, None), e)
               else case rte_eth_dev_get_port_by_name e name of
                      (ret, p) \<Rightarrow> if ret \<noteq> 0 then ((- 1, Some p), e) else ((0, Some p), e)))"

definition rte_eth_dev_detach_vdev ::
  "(string \<Rightarrow> ('h, 'm, 'x) eth_eal \<Rightarrow> int \<times> ('h, 'm, 'x) eth_eal) \<Rightarrow>
     ('h, 'm, 'x) eth_eal \<Rightarrow> u8 \<Rightarrow> (int \<times> string option) \<times> ('h, 'm, 'x) eth_eal" where
  "rte_eth_dev_detach_vdev vdev_uninit e port_id =
     (if rte_eth_dev_is_detachable e port_id \<noteq> 0 then ((- 1, None), e)
      else case rte_eth_dev_get_name_by_port e port_id of
             Inl _ \<Rightarrow> ((- 1, None), e)
           | Inr name \<Rightarrow>
               (case vdev_uninit name e of
                  (ret, e) \<Rightarrow> if ret \<noteq> 0 then ((- 1, None), e) else ((0, Some name), e)))"

section \<open>Bursts\<close>

text \<open>
  \<^term>\<open>None\<close> is a crash: a port outside the table, a null function pointer, a queue outside the
  port's arrays or a null queue. As built, no check of port and queue is made.
\<close>
definition put_ring_rx :: "('h, 'm, 'x) eth_eal \<Rightarrow> nat \<Rightarrow> nat \<Rightarrow> pmd_internals \<Rightarrow> ring_queue \<Rightarrow> 'm rte_ring \<Rightarrow> ('h, 'm, 'x) eth_eal" where
  "put_ring_rx e port idx ints q r =
     e\<lparr>ring_at := (ring_at e)(rng q \<mapsto> r),
       rte_eth_devices := (rte_eth_devices e)[port := (rte_eth_devices e ! port)
         \<lparr>dev_pmd := Some (Pmd_Ring (ints\<lparr>rx_ring_queues := (rx_ring_queues ints)[idx := q]\<rparr>))\<rparr>]\<rparr>"

definition put_ring_tx :: "('h, 'm, 'x) eth_eal \<Rightarrow> nat \<Rightarrow> nat \<Rightarrow> pmd_internals \<Rightarrow> ring_queue \<Rightarrow> 'm rte_ring \<Rightarrow> ('h, 'm, 'x) eth_eal" where
  "put_ring_tx e port idx ints q r =
     e\<lparr>ring_at := (ring_at e)(rng q \<mapsto> r),
       rte_eth_devices := (rte_eth_devices e)[port := (rte_eth_devices e ! port)
         \<lparr>dev_pmd := Some (Pmd_Ring (ints\<lparr>tx_ring_queues := (tx_ring_queues ints)[idx := q]\<rparr>))\<rparr>]\<rparr>"

definition rte_eth_rx_burst ::
  "('m, 'x) other_pmd \<Rightarrow> ('h, 'm, 'x) eth_eal \<Rightarrow> u8 \<Rightarrow> u16 \<Rightarrow> 'm list \<Rightarrow> u16 \<Rightarrow>
     (u16 \<times> 'm list \<times> ('h, 'm, 'x) eth_eal) option" where
  "rte_eth_rx_burst oth e port_id queue_id pkts nb_pkts =
     do { dev \<leftarrow> aget (rte_eth_devices e) (unat port_id);
          pmd \<leftarrow> dev_pmd dev;
          case pmd of
            Pmd_Ring ints \<Rightarrow>
              do { idx \<leftarrow> aget (dd_rx_queues (dev_data dev)) (unat queue_id);
                   idx \<leftarrow> idx;
                   q \<leftarrow> aget (rx_ring_queues ints) idx;
                   r \<leftarrow> ring_at e (rng q);
                   (nb_rx, ptrs, q, r) \<leftarrow> eth_ring_rx q r pkts nb_pkts;
                   Some (nb_rx, ptrs, put_ring_rx e (unat port_id) idx ints q r) }
          | Pmd_Other \<Rightarrow>
              (case other_rx oth (other_state e) port_id queue_id nb_pkts of
                 (ms, x) \<Rightarrow>
                   if length ms > length pkts then None
                   else Some (of_nat (length ms), ms @ drop (length ms) pkts, e\<lparr>other_state := x\<rparr>)) }"

definition rte_eth_tx_burst ::
  "('m, 'x) other_pmd \<Rightarrow> ('h, 'm, 'x) eth_eal \<Rightarrow> u8 \<Rightarrow> u16 \<Rightarrow> 'm list \<Rightarrow> u16 \<Rightarrow>
     (u16 \<times> ('h, 'm, 'x) eth_eal) option" where
  "rte_eth_tx_burst oth e port_id queue_id pkts nb_pkts =
     do { dev \<leftarrow> aget (rte_eth_devices e) (unat port_id);
          pmd \<leftarrow> dev_pmd dev;
          case pmd of
            Pmd_Ring ints \<Rightarrow>
              do { idx \<leftarrow> aget (dd_tx_queues (dev_data dev)) (unat queue_id);
                   idx \<leftarrow> idx;
                   q \<leftarrow> aget (tx_ring_queues ints) idx;
                   r \<leftarrow> ring_at e (rng q);
                   (nb_tx, q, r) \<leftarrow> eth_ring_tx q r pkts nb_pkts;
                   Some (nb_tx, put_ring_tx e (unat port_id) idx ints q r) }
          | Pmd_Other \<Rightarrow>
              if length pkts < unat nb_pkts then None
              else (case other_tx oth (other_state e) port_id queue_id (take (unat nb_pkts) pkts) of
                      (n, x) \<Rightarrow> Some (n, e\<lparr>other_state := x\<rparr>)) }"

section \<open>The invariant of the table\<close>

definition eth_inv :: "('h, 'm, 'x) eth_eal \<Rightarrow> bool" where
  "eth_inv e \<longleftrightarrow> length (rte_eth_devices e) = RTE_MAX_ETHPORTS
     \<and> length (eth_dev_data e) = RTE_MAX_ETHPORTS
     \<and> unat (nb_ports e) = length (filter dev_attached (rte_eth_devices e))
     \<and> list_all (\<lambda>d. length (dd_name (dev_data d)) < RTE_ETH_NAME_MAX_LEN) (rte_eth_devices e)"

lemma find_free_port:
  assumes "eth_inv e"
  shows "unat (rte_eth_dev_find_free_port e) =
    (case scan (\<lambda>d. \<not> dev_attached d) (rte_eth_devices e) of Some i \<Rightarrow> i | None \<Rightarrow> RTE_MAX_ETHPORTS)"
proof (cases "scan (\<lambda>d. \<not> dev_attached d) (rte_eth_devices e)")
  case (Some i)
  then have "i < 32" using scan_Some [OF Some] assms by (simp add: eth_inv_def RTE_MAX_ETHPORTS_def)
  then show ?thesis using Some by (simp add: rte_eth_dev_find_free_port_def unat_of_nat)
qed (simp add: rte_eth_dev_find_free_port_def RTE_MAX_ETHPORTS_def)

lemma nb_ports_full:
  assumes "eth_inv e"
  shows "scan (\<lambda>d. \<not> dev_attached d) (rte_eth_devices e) = None \<longleftrightarrow> unat (nb_ports e) = RTE_MAX_ETHPORTS"
proof
  assume "scan (\<lambda>d. \<not> dev_attached d) (rte_eth_devices e) = None"
  then have "filter dev_attached (rte_eth_devices e) = rte_eth_devices e"
    by (intro filter_True) (simp add: scan_None)
  then show "unat (nb_ports e) = RTE_MAX_ETHPORTS" using assms by (simp add: eth_inv_def)
next
  assume "unat (nb_ports e) = RTE_MAX_ETHPORTS"
  then have "length (filter dev_attached (rte_eth_devices e)) = length (rte_eth_devices e)"
    using assms by (simp add: eth_inv_def)
  then show "scan (\<lambda>d. \<not> dev_attached d) (rte_eth_devices e) = None"
    by (metis filter_id_conv filter_True length_filter_less less_irrefl scan_None)
qed

lemma allocate_cases:
  assumes inv: "eth_inv e" and alloc: "rte_eth_dev_allocate e name type = (r, e')"
  shows "(r = None \<and> e' = e \<and> (unat (nb_ports e) = RTE_MAX_ETHPORTS \<or> rte_eth_dev_allocated e name \<noteq> None)) \<or>
    (\<exists>i d. r = Some i \<and> i < RTE_MAX_ETHPORTS \<and> \<not> dev_attached (rte_eth_devices e ! i)
       \<and> rte_eth_dev_allocated e name = None
       \<and> d = (rte_eth_devices e ! i)\<lparr>dev_data := (eth_dev_data e ! i)
               \<lparr>dd_name := snprintf_s RTE_ETH_NAME_MAX_LEN name, dd_port_id := of_nat i\<rparr>,
               dev_attached := True, dev_type := type\<rparr>
       \<and> e' = e\<lparr>rte_eth_devices := (rte_eth_devices e)[i := d],
               eth_dev_data := (eth_dev_data e)[i := dev_data d], nb_ports := nb_ports e + 1\<rparr>)"
proof (cases "scan (\<lambda>d. \<not> dev_attached d) (rte_eth_devices e)")
  case None
  then show ?thesis using alloc find_free_port [OF inv] nb_ports_full [OF inv]
    by (simp add: rte_eth_dev_allocate_def Let_def)
next
  case (Some i)
  then have i: "i < RTE_MAX_ETHPORTS" "\<not> dev_attached (rte_eth_devices e ! i)"
    using scan_Some [OF Some] inv by (simp_all add: eth_inv_def)
  have f: "unat (rte_eth_dev_find_free_port e) = i" "rte_eth_dev_find_free_port e = of_nat i"
    using find_free_port [OF inv] Some by (simp_all add: rte_eth_dev_find_free_port_def)
  show ?thesis using alloc i f
    by (auto simp: rte_eth_dev_allocate_def Let_def split: if_splits)
qed

lemma allocate_inv:
  assumes inv: "eth_inv e" and alloc: "rte_eth_dev_allocate e name type = (Some i, e')"
  shows "eth_inv e'" and "unat (nb_ports e') = Suc (unat (nb_ports e))"
proof -
  obtain d where i: "i < length (rte_eth_devices e)" "\<not> dev_attached (rte_eth_devices e ! i)"
    and dd: "d = (rte_eth_devices e ! i)\<lparr>dev_data := (eth_dev_data e ! i)
        \<lparr>dd_name := snprintf_s RTE_ETH_NAME_MAX_LEN name, dd_port_id := of_nat i\<rparr>,
        dev_attached := True, dev_type := type\<rparr>"
    and e': "e' = e\<lparr>rte_eth_devices := (rte_eth_devices e)[i := d],
        eth_dev_data := (eth_dev_data e)[i := dev_data d], nb_ports := nb_ports e + 1\<rparr>"
    using allocate_cases [OF inv alloc] inv unfolding eth_inv_def by auto
  have d: "dev_attached d" "length (dd_name (dev_data d)) < RTE_ETH_NAME_MAX_LEN"
    using length_snprintf_s [of RTE_ETH_NAME_MAX_LEN name] by (simp_all add: dd RTE_ETH_NAME_MAX_LEN_def)
  have len: "length (filter dev_attached ((rte_eth_devices e)[i := d])) = Suc (length (filter dev_attached (rte_eth_devices e)))"
    using length_filter_update [OF i(1), of dev_attached d] i(2) d(1) by simp
  have "Suc (unat (nb_ports e)) \<le> 32"
    using inv len length_filter_le [of dev_attached "(rte_eth_devices e)[i := d]"] by (simp add: eth_inv_def RTE_MAX_ETHPORTS_def)
  then have cnt: "unat (nb_ports e + 1) = Suc (unat (nb_ports e))" by (simp add: unat_word_ariths)
  show "unat (nb_ports e') = Suc (unat (nb_ports e))" using cnt by (simp add: e')
  show "eth_inv e'" using inv len cnt d(2) by (simp add: eth_inv_def e' list_all_update)
qed

end
