(* ===== verification/Rte_Eth_Ring_Dev.thy ===== *)
theory Rte_Eth_Ring_Dev
  imports Rte_Ethdev Spp_Cstring
begin

text \<open>
  The control side of the ring driver (\<open>drivers/net/ring/rte_eth_ring.c\<close>): making ports out of
  rings, the device operations, the statistics and the handling of the driver's arguments.
\<close>

unbundle bit_operations_syntax

section \<open>Device operations\<close>

definition upd_dev :: "('h, 'm, 'x) eth_eal \<Rightarrow> nat \<Rightarrow> (rte_eth_dev \<Rightarrow> rte_eth_dev) \<Rightarrow> ('h, 'm, 'x) eth_eal" where
  "upd_dev e i f = e\<lparr>rte_eth_devices := (rte_eth_devices e)[i := f (rte_eth_devices e ! i)]\<rparr>"

definition set_link :: "bool \<Rightarrow> rte_eth_dev \<Rightarrow> rte_eth_dev" where
  "set_link b d = d\<lparr>dev_data := (dev_data d)\<lparr>dd_link_status := b\<rparr>\<rparr>"

definition eth_dev_configure :: "rte_eth_dev \<Rightarrow> int \<times> rte_eth_dev" where
  "eth_dev_configure d = (0, d)"

definition eth_dev_start :: "rte_eth_dev \<Rightarrow> int \<times> rte_eth_dev" where
  "eth_dev_start d = (0, set_link True d)"

definition eth_dev_stop :: "rte_eth_dev \<Rightarrow> rte_eth_dev" where
  "eth_dev_stop d = set_link False d"

definition eth_dev_set_link_down :: "rte_eth_dev \<Rightarrow> int \<times> rte_eth_dev" where
  "eth_dev_set_link_down d = (0, set_link False d)"

definition eth_dev_set_link_up :: "rte_eth_dev \<Rightarrow> int \<times> rte_eth_dev" where
  "eth_dev_set_link_up d = (0, set_link True d)"

text \<open>\<^term>\<open>None\<close>: the queue number is outside the array of queue pointers.\<close>
definition eth_rx_queue_setup :: "rte_eth_dev \<Rightarrow> u16 \<Rightarrow> (int \<times> rte_eth_dev) option" where
  "eth_rx_queue_setup d rx_queue_id =
     do { qs \<leftarrow> aset (dd_rx_queues (dev_data d)) (unat rx_queue_id) (Some (unat rx_queue_id));
          Some (0, d\<lparr>dev_data := (dev_data d)\<lparr>dd_rx_queues := qs\<rparr>\<rparr>) }"

definition eth_tx_queue_setup :: "rte_eth_dev \<Rightarrow> u16 \<Rightarrow> (int \<times> rte_eth_dev) option" where
  "eth_tx_queue_setup d tx_queue_id =
     do { qs \<leftarrow> aset (dd_tx_queues (dev_data d)) (unat tx_queue_id) (Some (unat tx_queue_id));
          Some (0, d\<lparr>dev_data := (dev_data d)\<lparr>dd_tx_queues := qs\<rparr>\<rparr>) }"

record rte_eth_dev_info =
  driver_name :: string
  max_mac_addrs :: u32
  max_rx_pktlen :: u32
  max_rx_queues :: u16
  max_tx_queues :: u16
  min_rx_bufsize :: u32

definition eth_dev_info :: "pmd_internals \<Rightarrow> rte_eth_dev_info" where
  "eth_dev_info ints = \<lparr>driver_name = ''Rings PMD'', max_mac_addrs = 1, max_rx_pktlen = - 1,
     max_rx_queues = ucast (nb_rx_rings ints), max_tx_queues = ucast (nb_tx_rings ints), min_rx_bufsize = 0\<rparr>"

section \<open>Statistics\<close>

definition RTE_ETHDEV_QUEUE_STAT_CNTRS :: nat where "RTE_ETHDEV_QUEUE_STAT_CNTRS = 16"

record rte_eth_stats =
  ipackets :: u64
  opackets :: u64
  oerrors :: u64
  q_ipackets :: "u64 list"
  q_opackets :: "u64 list"
  q_errors :: "u64 list"

text \<open>
  The two loops: the counter of queue \<open>i\<close> goes into the statistics and onto the total, for
  every \<open>i\<close> below both limits.
\<close>
fun rx_stat_loop :: "ring_queue list \<Rightarrow> nat \<Rightarrow> nat \<Rightarrow> rte_eth_stats \<Rightarrow> u64 \<Rightarrow> (rte_eth_stats \<times> u64) option" where
  "rx_stat_loop qs 0 i s tot = Some (s, tot)"
| "rx_stat_loop qs (Suc k) i s tot =
     do { q \<leftarrow> aget qs i;
          qi \<leftarrow> aset (q_ipackets s) i (rx_pkts q);
          rx_stat_loop qs k (i + 1) (s\<lparr>q_ipackets := qi\<rparr>) (tot + rx_pkts q) }"

fun tx_stat_loop :: "ring_queue list \<Rightarrow> nat \<Rightarrow> nat \<Rightarrow> rte_eth_stats \<Rightarrow> u64 \<Rightarrow> u64 \<Rightarrow> (rte_eth_stats \<times> u64 \<times> u64) option" where
  "tx_stat_loop qs 0 i s tot err = Some (s, tot, err)"
| "tx_stat_loop qs (Suc k) i s tot err =
     do { q \<leftarrow> aget qs i;
          qo \<leftarrow> aset (q_opackets s) i (tx_pkts q);
          qe \<leftarrow> aset (q_errors s) i (err_pkts q);
          tx_stat_loop qs k (i + 1) (s\<lparr>q_opackets := qo, q_errors := qe\<rparr>) (tot + tx_pkts q) (err + err_pkts q) }"

definition eth_stats_get :: "pmd_internals \<Rightarrow> rte_eth_stats \<Rightarrow> rte_eth_stats option" where
  "eth_stats_get ints s =
     do { (s, rx_total) \<leftarrow> rx_stat_loop (rx_ring_queues ints)
            (min RTE_ETHDEV_QUEUE_STAT_CNTRS (unat (nb_rx_rings ints))) 0 s 0;
          (s, tx_total, tx_err_total) \<leftarrow> tx_stat_loop (tx_ring_queues ints)
            (min RTE_ETHDEV_QUEUE_STAT_CNTRS (unat (nb_tx_rings ints))) 0 s 0 0;
          Some (s\<lparr>ipackets := rx_total, opackets := tx_total, oerrors := tx_err_total\<rparr>) }"

fun reset_loop :: "(ring_queue \<Rightarrow> ring_queue) \<Rightarrow> nat \<Rightarrow> nat \<Rightarrow> ring_queue list \<Rightarrow> ring_queue list option" where
  "reset_loop f 0 i qs = Some qs"
| "reset_loop f (Suc k) i qs =
     do { q \<leftarrow> aget qs i; qs \<leftarrow> aset qs i (f q); reset_loop f k (i + 1) qs }"

definition eth_stats_reset :: "pmd_internals \<Rightarrow> pmd_internals option" where
  "eth_stats_reset ints =
     do { rxs \<leftarrow> reset_loop (\<lambda>q. q\<lparr>rx_pkts := 0\<rparr>) (unat (nb_rx_rings ints)) 0 (rx_ring_queues ints);
          txs \<leftarrow> reset_loop (\<lambda>q. q\<lparr>tx_pkts := 0, err_pkts := 0\<rparr>) (unat (nb_tx_rings ints)) 0 (tx_ring_queues ints);
          Some (ints\<lparr>rx_ring_queues := rxs, tx_ring_queues := txs\<rparr>) }"

section \<open>Ports out of rings\<close>

definition zero_queue :: ring_queue where
  "zero_queue = \<lparr>rng = 0, rx_pkts = 0, tx_pkts = 0, err_pkts = 0\<rparr>"

text \<open>\<open>internals->..._ring_queues[i].rng = queues[i]\<close> for \<open>k\<close> indexes from \<open>i\<close> on.\<close>
fun set_rings :: "u64 list \<Rightarrow> nat \<Rightarrow> nat \<Rightarrow> ring_queue list \<Rightarrow> ring_queue list option" where
  "set_rings rings 0 i qs = Some qs"
| "set_rings rings (Suc k) i qs =
     do { a \<leftarrow> aget rings i;
          q \<leftarrow> aget qs i;
          qs \<leftarrow> aset qs i (q\<lparr>rng := a\<rparr>);
          set_rings rings k (i + 1) qs }"

text \<open>
  The four allocations in order; on failure what was allocated so far is freed (\<open>rte_free\<close> of
  a null pointer does nothing). \<open>dsz\<close> and \<open>isz\<close> are the sizes of the two structures. The addresses are
  in the order in which the error exit frees them.
\<close>
definition ring_port_alloc :: "'h heap_ops \<Rightarrow> u64 \<Rightarrow> u64 \<Rightarrow> u32 \<Rightarrow> u32 \<Rightarrow> 'h \<Rightarrow> u64 list option \<times> 'h" where
  "ring_port_alloc ops dsz isz nb_rx nb_tx h =
     (let (data, h) = rte_zmalloc ops h dsz
      in if data = 0 then (None, h)
         else let (rxq, h) = rte_zmalloc ops h (8 * ucast nb_rx)
      in if rxq = 0 then (None, rte_free ops h data)
         else let (txq, h) = rte_zmalloc ops h (8 * ucast nb_tx)
      in if txq = 0 then (None, rte_free ops (rte_free ops h rxq) data)
         else let (ints, h) = rte_zmalloc ops h isz
      in if ints = 0 then (None, rte_free ops (rte_free ops (rte_free ops h rxq) txq) data)
         else (Some [rxq, txq, data, ints], h))"

text \<open>
  A null array of rings is \<^term>\<open>None\<close>. The result \<^term>\<open>None\<close> is a write outside the arrays
  of the private data or a read outside the given array.
\<close>
definition rte_eth_from_rings ::
  "'h heap_ops \<Rightarrow> u64 \<Rightarrow> u64 \<Rightarrow> ('h, 'm, 'x) eth_eal \<Rightarrow> string \<Rightarrow> u64 list option \<Rightarrow> u32 \<Rightarrow> u64 list option \<Rightarrow> u32 \<Rightarrow> u32 \<Rightarrow>
     (int \<times> ('h, 'm, 'x) eth_eal) option" where
  "rte_eth_from_rings ops dsz isz e name rx_queues nb_rx_queues tx_queues nb_tx_queues numa_node =
     (if rx_queues = None \<and> nb_rx_queues > 0 then Some (- 1, e\<lparr>rte_errno := EINVAL\<rparr>)
      else if tx_queues = None \<and> nb_tx_queues > 0 then Some (- 1, e\<lparr>rte_errno := EINVAL\<rparr>)
      else if unat nb_rx_queues > RTE_PMD_RING_MAX_RX_RINGS then Some (- 1, e\<lparr>rte_errno := EINVAL\<rparr>)
      else case ring_port_alloc ops dsz isz nb_rx_queues nb_tx_queues (malloc_heaps e) of
        (None, h) \<Rightarrow> Some (- 1, e\<lparr>malloc_heaps := h, rte_errno := ENOMEM\<rparr>)
      | (Some as, h) \<Rightarrow>
          (case rte_eth_dev_allocate (e\<lparr>malloc_heaps := h\<rparr>) name RTE_ETH_DEV_VIRTUAL of
             (None, e) \<Rightarrow> Some (- 1, e\<lparr>malloc_heaps := foldl (rte_free ops) (malloc_heaps e) as, rte_errno := ENOSPC\<rparr>)
           | (Some p, e) \<Rightarrow>
               do { rxs \<leftarrow> set_rings (the_default [] rx_queues) (unat nb_rx_queues) 0 (replicate RTE_PMD_RING_MAX_RX_RINGS zero_queue);
                    txs \<leftarrow> set_rings (the_default [] tx_queues) (unat nb_tx_queues) 0 (replicate RTE_PMD_RING_MAX_TX_RINGS zero_queue);
                    let ints = \<lparr>nb_rx_rings = nb_rx_queues, nb_tx_rings = nb_tx_queues,
                                rx_ring_queues = rxs, tx_ring_queues = txs\<rparr>;
                    let old = dev_data (rte_eth_devices e ! p);
                    let data = \<lparr>dd_name = dd_name old,
                                dd_rx_queues = map Some [0..<unat nb_rx_queues],
                                dd_tx_queues = map Some [0..<unat nb_tx_queues],
                                dd_nb_rx_queues = ucast nb_rx_queues,
                                dd_nb_tx_queues = ucast nb_tx_queues,
                                dd_link_status = False,
                                dd_port_id = dd_port_id old,
                                dd_dev_flags = RTE_ETH_DEV_DETACHABLE,
                                dd_kdrv = RTE_KDRV_NONE,
                                dd_numa_node = sint numa_node\<rparr>;
                    Some (int (unat (dd_port_id data)),
                          upd_dev e p (\<lambda>d. d\<lparr>dev_data := data, dev_pmd := Some (Pmd_Ring ints)\<rparr>)) }))"

text \<open>The ring's name is read through the pointer; \<^term>\<open>None\<close> when it is not a ring.\<close>
definition rte_eth_from_ring ::
  "'h heap_ops \<Rightarrow> u64 \<Rightarrow> u64 \<Rightarrow> ('h, 'm, 'x) eth_eal \<Rightarrow> u64 \<Rightarrow> (int \<times> ('h, 'm, 'x) eth_eal) option" where
  "rte_eth_from_ring ops dsz isz e r =
     do { ring \<leftarrow> ring_at e r;
          socket \<leftarrow> (case ring_memzone ring of
                      None \<Rightarrow> Some SOCKET_ID_ANY
                    | Some i \<Rightarrow> map_option mz_socket_id (aget (memzone e) i));
          rte_eth_from_rings ops dsz isz e (ring_name ring) (Some [r]) 1 (Some [r]) 1 (word_of_int socket) }"

definition rte_eth_from_ring_s0 ::
  "'h heap_ops \<Rightarrow> u64 \<Rightarrow> u64 \<Rightarrow> ('h, 'm, 'x) eth_eal \<Rightarrow> u64 \<Rightarrow> (int \<times> ('h, 'm, 'x) eth_eal) option" where
  "rte_eth_from_ring_s0 ops dsz isz e r =
     do { ring \<leftarrow> ring_at e r;
          rte_eth_from_rings ops dsz isz e (ring_name ring) (Some [r]) 1 (Some [r]) 1 0 }"

definition rte_eth_from_ring_s1 ::
  "'h heap_ops \<Rightarrow> u64 \<Rightarrow> u64 \<Rightarrow> ('h, 'm, 'x) eth_eal \<Rightarrow> u64 \<Rightarrow> (int \<times> ('h, 'm, 'x) eth_eal) option" where
  "rte_eth_from_ring_s1 ops dsz isz e r =
     do { ring \<leftarrow> ring_at e r;
          rte_eth_from_rings ops dsz isz e (ring_name ring) (Some [r]) 1 (Some [r]) 1 1 }"

section \<open>Devices by name and arguments\<close>

datatype dev_action = DEV_CREATE | DEV_ATTACH

text \<open>The loop over the rings; \<open>Inl\<close> is the return of \<open>-1\<close>.\<close>
fun ring_create_loop ::
  "'h heap_ops \<Rightarrow> (u64 \<Rightarrow> 'm) \<Rightarrow> string \<Rightarrow> u32 \<Rightarrow> dev_action \<Rightarrow> nat \<Rightarrow> nat \<Rightarrow> ('h, 'm, 'x) eth_eal \<Rightarrow>
     ((unit + u64 list) \<times> ('h, 'm, 'x) eth_eal) option" where
  "ring_create_loop ops mem name numa_node action 0 i e = Some (Inr [], e)"
| "ring_create_loop ops mem name numa_node action (Suc k) i e =
     (let rng_name = snprintf_s RTE_RING_NAMESIZE (''ETH_RXTX'' @ show_nat i @ ''_'' @ name)
      in do { (r, e) \<leftarrow> (if action = DEV_CREATE
                         then Some (rte_ring_create ops mem e rng_name 1024 (sint numa_node) (RING_F_SP_ENQ OR RING_F_SC_DEQ))
                         else rte_ring_lookup e rng_name);
              if r = 0 then Some (Inl (), e)
              else do { (rs, e) \<leftarrow> ring_create_loop ops mem name numa_node action k (i + 1) e;
                        Some (map_sum id (\<lambda>rs. r # rs) rs, e) } })"

definition eth_dev_ring_create ::
  "'h heap_ops \<Rightarrow> u64 \<Rightarrow> u64 \<Rightarrow> (u64 \<Rightarrow> 'm) \<Rightarrow> ('h, 'm, 'x) eth_eal \<Rightarrow> string \<Rightarrow> u32 \<Rightarrow> dev_action \<Rightarrow>
     (int \<times> ('h, 'm, 'x) eth_eal) option" where
  "eth_dev_ring_create ops dsz isz mem e name numa_node action =
     (let num_rings = min RTE_PMD_RING_MAX_RX_RINGS RTE_PMD_RING_MAX_TX_RINGS
      in do { (rxtx, e) \<leftarrow> ring_create_loop ops mem name numa_node action num_rings 0 e;
              case rxtx of
                Inl _ \<Rightarrow> Some (- 1, e)
              | Inr rxtx \<Rightarrow>
                  do { (ret, e) \<leftarrow> rte_eth_from_rings ops dsz isz e name (Some rxtx) (of_nat num_rings)
                                     (Some rxtx) (of_nat num_rings) numa_node;
                       Some (if ret < 0 then - 1 else 0, e) } })"

record node_action_pair =
  na_name :: string
  na_node :: u32
  na_action :: dev_action

text \<open>
  One value \<open>name:node:action\<close>: the pair it stores, or the error. \<open>ret\<close> is \<open>-EINVAL\<close> until
  the end, and the list entry is written only for a good value to be counted.
\<close>
definition parse_kvlist :: "string \<Rightarrow> int + node_action_pair" where
  "parse_kvlist value =
     (case split_at (CHR '':'') value of
        None \<Rightarrow> Inl (- EINVAL)
      | Some (name, rest) \<Rightarrow>
          (case split_at (CHR '':'') rest of
             None \<Rightarrow> Inl (- EINVAL)
           | Some (node, action) \<Rightarrow>
               (case (if action = ''ATTACH'' then Some DEV_ATTACH
                      else if action = ''CREATE'' then Some DEV_CREATE else None) of
                  None \<Rightarrow> Inl (- EINVAL)
                | Some act \<Rightarrow>
                    (case strtol10 node of
                       (v, fin, erange) \<Rightarrow>
                         if erange \<or> fin \<noteq> [] then Inl (- EINVAL)
                         else Inr \<lparr>na_name = name, na_node = word_of_int v, na_action = act\<rparr>))))"

text \<open>Create, and attach when that fails.\<close>
definition create_or_attach ::
  "'h heap_ops \<Rightarrow> u64 \<Rightarrow> u64 \<Rightarrow> (u64 \<Rightarrow> 'm) \<Rightarrow> ('h, 'm, 'x) eth_eal \<Rightarrow> string \<Rightarrow> u32 \<Rightarrow> (int \<times> ('h, 'm, 'x) eth_eal) option" where
  "create_or_attach ops dsz isz mem e name node =
     do { (ret, e) \<leftarrow> eth_dev_ring_create ops dsz isz mem e name node DEV_CREATE;
          if ret = - 1 then eth_dev_ring_create ops dsz isz mem e name node DEV_ATTACH
          else Some (ret, e) }"

fun devinit_loop ::
  "'h heap_ops \<Rightarrow> u64 \<Rightarrow> u64 \<Rightarrow> (u64 \<Rightarrow> 'm) \<Rightarrow> string \<Rightarrow> node_action_pair list \<Rightarrow> int \<Rightarrow> ('h, 'm, 'x) eth_eal \<Rightarrow>
     (int \<times> ('h, 'm, 'x) eth_eal) option" where
  "devinit_loop ops dsz isz mem name [] ret e = Some (ret, e)"
| "devinit_loop ops dsz isz mem name (p # ps) ret e =
     do { (ret, e) \<leftarrow> (if na_action p = DEV_CREATE then create_or_attach ops dsz isz mem e name (na_node p)
                       else eth_dev_ring_create ops dsz isz mem e name (na_node p) (na_action p));
          devinit_loop ops dsz isz mem name ps ret e }"

text \<open>
  The key/value parser of \<open>librte_kvargs\<close> is a parameter: \<open>kvargs params\<close> is the list of values
  of the key \<open>nodeaction\<close>, \<^term>\<open>None\<close> when the parameters are not supported. The values are
  handled in order until one is rejected. \<open>node\<close> is the socket of the caller.
\<close>
definition rte_pmd_ring_devinit ::
  "(string \<Rightarrow> string list option) \<Rightarrow> 'h heap_ops \<Rightarrow> u64 \<Rightarrow> u64 \<Rightarrow> (u64 \<Rightarrow> 'm) \<Rightarrow> u32 \<Rightarrow> ('h, 'm, 'x) eth_eal \<Rightarrow>
     string \<Rightarrow> string option \<Rightarrow> (int \<times> ('h, 'm, 'x) eth_eal) option" where
  "rte_pmd_ring_devinit kvargs ops dsz isz mem node e name params =
     (case params of
        None \<Rightarrow> create_or_attach ops dsz isz mem e name node
      | Some s \<Rightarrow>
          if s = [] then create_or_attach ops dsz isz mem e name node
          else case kvargs s of
                 None \<Rightarrow> create_or_attach ops dsz isz mem e name node
               | Some vals \<Rightarrow>
                   (case rte_zmalloc ops (malloc_heaps e) (16 + of_nat (length vals) * 4104) of
                      (info, h) \<Rightarrow>
                        let e = e\<lparr>malloc_heaps := h\<rparr>
                        in if info = 0 then Some (int (length vals), e)
                           else let rs = map parse_kvlist vals
                                in if \<exists>r\<in>set rs. isl r
                                   then Some (- 1, e\<lparr>malloc_heaps := rte_free ops (malloc_heaps e) info\<rparr>)
                                   else do { (ret, e) \<leftarrow> devinit_loop ops dsz isz mem name (map projr rs) 0 e;
                                             Some (ret, e\<lparr>malloc_heaps := rte_free ops (malloc_heaps e) info\<rparr>) }))"

definition rte_pmd_ring_devuninit :: "('h, 'm, 'x) eth_eal \<Rightarrow> string option \<Rightarrow> int \<times> ('h, 'm, 'x) eth_eal" where
  "rte_pmd_ring_devuninit e name =
     (case name of
        None \<Rightarrow> (- EINVAL, e)
      | Some name \<Rightarrow>
          (case rte_eth_dev_allocated e name of
             None \<Rightarrow> (- ENODEV, e)
           | Some i \<Rightarrow>
               let e = upd_dev e i eth_dev_stop;
                   e = upd_dev e i (\<lambda>d. d\<lparr>dev_pmd := None\<rparr>)
               in (0, snd (rte_eth_dev_release_port e (Some i)))))"

section \<open>What a ring-backed port is\<close>

text \<open>Queue 0 of the port receives from and transmits to the ring at the given address.\<close>
definition ring_port :: "rte_eth_dev \<Rightarrow> u64 \<Rightarrow> bool" where
  "ring_port d a \<longleftrightarrow>
     (case dev_pmd d of
        Some (Pmd_Ring ints) \<Rightarrow>
          dd_rx_queues (dev_data d) \<noteq> [] \<and> hd (dd_rx_queues (dev_data d)) = Some 0
          \<and> dd_tx_queues (dev_data d) \<noteq> [] \<and> hd (dd_tx_queues (dev_data d)) = Some 0
          \<and> rx_ring_queues ints \<noteq> [] \<and> rng (hd (rx_ring_queues ints)) = a
          \<and> tx_ring_queues ints \<noteq> [] \<and> rng (hd (tx_ring_queues ints)) = a
      | _ \<Rightarrow> False)"

lemma ring_portE:
  assumes "ring_port d a"
  obtains ints q qs q' qs' rxs txs where "dev_pmd d = Some (Pmd_Ring ints)"
    "dd_rx_queues (dev_data d) = Some 0 # rxs" "dd_tx_queues (dev_data d) = Some 0 # txs"
    "rx_ring_queues ints = q # qs" "rng q = a" "tx_ring_queues ints = q' # qs'" "rng q' = a"
proof -
  obtain ints where i: "dev_pmd d = Some (Pmd_Ring ints)"
    using assms by (auto simp: ring_port_def split: option.splits pmd.splits)
  then show thesis
    using assms that by (cases "dd_rx_queues (dev_data d)"; cases "dd_tx_queues (dev_data d)";
        cases "rx_ring_queues ints"; cases "tx_ring_queues ints") (auto simp: ring_port_def)
qed

text \<open>
  The effect of a burst on the state: one ring changes, and the counters of the port; the port
  stays what it is.
\<close>
definition moved_ring :: "('h, 'm, 'x) eth_eal \<Rightarrow> nat \<Rightarrow> u64 \<Rightarrow> 'm rte_ring \<Rightarrow> ('h, 'm, 'x) eth_eal \<Rightarrow> bool" where
  "moved_ring e p a r' e' \<longleftrightarrow> (\<exists>d'. ring_port d' a \<and> dev_attached d' = dev_attached (rte_eth_devices e ! p)
     \<and> dev_data d' = dev_data (rte_eth_devices e ! p)
     \<and> e' = e\<lparr>ring_at := (ring_at e)(a \<mapsto> r'), rte_eth_devices := (rte_eth_devices e)[p := d']\<rparr>)"

lemma rx_burst_ring:
  assumes p: "unat port < length (rte_eth_devices e)" "ring_port (rte_eth_devices e ! unat port) a"
    and r: "ring_at e a = Some r" "ring_inv r" and len: "unat n \<le> length bufs"
  shows "\<exists>nb bufs' r' e'. rte_eth_rx_burst oth e port 0 bufs n = Some (nb, bufs', e') \<and> moved_ring e (unat port) a r' e'
    \<and> ring_inv r' \<and> ring_same r r' \<and> length bufs' = length bufs \<and> unat nb = min (unat n) (length (ring_list r))
    \<and> take (unat nb) bufs' = take (unat n) (ring_list r) \<and> ring_list r' = drop (unat n) (ring_list r)"
proof -
  let ?d = "rte_eth_devices e ! unat port"
  obtain ints q qs q' qs' rxs txs where i: "dev_pmd ?d = Some (Pmd_Ring ints)"
    "dd_rx_queues (dev_data ?d) = Some 0 # rxs" "dd_tx_queues (dev_data ?d) = Some 0 # txs"
    "rx_ring_queues ints = q # qs" "rng q = a" "tx_ring_queues ints = q' # qs'" "rng q' = a"
    using ring_portE [OF p(2)] by metis
  obtain nb ptrs r' where x: "eth_ring_rx q r bufs n = Some (nb, ptrs, q\<lparr>rx_pkts := rx_pkts q + ucast nb\<rparr>, r')"
    and res: "ring_inv r'" "ring_same r r'" "length ptrs = length bufs" "unat nb = min (unat n) (length (ring_list r))"
    "take (unat nb) ptrs = take (unat n) (ring_list r)" "ring_list r' = drop (unat n) (ring_list r)"
    using eth_ring_rx_result [OF r(2) len, of q] by blast
  let ?q = "q\<lparr>rx_pkts := rx_pkts q + ucast nb\<rparr>"
  let ?d' = "?d\<lparr>dev_pmd := Some (Pmd_Ring (ints\<lparr>rx_ring_queues := ?q # qs\<rparr>))\<rparr>"
  have "rte_eth_rx_burst oth e port 0 bufs n =
      Some (nb, ptrs, e\<lparr>ring_at := (ring_at e)(a \<mapsto> r'), rte_eth_devices := (rte_eth_devices e)[unat port := ?d']\<rparr>)"
    using p(1) i r x by (simp add: rte_eth_rx_burst_def put_ring_rx_def)
  moreover have "ring_port ?d' a" using i by (simp add: ring_port_def)
  ultimately show ?thesis using res unfolding moved_ring_def
    by (intro exI [of _ nb] exI [of _ ptrs] exI [of _ r'] exI conjI) (assumption | simp)+
qed

lemma tx_burst_ring:
  assumes p: "unat port < length (rte_eth_devices e)" "ring_port (rte_eth_devices e ! unat port) a"
    and r: "ring_at e a = Some r" "ring_inv r" and len: "unat n \<le> length bufs"
  shows "\<exists>nb r' e'. rte_eth_tx_burst oth e port 0 bufs n = Some (nb, e') \<and> moved_ring e (unat port) a r' e'
    \<and> ring_inv r' \<and> ring_same r r' \<and> unat nb = min (unat n) (ring_free_n r)
    \<and> ring_list r' = ring_list r @ take (unat nb) bufs"
proof -
  let ?d = "rte_eth_devices e ! unat port"
  obtain ints q qs q' qs' rxs txs where i: "dev_pmd ?d = Some (Pmd_Ring ints)"
    "dd_rx_queues (dev_data ?d) = Some 0 # rxs" "dd_tx_queues (dev_data ?d) = Some 0 # txs"
    "rx_ring_queues ints = q # qs" "rng q = a" "tx_ring_queues ints = q' # qs'" "rng q' = a"
    using ring_portE [OF p(2)] by metis
  define k where "k = min (unat n) (ring_free_n r)"
  define q1 where "q1 = q'\<lparr>tx_pkts := tx_pkts q' + of_nat k, err_pkts := err_pkts q' + of_nat (unat n - k)\<rparr>"
  obtain nb r' where x: "eth_ring_tx q' r bufs n = Some (nb, q1, r')"
    and res: "ring_inv r'" "ring_same r r'" "unat nb = k" "ring_list r' = ring_list r @ take k bufs"
    using eth_ring_tx_result [OF r(2) len k_def, of q'] unfolding q1_def by blast
  have q1: "rng q1 = a" using i(7) by (simp add: q1_def)
  let ?d' = "?d\<lparr>dev_pmd := Some (Pmd_Ring (ints\<lparr>tx_ring_queues := q1 # qs'\<rparr>))\<rparr>"
  have "rte_eth_tx_burst oth e port 0 bufs n =
      Some (nb, e\<lparr>ring_at := (ring_at e)(a \<mapsto> r'), rte_eth_devices := (rte_eth_devices e)[unat port := ?d']\<rparr>)"
    using p(1) i r x q1 by (simp add: rte_eth_tx_burst_def put_ring_tx_def)
  moreover have "ring_port ?d' a" using i q1 by (simp add: ring_port_def)
  ultimately show ?thesis using res unfolding moved_ring_def k_def
    by (intro exI [of _ nb] exI [of _ r'] exI conjI) (assumption | simp)+
qed

section \<open>Making a port out of a ring\<close>

lemma eth_inv_heap [simp]: "eth_inv (e\<lparr>malloc_heaps := h\<rparr>) = eth_inv e" "eth_inv (e\<lparr>rte_errno := err\<rparr>) = eth_inv e"
  by (simp_all add: eth_inv_def)

lemma allocated_heap [simp]: "rte_eth_dev_allocated (e\<lparr>malloc_heaps := h\<rparr>) = rte_eth_dev_allocated e"
  "rte_eth_dev_allocated (e\<lparr>rte_errno := err\<rparr>) = rte_eth_dev_allocated e"
  by (simp_all add: rte_eth_dev_allocated_def fun_eq_iff)

lemma set_one_ring:
  "set_rings [r] 1 0 (replicate RTE_PMD_RING_MAX_RX_RINGS zero_queue) =
     Some (zero_queue\<lparr>rng := r\<rparr> # replicate 15 zero_queue)"
  "set_rings [r] 1 0 (replicate RTE_PMD_RING_MAX_TX_RINGS zero_queue) =
     Some (zero_queue\<lparr>rng := r\<rparr> # replicate 15 zero_queue)"
  by (simp_all add: RTE_PMD_RING_MAX_RX_RINGS_def RTE_PMD_RING_MAX_TX_RINGS_def numeral_eq_Suc)

text \<open>The new port and what else is left alone.\<close>
definition port_added :: "('h, 'm, 'x) eth_eal \<Rightarrow> string \<Rightarrow> u64 \<Rightarrow> nat \<Rightarrow> ('h, 'm, 'x) eth_eal \<Rightarrow> bool" where
  "port_added e name r p e' \<longleftrightarrow> p < RTE_MAX_ETHPORTS \<and> \<not> dev_attached (rte_eth_devices e ! p)
     \<and> ring_port (rte_eth_devices e' ! p) r \<and> dev_attached (rte_eth_devices e' ! p)
     \<and> dev_type (rte_eth_devices e' ! p) = RTE_ETH_DEV_VIRTUAL
     \<and> rte_eth_dev_allocated e' name = Some p
     \<and> unat (nb_ports e') = Suc (unat (nb_ports e))
     \<and> (\<forall>j. j \<noteq> p \<longrightarrow> rte_eth_devices e' ! j = rte_eth_devices e ! j)"

lemma allocated_update:
  assumes "i < length (rte_eth_devices e)" and "\<not> dev_attached (rte_eth_devices e ! i)"
    and "rte_eth_dev_allocated e name = None" and "dev_attached d" and "dd_name (dev_data d) = name"
    and "rte_eth_devices e' = (rte_eth_devices e)[i := d]"
  shows "rte_eth_dev_allocated e' name = Some i"
  using assms scan_update [of i "rte_eth_devices e" "\<lambda>d. dev_attached d \<and> dd_name (dev_data d) = name" d]
  by (simp add: rte_eth_dev_allocated_def)

text \<open>What keeps a port for one ring from being made: no memory, the name in use, or no free port.\<close>
definition no_port :: "'h heap_ops \<Rightarrow> u64 \<Rightarrow> u64 \<Rightarrow> ('h, 'm, 'x) eth_eal \<Rightarrow> string \<Rightarrow> bool" where
  "no_port ops dsz isz e name \<longleftrightarrow> fst (ring_port_alloc ops dsz isz 1 1 (malloc_heaps e)) = None
     \<or> rte_eth_dev_allocated e name \<noteq> None \<or> list_all dev_attached (rte_eth_devices e)"

lemma allocate_None:
  assumes "eth_inv e" and "rte_eth_dev_allocate e name type = (r, e')"
  shows "r = None \<longleftrightarrow> rte_eth_dev_allocated e name \<noteq> None \<or> list_all dev_attached (rte_eth_devices e)"
proof -
  have "list_all dev_attached (rte_eth_devices e)" if "unat (nb_ports e) = RTE_MAX_ETHPORTS"
  proof -
    have "length (filter dev_attached (rte_eth_devices e)) = length (rte_eth_devices e)"
      using that assms(1) by (simp add: eth_inv_def)
    then show ?thesis by (metis filter_id_conv length_filter_less less_irrefl list_all_iff)
  qed
  moreover have "\<not> list_all dev_attached (rte_eth_devices e)" if "i < RTE_MAX_ETHPORTS" "\<not> dev_attached (rte_eth_devices e ! i)" for i
    using that assms(1) by (auto simp: list_all_length eth_inv_def)
  ultimately show ?thesis using allocate_cases [OF assms] by auto
qed

lemma from_one_ring:
  assumes inv: "eth_inv e" and short: "length name < RTE_ETH_NAME_MAX_LEN"
  shows "\<exists>ret e'. rte_eth_from_rings ops dsz isz e name (Some [r]) 1 (Some [r]) 1 node = Some (ret, e')
    \<and> eth_inv e' \<and> ring_at e' = ring_at e \<and> ring_tailq e' = ring_tailq e \<and> memzone e' = memzone e
    \<and> other_state e' = other_state e
    \<and> (if ret = - 1 then rte_eth_devices e' = rte_eth_devices e else \<exists>p. ret = int p \<and> port_added e name r p e')
    \<and> (ret = - 1 \<longleftrightarrow> no_port ops dsz isz e name)"
proof -
  obtain ok h where a: "ring_port_alloc ops dsz isz 1 1 (malloc_heaps e) = (ok, h)" by fastforce
  let ?e = "e\<lparr>malloc_heaps := h\<rparr>"
  have inv1: "eth_inv ?e" using inv by simp
  obtain q e1 where alloc: "rte_eth_dev_allocate ?e name RTE_ETH_DEV_VIRTUAL = (q, e1)" by fastforce
  have start: "rte_eth_from_rings ops dsz isz e name (Some [r]) 1 (Some [r]) 1 node =
      (if ok = None then Some (- 1, ?e\<lparr>rte_errno := ENOMEM\<rparr>)
       else case q of None \<Rightarrow> Some (- 1, e1\<lparr>malloc_heaps := foldl (rte_free ops) (malloc_heaps e1) (the ok), rte_errno := ENOSPC\<rparr>)
         | Some p \<Rightarrow>
             let ints = \<lparr>nb_rx_rings = 1, nb_tx_rings = 1,
                   rx_ring_queues = zero_queue\<lparr>rng := r\<rparr> # replicate 15 zero_queue,
                   tx_ring_queues = zero_queue\<lparr>rng := r\<rparr> # replicate 15 zero_queue\<rparr>;
                 old = dev_data (rte_eth_devices e1 ! p);
                 data = \<lparr>dd_name = dd_name old, dd_rx_queues = [Some 0], dd_tx_queues = [Some 0],
                   dd_nb_rx_queues = 1, dd_nb_tx_queues = 1, dd_link_status = False,
                   dd_port_id = dd_port_id old, dd_dev_flags = RTE_ETH_DEV_DETACHABLE,
                   dd_kdrv = RTE_KDRV_NONE, dd_numa_node = sint node\<rparr>
             in Some (int (unat (dd_port_id data)),
                      upd_dev e1 p (\<lambda>d. d\<lparr>dev_data := data, dev_pmd := Some (Pmd_Ring ints)\<rparr>)))"
    using a alloc set_one_ring [of r]
    by (auto simp: rte_eth_from_rings_def RTE_PMD_RING_MAX_RX_RINGS_def Let_def split: option.splits)
  have np: "no_port ops dsz isz e name \<longleftrightarrow> ok = None \<or> q = None"
    using allocate_None [OF inv1 alloc] by (auto simp: no_port_def a rte_eth_dev_allocated_def)
  show ?thesis
  proof (cases "ok \<noteq> None \<and> q \<noteq> None")
    case False
    then have "q = None \<longrightarrow> e1 = ?e" using allocate_cases [OF inv1 alloc] by auto
    then show ?thesis using False inv np by (auto simp: start)
  next
    case True
    then obtain p where q: "q = Some p" by blast
    let ?d = "rte_eth_devices e1 ! p"
    obtain d where p: "p < RTE_MAX_ETHPORTS" "\<not> dev_attached (rte_eth_devices ?e ! p)" "rte_eth_dev_allocated ?e name = None"
      and deq: "d = (rte_eth_devices ?e ! p)\<lparr>dev_data := (eth_dev_data ?e ! p)
               \<lparr>dd_name := snprintf_s RTE_ETH_NAME_MAX_LEN name, dd_port_id := of_nat p\<rparr>,
               dev_attached := True, dev_type := RTE_ETH_DEV_VIRTUAL\<rparr>"
      and e1: "e1 = ?e\<lparr>rte_eth_devices := (rte_eth_devices ?e)[p := d],
          eth_dev_data := (eth_dev_data ?e)[p := dev_data d], nb_ports := nb_ports ?e + 1\<rparr>"
      using allocate_cases [OF inv1 alloc] unfolding q option.distinct option.inject by blast
    have d: "dev_attached d" "dev_type d = RTE_ETH_DEV_VIRTUAL" "dd_name (dev_data d) = name" "dd_port_id (dev_data d) = of_nat p"
      using short by (simp_all add: deq snprintf_s_id)
    note p = p [simplified] and e1 = e1 [simplified]
    have len: "p < length (rte_eth_devices e)" using p(1) inv by (simp add: eth_inv_def)
    have dd: "?d = d" using len by (simp add: e1)
    note ai = allocate_inv [OF inv1 alloc [unfolded q]]
    have up: "unat (of_nat p :: u8) = p" using p(1) by (simp add: RTE_MAX_ETHPORTS_def unat_of_nat)
    then have up: "uint (of_nat p :: u8) = int p" by (metis uint_nat)
    define ints where "ints = \<lparr>nb_rx_rings = 1, nb_tx_rings = 1,
                   rx_ring_queues = zero_queue\<lparr>rng := r\<rparr> # replicate 15 zero_queue,
                   tx_ring_queues = zero_queue\<lparr>rng := r\<rparr> # replicate 15 zero_queue\<rparr>"
    define data where "data = \<lparr>dd_name = name, dd_rx_queues = [Some 0], dd_tx_queues = [Some 0],
                   dd_nb_rx_queues = 1, dd_nb_tx_queues = 1, dd_link_status = False,
                   dd_port_id = of_nat p, dd_dev_flags = RTE_ETH_DEV_DETACHABLE,
                   dd_kdrv = RTE_KDRV_NONE, dd_numa_node = sint node\<rparr>"
    have res: "rte_eth_from_rings ops dsz isz e name (Some [r]) 1 (Some [r]) 1 node =
        Some (int p, upd_dev e1 p (\<lambda>d. d\<lparr>dev_data := data, dev_pmd := Some (Pmd_Ring ints)\<rparr>))"
      using start True q dd d(3,4) up by (simp add: Let_def ints_def data_def)
    have data: "dd_name data = name" "dd_rx_queues data = [Some 0]" "dd_tx_queues data = [Some 0]"
      by (simp_all add: data_def)
    have ints: "rx_ring_queues ints = zero_queue\<lparr>rng := r\<rparr> # replicate 15 zero_queue"
        "tx_ring_queues ints = zero_queue\<lparr>rng := r\<rparr> # replicate 15 zero_queue"
      by (simp_all add: ints_def)
    let ?d' = "d\<lparr>dev_data := data, dev_pmd := Some (Pmd_Ring ints)\<rparr>"
    let ?e' = "e1\<lparr>rte_eth_devices := (rte_eth_devices e)[p := ?d']\<rparr>"
    have e': "upd_dev e1 p (\<lambda>d. d\<lparr>dev_data := data, dev_pmd := Some (Pmd_Ring ints)\<rparr>) = ?e'"
      using len by (simp add: upd_dev_def e1)
    have "length (filter dev_attached ((rte_eth_devices e)[p := ?d'])) = length (filter dev_attached (rte_eth_devices e1))"
      using length_filter_update [OF len, of dev_attached ?d'] length_filter_update [OF len, of dev_attached d] d(1)
      by (simp add: e1)
    moreover have "list_all (\<lambda>d. length (dd_name (dev_data d)) < RTE_ETH_NAME_MAX_LEN) ((rte_eth_devices e)[p := ?d'])"
      using inv data(1) short by (intro list_all_update) (simp_all add: eth_inv_def)
    ultimately have inv': "eth_inv ?e'" using ai(1) inv by (simp add: eth_inv_def)
    have "rte_eth_dev_allocated ?e' name = Some p"
      using len p(2,3) d(1) data(1) by (intro allocated_update [of p e name ?d']) simp_all
    moreover have "ring_port ?d' r" using data ints by (simp add: ring_port_def)
    ultimately have "port_added e name r p ?e'"
      using p d len ai(2) by (simp add: port_added_def)
    then show ?thesis using res inv' p(3) np True unfolding e'
      by (intro exI [of _ "int p"] exI [of _ ?e']) (auto simp: e1)
  qed
qed

section \<open>Properties\<close>

text \<open>
  Turning a ring into a port either fails with \<open>-1\<close>, and then no port changes, or adds
  exactly one port: its number is below 32 and was free, it is valid afterwards, it is found
  under the ring's name, receives from and transmits to that ring, and all other ports are as
  before. It fails whenever a port of that name exists, so a ring cannot be added twice.
\<close>
theorem eth_from_ring_adds_port:
  assumes "eth_inv e" and "ring_at e r = Some ring" and "length (ring_name ring) < RTE_ETH_NAME_MAX_LEN"
  shows "\<exists>ret e'. rte_eth_from_ring_s0 ops dsz isz e r = Some (ret, e') \<and> eth_inv e'
    \<and> ring_at e' = ring_at e
    \<and> (if ret = - 1 then rte_eth_devices e' = rte_eth_devices e
       else \<exists>p. ret = int p \<and> port_added e (ring_name ring) r p e')
    \<and> (rte_eth_dev_allocated e (ring_name ring) \<noteq> None \<longrightarrow> ret = - 1)"
proof -
  obtain ret e' where r: "rte_eth_from_rings ops dsz isz e (ring_name ring) (Some [r]) 1 (Some [r]) 1 0 = Some (ret, e')"
    "eth_inv e'" "ring_at e' = ring_at e"
    "if ret = - 1 then rte_eth_devices e' = rte_eth_devices e
     else \<exists>p. ret = int p \<and> port_added e (ring_name ring) r p e'"
    "rte_eth_dev_allocated e (ring_name ring) \<noteq> None \<longrightarrow> ret = - 1"
    using from_one_ring [OF assms(1,3), of ops dsz isz r 0] unfolding no_port_def by blast
  then show ?thesis using assms(2) unfolding rte_eth_from_ring_s0_def
    by (intro exI [of _ ret] exI [of _ e'] conjI) simp_all
qed

definition null_dev :: rte_eth_dev where
  "null_dev = \<lparr>dev_attached = False, dev_type = RTE_ETH_DEV_UNKNOWN,
     dev_data = \<lparr>dd_name = '''', dd_rx_queues = [], dd_tx_queues = [], dd_nb_rx_queues = 0, dd_nb_tx_queues = 0,
       dd_link_status = False, dd_port_id = 0, dd_dev_flags = 0, dd_kdrv = RTE_KDRV_UNKNOWN, dd_numa_node = 0\<rparr>,
     dev_pmd = None\<rparr>"

text \<open>No port yet, and the ring \<open>ring_4\<close> at one address.\<close>
definition eth_0 :: "(u64, nat, unit) eth_eal" where
  "eth_0 = \<lparr>memzone_cnt = 0, memzone = replicate RTE_MAX_MEMZONE null_memzone, malloc_heaps = 0x100000, rte_errno = 0,
     ring_at = [0x1000 \<mapsto> ring_4], ring_tailq = [(0x800, 0x1000)],
     rte_eth_devices = replicate 32 null_dev, eth_dev_data = replicate 32 (dev_data null_dev), nb_ports = 0,
     other_state = ()\<rparr>"

lemma eth_0_fields: "rte_eth_devices eth_0 = replicate 32 null_dev" "ring_at eth_0 0x1000 = Some ring_4"
  "eth_dev_data eth_0 = replicate 32 (dev_data null_dev)" "nb_ports eth_0 = 0"
  by (simp_all add: eth_0_def)

lemma eth_0_inv: "eth_inv eth_0"
  by (simp add: eth_inv_def eth_0_fields RTE_MAX_ETHPORTS_def RTE_ETH_NAME_MAX_LEN_def list_all_iff null_dev_def)

theorem eth_from_ring_adds_port_witness:
  "\<exists>ret e'. rte_eth_from_ring_s0 bump_ops 2048 1040 eth_0 0x1000 = Some (ret, e') \<and> eth_inv e'
    \<and> (ret = - 1 \<or> (\<exists>p. ret = int p \<and> port_added eth_0 ''MProc_Ring_0'' 0x1000 p e'))"
  using eth_from_ring_adds_port [OF eth_0_inv eth_0_fields(2), of bump_ops 2048 1040]
  by (auto simp: ring_4_def RTE_ETH_NAME_MAX_LEN_def split: if_splits)

lemma set_rings_beyond: "length qs \<le> i + k \<Longrightarrow> set_rings rings (Suc k) i qs = None"
proof (induction k arbitrary: i qs)
  case 0
  then show ?case by (simp add: aget_def bind_eq_None_conv)
next
  case (Suc k)
  have "set_rings rings (Suc k) (i + 1) (qs[i := q]) = None" for q using Suc.prems by (intro Suc.IH) simp
  then show ?case by (subst set_rings.simps(2)) (simp add: aset_def bind_eq_None_conv del: set_rings.simps(2))
qed

text \<open>
  More than 16 transmit rings are not rejected as more than 16 receive rings are: once the
  memory and a port are allocated, the code writes outside the array of transmit queues of the
  port's private data.
\<close>
theorem eth_from_rings_tx_overflow:
  assumes "eth_inv e" and "16 < unat nb_tx" and "unat nb_rx \<le> 16"
    and "fst (ring_port_alloc ops dsz isz nb_rx nb_tx (malloc_heaps e)) \<noteq> None"
    and "unat (nb_ports e) < RTE_MAX_ETHPORTS" and "rte_eth_dev_allocated e name = None"
  shows "rte_eth_from_rings ops dsz isz e name (Some rings) nb_rx (Some rings) nb_tx node = None"
proof -
  obtain k where k: "unat nb_tx = Suc k" "16 \<le> k" using assms(2) by (cases "unat nb_tx") auto
  have tx: "set_rings rings (unat nb_tx) 0 (replicate RTE_PMD_RING_MAX_TX_RINGS zero_queue) = None"
    unfolding k(1) by (rule set_rings_beyond) (simp add: k(2) RTE_PMD_RING_MAX_TX_RINGS_def)
  obtain as h where h: "ring_port_alloc ops dsz isz nb_rx nb_tx (malloc_heaps e) = (Some as, h)"
    using assms(4) by (metis fst_conv not_None_eq surj_pair)
  obtain q e1 where alloc: "rte_eth_dev_allocate (e\<lparr>malloc_heaps := h\<rparr>) name RTE_ETH_DEV_VIRTUAL = (q, e1)" by fastforce
  have "q \<noteq> None" using allocate_cases [OF _ alloc] assms(1,5,6) by auto
  then obtain p where q: "q = Some p" by blast
  show ?thesis
    using assms(3) alloc q tx h by (simp add: rte_eth_from_rings_def RTE_PMD_RING_MAX_RX_RINGS_def bind_eq_None_conv)
qed

theorem eth_from_rings_tx_overflow_witness:
  "rte_eth_from_rings bump_ops 2048 1040 eth_0 ''net_x'' (Some (replicate 17 0x1000)) 1 (Some (replicate 17 0x1000)) 17 0 = None"
proof (rule eth_from_rings_tx_overflow [OF eth_0_inv])
  show "fst (ring_port_alloc bump_ops 2048 1040 1 17 (malloc_heaps eth_0)) \<noteq> None" by code_simp
  show "rte_eth_dev_allocated eth_0 ''net_x'' = None" by code_simp
qed (simp_all add: eth_0_fields RTE_MAX_ETHPORTS_def)

end
