(* ===== verification/Spp_Common.thy ===== *)
theory Spp_Common
  imports Rte_Eth_Ring_Dev
begin

text \<open>
  The definitions shared by all processes of the patch panel (\<open>shared/common.h\<close>): the types of
  ports, the statistics the processes share, and the names under which rings and vhost devices
  are registered. A name is printed into a static buffer that holds three digits; the identifiers
  of a run are told apart by their names exactly as long as they have at most three digits.
\<close>

unbundle bit_operations_syntax

definition MAX_CLIENTS :: nat where "MAX_CLIENTS = 16"
definition MSG_SIZE :: nat where "MSG_SIZE = 100"

datatype port_type = PHY | RING | VHOST | UNDEF

record rx_stats =
  rxs_rx :: "u64 list"

record tx_stats =
  txs_tx :: "u64 list"
  txs_tx_drop :: "u64 list"

record port_info =
  pi_num_ports :: u8
  pi_id :: "u8 list"
  pi_type :: port_type
  pi_rx_stats :: rx_stats
  pi_tx_stats :: "tx_stats list"

section \<open>Names\<close>

definition MP_CLIENT_RXQ_NAME :: string where "MP_CLIENT_RXQ_NAME = ''MProc_Ring_%u''"
definition PKTMBUF_POOL_NAME :: string where "PKTMBUF_POOL_NAME = ''mproc_pktmbuf_pool''"
definition VM_PKTMBUF_POOL_NAME :: string where "VM_PKTMBUF_POOL_NAME = ''VM_Proc_pktmbuf_pool''"
definition LVL3_PKTMBUF_POOL_NAME :: string where "LVL3_PKTMBUF_POOL_NAME = ''hsm_pktmbuf_pool''"
definition VM_MZ_PORT_INFO :: string where "VM_MZ_PORT_INFO = ''VM_Proc_port_info''"
definition MZ_PORT_INFO :: string where "MZ_PORT_INFO = ''MProc_port_info''"
definition VHOST_BACKEND_NAME :: string where "VHOST_BACKEND_NAME = ''eth_vhost%u''"
definition VHOST_IFACE_NAME :: string where "VHOST_IFACE_NAME = ''/tmp/sock%u''"
definition HSM_RING_NAME :: string where "HSM_RING_NAME = ''HSM_Ring_%u''"
definition HSM_POOL_NAME :: string where "HSM_POOL_NAME = ''hsm_pktmbuf_pool''"

text \<open>The \<open>printf\<close> conversion of one unsigned number.\<close>
fun fmt_u :: "string \<Rightarrow> u32 \<Rightarrow> string" where
  "fmt_u [] n = []"
| "fmt_u (c # cs) n =
     (if c = CHR ''%'' \<and> take 1 cs = ''u'' then show_nat (unat n) @ drop 1 cs else c # fmt_u cs n)"

definition get_ring_name :: "u32 \<Rightarrow> string" where
  "get_ring_name n = (let size = length HSM_RING_NAME + 1 + 2 in snprintf_s (size - 1) (fmt_u HSM_RING_NAME n))"

definition get_rx_queue_name :: "u32 \<Rightarrow> string" where
  "get_rx_queue_name n = (let size = length MP_CLIENT_RXQ_NAME + 1 + 2 in snprintf_s (size - 1) (fmt_u MP_CLIENT_RXQ_NAME n))"

definition get_vhost_backend_name :: "u32 \<Rightarrow> string" where
  "get_vhost_backend_name n = (let size = length VHOST_BACKEND_NAME + 1 + 2 in snprintf_s (size - 1) (fmt_u VHOST_BACKEND_NAME n))"

definition get_vhost_iface_name :: "u32 \<Rightarrow> string" where
  "get_vhost_iface_name n = (let size = length VHOST_IFACE_NAME + 1 + 2 in snprintf_s (size - 1) (fmt_u VHOST_IFACE_NAME n))"

lemma get_names:
  "get_ring_name n = ''HSM_Ring_'' @ take 3 (show_nat (unat n))"
  "get_rx_queue_name n = ''MProc_Ring_'' @ take 3 (show_nat (unat n))"
  "get_vhost_backend_name n = ''eth_vhost'' @ take 3 (show_nat (unat n))"
  "get_vhost_iface_name n = ''/tmp/sock'' @ take 3 (show_nat (unat n))"
  by (simp_all add: get_ring_name_def get_rx_queue_name_def get_vhost_backend_name_def get_vhost_iface_name_def
      HSM_RING_NAME_def MP_CLIENT_RXQ_NAME_def VHOST_BACKEND_NAME_def VHOST_IFACE_NAME_def snprintf_s_def numeral_3_eq_3)

lemma take_show_nat_small: "n < 1000 \<Longrightarrow> take 3 (show_nat n) = show_nat n"
  using length_show_nat [of 3 n] by simp

lemma get_rx_queue_name_length: "length (get_rx_queue_name n) < 15" "length (get_ring_name n) < 13"
  by (simp_all add: get_names)

text \<open>
  The names of two rings, of two queues, of two vhost devices and of two vhost sockets differ whenever the
  identifiers differ and are below 1000, and a ring of the shared memory is never taken for a
  queue. Identifiers of four and more digits are cut to three, so that 1000 and 1001 are one
  queue.
\<close>
theorem names_distinct:
  "(unat a < 1000 \<and> unat b < 1000 \<longrightarrow>
      (get_ring_name a = get_ring_name b \<longleftrightarrow> a = b) \<and> (get_rx_queue_name a = get_rx_queue_name b \<longleftrightarrow> a = b)
      \<and> (get_vhost_backend_name a = get_vhost_backend_name b \<longleftrightarrow> a = b)
      \<and> (get_vhost_iface_name a = get_vhost_iface_name b \<longleftrightarrow> a = b))
   \<and> get_ring_name a \<noteq> get_rx_queue_name b
   \<and> get_rx_queue_name 1000 = get_rx_queue_name 1001 \<and> get_rx_queue_name 1000 = get_rx_queue_name 100"
proof -
  have "show_nat (unat a) = show_nat (unat b) \<longleftrightarrow> a = b" by (simp add: show_nat_inj word_unat_eq_iff)
  then show ?thesis by (simp add: get_names take_show_nat_small) (simp add: show_nat.simps)
qed

theorem names_distinct_witness:
  "get_rx_queue_name 7 \<noteq> get_rx_queue_name 70 \<and> get_vhost_iface_name 7 \<noteq> get_vhost_iface_name 70"
  using names_distinct [of 7 70] by simp

end
