(* ===== verification/Spp_Args.thy ===== *)
theory Spp_Args
  imports Spp_Common
begin

text \<open>
  The command line of the primary processes (\<open>pri_lvl1/args.c\<close>): the mask of ports, the number of
  clients and the address of the controller. The options are read by \<open>getopt_long\<close> with three
  short options that take an argument and no long ones. The mask appends to the table of ports in
  shared memory; a write past its 32 entries is \<^term>\<open>None\<close>. The mask names exactly the ports whose
  bits are set, in ascending order; numbers of clients are cut to 8 bits.
\<close>

unbundle bit_operations_syntax

section \<open>State and parsers\<close>

text \<open>The variables of the module and the shared table \<open>ports\<close> points to.\<close>
record app_args =
  num_clients :: u8
  arg_ports :: port_info
  server_ip :: "string option"
  server_port :: int

text \<open>\<open>ports->id[ports->num_ports++] = cnt\<close>.\<close>
definition port_append :: "u8 \<Rightarrow> port_info \<Rightarrow> port_info option" where
  "port_append cnt p =
     do { ids \<leftarrow> aset (pi_id p) (unat (pi_num_ports p)) cnt;
          Some (p\<lparr>pi_num_ports := pi_num_ports p + 1, pi_id := ids\<rparr>) }"

lemma portmask_shift_less: "pm \<noteq> 0 \<Longrightarrow> unat (drop_bit (Suc 0) (pm :: u64)) < unat pm"
  by (simp add: drop_bit_Suc unat_div_distrib unat_gt_0)

function portmask_loop :: "u8 \<Rightarrow> u64 \<Rightarrow> u8 \<Rightarrow> port_info \<Rightarrow> port_info option" where
  "portmask_loop max_ports pm cnt p =
     (if pm = 0 then Some p
      else do { p \<leftarrow> (if pm AND 1 \<noteq> 0 \<and> \<not> max_ports \<le> cnt then port_append cnt p else Some p);
                portmask_loop max_ports (drop_bit 1 pm) (cnt + 1) p })"
  by pat_completeness auto
termination
  by (relation "measure (\<lambda>(m, pm, c, p). unat pm)") (auto simp: portmask_shift_less)

declare portmask_loop.simps [simp del]

definition parse_portmask :: "u8 \<Rightarrow> string option \<Rightarrow> app_args \<Rightarrow> (int \<times> app_args) option" where
  "parse_portmask max_ports portmask st =
     (case portmask of
        None \<Rightarrow> Some (- 1, st)
      | Some s \<Rightarrow>
          if s = [] then Some (- 1, st)
          else let (pm, end) = strtoul16 s in
            if end \<noteq> [] \<or> pm = 0 then Some (- 1, st)
            else do { p \<leftarrow> portmask_loop max_ports pm 0 (arg_ports st);
                      Some (0, st\<lparr>arg_ports := p\<rparr>) })"

definition parse_num_clients :: "string option \<Rightarrow> app_args \<Rightarrow> int \<times> app_args" where
  "parse_num_clients clients st =
     (case clients of
        None \<Rightarrow> (- 1, st)
      | Some s \<Rightarrow>
          if s = [] then (- 1, st)
          else let (temp, end) = strtoul10 s in
            if end \<noteq> [] \<or> temp = 0 then (- 1, st)
            else (0, st\<lparr>num_clients := ucast temp\<rparr>))"

text \<open>Two calls of \<open>strtok\<close>: the first word is the address, the second the port number.\<close>
definition parse_server :: "string option \<Rightarrow> app_args \<Rightarrow> int \<times> app_args" where
  "parse_server srv st =
     (case srv of
        None \<Rightarrow> (- 1, st)
      | Some s \<Rightarrow>
          if s = [] then (- 1, st)
          else (case strtok_all (CHR '':'') s of
                  [] \<Rightarrow> (- 1, st\<lparr>server_ip := None\<rparr>)
                | [ip] \<Rightarrow> (- 1, st\<lparr>server_ip := Some ip\<rparr>)
                | ip # token # _ \<Rightarrow> (0, st\<lparr>server_ip := Some ip, server_port := atoi token\<rparr>)))"

section \<open>The loop over the options\<close>

datatype opt_char = Opt char string | Opt_unknown

text \<open>
  \<open>getopt_long\<close> with short options that all take an argument (\<open>n:\<close>, \<open>p:\<close>, \<open>s:\<close> here) and no long ones:
  the next option and the arguments after it; \<^term>\<open>None\<close> at the end. Other arguments are passed over.
\<close>
fun getopt_next :: "string \<Rightarrow> string list \<Rightarrow> (opt_char \<times> string list) option" where
  "getopt_next opts [] = None"
| "getopt_next opts (arg # rest) =
     (if arg = ''--'' then None
      else case arg of
        c0 # c # cs \<Rightarrow>
          if c0 \<noteq> CHR ''-'' then getopt_next opts rest
          else if c \<in> set opts then
            (if cs \<noteq> [] then Some (Opt c cs, rest)
             else (case rest of [] \<Rightarrow> Some (Opt_unknown, []) | v # rest' \<Rightarrow> Some (Opt c v, rest')))
          else Some (Opt_unknown, rest)
      | _ \<Rightarrow> getopt_next opts rest)"

lemma getopt_next_shorter: "getopt_next opts args = Some (opt, rest) \<Longrightarrow> length rest < length args"
proof (induction args)
  case (Cons arg args)
  then show ?case by (auto split: if_splits list.splits)
qed simp

text \<open>The body of the \<open>switch\<close>; every failing option ends the parsing.\<close>
definition parse_option :: "u8 \<Rightarrow> opt_char \<Rightarrow> app_args \<Rightarrow> (int \<times> app_args) option" where
  "parse_option max_ports opt st =
     (case opt of
        Opt c v \<Rightarrow>
          if c = CHR ''p'' then parse_portmask max_ports (Some v) st
          else if c = CHR ''n'' then Some (parse_num_clients (Some v) st)
          else if c = CHR ''s'' then Some (parse_server (Some v) st)
          else Some (- 1, st)
      | Opt_unknown \<Rightarrow> Some (- 1, st))"

function options_loop :: "u8 \<Rightarrow> string list \<Rightarrow> app_args \<Rightarrow> (int \<times> app_args) option" where
  "options_loop max_ports args st =
     (case getopt_next ''nps'' args of
        None \<Rightarrow> Some (0, st)
      | Some (opt, rest) \<Rightarrow>
          do { (r, st) \<leftarrow> parse_option max_ports opt st;
               if r \<noteq> 0 then Some (- 1, st) else options_loop max_ports rest st })"
  by pat_completeness auto
termination
  by (relation "measure (\<lambda>(m, args, st). length args)") (auto dest: getopt_next_shorter)

declare options_loop.simps [simp del]

text \<open>\<open>parse_app_args\<close> on the arguments after the program name.\<close>
definition parse_app_args :: "u8 \<Rightarrow> string list \<Rightarrow> app_args \<Rightarrow> (int \<times> app_args) option" where
  "parse_app_args max_ports args st =
     do { (r, st) \<leftarrow> options_loop max_ports args st;
          if r \<noteq> 0 then Some (- 1, st)
          else if pi_num_ports (arg_ports st) = 0 \<or> num_clients st = 0 then Some (- 1, st)
          else Some (0, st) }"

section \<open>Which ports a mask names\<close>

fun port_append_all :: "u8 list \<Rightarrow> port_info \<Rightarrow> port_info option" where
  "port_append_all [] p = Some p"
| "port_append_all (c # cs) p = do { p \<leftarrow> port_append c p; port_append_all cs p }"

lemma port_append_all_result:
  assumes "length (pi_id p) < 256" and "unat (pi_num_ports p) \<le> length (pi_id p)"
  shows "port_append_all cs p =
    (let n = unat (pi_num_ports p) in
     if n + length cs \<le> length (pi_id p)
     then Some (p\<lparr>pi_num_ports := pi_num_ports p + of_nat (length cs),
                   pi_id := take n (pi_id p) @ cs @ drop (n + length cs) (pi_id p)\<rparr>)
     else None)"
  using assms
proof (induction cs arbitrary: p)
  case (Cons c cs)
  let ?n = "unat (pi_num_ports p)"
  show ?case
  proof (cases "?n < length (pi_id p)")
    case True
    let ?p = "p\<lparr>pi_num_ports := pi_num_ports p + 1, pi_id := (pi_id p)[?n := c]\<rparr>"
    have n: "unat (pi_num_ports p + 1) = Suc ?n" using True Cons.prems(1) by (simp add: unat_word_ariths)
    have u: "take (Suc ?n) ((pi_id p)[?n := c]) = take ?n (pi_id p) @ [c]"
      using True by (simp add: take_Suc_conv_app_nth)
    have "port_append_all (c # cs) p = port_append_all cs ?p" using True by (simp add: port_append_def)
    also have "\<dots> = (if Suc ?n + length cs \<le> length (pi_id p)
        then Some (?p\<lparr>pi_num_ports := pi_num_ports ?p + of_nat (length cs),
                      pi_id := take (Suc ?n) (pi_id ?p) @ cs @ drop (Suc ?n + length cs) (pi_id ?p)\<rparr>) else None)"
      using Cons.IH [of ?p] Cons.prems True n by (simp add: Let_def)
    finally show ?thesis using u by (simp add: Let_def algebra_simps)
  qed (use Cons.prems in \<open>simp add: port_append_def aset_def\<close>)
qed simp

text \<open>The ports of a mask, in ascending order.\<close>
definition mask_ports :: "u8 \<Rightarrow> u64 \<Rightarrow> u8 list" where
  "mask_ports max_ports pm = map of_nat (filter (\<lambda>i. bit pm i \<and> i < unat max_ports) [0..<64])"

lemma portmask_loop_from:
  "c \<le> 64 \<Longrightarrow> portmask_loop max_ports (drop_bit c pm) (of_nat c) p =
     port_append_all (map of_nat (filter (\<lambda>i. bit pm i \<and> i < unat max_ports) [c..<64])) p"
proof (induction "64 - c" arbitrary: c p)
  case 0
  then have c: "c = 64" by simp
  then have "drop_bit c pm = 0" by (auto intro!: bit_word_eqI simp: bit_simps dest: bit_imp_le_length)
  then show ?case using c by (simp add: portmask_loop.simps)
next
  case (Suc k)
  have c: "c < 64" using Suc.hyps(2) by simp
  show ?case
  proof (cases "drop_bit c pm = 0")
    case True
    have "\<not> bit pm i" if "c \<le> i" for i
      using arg_cong [OF True, of "\<lambda>w. bit w (i - c)"] that by (simp add: bit_simps)
    then have "filter (\<lambda>i. bit pm i \<and> i < unat max_ports) [c..<64] = []" by (auto simp: filter_empty_conv)
    then show ?thesis using True by (simp add: portmask_loop.simps)
  next
    case False
    have b: "drop_bit c pm AND 1 \<noteq> 0 \<longleftrightarrow> bit pm c" by (simp add: and_one_eq odd_iff_mod_2_eq_one [symmetric] flip: bit_iff_odd_drop_bit)
    have cm: "max_ports \<le> (of_nat c :: u8) \<longleftrightarrow> \<not> c < unat max_ports" using c by (auto simp: word_le_nat_alt unsigned_of_nat take_bit_nat_eq_self)
    have "portmask_loop max_ports (drop_bit c pm) (of_nat c) p =
        do { p \<leftarrow> (if bit pm c \<and> c < unat max_ports then port_append (of_nat c) p else Some p);
             portmask_loop max_ports (drop_bit (Suc c) pm) (of_nat (Suc c)) p }"
      using False b cm by (subst portmask_loop.simps) (simp add: drop_bit_drop_bit add.commute)
    moreover have "[c..<64] = c # [Suc c..<64]" using c by (simp add: upt_conv_Cons)
    moreover have "portmask_loop max_ports (drop_bit (Suc c) pm) (of_nat (Suc c)) q =
        port_append_all (map of_nat (filter (\<lambda>i. bit pm i \<and> i < unat max_ports) [Suc c..<64])) q" for q
      using Suc.hyps c by (intro Suc.hyps(1)) simp_all
    ultimately show ?thesis by (cases "bit pm c \<and> c < unat max_ports") (auto simp del: of_nat_Suc)
  qed
qed

lemma portmask_loop_ports: "portmask_loop max_ports pm 0 p = port_append_all (mask_ports max_ports pm) p"
  using portmask_loop_from [of 0 max_ports pm p] by (simp add: mask_ports_def)

lemma length_mask_ports: "length (mask_ports max_ports pm) \<le> unat max_ports"
proof -
  have "length (mask_ports max_ports pm) = card (set (filter (\<lambda>i. bit pm i \<and> i < unat max_ports) [0..<64]))"
    by (subst distinct_card) (simp_all add: mask_ports_def)
  also have "\<dots> \<le> card {0..<unat max_ports}" by (rule card_mono) auto
  finally show ?thesis by simp
qed

lemma set_mask_ports: "c \<in> set (mask_ports max_ports pm) \<longleftrightarrow> c < max_ports \<and> unat c < 64 \<and> bit pm (unat c)"
proof
  assume "c \<in> set (mask_ports max_ports pm)"
  then obtain i where "c = of_nat i" "i < 64" "bit pm i" "i < unat max_ports" by (auto simp: mask_ports_def)
  then show "c < max_ports \<and> unat c < 64 \<and> bit pm (unat c)"
    by (simp add: word_less_nat_alt unsigned_of_nat take_bit_nat_eq_self)
next
  assume "c < max_ports \<and> unat c < 64 \<and> bit pm (unat c)"
  then show "c \<in> set (mask_ports max_ports pm)"
    unfolding mask_ports_def set_map by (intro image_eqI [of _ _ "unat c"]) (simp_all add: word_less_nat_alt)
qed

lemma mask_ports_sorted: "sorted_wrt (<) (mask_ports max_ports pm)"
proof -
  let ?l = "filter (\<lambda>i. bit pm i \<and> i < unat max_ports) [0..<64]"
  have "sorted_wrt (<) ?l" by (intro sorted_wrt_filter) simp
  then have "sorted_wrt (\<lambda>i j. (of_nat i :: u8) < of_nat j) ?l"
    by (rule sorted_wrt_mono_rel [rotated]) (auto simp: word_less_nat_alt unsigned_of_nat take_bit_nat_eq_self)
  then show ?thesis by (simp add: mask_ports_def sorted_wrt_map)
qed

text \<open>The table with the ports of a list after those it has.\<close>
definition with_ports :: "u8 list \<Rightarrow> port_info \<Rightarrow> port_info" where
  "with_ports cs p =
     (let n = unat (pi_num_ports p) in
      p\<lparr>pi_num_ports := pi_num_ports p + of_nat (length cs),
        pi_id := take n (pi_id p) @ cs @ drop (n + length cs) (pi_id p)\<rparr>)"

definition port_table_ok :: "port_info \<Rightarrow> bool" where
  "port_table_ok p \<longleftrightarrow> length (pi_id p) = RTE_MAX_ETHPORTS \<and> unat (pi_num_ports p) \<le> RTE_MAX_ETHPORTS"

text \<open>
  A valid mask appends to the table exactly the ports that exist and whose bits are set, each
  once and in ascending order, and returns 0; when the table has not that many free entries the
  loop writes past it. One mask never overflows an empty table of an EAL with at most 32 ports, but
  a second option \<open>-p\<close>, or a table that another process has filled, may.
\<close>
theorem parse_portmask_marks:
  assumes "strtoul16 s = (pm, [])" and "pm \<noteq> 0" and "port_table_ok (arg_ports st)"
  shows "parse_portmask max_ports (Some s) st =
      (if unat (pi_num_ports (arg_ports st)) + length (mask_ports max_ports pm) \<le> RTE_MAX_ETHPORTS
       then Some (0, st\<lparr>arg_ports := with_ports (mask_ports max_ports pm) (arg_ports st)\<rparr>) else None)
    \<and> sorted_wrt (<) (mask_ports max_ports pm)
    \<and> set (mask_ports max_ports pm) = {c. c < max_ports \<and> unat c < 64 \<and> bit pm (unat c)}"
proof -
  have "s \<noteq> []" using assms(1,2) by (auto simp: strtoul16_def)
  moreover have "length (pi_id (arg_ports st)) < 256" using assms(3) by (simp add: port_table_ok_def RTE_MAX_ETHPORTS_def)
  ultimately show ?thesis using assms mask_ports_sorted
    by (auto simp: parse_portmask_def portmask_loop_ports port_append_all_result with_ports_def port_table_ok_def
        Let_def set_mask_ports)
qed

definition no_stats :: tx_stats where
  "no_stats = \<lparr>txs_tx = replicate RTE_MAX_ETHPORTS 0, txs_tx_drop = replicate RTE_MAX_ETHPORTS 0\<rparr>"

text \<open>The table as the primary process clears it.\<close>
definition ports_0 :: port_info where
  "ports_0 = \<lparr>pi_num_ports = 0, pi_id = replicate RTE_MAX_ETHPORTS 0, pi_type = PHY,
     pi_rx_stats = \<lparr>rxs_rx = replicate RTE_MAX_ETHPORTS 0\<rparr>, pi_tx_stats = replicate MAX_CLIENTS no_stats\<rparr>"

definition args_0 :: app_args where
  "args_0 = \<lparr>num_clients = 0, arg_ports = ports_0, server_ip = None, server_port = 0\<rparr>"

lemma port_table_ports_0 [simp]: "port_table_ok ports_0" "pi_num_ports ports_0 = 0"
  by (simp_all add: port_table_ok_def ports_0_def)

lemma strtoul16_5: "strtoul16 ''5'' = (5, [])"
  by (simp add: strtoul16_def is_space_def is_hex_def hex_val_def hex_num_def Let_def)

theorem parse_portmask_marks_witness:
  "parse_portmask 2 (Some ''5'') args_0 = Some (0, args_0\<lparr>arg_ports := with_ports [0] ports_0\<rparr>)
   \<and> parse_portmask 32 (Some ''5'') (args_0\<lparr>arg_ports := ports_0\<lparr>pi_num_ports := 31\<rparr>\<rparr>) = None"
proof -
  have m: "mask_ports 2 5 = [0]" "mask_ports 32 5 = [0, 2]" by code_simp+
  have "port_table_ok (ports_0\<lparr>pi_num_ports := 31\<rparr>)" by (simp add: port_table_ok_def ports_0_def RTE_MAX_ETHPORTS_def)
  then show ?thesis
    using parse_portmask_marks [OF strtoul16_5(1), of args_0 2]
      parse_portmask_marks [OF strtoul16_5(1), of "args_0\<lparr>arg_ports := ports_0\<lparr>pi_num_ports := 31\<rparr>\<rparr>" 32]
    by (simp add: m args_0_def RTE_MAX_ETHPORTS_def)
qed

section \<open>Whole command lines\<close>

lemma parse_num_clients_nat:
  assumes "0 < n" and "n < 2 ^ 64"
  shows "parse_num_clients (Some (show_nat n)) st = (0, st\<lparr>num_clients := of_nat n\<rparr>)"
proof -
  have "(of_nat n :: u64) \<noteq> 0" using assms by (simp add: of_nat_eq_0_iff unat_eq_zero word_of_nat_eq_0_iff nat_dvd_not_less)
  moreover have "(ucast (of_nat n :: u64) :: u8) = of_nat n" by (simp add: unsigned_of_nat word_of_nat_eq_iff)
  ultimately show ?thesis using strtoul10_show_nat [OF assms(2), of "[]"] by (simp add: parse_num_clients_def)
qed

lemma strtok_all_two:
  assumes "CHR '':'' \<notin> set a" and "CHR '':'' \<notin> set b" and "a \<noteq> []" and "b \<noteq> []"
  shows "strtok_all (CHR '':'') (a @ CHR '':'' # b) = [a, b]"
proof -
  have one: "strtok_all (CHR '':'') (CHR '':'' # b) = [b]"
  proof -
    obtain y ys where b: "b = y # ys" "y \<noteq> CHR '':''" using assms(2,4) by (cases b) auto
    have tw: "takeWhile (\<lambda>c. c \<noteq> CHR '':'') ys = ys" and dw: "dropWhile (\<lambda>c. c \<noteq> CHR '':'') ys = []"
      using assms(2) b by (auto simp: takeWhile_eq_all_conv)
    have "strtok_all (CHR '':'') [] = []" by (simp add: strtok_all.simps)
    then have "strtok_all (CHR '':'') (dropWhile (\<lambda>c. c \<noteq> CHR '':'') ys) = []" by (simp only: dw)
    then show ?thesis using b(2) by (subst strtok_all.simps) (simp add: b(1) tw)
  qed
  obtain x xs where a: "a = x # xs" using assms(3) by (cases a) auto
  have x: "\<forall>y\<in>set xs. y \<noteq> CHR '':''" "x \<noteq> CHR '':''" using assms(1) a by auto
  have tw: "takeWhile (\<lambda>c. c \<noteq> CHR '':'') (xs @ CHR '':'' # b) = xs" and
    dw: "dropWhile (\<lambda>c. c \<noteq> CHR '':'') (xs @ CHR '':'' # b) = CHR '':'' # b"
    using x(1) by (induction xs) simp_all
  show ?thesis using x(2) one by (subst strtok_all.simps) (simp add: a tw dw)
qed

lemma colon_not_digit: "CHR '':'' \<notin> set (show_nat n)"
  using show_nat_digits [of n] by (auto simp: is_digit_def)

lemma parse_server_ok:
  assumes "CHR '':'' \<notin> set ip" and "ip \<noteq> []" and "n < 2 ^ 31"
  shows "parse_server (Some (ip @ CHR '':'' # show_nat n)) st = (0, st\<lparr>server_ip := Some ip, server_port := int n\<rparr>)"
  using strtok_all_two [OF assms(1) colon_not_digit assms(2) show_nat_nonempty] assms(3)
  by (simp add: parse_server_def atoi_show_nat)

lemma options_step:
  assumes "c \<in> set ''nps''"
  shows "options_loop m ([CHR ''-'', c] # v # rest) st =
    do { (r, st) \<leftarrow> parse_option m (Opt c v) st; if r \<noteq> 0 then Some (- 1, st) else options_loop m rest st }"
  using assms by (subst options_loop.simps) auto

text \<open>
  C24. The command line \<open>-p MASK -n CLIENTS -s IP:PORT\<close> of a fresh primary process: for a mask
  that names an existing port, 1 to 255 clients and a numeric port the parser returns 0, with
  exactly the ports of the mask in the table, the number of clients and the address as given.
  A larger number of clients is accepted, but cut to 8 bits, unless it is a multiple of 256,
  which is refused.
\<close>
theorem app_args_line:
  assumes "strtoul16 s = (pm, [])" and "mask_ports max_ports pm \<noteq> []" and "unat max_ports \<le> RTE_MAX_ETHPORTS"
    and "port_table_ok (arg_ports st)" and "pi_num_ports (arg_ports st) = 0"
    and "0 < k" and "k < 2 ^ 64" and "CHR '':'' \<notin> set ip" and "ip \<noteq> []" and "n < 2 ^ 31"
  shows "parse_app_args max_ports [''-p'', s, ''-n'', show_nat k, ''-s'', ip @ CHR '':'' # show_nat n] st =
    Some (if 256 dvd k then - 1 else 0,
          st\<lparr>arg_ports := with_ports (mask_ports max_ports pm) (arg_ports st), num_clients := of_nat k,
             server_ip := Some ip, server_port := int n\<rparr>)"
proof -
  let ?l = "mask_ports max_ports pm"
  have pm: "pm \<noteq> 0" using assms(2) by (auto simp: mask_ports_def)
  then have s: "s \<noteq> []" using assms(1) by (auto simp: strtoul16_def)
  have len: "length ?l \<le> RTE_MAX_ETHPORTS" using length_mask_ports assms(3) by (rule le_trans)
  have "parse_portmask max_ports (Some s) st = Some (0, st\<lparr>arg_ports := with_ports ?l (arg_ports st)\<rparr>)"
    using assms(1,4,5) s pm len by (simp add: parse_portmask_def portmask_loop_ports port_append_all_result with_ports_def
        port_table_ok_def RTE_MAX_ETHPORTS_def Let_def)
  moreover have "of_nat (length ?l) \<noteq> (0 :: u8)"
    using len assms(2) by (simp add: RTE_MAX_ETHPORTS_def word_of_nat_eq_0_iff nat_dvd_not_less)
  moreover have "options_loop max_ports [] st' = Some (0, st')" for st' by (simp add: options_loop.simps)
  ultimately show ?thesis
    using parse_num_clients_nat [OF assms(6,7)] parse_server_ok [OF assms(8-10)] assms(5)
    by (simp add: parse_app_args_def options_step parse_option_def with_ports_def Let_def word_of_nat_eq_0_iff)
qed

theorem app_args_line_witness:
  "parse_app_args 2 [''-p'', ''5'', ''-n'', show_nat 257, ''-s'', ''127.0.0.1'' @ CHR '':'' # show_nat 5555] args_0 =
     Some (0, args_0\<lparr>arg_ports := with_ports [0] ports_0, num_clients := 1, server_ip := Some ''127.0.0.1'', server_port := 5555\<rparr>)"
proof -
  have m: "mask_ports 2 5 = [0]" by code_simp
  show ?thesis using app_args_line [OF strtoul16_5, of 2 args_0 257 "''127.0.0.1''" 5555]
    by (simp add: m args_0_def RTE_MAX_ETHPORTS_def)
qed

end
