(* ===== verification/Spp_Burst.thy ===== *)
theory Spp_Burst
  imports Spp_Common
begin

text \<open>
  The inner step of all forwarding loops of the patch panel: receive a burst on one port, send
  it on another, give the packets that were not taken back to their pools. The step is written
  once over the operations it calls; what it needs of them is the contract \<open>data_plane\<close>, which
  says who owns a packet buffer. The consequence is that forwarding neither loses nor duplicates
  a buffer, for one step and for any sequence of them.
\<close>

unbundle bit_operations_syntax

definition MAX_PKT_BURST :: u16 where "MAX_PKT_BURST = 32"

text \<open>\<open>for (buf = nb_tx; buf < nb_rx; buf++) rte_mempool_put(bufs[buf]->pool, bufs[buf])\<close>: \<open>k\<close> buffers from \<open>i\<close> on.\<close>
fun free_unsent :: "('s \<Rightarrow> 'm \<Rightarrow> 's option) \<Rightarrow> 'm list \<Rightarrow> nat \<Rightarrow> nat \<Rightarrow> 's \<Rightarrow> 's option" where
  "free_unsent put bufs 0 i s = Some s"
| "free_unsent put bufs (Suc k) i s =
     do { m \<leftarrow> aget bufs i;
          s \<leftarrow> put s m;
          free_unsent put bufs k (i + 1) s }"

text \<open>The array of buffers starts with whatever is on the stack, here \<open>z\<close>.\<close>
definition burst_move ::
  "('s \<Rightarrow> u8 \<Rightarrow> u16 \<Rightarrow> 'm list \<Rightarrow> u16 \<Rightarrow> (u16 \<times> 'm list \<times> 's) option) \<Rightarrow>
     ('s \<Rightarrow> u8 \<Rightarrow> u16 \<Rightarrow> 'm list \<Rightarrow> u16 \<Rightarrow> (u16 \<times> 's) option) \<Rightarrow>
     ('s \<Rightarrow> 'm \<Rightarrow> 's option) \<Rightarrow> 'm \<Rightarrow> u8 \<Rightarrow> u8 \<Rightarrow> 's \<Rightarrow> 's option" where
  "burst_move rx tx put z in_port out_port s =
     do { (nb_rx, bufs, s) \<leftarrow> rx s in_port 0 (replicate (unat MAX_PKT_BURST) z) MAX_PKT_BURST;
          if nb_rx = 0 then Some s
          else do {
            (nb_tx, s) \<leftarrow> tx s out_port 0 bufs nb_rx;
            if nb_tx < nb_rx then free_unsent put bufs (unat nb_rx - unat nb_tx) (unat nb_tx) s
            else Some s } }"

text \<open>A sequence of steps, each from one port to another.\<close>
fun moves ::
  "('s \<Rightarrow> u8 \<Rightarrow> u16 \<Rightarrow> 'm list \<Rightarrow> u16 \<Rightarrow> (u16 \<times> 'm list \<times> 's) option) \<Rightarrow>
     ('s \<Rightarrow> u8 \<Rightarrow> u16 \<Rightarrow> 'm list \<Rightarrow> u16 \<Rightarrow> (u16 \<times> 's) option) \<Rightarrow>
     ('s \<Rightarrow> 'm \<Rightarrow> 's option) \<Rightarrow> 'm \<Rightarrow> (u8 \<times> u8) list \<Rightarrow> 's \<Rightarrow> 's option" where
  "moves rx tx put z [] s = Some s"
| "moves rx tx put z ((i, j) # ps) s = burst_move rx tx put z i j s \<bind> moves rx tx put z ps"

lemma moves_append: "moves rx tx put z (ps @ qs) s = moves rx tx put z ps s \<bind> moves rx tx put z qs"
  by (induction ps arbitrary: s) (auto simp: bind_assoc fun_eq_iff split: bind_splits)

text \<open>
  \<open>inv s h\<close>: the state is well-formed while the caller owns the buffers \<open>h\<close>. \<open>inside s\<close> are the
  buffers in queues, devices and pools. Receiving hands ownership to the caller, sending takes
  as many buffers as it says and leaves the others, giving back always succeeds.
\<close>
locale data_plane =
  fixes inv :: "'s \<Rightarrow> 'm multiset \<Rightarrow> bool"
    and inside :: "'s \<Rightarrow> 'm multiset"
    and up :: "'s \<Rightarrow> u8 \<Rightarrow> bool"
    and rx :: "'s \<Rightarrow> u8 \<Rightarrow> u16 \<Rightarrow> 'm list \<Rightarrow> u16 \<Rightarrow> (u16 \<times> 'm list \<times> 's) option"
    and tx :: "'s \<Rightarrow> u8 \<Rightarrow> u16 \<Rightarrow> 'm list \<Rightarrow> u16 \<Rightarrow> (u16 \<times> 's) option"
    and put :: "'s \<Rightarrow> 'm \<Rightarrow> 's option"
  assumes rx_law: "\<lbrakk> inv s h; up s p; unat n \<le> length bufs \<rbrakk> \<Longrightarrow>
      \<exists>nb bufs' s'. rx s p 0 bufs n = Some (nb, bufs', s') \<and> unat nb \<le> unat n \<and> length bufs' = length bufs
        \<and> inv s' (h + mset (take (unat nb) bufs')) \<and> inside s' + mset (take (unat nb) bufs') = inside s
        \<and> up s' = up s"
    and tx_law: "\<lbrakk> inv s (h + mset (take (unat n) bufs)); up s p; unat n \<le> length bufs \<rbrakk> \<Longrightarrow>
      \<exists>nb s'. tx s p 0 bufs n = Some (nb, s') \<and> unat nb \<le> unat n
        \<and> inv s' (h + mset (drop (unat nb) (take (unat n) bufs)))
        \<and> inside s' = inside s + mset (take (unat nb) bufs) \<and> up s' = up s"
    and put_law: "inv s (add_mset m h) \<Longrightarrow>
      \<exists>s'. put s m = Some s' \<and> inv s' h \<and> inside s' = add_mset m (inside s) \<and> up s' = up s"
begin

lemma free_unsent_ok:
  assumes "inv s (h + mset (take k (drop i bufs)))" and "i + k \<le> length bufs"
  shows "\<exists>s'. free_unsent put bufs k i s = Some s' \<and> inv s' h
    \<and> inside s' = inside s + mset (take k (drop i bufs)) \<and> up s' = up s"
  using assms
proof (induction k arbitrary: i s)
  case (Suc k)
  let ?m = "bufs ! i" and ?rest = "take k (drop (i + 1) bufs)"
  have split: "take (Suc k) (drop i bufs) = ?m # ?rest"
    using Suc.prems(2) by (simp add: Cons_nth_drop_Suc [symmetric])
  have "inv s (add_mset ?m (h + mset ?rest))" using Suc.prems(1) by (simp add: split)
  from put_law [OF this] obtain s1 where 1: "put s ?m = Some s1" "inv s1 (h + mset ?rest)"
    "inside s1 = add_mset ?m (inside s)" "up s1 = up s" by blast
  obtain s2 where "free_unsent put bufs k (i + 1) s1 = Some s2" "inv s2 h"
    "inside s2 = inside s1 + mset ?rest" "up s2 = up s1"
    using Suc.IH [OF 1(2)] Suc.prems(2) by auto
  then show ?case using 1 Suc.prems(2) by (simp add: split)
qed simp

lemma burst_move_conserves:
  assumes "inv s h" and "up s i" and "up s j"
  shows "\<exists>s'. burst_move rx tx put z i j s = Some s' \<and> inv s' h \<and> inside s' = inside s \<and> up s' = up s"
proof -
  let ?b = "replicate (unat MAX_PKT_BURST) z"
  obtain nb bufs s1 where 1: "rx s i 0 ?b MAX_PKT_BURST = Some (nb, bufs, s1)" "unat nb \<le> unat MAX_PKT_BURST"
    "length bufs = unat MAX_PKT_BURST" "inv s1 (h + mset (take (unat nb) bufs))"
    "inside s1 + mset (take (unat nb) bufs) = inside s" "up s1 = up s"
    using rx_law [OF assms(1,2), of MAX_PKT_BURST ?b] by auto
  show ?thesis
  proof (cases "nb = 0")
    case True
    then show ?thesis using 1 by (simp add: burst_move_def)
  next
    case False
    obtain k s2 where 2: "tx s1 j 0 bufs nb = Some (k, s2)" "unat k \<le> unat nb"
      "inv s2 (h + mset (drop (unat k) (take (unat nb) bufs)))"
      "inside s2 = inside s1 + mset (take (unat k) bufs)" "up s2 = up s1"
      using tx_law [OF 1(4), of j] assms(3) 1 by auto
    have dt: "drop (unat k) (take (unat nb) bufs) = take (unat nb - unat k) (drop (unat k) bufs)"
      by (simp add: drop_take)
    have "take (unat nb) bufs = take (unat k) bufs @ take (unat nb - unat k) (drop (unat k) bufs)"
      using 2(2) by (metis le_add_diff_inverse take_add)
    then have all: "inside s2 + mset (take (unat nb - unat k) (drop (unat k) bufs)) = inside s"
      using 1(5) 2(4) by (metis mset_append union_assoc)
    have "inv s2 (h + mset (take (unat nb - unat k) (drop (unat k) bufs)))" using 2(3) by (simp only: dt)
    then obtain s3 where 3: "free_unsent put bufs (unat nb - unat k) (unat k) s2 = Some s3" "inv s3 h"
      "inside s3 = inside s" "up s3 = up s"
      using free_unsent_ok [of s2 h "unat nb - unat k" "unat k" bufs] 1 2 all by auto
    show ?thesis
    proof (cases "k < nb")
      case False
      then have "unat nb - unat k = 0" by (simp add: word_less_nat_alt)
      then show ?thesis using 1 2 3 False \<open>nb \<noteq> 0\<close> by (simp add: burst_move_def)
    qed (use 1 2 3 \<open>nb \<noteq> 0\<close> in \<open>simp add: burst_move_def\<close>)
  qed
qed

lemma moves_conserve:
  assumes "inv s h" and "list_all (\<lambda>(i, j). up s i \<and> up s j) ps"
  shows "\<exists>s'. moves rx tx put z ps s = Some s' \<and> inv s' h \<and> inside s' = inside s \<and> up s' = up s"
  using assms
proof (induction ps arbitrary: s)
  case (Cons p ps)
  obtain i j where p: "p = (i, j)" by (cases p)
  obtain s1 where 1: "burst_move rx tx put z i j s = Some s1" "inv s1 h" "inside s1 = inside s" "up s1 = up s"
    using burst_move_conserves [OF Cons.prems(1), of i j z] Cons.prems(2) p by auto
  have "list_all (\<lambda>(i, j). up s1 i \<and> up s1 j) ps" using Cons.prems(2) 1(4) by simp
  from Cons.IH [OF 1(2) this] show ?case using 1 p by auto
qed simp

end

end
