(* ===== verification/Object_Pool.thy ===== *)
theory Object_Pool
  imports Spp_Prelude
begin

text \<open>
  The contract of an object pool shared by several cores: a get hands out objects that are in
  the pool or fails without an effect, a put takes objects back and succeeds as long as the pool
  is not asked to hold more than its size. The consequence for a whole run, in which callers
  give back only what they hold, is proved once: no object is lost, duplicated or made up.
\<close>

datatype 'a pool_op = Get nat nat | Put nat "'a list"

text \<open>
  A run by cores that hold \<open>out\<close>: a get that succeeds adds to it, a put of something that is
  not held is not an operation of a correct caller and stops the run (\<^term>\<open>None\<close> inside),
  and an operation of the pool that fails to return is \<^term>\<open>None\<close> outside.
\<close>
fun run_pool ::
  "(nat \<Rightarrow> 'p \<Rightarrow> nat \<Rightarrow> ('a list option \<times> 'p) option) \<Rightarrow> (nat \<Rightarrow> 'p \<Rightarrow> 'a list \<Rightarrow> 'p option) \<Rightarrow>
     'p \<Rightarrow> 'a multiset \<Rightarrow> 'a pool_op list \<Rightarrow> ('p \<times> 'a multiset) option option" where
  "run_pool get put p out [] = Some (Some (p, out))"
| "run_pool get put p out (Get core n # ops) =
     do { (xs, p) \<leftarrow> get core p n;
          run_pool get put p (out + (case xs of None \<Rightarrow> {#} | Some xs \<Rightarrow> mset xs)) ops }"
| "run_pool get put p out (Put core xs # ops) =
     (if mset xs \<subseteq># out
      then do { p \<leftarrow> put core p xs; run_pool get put p (out - mset xs) ops }
      else Some None)"

fun pool_op_fits :: "nat \<Rightarrow> 'a pool_op \<Rightarrow> bool" where
  "pool_op_fits burst (Get core n) \<longleftrightarrow> n \<le> burst"
| "pool_op_fits burst (Put core xs) \<longleftrightarrow> length xs \<le> burst"

locale object_pool =
  fixes inv :: "'p \<Rightarrow> bool"
    and held :: "'p \<Rightarrow> 'a multiset"
    and cap :: "'p \<Rightarrow> nat"
    and burst :: nat
    and get :: "nat \<Rightarrow> 'p \<Rightarrow> nat \<Rightarrow> ('a list option \<times> 'p) option"
    and put :: "nat \<Rightarrow> 'p \<Rightarrow> 'a list \<Rightarrow> 'p option"
  assumes get_law: "\<lbrakk> inv p; n \<le> burst \<rbrakk> \<Longrightarrow>
      \<exists>xs p'. get core p n = Some (xs, p') \<and> inv p' \<and> cap p' = cap p
        \<and> (case xs of None \<Rightarrow> held p' = held p | Some xs \<Rightarrow> length xs = n \<and> held p = held p' + mset xs)"
    and put_law: "\<lbrakk> inv p; length xs \<le> burst; size (held p) + length xs \<le> cap p \<rbrakk> \<Longrightarrow>
      \<exists>p'. put core p xs = Some p' \<and> inv p' \<and> cap p' = cap p \<and> held p' = held p + mset xs"
begin

lemma run_conserves:
  assumes "inv p" and "list_all (pool_op_fits burst) ops" and "size (held p) + size out \<le> cap p"
  shows "\<exists>res. run_pool get put p out ops = Some res
    \<and> (case res of None \<Rightarrow> True
       | Some (p', out') \<Rightarrow> inv p' \<and> cap p' = cap p \<and> held p' + out' = held p + out)"
  using assms
proof (induction ops arbitrary: p out)
  case Nil
  then show ?case by simp
next
  case (Cons x ops)
  show ?case
  proof (cases x)
    case (Get core n)
    obtain xs p1 where g: "get core p n = Some (xs, p1)" "inv p1" "cap p1 = cap p"
      and xs: "case xs of None \<Rightarrow> held p1 = held p | Some xs \<Rightarrow> length xs = n \<and> held p = held p1 + mset xs"
      using get_law [OF Cons.prems(1), of n core] Cons.prems(2) Get by auto
    let ?o = "out + (case xs of None \<Rightarrow> {#} | Some xs \<Rightarrow> mset xs)"
    have same: "held p1 + ?o = held p + out" using xs by (auto split: option.splits)
    then have "size (held p1) + size ?o \<le> cap p1" using Cons.prems(3) g(3) by (metis size_union)
    then show ?thesis using Cons.IH [OF g(2), of ?o] Cons.prems(2) g(1) unfolding same g(3) Get by simp
  next
    case (Put core xs)
    show ?thesis
    proof (cases "mset xs \<subseteq># out")
      case True
      then have le: "length xs \<le> size out" by (metis size_mset size_mset_mono)
      obtain p1 where g: "put core p xs = Some p1" "inv p1" "cap p1 = cap p" "held p1 = held p + mset xs"
        using put_law [OF Cons.prems(1), of xs core] Cons.prems(2,3) Put le by auto
      have same: "held p1 + (out - mset xs) = held p + out" using True g(4) by simp
      then have "size (held p1) + size (out - mset xs) \<le> cap p1"
        using Cons.prems(3) g(3) by (metis size_union)
      then show ?thesis
        using Cons.IH [OF g(2), of "out - mset xs"] Cons.prems(2) g(1) True unfolding same g(3) Put by simp
    qed (simp add: Put)
  qed
qed

end

end
