(* ===== verification/Rte_Mempool.thy ===== *)
theory Rte_Mempool
  imports Rte_Ring_Registry Object_Pool
begin

text \<open>
  The object pool of \<open>lib/librte_mempool\<close>: the per-core caches in front of the common ring,
  putting and getting objects, the counters, and the computation of object sizes and of the
  layout of the objects in pages. Then the invariant of a pool and the conservation of objects:
  a pool whose ring is large enough never loses and never duplicates an object, whatever the
  sequence of calls and the cores that make them.
\<close>

unbundle bit_operations_syntax

section \<open>Data (rte_mempool.h)\<close>

definition RTE_MEMPOOL_CACHE_MAX_SIZE :: u32 where "RTE_MEMPOOL_CACHE_MAX_SIZE = 512"
definition RTE_MEMPOOL_NAMESIZE :: nat where "RTE_MEMPOOL_NAMESIZE = 32"
definition RTE_MAX_LCORE :: nat where "RTE_MAX_LCORE = 128"
definition RTE_MEMPOOL_ALIGN :: u32 where "RTE_MEMPOOL_ALIGN = 64"
definition RTE_MEMPOOL_ALIGN_MASK :: u32 where "RTE_MEMPOOL_ALIGN_MASK = RTE_MEMPOOL_ALIGN - 1"

definition MEMPOOL_F_NO_SPREAD :: u32 where "MEMPOOL_F_NO_SPREAD = 1"
definition MEMPOOL_F_NO_CACHE_ALIGN :: u32 where "MEMPOOL_F_NO_CACHE_ALIGN = 2"
definition MEMPOOL_F_SP_PUT :: u32 where "MEMPOOL_F_SP_PUT = 4"
definition MEMPOOL_F_SC_GET :: u32 where "MEMPOOL_F_SC_GET = 8"

record 'a rte_mempool_cache =
  cache_len :: u32
  cache_objs :: "'a list"

record rte_mempool_objsz =
  sz_elt_size :: u32
  sz_header_size :: u32
  sz_trailer_size :: u32
  sz_total_size :: u32

text \<open>The pool owns its ring, which stands here in place of the pointer to it.\<close>
record 'a rte_mempool =
  mp_name :: string
  mp_ring :: "'a rte_ring"
  mp_flags :: u32
  mp_size :: u32
  mp_cache_size :: u32
  mp_cache_flushthresh :: u32
  mp_elt_size :: u32
  mp_header_size :: u32
  mp_trailer_size :: u32
  mp_private_data_size :: u32
  mp_local_cache :: "'a rte_mempool_cache list"

section \<open>Putting objects back\<close>

text \<open>\<open>cache_objs[index] = *obj_table\<close> for \<open>n\<close> indexes from \<open>index\<close> on; \<open>base\<close> is the old length.\<close>
primrec cache_fill :: "nat \<Rightarrow> nat \<Rightarrow> 'a list \<Rightarrow> nat \<Rightarrow> 'a list \<Rightarrow> 'a list option" where
  "cache_fill 0 index obj_table base objs = Some objs"
| "cache_fill (Suc n) index obj_table base objs =
     do { x \<leftarrow> aget obj_table index;
          objs \<leftarrow> aset objs (base + index) x;
          cache_fill n (Suc index) obj_table base objs }"

definition put_ring_enqueue ::
  "'a rte_mempool \<Rightarrow> 'a list \<Rightarrow> u32 \<Rightarrow> bool \<Rightarrow> 'a rte_mempool option" where
  "put_ring_enqueue mp obj_table n is_mp =
     do { (_, r) \<leftarrow> (if is_mp then rte_ring_mp_enqueue_bulk (mp_ring mp) obj_table n
                     else rte_ring_sp_enqueue_bulk (mp_ring mp) obj_table n);
          Some (mp\<lparr>mp_ring := r\<rparr>) }"

definition mempool_put_bulk ::
  "nat \<Rightarrow> 'a rte_mempool \<Rightarrow> 'a list \<Rightarrow> u32 \<Rightarrow> bool \<Rightarrow> 'a rte_mempool option" where
  "mempool_put_bulk lcore_id mp obj_table n is_mp =
     (let cs = mp_cache_size mp
      in if cs = 0 \<or> \<not> is_mp \<or> lcore_id \<ge> RTE_MAX_LCORE then put_ring_enqueue mp obj_table n is_mp
         else if n > RTE_MEMPOOL_CACHE_MAX_SIZE then put_ring_enqueue mp obj_table n is_mp
         else do {
           c \<leftarrow> aget (mp_local_cache mp) lcore_id;
           objs \<leftarrow> cache_fill (unat n) 0 obj_table (unat (cache_len c)) (cache_objs c);
           let len = cache_len c + n;
           if len \<ge> mp_cache_flushthresh mp
           then do {
             (_, r) \<leftarrow> rte_ring_mp_enqueue_bulk (mp_ring mp) (drop (unat cs) objs) (len - cs);
             Some (mp\<lparr>mp_ring := r,
                      mp_local_cache := (mp_local_cache mp)[lcore_id := \<lparr>cache_len = cs, cache_objs = objs\<rparr>]\<rparr>) }
           else Some (mp\<lparr>mp_local_cache :=
                  (mp_local_cache mp)[lcore_id := \<lparr>cache_len = len, cache_objs = objs\<rparr>]\<rparr>) })"

definition rte_mempool_mp_put_bulk where
  "rte_mempool_mp_put_bulk lcore_id mp obj_table n = mempool_put_bulk lcore_id mp obj_table n True"

definition rte_mempool_sp_put_bulk where
  "rte_mempool_sp_put_bulk lcore_id mp obj_table n = mempool_put_bulk lcore_id mp obj_table n False"

definition rte_mempool_put_bulk where
  "rte_mempool_put_bulk lcore_id mp obj_table n =
     mempool_put_bulk lcore_id mp obj_table n (mp_flags mp AND MEMPOOL_F_SP_PUT = 0)"

definition rte_mempool_mp_put where
  "rte_mempool_mp_put lcore_id mp obj = rte_mempool_mp_put_bulk lcore_id mp [obj] 1"

definition rte_mempool_sp_put where
  "rte_mempool_sp_put lcore_id mp obj = rte_mempool_sp_put_bulk lcore_id mp [obj] 1"

definition rte_mempool_put where
  "rte_mempool_put lcore_id mp obj = rte_mempool_put_bulk lcore_id mp [obj] 1"

section \<open>Getting objects\<close>

text \<open>\<open>*obj_table = cache_objs[len]\<close>, \<open>n\<close> times, with \<open>len\<close> going down as an unsigned number.\<close>
primrec cache_drain :: "nat \<Rightarrow> nat \<Rightarrow> u32 \<Rightarrow> 'a list \<Rightarrow> 'a list \<Rightarrow> 'a list option" where
  "cache_drain 0 index len objs obj_table = Some obj_table"
| "cache_drain (Suc n) index len objs obj_table =
     do { x \<leftarrow> aget objs (unat len);
          obj_table \<leftarrow> aset obj_table index x;
          cache_drain n (Suc index) (len - 1) objs obj_table }"

definition get_ring_dequeue ::
  "'a rte_mempool \<Rightarrow> 'a list \<Rightarrow> u32 \<Rightarrow> bool \<Rightarrow> (int \<times> 'a list \<times> 'a rte_mempool) option" where
  "get_ring_dequeue mp obj_table n is_mc =
     do { (ret, tab, r) \<leftarrow> (if is_mc then rte_ring_mc_dequeue_bulk (mp_ring mp) obj_table n
                            else rte_ring_sc_dequeue_bulk (mp_ring mp) obj_table n);
          Some (ret, tab, mp\<lparr>mp_ring := r\<rparr>) }"

text \<open>The response out of the cache, and the new length.\<close>
definition get_from_cache ::
  "nat \<Rightarrow> 'a rte_mempool \<Rightarrow> u32 \<Rightarrow> 'a list \<Rightarrow> 'a list \<Rightarrow> u32 \<Rightarrow> (int \<times> 'a list \<times> 'a rte_mempool) option" where
  "get_from_cache lcore_id mp len objs obj_table n =
     do { tab \<leftarrow> cache_drain (unat n) 0 (len - 1) objs obj_table;
          Some (0, tab, mp\<lparr>mp_local_cache :=
            (mp_local_cache mp)[lcore_id := \<lparr>cache_len = len - n, cache_objs = objs\<rparr>]\<rparr>) }"

text \<open>
  The table handed to the backfill is the part of the cache array from the current length on;
  a length beyond the array would be a pointer outside it.
\<close>
definition mempool_get_bulk ::
  "nat \<Rightarrow> 'a rte_mempool \<Rightarrow> 'a list \<Rightarrow> u32 \<Rightarrow> bool \<Rightarrow> (int \<times> 'a list \<times> 'a rte_mempool) option" where
  "mempool_get_bulk lcore_id mp obj_table n is_mc =
     (let cs = mp_cache_size mp
      in if cs = 0 \<or> \<not> is_mc \<or> n \<ge> cs \<or> lcore_id \<ge> RTE_MAX_LCORE
         then get_ring_dequeue mp obj_table n is_mc
         else do {
           c \<leftarrow> aget (mp_local_cache mp) lcore_id;
           let len = cache_len c; objs = cache_objs c in
           if len < n then
             let req = n + (cs - len) in
             if unat len > length objs then None
             else do {
               (ret, tab, r) \<leftarrow> rte_ring_mc_dequeue_bulk (mp_ring mp) (drop (unat len) objs) req;
               let objs = take (unat len) objs @ tab;
               let mp = mp\<lparr>mp_ring := r,
                     mp_local_cache := (mp_local_cache mp)[lcore_id := \<lparr>cache_len = len, cache_objs = objs\<rparr>]\<rparr>;
               if ret < 0 then get_ring_dequeue mp obj_table n is_mc
               else get_from_cache lcore_id mp (len + req) objs obj_table n }
           else get_from_cache lcore_id mp len objs obj_table n })"

definition rte_mempool_mc_get_bulk where
  "rte_mempool_mc_get_bulk lcore_id mp obj_table n = mempool_get_bulk lcore_id mp obj_table n True"

definition rte_mempool_sc_get_bulk where
  "rte_mempool_sc_get_bulk lcore_id mp obj_table n = mempool_get_bulk lcore_id mp obj_table n False"

definition rte_mempool_get_bulk where
  "rte_mempool_get_bulk lcore_id mp obj_table n =
     mempool_get_bulk lcore_id mp obj_table n (mp_flags mp AND MEMPOOL_F_SC_GET = 0)"

definition rte_mempool_mc_get where
  "rte_mempool_mc_get lcore_id mp obj = rte_mempool_mc_get_bulk lcore_id mp [obj] 1"

definition rte_mempool_sc_get where
  "rte_mempool_sc_get lcore_id mp obj = rte_mempool_sc_get_bulk lcore_id mp [obj] 1"

definition rte_mempool_get where
  "rte_mempool_get lcore_id mp obj = rte_mempool_get_bulk lcore_id mp [obj] 1"

section \<open>Counters and consistency check\<close>

definition rte_mempool_count :: "'a rte_mempool \<Rightarrow> u32" where
  "rte_mempool_count mp =
     (let cnt = rte_ring_count (mp_ring mp)
      in if mp_cache_size mp = 0 then cnt
         else let cnt = fold (\<lambda>c cnt. cnt + cache_len c) (mp_local_cache mp) cnt
              in if cnt > mp_size mp then mp_size mp else cnt)"

definition rte_mempool_free_count :: "'a rte_mempool \<Rightarrow> u32" where
  "rte_mempool_free_count mp = mp_size mp - rte_mempool_count mp"

definition rte_mempool_full :: "'a rte_mempool \<Rightarrow> bool" where
  "rte_mempool_full mp \<longleftrightarrow> rte_mempool_count mp = mp_size mp"

definition rte_mempool_empty :: "'a rte_mempool \<Rightarrow> bool" where
  "rte_mempool_empty mp \<longleftrightarrow> rte_mempool_count mp = 0"

text \<open>False is \<open>rte_panic\<close>.\<close>
definition mempool_audit_cache :: "'a rte_mempool \<Rightarrow> bool" where
  "mempool_audit_cache mp \<longleftrightarrow> list_all (\<lambda>c. \<not> cache_len c > mp_cache_flushthresh mp) (mp_local_cache mp)"

definition rte_mempool_audit :: "'a rte_mempool \<Rightarrow> bool" where
  "rte_mempool_audit mp \<longleftrightarrow> mempool_audit_cache mp"

section \<open>The array loops\<close>

lemma cache_fill_eq:
  assumes "index + n \<le> length tab" and "base + index + n \<le> length objs"
  shows "cache_fill n index tab base objs =
    Some (take (base + index) objs @ take n (drop index tab) @ drop (base + index + n) objs)"
  using assms
proof (induction n arbitrary: index objs)
  case (Suc n)
  let ?o = "objs[base + index := tab ! index]"
  have i: "index < length tab" "base + index < length objs" using Suc.prems by simp_all
  have "cache_fill n (Suc index) tab base ?o =
      Some (take (base + Suc index) ?o @ take n (drop (Suc index) tab) @ drop (base + Suc index + n) ?o)"
    using Suc.prems by (intro Suc.IH) simp_all
  moreover have "take (Suc (base + index)) ?o = take (base + index) objs @ [tab ! index]"
    using i(2) by (simp add: take_Suc_conv_app_nth)
  moreover have "take (Suc n) (drop index tab) = tab ! index # take n (drop (Suc index) tab)"
    using i(1) by (metis Cons_nth_drop_Suc take_Suc_Cons)
  ultimately show ?case using i by simp
qed simp

lemma cache_drain_eq:
  assumes "n \<le> L" and "L \<le> length objs" and "L < 2 ^ 32" and "index + n \<le> length tab"
  shows "cache_drain n index (of_nat L - 1) objs tab =
    Some (take index tab @ rev (drop (L - n) (take L objs)) @ drop (index + n) tab)"
  using assms
proof (induction n arbitrary: index L tab)
  case (Suc n)
  then obtain K where L: "L = Suc K" by (cases L) simp_all
  have K: "(of_nat L - 1 :: u32) = of_nat K" "unat (of_nat K :: u32) = K"
    using Suc.prems by (simp_all add: L unat_of_nat)
  let ?t = "tab[index := objs ! K]"
  have "cache_drain n (Suc index) (of_nat K - 1) objs ?t =
      Some (take (Suc index) ?t @ rev (drop (K - n) (take K objs)) @ drop (Suc index + n) ?t)"
    using Suc.prems by (intro Suc.IH) (simp_all add: L)
  moreover have "take (Suc index) ?t = take index tab @ [objs ! K]"
    using Suc.prems by (simp add: take_Suc_conv_app_nth)
  moreover have "rev (drop (L - Suc n) (take L objs)) = objs ! K # rev (drop (K - n) (take K objs))"
    using Suc.prems by (simp add: L take_Suc_conv_app_nth)
  ultimately show ?case using Suc.prems K by (simp add: L)
qed simp

lemma sum_list_update_add:
  fixes f :: "'b \<Rightarrow> 'c::comm_monoid_add"
  assumes "i < length xs"
  shows "sum_list (map f (xs[i := x])) + f (xs ! i) = sum_list (map f xs) + f x"
  using assms
proof (induction xs arbitrary: i)
  case (Cons y ys)
  then show ?case by (cases i) (auto simp: ac_simps)
qed simp

section \<open>The invariant of a pool\<close>

definition cache_ok :: "u32 \<Rightarrow> 'a rte_mempool_cache \<Rightarrow> bool" where
  "cache_ok ft c \<longleftrightarrow> length (cache_objs c) = 3 * unat RTE_MEMPOOL_CACHE_MAX_SIZE \<and> cache_len c \<le> ft"

text \<open>The ring can hold every object of the pool, and no cache is beyond its threshold.\<close>
definition pool_inv :: "'a rte_mempool \<Rightarrow> bool" where
  "pool_inv mp \<longleftrightarrow> ring_inv (mp_ring mp)
     \<and> length (mp_local_cache mp) = RTE_MAX_LCORE
     \<and> list_all (cache_ok (mp_cache_flushthresh mp)) (mp_local_cache mp)
     \<and> mp_cache_size mp \<le> RTE_MEMPOOL_CACHE_MAX_SIZE
     \<and> unat (mp_cache_flushthresh mp) = unat (mp_cache_size mp) * 3 div 2
     \<and> unat (mp_size mp) \<le> ring_cap (mp_ring mp)"

definition cache_held :: "'a rte_mempool_cache \<Rightarrow> 'a multiset" where
  "cache_held c = mset (take (unat (cache_len c)) (cache_objs c))"

text \<open>The objects in the pool: those in the ring and those in the caches.\<close>
definition pool_mset :: "'a rte_mempool \<Rightarrow> 'a multiset" where
  "pool_mset mp = mset (ring_list (mp_ring mp)) + sum_list (map cache_held (mp_local_cache mp))"

lemma pool_inv_bounds:
  assumes "pool_inv mp"
  shows "unat (mp_cache_size mp) \<le> 512" and "unat (mp_cache_flushthresh mp) \<le> 768"
    and "unat (mp_cache_size mp) \<le> unat (mp_cache_flushthresh mp)"
proof -
  show b: "unat (mp_cache_size mp) \<le> 512"
    using assms by (simp add: pool_inv_def word_le_nat_alt RTE_MEMPOOL_CACHE_MAX_SIZE_def)
  have ft: "unat (mp_cache_flushthresh mp) = unat (mp_cache_size mp) * 3 div 2"
    using assms by (simp add: pool_inv_def)
  show "unat (mp_cache_flushthresh mp) \<le> 768" using b by (simp add: ft)
  show "unat (mp_cache_size mp) \<le> unat (mp_cache_flushthresh mp)" by (simp add: ft)
qed

lemma pool_inv_cache:
  assumes "pool_inv mp" and "lcore < RTE_MAX_LCORE"
  shows "lcore < length (mp_local_cache mp)"
    and "length (cache_objs (mp_local_cache mp ! lcore)) = 1536"
    and "unat (cache_len (mp_local_cache mp ! lcore)) \<le> unat (mp_cache_flushthresh mp)"
    and "unat (cache_len (mp_local_cache mp ! lcore)) \<le> 768"
proof -
  show l: "lcore < length (mp_local_cache mp)" using assms by (simp add: pool_inv_def)
  then have "cache_ok (mp_cache_flushthresh mp) (mp_local_cache mp ! lcore)"
    using assms by (simp add: pool_inv_def list_all_length)
  then show "length (cache_objs (mp_local_cache mp ! lcore)) = 1536"
    "unat (cache_len (mp_local_cache mp ! lcore)) \<le> unat (mp_cache_flushthresh mp)"
    by (simp_all add: cache_ok_def RTE_MEMPOOL_CACHE_MAX_SIZE_def word_le_nat_alt)
  then show "unat (cache_len (mp_local_cache mp ! lcore)) \<le> 768"
    using pool_inv_bounds(2) [OF assms(1)] by simp
qed

text \<open>Replacing the ring and one cache.\<close>

lemma pool_inv_update:
  assumes inv: "pool_inv mp" and "ring_inv r" and "ring_cap r = ring_cap (mp_ring mp)"
    and "cache_ok (mp_cache_flushthresh mp) c"
  shows "pool_inv (mp\<lparr>mp_ring := r, mp_local_cache := (mp_local_cache mp)[lcore := c]\<rparr>)"
  using assms by (simp add: pool_inv_def list_all_update)

lemma pool_inv_ring:
  assumes "pool_inv mp" and "ring_inv r" and "ring_cap r = ring_cap (mp_ring mp)"
  shows "pool_inv (mp\<lparr>mp_ring := r\<rparr>)"
  using assms by (simp add: pool_inv_def)

lemma pool_mset_update:
  assumes "lcore < length (mp_local_cache mp)"
    and "mset (ring_list r) + cache_held c + A =
         mset (ring_list (mp_ring mp)) + cache_held (mp_local_cache mp ! lcore) + B"
  shows "pool_mset (mp\<lparr>mp_ring := r, mp_local_cache := (mp_local_cache mp)[lcore := c]\<rparr>) + A
    = pool_mset mp + B"
proof -
  let ?S = "\<lambda>cs. sum_list (map cache_held cs)" and ?old = "cache_held (mp_local_cache mp ! lcore)"
  have "?S ((mp_local_cache mp)[lcore := c]) + ?old = ?S (mp_local_cache mp) + cache_held c"
    by (rule sum_list_update_add [OF assms(1)])
  then have "mset (ring_list r) + A + (?S ((mp_local_cache mp)[lcore := c]) + ?old) =
      ?S (mp_local_cache mp) + (mset (ring_list r) + cache_held c + A)" by (simp add: ac_simps)
  also have "\<dots> = ?S (mp_local_cache mp) + (mset (ring_list (mp_ring mp)) + ?old + B)"
    using assms(2) by simp
  finally have "mset (ring_list r) + ?S ((mp_local_cache mp)[lcore := c]) + A + ?old =
      mset (ring_list (mp_ring mp)) + ?S (mp_local_cache mp) + B + ?old" by (simp add: ac_simps)
  then show ?thesis by (simp add: pool_mset_def)
qed

lemma subset_sum_list: "i < length xs \<Longrightarrow> f (xs ! i) \<subseteq># (sum_list (map f xs) :: 'b multiset)"
proof (induction xs arbitrary: i)
  case (Cons y ys)
  then show ?case by (cases i) (auto intro: subset_mset.trans [OF Cons.IH])
qed simp

lemma pool_mset_cache_le: "i < length (mp_local_cache mp) \<Longrightarrow>
    mset (ring_list (mp_ring mp)) + cache_held (mp_local_cache mp ! i) \<subseteq># pool_mset mp"
  by (simp add: pool_mset_def subset_sum_list)

section \<open>Conservation\<close>

lemma enq_room:
  assumes "ring_inv r" and "unat n \<le> length obj" and "unat n \<le> ring_free_n r"
  shows "\<exists>ret r'. rte_ring_mp_enqueue_bulk r obj n = Some (ret, r')
    \<and> rte_ring_sp_enqueue_bulk r obj n = Some (ret, r')
    \<and> ring_inv r' \<and> ring_cap r' = ring_cap r \<and> ring_list r' = ring_list r @ take (unat n) obj"
  using enq_fixed_result [OF assms(1,2)] assms(3)
  by (auto simp: rte_ring_mp_enqueue_bulk_def rte_ring_sp_enqueue_bulk_def mp_enqueue_eq_sp [OF assms(1)])

lemma deq_bulk:
  assumes "ring_inv r" and "unat n \<le> length tab"
  shows "\<exists>ret tab' r'. rte_ring_mc_dequeue_bulk r tab n = Some (ret, tab', r')
    \<and> rte_ring_sc_dequeue_bulk r tab n = Some (ret, tab', r')
    \<and> (if unat n \<le> length (ring_list r)
       then ret = 0 \<and> ring_inv r' \<and> ring_cap r' = ring_cap r
         \<and> tab' = take (unat n) (ring_list r) @ drop (unat n) tab \<and> ring_list r' = drop (unat n) (ring_list r)
       else ret = - ENOENT \<and> tab' = tab \<and> r' = r)"
  using deq_fixed_result [OF assms]
  unfolding rte_ring_mc_dequeue_bulk_def rte_ring_sc_dequeue_bulk_def mc_dequeue_eq_sc [OF assms(1)]
  by fastforce

text \<open>Everything but the ring and the caches stays as it was.\<close>
definition pool_frame :: "'a rte_mempool \<Rightarrow> 'a rte_mempool \<Rightarrow> bool" where
  "pool_frame mp mp' \<longleftrightarrow> (\<exists>r cs. mp' = mp\<lparr>mp_ring := r, mp_local_cache := cs\<rparr>)"

lemma pool_frameI [intro]:
  "pool_frame mp (mp\<lparr>mp_ring := r, mp_local_cache := cs\<rparr>)" "pool_frame mp (mp\<lparr>mp_ring := r\<rparr>)"
  "pool_frame mp (mp\<lparr>mp_local_cache := cs\<rparr>)"
proof -
  have "mp\<lparr>mp_ring := r\<rparr> = mp\<lparr>mp_ring := r, mp_local_cache := mp_local_cache mp\<rparr>"
    and "mp\<lparr>mp_local_cache := cs\<rparr> = mp\<lparr>mp_ring := mp_ring mp, mp_local_cache := cs\<rparr>" by simp_all
  then show "pool_frame mp (mp\<lparr>mp_ring := r, mp_local_cache := cs\<rparr>)" "pool_frame mp (mp\<lparr>mp_ring := r\<rparr>)"
    "pool_frame mp (mp\<lparr>mp_local_cache := cs\<rparr>)"
    unfolding pool_frame_def by blast+
qed

lemma pool_frame_refl [simp]: "pool_frame mp mp"
  using pool_frameI(2) [of mp "mp_ring mp"] by simp

lemma pool_frame_fields:
  "pool_frame mp mp' \<Longrightarrow> mp_size mp' = mp_size mp \<and> mp_flags mp' = mp_flags mp
     \<and> mp_cache_size mp' = mp_cache_size mp \<and> mp_name mp' = mp_name mp"
  by (auto simp: pool_frame_def)

lemma put_ring_result:
  assumes inv: "pool_inv mp" and "unat n \<le> length tab"
    and room: "size (pool_mset mp) + unat n \<le> unat (mp_size mp)"
  shows "\<exists>mp'. put_ring_enqueue mp tab n is_mp = Some mp' \<and> pool_inv mp' \<and> pool_frame mp mp'
    \<and> pool_mset mp' = pool_mset mp + mset (take (unat n) tab)"
proof -
  have r: "ring_inv (mp_ring mp)" and cap: "unat (mp_size mp) \<le> ring_cap (mp_ring mp)"
    using inv by (simp_all add: pool_inv_def)
  have "unat n \<le> ring_free_n (mp_ring mp)"
    using room cap by (simp add: ring_free_n_def pool_mset_def)
  from enq_room [OF r assms(2) this] obtain ret r' where
    "rte_ring_mp_enqueue_bulk (mp_ring mp) tab n = Some (ret, r')"
    "rte_ring_sp_enqueue_bulk (mp_ring mp) tab n = Some (ret, r')"
    and r': "ring_inv r'" "ring_cap r' = ring_cap (mp_ring mp)"
    "ring_list r' = ring_list (mp_ring mp) @ take (unat n) tab" by blast
  then have "put_ring_enqueue mp tab n is_mp = Some (mp\<lparr>mp_ring := r'\<rparr>)"
    by (simp add: put_ring_enqueue_def)
  then show ?thesis using pool_inv_ring [OF inv r'(1,2)] r'(3) by (auto simp: pool_mset_def)
qed

lemma mempool_put_result:
  assumes inv: "pool_inv mp" and len: "unat n \<le> length tab"
    and room: "size (pool_mset mp) + unat n \<le> unat (mp_size mp)"
  shows "\<exists>mp'. mempool_put_bulk lcore mp tab n is_mp = Some mp' \<and> pool_inv mp' \<and> pool_frame mp mp'
    \<and> pool_mset mp' = pool_mset mp + mset (take (unat n) tab)"
proof (cases "mp_cache_size mp = 0 \<or> \<not> is_mp \<or> lcore \<ge> RTE_MAX_LCORE \<or> n > RTE_MEMPOOL_CACHE_MAX_SIZE")
  case True
  then show ?thesis using put_ring_result [OF assms] by (auto simp: mempool_put_bulk_def Let_def)
next
  case False
  let ?c = "mp_local_cache mp ! lcore" and ?cs = "mp_cache_size mp" and ?ft = "mp_cache_flushthresh mp"
  let ?l = "unat (cache_len ?c)" and ?new = "cache_len ?c + n"
  have n: "unat n \<le> 512" using False by (simp add: word_le_nat_alt not_less RTE_MEMPOOL_CACHE_MAX_SIZE_def)
  note cache = pool_inv_cache [OF inv, of lcore] and b = pool_inv_bounds [OF inv]
  have c: "lcore < length (mp_local_cache mp)" "length (cache_objs ?c) = 1536" "?l \<le> unat ?ft" "?l \<le> 768"
    using cache False by simp_all
  have new: "unat ?new = ?l + unat n" using c(4) n by (simp add: unat_word_ariths)
  obtain objs where fill: "cache_fill (unat n) 0 tab ?l (cache_objs ?c) = Some objs"
    and held: "mset (take (?l + unat n) objs) = cache_held ?c + mset (take (unat n) tab)"
    and lo: "length objs = 1536"
  proof
    let ?o = "take ?l (cache_objs ?c) @ take (unat n) tab @ drop (?l + unat n) (cache_objs ?c)"
    show "cache_fill (unat n) 0 tab ?l (cache_objs ?c) = Some ?o"
      using cache_fill_eq [of 0 "unat n" tab ?l "cache_objs ?c"] len c(2,4) n by simp
    show "mset (take (?l + unat n) ?o) = cache_held ?c + mset (take (unat n) tab)"
      using len c(2,4) by (simp add: cache_held_def)
    show "length ?o = 1536" using len c(2,4) n by simp
  qed
  show ?thesis
  proof (cases "?new \<ge> ?ft")
    case flush: True
    then have ge: "unat ?cs \<le> ?l + unat n" using b(3) new by (simp add: word_le_nat_alt)
    have sub: "unat (?new - ?cs) = ?l + unat n - unat ?cs"
      using ge new by (simp add: unat_sub word_le_nat_alt)
    have "size (mset (ring_list (mp_ring mp)) + cache_held ?c) \<le> size (pool_mset mp)"
      by (rule size_mset_mono [OF pool_mset_cache_le [OF c(1)]])
    then have fit: "length (ring_list (mp_ring mp)) + ?l + unat n \<le> ring_cap (mp_ring mp)"
      using room inv c(2,4) by (simp add: cache_held_def pool_inv_def)
    have ri: "ring_inv (mp_ring mp)" using inv by (simp add: pool_inv_def)
    have e1: "unat (?new - ?cs) \<le> length (drop (unat ?cs) objs)"
      unfolding sub length_drop lo using n c(4) by linarith
    have e2: "unat (?new - ?cs) \<le> ring_free_n (mp_ring mp)"
      unfolding sub ring_free_n_def using fit by linarith
    obtain ret r' where r: "rte_ring_mp_enqueue_bulk (mp_ring mp) (drop (unat ?cs) objs) (?new - ?cs) = Some (ret, r')"
      and r': "ring_inv r'" "ring_cap r' = ring_cap (mp_ring mp)"
      "ring_list r' = ring_list (mp_ring mp) @ take (unat (?new - ?cs)) (drop (unat ?cs) objs)"
      using enq_room [OF ri e1 e2] by blast
    let ?mp = "mp\<lparr>mp_ring := r', mp_local_cache := (mp_local_cache mp)[lcore := \<lparr>cache_len = ?cs, cache_objs = objs\<rparr>]\<rparr>"
    have "cache_ok ?ft \<lparr>cache_len = ?cs, cache_objs = objs\<rparr>"
      using lo b(3) by (simp add: cache_ok_def word_le_nat_alt RTE_MEMPOOL_CACHE_MAX_SIZE_def)
    then have "pool_inv ?mp" by (rule pool_inv_update [OF inv r'(1,2)])
    moreover have "pool_mset ?mp + {#} = pool_mset mp + mset (take (unat n) tab)"
    proof (rule pool_mset_update [OF c(1)])
      have "take (?l + unat n) objs = take (unat ?cs) objs @ take (?l + unat n - unat ?cs) (drop (unat ?cs) objs)"
        using ge by (metis le_add_diff_inverse take_add)
      then have "mset (take (?l + unat n) objs) =
          mset (take (unat ?cs) objs) + mset (take (?l + unat n - unat ?cs) (drop (unat ?cs) objs))"
        by (metis mset_append)
      then show "mset (ring_list r') + cache_held \<lparr>cache_len = ?cs, cache_objs = objs\<rparr> + {#} =
          mset (ring_list (mp_ring mp)) + cache_held ?c + mset (take (unat n) tab)"
        using held by (simp add: r'(3) sub cache_held_def)
    qed
    moreover have "mempool_put_bulk lcore mp tab n is_mp = Some ?mp"
      using False c(1) fill flush r by (simp add: mempool_put_bulk_def Let_def)
    ultimately show ?thesis by auto
  next
    case keep: False
    let ?mp = "mp\<lparr>mp_ring := mp_ring mp, mp_local_cache := (mp_local_cache mp)[lcore := \<lparr>cache_len = ?new, cache_objs = objs\<rparr>]\<rparr>"
    have "cache_ok ?ft \<lparr>cache_len = ?new, cache_objs = objs\<rparr>"
      using lo keep by (simp add: cache_ok_def RTE_MEMPOOL_CACHE_MAX_SIZE_def)
    then have "pool_inv ?mp" using inv by (intro pool_inv_update) (simp_all add: pool_inv_def)
    moreover have "pool_mset ?mp + {#} = pool_mset mp + mset (take (unat n) tab)"
      using held new by (intro pool_mset_update [OF c(1)]) (simp add: cache_held_def)
    moreover have "mempool_put_bulk lcore mp tab n is_mp = Some ?mp"
      using False c(1) fill keep by (simp add: mempool_put_bulk_def Let_def)
    ultimately show ?thesis by auto
  qed
qed

text \<open>What a get promises, for the ring path and the cache path alike.\<close>
definition got :: "'a rte_mempool \<Rightarrow> 'a list \<Rightarrow> nat \<Rightarrow> int \<Rightarrow> 'a list \<Rightarrow> 'a rte_mempool \<Rightarrow> bool" where
  "got mp tab n ret tab' mp' \<longleftrightarrow> pool_inv mp' \<and> pool_frame mp mp' \<and> length tab' = length tab
     \<and> drop n tab' = drop n tab
     \<and> (if ret = 0 then pool_mset mp = pool_mset mp' + mset (take n tab')
        else ret = - ENOENT \<and> tab' = tab \<and> mp' = mp)
     \<and> (n \<le> length (ring_list (mp_ring mp)) \<longrightarrow> ret = 0)"

lemma get_ring_result:
  assumes inv: "pool_inv mp" and len: "unat n \<le> length tab"
  shows "\<exists>ret tab' mp'. get_ring_dequeue mp tab n is_mc = Some (ret, tab', mp') \<and> got mp tab (unat n) ret tab' mp'"
proof -
  have r: "ring_inv (mp_ring mp)" using inv by (simp add: pool_inv_def)
  let ?q = "ring_list (mp_ring mp)"
  obtain ret tab' r' where eq: "rte_ring_mc_dequeue_bulk (mp_ring mp) tab n = Some (ret, tab', r')"
    "rte_ring_sc_dequeue_bulk (mp_ring mp) tab n = Some (ret, tab', r')"
    and res: "if unat n \<le> length ?q
       then ret = 0 \<and> ring_inv r' \<and> ring_cap r' = ring_cap (mp_ring mp)
         \<and> tab' = take (unat n) ?q @ drop (unat n) tab \<and> ring_list r' = drop (unat n) ?q
       else ret = - ENOENT \<and> tab' = tab \<and> r' = mp_ring mp"
    using deq_bulk [OF r len] by blast
  have get: "get_ring_dequeue mp tab n is_mc = Some (ret, tab', mp\<lparr>mp_ring := r'\<rparr>)"
    using eq by (simp add: get_ring_dequeue_def)
  have "got mp tab (unat n) ret tab' (mp\<lparr>mp_ring := r'\<rparr>)"
  proof (cases "unat n \<le> length ?q")
    case True
    have "mset ?q = mset (drop (unat n) ?q) + mset (take (unat n) ?q)"
      by (metis append_take_drop_id mset_append union_commute)
    then show ?thesis
      using res True pool_inv_ring [OF inv, of r'] len by (auto simp: got_def pool_mset_def)
  next
    case False
    then show ?thesis using res inv by (simp add: got_def errno_simps)
  qed
  with get show ?thesis by blast
qed

lemma get_from_cache_result:
  assumes inv: "pool_inv mp" and lcore: "lcore < length (mp_local_cache mp)"
    and mp1: "mp1 = mp\<lparr>mp_ring := r, mp_local_cache := (mp_local_cache mp)[lcore := c']\<rparr>"
    and r: "ring_inv r" "ring_cap r = ring_cap (mp_ring mp)"
    and n: "unat n \<le> unat l" "unat l - unat n \<le> unat (mp_cache_flushthresh mp)" "unat l \<le> 1536"
    and lo: "length objs = 1536" and tab: "unat n \<le> length tab"
    and same: "mset (ring_list r) + mset (take (unat l) objs) =
      mset (ring_list (mp_ring mp)) + cache_held (mp_local_cache mp ! lcore)"
  shows "\<exists>tab' mp'. get_from_cache lcore mp1 l objs tab n = Some (0, tab', mp') \<and> got mp tab (unat n) 0 tab' mp'"
proof -
  let ?c = "\<lparr>cache_len = l - n, cache_objs = objs\<rparr>"
  let ?mp = "mp\<lparr>mp_ring := r, mp_local_cache := (mp_local_cache mp)[lcore := ?c]\<rparr>"
  let ?out = "drop (unat l - unat n) (take (unat l) objs)"
  let ?tab = "rev ?out @ drop (unat n) tab"
  have sub: "unat (l - n) = unat l - unat n" using n(1) by (simp add: unat_sub word_le_nat_alt)
  have "cache_drain (unat n) 0 (of_nat (unat l) - 1) objs tab = Some (take 0 tab @ rev ?out @ drop (0 + unat n) tab)"
    using n lo tab by (intro cache_drain_eq) simp_all
  then have get: "get_from_cache lcore mp1 l objs tab n = Some (0, ?tab, ?mp)"
    by (simp add: get_from_cache_def mp1)
  have ln: "length (rev ?out) = unat n" using n lo by simp
  have "cache_ok (mp_cache_flushthresh mp) ?c"
    using n(2) lo sub by (simp add: cache_ok_def word_le_nat_alt RTE_MEMPOOL_CACHE_MAX_SIZE_def)
  then have "pool_inv ?mp" by (rule pool_inv_update [OF inv r])
  moreover have "pool_mset ?mp + mset (take (unat n) ?tab) = pool_mset mp + {#}"
  proof (rule pool_mset_update [OF lcore])
    have "take (unat l) objs = take (unat l - unat n) objs @ ?out"
      by (metis append_take_drop_id diff_le_self min.absorb1 take_take)
    then have "mset (take (unat l) objs) = mset (take (unat l - unat n) objs) + mset ?out"
      by (metis mset_append)
    then show "mset (ring_list r) + cache_held ?c + mset (take (unat n) ?tab) =
        mset (ring_list (mp_ring mp)) + cache_held (mp_local_cache mp ! lcore) + {#}"
      using same ln sub by (simp add: cache_held_def union_assoc)
  qed
  ultimately have "got mp tab (unat n) 0 ?tab ?mp"
    using ln tab by (auto simp: got_def)
  with get show ?thesis by blast
qed

lemma mempool_get_result:
  assumes inv: "pool_inv mp" and len: "unat n \<le> length tab"
  shows "\<exists>ret tab' mp'. mempool_get_bulk lcore mp tab n is_mc = Some (ret, tab', mp') \<and> got mp tab (unat n) ret tab' mp'"
proof (cases "mp_cache_size mp = 0 \<or> \<not> is_mc \<or> n \<ge> mp_cache_size mp \<or> lcore \<ge> RTE_MAX_LCORE")
  case True
  then show ?thesis using get_ring_result [OF assms] by (simp add: mempool_get_bulk_def Let_def)
next
  case False
  let ?c = "mp_local_cache mp ! lcore" and ?cs = "mp_cache_size mp"
  let ?l = "cache_len ?c" and ?o = "cache_objs ?c"
  let ?req = "n + (?cs - ?l)"
  have c: "lcore < length (mp_local_cache mp)" "length ?o = 1536"
    "unat ?l \<le> unat (mp_cache_flushthresh mp)" "unat ?l \<le> 768"
    using pool_inv_cache [OF inv, of lcore] False by simp_all
  note b = pool_inv_bounds [OF inv]
  have ncs: "unat n < unat ?cs" using False by (simp add: word_less_nat_alt not_le)
  have ri: "ring_inv (mp_ring mp)" using inv by (simp add: pool_inv_def)
  show ?thesis
  proof (cases "?l < n")
    case False2: False
    have "\<exists>tab' mp'. get_from_cache lcore mp ?l ?o tab n = Some (0, tab', mp') \<and> got mp tab (unat n) 0 tab' mp'"
      using False2 c ri len
      by (intro get_from_cache_result [OF inv c(1), where r = "mp_ring mp" and c' = ?c])
        (simp_all add: word_less_nat_alt not_less cache_held_def)
    then show ?thesis using False False2 c(1) by (auto simp: mempool_get_bulk_def Let_def)
  next
    case refill: True
    have lcs: "unat ?l < unat ?cs" "unat ?l < unat n" using refill ncs by (simp_all add: word_less_nat_alt)
    have "unat (?cs - ?l) = unat ?cs - unat ?l" using lcs by (intro unat_sub) (simp add: word_le_nat_alt)
    then have req: "unat ?req = unat n + (unat ?cs - unat ?l)" using ncs b(1) by (simp add: unat_word_ariths)
    have new: "unat (?l + ?req) = unat n + unat ?cs" using req lcs ncs b(1) by (simp add: unat_word_ariths)
    have rl: "unat ?req \<le> length (drop (unat ?l) ?o)"
      unfolding req length_drop c(2) using lcs ncs b(1) by linarith
    obtain ret t r where eq: "rte_ring_mc_dequeue_bulk (mp_ring mp) (drop (unat ?l) ?o) ?req = Some (ret, t, r)"
      and res: "if unat ?req \<le> length (ring_list (mp_ring mp))
         then ret = 0 \<and> ring_inv r \<and> ring_cap r = ring_cap (mp_ring mp)
           \<and> t = take (unat ?req) (ring_list (mp_ring mp)) @ drop (unat ?req) (drop (unat ?l) ?o)
           \<and> ring_list r = drop (unat ?req) (ring_list (mp_ring mp))
         else ret = - ENOENT \<and> t = drop (unat ?l) ?o \<and> r = mp_ring mp"
      using deq_bulk [OF ri rl] by blast
    let ?objs = "take (unat ?l) ?o @ t"
    let ?mp1 = "mp\<lparr>mp_ring := r, mp_local_cache := (mp_local_cache mp)[lcore := \<lparr>cache_len = ?l, cache_objs = ?objs\<rparr>]\<rparr>"
    have get: "mempool_get_bulk lcore mp tab n is_mc =
        (if ret < 0 then get_ring_dequeue ?mp1 tab n is_mc
         else get_from_cache lcore ?mp1 (?l + ?req) ?objs tab n)"
      using False refill c eq by (simp add: mempool_get_bulk_def Let_def)
    show ?thesis
    proof (cases "unat ?req \<le> length (ring_list (mp_ring mp))")
      case True
      let ?q = "ring_list (mp_ring mp)"
      have t: "t = take (unat ?req) ?q @ drop (unat ?l + unat ?req) ?o"
        "ring_list r = drop (unat ?req) ?q" using res True by (simp_all add: add.commute)
      have lo: "length ?objs = 1536" using t(1) True rl c(2,4) by simp
      have lr: "unat (?l + ?req) = unat ?l + unat ?req" using new req lcs by simp
      have "take (unat (?l + ?req)) ?objs = take (unat ?l) ?o @ take (unat ?req) ?q"
        unfolding lr using t(1) True c(2,4) by simp
      moreover have "mset ?q = mset (drop (unat ?req) ?q) + mset (take (unat ?req) ?q)"
        by (metis append_take_drop_id mset_append union_commute)
      ultimately have "mset (ring_list r) + mset (take (unat (?l + ?req)) ?objs) = mset ?q + cache_held ?c"
        by (simp add: t(2) cache_held_def)
      then have "\<exists>tab' mp'. get_from_cache lcore ?mp1 (?l + ?req) ?objs tab n = Some (0, tab', mp')
          \<and> got mp tab (unat n) 0 tab' mp'"
        using res True new b ncs lo len
        by (intro get_from_cache_result [OF inv c(1) refl]) simp_all
      then show ?thesis using get res True by auto
    next
      case short: False
      have same: "?objs = ?o" using res short by simp
      have "\<lparr>cache_len = ?l, cache_objs = ?o\<rparr> = ?c" by (cases ?c) simp
      then have "(mp_local_cache mp)[lcore := \<lparr>cache_len = ?l, cache_objs = ?o\<rparr>] = mp_local_cache mp"
        by (metis list_update_id)
      then have "?mp1 = mp" using res short unfolding same by simp
      then show ?thesis using get res short get_ring_result [OF assms] by (simp add: errno_simps)
    qed
  qed
qed

section \<open>The pool contract\<close>

definition pool_get :: "'a \<Rightarrow> nat \<Rightarrow> 'a rte_mempool \<Rightarrow> nat \<Rightarrow> ('a list option \<times> 'a rte_mempool) option" where
  "pool_get z core mp n =
     do { (ret, tab, mp) \<leftarrow> rte_mempool_get_bulk core mp (replicate n z) (of_nat n);
          Some (if ret = 0 then Some tab else None, mp) }"

definition pool_put :: "nat \<Rightarrow> 'a rte_mempool \<Rightarrow> 'a list \<Rightarrow> 'a rte_mempool option" where
  "pool_put core mp xs = rte_mempool_put_bulk core mp xs (of_nat (length xs))"

interpretation mempool: object_pool pool_inv pool_mset "\<lambda>mp. unat (mp_size mp)" "2 ^ 31 - 1" "pool_get z" pool_put for z
proof
  fix p :: "'a rte_mempool" and n core :: nat
  assume inv: "pool_inv p" and n: "n \<le> 2 ^ 31 - 1"
  have un: "unat (of_nat n :: u32) = n" using n by simp
  obtain ret tab p' where g: "rte_mempool_get_bulk core p (replicate n z) (of_nat n) = Some (ret, tab, p')"
    "got p (replicate n z) n ret tab p'"
    using mempool_get_result [OF inv, of "of_nat n" "replicate n z" core "mp_flags p AND MEMPOOL_F_SC_GET = 0"] un
    by (auto simp: rte_mempool_get_bulk_def)
  show "\<exists>xs p'. pool_get z core p n = Some (xs, p') \<and> pool_inv p' \<and> unat (mp_size p') = unat (mp_size p)
      \<and> (case xs of None \<Rightarrow> pool_mset p' = pool_mset p
         | Some xs \<Rightarrow> length xs = n \<and> pool_mset p = pool_mset p' + mset xs)"
    using g pool_frame_fields [of p p']
    by (intro exI [of _ "if ret = 0 then Some tab else None"] exI [of _ p'])
      (auto simp: pool_get_def got_def split: if_splits)
next
  fix p :: "'a rte_mempool" and xs :: "'a list" and core :: nat
  assume inv: "pool_inv p" and n: "length xs \<le> 2 ^ 31 - 1"
    and room: "size (pool_mset p) + length xs \<le> unat (mp_size p)"
  have un: "unat (of_nat (length xs) :: u32) = length xs" using n by simp
  obtain p' where "pool_put core p xs = Some p'" "pool_inv p'" "pool_frame p p'" "pool_mset p' = pool_mset p + mset xs"
    using mempool_put_result [OF inv, of "of_nat (length xs)" xs core "mp_flags p AND MEMPOOL_F_SP_PUT = 0"] room un
    unfolding pool_put_def rte_mempool_put_bulk_def by auto
  then show "\<exists>p'. pool_put core p xs = Some p' \<and> pool_inv p' \<and> unat (mp_size p') = unat (mp_size p)
      \<and> pool_mset p' = pool_mset p + mset xs"
    using pool_frame_fields [of p p'] by auto
qed

section \<open>Properties\<close>

lemma fold_count:
  "unat (fold (\<lambda>c cnt. cnt + cache_len c) cs (cnt :: u32)) =
     (unat cnt + sum_list (map (\<lambda>c. unat (cache_len c)) cs)) mod 2 ^ 32"
proof (induction cs arbitrary: cnt)
  case Nil
  have "unat cnt < 2 ^ 32" using unsigned_less [of cnt, where ?'a = nat] by simp
  then show ?case by simp
next
  case (Cons c cs)
  have "unat (cnt + cache_len c) = (unat cnt + unat (cache_len c)) mod 2 ^ 32" by (simp add: unat_word_ariths)
  then show ?case by (simp add: Cons.IH mod_add_left_eq add.assoc)
qed

lemma pool_mset_size:
  assumes "pool_inv mp"
  shows "size (pool_mset mp) = length (ring_list (mp_ring mp)) + sum_list (map (\<lambda>c. unat (cache_len c)) (mp_local_cache mp))"
proof -
  have "sum_list (map (\<lambda>c. unat (cache_len c)) cs) = size (sum_list (map cache_held cs))"
    if "list_all (cache_ok ft) cs" and "unat ft \<le> 1536" for cs :: "'a rte_mempool_cache list" and ft
    using that
    by (induction cs) (auto simp: cache_held_def cache_ok_def RTE_MEMPOOL_CACHE_MAX_SIZE_def word_le_nat_alt)
  from this [of "mp_cache_flushthresh mp" "mp_local_cache mp"] show ?thesis
    using assms pool_inv_bounds(2) [OF assms] by (simp add: pool_mset_def pool_inv_def)
qed

text \<open>A pool of eight objects with caches of four, for the witnesses: three objects are out.\<close>
definition pool_8 :: "nat rte_mempool" where
  "pool_8 = \<lparr>mp_name = ''MProc_pktmbuf_pool'',
     mp_ring = \<lparr>ring_name = ''MP_MProc_pktmbuf_pool'', ring_flags = 0, ring_memzone = None,
       prod = \<lparr>prod_watermark = 16, prod_sp_enqueue = False, prod_size = 16, prod_mask = 15,
               prod_head = 3, prod_tail = 3\<rparr>,
       cons = \<lparr>cons_sc_dequeue = False, cons_size = 16, cons_mask = 15, cons_head = 0, cons_tail = 0\<rparr>,
       ring_slots = replicate 16 7\<rparr>,
     mp_flags = 0, mp_size = 8, mp_cache_size = 4, mp_cache_flushthresh = 6,
     mp_elt_size = 2304, mp_header_size = 64, mp_trailer_size = 0, mp_private_data_size = 0,
     mp_local_cache = \<lparr>cache_len = 2, cache_objs = replicate 1536 5\<rparr> # replicate 127 \<lparr>cache_len = 0, cache_objs = replicate 1536 0\<rparr>\<rparr>"

lemma pool_8_inv: "pool_inv pool_8"
  by (simp add: pool_inv_def pool_8_def ring_inv_def POWEROF2_def RTE_RING_SZ_MASK_def Let_def cache_ok_def
      RTE_MEMPOOL_CACHE_MAX_SIZE_def RTE_MAX_LCORE_def ring_cap_def list_all_iff)

lemma pool_8_size: "size (pool_mset pool_8) = 5"
  unfolding pool_mset_size [OF pool_8_inv] length_ring_list
  by (simp add: pool_8_def)

text \<open>
  C37. Any sequence of bulk gets and puts, by any cores, on a consistent pool whose objects in the
  pool and with the callers are no more than its size, when callers put back only what they hold:
  every call returns, the pool stays consistent and would pass its audit, and the objects in the
  pool together with those held by the callers are the same as before, each exactly as often. No
  object is lost when a cache is flushed to the ring, though the code ignores the result of that
  enqueue.
\<close>
theorem mempool_run_conserves:
  assumes "pool_inv mp" and "list_all (pool_op_fits (2 ^ 31 - 1)) ops"
    and "size (pool_mset mp) + size out \<le> unat (mp_size mp)"
  shows "\<exists>res. run_pool (pool_get z) pool_put mp out ops = Some res
    \<and> (case res of None \<Rightarrow> True
       | Some (mp', out') \<Rightarrow> pool_inv mp' \<and> rte_mempool_audit mp' \<and> mp_size mp' = mp_size mp
           \<and> pool_mset mp' + out' = pool_mset mp + out)"
proof -
  have "pool_inv p \<Longrightarrow> rte_mempool_audit p" for p :: "'a rte_mempool"
    by (auto simp: rte_mempool_audit_def mempool_audit_cache_def pool_inv_def list_all_iff cache_ok_def not_less)
  moreover obtain res where "run_pool (pool_get z) pool_put mp out ops = Some res"
    "case res of None \<Rightarrow> True | Some (p', out') \<Rightarrow> pool_inv p' \<and> unat (mp_size p') = unat (mp_size mp)
       \<and> pool_mset p' + out' = pool_mset mp + out"
    using mempool.run_conserves [OF assms, of z] by blast
  ultimately show ?thesis by (cases res) (auto dest: unsigned_word_eqI)
qed

theorem mempool_run_conserves_witness:
  "\<exists>res. run_pool (pool_get 0) pool_put pool_8 {#11, 12, 13#} [Put 0 [11, 12], Get 3 1] = Some res
    \<and> (case res of None \<Rightarrow> True
       | Some (mp', out') \<Rightarrow> pool_inv mp' \<and> rte_mempool_audit mp' \<and> mp_size mp' = mp_size pool_8
           \<and> pool_mset mp' + out' = pool_mset pool_8 + {#11, 12, 13#})"
  by (rule mempool_run_conserves [OF pool_8_inv]) (simp_all add: pool_8_size, simp add: pool_8_def)

text \<open>
  A bulk get from a consistent pool is all or nothing: it returns 0, fills exactly the first
  \<open>n\<close> cells of the table with objects of the pool and takes them out of it, or returns
  \<open>-ENOENT\<close> and changes nothing. It succeeds whenever the common ring holds \<open>n\<close> objects; a
  backfill of the cache that does not succeed falls back to the ring.
\<close>
theorem mempool_get_all_or_nothing:
  assumes "pool_inv mp" and "unat n \<le> length tab"
  shows "\<exists>ret tab' mp'. rte_mempool_get_bulk lcore_id mp tab n = Some (ret, tab', mp') \<and> pool_inv mp'
    \<and> drop (unat n) tab' = drop (unat n) tab
    \<and> (if ret = 0 then pool_mset mp = pool_mset mp' + mset (take (unat n) tab')
       else ret = - ENOENT \<and> tab' = tab \<and> mp' = mp)
    \<and> (unat n \<le> length (ring_list (mp_ring mp)) \<longrightarrow> ret = 0)"
  using mempool_get_result [OF assms] unfolding rte_mempool_get_bulk_def got_def by blast

theorem mempool_get_all_or_nothing_witness:
  "\<exists>ret tab' mp'. rte_mempool_get_bulk 0 pool_8 [0, 0, 0] 3 = Some (ret, tab', mp') \<and> pool_inv mp' \<and> ret = 0"
proof -
  have "length (ring_list (mp_ring pool_8)) = 3" by (simp add: length_ring_list pool_8_def)
  then show ?thesis using mempool_get_all_or_nothing [OF pool_8_inv, of 3 "[0, 0, 0]" 0] by auto
qed

text \<open>
  The counter of a consistent pool that holds no more than its size is exact: the objects in
  the ring plus those in all caches, with no wrap-around in the 32-bit sum, so the correction
  "the total can be greater than size" never changes the result.
\<close>
theorem mempool_count_exact:
  assumes inv: "pool_inv mp" and "size (pool_mset mp) \<le> unat (mp_size mp)"
  shows "unat (rte_mempool_count mp) = size (pool_mset mp)
    \<and> unat (rte_mempool_free_count mp) = unat (mp_size mp) - size (pool_mset mp)"
proof -
  let ?s = "sum_list (map (\<lambda>c. unat (cache_len c)) (mp_local_cache mp))"
  let ?c = "fold (\<lambda>c cnt. cnt + cache_len c) (mp_local_cache mp) (rte_ring_count (mp_ring mp))"
  have r: "unat (rte_ring_count (mp_ring mp)) = length (ring_list (mp_ring mp))"
    using inv by (intro ring_count_nat) (simp add: pool_inv_def)
  have sz: "size (pool_mset mp) = length (ring_list (mp_ring mp)) + ?s" by (rule pool_mset_size [OF inv])
  have "unat (mp_size mp) < 2 ^ 32" using unsigned_less [of "mp_size mp", where ?'a = nat] by simp
  then have c: "unat ?c = size (pool_mset mp)" using assms(2) sz r by (simp add: fold_count)
  have "?s = 0" if "mp_cache_size mp = 0"
    using that inv by (auto simp: pool_inv_def cache_ok_def list_all_iff word_le_nat_alt)
  then have cnt: "unat (rte_mempool_count mp) = size (pool_mset mp)"
    using c r sz assms(2) by (auto simp: rte_mempool_count_def Let_def word_less_nat_alt)
  moreover have "unat (mp_size mp - rte_mempool_count mp) = unat (mp_size mp) - unat (rte_mempool_count mp)"
    using cnt assms(2) by (intro unat_sub) (simp add: word_le_nat_alt)
  ultimately show ?thesis by (simp add: rte_mempool_free_count_def)
qed

theorem mempool_count_exact_witness:
  "unat (rte_mempool_count pool_8) = 5 \<and> unat (rte_mempool_free_count pool_8) = 3"
  using mempool_count_exact [OF pool_8_inv] by (simp add: pool_8_size) (simp add: pool_8_def)

end
