(* ===== verification/Rte_Mempool_Layout.thy ===== *)
theory Rte_Mempool_Layout
  imports Rte_Mempool
begin

text \<open>
  Sizes and placement of the objects of a pool (\<open>rte_mempool.c\<close>): the padding that spreads
  objects over memory channels, the size of an object with header and trailer, and the iteration
  that cuts a memory area made of pages into objects.
\<close>

unbundle bit_operations_syntax

section \<open>Object sizes\<close>

function gcd_loop :: "u32 \<Rightarrow> u32 \<Rightarrow> u32" where
  "gcd_loop a b = (if b \<noteq> 0 then gcd_loop b (a mod b) else a)"
  by pat_completeness auto
termination
  by (relation "measure (\<lambda>(a, b). unat b)") (auto simp: unat_mod unat_gt_0)

declare gcd_loop.simps [simp del]

definition get_gcd :: "u32 \<Rightarrow> u32 \<Rightarrow> u32" where
  "get_gcd a b =
     (if 0 = a then b
      else if 0 = b then a
      else if a < b then gcd_loop b a else gcd_loop a b)"

text \<open>\<^term>\<open>None\<close> is a loop that does not end.\<close>
partial_function (option) spread_loop :: "u32 \<Rightarrow> u32 \<Rightarrow> u32 option" where
  "spread_loop m x = (if get_gcd x m \<noteq> 1 then spread_loop m (x + 1) else Some x)"

text \<open>The numbers of memory channels and ranks come from the EAL command line.\<close>
definition optimize_object_size :: "u32 \<Rightarrow> u32 \<Rightarrow> u32 \<Rightarrow> u32 option" where
  "optimize_object_size nchannel nrank obj_size =
     (let nchan = (if nchannel = 0 then 4 else nchannel);
          nrank = (if nrank = 0 then 1 else nrank)
      in do { new_obj_size \<leftarrow> spread_loop (nrank * nchan) ((obj_size + RTE_MEMPOOL_ALIGN_MASK) div RTE_MEMPOOL_ALIGN);
              Some (new_obj_size * RTE_MEMPOOL_ALIGN) })"

definition align_ceil32 :: "u32 \<Rightarrow> u32 \<Rightarrow> u32" where
  "align_ceil32 v a = (v + (a - 1)) AND NOT (a - 1)"

text \<open>The returned size (0 for failure) and the filled structure.\<close>
definition rte_mempool_calc_obj_size ::
  "bool \<Rightarrow> u32 \<Rightarrow> u32 \<Rightarrow> u32 \<Rightarrow> u32 \<Rightarrow> u32 \<Rightarrow> rte_mempool_objsz \<Rightarrow> (u32 \<times> rte_mempool_objsz) option" where
  "rte_mempool_calc_obj_size has_hugepages page_size nchannel nrank elt_size flags sz =
     (let sz = sz\<lparr>sz_header_size := 8\<rparr>;
          sz = (if flags AND MEMPOOL_F_NO_CACHE_ALIGN = 0
                then sz\<lparr>sz_header_size := align_ceil32 (sz_header_size sz) RTE_MEMPOOL_ALIGN\<rparr> else sz);
          sz = sz\<lparr>sz_trailer_size := 0, sz_elt_size := align_ceil32 elt_size 8\<rparr>;
          sz = (if flags AND MEMPOOL_F_NO_CACHE_ALIGN = 0
                then let total = sz_header_size sz + sz_elt_size sz + sz_trailer_size sz
                     in sz\<lparr>sz_total_size := total,
                           sz_trailer_size := sz_trailer_size sz +
                             ((RTE_MEMPOOL_ALIGN - (total AND RTE_MEMPOOL_ALIGN_MASK)) AND RTE_MEMPOOL_ALIGN_MASK)\<rparr>
                else sz)
      in do {
        sz \<leftarrow> (if flags AND MEMPOOL_F_NO_SPREAD = 0
               then do { new_size \<leftarrow> optimize_object_size nchannel nrank
                                        (sz_header_size sz + sz_elt_size sz + sz_trailer_size sz);
                         Some (sz\<lparr>sz_trailer_size := new_size - sz_header_size sz - sz_elt_size sz\<rparr>) }
               else Some sz);
        let new_size = page_size - sz_header_size sz - sz_elt_size sz in
        if \<not> has_hugepages \<and> (sint new_size < 0 \<or> new_size < sz_trailer_size sz) then Some (0, sz)
        else let sz = (if has_hugepages then sz else sz\<lparr>sz_trailer_size := new_size\<rparr>);
                 sz = sz\<lparr>sz_total_size := sz_header_size sz + sz_elt_size sz + sz_trailer_size sz\<rparr>
             in Some (sz_total_size sz, sz) })"

section \<open>Cutting memory into objects\<close>

text \<open>
  Addresses and page numbers are natural numbers: an area lies inside the address space. The
  page shift is a bit count.
\<close>
definition rte_mempool_xmem_size :: "nat \<Rightarrow> nat \<Rightarrow> nat \<Rightarrow> nat" where
  "rte_mempool_xmem_size elt_num elt_sz pg_shift =
     (let pg_sz = 2 ^ pg_shift; n = pg_sz div elt_sz
      in if n > 0 then (elt_num + n - 1) div n * 2 ^ pg_shift
         else RTE_ALIGN elt_sz pg_sz * elt_num)"

text \<open>The scan for physically contiguous pages: the first page whose successor does not follow it.\<close>
function contig_loop :: "nat list \<Rightarrow> nat \<Rightarrow> nat \<Rightarrow> nat \<Rightarrow> nat option" where
  "contig_loop paddr pg_sz pgn k =
     (if k = pgn then Some k
      else case (aget paddr k, aget paddr (k + 1)) of
             (Some a, Some b) \<Rightarrow> if a + pg_sz = b then contig_loop paddr pg_sz pgn (k + 1) else Some k
           | _ \<Rightarrow> None)"
  by pat_completeness auto
termination
  by (relation "measure (\<lambda>(paddr, pg_sz, pgn, k). length paddr - k)") (auto simp: aget_def split: if_splits)

declare contig_loop.simps [simp del]

text \<open>
  The callback is a state transformer applied to start, end and index of each object. The loop
  condition compares for inequality, so the loop is not obviously finite: \<^term>\<open>None\<close> is an
  endless loop or a read outside \<open>paddr\<close>.
\<close>
partial_function (option) obj_iter_loop ::
  "(nat \<Rightarrow> nat \<Rightarrow> nat \<Rightarrow> 's \<Rightarrow> 's) \<Rightarrow> nat \<Rightarrow> nat \<Rightarrow> nat \<Rightarrow> nat list \<Rightarrow> nat \<Rightarrow> nat \<Rightarrow> nat \<Rightarrow> nat \<Rightarrow> nat \<Rightarrow> 's \<Rightarrow>
     (nat \<times> 's) option" where
  "obj_iter_loop f elt_num elt_sz align paddr pg_num pg_shift va i j s =
     (if i \<noteq> elt_num \<and> j \<noteq> pg_num then
        let start = RTE_ALIGN va align;
            fin = start + elt_sz;
            pgf = fin div 2 ^ pg_shift - start div 2 ^ pg_shift;
            pgn = (fin - 1) div 2 ^ pg_shift - start div 2 ^ pg_shift + j
        in if pgn \<ge> pg_num then Some (i, s)
           else do { k \<leftarrow> contig_loop paddr (2 ^ pg_shift) pgn j;
                     if k = pgn
                     then obj_iter_loop f elt_num elt_sz align paddr pg_num pg_shift fin (i + 1) (j + pgf)
                            (f start fin i s)
                     else obj_iter_loop f elt_num elt_sz align paddr pg_num pg_shift
                            (RTE_ALIGN (va + 1) (2 ^ pg_shift)) i (j + 1) s }
      else Some (i, s))"

definition rte_mempool_obj_iter ::
  "nat \<Rightarrow> nat \<Rightarrow> nat \<Rightarrow> nat \<Rightarrow> nat list \<Rightarrow> nat \<Rightarrow> nat \<Rightarrow> (nat \<Rightarrow> nat \<Rightarrow> nat \<Rightarrow> 's \<Rightarrow> 's) \<Rightarrow> 's \<Rightarrow> (nat \<times> 's) option" where
  "rte_mempool_obj_iter vaddr elt_num elt_sz align paddr pg_num pg_shift f s =
     obj_iter_loop f elt_num elt_sz align paddr pg_num pg_shift vaddr 0 0 s"

definition mempool_lelem_iter :: "nat \<Rightarrow> nat \<Rightarrow> nat \<Rightarrow> nat \<Rightarrow> nat" where
  "mempool_lelem_iter start fin idx arg = fin"

definition rte_mempool_xmem_usage :: "nat \<Rightarrow> nat \<Rightarrow> nat \<Rightarrow> nat list \<Rightarrow> nat \<Rightarrow> nat \<Rightarrow> int option" where
  "rte_mempool_xmem_usage vaddr elt_num elt_sz paddr pg_num pg_shift =
     do { (n, uv) \<leftarrow> rte_mempool_obj_iter vaddr elt_num elt_sz 1 paddr pg_num pg_shift mempool_lelem_iter vaddr;
          Some (if n \<noteq> elt_num then - int n else int (RTE_ALIGN uv (2 ^ pg_shift) - vaddr)) }"

section \<open>Sizes: greatest common divisors and padding\<close>

lemma gcd_loop_nat: "unat (gcd_loop a b) = gcd (unat a) (unat b)"
proof (induction a b rule: gcd_loop.induct)
  case (1 a b)
  show ?case
  proof (cases "b = 0")
    case False
    then have "unat (gcd_loop a b) = gcd (unat b) (unat a mod unat b)"
      using 1 by (simp add: gcd_loop.simps [of a b] unat_mod)
    then show ?thesis by (simp add: gcd_red_nat [symmetric])
  qed (simp add: gcd_loop.simps)
qed

lemma get_gcd_nat: "unat (get_gcd a b) = gcd (unat a) (unat b)"
  by (simp add: get_gcd_def gcd_loop_nat gcd.commute)

lemma get_gcd_1: "get_gcd a b = 1 \<longleftrightarrow> coprime (unat a) (unat b)"
proof -
  have "get_gcd a b = 1 \<longleftrightarrow> unat (get_gcd a b) = unat (1 :: u32)" by (simp only: unsigned_word_eqI eq_commute) (metis unsigned_word_eqI)
  then show ?thesis by (simp add: get_gcd_nat coprime_iff_gcd_eq_1)
qed

lemma spread_loop_ok:
  assumes "coprime y (unat m)" and "unat x \<le> y" and "y < 2 ^ 32"
  shows "\<exists>z. spread_loop m x = Some z \<and> unat x \<le> unat z \<and> unat z \<le> y \<and> coprime (unat z) (unat m)
    \<and> (\<forall>w. unat x \<le> w \<and> w < unat z \<longrightarrow> \<not> coprime w (unat m))"
  using assms(2)
proof (induction "y - unat x" arbitrary: x rule: less_induct)
  case less
  show ?case
  proof (cases "get_gcd x m = 1")
    case True
    then show ?thesis using less.prems get_gcd_1 [of x m] by (auto simp: spread_loop.simps [of m x])
  next
    case False
    then have nc: "\<not> coprime (unat x) (unat m)" by (simp add: get_gcd_1)
    then have lt: "unat x < y" using assms(1) less.prems by (metis le_neq_implies_less)
    then have suc: "unat (x + 1) = Suc (unat x)" using assms(3) by (simp add: unat_word_ariths)
    then obtain z where z: "spread_loop m (x + 1) = Some z" "Suc (unat x) \<le> unat z" "unat z \<le> y"
      "coprime (unat z) (unat m)" "\<forall>w. Suc (unat x) \<le> w \<and> w < unat z \<longrightarrow> \<not> coprime w (unat m)"
      using less.hyps [of "x + 1", unfolded suc] lt by (metis Suc_leI diff_less_mono2 lessI)
    moreover have "\<not> coprime w (unat m)" if "unat x \<le> w \<and> w < unat z" for w
      using that nc z(5) by (cases "w = unat x") auto
    ultimately show ?thesis using False by (auto simp: spread_loop.simps [of m x])
  qed
qed

lemma next_coprime: "0 < m \<Longrightarrow> \<exists>y. x \<le> y \<and> y \<le> x + m + 1 \<and> coprime y (m :: nat)"
proof (intro exI conjI)
  assume "0 < m"
  let ?y = "(x div m + 1) * m + 1"
  show "x \<le> ?y" "?y \<le> x + m + 1"
    using \<open>0 < m\<close> div_mult_mod_eq [of x m] mod_less_divisor [of m x] by (simp_all, linarith+)
  show "coprime ?y m" by (metis coprime_1_left coprime_iff_gcd_eq_1 gcd_add_mult add.commute gcd.commute)
qed

lemma unat_and63: "unat ((w :: u32) AND 63) = unat w mod 64"
  using unat_mask_and [of 63 6 w] by simp

lemma align_ceil32_nat:
  assumes "unat v + 2 ^ k \<le> 2 ^ 32" and "k < 32"
  shows "unat (align_ceil32 v (2 ^ k)) = RTE_ALIGN (unat v) (2 ^ k)"
proof -
  have m: "(2 ^ k - 1 :: u32) = mask k" by (simp add: mask_eq_exp_minus_1)
  have "(2::nat) ^ k < 2 ^ 32" using assms(2) by (intro power_strict_increasing) simp_all
  then have "unat (of_nat (2 ^ k) :: u32) = 2 ^ k" by (simp only: unat_of_nat) simp
  then have "unat (2 ^ k :: u32) = 2 ^ k" by simp
  then have "unat (mask k :: u32) = 2 ^ k - 1"
    unfolding m [symmetric] by (subst unat_sub) (simp_all add: word_le_nat_alt)
  then have "unat (v + mask k) = unat v + (2 ^ k - 1)"
    using assms by (simp add: unat_word_ariths)
  then show ?thesis
    unfolding align_ceil32_def m unat_and_not_mask RTE_ALIGN_def
    by (simp add: minus_mod_eq_div_mult)
qed

lemma pad_to_64:
  fixes w :: u32
  assumes "unat w + 64 \<le> 2 ^ 32"
  shows "unat (w + ((64 - (w AND 63)) AND 63)) = RTE_ALIGN (unat w) 64"
proof -
  let ?r = "unat w mod 64"
  have "unat (64 - (w AND 63)) = 64 - ?r"
    by (subst unat_sub) (simp_all add: word_le_nat_alt unat_and63)
  then have p: "unat ((64 - (w AND 63)) AND 63) = (64 - ?r) mod 64" by (simp add: unat_and63)
  have "unat w + (64 - ?r) mod 64 < 2 ^ 32" using assms mod_less_divisor [of 64 "64 - ?r"] by linarith
  then have "unat (w + ((64 - (w AND 63)) AND 63)) = unat w + (64 - ?r) mod 64"
    using p by (simp add: unat_word_ariths)
  also have "\<dots> = RTE_ALIGN (unat w) 64"
  proof -
    obtain q r where w: "unat w = 64 * q + r" and r: "r < 64"
      by (metis mult_div_mod_eq mod_less_divisor zero_less_numeral)
    show ?thesis
    proof (cases "r = 0")
      case True
      then show ?thesis by (simp add: w RTE_ALIGN_def)
    next
      case False
      then have "64 * q + r + 63 = (r - 1) + (q + 1) * 64" by simp
      moreover have "((r - 1) + (q + 1) * 64) div 64 = q + 1" using r by (subst div_mult_self1) simp_all
      ultimately have "(64 * q + r + 63) div 64 = q + 1" by (simp only:)
      then show ?thesis using r False by (simp add: w RTE_ALIGN_def)
    qed
  qed
  finally show ?thesis .
qed

lemma optimize_ok:
  assumes m: "m = unat ((if nrank = 0 then 1 else nrank) * (if nchannel = 0 then 4 else nchannel))"
    and pos: "0 < m" and fit: "unat obj_size + 64 * (m + 2) < 2 ^ 32"
  shows "\<exists>s. optimize_object_size nchannel nrank obj_size = Some s \<and> unat obj_size \<le> unat s
    \<and> unat s < unat obj_size + 64 * (m + 2) \<and> 64 dvd unat s \<and> coprime (unat s div 64) m"
proof -
  let ?M = "(if nrank = 0 then 1 else nrank) * (if nchannel = 0 then 4 else nchannel)"
  let ?x = "(obj_size + RTE_MEMPOOL_ALIGN_MASK) div RTE_MEMPOOL_ALIGN"
  have "unat (obj_size + 63) = unat obj_size + 63" using fit by (simp add: unat_word_ariths)
  then have x: "unat ?x = (unat obj_size + 63) div 64"
    by (simp add: RTE_MEMPOOL_ALIGN_def RTE_MEMPOOL_ALIGN_MASK_def unat_div)
  obtain y where y: "unat ?x \<le> y" "y \<le> unat ?x + m + 1" "coprime y m" using next_coprime [OF pos] by blast
  have d: "64 * unat ?x \<le> unat obj_size + 63" "unat obj_size \<le> 64 * unat ?x" using x by simp_all
  have "64 * y < 2 ^ 32" using y(2) d(1) fit by (simp add: algebra_simps)
  then have "y < 2 ^ 32" by simp
  then obtain z where z: "spread_loop ?M ?x = Some z" "unat ?x \<le> unat z" "unat z \<le> y" "coprime (unat z) m"
    using spread_loop_ok [of y ?M ?x] y m by auto
  have "64 * unat z \<le> 64 * (unat ?x + m + 1)" using z(3) y(2) by (intro mult_le_mono2) (rule le_trans)
  then have "64 * unat z \<le> unat obj_size + 63 + 64 * (m + 1)" using d(1) by (simp add: algebra_simps)
  then have s: "unat (z * 64) = 64 * unat z" using fit by (simp add: unat_word_ariths)
  have "optimize_object_size nchannel nrank obj_size = Some (z * RTE_MEMPOOL_ALIGN)"
    using z(1) by (simp add: optimize_object_size_def)
  moreover have "unat obj_size \<le> 64 * unat z" using z(2) d(2) by (meson le_trans mult_le_mono2)
  ultimately show ?thesis
    using s z(4) \<open>64 * unat z \<le> unat obj_size + 63 + 64 * (m + 1)\<close>
    by (simp add: RTE_MEMPOOL_ALIGN_def)
qed

text \<open>The part of the computation before the padding, for cache-aligned objects.\<close>
lemma aligned_sizes:
  assumes "unat elt_size < 2 ^ 31"
  shows "unat (align_ceil32 elt_size 8) = RTE_ALIGN (unat elt_size) 8"
    and "unat (64 + align_ceil32 elt_size 8 + ((64 - ((64 + align_ceil32 elt_size 8) AND 63)) AND 63)) =
         RTE_ALIGN (64 + RTE_ALIGN (unat elt_size) 8) 64"
proof -
  have "(8 :: u32) = 2 ^ 3" by simp
  then show e: "unat (align_ceil32 elt_size 8) = RTE_ALIGN (unat elt_size) 8"
    using align_ceil32_nat [of elt_size 3] assms by simp
  have "RTE_ALIGN (unat elt_size) 8 < 2 ^ 31 + 8"
    using RTE_ALIGN_bounds(2) [of 8 "unat elt_size"] assms by simp
  then have "unat (64 + align_ceil32 elt_size 8) = 64 + RTE_ALIGN (unat elt_size) 8"
    and "RTE_ALIGN (unat elt_size) 8 + 128 \<le> 2 ^ 32"
    using e by (simp_all add: unat_word_ariths)
  then show "unat (64 + align_ceil32 elt_size 8 + ((64 - ((64 + align_ceil32 elt_size 8) AND 63)) AND 63)) =
         RTE_ALIGN (64 + RTE_ALIGN (unat elt_size) 8) 64"
    using pad_to_64 [of "64 + align_ceil32 elt_size 8"] by simp
qed

section \<open>Placement of the objects\<close>

text \<open>
  An object at \<open>(st, fin)\<close> in the area that starts at \<open>va0\<close> and has \<open>pg_num\<close> pages of \<open>P\<close>
  bytes: inside the area, of the right size, and its pages follow each other in physical memory.
\<close>
definition obj_ok :: "nat list \<Rightarrow> nat \<Rightarrow> nat \<Rightarrow> nat \<Rightarrow> nat \<Rightarrow> nat \<times> nat \<Rightarrow> bool" where
  "obj_ok paddr pg_num P elt_sz va0 = (\<lambda>(st, fin). va0 \<le> st \<and> fin = st + elt_sz
     \<and> (fin - 1) div P - va0 div P < pg_num
     \<and> (\<forall>p. st div P - va0 div P \<le> p \<and> p < (fin - 1) div P - va0 div P \<longrightarrow> paddr ! p + P = paddr ! (p + 1)))"

definition objs_ok :: "nat list \<Rightarrow> nat \<Rightarrow> nat \<Rightarrow> nat \<Rightarrow> nat \<Rightarrow> (nat \<times> nat) list \<Rightarrow> bool" where
  "objs_ok paddr pg_num P elt_sz va0 objs \<longleftrightarrow> list_all (obj_ok paddr pg_num P elt_sz va0) objs
     \<and> successively (\<lambda>a b. snd a \<le> fst b) objs"

definition collect :: "nat \<Rightarrow> nat \<Rightarrow> nat \<Rightarrow> (nat \<times> nat) list \<Rightarrow> (nat \<times> nat) list" where
  "collect start fin idx objs = objs @ [(start, fin)]"

lemma contig_loop_ok:
  assumes "k \<le> pgn" and "pgn < length paddr"
  shows "\<exists>k'. contig_loop paddr P pgn k = Some k'
    \<and> (k' = pgn \<longrightarrow> (\<forall>p. k \<le> p \<and> p < pgn \<longrightarrow> paddr ! p + P = paddr ! (p + 1)))"
  using assms
proof (induction "pgn - k" arbitrary: k)
  case 0
  then show ?case by (simp add: contig_loop.simps [of _ _ _ k])
next
  case (Suc d)
  then have k: "k < pgn" "k < length paddr" "Suc k < length paddr" by simp_all
  show ?case
  proof (cases "paddr ! k + P = paddr ! Suc k")
    case True
    obtain k' where "contig_loop paddr P pgn (Suc k) = Some k'"
      and k': "k' = pgn \<longrightarrow> (\<forall>p. Suc k \<le> p \<and> p < pgn \<longrightarrow> paddr ! p + P = paddr ! (p + 1))"
      using Suc.hyps(1) [of "Suc k"] Suc.hyps(2) Suc.prems k
      by (metis Suc_diff_Suc Suc_inject Suc_leI)
    then have "contig_loop paddr P pgn k = Some k'"
      using True k by (simp add: contig_loop.simps [of _ _ _ k])
    moreover have "\<forall>p. k \<le> p \<and> p < pgn \<longrightarrow> paddr ! p + P = paddr ! (p + 1)" if "k' = pgn"
      using that k' True by (metis Suc_eq_plus1 Suc_leI le_neq_implies_less)
    ultimately show ?thesis by blast
  next
    case False
    then show ?thesis using k by (auto simp: contig_loop.simps [of _ _ _ k])
  qed
qed

lemma next_page: "0 < P \<Longrightarrow> RTE_ALIGN (va + 1) P = (va div P + 1) * P"
proof -
  assume "0 < P"
  then have "va + 1 + (P - 1) = va + P" by simp
  moreover have "(va + P) div P = va div P + 1" using \<open>0 < P\<close> by (intro div_add_self2) simp
  ultimately have "(va + 1 + (P - 1)) div P = va div P + 1" by (simp only:)
  then show ?thesis unfolding RTE_ALIGN_def by (simp only:)
qed

lemma pred_div: "0 < P \<Longrightarrow> 0 < x \<Longrightarrow> x div P \<le> (x - 1) div P + 1" for x P :: nat
proof -
  assume a: "0 < P" "0 < x"
  have "x div P \<le> (x - 1 + P) div P" using a by (intro div_le_mono) simp
  also have "\<dots> = (x - 1) div P + 1" using a(1) by (intro div_add_self2) simp
  finally show ?thesis .
qed

lemma obj_iter_loop_ok:
  assumes elt: "0 < elt_sz" and len: "pg_num \<le> length paddr" and P: "P = 2 ^ pg_shift"
    and "i \<le> elt_num" "j \<le> pg_num" "va0 \<le> va" "va div P = va0 div P + j"
    and "objs_ok paddr pg_num P elt_sz va0 objs" "objs \<noteq> [] \<Longrightarrow> snd (last objs) \<le> va" "length objs = i"
  shows "\<exists>objs'. obj_iter_loop collect elt_num elt_sz 1 paddr pg_num pg_shift va i j objs = Some (length objs', objs')
    \<and> length objs' \<le> elt_num \<and> objs_ok paddr pg_num P elt_sz va0 objs'"
  using assms(4-)
proof (induction "elt_num - i + (pg_num - j)" arbitrary: va i j objs rule: less_induct)
  case less
  have pos: "0 < P" by (simp add: P)
  let ?fin = "va + elt_sz"
  let ?pgn = "(?fin - 1) div P - va div P + j" and ?j = "j + (?fin div P - va div P)"
  note unfold = obj_iter_loop.simps [of collect elt_num elt_sz 1 paddr pg_num pg_shift va i j objs]
  have al: "RTE_ALIGN va (Suc 0) = va" by (simp add: RTE_ALIGN_def)
  show ?case
  proof (cases "i \<noteq> elt_num \<and> j \<noteq> pg_num \<and> ?pgn < pg_num")
    case False
    then have "obj_iter_loop collect elt_num elt_sz 1 paddr pg_num pg_shift va i j objs = Some (i, objs)"
      by (subst unfold) (auto simp: Let_def al P)
    then show ?thesis using less.prems by auto
  next
    case True
    have mono: "va div P \<le> (?fin - 1) div P" using elt by (intro div_le_mono) simp
    have page: "(?fin - 1) div P - va0 div P = ?pgn" using mono less.prems(4) by simp
    obtain k where k: "contig_loop paddr P ?pgn j = Some k"
      "k = ?pgn \<longrightarrow> (\<forall>p. j \<le> p \<and> p < ?pgn \<longrightarrow> paddr ! p + P = paddr ! (p + 1))"
      using contig_loop_ok [of j ?pgn paddr P] True len by auto
    have step: "obj_iter_loop collect elt_num elt_sz 1 paddr pg_num pg_shift va i j objs =
        (if k = ?pgn then obj_iter_loop collect elt_num elt_sz 1 paddr pg_num pg_shift ?fin (i + 1) ?j (collect va ?fin i objs)
         else obj_iter_loop collect elt_num elt_sz 1 paddr pg_num pg_shift (RTE_ALIGN (va + 1) P) i (j + 1) objs)"
      using True k(1) by (subst unfold) (simp add: Let_def al P [symmetric])
    show ?thesis
    proof (cases "k = ?pgn")
      case contig: True
      have "?fin div P \<le> (?fin - 1) div P + 1" using pos elt by (intro pred_div) simp_all
      then have j: "?j \<le> pg_num" using True mono by linarith
      have fin: "?fin div P = va0 div P + ?j" using less.prems(4) div_le_mono [of va ?fin P] by simp
      have "obj_ok paddr pg_num P elt_sz va0 (va, ?fin)"
        using less.prems(3,4) page True k(2) contig by (simp add: obj_ok_def)
      then have ok: "objs_ok paddr pg_num P elt_sz va0 (objs @ [(va, ?fin)])"
        using less.prems(5,6) by (auto simp: objs_ok_def successively_append_iff)
      have "\<exists>objs'. obj_iter_loop collect elt_num elt_sz 1 paddr pg_num pg_shift ?fin (i + 1) ?j (objs @ [(va, ?fin)])
            = Some (length objs', objs') \<and> length objs' \<le> elt_num \<and> objs_ok paddr pg_num P elt_sz va0 objs'"
        using True less.prems j fin ok by (intro less.hyps) auto
      then show ?thesis using step contig by (simp add: collect_def)
    next
      case skip: False
      let ?va = "(va div P + 1) * P"
      have "va \<le> ?va" using dividend_less_div_times [OF pos, of va] by simp
      then have "\<exists>objs'. obj_iter_loop collect elt_num elt_sz 1 paddr pg_num pg_shift ?va i (j + 1) objs
            = Some (length objs', objs') \<and> length objs' \<le> elt_num \<and> objs_ok paddr pg_num P elt_sz va0 objs'"
        using True less.prems pos by (intro less.hyps) (auto intro: le_trans)
      then show ?thesis using step skip next_page [OF pos] by simp
    qed
  qed
qed

lemma calc_obj_size_ok:
  assumes m: "m = unat ((if nrank = 0 then 1 else nrank) * (if nchannel = 0 then 4 else nchannel))"
    and pos: "0 < m" and small: "m < 2 ^ 20" and elt: "unat elt_size < 2 ^ 31"
    and flag: "flags AND MEMPOOL_F_NO_CACHE_ALIGN = 0"
  shows "\<exists>t sz'. rte_mempool_calc_obj_size True page_size nchannel nrank elt_size flags sz = Some (t, sz')
    \<and> t = sz_total_size sz' \<and> unat (sz_header_size sz') = 64
    \<and> unat (sz_elt_size sz') = RTE_ALIGN (unat elt_size) 8
    \<and> unat t = unat (sz_header_size sz') + unat (sz_elt_size sz') + unat (sz_trailer_size sz')
    \<and> 64 dvd unat t
    \<and> (flags AND MEMPOOL_F_NO_SPREAD = 0 \<longrightarrow> coprime (unat t div 64) m)"
proof -
  let ?e = "align_ceil32 elt_size 8"
  let ?p = "(64 - ((64 + ?e) AND 63)) AND 63"
  let ?T = "64 + ?e + ?p"
  let ?A = "RTE_ALIGN (64 + RTE_ALIGN (unat elt_size) 8) 64"
  note s = aligned_sizes [OF elt]
  have h: "align_ceil32 8 64 = 64" by (simp add: align_ceil32_def)
  have b: "RTE_ALIGN (unat elt_size) 8 < 2 ^ 31 + 8" "?A < RTE_ALIGN (unat elt_size) 8 + 128"
    "64 + RTE_ALIGN (unat elt_size) 8 \<le> ?A" "64 dvd ?A"
    using RTE_ALIGN_bounds(2) [of 8 "unat elt_size"] RTE_ALIGN_bounds [of 64 "64 + RTE_ALIGN (unat elt_size) 8"] elt
    by simp_all
  define outcome where "outcome new = (new, sz\<lparr>sz_header_size := 64, sz_elt_size := ?e,
      sz_trailer_size := new - 64 - ?e, sz_total_size := new\<rparr>)" for new
  have ok: "\<exists>t sz'. outcome new = (t, sz') \<and> t = sz_total_size sz' \<and> unat (sz_header_size sz') = 64
      \<and> unat (sz_elt_size sz') = RTE_ALIGN (unat elt_size) 8
      \<and> unat t = unat (sz_header_size sz') + unat (sz_elt_size sz') + unat (sz_trailer_size sz')
      \<and> t = new" if new: "?A \<le> unat new" for new
  proof -
    have "unat (new - 64) = unat new - 64"
      using new b(3) by (subst unat_sub) (simp_all add: word_le_nat_alt)
    moreover have "unat (new - 64 - ?e) = unat (new - 64) - unat ?e"
      using new b(3) s(1) calculation by (intro unat_sub) (simp add: word_le_nat_alt)
    ultimately show ?thesis using new b(3) s(1) by (simp add: outcome_def)
  qed
  have T: "unat ?T = ?A" by (rule s(2))
  show ?thesis
  proof (cases "flags AND MEMPOOL_F_NO_SPREAD = 0")
    case True
    have "unat ?T + 64 * (m + 2) < 2 ^ 32" unfolding T using b(1,2) small by simp
    then obtain new where new: "optimize_object_size nchannel nrank ?T = Some new" "unat ?T \<le> unat new"
      "64 dvd unat new" "coprime (unat new div 64) m"
      using optimize_ok [OF m pos] by blast
    have "rte_mempool_calc_obj_size True page_size nchannel nrank elt_size flags sz = Some (outcome new)"
      using flag True new(1) by (simp add: rte_mempool_calc_obj_size_def outcome_def RTE_MEMPOOL_ALIGN_def
          RTE_MEMPOOL_ALIGN_MASK_def h Let_def)
    then show ?thesis using ok [of new] new(2-4) T by auto
  next
    case False
    have "rte_mempool_calc_obj_size True page_size nchannel nrank elt_size flags sz = Some (outcome ?T)"
      using flag False by (simp add: rte_mempool_calc_obj_size_def outcome_def RTE_MEMPOOL_ALIGN_def
          RTE_MEMPOOL_ALIGN_MASK_def h Let_def)
    then show ?thesis using ok [of ?T] b(4) T False by auto
  qed
qed

section \<open>Properties\<close>

text \<open>
  C38. With huge pages and cache-aligned objects, computing the object size ends and gives a
  header of one cache line, an element rounded up to eight bytes and a trailer that together are
  the total, in whole cache lines; with spreading, the number of cache lines has no common factor
  with the number of memory channels times ranks. So consecutive objects start on different
  channels, and the search for such a size ends.
\<close>
theorem mempool_obj_size:
  assumes m: "m = unat ((if nrank = 0 then 1 else nrank) * (if nchannel = 0 then 4 else nchannel))"
    and pos: "0 < m" and small: "m < 2 ^ 20" and elt: "unat elt_size < 2 ^ 31"
    and flag: "flags AND MEMPOOL_F_NO_CACHE_ALIGN = 0"
  shows "\<exists>t sz'. rte_mempool_calc_obj_size True page_size nchannel nrank elt_size flags sz = Some (t, sz')
    \<and> t = sz_total_size sz' \<and> unat (sz_header_size sz') = 64
    \<and> unat (sz_elt_size sz') = RTE_ALIGN (unat elt_size) 8
    \<and> unat t = unat (sz_header_size sz') + unat (sz_elt_size sz') + unat (sz_trailer_size sz')
    \<and> 64 dvd unat t
    \<and> (flags AND MEMPOOL_F_NO_SPREAD = 0 \<longrightarrow> coprime (unat t div 64) m)"
  by (rule calc_obj_size_ok [OF assms])

theorem mempool_obj_size_witness:
  "\<exists>t sz'. rte_mempool_calc_obj_size True 4096 4 0 2304 0
       \<lparr>sz_elt_size = 0, sz_header_size = 0, sz_trailer_size = 0, sz_total_size = 0\<rparr> = Some (t, sz')
    \<and> 64 dvd unat t \<and> coprime (unat t div 64) 4"
  using mempool_obj_size [of 4 0 4 2304 0 4096
      "\<lparr>sz_elt_size = 0, sz_header_size = 0, sz_trailer_size = 0, sz_total_size = 0\<rparr>"]
  by auto

text \<open>
  Cutting an area into objects always ends, though its loop tests for inequality only, never
  reads outside the table of physical pages, and yields at most the requested number of objects:
  in ascending order without overlap, of the requested size, inside the pages of the area, and
  never across two pages that are not adjacent in physical memory.
\<close>
theorem mempool_obj_iter_placement:
  assumes "0 < elt_sz" and "pg_num \<le> length paddr"
  shows "\<exists>objs. rte_mempool_obj_iter vaddr elt_num elt_sz 1 paddr pg_num pg_shift collect [] = Some (length objs, objs)
    \<and> length objs \<le> elt_num \<and> objs_ok paddr pg_num (2 ^ pg_shift) elt_sz vaddr objs"
  unfolding rte_mempool_obj_iter_def
  using assms by (intro obj_iter_loop_ok) (simp_all add: objs_ok_def)

theorem mempool_obj_iter_placement_witness:
  "\<exists>objs. rte_mempool_obj_iter 4096 5 1500 1 [8192, 12288, 40960] 3 12 collect [] = Some (length objs, objs)
    \<and> length objs \<le> 5 \<and> objs_ok [8192, 12288, 40960] 3 (2 ^ 12) 1500 4096 objs"
  by (rule mempool_obj_iter_placement) simp_all

end
