(* ===== verification/Spp_World.thy ===== *)
theory Spp_World
  imports Spp_Burst Rte_Mempool_Layout
begin

text \<open>
  The packet buffers of a patch panel: those in rings, in pools and in the hands of other
  drivers. A state consists of the port table and rings of \<open>Rte_Ethdev\<close> and, shared with the
  other drivers, the memory pools; each buffer names its pool. This theory defines the state,
  the ownership invariant and shows that the burst functions and \<open>rte_mempool_put\<close> meet the
  contract \<open>data_plane\<close>.
\<close>

unbundle bit_operations_syntax

section \<open>State\<close>

text \<open>
  The memory pools by address, the \<open>pool\<close> field of each buffer, and the private state of the
  drivers other than the ring driver, which take buffers from pools and give them back.
\<close>
record ('m, 'y) dev_mem =
  mempool_tailq :: "u64 list"
  mempool_at :: "u64 \<rightharpoonup> 'm rte_mempool"
  mbuf_pool :: "'m \<rightharpoonup> u64"
  dev_priv :: 'y

type_synonym ('h, 'm, 'y) spp_eal = "('h, 'm, ('m, 'y) dev_mem) eth_eal"
type_synonym ('m, 'y) drivers = "('m, ('m, 'y) dev_mem) other_pmd"

text \<open>\<open>rte_mempool_put(m->pool, m)\<close> on the given core; \<^term>\<open>None\<close> when \<open>m\<close> is no buffer of a pool.\<close>
definition mbuf_put :: "nat \<Rightarrow> ('h, 'm, 'y) spp_eal \<Rightarrow> 'm \<Rightarrow> ('h, 'm, 'y) spp_eal option" where
  "mbuf_put lcore e m =
     do { a \<leftarrow> mbuf_pool (other_state e) m;
          mp \<leftarrow> mempool_at (other_state e) a;
          mp \<leftarrow> rte_mempool_put lcore mp m;
          Some (e\<lparr>other_state := (other_state e)\<lparr>mempool_at := (mempool_at (other_state e))(a \<mapsto> mp)\<rparr>\<rparr>) }"

text \<open>The list of pools in the order of \<open>rte_mempool_tailq\<close>; the inner \<^term>\<open>None\<close> is the end of the list.\<close>
fun mempool_lookup_loop :: "(u64 \<rightharpoonup> 'm rte_mempool) \<Rightarrow> string \<Rightarrow> u64 list \<Rightarrow> u64 option option" where
  "mempool_lookup_loop mps name [] = Some None"
| "mempool_lookup_loop mps name (a # q) =
     do { mp \<leftarrow> mps a;
          if strncmp_eq name (mp_name mp) RTE_MEMPOOL_NAMESIZE then Some (Some a)
          else mempool_lookup_loop mps name q }"

definition rte_mempool_lookup :: "('h, 'm, 'y) spp_eal \<Rightarrow> string \<Rightarrow> (u64 \<times> ('h, 'm, 'y) spp_eal) option" where
  "rte_mempool_lookup e name =
     do { te \<leftarrow> mempool_lookup_loop (mempool_at (other_state e)) name (mempool_tailq (other_state e));
          case te of None \<Rightarrow> Some (0, e\<lparr>rte_errno := ENOENT\<rparr>)
                   | Some a \<Rightarrow> Some (a, e) }"

section \<open>Where the buffers are\<close>

definition map_mset :: "('b \<Rightarrow> 'm multiset) \<Rightarrow> (u64 \<rightharpoonup> 'b) \<Rightarrow> 'm multiset" where
  "map_mset f m = (\<Sum>a\<in>dom m. f (the (m a)))"

lemma map_mset_upd:
  assumes "finite (dom m)" and "m a = Some b"
  shows "map_mset f (m(a \<mapsto> b')) + f b = map_mset f m + f b'"
proof -
  have a: "a \<in> dom m" using assms(2) by blast
  have "(\<Sum>x\<in>dom m - {a}. f (the ((m(a \<mapsto> b')) x))) = (\<Sum>x\<in>dom m - {a}. f (the (m x)))"
    by (rule sum.cong) auto
  then show ?thesis
    using assms a by (simp add: map_mset_def insert_absorb sum.remove [OF assms(1) a])
qed

lemma map_mset_in: "finite (dom m) \<Longrightarrow> m a = Some b \<Longrightarrow> f b \<subseteq># map_mset f m"
  unfolding map_mset_def by (subst sum.remove [of _ a]) auto

abbreviation rings_mset :: "(u64 \<rightharpoonup> 'm rte_ring) \<Rightarrow> 'm multiset" where
  "rings_mset \<equiv> map_mset (\<lambda>r. mset (ring_list r))"

text \<open>In the pools and with the other drivers; \<open>dins\<close> says what these hold.\<close>
definition mem_total :: "('y \<Rightarrow> 'm multiset) \<Rightarrow> ('m, 'y) dev_mem \<Rightarrow> 'm multiset" where
  "mem_total dins x = map_mset pool_mset (mempool_at x) + dins (dev_priv x)"

definition inside :: "('y \<Rightarrow> 'm multiset) \<Rightarrow> ('h, 'm, 'y) spp_eal \<Rightarrow> 'm multiset" where
  "inside dins e = rings_mset (ring_at e) + mem_total dins (other_state e)"

definition own :: "('m, 'y) dev_mem \<Rightarrow> u64 \<Rightarrow> 'm \<Rightarrow> bool" where
  "own x a m \<longleftrightarrow> mbuf_pool x m = Some a"

text \<open>
  With \<open>T\<close> all buffers there are: every buffer belongs to a pool, no pool has more of them than
  its size, and pools hold only their own.
\<close>
definition mem_inv :: "('m, 'y) dev_mem \<Rightarrow> 'm multiset \<Rightarrow> bool" where
  "mem_inv x T \<longleftrightarrow> finite (dom (mempool_at x))
     \<and> (\<forall>m\<in>#T. \<exists>a\<in>dom (mempool_at x). own x a m)
     \<and> (\<forall>a mp. mempool_at x a = Some mp \<longrightarrow> pool_inv mp \<and> (\<forall>m\<in>#pool_mset mp. own x a m)
           \<and> size (filter_mset (own x a) T) \<le> unat (mp_size mp))"

text \<open>
  What the patch panel relies on of the other drivers: a receive burst returns at most as many
  buffers as asked for and takes them from the pools or the driver's stock, a transmit burst
  takes over a prefix of the buffers, and the pools stay well-formed.
\<close>
definition driver_ok :: "('m, 'y) drivers \<Rightarrow> ('y \<Rightarrow> 'm multiset) \<Rightarrow> bool" where
  "driver_ok oth dins \<longleftrightarrow>
     (\<forall>x T p n. mem_inv x T \<and> mem_total dins x \<subseteq># T \<longrightarrow>
        (case other_rx oth x p 0 n of (ms, x') \<Rightarrow>
           length ms \<le> unat n \<and> mem_total dins x' + mset ms = mem_total dins x \<and> mem_inv x' T)) \<and>
     (\<forall>x T p ms. mem_inv x T \<and> mem_total dins x + mset ms \<subseteq># T \<longrightarrow>
        (case other_tx oth x p 0 ms of (k, x') \<Rightarrow>
           unat k \<le> length ms \<and> mem_total dins x' = mem_total dins x + mset (take (unat k) ms) \<and> mem_inv x' T))"

definition world_inv :: "('y \<Rightarrow> 'm multiset) \<Rightarrow> ('h, 'm, 'y) spp_eal \<Rightarrow> 'm multiset \<Rightarrow> bool" where
  "world_inv dins e h \<longleftrightarrow> eth_inv e
     \<and> finite (dom (ring_at e)) \<and> (\<forall>r\<in>ran (ring_at e). ring_inv r)
     \<and> mem_inv (other_state e) (inside dins e + h)"

text \<open>A port in service: backed by a ring that exists, or served by a driver that keeps the contract.\<close>
definition port_up :: "('m, 'y) drivers \<Rightarrow> ('y \<Rightarrow> 'm multiset) \<Rightarrow> ('h, 'm, 'y) spp_eal \<Rightarrow> u8 \<Rightarrow> bool" where
  "port_up oth dins e p \<longleftrightarrow> unat p < RTE_MAX_ETHPORTS \<and>
     (let d = rte_eth_devices e ! unat p
      in (\<exists>a\<in>dom (ring_at e). ring_port d a) \<or> dev_pmd d = Some Pmd_Other \<and> driver_ok oth dins)"

section \<open>The contract holds\<close>

lemma driver_rx:
  assumes "driver_ok oth dins" and "mem_inv x T" and "mem_total dins x \<subseteq># T" and "other_rx oth x p 0 n = (ms, x')"
  shows "length ms \<le> unat n \<and> mem_total dins x' + mset ms = mem_total dins x \<and> mem_inv x' T"
proof -
  have "mem_inv x T \<and> mem_total dins x \<subseteq># T \<longrightarrow>
        (case other_rx oth x p 0 n of (ms, x') \<Rightarrow>
           length ms \<le> unat n \<and> mem_total dins x' + mset ms = mem_total dins x \<and> mem_inv x' T)"
    using assms(1) [unfolded driver_ok_def, THEN conjunct1, rule_format, of x T n p] by simp
  then show ?thesis using assms by simp
qed

lemma driver_tx:
  assumes "driver_ok oth dins" and "mem_inv x T" and "mem_total dins x + mset ms \<subseteq># T" and "other_tx oth x p 0 ms = (k, x')"
  shows "unat k \<le> length ms \<and> mem_total dins x' = mem_total dins x + mset (take (unat k) ms) \<and> mem_inv x' T"
proof -
  have "mem_inv x T \<and> mem_total dins x + mset ms \<subseteq># T \<longrightarrow>
        (case other_tx oth x p 0 ms of (k, x') \<Rightarrow>
           unat k \<le> length ms \<and> mem_total dins x' = mem_total dins x + mset (take (unat k) ms) \<and> mem_inv x' T)"
    using assms(1) [unfolded driver_ok_def, THEN conjunct2, rule_format, of x T ms p] by simp
  then show ?thesis using assms by simp
qed

lemma eth_inv_dev:
  assumes "eth_inv e" and "p < length (rte_eth_devices e)" and "dev_attached d = dev_attached (rte_eth_devices e ! p)"
    and "length (dd_name (dev_data d)) < RTE_ETH_NAME_MAX_LEN"
  shows "eth_inv (e\<lparr>rte_eth_devices := (rte_eth_devices e)[p := d]\<rparr>)"
  using length_filter_update [OF assms(2), of dev_attached d] assms
  by (auto simp: eth_inv_def list_all_update)

lemma eth_inv_frame [simp]:
  "eth_inv (e\<lparr>other_state := x\<rparr>) = eth_inv e" "eth_inv (e\<lparr>ring_at := r\<rparr>) = eth_inv e"
  by (simp_all add: eth_inv_def)

lemma eth_inv_length: "eth_inv e \<Longrightarrow> length (rte_eth_devices e) = RTE_MAX_ETHPORTS"
  by (simp add: eth_inv_def)

lemma world_inv_length: "world_inv dins e h \<Longrightarrow> length (rte_eth_devices e) = RTE_MAX_ETHPORTS"
  by (simp add: world_inv_def eth_inv_length)

lemma eth_inv_moved:
  assumes "eth_inv e" and "moved_ring e p a r' e'" and "p < length (rte_eth_devices e)"
  shows "eth_inv e'"
proof -
  obtain d' where d: "dev_attached d' = dev_attached (rte_eth_devices e ! p)" "dev_data d' = dev_data (rte_eth_devices e ! p)"
    and e': "e' = e\<lparr>ring_at := (ring_at e)(a \<mapsto> r'), rte_eth_devices := (rte_eth_devices e)[p := d']\<rparr>"
    using assms(2) unfolding moved_ring_def by blast
  let ?e = "e\<lparr>ring_at := (ring_at e)(a \<mapsto> r')\<rparr>"
  have "length (dd_name (dev_data (rte_eth_devices e ! p))) < RTE_ETH_NAME_MAX_LEN"
    using assms(1,3) by (simp add: eth_inv_def list_all_length)
  then show ?thesis using eth_inv_dev [of ?e p d'] assms(1,3) d by (simp add: e')
qed

lemma port_up_moved:
  assumes "moved_ring e p a r' e'" and "ring_at e a \<noteq> None" and "ring_port (rte_eth_devices e ! p) a"
    and "p < length (rte_eth_devices e)"
  shows "port_up oth dins e' = port_up oth dins e"
proof -
  obtain d' where d: "ring_port d' a" "e' = e\<lparr>ring_at := (ring_at e)(a \<mapsto> r'), rte_eth_devices := (rte_eth_devices e)[p := d']\<rparr>"
    using assms(1) unfolding moved_ring_def by blast
  have "dom (ring_at e') = dom (ring_at e)" using assms(2) d(2) by auto
  moreover have "a \<in> dom (ring_at e)" using assms(2) by auto
  ultimately show ?thesis
    using d(1) assms(3,4) by (auto simp: port_up_def fun_eq_iff d(2) nth_list_update Let_def)
qed

lemma world_inv_moved:
  assumes inv: "world_inv dins e h" and mv: "moved_ring e p a r' e'" and p: "p < length (rte_eth_devices e)"
    and r: "ring_at e a = Some r" "ring_inv r'"
    and same: "inside dins e' + h' = inside dins e + h"
  shows "world_inv dins e' h'"
proof -
  obtain d' where e': "e' = e\<lparr>ring_at := (ring_at e)(a \<mapsto> r'), rte_eth_devices := (rte_eth_devices e)[p := d']\<rparr>"
    using mv unfolding moved_ring_def by blast
  have "ran (ring_at e') \<subseteq> insert r' (ran (ring_at e))" by (auto simp: e' ran_def)
  then show ?thesis using inv r(2) same eth_inv_moved [OF _ mv p] by (auto simp: world_inv_def e')
qed

lemma inside_moved:
  assumes "finite (dom (ring_at e))" and "moved_ring e p a r' e'" and "ring_at e a = Some r"
  shows "inside dins e' + mset (ring_list r) = inside dins e + mset (ring_list r')"
  using map_mset_upd [OF assms(1,3), of "\<lambda>r. mset (ring_list r)" r'] assms(2)
  by (auto simp: inside_def moved_ring_def)

lemma world_rx:
  assumes inv: "world_inv dins e h" and up: "port_up oth dins e p" and len: "unat n \<le> length bufs"
  shows "\<exists>nb bufs' e'. rte_eth_rx_burst oth e p 0 bufs n = Some (nb, bufs', e') \<and> unat nb \<le> unat n
    \<and> length bufs' = length bufs \<and> world_inv dins e' (h + mset (take (unat nb) bufs'))
    \<and> inside dins e' + mset (take (unat nb) bufs') = inside dins e \<and> port_up oth dins e' = port_up oth dins e"
proof (cases "\<exists>a\<in>dom (ring_at e). ring_port (rte_eth_devices e ! unat p) a")
  case True
  then obtain a r where r: "ring_at e a = Some r" "ring_port (rte_eth_devices e ! unat p) a" by auto
  have p: "unat p < length (rte_eth_devices e)" and fin: "finite (dom (ring_at e))" and rinv: "ring_inv r"
    using inv up r(1) by (auto simp: world_inv_def eth_inv_length port_up_def ran_def)
  obtain nb bufs' r' e' where x: "rte_eth_rx_burst oth e p 0 bufs n = Some (nb, bufs', e')" "moved_ring e (unat p) a r' e'"
    "ring_inv r'" "length bufs' = length bufs" "unat nb = min (unat n) (length (ring_list r))"
    "take (unat nb) bufs' = take (unat n) (ring_list r)" "ring_list r' = drop (unat n) (ring_list r)"
    using rx_burst_ring [OF p r(2,1) rinv len, of oth] by blast
  have "mset (ring_list r) = mset (take (unat n) (ring_list r)) + mset (ring_list r')"
    by (metis append_take_drop_id mset_append x(7))
  then have same: "inside dins e' + mset (take (unat nb) bufs') = inside dins e"
    using inside_moved [OF fin x(2) r(1), of dins] by (simp add: x(6) union_assoc [symmetric])
  have "world_inv dins e' (h + mset (take (unat nb) bufs'))"
    by (rule world_inv_moved [OF inv x(2) p r(1) x(3)]) (use same in \<open>simp add: union_ac\<close>)
  then show ?thesis
    using x(1,4,5) same port_up_moved [OF x(2) _ r(2) p, of oth dins] r(1) by simp
next
  case False
  let ?x = "other_state e" and ?R = "rings_mset (ring_at e)"
  have o: "dev_pmd (rte_eth_devices e ! unat p) = Some Pmd_Other" "driver_ok oth dins" "unat p < length (rte_eth_devices e)"
    using False up inv by (auto simp: port_up_def world_inv_length Let_def)
  obtain ms x' where ms: "other_rx oth ?x p 0 n = (ms, x')" by fastforce
  have m: "mem_inv ?x (inside dins e + h)" "mem_total dins ?x \<subseteq># inside dins e + h"
    using inv by (simp_all add: world_inv_def inside_def subset_mset.add_increasing2)
  then have res: "length ms \<le> unat n" "mem_total dins x' + mset ms = mem_total dins ?x" "mem_inv x' (inside dins e + h)"
    using driver_rx [OF o(2) _ _ ms] by blast+
  let ?e = "e\<lparr>other_state := x'\<rparr>"
  have nb: "unat (of_nat (length ms) :: u16) = length ms"
    using res(1) unsigned_less [of n, where ?'a = nat] by (intro unat_of_nat_u16) simp
  have ins: "inside dins ?e + mset ms = inside dins e" using res(2) by (simp add: inside_def union_assoc)
  then have tot: "inside dins ?e + (h + mset ms) = inside dins e + h" by (metis union_assoc union_commute)
  have "world_inv dins ?e (h + mset ms)" using inv res(3) unfolding world_inv_def tot by simp
  moreover have "port_up oth dins ?e = port_up oth dins e" by (simp add: port_up_def fun_eq_iff)
  moreover have "rte_eth_rx_burst oth e p 0 bufs n =
      Some (of_nat (length ms), ms @ drop (length ms) bufs, ?e)"
    using o ms res(1) len by (simp add: rte_eth_rx_burst_def)
  ultimately show ?thesis using res(1) len ins nb by simp
qed

lemma world_tx:
  assumes inv: "world_inv dins e (h + mset (take (unat n) bufs))" and up: "port_up oth dins e p"
    and len: "unat n \<le> length bufs"
  shows "\<exists>nb e'. rte_eth_tx_burst oth e p 0 bufs n = Some (nb, e') \<and> unat nb \<le> unat n
    \<and> world_inv dins e' (h + mset (drop (unat nb) (take (unat n) bufs)))
    \<and> inside dins e' = inside dins e + mset (take (unat nb) bufs) \<and> port_up oth dins e' = port_up oth dins e"
proof -
  have split: "mset (take (unat n) bufs) = mset (take k bufs) + mset (drop k (take (unat n) bufs))" if "k \<le> unat n" for k
    using that by (metis append_take_drop_id min.absorb1 mset_append take_take)
  show ?thesis
  proof (cases "\<exists>a\<in>dom (ring_at e). ring_port (rte_eth_devices e ! unat p) a")
    case True
    then obtain a r where r: "ring_at e a = Some r" "ring_port (rte_eth_devices e ! unat p) a" by auto
    have p: "unat p < length (rte_eth_devices e)" and fin: "finite (dom (ring_at e))" and rinv: "ring_inv r"
      using inv up r(1) by (auto simp: world_inv_def eth_inv_length port_up_def ran_def)
    obtain nb r' e' where x: "rte_eth_tx_burst oth e p 0 bufs n = Some (nb, e')" "moved_ring e (unat p) a r' e'"
      "ring_inv r'" "unat nb = min (unat n) (ring_free_n r)" "ring_list r' = ring_list r @ take (unat nb) bufs"
      using tx_burst_ring [OF p r(2,1) rinv len, of oth] by blast
    have ins: "inside dins e' = inside dins e + mset (take (unat nb) bufs)"
      using inside_moved [OF fin x(2) r(1), of dins] by (simp add: x(5) union_assoc [symmetric])
    have nb: "unat nb \<le> unat n" using x(4) by simp
    have "world_inv dins e' (h + mset (drop (unat nb) (take (unat n) bufs)))"
      by (rule world_inv_moved [OF inv x(2) p r(1) x(3)]) (simp only: ins split [OF nb] union_ac)
    then show ?thesis
      using x(1) nb ins port_up_moved [OF x(2) _ r(2) p, of oth dins] r(1) by simp
  next
    case False
    let ?x = "other_state e" and ?ms = "take (unat n) bufs"
    have o: "dev_pmd (rte_eth_devices e ! unat p) = Some Pmd_Other" "driver_ok oth dins" "unat p < length (rte_eth_devices e)"
      using False up inv by (auto simp: port_up_def world_inv_length Let_def)
    obtain k x' where k: "other_tx oth ?x p 0 ?ms = (k, x')" by fastforce
    let ?T = "inside dins e + (h + mset ?ms)"
    have "mem_inv ?x ?T" "mem_total dins ?x + mset ?ms \<subseteq># ?T"
      using inv by (simp_all add: world_inv_def inside_def subset_mset.add_increasing subset_mset.add_mono
          union_assoc [of "mem_total dins ?x"] subset_mset.add_increasing2)
    then have res: "unat k \<le> length ?ms" "mem_total dins x' = mem_total dins ?x + mset (take (unat k) ?ms)" "mem_inv x' ?T"
      using driver_tx [OF o(2) _ _ k] by blast+
    let ?e = "e\<lparr>other_state := x'\<rparr>"
    have kn: "unat k \<le> unat n" using res(1) len by simp
    have ins: "inside dins ?e = inside dins e + mset (take (unat k) bufs)"
      using res(2) kn by (simp add: inside_def union_assoc min_absorb1)
    have tot: "inside dins ?e + (h + mset (drop (unat k) ?ms)) = ?T"
      by (simp only: ins split [OF kn] union_ac)
    have "world_inv dins ?e (h + mset (drop (unat k) ?ms))" using inv res(3) unfolding world_inv_def tot by simp
    moreover have "port_up oth dins ?e = port_up oth dins e" by (simp add: port_up_def fun_eq_iff)
    moreover have "rte_eth_tx_burst oth e p 0 bufs n = Some (k, ?e)"
      using o k len by (simp add: rte_eth_tx_burst_def)
    ultimately show ?thesis using kn ins by simp
  qed
qed

lemma own_upd [simp]: "own (x\<lparr>mempool_at := f\<rparr>) = own x"
  by (simp add: own_def fun_eq_iff)

lemma mem_inv_pool:
  assumes "mem_inv x T" and "mempool_at x a = Some mp" and "pool_inv mp'" and "pool_frame mp mp'"
    and "\<forall>m\<in>#pool_mset mp'. own x a m"
  shows "mem_inv (x\<lparr>mempool_at := (mempool_at x)(a \<mapsto> mp')\<rparr>) T"
  using assms pool_frame_fields [OF assms(4)] unfolding mem_inv_def by (auto simp: domI)

text \<open>The pool at \<open>a\<close> with new contents.\<close>
definition set_pool :: "u64 \<Rightarrow> 'm rte_mempool \<Rightarrow> ('h, 'm, 'y) spp_eal \<Rightarrow> ('h, 'm, 'y) spp_eal" where
  "set_pool a mp e = e\<lparr>other_state := (other_state e)\<lparr>mempool_at := (mempool_at (other_state e))(a \<mapsto> mp)\<rparr>\<rparr>"

text \<open>A pool has room for its own buffers that are held outside.\<close>
lemma pool_has_room:
  assumes inv: "world_inv dins e (mset ms + h)" and mp: "mempool_at (other_state e) a = Some mp"
    and own: "\<forall>m\<in>set ms. own (other_state e) a m"
  shows "pool_inv mp" and "\<forall>m\<in>#pool_mset mp. own (other_state e) a m"
    and "size (pool_mset mp) + length ms \<le> unat (mp_size mp)"
proof -
  let ?x = "other_state e" and ?T = "inside dins e + (mset ms + h)"
  have minv: "mem_inv ?x ?T" and fin: "finite (dom (mempool_at ?x))"
    using inv by (simp_all add: world_inv_def mem_inv_def)
  show pi: "pool_inv mp" and po: "\<forall>m\<in>#pool_mset mp. own ?x a m" using minv mp by (simp_all add: mem_inv_def)
  have "pool_mset mp \<subseteq># inside dins e"
    using map_mset_in [OF fin mp, of pool_mset]
    by (simp add: inside_def mem_total_def subset_mset.add_increasing subset_mset.add_increasing2)
  then have "pool_mset mp + mset ms \<subseteq># ?T" by (simp add: subset_mset.add_mono)
  then have "filter_mset (own ?x a) (pool_mset mp + mset ms) \<subseteq># filter_mset (own ?x a) ?T"
    by (rule multiset_filter_mono)
  moreover have "filter_mset (own ?x a) (pool_mset mp + mset ms) = pool_mset mp + mset ms"
    using po own by (intro iffD2 [OF filter_mset_eq_conv]) auto
  moreover have "size (filter_mset (own ?x a) ?T) \<le> unat (mp_size mp)" using minv mp by (simp add: mem_inv_def)
  ultimately show "size (pool_mset mp) + length ms \<le> unat (mp_size mp)"
    by (metis le_trans size_mset size_mset_mono size_union)
qed

text \<open>Buffers move between a pool and the caller.\<close>
lemma world_set_pool:
  assumes inv: "world_inv dins e (h1 + h)" and mp: "mempool_at (other_state e) a = Some mp"
    and new: "pool_inv mp'" "pool_frame mp mp'" "\<forall>m\<in>#pool_mset mp'. own (other_state e) a m"
    and move: "pool_mset mp' + h2 = pool_mset mp + h1"
  shows "world_inv dins (set_pool a mp' e) (h2 + h) \<and> inside dins (set_pool a mp' e) + h2 = inside dins e + h1
    \<and> port_up oth dins (set_pool a mp' e) = port_up oth dins e"
proof -
  let ?x = "other_state e" and ?e = "set_pool a mp' e"
  have minv: "mem_inv ?x (inside dins e + (h1 + h))" and fin: "finite (dom (mempool_at ?x))"
    using inv by (simp_all add: world_inv_def mem_inv_def)
  have "inside dins ?e + pool_mset mp = inside dins e + pool_mset mp'"
    using map_mset_upd [OF fin mp, of pool_mset mp'] by (simp add: inside_def mem_total_def set_pool_def ac_simps)
  then have "inside dins ?e + h2 + pool_mset mp = inside dins e + h1 + pool_mset mp"
    using move by (metis add.assoc add.commute)
  then have ins: "inside dins ?e + h2 = inside dins e + h1" by simp
  then have T: "inside dins ?e + (h2 + h) = inside dins e + (h1 + h)" by (simp add: add.assoc [symmetric])
  have "mem_inv (other_state ?e) (inside dins e + (h1 + h))"
    using mem_inv_pool [OF minv mp new] by (simp add: set_pool_def)
  then have "world_inv dins ?e (h2 + h)" using inv unfolding world_inv_def T by (simp add: set_pool_def)
  moreover have "port_up oth dins ?e = port_up oth dins e" by (simp add: port_up_def fun_eq_iff set_pool_def)
  ultimately show ?thesis using ins by blast
qed

lemma world_put:
  assumes inv: "world_inv dins e (add_mset m h)"
  shows "\<exists>e'. mbuf_put lcore e m = Some e' \<and> world_inv dins e' h \<and> inside dins e' = add_mset m (inside dins e)
    \<and> port_up oth dins e' = port_up oth dins e"
proof -
  have inv1: "world_inv dins e (mset [m] + h)" using inv by simp
  obtain a mp where a: "mbuf_pool (other_state e) m = Some a" "mempool_at (other_state e) a = Some mp"
    using inv by (auto simp: world_inv_def mem_inv_def own_def)
  then have own: "\<forall>x\<in>set [m]. own (other_state e) a x" by (simp add: own_def)
  note room = pool_has_room [OF inv1 a(2) own]
  obtain mp' where put: "rte_mempool_put lcore mp m = Some mp'" "pool_inv mp'" "pool_frame mp mp'"
    "pool_mset mp' = add_mset m (pool_mset mp)"
    using mempool_put_result [OF room(1), of 1 "[m]"] room(3)
    unfolding rte_mempool_put_def rte_mempool_put_bulk_def by fastforce
  then show ?thesis
    using world_set_pool [of dins e "{#m#}" h a mp mp' "{#}" oth] inv a own room(2)
    by (simp add: mbuf_put_def set_pool_def)
qed

interpretation dp: data_plane "world_inv dins" "inside dins" "port_up oth dins" "rte_eth_rx_burst oth" "rte_eth_tx_burst oth"
  "mbuf_put lcore" for dins oth lcore
  by unfold_locales (rule world_rx world_tx world_put; assumption)+

section \<open>From ring to ring\<close>

lemma mbuf_put_frame:
  assumes "mbuf_put lcore e m = Some e'"
  shows "ring_at e' = ring_at e \<and> rte_eth_devices e' = rte_eth_devices e"
  using assms by (auto simp: mbuf_put_def split: bind_splits)

lemma free_unsent_frame:
  assumes "free_unsent (mbuf_put lcore) bufs k i e = Some e'"
  shows "ring_at e' = ring_at e \<and> rte_eth_devices e' = rte_eth_devices e"
  using assms
proof (induction k arbitrary: i e)
  case (Suc k)
  then obtain e1 where "mbuf_put lcore e (bufs ! i) = Some e1" "free_unsent (mbuf_put lcore) bufs k (i + 1) e1 = Some e'"
    by (auto simp: aget_def split: bind_splits if_splits)
  then show ?case using Suc.IH mbuf_put_frame by metis
qed simp

lemma ring_port_unique: "ring_port d a \<Longrightarrow> ring_port d b \<Longrightarrow> a = b"
  by (auto simp: ring_port_def split: option.splits pmd.splits)

text \<open>
  One transfer between two ring-backed ports: up to 32 packets leave the first ring in order, as
  many as fit enter the second in the same order.
\<close>
lemma burst_move_rings:
  assumes inv: "world_inv dins e h" and p: "unat i < RTE_MAX_ETHPORTS" "unat j < RTE_MAX_ETHPORTS"
    and d: "ring_port (rte_eth_devices e ! unat i) a" "ring_port (rte_eth_devices e ! unat j) b"
    and r: "ring_at e a = Some ra" "ring_at e b = Some rb" and "a \<noteq> b"
  shows "\<exists>e' ra' rb'. burst_move (rte_eth_rx_burst oth) (rte_eth_tx_burst oth) (mbuf_put lcore) z i j e = Some e'
    \<and> ring_at e' = (ring_at e)(a \<mapsto> ra', b \<mapsto> rb') \<and> ring_list ra' = drop 32 (ring_list ra)
    \<and> ring_list rb' = ring_list rb @ take (ring_free_n rb) (take 32 (ring_list ra))"
proof -
  let ?mv = "burst_move (rte_eth_rx_burst oth) (rte_eth_tx_burst oth) (mbuf_put lcore) z i j e"
  let ?b = "replicate 32 z"
  have len: "length (rte_eth_devices e) = RTE_MAX_ETHPORTS" and rinv: "ring_inv ra" "ring_inv rb"
    using inv r by (auto simp: world_inv_def eth_inv_length ran_def)
  have up: "port_up oth dins e i" "port_up oth dins e j" using p d r by (auto simp: port_up_def Let_def)
  obtain e' where e': "?mv = Some e'" using dp.burst_move_conserves [OF inv up, of lcore z] by blast
  have 32: "unat (MAX_PKT_BURST) = 32" by (simp add: MAX_PKT_BURST_def)
  obtain nb bufs ra' e1 where x: "rte_eth_rx_burst oth e i 0 ?b MAX_PKT_BURST = Some (nb, bufs, e1)"
    "moved_ring e (unat i) a ra' e1" "length bufs = 32" "unat nb = min 32 (length (ring_list ra))"
    "take (unat nb) bufs = take 32 (ring_list ra)" "ring_list ra' = drop 32 (ring_list ra)"
    using rx_burst_ring [OF _ d(1) r(1) rinv(1), of MAX_PKT_BURST ?b oth] p(1) len by (auto simp: 32)
  obtain d' where d': "ring_port d' a" "e1 = e\<lparr>ring_at := (ring_at e)(a \<mapsto> ra'), rte_eth_devices := (rte_eth_devices e)[unat i := d']\<rparr>"
    using x(2) unfolding moved_ring_def by blast
  have ij: "unat i \<noteq> unat j" using d \<open>a \<noteq> b\<close> using ring_port_unique by metis
  show ?thesis
  proof (cases "nb = 0")
    case True
    then have "ring_list ra = []" using x(4) by (simp add: min_def split: if_splits)
    then show ?thesis
      using True x(1,6) r \<open>a \<noteq> b\<close> by (intro exI [of _ e1] exI [of _ ra'] exI [of _ rb])
        (auto simp: burst_move_def 32 d'(2) fun_eq_iff)
  next
    case False
    have j: "unat j < length (rte_eth_devices e1)" "ring_port (rte_eth_devices e1 ! unat j) b" "ring_at e1 b = Some rb"
      using d'(2) ij p(2) len d(2) r(2) \<open>a \<noteq> b\<close> by simp_all
    have nb: "unat nb \<le> length bufs" using x(3,4) by simp
    obtain k rb' e2 where y: "rte_eth_tx_burst oth e1 j 0 bufs nb = Some (k, e2)" "moved_ring e1 (unat j) b rb' e2"
      "unat k = min (unat nb) (ring_free_n rb)" "ring_list rb' = ring_list rb @ take (unat k) bufs"
      using tx_burst_ring [OF j rinv(2) nb, of oth] by blast
    have "take (unat k) bufs = take (ring_free_n rb) (take 32 (ring_list ra))"
      using x(5) y(3) by (metis min.commute take_take)
    moreover have "ring_at e2 = (ring_at e)(a \<mapsto> ra', b \<mapsto> rb')"
      using y(2) d'(2) by (auto simp: moved_ring_def)
    moreover have "ring_at e' = ring_at e2"
      using e' False x(1) y(1) by (auto simp: burst_move_def 32 dest: free_unsent_frame split: if_splits)
    ultimately show ?thesis using e' x(6) y(4) by auto
  qed
qed

end
