(* ===== verification/Spp_Zerocpy.thy ===== *)
theory Spp_Zerocpy
  imports Spp_World
begin

text \<open>
  The zero-copy secondary process (\<open>sec_zerocpy/sec_zerocpy.c\<close>): its forwarding table, the
  operations on the table, the forwarding loop over all ports, the single-pair loop and one turn
  of the main loop of the forwarding core.
\<close>

unbundle bit_operations_syntax

section \<open>State\<close>

datatype cmd_type = STOP | START | ADD | DEL | READY | LOOPBACK | FORWARD | RXTX

text \<open>The only functions whose addresses the program takes; a null pointer is \<^term>\<open>None\<close>.\<close>
datatype rx_fn = Fn_rte_eth_rx_burst
datatype tx_fn = Fn_rte_eth_tx_burst

record port =
  port_status :: int
  port_kind :: port_type
  port_rx_func :: "rx_fn option"
  port_tx_func :: "tx_fn option"
  port_out_port_id :: int

text \<open>The global variables of the program, and the state of the libraries.\<close>
record ('h, 'm, 'y) sec =
  client_id :: u8
  cmd :: cmd_type
  exec_pos :: u32
  save_pos :: u32
  rx_ports :: "u32 list"
  rx_funcs :: "rx_fn option list"
  tx_ports :: "u32 list"
  tx_funcs :: "tx_fn option list"
  rx_rings :: "u32 list"
  tx_rings :: "u32 list"
  ports_fwd_array :: "port list"
  sec_eal :: "('h, 'm, 'y) spp_eal"

section \<open>The forwarding table\<close>

definition forward_array_init :: "port list \<Rightarrow> port list" where
  "forward_array_init = map (\<lambda>p. p\<lparr>port_status := - 99, port_kind := UNDEF, port_out_port_id := - 99\<rparr>)"

definition forward_array_reset :: "port list \<Rightarrow> port list" where
  "forward_array_reset = map (\<lambda>p. if port_status p > - 1 then p\<lparr>port_out_port_id := - 99\<rparr> else p)"

definition type_name :: "port_type \<Rightarrow> string" where
  "type_name t = (case t of PHY \<Rightarrow> ''PHY'' | RING \<Rightarrow> ''RING'' | VHOST \<Rightarrow> ''VHOST'' | UNDEF \<Rightarrow> ''UDF'')"

text \<open>What \<open>forward_array_print\<close> writes to the log.\<close>
definition forward_array_print :: "port list \<Rightarrow> string list" where
  "forward_array_print arr = concat (map (\<lambda>(i, p).
     [''Port ID '' @ show_nat i @ ''\<newline>'', ''Status '' @ show_int (port_status p) @ ''\<newline>'',
      ''Type: '' @ type_name (port_kind p) @ ''\<newline>'', ''Out Port ID '' @ show_int (port_out_port_id p) @ ''\<newline>''])
     (enumerate 0 arr))"

section \<open>Forwarding\<close>

definition call_rx :: "('m, 'y) drivers \<Rightarrow> rx_fn option \<Rightarrow> ('h, 'm, 'y) spp_eal \<Rightarrow> u8 \<Rightarrow> u16 \<Rightarrow> 'm list \<Rightarrow> u16 \<Rightarrow>
     (u16 \<times> 'm list \<times> ('h, 'm, 'y) spp_eal) option" where
  "call_rx oth f e p q bufs n = f \<bind> (\<lambda>_. rte_eth_rx_burst oth e p q bufs n)"

definition call_tx :: "('m, 'y) drivers \<Rightarrow> tx_fn option \<Rightarrow> ('h, 'm, 'y) spp_eal \<Rightarrow> u8 \<Rightarrow> u16 \<Rightarrow> 'm list \<Rightarrow> u16 \<Rightarrow>
     (u16 \<times> ('h, 'm, 'y) spp_eal) option" where
  "call_tx oth f e p q bufs n = f \<bind> (\<lambda>_. rte_eth_tx_burst oth e p q bufs n)"

text \<open>The entry of the out port is read only when something was received.\<close>
definition call_tx_of :: "('m, 'y) drivers \<Rightarrow> port list \<Rightarrow> int \<Rightarrow> ('h, 'm, 'y) spp_eal \<Rightarrow> u8 \<Rightarrow> u16 \<Rightarrow> 'm list \<Rightarrow> u16 \<Rightarrow>
     (u16 \<times> ('h, 'm, 'y) spp_eal) option" where
  "call_tx_of oth arr out_port e p q bufs n =
     do { dst \<leftarrow> aget arr (nat out_port); call_tx oth (port_tx_func dst) e p q bufs n }"

fun forward_loop ::
  "('m, 'y) drivers \<Rightarrow> nat \<Rightarrow> 'm \<Rightarrow> port list \<Rightarrow> nat list \<Rightarrow> ('h, 'm, 'y) spp_eal \<Rightarrow> ('h, 'm, 'y) spp_eal option" where
  "forward_loop oth lcore z arr [] e = Some e"
| "forward_loop oth lcore z arr (i # is) e =
     do { p \<leftarrow> aget arr i;
          if port_status p \<ge> 0 \<and> port_out_port_id p \<ge> 0
          then do {
            e \<leftarrow> burst_move (call_rx oth (port_rx_func p)) (call_tx_of oth arr (port_out_port_id p)) (mbuf_put lcore) z
                   (of_nat i) (word_of_int (port_out_port_id p)) e;
            forward_loop oth lcore z arr is e }
          else forward_loop oth lcore z arr is e }"

text \<open>\<open>z\<close> stands for the bytes on the stack the buffer array starts with, \<open>lcore\<close> is the core it runs on.\<close>
definition forward :: "('m, 'y) drivers \<Rightarrow> nat \<Rightarrow> 'm \<Rightarrow> port list \<Rightarrow> ('h, 'm, 'y) spp_eal \<Rightarrow> ('h, 'm, 'y) spp_eal option" where
  "forward oth lcore z arr e = forward_loop oth lcore z arr [0..<RTE_MAX_ETHPORTS] e"

definition rxtx :: "('m, 'y) drivers \<Rightarrow> nat \<Rightarrow> 'm \<Rightarrow> ('h, 'm, 'y) sec \<Rightarrow> ('h, 'm, 'y) spp_eal option" where
  "rxtx oth lcore z s =
     (let curr = unat (exec_pos s)
      in do { rf \<leftarrow> aget (rx_funcs s) curr;
              rp \<leftarrow> aget (rx_ports s) curr;
              tp \<leftarrow> aget (tx_ports s) curr;
              burst_move (call_rx oth rf)
                (\<lambda>e p q bufs n. do { tf \<leftarrow> aget (tx_funcs s) curr; call_tx oth tf e p q bufs n })
                (mbuf_put lcore) z (ucast rp) (ucast tp) (sec_eal s) })"

text \<open>One turn of the endless loop of the forwarding core; \<open>STOP\<close> sleeps.\<close>
definition nfv_loop :: "('m, 'y) drivers \<Rightarrow> nat \<Rightarrow> 'm \<Rightarrow> ('h, 'm, 'y) sec \<Rightarrow> ('h, 'm, 'y) sec option" where
  "nfv_loop oth lcore z s =
     (if cmd s = STOP then Some s
      else if cmd s = LOOPBACK \<or> cmd s = RXTX
      then do { e \<leftarrow> rxtx oth lcore z s; Some (s\<lparr>sec_eal := e\<rparr>) }
      else if cmd s = FORWARD
      then do { e \<leftarrow> forward oth lcore z (ports_fwd_array s) (sec_eal s); Some (s\<lparr>sec_eal := e\<rparr>) }
      else Some s)"

section \<open>The well-formed table\<close>

text \<open>The patches in force, in the order of the in ports.\<close>
definition active_patches :: "port list \<Rightarrow> (u8 \<times> u8) list" where
  "active_patches arr = map (\<lambda>(i, p). (of_nat i, word_of_int (port_out_port_id p)))
     (filter (\<lambda>(i, p). port_status p \<ge> 0 \<and> port_out_port_id p \<ge> 0) (enumerate 0 arr))"

text \<open>A port that is patched has its receive function, and its target exists and has its transmit function.\<close>
definition patch_ok :: "port list \<Rightarrow> port \<Rightarrow> bool" where
  "patch_ok arr p \<longleftrightarrow> (port_out_port_id p \<ge> 0 \<longrightarrow>
     port_rx_func p \<noteq> None \<and> nat (port_out_port_id p) < length arr
     \<and> port_tx_func (arr ! nat (port_out_port_id p)) \<noteq> None)"

definition table_ok :: "port list \<Rightarrow> bool" where
  "table_ok arr \<longleftrightarrow> length arr = RTE_MAX_ETHPORTS \<and> list_all (patch_ok arr) arr"

lemma call_some [simp]:
  "f \<noteq> None \<Longrightarrow> call_rx oth f = rte_eth_rx_burst oth" "g \<noteq> None \<Longrightarrow> call_tx oth g = rte_eth_tx_burst oth"
  by (auto simp: call_rx_def call_tx_def fun_eq_iff)

text \<open>The loop over the table, for any way of giving a buffer back.\<close>
fun patch_loop ::
  "('m, 'y) drivers \<Rightarrow> (('h, 'm, 'y) spp_eal \<Rightarrow> 'm \<Rightarrow> ('h, 'm, 'y) spp_eal option) \<Rightarrow> 'm \<Rightarrow> port list \<Rightarrow> nat list \<Rightarrow>
     ('h, 'm, 'y) spp_eal \<Rightarrow> ('h, 'm, 'y) spp_eal option" where
  "patch_loop oth put z arr [] e = Some e"
| "patch_loop oth put z arr (i # is) e =
     do { p \<leftarrow> aget arr i;
          if port_status p \<ge> 0 \<and> port_out_port_id p \<ge> 0
          then do {
            e \<leftarrow> burst_move (call_rx oth (port_rx_func p)) (call_tx_of oth arr (port_out_port_id p)) put z
                   (of_nat i) (word_of_int (port_out_port_id p)) e;
            patch_loop oth put z arr is e }
          else patch_loop oth put z arr is e }"

lemma patch_loop_moves:
  fixes e :: "('h, 'm, 'y) spp_eal"
  assumes "list_all (patch_ok arr) arr" and "i \<le> length arr"
  shows "patch_loop oth put z arr [i..<length arr] e =
    moves (rte_eth_rx_burst oth) (rte_eth_tx_burst oth) put z
      (map (\<lambda>(i, p). (of_nat i, word_of_int (port_out_port_id p)))
        (filter (\<lambda>(i, p). port_status p \<ge> 0 \<and> port_out_port_id p \<ge> 0) (enumerate i (drop i arr)))) e"
  using assms(2)
proof (induction "length arr - i" arbitrary: i e)
  case (Suc k)
  let ?p = "arr ! i"
  have i: "i < length arr" using Suc.hyps(2) by simp
  have d: "drop i arr = ?p # drop (Suc i) arr" using i by (simp add: Cons_nth_drop_Suc)
  have IH: "patch_loop oth put z arr [Suc i..<length arr] =
    (moves (rte_eth_rx_burst oth) (rte_eth_tx_burst oth) put z
      (map (\<lambda>(i, p). (of_nat i, word_of_int (port_out_port_id p)))
        (filter (\<lambda>(i, p). port_status p \<ge> 0 \<and> port_out_port_id p \<ge> 0) (enumerate (Suc i) (drop (Suc i) arr))))
      :: ('h, 'm, 'y) spp_eal \<Rightarrow> _)"
    using Suc.hyps(2) i by (intro ext Suc.hyps(1)) simp_all
  have ok: "patch_ok arr ?p" using assms(1) i by (simp add: list_all_length)
  show ?case
  proof (cases "port_status ?p \<ge> 0 \<and> port_out_port_id ?p \<ge> 0")
    case True
    then have "port_rx_func ?p \<noteq> None" "call_tx_of oth arr (port_out_port_id ?p) = (rte_eth_tx_burst oth :: ('h, 'm, 'y) spp_eal \<Rightarrow> _)"
      using ok by (auto simp: patch_ok_def call_tx_of_def fun_eq_iff)
    then show ?thesis using True i by (simp add: upt_conv_Cons [OF i] d IH del: upt_Suc)
  next
    case False
    then show ?thesis using i by (auto simp: upt_conv_Cons [OF i] d IH del: upt_Suc)
  qed
qed simp

lemma table_moves:
  assumes "table_ok arr"
  shows "patch_loop oth put z arr [0..<RTE_MAX_ETHPORTS] e =
    moves (rte_eth_rx_burst oth) (rte_eth_tx_burst oth) put z (active_patches arr) e"
  using patch_loop_moves [of arr 0 oth put z e] assms by (simp add: table_ok_def active_patches_def)

lemma forward_loop_patch: "forward_loop oth lcore z arr is e = patch_loop oth (mbuf_put lcore) z arr is e"
  by (induction "is" arbitrary: e) (auto split: Option.bind_split)

lemma forward_moves:
  assumes "table_ok arr"
  shows "forward oth lcore z arr e =
    moves (rte_eth_rx_burst oth) (rte_eth_tx_burst oth) (mbuf_put lcore) z (active_patches arr) e"
  by (simp add: forward_def forward_loop_patch table_moves [OF assms])

abbreviation patches_up :: "('m, 'y) drivers \<Rightarrow> ('y \<Rightarrow> 'm multiset) \<Rightarrow> ('h, 'm, 'y) spp_eal \<Rightarrow> port list \<Rightarrow> bool" where
  "patches_up oth dins e arr \<equiv> list_all (\<lambda>(i, j). port_up oth dins e i \<and> port_up oth dins e j) (active_patches arr)"

lemma forward_ok:
  assumes "world_inv dins e h" and "table_ok arr" and "patches_up oth dins e arr"
  shows "\<exists>e'. forward oth lcore z arr e = Some e' \<and> world_inv dins e' h \<and> inside dins e' = inside dins e
    \<and> port_up oth dins e' = port_up oth dins e"
  using dp.moves_conserve [OF assms(1,3), of lcore z] by (simp add: forward_moves [OF assms(2)])

text \<open>Turns of the main loop; the commands of the control thread come between them.\<close>
fun loop_turns :: "('m, 'y) drivers \<Rightarrow> nat \<Rightarrow> 'm \<Rightarrow> nat \<Rightarrow> ('h, 'm, 'y) sec \<Rightarrow> ('h, 'm, 'y) sec option" where
  "loop_turns oth lcore z 0 s = Some s"
| "loop_turns oth lcore z (Suc n) s = nfv_loop oth lcore z s \<bind> loop_turns oth lcore z n"

lemma moves_single: "moves rx tx put z [(i, j)] s = burst_move rx tx put z i j s"
  by (cases "burst_move rx tx put z i j s") simp_all

section \<open>A concrete panel for the witnesses\<close>

definition ring_dev :: "u64 \<Rightarrow> rte_eth_dev" where
  "ring_dev a = \<lparr>dev_attached = True, dev_type = RTE_ETH_DEV_VIRTUAL,
     dev_data = (dev_data null_dev)\<lparr>dd_rx_queues := [Some 0], dd_tx_queues := [Some 0]\<rparr>,
     dev_pmd = Some (Pmd_Ring \<lparr>nb_rx_rings = 1, nb_tx_rings = 1,
       rx_ring_queues = [zero_queue\<lparr>rng := a\<rparr>], tx_ring_queues = [zero_queue\<lparr>rng := a\<rparr>]\<rparr>)\<rparr>"

definition nic_dev :: rte_eth_dev where
  "nic_dev = null_dev\<lparr>dev_attached := True, dev_type := RTE_ETH_DEV_PCI, dev_pmd := Some Pmd_Other\<rparr>"

text \<open>A network card on a loop cable: what is sent is received again.\<close>
definition loop_nic :: "(nat, nat list) drivers" where
  "loop_nic = \<lparr>other_rx = \<lambda>x p q n. (take (unat n) (dev_priv x), x\<lparr>dev_priv := drop (unat n) (dev_priv x)\<rparr>),
     other_tx = \<lambda>x p q ms. let k = (of_nat (min (length ms) 64) :: u16)
        in (k, x\<lparr>dev_priv := dev_priv x @ take (unat k) ms\<rparr>)\<rparr>"

lemma own_priv [simp]: "own (x\<lparr>dev_priv := y\<rparr>) = own x"
  by (simp add: own_def fun_eq_iff)

lemma mem_inv_priv [simp]: "mem_inv (x\<lparr>dev_priv := y\<rparr>) T = mem_inv x T"
  by (simp add: mem_inv_def)

lemma loop_nic_ok: "driver_ok loop_nic mset"
proof -
  have "unat (of_nat (min (length ms) 64) :: u16) \<le> length ms" for ms :: "nat list"
    by (simp add: unat_of_nat)
  moreover have "mset (drop n xs) + mset (take n xs) = mset xs" for n and xs :: "nat list"
    by (metis append_take_drop_id mset_append union_commute)
  ultimately show ?thesis by (simp add: driver_ok_def loop_nic_def mem_total_def union_assoc Let_def)
qed

definition ring_e :: "nat rte_ring" where
  "ring_e = ring_4\<lparr>prod := (prod ring_4)\<lparr>prod_head := 0xFFFFFFFF, prod_tail := 0xFFFFFFFF\<rparr>\<rparr>"

lemma ring_e_inv: "ring_inv ring_e"
  by (simp add: ring_inv_def ring_e_def ring_4_def POWEROF2_def RTE_RING_SZ_MASK_def Let_def)

lemma ring_e_list: "ring_list ring_e = []" "ring_cap ring_e = 3"
  by (simp_all add: ring_list_def ring_e_def ring_4_def ring_get_def ring_cap_def)

text \<open>Two ports on rings, the first with two packets, one network card with one packet, one pool.\<close>
definition panel :: "(u64, nat, nat list) spp_eal" where
  "panel = \<lparr>memzone_cnt = 0, memzone = replicate RTE_MAX_MEMZONE null_memzone, malloc_heaps = 0x100000, rte_errno = 0,
     ring_at = [0x1000 \<mapsto> ring_4, 0x2000 \<mapsto> ring_e], ring_tailq = [(0x800, 0x1000), (0x808, 0x2000)],
     rte_eth_devices = ring_dev 0x1000 # ring_dev 0x2000 # nic_dev # replicate 29 null_dev,
     eth_dev_data = replicate 32 (dev_data null_dev), nb_ports = 3,
     other_state = \<lparr>mempool_tailq = [0x5000], mempool_at = [0x5000 \<mapsto> pool_8], mbuf_pool = (\<lambda>_. Some 0x5000),
       dev_priv = [9]\<rparr>\<rparr>"

lemma panel_fields:
  "ring_at panel = [0x1000 \<mapsto> ring_4, 0x2000 \<mapsto> ring_e]"
  "rte_eth_devices panel = ring_dev 0x1000 # ring_dev 0x2000 # nic_dev # replicate 29 null_dev"
  "mempool_at (other_state panel) = [0x5000 \<mapsto> pool_8]" "mbuf_pool (other_state panel) = (\<lambda>_. Some 0x5000)"
  "dev_priv (other_state panel) = [9]"
  by (simp_all add: panel_def)

lemma panel_inside: "inside mset panel = {#11, 12, 9#} + pool_mset pool_8"
  by (simp add: inside_def mem_total_def map_mset_def panel_fields ring_4_list ring_e_list)

lemma panel_inv: "world_inv mset panel {#}"
proof -
  have "own (other_state panel) 0x5000 = (\<lambda>_. True)" by (simp add: own_def panel_fields fun_eq_iff)
  moreover have "size (inside mset panel) = 8" by (simp add: panel_inside pool_8_size)
  moreover have "unat (mp_size pool_8) = 8" by (simp add: pool_8_def)
  ultimately have "mem_inv (other_state panel) (inside mset panel)"
    using pool_8_inv unfolding mem_inv_def panel_fields by simp
  moreover have "\<forall>r\<in>ran (ring_at panel). ring_inv r"
    using ring_4_inv ring_e_inv by (auto simp: panel_fields ran_def split: if_splits)
  moreover have "eth_inv panel"
    by (simp add: eth_inv_def panel_def ring_dev_def nic_dev_def null_dev_def RTE_MAX_ETHPORTS_def RTE_ETH_NAME_MAX_LEN_def list_all_iff)
  ultimately show ?thesis by (simp add: world_inv_def panel_fields)
qed

lemma panel_up: "port_up loop_nic mset panel 0" "port_up loop_nic mset panel 1" "port_up loop_nic mset panel 2"
  using loop_nic_ok
  by (simp_all add: port_up_def panel_fields RTE_MAX_ETHPORTS_def ring_port_def ring_dev_def nic_dev_def)

definition idle_port :: port where
  "idle_port = \<lparr>port_status = - 99, port_kind = UNDEF, port_rx_func = None, port_tx_func = None, port_out_port_id = - 99\<rparr>"

definition live_port :: "int \<Rightarrow> int \<Rightarrow> port" where
  "live_port i out = \<lparr>port_status = i, port_kind = RING, port_rx_func = Some Fn_rte_eth_rx_burst,
     port_tx_func = Some Fn_rte_eth_tx_burst, port_out_port_id = out\<rparr>"

text \<open>Port 0 is patched to port 1 and port 2 to port 0.\<close>
definition panel_table :: "port list" where
  "panel_table = live_port 0 1 # live_port 1 (- 99) # live_port 2 0 # replicate 29 idle_port"

lemma panel_table_ok: "table_ok panel_table"
  by (simp add: table_ok_def panel_table_def patch_ok_def live_port_def idle_port_def RTE_MAX_ETHPORTS_def list_all_iff)

lemma active_idle: "filter (\<lambda>(i, p). port_status p \<ge> 0 \<and> port_out_port_id p \<ge> 0) (enumerate n (replicate k idle_port)) = []"
  by (auto simp: filter_empty_conv idle_port_def in_set_enumerate_eq)

lemma panel_table_active: "active_patches panel_table = [(0, 1), (2, 0)]"
  by (simp add: active_patches_def panel_table_def active_idle live_port_def)

section \<open>Properties\<close>

text \<open>
  C5. The forwarding loop over the 32 entries of a well-formed table performs one transfer for
  each patch in force, from the in port to its out port, in the order of the in ports, and
  nothing else.
\<close>
theorem forward_refines_moves:
  assumes "table_ok arr"
  shows "forward oth lcore z arr e =
    moves (rte_eth_rx_burst oth) (rte_eth_tx_burst oth) (mbuf_put lcore) z (active_patches arr) e"
  by (rule forward_moves [OF assms])

theorem forward_refines_moves_witness:
  "forward loop_nic 1 0 panel_table panel =
    moves (rte_eth_rx_burst loop_nic) (rte_eth_tx_burst loop_nic) (mbuf_put 1) 0 [(0, 1), (2, 0)] panel"
  using forward_refines_moves [OF panel_table_ok, of loop_nic 1 0 panel] by (simp add: panel_table_active)

text \<open>
  C2. Forwarding conserves the packet buffers. From a state in which every buffer is accounted
  for, with a well-formed table whose patched ports are in service, the forwarding loop returns,
  and all buffers in rings, pools and devices are the same as before, each exactly as often:
  packets that do not fit into the target are back in their own pool, which has room for them.
  The state stays well-formed and the ports stay in service, so that the next turn may follow.
  The drivers of other ports are any that keep the ownership contract.
\<close>
theorem forward_conserves:
  assumes "world_inv dins e h" and "table_ok arr" and "patches_up oth dins e arr"
  shows "\<exists>e'. forward oth lcore z arr e = Some e' \<and> world_inv dins e' h \<and> inside dins e' = inside dins e
    \<and> port_up oth dins e' = port_up oth dins e"
  by (rule forward_ok [OF assms])

theorem forward_conserves_witness:
  "\<exists>e'. forward loop_nic 1 0 panel_table panel = Some e' \<and> world_inv mset e' {#}
    \<and> inside mset e' = {#11, 12, 9#} + pool_mset pool_8"
  using forward_conserves [OF panel_inv panel_table_ok, of loop_nic 1 0] panel_up
  by (auto simp: panel_table_active panel_inside)

text \<open>
  C3. Any number of turns of the main loop of the forwarding core returns and conserves the
  buffers, whether the process is stopped, started or forwarding.
\<close>
theorem loop_turns_conserve:
  assumes "world_inv dins (sec_eal s) h" and "table_ok (ports_fwd_array s)"
    and "patches_up oth dins (sec_eal s) (ports_fwd_array s)" and "cmd s \<notin> {LOOPBACK, RXTX}"
  shows "\<exists>s'. loop_turns oth lcore z n s = Some s' \<and> world_inv dins (sec_eal s') h
    \<and> inside dins (sec_eal s') = inside dins (sec_eal s) \<and> s' = s\<lparr>sec_eal := sec_eal s'\<rparr>"
  using assms
proof (induction n arbitrary: s)
  case (Suc n)
  show ?case
  proof (cases "cmd s = FORWARD")
    case True
    obtain e' where e': "forward oth lcore z (ports_fwd_array s) (sec_eal s) = Some e'" "world_inv dins e' h"
      "inside dins e' = inside dins (sec_eal s)" "port_up oth dins e' = port_up oth dins (sec_eal s)"
      using forward_ok [OF Suc.prems(1,2,3)] by blast
    let ?s = "s\<lparr>sec_eal := e'\<rparr>"
    obtain s' where "loop_turns oth lcore z n ?s = Some s'" "world_inv dins (sec_eal s') h"
      "inside dins (sec_eal s') = inside dins (sec_eal ?s)" "s' = ?s\<lparr>sec_eal := sec_eal s'\<rparr>"
      using Suc.IH [of ?s] Suc.prems e' by auto
    then show ?thesis using True e'(1,3) by (simp add: nfv_loop_def)
  next
    case False
    then have "nfv_loop oth lcore z s = Some s" using Suc.prems(4) by (simp add: nfv_loop_def)
    then show ?thesis using Suc.IH [OF Suc.prems] by simp
  qed
qed simp

definition panel_sec :: "(u64, nat, nat list) sec" where
  "panel_sec = \<lparr>client_id = 1, cmd = FORWARD, exec_pos = 0, save_pos = 0, rx_ports = replicate 32 0,
     rx_funcs = replicate 32 None, tx_ports = replicate 32 0, tx_funcs = replicate 32 None,
     rx_rings = replicate 32 0, tx_rings = replicate 32 0, ports_fwd_array = panel_table, sec_eal = panel\<rparr>"

theorem loop_turns_conserve_witness:
  "\<exists>s'. loop_turns loop_nic 1 0 1000 panel_sec = Some s' \<and> world_inv mset (sec_eal s') {#}
    \<and> inside mset (sec_eal s') = {#11, 12, 9#} + pool_mset pool_8"
  using loop_turns_conserve [of mset panel_sec "{#}" loop_nic 1 0 1000] panel_up panel_inv panel_table_ok
  by (auto simp: panel_sec_def panel_table_active panel_inside)

text \<open>
  C4. A patch between two ring-backed ports delivers in order: up to 32 packets leave the first
  ring from its head, and as many of them as the second ring has room for are appended to it, in
  the same order.
\<close>
theorem forward_ring_to_ring:
  assumes "world_inv dins e h" and "table_ok arr" and "active_patches arr = [(i, j)]"
    and "unat i < RTE_MAX_ETHPORTS" and "unat j < RTE_MAX_ETHPORTS"
    and "ring_port (rte_eth_devices e ! unat i) a" and "ring_port (rte_eth_devices e ! unat j) b"
    and "ring_at e a = Some ra" and "ring_at e b = Some rb" and "a \<noteq> b"
  shows "\<exists>e' ra' rb'. forward oth lcore z arr e = Some e' \<and> ring_at e' = (ring_at e)(a \<mapsto> ra', b \<mapsto> rb')
    \<and> ring_list ra' = drop 32 (ring_list ra)
    \<and> ring_list rb' = ring_list rb @ take (ring_free_n rb) (take 32 (ring_list ra))"
  using burst_move_rings [OF assms(1,4-10), of oth lcore z]
  unfolding forward_moves [OF assms(2)] assms(3) moves_single .

definition one_patch :: "port list" where
  "one_patch = live_port 0 1 # live_port 1 (- 99) # replicate 30 idle_port"

lemma one_patch_ok: "table_ok one_patch" "active_patches one_patch = [(0, 1)]"
  by (simp add: table_ok_def one_patch_def patch_ok_def live_port_def idle_port_def RTE_MAX_ETHPORTS_def list_all_iff)
    (simp add: active_patches_def one_patch_def active_idle live_port_def)

theorem forward_ring_to_ring_witness:
  "\<exists>e' ra' rb'. forward loop_nic 1 0 one_patch panel = Some e' \<and> ring_at e' = (ring_at panel)(0x1000 \<mapsto> ra', 0x2000 \<mapsto> rb')
    \<and> ring_list ra' = [] \<and> ring_list rb' = [11, 12]"
  using forward_ring_to_ring [OF panel_inv one_patch_ok, where a = "0x1000" and b = "0x2000" and oth = loop_nic and lcore = 1 and z = 0]
  by (simp add: panel_fields RTE_MAX_ETHPORTS_def ring_port_def ring_dev_def ring_4_list ring_e_list ring_free_n_def)

text \<open>
  Initialising and resetting the table leave no patch in force and a well-formed table;
  a reset keeps the status, the kind and the functions of every port.
\<close>
theorem forward_array_reset_clears:
  assumes "length arr = RTE_MAX_ETHPORTS"
  shows "active_patches (forward_array_init arr) = [] \<and> table_ok (forward_array_init arr)
    \<and> active_patches (forward_array_reset arr) = [] \<and> length (forward_array_reset arr) = RTE_MAX_ETHPORTS
    \<and> (table_ok arr \<longrightarrow> table_ok (forward_array_reset arr))
    \<and> map port_status (forward_array_reset arr) = map port_status arr
    \<and> map port_kind (forward_array_reset arr) = map port_kind arr
    \<and> map port_rx_func (forward_array_reset arr) = map port_rx_func arr
    \<and> map port_tx_func (forward_array_reset arr) = map port_tx_func arr"
proof -
  have tx: "port_tx_func (forward_array_reset arr ! i) = port_tx_func (arr ! i)" if "i < length arr" for i
    using that by (simp add: forward_array_reset_def)
  have "table_ok (forward_array_reset arr)" if "table_ok arr"
    using that tx by (auto simp: table_ok_def patch_ok_def list_all_length forward_array_reset_def)
  moreover have "active_patches (forward_array_init arr) = []" "active_patches (forward_array_reset arr) = []"
    by (auto simp: active_patches_def filter_empty_conv in_set_enumerate_eq forward_array_init_def forward_array_reset_def
        split: if_splits)
  ultimately show ?thesis using assms
    by (auto simp: table_ok_def patch_ok_def list_all_iff forward_array_init_def forward_array_reset_def)
qed

theorem forward_array_reset_clears_witness:
  "active_patches panel_table \<noteq> [] \<and> active_patches (forward_array_reset panel_table) = []"
  using forward_array_reset_clears [of panel_table] by (simp add: panel_table_active) (simp add: panel_table_def RTE_MAX_ETHPORTS_def)

end
