(* ===== verification/Spp_Cbuf.thy ===== *)
theory Spp_Cbuf
  imports Spp_Common
begin

text \<open>
  Strings in fixed character arrays, as the message loops of the secondary processes use them:
  reading a string up to its end mark, printing into the array, and splitting a message into
  words in place with \<open>strtok\<close>. An access outside the array is \<^term>\<open>None\<close>. Words joined by
  blanks are found again by the splitting, as long as there are fewer than the array of tokens
  has entries; with more the array overflows.
\<close>

definition NUL :: char where "NUL = CHR 0x00"

definition MAX_PARAMETER :: nat where "MAX_PARAMETER = 10"

text \<open>The string that starts at an offset; there must be an end mark in the array.\<close>
definition cstr_at :: "string \<Rightarrow> nat \<Rightarrow> string option" where
  "cstr_at buf off =
     (let t = drop off buf in if NUL \<in> set t then Some (takeWhile (\<lambda>c. c \<noteq> NUL) t) else None)"

text \<open>\<open>sprintf(buf + off, ...)\<close> of the text \<open>s\<close>.\<close>
definition sprintf_at :: "string \<Rightarrow> nat \<Rightarrow> string \<Rightarrow> string option" where
  "sprintf_at buf off s =
     (if off + length s + 1 \<le> length buf then Some (take off buf @ s @ [NUL] @ drop (off + length s + 1) buf) else None)"

text \<open>\<open>sprintf(buf + strlen(buf), ...)\<close>.\<close>
definition sprintf_cat :: "string \<Rightarrow> string \<Rightarrow> string option" where
  "sprintf_cat buf s = do { t \<leftarrow> cstr_at buf 0; sprintf_at buf (length t) s }"

text \<open>
  One call of \<open>strtok\<close> with the delimiter blank, at the position the last call left: the offset of
  the word, the array with the end mark written after the word, the next position.
\<close>
definition strtok_at :: "string \<Rightarrow> nat \<Rightarrow> (nat option \<times> string \<times> nat) option" where
  "strtok_at buf pos =
     (let start = pos + length (takeWhile (\<lambda>c. c = CHR '' '') (drop pos buf)) in
      do { c \<leftarrow> aget buf start;
           if c = NUL then Some (None, buf, start)
           else
             let end = start + length (takeWhile (\<lambda>c. c \<noteq> CHR '' '' \<and> c \<noteq> NUL) (drop start buf)) in
             do { d \<leftarrow> aget buf end;
                  if d = NUL then Some (Some start, buf, end)
                  else Some (Some start, buf[end := NUL], end + 1) } })"

lemma aset_Some: "aset xs i x = Some ys \<longleftrightarrow> i < length xs \<and> ys = xs[i := x]"
  by (auto simp: aset_def)

text \<open>The loop that fills \<open>token_list\<close> from index \<open>i\<close> on.\<close>
function tokenize :: "nat \<Rightarrow> string \<Rightarrow> nat \<Rightarrow> nat option list \<Rightarrow> (string \<times> nat option list) option" where
  "tokenize i buf pos tk =
     do { (t, buf, pos) \<leftarrow> strtok_at buf pos;
          tk \<leftarrow> aset tk i t;
          case t of None \<Rightarrow> Some (buf, tk) | Some _ \<Rightarrow> tokenize (i + 1) buf pos tk }"
  by pat_completeness auto
termination
  by (relation "measure (\<lambda>(i, buf, pos, tk). length tk - i)") (auto simp: aset_Some)

declare tokenize.simps [simp del]

text \<open>A received message in the cleared array.\<close>
definition msg_buf :: "string \<Rightarrow> string" where
  "msg_buf m = m @ replicate (MSG_SIZE - length m) NUL"

definition tokens :: "string \<Rightarrow> (string \<times> nat option list) option" where
  "tokens str = tokenize 0 str 0 (replicate MAX_PARAMETER None)"

text \<open>The string a token points to; a null pointer is not a string.\<close>
definition tok_str :: "string \<Rightarrow> nat option list \<Rightarrow> nat \<Rightarrow> string option" where
  "tok_str buf tk k = do { off \<leftarrow> aget tk k; off \<leftarrow> off; cstr_at buf off }"

section \<open>Splitting and joining\<close>

fun join_by :: "char \<Rightarrow> string list \<Rightarrow> string" where
  "join_by c [] = []"
| "join_by c (w # ws) = (if ws = [] then w else w @ c # join_by c ws)"

fun word_offs :: "nat \<Rightarrow> string list \<Rightarrow> nat list" where
  "word_offs p [] = []"
| "word_offs p (w # ws) = p # word_offs (p + length w + 1) ws"

text \<open>A word of a command line.\<close>
definition is_word :: "string \<Rightarrow> bool" where
  "is_word w \<longleftrightarrow> w \<noteq> [] \<and> list_all (\<lambda>c. c \<noteq> CHR '' '' \<and> c \<noteq> NUL) w"

lemma takeWhile_word:
  assumes "is_word w"
  shows "takeWhile (\<lambda>c. c = CHR '' '') (w @ r) = []"
    and "c = CHR '' '' \<or> c = NUL \<Longrightarrow> takeWhile (\<lambda>c. c \<noteq> CHR '' '' \<and> c \<noteq> NUL) (w @ c # r) = w"
    and "takeWhile (\<lambda>c. c \<noteq> NUL) (w @ NUL # r) = w"
proof -
  obtain x xs where w: "w = x # xs" "x \<noteq> CHR '' ''" using assms by (cases w) (auto simp: is_word_def)
  then show "takeWhile (\<lambda>c. c = CHR '' '') (w @ r) = []" by simp
  have "\<forall>y\<in>set w. y \<noteq> CHR '' '' \<and> y \<noteq> NUL" using assms by (simp add: is_word_def list_all_iff)
  then show "takeWhile (\<lambda>c. c \<noteq> NUL) (w @ NUL # r) = w"
    and "c = CHR '' '' \<or> c = NUL \<Longrightarrow> takeWhile (\<lambda>c. c \<noteq> CHR '' '' \<and> c \<noteq> NUL) (w @ c # r) = w"
    by (auto simp: takeWhile_append2)
qed

lemma blank_not_NUL [simp]: "CHR '' '' \<noteq> NUL" "NUL \<noteq> CHR '' ''"
  by (simp_all add: NUL_def)

lemma strtok_word:
  assumes "is_word w" and "c = CHR '' '' \<or> c = NUL"
  shows "strtok_at (pre @ w @ c # r) (length pre) =
    Some (Some (length pre), pre @ w @ NUL # r, if c = NUL then length pre + length w else length pre + length w + 1)"
proof -
  obtain x xs where w: "w = x # xs" "x \<noteq> NUL" using assms(1) by (cases w) (auto simp: is_word_def)
  have "aget (pre @ w @ c # r) (length pre) = Some x" by (simp add: w aget_def)
  moreover have "aget (pre @ w @ c # r) (length pre + length w) = Some c" by (simp add: aget_def nth_append)
  ultimately show ?thesis using w(2) assms(2) takeWhile_word [OF assms(1)]
    by (auto simp: strtok_at_def list_update_append Let_def)
qed

lemma strtok_end: "strtok_at (pre @ NUL # r) (length pre) = Some (None, pre @ NUL # r, length pre)"
  by (simp add: strtok_at_def aget_def)

lemma tokenize_end: "i < length tk \<Longrightarrow> tokenize i (pre @ NUL # r) (length pre) tk = Some (pre @ NUL # r, tk[i := None])"
  by (simp add: tokenize.simps [of i] strtok_end aset_def)

lemma tokenize_words:
  assumes "list_all is_word ws" and "ws \<noteq> []" and "i + length ws < length tk"
  shows "tokenize i (pre @ join_by (CHR '' '') ws @ NUL # r) (length pre) tk =
    Some (pre @ join_by NUL ws @ NUL # r,
          take i tk @ map Some (word_offs (length pre) ws) @ None # drop (i + length ws + 1) tk)"
  using assms
proof (induction ws arbitrary: i pre tk)
  case (Cons w ws)
  have w: "is_word w" using Cons.prems(1) by simp
  have i: "i < length tk" using Cons.prems(3) by simp
  let ?tk = "tk[i := Some (length pre)]"
  have upd: "take (Suc i) ?tk = take i tk @ [Some (length pre)]" "\<And>k. i < k \<Longrightarrow> drop k ?tk = drop k tk"
    using i by (simp_all add: take_Suc_conv_app_nth)
  show ?case
  proof (cases "ws = []")
    case True
    have "tokenize i (pre @ w @ NUL # r) (length pre) tk = tokenize (i + 1) ((pre @ w) @ NUL # r) (length (pre @ w)) ?tk"
      using strtok_word [OF w, of NUL pre r] i by (simp add: tokenize.simps [of i] aset_def)
    also have "\<dots> = Some ((pre @ w) @ NUL # r, ?tk[i + 1 := None])"
      using Cons.prems(3) True by (intro tokenize_end) simp
    also have "?tk[i + 1 := None] = take (i + 1) ?tk @ None # drop (i + 2) ?tk"
      using Cons.prems(3) True by (subst upd_conv_take_nth_drop) simp_all
    finally show ?thesis using True by (simp add: upd)
  next
    case False
    let ?pre = "pre @ w @ [NUL]"
    have "tokenize i (pre @ w @ CHR '' '' # join_by (CHR '' '') ws @ NUL # r) (length pre) tk =
        tokenize (i + 1) (?pre @ join_by (CHR '' '') ws @ NUL # r) (length ?pre) ?tk"
      using strtok_word [OF w, of "CHR '' ''" pre "join_by (CHR '' '') ws @ NUL # r"] i
      by (simp add: tokenize.simps [of i] aset_def)
    also have "\<dots> = Some (?pre @ join_by NUL ws @ NUL # r,
        take (i + 1) ?tk @ map Some (word_offs (length ?pre) ws) @ None # drop (i + 1 + length ws + 1) ?tk)"
      using Cons.prems False by (intro Cons.IH) simp_all
    finally show ?thesis using False by (simp add: upd)
  qed
qed simp

lemma cstr_at_app: "cstr_at (pre @ r) (length pre) = cstr_at r 0"
  by (simp add: cstr_at_def)

lemma word_offs_strings:
  assumes "list_all is_word ws" and "k < length ws"
  shows "cstr_at (pre @ join_by NUL ws @ NUL # r) (word_offs (length pre) ws ! k) = Some (ws ! k)"
  using assms
proof (induction ws arbitrary: k pre)
  case (Cons w ws)
  have w: "is_word w" using Cons.prems(1) by simp
  show ?case
  proof (cases k)
    case 0
    then show ?thesis using takeWhile_word(3) [OF w]
      by (simp add: cstr_at_app) (simp add: cstr_at_def)
  next
    case (Suc j)
    then have "ws \<noteq> []" using Cons.prems(2) by auto
    then show ?thesis using Cons.IH [of j "pre @ w @ [NUL]"] Cons.prems Suc by simp
  qed
qed simp

lemma length_word_offs [simp]: "length (word_offs p ws) = length ws"
  by (induction ws arbitrary: p) simp_all

text \<open>What the commands see of a message that consists of the given words.\<close>
lemma tokens_words:
  assumes ws: "list_all is_word ws" "ws \<noteq> []" "length ws < MAX_PARAMETER"
    and len: "length (join_by (CHR '' '') ws) < MSG_SIZE"
  shows "\<exists>buf tk. tokens (msg_buf (join_by (CHR '' '') ws)) = Some (buf, tk) \<and> length buf = MSG_SIZE
    \<and> length tk = MAX_PARAMETER \<and> (\<forall>k<length ws. tok_str buf tk k = Some (ws ! k))
    \<and> (\<forall>k. length ws \<le> k \<longrightarrow> tok_str buf tk k = None)"
proof -
  let ?m = "join_by (CHR '' '') ws" and ?tk = "replicate MAX_PARAMETER None :: nat option list"
  define r where "r = replicate (MSG_SIZE - length ?m - 1) NUL"
  have "MSG_SIZE - length ?m = Suc (MSG_SIZE - length ?m - 1)" using len by simp
  then have "replicate (MSG_SIZE - length ?m) NUL = NUL # r" unfolding r_def by (metis replicate_Suc)
  then have m: "msg_buf ?m = [] @ ?m @ NUL # r" by (simp add: msg_buf_def)
  let ?buf = "join_by NUL ws @ NUL # r"
  let ?tks = "map Some (word_offs 0 ws) @ None # drop (length ws + 1) ?tk"
  have t: "tokens (msg_buf ?m) = Some (?buf, ?tks)"
    using tokenize_words [OF ws(1,2), of 0 ?tk "[]" r] ws(3) unfolding tokens_def m by simp
  have "length (join_by c ws) = length (join_by d ws)" for c d by (induction ws) simp_all
  then have "length (join_by NUL ws) = length ?m" by blast
  then have "length ?buf = MSG_SIZE" using len by (simp add: r_def)
  moreover have "tok_str ?buf ?tks k = Some (ws ! k)" if "k < length ws" for k
    using that word_offs_strings [OF ws(1) that, of "[]" r] by (simp add: tok_str_def aget_def nth_append)
  moreover have "tok_str ?buf ?tks k = None" if "length ws \<le> k" for k
  proof (cases "k < MAX_PARAMETER")
    case True
    then have "?tks ! k = None" using that ws(3) by (cases "k = length ws") (simp_all add: nth_append nth_Cons')
    then show ?thesis using True ws(3) by (simp add: tok_str_def aget_def)
  next
    case False
    then have "\<not> k < length ?tks" using ws(3) by simp
    then show ?thesis by (simp add: tok_str_def aget_def)
  qed
  ultimately show ?thesis using t ws(3) by auto
qed

lemma tokenize_overflow:
  assumes "list_all is_word ws" and "ws \<noteq> []" and "length tk \<le> i + length ws"
  shows "tokenize i (pre @ join_by (CHR '' '') ws @ NUL # r) (length pre) tk = None"
  using assms
proof (induction ws arbitrary: i pre tk)
  case (Cons w ws)
  have w: "is_word w" using Cons.prems(1) by simp
  show ?case
  proof (cases "i < length tk")
    case True
    let ?tk = "tk[i := Some (length pre)]"
    show ?thesis
    proof (cases "ws = []")
      case last: True
      have "tokenize i (pre @ w @ NUL # r) (length pre) tk = tokenize (i + 1) ((pre @ w) @ NUL # r) (length (pre @ w)) ?tk"
        using strtok_word [OF w, of NUL pre r] True by (simp add: tokenize.simps [of i] aset_def)
      also have "\<dots> = None"
        using Cons.prems(3) last strtok_end [of "pre @ w" r] by (simp add: tokenize.simps [of "Suc i"] aset_def)
      finally show ?thesis using last by simp
    next
      case False
      let ?pre = "pre @ w @ [NUL]"
      have "tokenize i (pre @ w @ CHR '' '' # join_by (CHR '' '') ws @ NUL # r) (length pre) tk =
          tokenize (i + 1) (?pre @ join_by (CHR '' '') ws @ NUL # r) (length ?pre) ?tk"
        using strtok_word [OF w, of "CHR '' ''" pre "join_by (CHR '' '') ws @ NUL # r"] True
        by (simp add: tokenize.simps [of i] aset_def)
      also have "\<dots> = None" using Cons.prems False by (intro Cons.IH) simp_all
      finally show ?thesis using False by simp
    qed
  next
    case False
    have "\<exists>t buf pos. strtok_at (pre @ join_by (CHR '' '') (w # ws) @ NUL # r) (length pre) = Some (t, buf, pos)"
      using strtok_word [OF w, of NUL pre r] strtok_word [OF w, of "CHR '' ''" pre "join_by (CHR '' '') ws @ NUL # r"]
      by (cases "ws = []") simp_all
    then show ?thesis using False by (auto simp: tokenize.simps [of i] aset_def)
  qed
qed simp

lemma msg_buf_words:
  assumes "length m < MSG_SIZE"
  shows "\<exists>r. msg_buf m = [] @ m @ NUL # r"
proof -
  obtain k where "MSG_SIZE - length m = Suc k" using assms by (metis Suc_diff_Suc)
  then show ?thesis by (auto simp: msg_buf_def)
qed

section \<open>Properties\<close>

text \<open>
  A command line of up to nine words that fits into the message buffer is split into exactly
  these words, in order, and the entries of the token array behind them are null.
\<close>
theorem message_words_roundtrip:
  assumes "list_all is_word ws" and "ws \<noteq> []" and "length ws < MAX_PARAMETER"
    and "length (join_by (CHR '' '') ws) < MSG_SIZE"
  shows "\<exists>buf tk. tokens (msg_buf (join_by (CHR '' '') ws)) = Some (buf, tk)
    \<and> (\<forall>k<length ws. tok_str buf tk k = Some (ws ! k)) \<and> (\<forall>k. length ws \<le> k \<longrightarrow> tok_str buf tk k = None)"
  using tokens_words [OF assms] by blast

theorem message_words_roundtrip_witness:
  "\<exists>buf tk. tokens (msg_buf ''patch 0 1'') = Some (buf, tk) \<and> tok_str buf tk 0 = Some ''patch''
    \<and> tok_str buf tk 1 = Some ''0'' \<and> tok_str buf tk 2 = Some ''1'' \<and> tok_str buf tk 3 = None"
  using message_words_roundtrip [of "[''patch'', ''0'', ''1'']"]
  by (auto simp: is_word_def NUL_def MAX_PARAMETER_def MSG_SIZE_def less_Suc_eq numeral_2_eq_2 numeral_3_eq_3)

text \<open>
  A command line of ten or more words overflows the array of ten token pointers: the loop
  that fills the array has no bound.
\<close>
theorem message_words_overflow:
  assumes "list_all is_word ws" and "MAX_PARAMETER \<le> length ws" and "length (join_by (CHR '' '') ws) < MSG_SIZE"
  shows "tokens (msg_buf (join_by (CHR '' '') ws)) = None"
proof -
  have "ws \<noteq> []" using assms(2) by (auto simp: MAX_PARAMETER_def)
  obtain r where r: "msg_buf (join_by (CHR '' '') ws) = [] @ join_by (CHR '' '') ws @ NUL # r"
    using msg_buf_words [OF assms(3)] by blast
  show ?thesis
    unfolding tokens_def r using tokenize_overflow [OF assms(1) \<open>ws \<noteq> []\<close>, of "replicate MAX_PARAMETER None" 0 "[]" r] assms(2)
    by simp
qed

theorem message_words_overflow_witness: "tokens (msg_buf ''a b c d e f g h i j'') = None"
  using message_words_overflow [of "[''a'', ''b'', ''c'', ''d'', ''e'', ''f'', ''g'', ''h'', ''i'', ''j'']"]
  by (simp add: is_word_def NUL_def MAX_PARAMETER_def MSG_SIZE_def)

end
