(* ===== verification/Spp_Command.thy ===== *)
theory Spp_Command
  imports Spp_Zerocpy Spp_Cbuf
begin

text \<open>
  The control thread of the zero-copy secondary process: \<open>main\<close> of \<open>sec_zerocpy/sec_zerocpy.c\<close>.
  It marks the network cards in the forwarding table, then receives messages from the controller,
  splits them into words in place and carries them out: status, exit, start, stop, forward, add,
  patch, del, save and exec. An access outside an array or through a null pointer is \<^term>\<open>None\<close>.
  Making a vhost port is the operation \<open>from_vhost\<close> of the vhost driver, a parameter.
\<close>

unbundle bit_operations_syntax

section \<open>What the handler calls\<close>

text \<open>
  The memory allocator, the sizes of the two structures of a ring-backed port, the vhost driver
  (\<open>rte_eth_from_vhost\<close>: name, index, interface, NUMA node, pool) and the NUMA node of the core.
\<close>
record ('h, 'm, 'y) sec_env =
  env_ops :: "'h heap_ops"
  env_data_size :: u64
  env_internals_size :: u64
  env_from_vhost :: "string \<Rightarrow> int \<Rightarrow> string \<Rightarrow> u32 \<Rightarrow> u64 \<Rightarrow> ('h, 'm, 'y) spp_eal \<Rightarrow> (int \<times> ('h, 'm, 'y) spp_eal) option"
  env_socket_id :: u32

text \<open>The next message may be awaited, the process leaves its loop, or \<open>rte_exit\<close> ends it.\<close>
datatype 's outcome = Reply 's string | Leave 's | Exit string 's

text \<open>\<open>ports_fwd_array[i]\<close> is written for a signed index.\<close>
definition set_port :: "int \<Rightarrow> (port \<Rightarrow> port) \<Rightarrow> port list \<Rightarrow> port list option" where
  "set_port i f arr =
     (if i < 0 then None else do { p \<leftarrow> aget arr (nat i); aset arr (nat i) (f p) })"

definition tok_is :: "string \<Rightarrow> nat option list \<Rightarrow> nat \<Rightarrow> string \<Rightarrow> bool option" where
  "tok_is buf tk k lit = map_option (\<lambda>s. s = lit) (tok_str buf tk k)"

definition tok_atoi :: "string \<Rightarrow> nat option list \<Rightarrow> nat \<Rightarrow> int option" where
  "tok_atoi buf tk k = map_option atoi (tok_str buf tk k)"

section \<open>The status report\<close>

fun print_active_loop :: "(nat \<times> port) list \<Rightarrow> string \<Rightarrow> string option" where
  "print_active_loop [] str = Some str"
| "print_active_loop ((i, p) # ps) str =
     (if port_status p \<ge> 0
      then do { str \<leftarrow> sprintf_cat str (''port id: '' @ show_nat i @ '','');
                str \<leftarrow> sprintf_cat str ''on,'';
                str \<leftarrow> sprintf_cat str (type_name (port_kind p) @ '','');
                str \<leftarrow> sprintf_cat str (''outport: '' @ show_int (port_out_port_id p) @ ''\<newline>'');
                print_active_loop ps str }
      else print_active_loop ps str)"

definition print_active_ports :: "u8 \<Rightarrow> port list \<Rightarrow> string \<Rightarrow> string option" where
  "print_active_ports cid arr str =
     do { str \<leftarrow> sprintf_at str 0 (show_nat (unat cid) @ ''\<newline>'');
          print_active_loop (enumerate 0 arr) str }"

definition cmd_status :: "('h, 'm, 'y) sec \<Rightarrow> string option" where
  "cmd_status s =
     do { str \<leftarrow> sprintf_at (replicate MSG_SIZE NUL) 0
            (''Client ID '' @ show_nat (unat (client_id s)) @ (if cmd s = START then '' Running\<newline>'' else '' Idling\<newline>''));
          print_active_ports (client_id s) (ports_fwd_array s) str }"

section \<open>Adding ports\<close>

definition cmd_add_vhost ::
  "('h, 'm, 'y) sec_env \<Rightarrow> ('h, 'm, 'y) sec \<Rightarrow> string \<Rightarrow> nat option list \<Rightarrow> ('h, 'm, 'y) sec outcome option" where
  "cmd_add_vhost env s buf tk =
     do { (mp, e) \<leftarrow> rte_mempool_lookup (sec_eal s) PKTMBUF_POOL_NAME;
          if mp = 0 then Some (Exit ''Cannot get mempool for mbufs'' (s\<lparr>sec_eal := e\<rparr>))
          else do {
            index \<leftarrow> tok_atoi buf tk 2;
            let name = get_vhost_backend_name (word_of_int index);
            let iface = get_vhost_iface_name (word_of_int index);
            (port, e) \<leftarrow> env_from_vhost env name index iface (env_socket_id env) mp e;
            arr \<leftarrow> set_port port (\<lambda>p. p\<lparr>port_status := port, port_kind := VHOST\<rparr>) (ports_fwd_array s);
            Some (Reply (s\<lparr>ports_fwd_array := arr, sec_eal := e\<rparr>) buf) } }"

definition ring_of_id :: "u16 \<Rightarrow> string" where
  "ring_of_id ring_id =
     (if ring_id \<ge> 255 then get_ring_name (ucast (drop_bit 8 ring_id)) else get_rx_queue_name (ucast ring_id))"

definition cmd_add_ring ::
  "('h, 'm, 'y) sec_env \<Rightarrow> ('h, 'm, 'y) sec \<Rightarrow> string \<Rightarrow> nat option list \<Rightarrow> ('h, 'm, 'y) sec outcome option" where
  "cmd_add_ring env s buf tk =
     do { n \<leftarrow> tok_atoi buf tk 2;
          (ring, e) \<leftarrow> rte_ring_lookup (sec_eal s) (ring_of_id (word_of_int n));
          if ring = 0 then Some (Exit ''Cannot get RX ring - is server process running?'' (s\<lparr>sec_eal := e\<rparr>))
          else do {
            (ret, e) \<leftarrow> rte_eth_from_ring_s0 (env_ops env) (env_data_size env) (env_internals_size env) e ring;
            let port = int (unat (word_of_int ret :: u16));
            arr \<leftarrow> set_port port (\<lambda>p. p\<lparr>port_status := port, port_kind := RING\<rparr>) (ports_fwd_array s);
            Some (Reply (s\<lparr>ports_fwd_array := arr, sec_eal := e\<rparr>) buf) } }"

text \<open>
  The common part of \<open>add rx\<close> and \<open>add tx\<close>: the number of the ring as stored in \<open>rx_rings\<close> or
  \<open>tx_rings\<close> (\<open>rings\<close>) and the port as stored in \<open>rx_ports\<close> or \<open>tx_ports\<close>.
\<close>
definition add_direction ::
  "('h, 'm, 'y) sec_env \<Rightarrow> ('h, 'm, 'y) spp_eal \<Rightarrow> nat \<Rightarrow> u32 list \<Rightarrow> u32 list \<Rightarrow> string \<Rightarrow> nat option list \<Rightarrow>
     (bool \<times> u32 list \<times> u32 list \<times> ('h, 'm, 'y) spp_eal) option" where
  "add_direction env e pos rings ports buf tk =
     do { is_ring \<leftarrow> tok_is buf tk 2 ''ring'';
          if is_ring
          then do {
            n \<leftarrow> tok_atoi buf tk 3;
            rings \<leftarrow> aset rings pos (word_of_int n);
            (ring, e) \<leftarrow> rte_ring_lookup e (get_rx_queue_name (word_of_int n));
            if ring = 0 then Some (False, rings, ports, e)
            else do {
              (ret, e) \<leftarrow> rte_eth_from_ring (env_ops env) (env_data_size env) (env_internals_size env) e ring;
              ports \<leftarrow> aset ports pos (word_of_int ret);
              Some (True, rings, ports, e) } }
          else do {
            n \<leftarrow> tok_atoi buf tk 2;
            ports \<leftarrow> aset ports pos (word_of_int n);
            Some (True, rings, ports, e) } }"

definition cmd_add_rx ::
  "('h, 'm, 'y) sec_env \<Rightarrow> ('h, 'm, 'y) sec \<Rightarrow> string \<Rightarrow> nat option list \<Rightarrow> ('h, 'm, 'y) sec outcome option" where
  "cmd_add_rx env s buf tk =
     (let pos = unat (save_pos s) in
      do { (ok, rings, ports, e) \<leftarrow> add_direction env (sec_eal s) pos (rx_rings s) (rx_ports s) buf tk;
           if \<not> ok then Some (Exit ''Cannot get RX ring - is server process running?'' (s\<lparr>rx_rings := rings, sec_eal := e\<rparr>))
           else do {
             funcs \<leftarrow> aset (rx_funcs s) pos (Some Fn_rte_eth_rx_burst);
             Some (Reply (s\<lparr>rx_rings := rings, rx_ports := ports, rx_funcs := funcs, sec_eal := e\<rparr>) buf) } })"

definition cmd_add_tx ::
  "('h, 'm, 'y) sec_env \<Rightarrow> ('h, 'm, 'y) sec \<Rightarrow> string \<Rightarrow> nat option list \<Rightarrow> ('h, 'm, 'y) sec outcome option" where
  "cmd_add_tx env s buf tk =
     (let pos = unat (save_pos s) in
      do { (ok, rings, ports, e) \<leftarrow> add_direction env (sec_eal s) pos (tx_rings s) (tx_ports s) buf tk;
           if \<not> ok then Some (Exit ''Cannot get RX ring - is server process running?'' (s\<lparr>tx_rings := rings, sec_eal := e\<rparr>))
           else do {
             funcs \<leftarrow> aset (tx_funcs s) pos (Some Fn_rte_eth_tx_burst);
             Some (Reply (s\<lparr>tx_rings := rings, tx_ports := ports, tx_funcs := funcs, sec_eal := e\<rparr>) buf) } })"

text \<open>At most one of the four comparisons of the second word succeeds.\<close>
definition cmd_add ::
  "('h, 'm, 'y) sec_env \<Rightarrow> ('h, 'm, 'y) sec \<Rightarrow> string \<Rightarrow> nat option list \<Rightarrow> ('h, 'm, 'y) sec outcome option" where
  "cmd_add env s buf tk =
     do { w \<leftarrow> tok_str buf tk 1;
          if w = ''vhost'' then cmd_add_vhost env s buf tk
          else if w = ''ring'' then cmd_add_ring env s buf tk
          else if w = ''rx'' then cmd_add_rx env s buf tk
          else if w = ''tx'' then cmd_add_tx env s buf tk
          else Some (Reply s buf) }"

section \<open>Patching and the other commands\<close>

definition with_funcs :: "port \<Rightarrow> port" where
  "with_funcs p = p\<lparr>port_rx_func := Some Fn_rte_eth_rx_burst, port_tx_func := Some Fn_rte_eth_tx_burst\<rparr>"

text \<open>The assignments of a patch, in the order of the code.\<close>
definition patch_ports :: "int \<Rightarrow> int \<Rightarrow> port list \<Rightarrow> port list option" where
  "patch_ports in_port out_port arr =
     do { arr \<leftarrow> set_port in_port (\<lambda>p. with_funcs (p\<lparr>port_status := in_port\<rparr>)) arr;
          arr \<leftarrow> set_port in_port (\<lambda>p. p\<lparr>port_out_port_id := out_port\<rparr>) arr;
          set_port out_port (\<lambda>p. with_funcs (p\<lparr>port_status := out_port\<rparr>)) arr }"

definition cmd_patch :: "('h, 'm, 'y) sec \<Rightarrow> string \<Rightarrow> nat option list \<Rightarrow> ('h, 'm, 'y) sec outcome option" where
  "cmd_patch s buf tk =
     do { w \<leftarrow> tok_str buf tk 1;
          if strncmp_eq w ''reset'' 5
          then Some (Reply (s\<lparr>ports_fwd_array := forward_array_reset (ports_fwd_array s)\<rparr>) buf)
          else do {
            out_port \<leftarrow> tok_atoi buf tk 2;
            arr \<leftarrow> patch_ports (atoi w) out_port (ports_fwd_array s);
            Some (Reply (s\<lparr>ports_fwd_array := arr\<rparr>) buf) } }"

text \<open>The argument of the log message is evaluated, so that the third word must be there.\<close>
definition cmd_del :: "('h, 'm, 'y) sec \<Rightarrow> string \<Rightarrow> nat option list \<Rightarrow> ('h, 'm, 'y) sec outcome option" where
  "cmd_del s buf tk =
     (let s = s\<lparr>cmd := STOP\<rparr>; pos = unat (save_pos s) in
      do { w \<leftarrow> tok_str buf tk 1;
           if w = ''rx''
           then do {
             n \<leftarrow> tok_atoi buf tk 2;
             ports \<leftarrow> aset (rx_ports s) pos (of_nat (RTE_MAX_ETHPORTS + 1));
             funcs \<leftarrow> aset (rx_funcs s) pos None;
             Some (Reply (s\<lparr>rx_ports := ports, rx_funcs := funcs\<rparr>) buf) }
           else if w = ''tx''
           then do {
             n \<leftarrow> tok_atoi buf tk 2;
             ports \<leftarrow> aset (tx_ports s) pos (of_nat (RTE_MAX_ETHPORTS + 1));
             funcs \<leftarrow> aset (tx_funcs s) pos None;
             Some (Reply (s\<lparr>tx_ports := ports, tx_funcs := funcs\<rparr>) buf) }
           else Some (Reply s buf) })"

definition cmd_save :: "('h, 'm, 'y) sec \<Rightarrow> string \<Rightarrow> nat option list \<Rightarrow> ('h, 'm, 'y) sec outcome option" where
  "cmd_save s buf tk =
     do { n \<leftarrow> tok_atoi buf tk 1;
          let input_pos = word_of_int n;
          if input_pos = exec_pos s
          then do { str \<leftarrow> sprintf_at buf 0 (''Save == loop position: cleint '' @ show_nat (unat (client_id s)) @ ''\<newline>'');
                    Some (Reply s str) }
          else do { str \<leftarrow> sprintf_at buf 0 (''Save changed: '' @ show_int (sint input_pos) @ '' for client ''
                             @ show_nat (unat (client_id s)) @ ''\<newline>'');
                    Some (Reply (s\<lparr>save_pos := input_pos\<rparr>) str) } }"

definition cmd_exec :: "('h, 'm, 'y) sec \<Rightarrow> string \<Rightarrow> nat option list \<Rightarrow> ('h, 'm, 'y) sec outcome option" where
  "cmd_exec s buf tk =
     do { n \<leftarrow> tok_atoi buf tk 1;
          let pos = word_of_int n;
          str \<leftarrow> sprintf_at buf 0 (''Loop changed: '' @ show_int (sint pos) @ '' for client ''
                    @ show_nat (unat (client_id s)) @ ''\<newline>'');
          Some (Reply (s\<lparr>exec_pos := pos\<rparr>) str) }"

section \<open>The dispatch\<close>

text \<open>
  After a status report the first token points into the report, and the comparisons go on with
  what is there now.
\<close>
definition dispatch ::
  "('h, 'm, 'y) sec_env \<Rightarrow> ('h, 'm, 'y) sec \<Rightarrow> string \<Rightarrow> nat option list \<Rightarrow> ('h, 'm, 'y) sec outcome option" where
  "dispatch env s buf tk =
     do { w \<leftarrow> tok_str buf tk 0;
          buf \<leftarrow> (if w = ''status'' then cmd_status s else Some buf);
          w \<leftarrow> tok_str buf tk 0;
          if w = ''exit'' then Some (Leave (s\<lparr>cmd := STOP\<rparr>))
          else if w = ''start'' then Some (Reply (s\<lparr>cmd := START\<rparr>) buf)
          else if w = ''stop'' then Some (Reply (s\<lparr>cmd := STOP\<rparr>) buf)
          else if w = ''forward'' then Some (Reply (s\<lparr>cmd := FORWARD\<rparr>) buf)
          else if w = ''add'' then cmd_add env s buf tk
          else if w = ''patch'' then cmd_patch s buf tk
          else if w = ''del'' then cmd_del s buf tk
          else if w = ''save'' then cmd_save s buf tk
          else if w = ''exec'' then cmd_exec s buf tk
          else Some (Reply s buf) }"

definition handle_message :: "('h, 'm, 'y) sec_env \<Rightarrow> ('h, 'm, 'y) sec \<Rightarrow> string \<Rightarrow> ('h, 'm, 'y) sec outcome option" where
  "handle_message env s str = do { (buf, tk) \<leftarrow> tokens str; dispatch env s buf tk }"

section \<open>Start and connection\<close>

text \<open>The table at the start: the network cards among the first ports are active.\<close>
fun mark_phys :: "('h, 'm, 'y) spp_eal \<Rightarrow> nat list \<Rightarrow> port list \<Rightarrow> port list option" where
  "mark_phys e [] arr = Some arr"
| "mark_phys e (i # is) arr =
     (if rte_eth_dev_is_valid_port e (of_nat i) \<and> rte_eth_dev_get_device_type e (of_nat i) = RTE_ETH_DEV_PCI
      then do { arr \<leftarrow> set_port (int i) (\<lambda>p. p\<lparr>port_status := int i, port_kind := PHY\<rparr>) arr; mark_phys e is arr }
      else mark_phys e is arr)"

definition main_init :: "('h, 'm, 'y) sec \<Rightarrow> ('h, 'm, 'y) sec option" where
  "main_init s =
     (let nb = unat (rte_eth_dev_count (sec_eal s));
          nb = (if nb > RTE_MAX_ETHPORTS then RTE_MAX_ETHPORTS else nb)
      in do { arr \<leftarrow> mark_phys (sec_eal s) [0..<nb] (forward_array_init (ports_fwd_array s));
              Some (s\<lparr>ports_fwd_array := arr\<rparr>) })"

text \<open>
  What the socket calls of one turn of the loop return; the bytes of the message are those
  \<open>recv\<close> stored.
\<close>
record net_io =
  io_socket :: int
  io_connect :: int
  io_recv :: "int \<times> string"
  io_send :: int

definition SOCK_RESET :: int where "SOCK_RESET = - 1"

text \<open>The state, the socket and whether it is connected, or the exit code of the process.\<close>
datatype 's turn = Next 's int bool | Finished int 's

text \<open>
  Socket and connection at the head of the loop: \<open>Inl\<close> ends the turn, \<open>Inr\<close> is the socket to
  receive from.
\<close>
definition main_connect :: "('h, 'm, 'y) sec \<Rightarrow> int \<Rightarrow> bool \<Rightarrow> net_io \<Rightarrow> ('h, 'm, 'y) sec turn + int" where
  "main_connect s sock connected io =
     (if connected then Inr sock
      else if sock < 0 \<and> io_socket io < 0 then Inl (Finished 1 s)
      else
        let sock = (if sock < 0 then io_socket io else sock)
        in if io_connect io < 0 then Inl (Next s sock False) else Inr sock)"

definition main_turn :: "('h, 'm, 'y) sec_env \<Rightarrow> ('h, 'm, 'y) sec \<Rightarrow> int \<Rightarrow> bool \<Rightarrow> net_io \<Rightarrow> ('h, 'm, 'y) sec turn option" where
  "main_turn env s sock connected io =
     (case main_connect s sock connected io of
        Inl t \<Rightarrow> Some t
      | Inr sock \<Rightarrow>
          let (t, data) = io_recv io
          in if t > 0
             then do {
               out \<leftarrow> handle_message env s (msg_buf (take (nat t) data));
               case out of
                 Leave s \<Rightarrow> Some (Finished 0 s)
               | Exit m s \<Rightarrow> Some (Finished 1 s)
               | Reply s str \<Rightarrow> if io_send io = - 1 then Some (Next s sock False) else Some (Next s sock True) }
             else Some (Next s SOCK_RESET False))"

section \<open>The invariant of the process\<close>

text \<open>
  The arrays have their sizes, the table is well-formed, and the mode is one of the three that
  commands set.
\<close>
definition sec_inv :: "('h, 'm, 'y) sec \<Rightarrow> bool" where
  "sec_inv s \<longleftrightarrow> table_ok (ports_fwd_array s) \<and> cmd s \<in> {STOP, START, FORWARD}
     \<and> length (rx_ports s) = RTE_MAX_ETHPORTS \<and> length (rx_funcs s) = RTE_MAX_ETHPORTS
     \<and> length (tx_ports s) = RTE_MAX_ETHPORTS \<and> length (tx_funcs s) = RTE_MAX_ETHPORTS
     \<and> length (rx_rings s) = RTE_MAX_ETHPORTS \<and> length (tx_rings s) = RTE_MAX_ETHPORTS"

lemma set_port_Some:
  "set_port i f arr = Some arr' \<longleftrightarrow> 0 \<le> i \<and> nat i < length arr \<and> arr' = arr[nat i := f (arr ! nat i)]"
  by (auto simp: set_port_def aget_def aset_def)

lemma table_ok_update:
  assumes "table_ok arr" and "i < length arr" and "patch_ok arr p" and "port_tx_func (arr ! i) \<noteq> None \<longrightarrow> port_tx_func p \<noteq> None"
  shows "table_ok (arr[i := p])"
proof -
  have "patch_ok (arr[i := p]) q" if "patch_ok arr q" for q
    using that assms(2,4) by (auto simp: patch_ok_def nth_list_update)
  then show ?thesis using assms(1-3) by (auto simp: table_ok_def list_all_length nth_list_update)
qed

text \<open>Status and kind of a port have no part in the invariant of the table.\<close>
lemma table_ok_status:
  assumes "table_ok arr" and "set_port i (\<lambda>p. p\<lparr>port_status := st, port_kind := k\<rparr>) arr = Some arr'"
  shows "table_ok arr'"
proof -
  have i: "nat i < length arr" "arr' = arr[nat i := (arr ! nat i)\<lparr>port_status := st, port_kind := k\<rparr>]"
    using assms(2) by (simp_all add: set_port_Some)
  have "patch_ok arr (arr ! nat i)" using assms(1) i(1) by (simp add: table_ok_def list_all_length)
  then show ?thesis unfolding i(2) using assms(1) i(1) by (intro table_ok_update) (simp_all add: patch_ok_def)
qed

lemma with_funcs_sel [simp]:
  "port_rx_func (with_funcs p) = Some Fn_rte_eth_rx_burst" "port_tx_func (with_funcs p) = Some Fn_rte_eth_tx_burst"
  "port_out_port_id (with_funcs p) = port_out_port_id p" "port_status (with_funcs p) = port_status p"
  "port_kind (with_funcs p) = port_kind p"
  by (simp_all add: with_funcs_def)

text \<open>A patch that stays inside the table.\<close>
lemma patch_ports_Some:
  assumes "patch_ports i j arr = Some arr'"
  shows "0 \<le> i \<and> nat i < length arr \<and> 0 \<le> j \<and> nat j < length arr
    \<and> arr' = (let a = arr[nat i := (with_funcs ((arr ! nat i)\<lparr>port_status := i\<rparr>))\<lparr>port_out_port_id := j\<rparr>]
        in a[nat j := with_funcs ((a ! nat j)\<lparr>port_status := j\<rparr>)])"
  using assms by (auto simp: patch_ports_def set_port_Some Let_def split: bind_splits)

lemma table_ok_patch:
  assumes "table_ok arr" and "patch_ports i j arr = Some arr'"
  shows "table_ok arr'"
proof -
  define q where "q = with_funcs ((arr ! nat i)\<lparr>port_status := i\<rparr>)"
  define a where "a = arr[nat i := q\<lparr>port_out_port_id := j\<rparr>]"
  have r: "nat i < length arr" "0 \<le> j" "nat j < length arr" "arr' = a[nat j := with_funcs ((a ! nat j)\<lparr>port_status := j\<rparr>)]"
    using patch_ports_Some [OF assms(2)] by (simp_all add: a_def q_def Let_def)
  have tx: "port_tx_func (arr' ! nat j) \<noteq> None" using r by (simp add: a_def)
  have keep: "port_tx_func (arr ! k) \<noteq> None \<longrightarrow> port_tx_func (arr' ! k) \<noteq> None" if "k < length arr" for k
    using that r by (auto simp: a_def q_def nth_list_update)
  have "patch_ok arr' (arr' ! k)" if k: "k < length arr" for k
  proof (cases "k = nat i")
    case True
    have "port_rx_func (arr' ! k) \<noteq> None" "port_out_port_id (arr' ! k) = j"
      using True r by (auto simp: a_def q_def nth_list_update)
    then show ?thesis using r(2,3) tx by (simp add: patch_ok_def r(4) a_def)
  next
    case False
    have "port_rx_func (arr ! k) \<noteq> None \<longrightarrow> port_rx_func (arr' ! k) \<noteq> None"
      "port_out_port_id (arr' ! k) = port_out_port_id (arr ! k)" "length arr' = length arr"
      using False k r by (auto simp: a_def q_def nth_list_update)
    moreover have "patch_ok arr (arr ! k)" using assms(1) k by (simp add: table_ok_def list_all_length)
    ultimately show ?thesis using keep by (auto simp: patch_ok_def)
  qed
  then show ?thesis using assms(1) by (simp add: table_ok_def list_all_length r(4) a_def)
qed

fun out_state :: "'s outcome \<Rightarrow> 's" where
  "out_state (Reply s str) = s"
| "out_state (Leave s) = s"
| "out_state (Exit m s) = s"

text \<open>An outcome that keeps the invariant, with a reply of the size of the message buffer.\<close>
definition keeps :: "nat \<Rightarrow> ('h, 'm, 'y) sec outcome \<Rightarrow> bool" where
  "keeps n out \<longleftrightarrow> sec_inv (out_state out) \<and> (case out of Reply s str \<Rightarrow> length str = n | _ \<Rightarrow> True)"

lemma length_sprintf_at: "sprintf_at buf off s = Some buf' \<Longrightarrow> length buf' = length buf"
  by (auto simp: sprintf_at_def split: if_splits)

lemma length_sprintf_cat: "sprintf_cat buf s = Some buf' \<Longrightarrow> length buf' = length buf"
  by (auto simp: sprintf_cat_def length_sprintf_at split: bind_splits)

lemma length_print_active: "print_active_loop ps str = Some str' \<Longrightarrow> length str' = length str"
  by (induction ps str rule: print_active_loop.induct) (fastforce dest!: length_sprintf_cat split: bind_splits if_splits)+

lemma length_cmd_status: "cmd_status s = Some str \<Longrightarrow> length str = MSG_SIZE"
  by (auto simp: cmd_status_def print_active_ports_def dest!: length_print_active length_sprintf_at split: bind_splits)

lemma sec_inv_fields [simp]:
  "sec_inv (s\<lparr>sec_eal := e\<rparr>) = sec_inv s" "sec_inv (s\<lparr>save_pos := v\<rparr>) = sec_inv s" "sec_inv (s\<lparr>exec_pos := v\<rparr>) = sec_inv s"
  by (simp_all add: sec_inv_def)

lemma sec_inv_arr: "sec_inv s \<Longrightarrow> table_ok arr \<Longrightarrow> sec_inv (s\<lparr>ports_fwd_array := arr\<rparr>)"
  by (simp add: sec_inv_def)

lemma sec_inv_cmd: "sec_inv s \<Longrightarrow> c \<in> {STOP, START, FORWARD} \<Longrightarrow> sec_inv (s\<lparr>cmd := c\<rparr>)"
  by (simp add: sec_inv_def)

lemma sec_inv_table: "sec_inv s \<Longrightarrow> table_ok (ports_fwd_array s)"
  by (simp add: sec_inv_def)

lemma sec_inv_status:
  "sec_inv s \<Longrightarrow> set_port i (\<lambda>p. p\<lparr>port_status := st, port_kind := k\<rparr>) (ports_fwd_array s) = Some arr \<Longrightarrow>
     sec_inv (s\<lparr>ports_fwd_array := arr\<rparr>)"
  by (rule sec_inv_arr [OF _ table_ok_status [OF sec_inv_table]])

lemma sec_inv_patch:
  "sec_inv s \<Longrightarrow> patch_ports i j (ports_fwd_array s) = Some arr \<Longrightarrow> sec_inv (s\<lparr>ports_fwd_array := arr\<rparr>)"
  by (rule sec_inv_arr [OF _ table_ok_patch [OF sec_inv_table]])

lemma cmd_add_vhost_keeps: "sec_inv s \<Longrightarrow> cmd_add_vhost env s buf tk = Some out \<Longrightarrow> keeps (length buf) out"
  by (auto simp: cmd_add_vhost_def keeps_def Let_def split: bind_splits if_splits prod.splits
      intro: sec_inv_status)

lemma cmd_add_ring_keeps: "sec_inv s \<Longrightarrow> cmd_add_ring env s buf tk = Some out \<Longrightarrow> keeps (length buf) out"
  by (auto simp: cmd_add_ring_def keeps_def Let_def split: bind_splits if_splits prod.splits
      intro: sec_inv_status)

lemma add_direction_lengths:
  "add_direction env e pos rings ports buf tk = Some (ok, rings', ports', e') \<Longrightarrow>
     length rings' = length rings \<and> length ports' = length ports"
  by (auto simp: add_direction_def aset_Some split: bind_splits if_splits prod.splits)

lemma cmd_add_rx_keeps: "sec_inv s \<Longrightarrow> cmd_add_rx env s buf tk = Some out \<Longrightarrow> keeps (length buf) out"
  by (auto simp: cmd_add_rx_def keeps_def Let_def sec_inv_def aset_Some split: bind_splits if_splits prod.splits
      dest!: add_direction_lengths)

lemma cmd_add_tx_keeps: "sec_inv s \<Longrightarrow> cmd_add_tx env s buf tk = Some out \<Longrightarrow> keeps (length buf) out"
  by (auto simp: cmd_add_tx_def keeps_def Let_def sec_inv_def aset_Some split: bind_splits if_splits prod.splits
      dest!: add_direction_lengths)

lemma cmd_add_keeps: "sec_inv s \<Longrightarrow> cmd_add env s buf tk = Some out \<Longrightarrow> keeps (length buf) out"
  by (auto simp: cmd_add_def cmd_add_vhost_keeps cmd_add_ring_keeps cmd_add_rx_keeps cmd_add_tx_keeps
      split: bind_splits if_splits) (simp add: keeps_def)

lemma table_ok_reset: "table_ok arr \<Longrightarrow> table_ok (forward_array_reset arr)"
  by (auto simp: table_ok_def patch_ok_def list_all_length forward_array_reset_def)

lemma sec_inv_reset: "sec_inv s \<Longrightarrow> sec_inv (s\<lparr>ports_fwd_array := forward_array_reset (ports_fwd_array s)\<rparr>)"
  by (rule sec_inv_arr [OF _ table_ok_reset [OF sec_inv_table]])

lemma cmd_patch_keeps: "sec_inv s \<Longrightarrow> cmd_patch s buf tk = Some out \<Longrightarrow> keeps (length buf) out"
  by (auto simp: cmd_patch_def keeps_def split: bind_splits if_splits
      intro: sec_inv_patch sec_inv_reset)

lemma cmd_del_keeps: "sec_inv s \<Longrightarrow> cmd_del s buf tk = Some out \<Longrightarrow> keeps (length buf) out"
  by (auto simp: cmd_del_def keeps_def Let_def sec_inv_def aset_Some split: bind_splits if_splits)

lemma cmd_save_keeps: "sec_inv s \<Longrightarrow> cmd_save s buf tk = Some out \<Longrightarrow> keeps (length buf) out"
  by (auto simp: cmd_save_def keeps_def Let_def length_sprintf_at split: bind_splits if_splits)

lemma cmd_exec_keeps: "sec_inv s \<Longrightarrow> cmd_exec s buf tk = Some out \<Longrightarrow> keeps (length buf) out"
  by (auto simp: cmd_exec_def keeps_def Let_def length_sprintf_at split: bind_splits if_splits)

lemmas cmds_keep = cmd_add_keeps cmd_patch_keeps cmd_del_keeps cmd_save_keeps cmd_exec_keeps

lemma dispatch_keeps:
  assumes "sec_inv s" and "dispatch env s buf tk = Some out" and "length buf = MSG_SIZE"
  shows "keeps MSG_SIZE out"
proof -
  obtain w where "tok_str buf tk 0 = Some w" using assms(2) by (auto simp: dispatch_def split: bind_splits)
  then obtain buf' where buf': "(if w = ''status'' then cmd_status s else Some buf) = Some buf'"
    and out: "(tok_str buf' tk 0 \<bind> (\<lambda>w. if w = ''exit'' then Some (Leave (s\<lparr>cmd := STOP\<rparr>))
          else if w = ''start'' then Some (Reply (s\<lparr>cmd := START\<rparr>) buf')
          else if w = ''stop'' then Some (Reply (s\<lparr>cmd := STOP\<rparr>) buf')
          else if w = ''forward'' then Some (Reply (s\<lparr>cmd := FORWARD\<rparr>) buf')
          else if w = ''add'' then cmd_add env s buf' tk
          else if w = ''patch'' then cmd_patch s buf' tk
          else if w = ''del'' then cmd_del s buf' tk
          else if w = ''save'' then cmd_save s buf' tk
          else if w = ''exec'' then cmd_exec s buf' tk
          else Some (Reply s buf'))) = Some out"
    using assms(2) unfolding dispatch_def by (auto split: bind_splits)
  have len: "length buf' = MSG_SIZE" using buf' assms(3) by (auto simp: length_cmd_status split: if_splits)
  have mode: "keeps (length buf') (Reply (s\<lparr>cmd := c\<rparr>) buf')" "keeps (length buf') (Leave (s\<lparr>cmd := c\<rparr>))"
    if "c \<in> {STOP, START, FORWARD}" for c
    using sec_inv_cmd [OF assms(1) that] by (simp_all add: keeps_def)
  have "keeps (length buf') out"
    using out assms(1) by (auto intro: cmds_keep mode split: bind_splits if_splits) (simp add: keeps_def)
  then show ?thesis by (simp only: len)
qed

section \<open>Messages made of words\<close>

lemma length_strtok_at: "strtok_at buf pos = Some (t, buf', pos') \<Longrightarrow> length buf' = length buf"
  by (auto simp: strtok_at_def Let_def split: bind_splits if_splits)

lemma length_tokenize: "tokenize i buf pos tk = Some (buf', tk') \<Longrightarrow> length buf' = length buf"
proof (induction i buf pos tk rule: tokenize.induct)
  case (1 i buf pos tk)
  then show ?case
    by (subst (asm) (2) tokenize.simps) (auto dest!: length_strtok_at split: bind_splits option.splits)
qed

lemma digit_not_blank: "is_digit c \<Longrightarrow> c \<noteq> CHR '' '' \<and> c \<noteq> NUL"
  by (auto simp: is_digit_def NUL_def)

lemma is_word_show_nat [simp]: "is_word (show_nat n)"
  using show_nat_digits [of n] digit_not_blank by (auto simp: is_word_def list_all_iff)

lemma show_nat_short: "n < 2 ^ 31 \<Longrightarrow> length (show_nat n) \<le> 10"
  using length_show_nat [of 10 n] by simp

text \<open>A command line in the message buffer.\<close>
definition cmd_line :: "string \<Rightarrow> string list \<Rightarrow> string" where
  "cmd_line c args = msg_buf (join_by (CHR '' '') (c # args))"

definition short_word :: "string \<Rightarrow> bool" where
  "short_word w \<longleftrightarrow> is_word w \<and> length w \<le> 10"

lemma short_show_nat [simp]: "n < 2 ^ 31 \<Longrightarrow> short_word (show_nat n)"
  by (simp add: short_word_def show_nat_short)

lemma length_join: "list_all short_word ws \<Longrightarrow> length (join_by c ws) \<le> 11 * length ws"
  by (induction ws) (auto simp: short_word_def)

text \<open>A command line of a few short words fits: the handler is the dispatch on these words.\<close>
lemma tokens_line:
  assumes "list_all short_word (c # args)" and "length args \<le> 3"
  shows "\<exists>buf tk. tokens (cmd_line c args) = Some (buf, tk) \<and> length buf = MSG_SIZE
    \<and> (\<forall>k\<le>length args. tok_str buf tk k = Some ((c # args) ! k)) \<and> (\<forall>k>length args. tok_str buf tk k = None)"
proof -
  have "list_all is_word (c # args)" using assms(1) by (auto simp: list_all_iff short_word_def)
  moreover have "length (join_by (CHR '' '') (c # args)) < MSG_SIZE"
    using length_join [OF assms(1), of "CHR '' ''"] assms(2) by (simp add: MSG_SIZE_def del: join_by.simps)
  ultimately show ?thesis
    using tokens_words [of "c # args"] assms(2)
    by (auto simp: MAX_PARAMETER_def cmd_line_def less_Suc_eq_le Suc_le_eq simp del: join_by.simps)
qed

lemma handle_line:
  assumes "list_all short_word (c # args)" and "length args \<le> 3"
  shows "\<exists>buf tk. handle_message env s (cmd_line c args) = dispatch env s buf tk
    \<and> (\<forall>k\<le>length args. tok_str buf tk k = Some ((c # args) ! k)) \<and> length buf = MSG_SIZE"
proof -
  obtain buf tk where "tokens (cmd_line c args) = Some (buf, tk)" "length buf = MSG_SIZE"
    "\<forall>k\<le>length args. tok_str buf tk k = Some ((c # args) ! k)" using tokens_line [OF assms] by blast
  then show ?thesis by (intro exI [of _ buf] exI [of _ tk]) (simp add: handle_message_def)
qed

lemma short_words [simp]:
  "short_word ''patch''" "short_word ''status''" "short_word ''add''" "short_word ''ring''"
  by (simp_all add: short_word_def is_word_def NUL_def)

lemma reset_not_number: "\<not> strncmp_eq (show_nat n) ''reset'' 5"
proof
  assume "strncmp_eq (show_nat n) ''reset'' 5"
  then have "hd (show_nat n) = CHR ''r''" by (cases "show_nat n") (auto simp: strncmp_eq_def)
  moreover have "is_digit (hd (show_nat n))" using show_nat_digits [of n] by (cases "show_nat n") auto
  ultimately show False by (simp add: is_digit_def)
qed

lemma handle_patch:
  assumes "i < 2 ^ 31" and "j < 2 ^ 31"
  shows "\<exists>buf. handle_message env s (cmd_line ''patch'' [show_nat i, show_nat j]) =
    (case patch_ports (int i) (int j) (ports_fwd_array s) of
       None \<Rightarrow> None | Some arr \<Rightarrow> Some (Reply (s\<lparr>ports_fwd_array := arr\<rparr>) buf))"
proof -
  obtain buf tk where h: "handle_message env s (cmd_line ''patch'' [show_nat i, show_nat j]) = dispatch env s buf tk"
    and t: "tok_str buf tk 0 = Some ''patch''" "tok_str buf tk 1 = Some (show_nat i)" "tok_str buf tk 2 = Some (show_nat j)"
    using handle_line [of "''patch''" "[show_nat i, show_nat j]" env s] assms by (auto simp: le_Suc_eq numeral_2_eq_2)
  have "dispatch env s buf tk = cmd_patch s buf tk" using t by (simp add: dispatch_def)
  also have "\<dots> = (case patch_ports (int i) (int j) (ports_fwd_array s) of
       None \<Rightarrow> None | Some arr \<Rightarrow> Some (Reply (s\<lparr>ports_fwd_array := arr\<rparr>) buf))"
    using t assms by (simp add: cmd_patch_def tok_atoi_def reset_not_number atoi_show_nat split: option.split)
  finally show ?thesis using h by auto
qed

lemma handle_keeps:
  assumes "sec_inv s" and "length str = MSG_SIZE" and "handle_message env s str = Some out"
  shows "keeps MSG_SIZE out"
proof -
  obtain buf tk where t: "tokens str = Some (buf, tk)" "dispatch env s buf tk = Some out"
    using assms(3) by (auto simp: handle_message_def split: bind_splits)
  have "length buf = MSG_SIZE" using length_tokenize t(1) assms(2) unfolding tokens_def by fastforce
  then show ?thesis using dispatch_keeps [OF assms(1) t(2)] by simp
qed

section \<open>Printing at the end of the string\<close>

lemma sprintf_cat_Some:
  assumes "sprintf_cat buf s = Some buf'" and "cstr_at buf 0 = Some t" and "NUL \<notin> set s"
  shows "cstr_at buf' 0 = Some (t @ s) \<and> length t + length s < length buf"
proof -
  have t: "t = takeWhile (\<lambda>c. c \<noteq> NUL) buf" using assms(2) by (auto simp: cstr_at_def split: if_splits)
  have pre: "take (length t) buf = t" unfolding t by (rule takeWhile_eq_take [symmetric])
  have nul: "NUL \<notin> set t" unfolding t by (metis set_takeWhileD)
  have b: "buf' = t @ s @ [NUL] @ drop (length t + length s + 1) buf" "length t + length s < length buf"
    using assms(1,2) pre by (auto simp: sprintf_cat_def sprintf_at_def split: if_splits)
  have "takeWhile (\<lambda>c. c \<noteq> NUL) ((t @ s) @ NUL # r) = t @ s" for r
    using nul assms(3) by (subst takeWhile_append2) auto
  then show ?thesis using b by (simp add: cstr_at_def)
qed

lemma NUL_notin [simp]: "NUL \<notin> set (show_nat n)" "NUL \<notin> set (show_int i)" "NUL \<notin> set (type_name k)"
proof -
  show nat: "NUL \<notin> set (show_nat n)" for n using show_nat_digits [of n] digit_not_blank by blast
  show "NUL \<notin> set (show_int i)" using nat by (auto simp: show_int_def NUL_def)
  show "NUL \<notin> set (type_name k)" by (cases k) (simp_all add: type_name_def NUL_def)
qed

lemma show_lengths: "1 \<le> length (show_nat n)" "1 \<le> length (show_int i)" "3 \<le> length (type_name k)"
proof -
  show nat: "1 \<le> length (show_nat n)" for n by (cases "show_nat n") (use show_nat_nonempty [of n] in auto)
  show "1 \<le> length (show_int i)" using nat by (auto simp: show_int_def le_SucI)
  show "3 \<le> length (type_name k)" by (cases k) (simp_all add: type_name_def)
qed

abbreviation is_active :: "port \<Rightarrow> bool" where
  "is_active p \<equiv> port_status p \<ge> 0"

text \<open>Each active port takes at least 29 characters of the report.\<close>
lemma print_active_grows:
  assumes "print_active_loop ps str = Some str'" and "cstr_at str 0 = Some t"
  shows "\<exists>t'. cstr_at str' 0 = Some t' \<and> length t + 29 * length (filter (\<lambda>x. is_active (snd x)) ps) \<le> length t'"
  using assms
proof (induction ps str arbitrary: t rule: print_active_loop.induct)
  case (2 i p ps str)
  show ?case
  proof (cases "is_active p")
    case True
    let ?a = "''port id: '' @ show_nat i @ '',''" and ?c = "type_name (port_kind p) @ '',''"
    let ?d = "''outport: '' @ show_int (port_out_port_id p) @ ''\<newline>''"
    obtain s1 s2 s3 s4 where s: "sprintf_cat str ?a = Some s1" "sprintf_cat s1 ''on,'' = Some s2"
      "sprintf_cat s2 ?c = Some s3" "sprintf_cat s3 ?d = Some s4" "print_active_loop ps s4 = Some str'"
      using 2(3) True by (auto split: bind_splits)
    have nul: "NUL \<notin> set ?a" "NUL \<notin> set ''on,''" "NUL \<notin> set ?c" "NUL \<notin> set ?d"
      using NUL_notin(1) [of i] NUL_notin(2) [of "port_out_port_id p"] NUL_notin(3) [of "port_kind p"] unfolding NUL_def by auto
    from sprintf_cat_Some [OF s(1) 2(4) nul(1)] have c1: "cstr_at s1 0 = Some (t @ ?a)" by blast
    from sprintf_cat_Some [OF s(2) c1 nul(2)] have c2: "cstr_at s2 0 = Some ((t @ ?a) @ ''on,'')" by blast
    from sprintf_cat_Some [OF s(3) c2 nul(3)] have c3: "cstr_at s3 0 = Some (((t @ ?a) @ ''on,'') @ ?c)" by blast
    from sprintf_cat_Some [OF s(4) c3 nul(4)] have c4: "cstr_at s4 0 = Some ((((t @ ?a) @ ''on,'') @ ?c) @ ?d)" by blast
    have "29 \<le> length ?a + length ''on,'' + length ?c + length ?d"
      using show_lengths(1) [of i] show_lengths(2) [of "port_out_port_id p"] show_lengths(3) [of "port_kind p"] by simp
    moreover obtain t' where "cstr_at str' 0 = Some t'"
      "length ((((t @ ?a) @ ''on,'') @ ?c) @ ?d) + 29 * length (filter (\<lambda>x. is_active (snd x)) ps) \<le> length t'"
      using 2(1) [OF True s(1-4) s(5) c4] by blast
    ultimately show ?thesis using True by (intro exI [of _ t']) simp
  next
    case False
    then show ?thesis using 2(2) [OF False _ 2(4)] 2(3) by simp
  qed
qed simp

lemma cstr_at_less: "cstr_at buf 0 = Some t \<Longrightarrow> length t < length buf"
proof -
  assume t: "cstr_at buf 0 = Some t"
  then have nul: "NUL \<in> set buf" and tw: "t = takeWhile (\<lambda>c. c \<noteq> NUL) buf" by (auto simp: cstr_at_def split: if_splits)
  have "length t \<noteq> length buf"
  proof
    assume "length t = length buf"
    then have "t = buf" using takeWhile_eq_take [of "\<lambda>c. c \<noteq> NUL" buf, folded tw] by simp
    then show False using nul tw by (metis set_takeWhileD)
  qed
  moreover have "length t \<le> length buf" by (simp add: tw length_takeWhile_le)
  ultimately show "length t < length buf" by simp
qed

lemma cmd_status_overflow:
  assumes "4 \<le> length (filter is_active (ports_fwd_array s))"
  shows "cmd_status s = None"
proof (rule ccontr)
  assume "cmd_status s \<noteq> None"
  then obtain str where str: "cmd_status s = Some str" by blast
  then obtain s1 s2 where s: "sprintf_at s1 0 (show_nat (unat (client_id s)) @ ''\<newline>'') = Some s2"
    "print_active_loop (enumerate 0 (ports_fwd_array s)) s2 = Some str"
    by (auto simp: cmd_status_def print_active_ports_def split: bind_splits)
  have n: "length (filter (\<lambda>x. is_active (snd x)) (enumerate k xs)) = length (filter is_active xs)" for k xs
    by (induction xs arbitrary: k) simp_all
  have "cstr_at s2 0 = Some (takeWhile (\<lambda>c. c \<noteq> NUL) s2)"
    using s(1) by (auto simp: sprintf_at_def cstr_at_def split: if_splits)
  from print_active_grows [OF s(2) this] obtain t' where "cstr_at str 0 = Some t'" "116 \<le> length t'"
    using assms by (auto simp: n)
  then show False using cstr_at_less [of str t'] length_cmd_status [OF str] by (simp add: MSG_SIZE_def)
qed

section \<open>A process for the witnesses\<close>

definition env_0 :: "(u64, nat, nat list) sec_env" where
  "env_0 = \<lparr>env_ops = bump_ops, env_data_size = 2048, env_internals_size = 1040,
     env_from_vhost = (\<lambda>name index iface node mp e. Some (- 1, e)), env_socket_id = 0\<rparr>"

lemma panel_sec_inv: "sec_inv panel_sec"
  using panel_table_ok by (simp add: sec_inv_def panel_sec_def RTE_MAX_ETHPORTS_def)

section \<open>Properties\<close>

text \<open>
  C21. Whatever message the control thread receives: if the handler returns, the forwarding table
  is well-formed, all arrays have their sizes, the mode is stopped, started or forwarding, and
  the reply fills the message buffer exactly. In particular no message ever enters the modes
  \<open>LOOPBACK\<close> and \<open>RXTX\<close> that run the single-pair loop.
\<close>
theorem command_keeps_inv:
  assumes "sec_inv s" and "length str = MSG_SIZE" and "handle_message env s str = Some out"
  shows "sec_inv (out_state out) \<and> (case out of Reply s' r \<Rightarrow> length r = MSG_SIZE | _ \<Rightarrow> True)"
  using handle_keeps [OF assms] by (simp add: keeps_def)

lemma panel_patch: "patch_ports 1 2 (ports_fwd_array panel_sec) \<noteq> None"
  by (simp add: patch_ports_def set_port_def aget_def aset_def panel_sec_def panel_table_def)

theorem command_keeps_inv_witness:
  "\<exists>s' r. handle_message env_0 panel_sec (cmd_line ''patch'' [show_nat 1, show_nat 2]) = Some (Reply s' r)
    \<and> sec_inv s' \<and> length r = MSG_SIZE"
proof -
  let ?m = "cmd_line ''patch'' [show_nat 1, show_nat 2]"
  obtain s' r where h: "handle_message env_0 panel_sec ?m = Some (Reply s' r)"
    using handle_patch [of 1 2 env_0 panel_sec] panel_patch by auto
  have "length ?m = MSG_SIZE" by (simp add: cmd_line_def msg_buf_def MSG_SIZE_def show_nat.simps)
  from command_keeps_inv [OF panel_sec_inv this h] h show ?thesis by simp
qed

text \<open>
  C22. The command \<open>patch i j\<close> for ports of the table sets the out port of \<open>i\<close> to \<open>j\<close>, makes both
  ports active and forwarding-ready, puts the patch in force, and leaves all other ports and the
  rest of the state alone; the out port keeps its own patch.
\<close>
theorem patch_command:
  assumes "sec_inv s" and "i < RTE_MAX_ETHPORTS" and "j < RTE_MAX_ETHPORTS"
  shows "\<exists>arr r. handle_message env s (cmd_line ''patch'' [show_nat i, show_nat j]) = Some (Reply (s\<lparr>ports_fwd_array := arr\<rparr>) r)
    \<and> port_out_port_id (arr ! i) = int j \<and> port_status (arr ! i) = int i \<and> port_status (arr ! j) = int j
    \<and> (of_nat i, of_nat j) \<in> set (active_patches arr)
    \<and> (\<forall>k<RTE_MAX_ETHPORTS. k \<noteq> i \<and> k \<noteq> j \<longrightarrow> arr ! k = ports_fwd_array s ! k)
    \<and> (i \<noteq> j \<longrightarrow> port_out_port_id (arr ! j) = port_out_port_id (ports_fwd_array s ! j))"
proof -
  let ?arr = "ports_fwd_array s"
  have len: "length ?arr = RTE_MAX_ETHPORTS" using assms(1) by (simp add: sec_inv_def table_ok_def)
  have small: "i < 2 ^ 31" "j < 2 ^ 31" using assms(2,3) by (simp_all add: RTE_MAX_ETHPORTS_def)
  define a where "a = ?arr[i := (with_funcs ((?arr ! i)\<lparr>port_status := int i\<rparr>))\<lparr>port_out_port_id := int j\<rparr>]"
  define b where "b = a[j := with_funcs ((a ! j)\<lparr>port_status := int j\<rparr>)]"
  have "patch_ports (int i) (int j) ?arr = Some b"
    using assms(2,3) len by (simp add: patch_ports_def set_port_def aget_def aset_def a_def b_def)
  then obtain r where r: "handle_message env s (cmd_line ''patch'' [show_nat i, show_nat j]) = Some (Reply (s\<lparr>ports_fwd_array := b\<rparr>) r)"
    using handle_patch [OF small, of env s] by auto
  have i: "port_status (b ! i) = int i" "port_out_port_id (b ! i) = int j" "i < length b"
    using assms(2,3) len by (simp_all add: a_def b_def nth_list_update)
  have "(i, b ! i) \<in> set (enumerate 0 b)" using i(3) by (simp add: in_set_enumerate_eq)
  then have "(i, b ! i) \<in> set (filter (\<lambda>(i, p). port_status p \<ge> 0 \<and> port_out_port_id p \<ge> 0) (enumerate 0 b))"
    using i by simp
  then have "(\<lambda>(i, p). (of_nat i, word_of_int (port_out_port_id p))) (i, b ! i) \<in> set (active_patches b)"
    unfolding active_patches_def by (simp only: set_map image_eqI)
  then have "(of_nat i, of_nat j) \<in> set (active_patches b)" using i(2) by simp
  then show ?thesis using r i assms(2,3) len
    by (intro exI [of _ b] exI [of _ r]) (auto simp: a_def b_def nth_list_update)
qed

theorem patch_command_witness:
  "\<exists>arr r. handle_message env_0 panel_sec (cmd_line ''patch'' [show_nat 1, show_nat 2]) =
      Some (Reply (panel_sec\<lparr>ports_fwd_array := arr\<rparr>) r)
    \<and> port_out_port_id (arr ! 1) = 2 \<and> (1, 2) \<in> set (active_patches arr)"
  using patch_command [OF panel_sec_inv, of 1 2 env_0] by (auto simp: RTE_MAX_ETHPORTS_def)

text \<open>
  A patch command with a port number of 32 or more is not rejected: the handler writes outside
  the forwarding table. With both numbers below 32 it never does.
\<close>
theorem patch_command_bounds:
  assumes "sec_inv s" and "i < 2 ^ 31" and "j < 2 ^ 31"
  shows "handle_message env s (cmd_line ''patch'' [show_nat i, show_nat j]) = None \<longleftrightarrow>
    RTE_MAX_ETHPORTS \<le> i \<or> RTE_MAX_ETHPORTS \<le> j"
proof -
  have "length (ports_fwd_array s) = RTE_MAX_ETHPORTS" using assms(1) by (simp add: sec_inv_def table_ok_def)
  then have "patch_ports (int i) (int j) (ports_fwd_array s) = None \<longleftrightarrow> RTE_MAX_ETHPORTS \<le> i \<or> RTE_MAX_ETHPORTS \<le> j"
    by (auto simp: patch_ports_def set_port_def aget_def aset_def)
  then show ?thesis using handle_patch [OF assms(2,3), of env s] by (auto split: option.splits)
qed

theorem patch_command_bounds_witness:
  "handle_message env_0 panel_sec (cmd_line ''patch'' [show_nat 0, show_nat 32]) = None"
  using patch_command_bounds [OF panel_sec_inv, of 0 32 env_0] by (simp add: RTE_MAX_ETHPORTS_def)

text \<open>
  C29. The status command prints one line for each active port into the message buffer of 100
  characters without a bound: with four or more active ports, of the 32 there can be, it writes
  behind the buffer.
\<close>
theorem status_command_overflow:
  assumes "4 \<le> length (filter is_active (ports_fwd_array s))"
  shows "handle_message env s (cmd_line ''status'' []) = None"
  using handle_line [of "''status''" "[]" env s] cmd_status_overflow [OF assms] by (auto simp: dispatch_def)

theorem status_command_overflow_witness:
  "handle_message env_0 (panel_sec\<lparr>ports_fwd_array := map (\<lambda>i. live_port i (- 99)) [0..31]\<rparr>) (cmd_line ''status'' []) = None"
  by (rule status_command_overflow) (simp add: live_port_def upto_rec1)

section \<open>Adding a ring\<close>

lemma lookup_same_state: "rte_ring_lookup e name = Some (a, e') \<Longrightarrow> a \<noteq> 0 \<Longrightarrow> e' = e"
  by (auto simp: rte_ring_lookup_def split: bind_splits option.splits)

lemma minus_1_u16: "unat (- 1 :: u16) = 65535"
  by (simp add: unsigned_minus_1_eq_mask mask_eq_exp_minus_1)

lemma atoi_u16: "n < 2 ^ 31 \<Longrightarrow> (word_of_int (atoi (show_nat n)) :: u16) = of_nat n"
  by (simp add: atoi_show_nat)

lemma handle_add_ring:
  assumes "n < 2 ^ 31" and "rte_ring_lookup (sec_eal s) (ring_of_id (of_nat n)) = Some (a, e)" and "a \<noteq> 0"
  shows "\<exists>buf. handle_message env s (cmd_line ''add'' [''ring'', show_nat n]) =
    (case rte_eth_from_ring_s0 (env_ops env) (env_data_size env) (env_internals_size env) (sec_eal s) a of
       None \<Rightarrow> None
     | Some (ret, e) \<Rightarrow>
         let port = int (unat (word_of_int ret :: u16)) in
         case set_port port (\<lambda>p. p\<lparr>port_status := port, port_kind := RING\<rparr>) (ports_fwd_array s) of
           None \<Rightarrow> None | Some arr \<Rightarrow> Some (Reply (s\<lparr>ports_fwd_array := arr, sec_eal := e\<rparr>) buf))"
proof -
  obtain buf tk where h: "handle_message env s (cmd_line ''add'' [''ring'', show_nat n]) = dispatch env s buf tk"
    and t: "tok_str buf tk 0 = Some ''add''" "tok_str buf tk 1 = Some ''ring''" "tok_str buf tk 2 = Some (show_nat n)"
    using handle_line [of "''add''" "[''ring'', show_nat n]" env s] assms(1) by (auto simp: le_Suc_eq numeral_2_eq_2)
  have "dispatch env s buf tk = cmd_add_ring env s buf tk" using t by (simp add: dispatch_def cmd_add_def)
  moreover have "e = sec_eal s" using lookup_same_state [OF assms(2,3)] .
  ultimately show ?thesis
    using t assms h by (intro exI [of _ buf]) (simp add: cmd_add_ring_def tok_atoi_def atoi_u16 Let_def split: option.split)
qed


text \<open>The first ring of the panel is a port already, under the name of the ring.\<close>
definition dup_panel :: "(u64, nat, nat list) spp_eal" where
  "dup_panel = panel\<lparr>rte_eth_devices := (rte_eth_devices panel)[0 :=
     (ring_dev 0x1000)\<lparr>dev_data := (dev_data (ring_dev 0x1000))\<lparr>dd_name := ''MProc_Ring_0''\<rparr>\<rparr>]\<rparr>"

lemma dup_panel_facts: "eth_inv dup_panel" "ring_at dup_panel 0x1000 = Some ring_4"
  "rte_eth_dev_allocated dup_panel ''MProc_Ring_0'' = Some 0"
  "rte_ring_lookup dup_panel ''MProc_Ring_0'' = Some (0x1000, dup_panel)"
proof -
  note facts = dup_panel_def panel_def ring_dev_def nic_dev_def null_dev_def
  show "eth_inv dup_panel"
    by (simp add: eth_inv_def facts RTE_MAX_ETHPORTS_def RTE_ETH_NAME_MAX_LEN_def list_all_iff)
  show "ring_at dup_panel 0x1000 = Some ring_4" by (simp add: facts)
  show "rte_eth_dev_allocated dup_panel ''MProc_Ring_0'' = Some 0"
    by (simp add: rte_eth_dev_allocated_def facts)
  show "rte_ring_lookup dup_panel ''MProc_Ring_0'' = Some (0x1000, dup_panel)"
    by (simp add: rte_ring_lookup_def facts ring_4_def)
qed

lemma panel_ring_facts: "eth_inv panel" "ring_at panel 0x1000 = Some ring_4"
  "\<not> no_port bump_ops 2048 1040 panel ''MProc_Ring_0''"
  "rte_ring_lookup panel ''MProc_Ring_0'' = Some (0x1000, panel)"
proof -
  note facts = panel_def ring_dev_def nic_dev_def null_dev_def
  show "eth_inv panel"
    by (simp add: eth_inv_def facts RTE_MAX_ETHPORTS_def RTE_ETH_NAME_MAX_LEN_def list_all_iff)
  show "ring_at panel 0x1000 = Some ring_4" by (simp add: facts)
  have "malloc_heaps panel = 0x100000" by (simp add: facts)
  moreover have "fst (ring_port_alloc bump_ops 2048 1040 1 1 0x100000) \<noteq> None" by code_simp
  moreover have "rte_eth_dev_allocated panel ''MProc_Ring_0'' = None"
    by (simp add: rte_eth_dev_allocated_def facts scan_None)
  moreover have "\<not> list_all dev_attached (rte_eth_devices panel)" by (simp add: facts list_all_iff)
  ultimately show "\<not> no_port bump_ops 2048 1040 panel ''MProc_Ring_0''" by (simp add: no_port_def)
  show "rte_ring_lookup panel ''MProc_Ring_0'' = Some (0x1000, panel)"
    by (simp add: rte_ring_lookup_def facts ring_4_def)
qed


end
