(* ===== verification/Spp_Panel.thy ===== *)
theory Spp_Panel
  imports Spp_Command
begin

text \<open>
  The secondary process as a whole: messages of the controller and turns of the forwarding core in
  any order. A step is one message carried out, with the obligation of the operator that patched
  ports are in service afterwards, or one turn of the forwarding loop. In every reachable state
  the table is well-formed, all packet buffers are where they were or in a ring, a pool or a
  device, and the next turn of the forwarding core returns.
\<close>

section \<open>Commands and the state of the libraries\<close>

text \<open>What the panel relies on of the vhost driver: making a port leaves all buffers where they are.\<close>
definition vhost_ok :: "('h, 'm, 'y) sec_env \<Rightarrow> ('y \<Rightarrow> 'm multiset) \<Rightarrow> bool" where
  "vhost_ok env dins \<longleftrightarrow> (\<forall>name index iface node mp e ret e' h.
     env_from_vhost env name index iface node mp e = Some (ret, e') \<and> world_inv dins e h \<longrightarrow>
     world_inv dins e' h \<and> inside dins e' = inside dins e)"

text \<open>The new state of the libraries has the same buffers in the same places.\<close>
definition eal_kept :: "('y \<Rightarrow> 'm multiset) \<Rightarrow> ('h, 'm, 'y) spp_eal \<Rightarrow> ('h, 'm, 'y) spp_eal \<Rightarrow> bool" where
  "eal_kept dins e e' \<longleftrightarrow> inside dins e' = inside dins e \<and> (\<forall>h. world_inv dins e h \<longrightarrow> world_inv dins e' h)"

lemma eal_kept_refl [simp]: "eal_kept dins e e"
  by (simp add: eal_kept_def)

lemma eal_kept_trans: "eal_kept dins e e' \<Longrightarrow> eal_kept dins e' e'' \<Longrightarrow> eal_kept dins e e''"
  by (simp add: eal_kept_def)

text \<open>Not even the rings and the pools have changed.\<close>
definition eal_same :: "('h, 'm, 'y) spp_eal \<Rightarrow> ('h, 'm, 'y) spp_eal \<Rightarrow> bool" where
  "eal_same e e' \<longleftrightarrow> ring_at e' = ring_at e \<and> other_state e' = other_state e \<and> (eth_inv e \<longrightarrow> eth_inv e')"

lemma eal_same_refl [simp]: "eal_same e e"
  by (simp add: eal_same_def)

lemma eal_same_trans: "eal_same e e' \<Longrightarrow> eal_same e' e'' \<Longrightarrow> eal_same e e''"
  by (simp add: eal_same_def)

lemma eal_same_kept: "eal_same e e' \<Longrightarrow> eal_kept dins e e'"
  by (simp add: eal_same_def eal_kept_def inside_def world_inv_def)

lemma eal_same_errno [simp]: "eal_same e (e\<lparr>rte_errno := v\<rparr>)"
  by (simp add: eal_same_def)

lemma eal_same_lookup: "rte_ring_lookup e name = Some (a, e') \<Longrightarrow> eal_same e e'"
  by (auto simp: rte_ring_lookup_def split: bind_splits option.splits)

lemma eal_same_mempool_lookup: "rte_mempool_lookup e name = Some (a, e') \<Longrightarrow> eal_same e e'"
  by (auto simp: rte_mempool_lookup_def split: bind_splits option.splits)

lemma from_rings_frame:
  assumes inv: "eth_inv e" and f: "rte_eth_from_rings ops dsz isz e name (Some [r]) 1 (Some [r]) 1 node = Some (ret, e')"
  shows "eth_inv e' \<and> ring_at e' = ring_at e \<and> other_state e' = other_state e"
proof -
  obtain ok h where a: "ring_port_alloc ops dsz isz 1 1 (malloc_heaps e) = (ok, h)" by fastforce
  let ?e = "e\<lparr>malloc_heaps := h\<rparr>"
  have inv1: "eth_inv ?e" using inv by simp
  obtain q e1 where alloc: "rte_eth_dev_allocate ?e name RTE_ETH_DEV_VIRTUAL = (q, e1)" by fastforce
  have fr: "ring_at e1 = ring_at e \<and> other_state e1 = other_state e"
    using allocate_cases [OF inv1 alloc] by auto
  note defs = rte_eth_from_rings_def RTE_PMD_RING_MAX_RX_RINGS_def
  consider (nomem) "ok = None" | (full) as where "ok = Some as" "q = None" | (port) as p where "ok = Some as" "q = Some p" by fastforce
  then show ?thesis
  proof cases
    case nomem
    then show ?thesis using f a inv by (auto simp: defs)
  next
    case (full as)
    then have "e1 = ?e" using allocate_cases [OF inv1 alloc] by auto
    then show ?thesis using f a alloc inv full by (auto simp: defs)
  next
    case (port as p)
    note q = port(2)
    note ai = allocate_inv(1) [OF inv1 alloc [unfolded q]]
    have p: "p < length (rte_eth_devices e1)"
      using allocate_cases [OF inv1 alloc] ai unfolding q by (auto simp: eth_inv_def)
    obtain data ints where e': "e' = upd_dev e1 p (\<lambda>d. d\<lparr>dev_data := data, dev_pmd := Some (Pmd_Ring ints)\<rparr>)"
      and data: "dd_name data = dd_name (dev_data (rte_eth_devices e1 ! p))"
      using f a alloc port by (fastforce simp: defs Let_def split: bind_splits)
    have "length (dd_name data) < RTE_ETH_NAME_MAX_LEN" using ai p data by (simp add: eth_inv_def list_all_length)
    then have "eth_inv e'" using eth_inv_dev [OF ai p] by (simp add: e' upd_dev_def)
    then show ?thesis using fr by (simp add: e' upd_dev_def)
  qed
qed

lemma eal_same_from_rings:
  "eth_inv e \<Longrightarrow> rte_eth_from_rings ops dsz isz e name (Some [r]) 1 (Some [r]) 1 node = Some (ret, e') \<Longrightarrow> eal_same e e'"
  using from_rings_frame [of e ops dsz isz name r node ret e'] by (simp add: eal_same_def)

lemma eal_same_from_ring_s0: "rte_eth_from_ring_s0 ops dsz isz e r = Some (ret, e') \<Longrightarrow> eth_inv e \<Longrightarrow> eal_same e e'"
  unfolding rte_eth_from_ring_s0_def bind_eq_Some_conv using eal_same_from_rings by blast

lemma eal_same_from_ring: "rte_eth_from_ring ops dsz isz e r = Some (ret, e') \<Longrightarrow> eth_inv e \<Longrightarrow> eal_same e e'"
  unfolding rte_eth_from_ring_def bind_eq_Some_conv using eal_same_from_rings by blast

lemma eth_inv_lookup: "rte_ring_lookup e name = Some (a, e') \<Longrightarrow> eth_inv e' = eth_inv e"
  by (auto simp: rte_ring_lookup_def split: bind_splits option.splits)

section \<open>A command\<close>

lemma add_direction_same:
  assumes "add_direction env e pos rings ports buf tk = Some (ok, rings', ports', e')" and "eth_inv e"
  shows "eal_same e e'"
proof -
  consider "e' = e" | a name where "rte_ring_lookup e name = Some (a, e')"
    | a name e1 ret where "rte_ring_lookup e name = Some (a, e1)"
        "rte_eth_from_ring (env_ops env) (env_data_size env) (env_internals_size env) e1 a = Some (ret, e')"
    using assms(1) by (auto simp: add_direction_def split: bind_splits if_splits)
  then show ?thesis
  proof cases
    case (3 a name e1 ret)
    then show ?thesis using eal_same_lookup eal_same_from_ring eth_inv_lookup assms(2) eal_same_trans by metis
  qed (use eal_same_lookup in auto)
qed

lemma from_vhost_kept:
  assumes "vhost_ok env dins" and "world_inv dins e h" and "env_from_vhost env name index iface node mp e = Some (ret, e')"
  shows "eal_kept dins e e'"
  using assms unfolding vhost_ok_def eal_kept_def by blast

lemma cmd_add_vhost_kept:
  assumes "cmd_add_vhost env s buf tk = Some (Reply s' r)" and "world_inv dins (sec_eal s) h" and "vhost_ok env dins"
  shows "eal_kept dins (sec_eal s) (sec_eal s')"
proof -
  obtain mp e1 name index iface node ret where l: "rte_mempool_lookup (sec_eal s) PKTMBUF_POOL_NAME = Some (mp, e1)"
    and v: "env_from_vhost env name index iface node mp e1 = Some (ret, sec_eal s')"
    using assms(1) by (auto simp: cmd_add_vhost_def Let_def split: bind_splits if_splits)
  have k: "eal_kept dins (sec_eal s) e1" by (rule eal_same_kept [OF eal_same_mempool_lookup [OF l]])
  then have "world_inv dins e1 h" using assms(2) by (simp add: eal_kept_def)
  then show ?thesis using eal_kept_trans [OF k from_vhost_kept [OF assms(3) _ v]] by blast
qed

lemma cmd_add_ring_same:
  assumes "cmd_add_ring env s buf tk = Some (Reply s' r)" and "eth_inv (sec_eal s)"
  shows "eal_same (sec_eal s) (sec_eal s')"
proof -
  obtain name a e1 ret where l: "rte_ring_lookup (sec_eal s) name = Some (a, e1)"
    and f: "rte_eth_from_ring_s0 (env_ops env) (env_data_size env) (env_internals_size env) e1 a = Some (ret, sec_eal s')"
    using assms(1) by (auto simp: cmd_add_ring_def Let_def split: bind_splits if_splits)
  then show ?thesis
    using eal_same_lookup [OF l] eal_same_from_ring_s0 [OF f] eth_inv_lookup [OF l] assms(2) eal_same_trans by metis
qed

lemma cmd_add_rx_same:
  assumes "cmd_add_rx env s buf tk = Some (Reply s' r)" and "eth_inv (sec_eal s)"
  shows "eal_same (sec_eal s) (sec_eal s')"
proof -
  obtain pos rings ports ok rings' ports' where "add_direction env (sec_eal s) pos rings ports buf tk = Some (ok, rings', ports', sec_eal s')"
    using assms(1) by (auto simp: cmd_add_rx_def Let_def split: bind_splits if_splits)
  then show ?thesis using assms(2) by (rule add_direction_same)
qed

lemma cmd_add_tx_same:
  assumes "cmd_add_tx env s buf tk = Some (Reply s' r)" and "eth_inv (sec_eal s)"
  shows "eal_same (sec_eal s) (sec_eal s')"
proof -
  obtain pos rings ports ok rings' ports' where "add_direction env (sec_eal s) pos rings ports buf tk = Some (ok, rings', ports', sec_eal s')"
    using assms(1) by (auto simp: cmd_add_tx_def Let_def split: bind_splits if_splits)
  then show ?thesis using assms(2) by (rule add_direction_same)
qed

lemma cmds_same_eal:
  "cmd_patch s buf tk = Some (Reply s' r) \<Longrightarrow> sec_eal s' = sec_eal s"
  "cmd_del s buf tk = Some (Reply s' r) \<Longrightarrow> sec_eal s' = sec_eal s"
  "cmd_save s buf tk = Some (Reply s' r) \<Longrightarrow> sec_eal s' = sec_eal s"
  "cmd_exec s buf tk = Some (Reply s' r) \<Longrightarrow> sec_eal s' = sec_eal s"
  by (auto simp: cmd_patch_def cmd_del_def cmd_save_def cmd_exec_def Let_def split: bind_splits if_splits)

lemma cmd_add_kept:
  assumes "cmd_add env s buf tk = Some (Reply s' r)" and "world_inv dins (sec_eal s) h" and "vhost_ok env dins"
  shows "eal_kept dins (sec_eal s) (sec_eal s')"
proof -
  have e: "eth_inv (sec_eal s)" using assms(2) by (simp add: world_inv_def)
  consider "cmd_add_vhost env s buf tk = Some (Reply s' r)" | "cmd_add_ring env s buf tk = Some (Reply s' r)"
    | "cmd_add_rx env s buf tk = Some (Reply s' r)" | "cmd_add_tx env s buf tk = Some (Reply s' r)" | "s' = s"
    using assms(1) by (auto simp: cmd_add_def split: bind_splits if_splits)
  then show ?thesis
    by cases (use cmd_add_vhost_kept [OF _ assms(2,3)] eal_same_kept [OF cmd_add_ring_same [OF _ e]] eal_same_kept [OF cmd_add_rx_same [OF _ e]]
          eal_same_kept [OF cmd_add_tx_same [OF _ e]] in auto)
qed

lemma handle_kept:
  assumes "handle_message env s str = Some (Reply s' r)" and "world_inv dins (sec_eal s) h" and "vhost_ok env dins"
  shows "eal_kept dins (sec_eal s) (sec_eal s')"
proof -
  consider "sec_eal s' = sec_eal s" | buf tk where "cmd_add env s buf tk = Some (Reply s' r)"
    using assms(1) by (auto simp: handle_message_def dispatch_def cmds_same_eal split: bind_splits if_splits)
  then show ?thesis by cases (use cmd_add_kept [OF _ assms(2,3)] in auto)
qed

section \<open>The whole process\<close>

inductive panel_step ::
  "('h, 'm, 'y) sec_env \<Rightarrow> ('m, 'y) drivers \<Rightarrow> ('y \<Rightarrow> 'm multiset) \<Rightarrow> nat \<Rightarrow> 'm \<Rightarrow> ('h, 'm, 'y) sec \<Rightarrow> ('h, 'm, 'y) sec \<Rightarrow> bool"
  for env oth dins lcore z where
  message: "\<lbrakk> length str = MSG_SIZE; handle_message env s str = Some (Reply s' r);
              patches_up oth dins (sec_eal s') (ports_fwd_array s') \<rbrakk> \<Longrightarrow> panel_step env oth dins lcore z s s'"
| turn: "nfv_loop oth lcore z s = Some s' \<Longrightarrow> panel_step env oth dins lcore z s s'"

inductive_cases panel_stepE: "panel_step env oth dins lcore z s s'"

definition panel_ok :: "('m, 'y) drivers \<Rightarrow> ('y \<Rightarrow> 'm multiset) \<Rightarrow> 'm multiset \<Rightarrow> ('h, 'm, 'y) sec \<Rightarrow> bool" where
  "panel_ok oth dins T s \<longleftrightarrow> sec_inv s \<and> world_inv dins (sec_eal s) {#} \<and> inside dins (sec_eal s) = T
     \<and> patches_up oth dins (sec_eal s) (ports_fwd_array s)"

lemma turn_ok:
  assumes "panel_ok oth dins T s"
  shows "\<exists>s'. nfv_loop oth lcore z s = Some s' \<and> panel_ok oth dins T s'"
proof (cases "cmd s = FORWARD")
  case True
  obtain e' where "forward oth lcore z (ports_fwd_array s) (sec_eal s) = Some e'" "world_inv dins e' {#}"
    "inside dins e' = T" "port_up oth dins e' = port_up oth dins (sec_eal s)"
    using forward_ok [of dins "sec_eal s" "{#}" "ports_fwd_array s" oth lcore z] assms
    by (auto simp: panel_ok_def sec_inv_def)
  then show ?thesis using True assms by (simp add: nfv_loop_def panel_ok_def)
next
  case False
  then have "nfv_loop oth lcore z s = Some s" using assms by (auto simp: nfv_loop_def panel_ok_def sec_inv_def)
  then show ?thesis using assms by blast
qed

lemma panel_step_inv:
  assumes "panel_step env oth dins lcore z s s'" and "panel_ok oth dins T s" and "vhost_ok env dins"
  shows "panel_ok oth dins T s'"
  using assms(1)
proof cases
  case (message str r)
  have "keeps MSG_SIZE (Reply s' r)" using handle_keeps [OF _ message(1,2)] assms(2) by (simp add: panel_ok_def)
  moreover have "eal_kept dins (sec_eal s) (sec_eal s')"
    using handle_kept [OF message(2) _ assms(3)] assms(2) unfolding panel_ok_def by blast
  ultimately show ?thesis using assms(2) message(3) by (simp add: panel_ok_def keeps_def eal_kept_def)
next
  case turn
  then show ?thesis using turn_ok [OF assms(2), of lcore z] by auto
qed

lemma reachable_inv:
  assumes "(panel_step env oth dins lcore z)\<^sup>*\<^sup>* s s'" and "panel_ok oth dins T s" and "vhost_ok env dins"
  shows "panel_ok oth dins T s'"
  using assms by (induction rule: rtranclp_induct) (auto intro: panel_step_inv)

section \<open>Properties\<close>

text \<open>
  C1. Messages and forwarding turns in any order: in every state that is reachable while the
  operator patches only ports in service, the forwarding table is well-formed, exactly the buffers
  of the start are in rings, pools and devices, and the next turn of the forwarding core returns.
  The other drivers are any that keep the ownership contract.
\<close>
theorem panel_safe:
  assumes "(panel_step env oth dins lcore z)\<^sup>*\<^sup>* s s'" and "panel_ok oth dins T s" and "vhost_ok env dins"
  shows "panel_ok oth dins T s' \<and> (\<exists>s''. nfv_loop oth lcore z s' = Some s'')"
  using reachable_inv [OF assms] turn_ok [of oth dins T s' lcore z] by blast

theorem panel_safe_witness:
  "\<exists>s'. panel_step env_0 loop_nic mset 1 0 panel_sec s' \<and> panel_ok loop_nic mset ({#11, 12, 9#} + pool_mset pool_8) s'
    \<and> (\<exists>s''. nfv_loop loop_nic 1 0 s' = Some s'')"
proof -
  let ?T = "{#11, 12, 9#} + pool_mset pool_8"
  have inv: "panel_ok loop_nic mset ?T panel_sec"
    using panel_sec_inv panel_inv panel_up panel_inside
    by (simp add: panel_ok_def) (simp add: panel_sec_def panel_table_active)
  then obtain s' where "nfv_loop loop_nic 1 0 panel_sec = Some s'"
    using turn_ok [of loop_nic mset ?T panel_sec 1 0] by auto
  then have step: "panel_step env_0 loop_nic mset 1 0 panel_sec s'" by (rule panel_step.turn)
  have "vhost_ok env_0 mset" by (simp add: vhost_ok_def env_0_def)
  then show ?thesis using panel_safe [OF r_into_rtranclp [of "panel_step env_0 loop_nic mset 1 0", OF step] inv] step by blast
qed

end
