(* ===== verification/Spp_Sec_Start.thy ===== *)
theory Spp_Sec_Start
  imports Spp_Args Spp_Panel
begin

text \<open>
  How a secondary process starts (\<open>main\<close> and \<open>parse_app_args\<close> of \<open>sec_zerocpy.c\<close>; \<open>sec_memcpy.c\<close> and
  \<open>nfv_py.c\<close> have the same functions): its command line, the first state of the table, and the loop
  over the messages of the controller. The start establishes what the safety of commands and
  forwarding rests on, so that the invariant holds from the first turn on.
\<close>

section \<open>The command line\<close>

definition MAX_CLIENT :: u8 where "MAX_CLIENT = 99"

text \<open>The variables that the options set; before parsing, the identifier is \<^const>\<open>MAX_CLIENT\<close> and the rest zero.\<close>
record sec_args =
  sa_client_id :: u8
  sa_server_ip :: "string option"
  sa_tcpport :: int

definition sec_args_0 :: sec_args where
  "sec_args_0 = \<lparr>sa_client_id = MAX_CLIENT, sa_server_ip = None, sa_tcpport = 0\<rparr>"

definition parse_client_num :: "string option \<Rightarrow> sec_args \<Rightarrow> int \<times> sec_args" where
  "parse_client_num client a =
     (case client of
        None \<Rightarrow> (- 1, a)
      | Some s \<Rightarrow>
          if s = [] then (- 1, a)
          else let (temp, end) = strtoul10 s in
            if end \<noteq> [] then (- 1, a) else (0, a\<lparr>sa_client_id := ucast temp\<rparr>))"

definition sec_parse_server :: "string option \<Rightarrow> sec_args \<Rightarrow> int \<times> sec_args" where
  "sec_parse_server srv a =
     (case srv of
        None \<Rightarrow> (- 1, a)
      | Some s \<Rightarrow>
          if s = [] then (- 1, a)
          else (case strtok_all (CHR '':'') s of
                  [] \<Rightarrow> (- 1, a\<lparr>sa_server_ip := None\<rparr>)
                | [ip] \<Rightarrow> (- 1, a\<lparr>sa_server_ip := Some ip\<rparr>)
                | ip # token # _ \<Rightarrow> (0, a\<lparr>sa_server_ip := Some ip, sa_tcpport := atoi token\<rparr>)))"

definition sec_parse_option :: "opt_char \<Rightarrow> sec_args \<Rightarrow> int \<times> sec_args" where
  "sec_parse_option opt a =
     (case opt of
        Opt c v \<Rightarrow>
          if c = CHR ''n'' then parse_client_num (Some v) a
          else if c = CHR ''s'' then sec_parse_server (Some v) a
          else (- 1, a)
      | Opt_unknown \<Rightarrow> (- 1, a))"

text \<open>On the arguments after the program name.\<close>
function sec_parse_app_args :: "string list \<Rightarrow> sec_args \<Rightarrow> int \<times> sec_args" where
  "sec_parse_app_args args a =
     (case getopt_next ''ns'' args of
        None \<Rightarrow> (0, a)
      | Some (opt, rest) \<Rightarrow>
          let (r, a) = sec_parse_option opt a
          in if r \<noteq> 0 then (- 1, a) else sec_parse_app_args rest a)"
  by pat_completeness auto
termination
  by (relation "measure (\<lambda>(args, a). length args)") (auto dest: getopt_next_shorter)

declare sec_parse_app_args.simps [simp del]

section \<open>Start and message loop\<close>

text \<open>
  The process up to its first turn; \<open>eal_init\<close> is the number of arguments the EAL took, or
  negative. Exit code 1 is that of \<open>rte_exit\<close>.
\<close>
definition sec_main_start ::
  "int \<Rightarrow> string list \<Rightarrow> sec_args \<Rightarrow> ('h, 'm, 'y) sec \<Rightarrow> (sec_args \<times> ('h, 'm, 'y) sec turn) option" where
  "sec_main_start eal_init argv a s =
     (if eal_init < 0 then Some (a, Finished (- 1) s)
      else
        let (r, a) = sec_parse_app_args (drop (Suc (nat eal_init)) argv) a;
            s = s\<lparr>client_id := sa_client_id a\<rparr>
        in if r < 0 then Some (a, Finished 1 s)
           else do { s \<leftarrow> main_init s; Some (a, Next s SOCK_RESET False) })"

text \<open>A new socket takes its address from the command line; \<open>inet_addr\<close> follows the pointer.\<close>
definition sec_turn ::
  "('h, 'm, 'y) sec_env \<Rightarrow> sec_args \<Rightarrow> ('h, 'm, 'y) sec \<Rightarrow> int \<Rightarrow> bool \<Rightarrow> net_io \<Rightarrow> ('h, 'm, 'y) sec turn option" where
  "sec_turn env a s sock connected io =
     (if \<not> connected \<and> sock < 0 \<and> io_socket io \<ge> 0 \<and> sa_server_ip a = None then None
      else main_turn env s sock connected io)"

text \<open>One turn for each result of the socket calls.\<close>
fun sec_loop :: "('h, 'm, 'y) sec_env \<Rightarrow> sec_args \<Rightarrow> net_io list \<Rightarrow> ('h, 'm, 'y) sec turn \<Rightarrow> ('h, 'm, 'y) sec turn option" where
  "sec_loop env a [] t = Some t"
| "sec_loop env a (io # ios) (Finished c s) = Some (Finished c s)"
| "sec_loop env a (io # ios) (Next s sock connected) =
     do { t \<leftarrow> sec_turn env a s sock connected io; sec_loop env a ios t }"

section \<open>The start\<close>

lemma sec_args_step:
  "c \<in> set ''ns'' \<Longrightarrow> sec_parse_app_args ([CHR ''-'', c] # v # rest) a =
     (let (r, a) = sec_parse_option (Opt c v) a in if r \<noteq> 0 then (- 1, a) else sec_parse_app_args rest a)"
  by (subst sec_parse_app_args.simps) auto

lemma parse_client_num_nat: "k < 2 ^ 64 \<Longrightarrow> parse_client_num (Some (show_nat k)) a = (0, a\<lparr>sa_client_id := of_nat k\<rparr>)"
proof -
  assume k: "k < 2 ^ 64"
  have "(ucast (of_nat k :: u64) :: u8) = of_nat k" by (simp add: unsigned_of_nat word_of_nat_eq_iff)
  then show ?thesis using strtoul10_show_nat [OF k, of "[]"] by (simp add: parse_client_num_def)
qed

lemma sec_parse_server_ok:
  assumes "CHR '':'' \<notin> set ip" and "ip \<noteq> []" and "n < 2 ^ 31"
  shows "sec_parse_server (Some (ip @ CHR '':'' # show_nat n)) a = (0, a\<lparr>sa_server_ip := Some ip, sa_tcpport := int n\<rparr>)"
  using strtok_all_two [OF assms(1) colon_not_digit assms(2) show_nat_nonempty] assms(3)
  by (simp add: sec_parse_server_def atoi_show_nat)

lemma sec_args_line:
  assumes "k < 2 ^ 64" and "CHR '':'' \<notin> set ip" and "ip \<noteq> []" and "n < 2 ^ 31"
  shows "sec_parse_app_args [''-n'', show_nat k, ''-s'', ip @ CHR '':'' # show_nat n] a =
      (0, a\<lparr>sa_client_id := of_nat k, sa_server_ip := Some ip, sa_tcpport := int n\<rparr>)"
    and "sec_parse_app_args [''-n'', show_nat k] a = (0, a\<lparr>sa_client_id := of_nat k\<rparr>)"
proof -
  have "sec_parse_app_args [] a' = (0, a')" for a' by (simp add: sec_parse_app_args.simps)
  then show "sec_parse_app_args [''-n'', show_nat k, ''-s'', ip @ CHR '':'' # show_nat n] a =
      (0, a\<lparr>sa_client_id := of_nat k, sa_server_ip := Some ip, sa_tcpport := int n\<rparr>)"
    and "sec_parse_app_args [''-n'', show_nat k] a = (0, a\<lparr>sa_client_id := of_nat k\<rparr>)"
    using parse_client_num_nat [OF assms(1)] sec_parse_server_ok [OF assms(2-4)]
    by (simp_all add: sec_args_step sec_parse_option_def)
qed

text \<open>The port is a network card that was found at the start.\<close>
definition phys_port :: "('h, 'm, 'y) spp_eal \<Rightarrow> nat \<Rightarrow> bool" where
  "phys_port e i \<longleftrightarrow> i < unat (rte_eth_dev_count e) \<and> rte_eth_dev_is_valid_port e (of_nat i)
     \<and> rte_eth_dev_get_device_type e (of_nat i) = RTE_ETH_DEV_PCI"

lemma mark_phys_result:
  assumes "\<forall>i\<in>set is. i < length arr"
  shows "\<exists>arr'. mark_phys e is arr = Some arr' \<and> length arr' = length arr \<and> (\<forall>i<length arr. arr' ! i =
    (if i \<in> set is \<and> rte_eth_dev_is_valid_port e (of_nat i) \<and> rte_eth_dev_get_device_type e (of_nat i) = RTE_ETH_DEV_PCI
     then (arr ! i)\<lparr>port_status := int i, port_kind := PHY\<rparr> else arr ! i))"
  using assms
proof (induction "is" arbitrary: arr)
  case (Cons j "is")
  show ?case
  proof (cases "rte_eth_dev_is_valid_port e (of_nat j) \<and> rte_eth_dev_get_device_type e (of_nat j) = RTE_ETH_DEV_PCI")
    case True
    let ?arr = "arr[j := (arr ! j)\<lparr>port_status := int j, port_kind := PHY\<rparr>]"
    have "set_port (int j) (\<lambda>p. p\<lparr>port_status := int j, port_kind := PHY\<rparr>) arr = Some ?arr"
      using Cons.prems by (simp add: set_port_Some)
    moreover obtain arr' where "mark_phys e is ?arr = Some arr'" "length arr' = length arr" "\<forall>i<length arr. arr' ! i =
      (if i \<in> set is \<and> rte_eth_dev_is_valid_port e (of_nat i) \<and> rte_eth_dev_get_device_type e (of_nat i) = RTE_ETH_DEV_PCI
       then (?arr ! i)\<lparr>port_status := int i, port_kind := PHY\<rparr> else ?arr ! i)"
      using Cons.IH [of ?arr] Cons.prems by auto
    ultimately show ?thesis using True Cons.prems by (auto simp: nth_list_update)
  next
    case False
    then have "mark_phys e (j # is) arr = mark_phys e is arr" by auto
    moreover obtain arr' where "mark_phys e is arr = Some arr'" "length arr' = length arr" "\<forall>i<length arr. arr' ! i =
      (if i \<in> set is \<and> rte_eth_dev_is_valid_port e (of_nat i) \<and> rte_eth_dev_get_device_type e (of_nat i) = RTE_ETH_DEV_PCI
       then (arr ! i)\<lparr>port_status := int i, port_kind := PHY\<rparr> else arr ! i)"
      using Cons.IH [of arr] Cons.prems by auto
    ultimately show ?thesis using False by auto
  qed
qed simp

lemma main_init_result:
  assumes "length (ports_fwd_array s) = RTE_MAX_ETHPORTS"
  shows "\<exists>arr. main_init s = Some (s\<lparr>ports_fwd_array := arr\<rparr>) \<and> length arr = RTE_MAX_ETHPORTS
    \<and> (\<forall>i<RTE_MAX_ETHPORTS. arr ! i = (ports_fwd_array s ! i)\<lparr>port_status := if phys_port (sec_eal s) i then int i else - 99,
        port_kind := if phys_port (sec_eal s) i then PHY else UNDEF, port_out_port_id := - 99\<rparr>)"
proof -
  let ?nb = "unat (rte_eth_dev_count (sec_eal s))"
  let ?n = "if ?nb > RTE_MAX_ETHPORTS then RTE_MAX_ETHPORTS else ?nb"
  have "\<forall>i\<in>set [0..<?n]. i < length (forward_array_init (ports_fwd_array s))" using assms by (auto simp: forward_array_init_def)
  from mark_phys_result [OF this, of "sec_eal s"] obtain arr
    where a: "mark_phys (sec_eal s) [0..<?n] (forward_array_init (ports_fwd_array s)) = Some arr"
      "length arr = RTE_MAX_ETHPORTS"
      "\<forall>i<RTE_MAX_ETHPORTS. arr ! i = (if i \<in> set [0..<?n] \<and> rte_eth_dev_is_valid_port (sec_eal s) (of_nat i)
          \<and> rte_eth_dev_get_device_type (sec_eal s) (of_nat i) = RTE_ETH_DEV_PCI
        then (forward_array_init (ports_fwd_array s) ! i)\<lparr>port_status := int i, port_kind := PHY\<rparr>
        else forward_array_init (ports_fwd_array s) ! i)"
    using assms by (auto simp: forward_array_init_def)
  then show ?thesis using assms by (auto simp: main_init_def phys_port_def forward_array_init_def Let_def)
qed

text \<open>What the loader gives the variables: arrays of their sizes, no command.\<close>
definition sec_globals :: "('h, 'm, 'y) sec \<Rightarrow> bool" where
  "sec_globals s \<longleftrightarrow> cmd s = STOP \<and> length (ports_fwd_array s) = RTE_MAX_ETHPORTS
     \<and> length (rx_ports s) = RTE_MAX_ETHPORTS \<and> length (rx_funcs s) = RTE_MAX_ETHPORTS
     \<and> length (tx_ports s) = RTE_MAX_ETHPORTS \<and> length (tx_funcs s) = RTE_MAX_ETHPORTS
     \<and> length (rx_rings s) = RTE_MAX_ETHPORTS \<and> length (tx_rings s) = RTE_MAX_ETHPORTS"

lemma main_init_ok:
  assumes "sec_globals s" and "world_inv dins (sec_eal s) {#}"
  shows "\<exists>arr. main_init s = Some (s\<lparr>ports_fwd_array := arr\<rparr>) \<and> panel_ok oth dins (inside dins (sec_eal s)) (s\<lparr>ports_fwd_array := arr\<rparr>)
    \<and> active_patches arr = [] \<and> (\<forall>i<RTE_MAX_ETHPORTS. port_status (arr ! i) = (if phys_port (sec_eal s) i then int i else - 99))"
proof -
  obtain arr where a: "main_init s = Some (s\<lparr>ports_fwd_array := arr\<rparr>)" "length arr = RTE_MAX_ETHPORTS"
    "\<forall>i<RTE_MAX_ETHPORTS. arr ! i = (ports_fwd_array s ! i)\<lparr>port_status := if phys_port (sec_eal s) i then int i else - 99,
        port_kind := if phys_port (sec_eal s) i then PHY else UNDEF, port_out_port_id := - 99\<rparr>"
    using main_init_result [of s] assms(1) by (auto simp: sec_globals_def)
  have no: "active_patches arr = []" using a(2,3) by (auto simp: active_patches_def filter_empty_conv in_set_enumerate_eq)
  have "table_ok arr" using a(2,3) by (auto simp: table_ok_def patch_ok_def list_all_length)
  then have "sec_inv (s\<lparr>ports_fwd_array := arr\<rparr>)" using assms(1) by (simp add: sec_inv_def sec_globals_def)
  then show ?thesis using a assms(2) no by (intro exI [of _ arr]) (simp add: panel_ok_def)
qed

section \<open>The message loop\<close>

primrec turn_state :: "'s turn \<Rightarrow> 's" where
  "turn_state (Next s sock connected) = s"
| "turn_state (Finished c s) = s"

text \<open>\<open>recv\<close> stores no more than it was asked for.\<close>
definition recv_ok :: "net_io \<Rightarrow> bool" where
  "recv_ok io \<longleftrightarrow> length (snd (io_recv io)) \<le> MSG_SIZE"

lemma sec_turn_inv:
  assumes "sec_turn env a s sock connected io = Some t" and "sec_inv s" and "recv_ok io"
  shows "sec_inv (turn_state t)"
proof -
  have len: "length (msg_buf (take k (snd (io_recv io)))) = MSG_SIZE" for k using assms(3) by (simp add: msg_buf_def recv_ok_def)
  have "sec_inv (out_state out)" if "handle_message env s (msg_buf (take k (snd (io_recv io)))) = Some out" for out k
    using handle_keeps [OF assms(2) len that] by (simp add: keeps_def)
  then show ?thesis using assms(1,2)
    by (fastforce simp: sec_turn_def main_turn_def main_connect_def Let_def split_beta
        split: sum.splits if_splits bind_splits outcome.splits)
qed

lemma sec_loop_inv: "sec_loop env a ios t = Some t' \<Longrightarrow> sec_inv (turn_state t) \<Longrightarrow> list_all recv_ok ios \<Longrightarrow> sec_inv (turn_state t')"
proof (induction env a ios t rule: sec_loop.induct)
  case (3 env a io ios s sock connected)
  then show ?case using sec_turn_inv [of env a s sock connected io] by (auto split: bind_splits)
qed auto

text \<open>As long as the loop goes on, no message moves a buffer.\<close>
lemma sec_turn_kept:
  assumes "sec_turn env a s sock connected io = Some (Next s' sock' connected')"
    and "world_inv dins (sec_eal s) h" and "vhost_ok env dins"
  shows "eal_kept dins (sec_eal s) (sec_eal s')"
proof -
  consider "s' = s" | str r where "handle_message env s str = Some (Reply s' r)"
    using assms(1) by (auto simp: sec_turn_def main_turn_def main_connect_def Let_def split_beta
        split: sum.splits if_splits bind_splits outcome.splits)
  then show ?thesis by cases (use handle_kept [OF _ assms(2,3)] in auto)
qed

lemma sec_loop_finished: "sec_loop env a ios (Finished c s) = Some t \<Longrightarrow> t = Finished c s"
  by (cases ios) auto

lemma sec_loop_kept:
  assumes "sec_loop env a ios (Next s sock connected) = Some (Next s' sock' connected')"
    and "world_inv dins (sec_eal s) h" and "vhost_ok env dins"
  shows "eal_kept dins (sec_eal s) (sec_eal s')"
  using assms(1,2)
proof (induction ios arbitrary: s sock connected)
  case (Cons io ios)
  then obtain t where t: "sec_turn env a s sock connected io = Some t" "sec_loop env a ios t = Some (Next s' sock' connected')"
    by (auto split: bind_splits)
  then obtain s1 sock1 connected1 where n: "t = Next s1 sock1 connected1" by (cases t) (auto dest: sec_loop_finished)
  have k: "eal_kept dins (sec_eal s) (sec_eal s1)" using sec_turn_kept [OF t(1) [unfolded n] Cons.prems(2) assms(3)] .
  then have "world_inv dins (sec_eal s1) h" using Cons.prems(2) by (simp add: eal_kept_def)
  then show ?case using eal_kept_trans [OF k] Cons.IH t(2) unfolding n by blast
qed simp

section \<open>Properties\<close>

text \<open>
  C8. The start of a secondary process with the options \<open>-n K -s IP:PORT\<close>: it succeeds, the identifier
  is the number cut to 8 bits, exactly the network cards that were found are active, nothing is
  patched, and the invariant under which commands and forwarding are safe holds, for the buffers
  there are. From then on, whatever the socket calls return: the table, the arrays and the mode are well-formed after
  every run of the message loop; and while the loop goes on, all buffers are where they were at the
  start, so the invariant under which commands and forwarding are safe holds again as soon as every
  patch in force is between ports in service (a message may patch a port that is not). The vhost driver
  leaves buffers where they are. Without \<open>-s\<close> the process starts as well, but follows a null pointer as
  soon as it has a socket.
\<close>
theorem sec_starts:
  assumes "sec_globals s" and "world_inv dins (sec_eal s) {#}"
    and "0 \<le> eal_init" and "drop (Suc (nat eal_init)) argv = [''-n'', show_nat k] @ srv"
    and "srv = [] \<or> srv = [''-s'', ip @ CHR '':'' # show_nat n]"
    and "k < 2 ^ 64" and "CHR '':'' \<notin> set ip" and "ip \<noteq> []" and "n < 2 ^ 31" and "vhost_ok env dins"
  shows "\<exists>a s'. sec_main_start eal_init argv sec_args_0 s = Some (a, Next s' SOCK_RESET False)
    \<and> client_id s' = of_nat k \<and> sec_eal s' = sec_eal s \<and> active_patches (ports_fwd_array s') = []
    \<and> (\<forall>i<RTE_MAX_ETHPORTS. port_status (ports_fwd_array s' ! i) = (if phys_port (sec_eal s) i then int i else - 99))
    \<and> panel_ok oth dins (inside dins (sec_eal s)) s'
    \<and> (\<forall>ios t. list_all recv_ok ios \<and> sec_loop env a ios (Next s' SOCK_RESET False) = Some t \<longrightarrow> sec_inv (turn_state t))
    \<and> (\<forall>ios s'' sock c. list_all recv_ok ios \<and> sec_loop env a ios (Next s' SOCK_RESET False) = Some (Next s'' sock c) \<longrightarrow>
         world_inv dins (sec_eal s'') {#} \<and> inside dins (sec_eal s'') = inside dins (sec_eal s)
         \<and> panel_ok oth dins (inside dins (sec_eal s)) s'' = patches_up oth dins (sec_eal s'') (ports_fwd_array s''))
    \<and> (if srv = [] then sa_server_ip a = None \<and> (\<forall>io ios. 0 \<le> io_socket io \<longrightarrow> sec_loop env a (io # ios) (Next s' SOCK_RESET False) = None)
       else sa_server_ip a = Some ip \<and> sa_tcpport a = int n)"
proof -
  let ?a = "if srv = [] then sec_args_0\<lparr>sa_client_id := of_nat k\<rparr>
    else sec_args_0\<lparr>sa_client_id := of_nat k, sa_server_ip := Some ip, sa_tcpport := int n\<rparr>"
  have args: "sec_parse_app_args (drop (Suc (nat eal_init)) argv) sec_args_0 = (0, ?a)"
    using sec_args_line [OF assms(6-9), of sec_args_0] assms(5) unfolding assms(4) by auto
  let ?s = "s\<lparr>client_id := of_nat k\<rparr>"
  have "sec_globals ?s" "world_inv dins (sec_eal ?s) {#}" using assms(1,2) by (simp_all add: sec_globals_def)
  from main_init_ok [OF this, of oth] obtain arr where arr: "main_init ?s = Some (?s\<lparr>ports_fwd_array := arr\<rparr>)"
    "panel_ok oth dins (inside dins (sec_eal s)) (?s\<lparr>ports_fwd_array := arr\<rparr>)" "active_patches arr = []"
    "\<forall>i<RTE_MAX_ETHPORTS. port_status (arr ! i) = (if phys_port (sec_eal s) i then int i else - 99)"
    by auto
  let ?s' = "?s\<lparr>ports_fwd_array := arr\<rparr>"
  have "s\<lparr>client_id := sa_client_id ?a\<rparr> = ?s" by simp
  then have "sec_main_start eal_init argv sec_args_0 s = Some (?a, Next ?s' SOCK_RESET False)"
    using assms(3) args arr(1) by (simp add: sec_main_start_def)
  moreover have "sec_inv ?s'" using arr(2) by (simp add: panel_ok_def)
  then have loop: "\<forall>ios t. list_all recv_ok ios \<and> sec_loop env ?a ios (Next ?s' SOCK_RESET False) = Some t \<longrightarrow> sec_inv (turn_state t)"
    using sec_loop_inv [of env ?a _ "Next ?s' SOCK_RESET False"] by (metis turn_state.simps(1))
  moreover have "\<forall>ios s'' sock c. list_all recv_ok ios \<and> sec_loop env ?a ios (Next ?s' SOCK_RESET False) = Some (Next s'' sock c) \<longrightarrow>
      world_inv dins (sec_eal s'') {#} \<and> inside dins (sec_eal s'') = inside dins (sec_eal s)
      \<and> panel_ok oth dins (inside dins (sec_eal s)) s'' = patches_up oth dins (sec_eal s'') (ports_fwd_array s'')"
  proof (intro allI impI, elim conjE)
    fix ios s'' sock c
    assume r: "list_all recv_ok ios" "sec_loop env ?a ios (Next ?s' SOCK_RESET False) = Some (Next s'' sock c)"
    have "sec_inv s''" using loop r by fastforce
    moreover have "eal_kept dins (sec_eal s) (sec_eal s'')"
      using sec_loop_kept [OF r(2) _ assms(10)] assms(2) by simp
    ultimately show "world_inv dins (sec_eal s'') {#} \<and> inside dins (sec_eal s'') = inside dins (sec_eal s)
      \<and> panel_ok oth dins (inside dins (sec_eal s)) s'' = patches_up oth dins (sec_eal s'') (ports_fwd_array s'')"
      using assms(2) by (simp add: eal_kept_def panel_ok_def)
  qed
  moreover have "sec_loop env ?a (io # ios) (Next ?s' SOCK_RESET False) = None" if "srv = []" "0 \<le> io_socket io" for io ios
    using that by (simp add: sec_turn_def SOCK_RESET_def sec_args_0_def)
  ultimately show ?thesis using arr(2-4)
    by (intro exI [of _ ?a] exI [of _ ?s'] conjI) (simp_all add: sec_args_0_def)
qed

theorem sec_starts_witness:
  "\<exists>a s'. sec_main_start 0 [''sec_zerocpy'', ''-n'', show_nat 300, ''-s'', ''127.0.0.1'' @ CHR '':'' # show_nat 6666] sec_args_0
        (panel_sec\<lparr>cmd := STOP\<rparr>) = Some (a, Next s' SOCK_RESET False)
    \<and> client_id s' = 44 \<and> active_patches (ports_fwd_array s') = []
    \<and> panel_ok loop_nic mset ({#11, 12, 9#} + pool_mset pool_8) s' \<and> sa_server_ip a = Some ''127.0.0.1'' \<and> sa_tcpport a = 6666"
proof -
  have g: "sec_globals (panel_sec\<lparr>cmd := STOP\<rparr>)" "world_inv mset (sec_eal (panel_sec\<lparr>cmd := STOP\<rparr>)) {#}"
    using panel_table_ok panel_inv by (simp_all add: sec_globals_def panel_sec_def table_ok_def RTE_MAX_ETHPORTS_def)
  have d: "drop (Suc (nat 0)) [''sec_zerocpy'', ''-n'', show_nat 300, ''-s'', ''127.0.0.1'' @ CHR '':'' # show_nat 6666]
      = [''-n'', show_nat 300] @ [''-s'', ''127.0.0.1'' @ CHR '':'' # show_nat 6666]" by simp
  have v: "vhost_ok env_0 mset" by (simp add: vhost_ok_def env_0_def)
  from sec_starts [OF g order.refl d disjI2 [OF refl] _ _ _ _ v, of loop_nic] show ?thesis
    using panel_inside by (auto simp: panel_sec_def)
qed

end
