(* ===== verification/Spp_Patch_Race.thy ===== *)
theory Spp_Patch_Race
  imports Spp_Command
begin

text \<open>
  The patch command while the forwarding core runs. The control thread writes the entries of the
  two ports field by field, without a lock; a forwarding turn may come between any two stores.
  The order of the stores publishes the out port of the in port before the functions of the out
  port are set. When the out port was used before this does no harm: all intermediate tables are
  well-formed. Otherwise a turn in the window calls a null pointer as soon as a packet waits.
\<close>

text \<open>The seven stores of the code, in its order.\<close>
definition patch_stores :: "int \<Rightarrow> int \<Rightarrow> (port list \<Rightarrow> port list option) list" where
  "patch_stores i j =
     [set_port i (\<lambda>p. p\<lparr>port_status := i\<rparr>),
      set_port i (\<lambda>p. p\<lparr>port_rx_func := Some Fn_rte_eth_rx_burst\<rparr>),
      set_port i (\<lambda>p. p\<lparr>port_tx_func := Some Fn_rte_eth_tx_burst\<rparr>),
      set_port i (\<lambda>p. p\<lparr>port_out_port_id := j\<rparr>),
      set_port j (\<lambda>p. p\<lparr>port_status := j\<rparr>),
      set_port j (\<lambda>p. p\<lparr>port_rx_func := Some Fn_rte_eth_rx_burst\<rparr>),
      set_port j (\<lambda>p. p\<lparr>port_tx_func := Some Fn_rte_eth_tx_burst\<rparr>)]"

fun run_stores :: "(port list \<Rightarrow> port list option) list \<Rightarrow> port list \<Rightarrow> port list option" where
  "run_stores [] arr = Some arr"
| "run_stores (f # fs) arr = f arr \<bind> run_stores fs"

text \<open>All stores together are the patch of the command handler.\<close>
lemma run_patch_stores:
  assumes "i < length arr" and "j < length arr"
  shows "run_stores (patch_stores (int i) (int j)) arr = patch_ports (int i) (int j) arr"
  using assms
  by (simp add: patch_stores_def patch_ports_def set_port_def aget_def aset_def with_funcs_def Let_def)

section \<open>Well-formed tables in between\<close>

lemma run_stores_append: "run_stores (fs @ gs) arr = run_stores fs arr \<bind> run_stores gs"
  by (induction fs arbitrary: arr) (auto simp: bind_assoc fun_eq_iff split: bind_splits)

lemma run_stores_inv:
  assumes "run_stores fs arr = Some arr'" and "P arr" and "\<And>f a b. f \<in> set fs \<Longrightarrow> P a \<Longrightarrow> f a = Some b \<Longrightarrow> P b"
  shows "P arr'"
  using assms
proof (induction fs arbitrary: arr)
  case (Cons f fs)
  then obtain a where a: "f arr = Some a" "run_stores fs a = Some arr'" by (auto split: bind_splits)
  then have "P a" using Cons.prems(2) Cons.prems(3) [of f arr a] by simp
  then show ?case using Cons.prems(3) by (intro Cons.IH [OF a(2)]) auto
qed simp

lemma table_ok_field:
  assumes "table_ok arr" and "set_port i f arr = Some arr'"
    and "\<And>p. patch_ok arr p \<Longrightarrow> p = arr ! nat i \<Longrightarrow> patch_ok arr (f p)" and "\<And>p. port_tx_func p \<noteq> None \<Longrightarrow> port_tx_func (f p) \<noteq> None"
  shows "table_ok arr'"
proof -
  have i: "nat i < length arr" "arr' = arr[nat i := f (arr ! nat i)]" using assms(2) by (simp_all add: set_port_Some)
  moreover have "patch_ok arr (arr ! nat i)" using assms(1) i(1) by (simp add: table_ok_def list_all_length)
  ultimately show ?thesis using table_ok_update [OF assms(1) i(1)] assms(3,4) by simp
qed

text \<open>The out port can transmit; the in port can receive.\<close>
definition out_ready :: "nat \<Rightarrow> port list \<Rightarrow> bool" where
  "out_ready j arr \<longleftrightarrow> table_ok arr \<and> j < length arr \<and> port_tx_func (arr ! j) \<noteq> None"

definition both_ready :: "nat \<Rightarrow> nat \<Rightarrow> port list \<Rightarrow> bool" where
  "both_ready i j arr \<longleftrightarrow> out_ready j arr \<and> i < length arr \<and> port_rx_func (arr ! i) \<noteq> None"

lemma out_ready_store:
  assumes "out_ready j arr" and "set_port k f arr = Some arr'"
    and "\<And>p. port_rx_func p \<noteq> None \<Longrightarrow> port_rx_func (f p) \<noteq> None" and "\<And>p. port_tx_func p \<noteq> None \<Longrightarrow> port_tx_func (f p) \<noteq> None"
    and "\<And>p. port_out_port_id (f p) = port_out_port_id p"
  shows "out_ready j arr'"
proof -
  have "table_ok arr'"
    by (rule table_ok_field [OF _ assms(2)]) (use assms in \<open>auto simp: out_ready_def patch_ok_def\<close>)
  then show ?thesis using assms(1,2,4) by (auto simp: out_ready_def set_port_Some nth_list_update)
qed

lemma both_ready_store:
  assumes "both_ready i j arr" and "set_port k f arr = Some arr'"
    and "\<And>p. port_rx_func p \<noteq> None \<Longrightarrow> port_rx_func (f p) \<noteq> None" and "\<And>p. port_tx_func p \<noteq> None \<Longrightarrow> port_tx_func (f p) \<noteq> None"
    and "\<And>p. port_out_port_id (f p) = port_out_port_id p"
  shows "both_ready i j arr'"
  using out_ready_store [OF _ assms(2-5)] assms(1,2,3) by (auto simp: both_ready_def set_port_Some nth_list_update)

lemma both_ready_out:
  assumes "both_ready i j arr" and "set_port (int i) (\<lambda>p. p\<lparr>port_out_port_id := int j\<rparr>) arr = Some arr'"
  shows "both_ready i j arr'"
proof -
  have "table_ok arr'"
    by (rule table_ok_field [OF _ assms(2)]) (use assms in \<open>auto simp: both_ready_def out_ready_def patch_ok_def\<close>)
  then show ?thesis using assms by (auto simp: both_ready_def out_ready_def set_port_Some nth_list_update)
qed

lemma patch_prefix_ok:
  assumes "table_ok arr" and "i < length arr" and "j < length arr" and "port_tx_func (arr ! j) \<noteq> None"
    and run: "run_stores (take n (patch_stores (int i) (int j))) arr = Some arr'"
  shows "table_ok arr'"
proof -
  define A where "A = take 3 (patch_stores (int i) (int j))"
  define B where "B = drop 3 (patch_stores (int i) (int j))"
  have AB: "patch_stores (int i) (int j) = A @ B" by (simp add: A_def B_def)
  have lA: "length A = 3" by (simp add: A_def patch_stores_def)
  have ready: "out_ready j arr" using assms by (simp add: out_ready_def)
  have keep: "out_ready j b" if "f \<in> set A" "out_ready j a" "f a = Some b" for f a b
    using that by (auto simp: A_def patch_stores_def elim!: out_ready_store)
  show ?thesis
  proof (cases "n \<le> 3")
    case True
    then have "run_stores (take n A) arr = Some arr'" using run lA by (simp add: AB)
    then have "out_ready j arr'"
      by (rule run_stores_inv [where P = "out_ready j"]) (use ready keep in_set_takeD in metis)+
    then show ?thesis by (simp add: out_ready_def)
  next
    case False
    then obtain a where a: "run_stores A arr = Some a" "run_stores (take (n - 3) B) a = Some arr'"
      using run lA by (auto simp: AB run_stores_append split: bind_splits)
    have "out_ready j a" using run_stores_inv [OF a(1), of "out_ready j"] ready keep by metis
    moreover have "i < length a \<and> port_rx_func (a ! i) \<noteq> None"
      using a(1) assms(2) by (auto simp: A_def patch_stores_def set_port_def aget_def aset_def)
    ultimately have "both_ready i j a" by (simp add: both_ready_def)
    moreover have "both_ready i j y" if "f \<in> set B" "both_ready i j x" "f x = Some y" for f x y
      using that by (auto simp: B_def patch_stores_def elim: both_ready_out) (auto elim!: both_ready_store)
    ultimately have "both_ready i j arr'"
      using run_stores_inv [OF a(2), of "both_ready i j"] in_set_takeD by metis
    then show ?thesis by (simp add: both_ready_def out_ready_def)
  qed
qed

section \<open>A turn in the window\<close>

lemma forward_loop_append:
  fixes e :: "('h, 'm, 'y) spp_eal"
  shows "forward_loop oth lcore z arr (xs @ ys) e = forward_loop oth lcore z arr xs e \<bind> forward_loop oth lcore z arr ys"
proof (induction xs arbitrary: e)
  case (Cons x xs)
  have "forward_loop oth lcore z arr (xs @ ys) =
      (\<lambda>e :: ('h, 'm, 'y) spp_eal. forward_loop oth lcore z arr xs e \<bind> forward_loop oth lcore z arr ys)"
    by (rule ext) (rule Cons.IH)
  then show ?case by (auto split: bind_splits)
qed simp

lemma forward_loop_idle:
  "\<forall>k\<in>set ks. k < length arr \<and> port_out_port_id (arr ! k) < 0 \<Longrightarrow> forward_loop oth lcore z arr ks e = Some e"
  by (induction ks) auto

text \<open>A single patch whose target has no transmit function, with a packet waiting.\<close>
lemma forward_null_tx:
  assumes "length arr = RTE_MAX_ETHPORTS" and "i < RTE_MAX_ETHPORTS" and "j < RTE_MAX_ETHPORTS"
    and p: "port_status (arr ! i) \<ge> 0" "port_out_port_id (arr ! i) = int j" "port_rx_func (arr ! i) \<noteq> None"
    and "port_tx_func (arr ! j) = None" and idle: "\<And>k. k < i \<Longrightarrow> port_out_port_id (arr ! k) < 0"
    and rx: "rte_eth_rx_burst oth e (of_nat i) 0 (replicate 32 z) 32 = Some (nb, bufs, e')" "nb \<noteq> 0"
  shows "forward oth lcore z arr e = None"
proof -
  have split: "[0..<RTE_MAX_ETHPORTS] = [0..<i] @ i # [Suc i..<RTE_MAX_ETHPORTS]"
    using assms(2) upt_add_eq_append [of 0 i "RTE_MAX_ETHPORTS - i"] by (simp add: upt_conv_Cons)
  have "burst_move (call_rx oth (port_rx_func (arr ! i))) (call_tx_of oth arr (int j)) (mbuf_put lcore) z (of_nat i) (of_nat j) e = None"
    using p(3) rx assms(1,3,7) by (simp add: burst_move_def MAX_PKT_BURST_def call_tx_of_def call_tx_def)
  moreover have "forward_loop oth lcore z arr [0..<i] e = Some e"
    using idle assms(1,2) by (intro forward_loop_idle) simp
  ultimately show ?thesis using p assms(1,2)
    unfolding forward_def split forward_loop_append by simp
qed

section \<open>Properties\<close>

text \<open>
  C30. Patching under traffic is harmless when the out port was used before: after any number of
  the seven stores the table is well-formed, so a forwarding turn between two stores meets no
  null pointer and no entry outside the table.
\<close>
theorem patch_stores_safe:
  assumes "table_ok arr" and "i < RTE_MAX_ETHPORTS" and "j < RTE_MAX_ETHPORTS" and "port_tx_func (arr ! j) \<noteq> None"
  shows "\<exists>arr'. run_stores (take n (patch_stores (int i) (int j))) arr = Some arr' \<and> table_ok arr'"
proof -
  have len: "i < length arr" "j < length arr" using assms by (simp_all add: table_ok_def)
  have "run_stores fs a \<noteq> None" if "set fs \<subseteq> set (patch_stores (int i) (int j))" "length a = length arr" for fs a
    using that
  proof (induction fs arbitrary: a)
    case (Cons f fs)
    then obtain b where "f a = Some b" "length b = length arr"
      using len by (auto simp: patch_stores_def set_port_def aget_def aset_def)
    then show ?case using Cons by simp
  qed simp
  then obtain arr' where "run_stores (take n (patch_stores (int i) (int j))) arr = Some arr'"
    using set_take_subset [of n "patch_stores (int i) (int j)"] by blast
  then show ?thesis using patch_prefix_ok [OF assms(1) len assms(4)] by blast
qed

theorem patch_stores_safe_witness:
  "\<exists>arr'. run_stores (take 4 (patch_stores 1 2)) panel_table = Some arr' \<and> table_ok arr'"
  using patch_stores_safe [OF panel_table_ok, of 1 2 4]
  by (simp add: RTE_MAX_ETHPORTS_def) (simp add: panel_table_def live_port_def)

text \<open>
  C31. Patching under traffic is not safe when the out port is used for the first time: the code
  sets the out port of the in port before it sets the functions of the out port. A forwarding
  turn after the fourth store, with a packet waiting at a ring-backed in port, calls a null
  pointer.
\<close>
theorem patch_window_crash:
  assumes "world_inv dins e h" and "length arr = RTE_MAX_ETHPORTS" and "\<forall>k<RTE_MAX_ETHPORTS. port_out_port_id (arr ! k) < 0"
    and "i < RTE_MAX_ETHPORTS" and "j < RTE_MAX_ETHPORTS" and "i \<noteq> j" and "port_tx_func (arr ! j) = None"
    and "ring_port (rte_eth_devices e ! i) a" and "ring_at e a = Some r" and "ring_list r \<noteq> []"
  shows "\<exists>arr'. run_stores (take 4 (patch_stores (int i) (int j))) arr = Some arr' \<and> forward oth lcore z arr' e = None"
proof -
  define arr' where "arr' = arr[i := (arr ! i)\<lparr>port_status := int i, port_rx_func := Some Fn_rte_eth_rx_burst,
    port_tx_func := Some Fn_rte_eth_tx_burst, port_out_port_id := int j\<rparr>]"
  have run: "run_stores (take 4 (patch_stores (int i) (int j))) arr = Some arr'"
    using assms(2,4) by (simp add: patch_stores_def set_port_def aget_def aset_def arr'_def)
  have ui: "unat (of_nat i :: u8) = i" using assms(4) by (simp add: RTE_MAX_ETHPORTS_def unat_of_nat)
  have "ring_inv r" using assms(1,9) by (auto simp: world_inv_def ran_def)
  then obtain nb bufs e' where "rte_eth_rx_burst oth e (of_nat i) 0 (replicate 32 z) 32 = Some (nb, bufs, e')"
    "unat nb = min 32 (length (ring_list r))"
    using rx_burst_ring [of "of_nat i" e a r 32 "replicate 32 z" oth] assms(4,8,9) world_inv_length [OF assms(1)] ui by auto
  moreover from this(2) have "nb \<noteq> 0" using assms(10) by (cases "ring_list r") auto
  ultimately have "forward oth lcore z arr' e = None"
    using assms by (intro forward_null_tx [of arr' i j]) (auto simp: arr'_def nth_list_update)
  then show ?thesis using run by blast
qed

theorem patch_window_crash_witness:
  "\<exists>arr'. run_stores (take 4 (patch_stores 0 1)) (replicate 32 idle_port) = Some arr' \<and> forward loop_nic 1 0 arr' panel = None"
  using patch_window_crash [OF panel_inv, of "replicate 32 idle_port" 0 1 "0x1000" ring_4 loop_nic 1 0]
  by (simp add: RTE_MAX_ETHPORTS_def idle_port_def panel_fields ring_port_def ring_dev_def ring_4_list)

end
