(* ===== verification/Rte_Mbuf.thy ===== *)
theory Rte_Mbuf
  imports Rte_Mempool_Layout
begin

text \<open>
  Packet buffers (\<open>lib/librte_mbuf\<close>): the buffer structure, its 16-bit reference count, taking
  buffers from a pool and giving them back, indirect buffers that share the data of another one,
  and the operations on the data of a packet that may consist of several segments. Assertions
  and sanity checks are off in the build configuration, as they are here. Shown are that freeing
  a packet ends and gives exactly the segments with their last reference back to their pools,
  that attaching and freeing an indirect buffer restores everything, and that the data of a
  packet never leaves its buffer.
\<close>

unbundle bit_operations_syntax

section \<open>Data\<close>

definition IND_ATTACHED_MBUF :: u64 where "IND_ATTACHED_MBUF = push_bit 62 1"
definition CTRL_MBUF_FLAG :: u64 where "CTRL_MBUF_FLAG = push_bit 63 1"
definition RTE_MBUF_PRIV_ALIGN :: nat where "RTE_MBUF_PRIV_ALIGN = 8"
definition RTE_PKTMBUF_HEADROOM :: u16 where "RTE_PKTMBUF_HEADROOM = 128"
definition EOVERFLOW :: int where "EOVERFLOW = 75"

text \<open>Pointers are addresses; the union \<open>hash\<close> is its eight bytes.\<close>
record rte_mbuf =
  mb_buf_addr :: u64
  mb_buf_physaddr :: u64
  mb_buf_len :: u16
  mb_data_off :: u16
  mb_refcnt :: u16
  mb_nb_segs :: u8
  mb_port :: u8
  mb_ol_flags :: u64
  mb_packet_type :: u32
  mb_pkt_len :: u32
  mb_data_len :: u16
  mb_vlan_tci :: u16
  mb_hash :: u64
  mb_seqn :: u32
  mb_vlan_tci_outer :: u16
  mb_userdata :: u64
  mb_pool :: u64
  mb_next :: u64
  mb_tx_offload :: u64
  mb_priv_size :: u16
  mb_timesync :: u16
  mb_offload_ops :: u64

text \<open>Two cache lines.\<close>
definition sizeof_rte_mbuf :: u64 where "sizeof_rte_mbuf = 128"

record rte_pktmbuf_pool_private =
  mbuf_data_room_size :: u16
  mbuf_priv_size :: u16

text \<open>The fields of a pool that describe the memory of its objects.\<close>
record mempool_pages =
  mp_elt_va_start :: u64
  mp_pg_shift :: u32
  mp_pg_mask :: u64
  mp_elt_pa :: "u64 list"

text \<open>
  Memory: the buffer structures and the pools by address, the private data of the pools, and the
  bytes behind the structures. The last two fields belong to the EAL.
\<close>
record mbuf_mem =
  mbuf_at :: "u64 \<rightharpoonup> rte_mbuf"
  pktpool_at :: "u64 \<rightharpoonup> u64 rte_mempool"
  pktpool_priv :: "u64 \<rightharpoonup> rte_pktmbuf_pool_private"
  pktpool_pages :: "u64 \<rightharpoonup> mempool_pages"
  byte_at :: "u64 \<rightharpoonup> u8"
  has_hugepages :: bool
  mem_virt2phy :: "u64 \<Rightarrow> u64"

text \<open>Writing through a pointer that is no buffer is no defined behaviour.\<close>
definition mbuf_upd :: "(rte_mbuf \<Rightarrow> rte_mbuf) \<Rightarrow> u64 \<Rightarrow> mbuf_mem \<Rightarrow> mbuf_mem option" where
  "mbuf_upd f a s = do { m \<leftarrow> mbuf_at s a; Some (s\<lparr>mbuf_at := (mbuf_at s)(a \<mapsto> f m)\<rparr>) }"

definition rte_mempool_virt2phy :: "mbuf_mem \<Rightarrow> u64 \<Rightarrow> u64 \<Rightarrow> u64 option" where
  "rte_mempool_virt2phy s mp elt =
     (if has_hugepages s
      then do { pg \<leftarrow> pktpool_pages s mp;
                let off = elt - mp_elt_va_start pg;
                pa \<leftarrow> aget (mp_elt_pa pg) (unat (drop_bit (unat (mp_pg_shift pg)) off));
                Some (pa + (off AND mp_pg_mask pg)) }
      else Some (mem_virt2phy s elt))"

definition rte_pktmbuf_data_room_size :: "mbuf_mem \<Rightarrow> u64 \<Rightarrow> u16 option" where
  "rte_pktmbuf_data_room_size s mp = map_option mbuf_data_room_size (pktpool_priv s mp)"

definition rte_pktmbuf_priv_size :: "mbuf_mem \<Rightarrow> u64 \<Rightarrow> u16 option" where
  "rte_pktmbuf_priv_size s mp = map_option mbuf_priv_size (pktpool_priv s mp)"

definition rte_mbuf_from_indirect :: "rte_mbuf \<Rightarrow> u64" where
  "rte_mbuf_from_indirect mi = mb_buf_addr mi - (sizeof_rte_mbuf + ucast (mb_priv_size mi))"

definition rte_mbuf_to_baddr :: "mbuf_mem \<Rightarrow> u64 \<Rightarrow> u64 option" where
  "rte_mbuf_to_baddr s a =
     do { md \<leftarrow> mbuf_at s a;
          p \<leftarrow> rte_pktmbuf_priv_size s (mb_pool md);
          Some (a + sizeof_rte_mbuf + ucast p) }"

definition RTE_MBUF_INDIRECT :: "rte_mbuf \<Rightarrow> bool" where
  "RTE_MBUF_INDIRECT m \<longleftrightarrow> mb_ol_flags m AND IND_ATTACHED_MBUF \<noteq> 0"

definition rte_is_ctrlmbuf :: "rte_mbuf \<Rightarrow> bool" where
  "rte_is_ctrlmbuf m \<longleftrightarrow> mb_ol_flags m AND CTRL_MBUF_FLAG \<noteq> 0"

section \<open>Reference counts\<close>

text \<open>The value is an \<open>int16_t\<close>; the count wraps around at 16 bits in either branch.\<close>
definition rte_mbuf_refcnt_update :: "u64 \<Rightarrow> u16 \<Rightarrow> mbuf_mem \<Rightarrow> (u16 \<times> mbuf_mem) option" where
  "rte_mbuf_refcnt_update a v s =
     do { m \<leftarrow> mbuf_at s a;
          let n = (if mb_refcnt m = 1 then 1 + v else mb_refcnt m + v);
          Some (n, s\<lparr>mbuf_at := (mbuf_at s)(a \<mapsto> m\<lparr>mb_refcnt := n\<rparr>)\<rparr>) }"

partial_function (option) rte_pktmbuf_refcnt_update :: "u64 \<Rightarrow> u16 \<Rightarrow> mbuf_mem \<Rightarrow> mbuf_mem option" where
  "rte_pktmbuf_refcnt_update a v s =
     do { (_, s) \<leftarrow> rte_mbuf_refcnt_update a v s;
          m \<leftarrow> mbuf_at s a;
          if mb_next m \<noteq> 0 then rte_pktmbuf_refcnt_update (mb_next m) v s else Some s }"

section \<open>Allocation\<close>

text \<open>The pointer \<open>mb\<close> starts as \<open>NULL\<close>; the result 0 is \<open>NULL\<close>.\<close>
definition rte_mbuf_raw_alloc :: "nat \<Rightarrow> u64 \<Rightarrow> mbuf_mem \<Rightarrow> (u64 \<times> mbuf_mem) option" where
  "rte_mbuf_raw_alloc lcore mp s =
     do { p \<leftarrow> pktpool_at s mp;
          (ret, mb, p) \<leftarrow> rte_mempool_get lcore p 0;
          let s = s\<lparr>pktpool_at := (pktpool_at s)(mp \<mapsto> p)\<rparr>;
          if ret < 0 then Some (0, s)
          else do { a \<leftarrow> aget mb 0;
                    s \<leftarrow> mbuf_upd (mb_refcnt_update (\<lambda>_. 1)) a s;
                    Some (a, s) } }"

definition rte_mbuf_raw_free :: "nat \<Rightarrow> u64 \<Rightarrow> mbuf_mem \<Rightarrow> mbuf_mem option" where
  "rte_mbuf_raw_free lcore a s =
     do { m \<leftarrow> mbuf_at s a;
          p \<leftarrow> pktpool_at s (mb_pool m);
          p \<leftarrow> rte_mempool_put lcore p a;
          Some (s\<lparr>pktpool_at := (pktpool_at s)(mb_pool m \<mapsto> p)\<rparr>) }"

definition rte_pktmbuf_reset :: "rte_mbuf \<Rightarrow> rte_mbuf" where
  "rte_pktmbuf_reset m =
     m\<lparr>mb_next := 0, mb_pkt_len := 0, mb_tx_offload := 0, mb_vlan_tci := 0, mb_vlan_tci_outer := 0,
       mb_nb_segs := 1, mb_port := 0xff, mb_ol_flags := 0, mb_packet_type := 0,
       mb_data_off := (if RTE_PKTMBUF_HEADROOM \<le> mb_buf_len m then RTE_PKTMBUF_HEADROOM else mb_buf_len m),
       mb_data_len := 0\<rparr>"

definition rte_pktmbuf_alloc :: "nat \<Rightarrow> u64 \<Rightarrow> mbuf_mem \<Rightarrow> (u64 \<times> mbuf_mem) option" where
  "rte_pktmbuf_alloc lcore mp s =
     do { (a, s) \<leftarrow> rte_mbuf_raw_alloc lcore mp s;
          if a \<noteq> 0 then do { s \<leftarrow> mbuf_upd rte_pktmbuf_reset a s; Some (a, s) }
          else Some (a, s) }"

section \<open>Indirect buffers\<close>

text \<open>The fields of \<open>mi\<close> after the assignments in the order of the code.\<close>
definition attach_fields :: "rte_mbuf \<Rightarrow> rte_mbuf \<Rightarrow> rte_mbuf" where
  "attach_fields m mi =
     mi\<lparr>mb_priv_size := mb_priv_size m, mb_buf_physaddr := mb_buf_physaddr m, mb_buf_addr := mb_buf_addr m,
        mb_buf_len := mb_buf_len m, mb_data_off := mb_data_off m, mb_data_len := mb_data_len m,
        mb_port := mb_port m, mb_vlan_tci := mb_vlan_tci m, mb_vlan_tci_outer := mb_vlan_tci_outer m,
        mb_tx_offload := mb_tx_offload m, mb_hash := mb_hash m, mb_next := 0,
        mb_pkt_len := ucast (mb_data_len m), mb_nb_segs := 1,
        mb_ol_flags := mb_ol_flags m OR IND_ATTACHED_MBUF, mb_packet_type := mb_packet_type m\<rparr>"

definition rte_pktmbuf_attach :: "u64 \<Rightarrow> u64 \<Rightarrow> mbuf_mem \<Rightarrow> mbuf_mem option" where
  "rte_pktmbuf_attach mi a s =
     do { m \<leftarrow> mbuf_at s a;
          let md = (if \<not> RTE_MBUF_INDIRECT m then a else rte_mbuf_from_indirect m);
          (_, s) \<leftarrow> rte_mbuf_refcnt_update md 1 s;
          m \<leftarrow> mbuf_at s a;
          mbuf_upd (attach_fields m) mi s }"

definition rte_pktmbuf_detach :: "u64 \<Rightarrow> mbuf_mem \<Rightarrow> mbuf_mem option" where
  "rte_pktmbuf_detach a s =
     do { m \<leftarrow> mbuf_at s a;
          priv_size \<leftarrow> rte_pktmbuf_priv_size s (mb_pool m);
          let mbuf_size = sizeof_rte_mbuf + ucast priv_size;
          buf_len \<leftarrow> rte_pktmbuf_data_room_size s (mb_pool m);
          phys \<leftarrow> rte_mempool_virt2phy s (mb_pool m) a;
          mbuf_upd (\<lambda>m. m\<lparr>mb_priv_size := priv_size, mb_buf_addr := a + mbuf_size,
              mb_buf_physaddr := phys + mbuf_size, mb_buf_len := buf_len,
              mb_data_off := min RTE_PKTMBUF_HEADROOM buf_len, mb_data_len := 0, mb_ol_flags := 0\<rparr>) a s }"

section \<open>Freeing\<close>

definition rte_pktmbuf_prefree_seg :: "nat \<Rightarrow> u64 \<Rightarrow> mbuf_mem \<Rightarrow> (u64 \<times> mbuf_mem) option" where
  "rte_pktmbuf_prefree_seg lcore a s =
     do { (n, s) \<leftarrow> rte_mbuf_refcnt_update a (- 1) s;
          if n = 0
          then do {
            m \<leftarrow> mbuf_at s a;
            if RTE_MBUF_INDIRECT m
            then do {
              let md = rte_mbuf_from_indirect m;
              s \<leftarrow> rte_pktmbuf_detach a s;
              (k, s) \<leftarrow> rte_mbuf_refcnt_update md (- 1) s;
              if k = 0 then do { s \<leftarrow> rte_mbuf_raw_free lcore md s; Some (a, s) }
              else Some (a, s) }
            else Some (a, s) }
          else Some (0, s) }"

definition rte_pktmbuf_free_seg :: "nat \<Rightarrow> u64 \<Rightarrow> mbuf_mem \<Rightarrow> mbuf_mem option" where
  "rte_pktmbuf_free_seg lcore a s =
     do { (a, s) \<leftarrow> rte_pktmbuf_prefree_seg lcore a s;
          if a \<noteq> 0
          then do { s \<leftarrow> mbuf_upd (mb_next_update (\<lambda>_. 0)) a s; rte_mbuf_raw_free lcore a s }
          else Some s }"

text \<open>\<^term>\<open>None\<close> also stands for the loop that goes round a circular list of segments forever.\<close>
partial_function (option) rte_pktmbuf_free :: "nat \<Rightarrow> u64 \<Rightarrow> mbuf_mem \<Rightarrow> mbuf_mem option" where
  "rte_pktmbuf_free lcore a s =
     (if a \<noteq> 0
      then do { m \<leftarrow> mbuf_at s a;
                s \<leftarrow> rte_pktmbuf_free_seg lcore a s;
                rte_pktmbuf_free lcore (mb_next m) s }
      else Some s)"

section \<open>The data of a packet\<close>

definition rte_pktmbuf_headroom :: "rte_mbuf \<Rightarrow> u16" where
  "rte_pktmbuf_headroom m = mb_data_off m"

definition rte_pktmbuf_tailroom :: "rte_mbuf \<Rightarrow> u16" where
  "rte_pktmbuf_tailroom m = mb_buf_len m - rte_pktmbuf_headroom m - mb_data_len m"

partial_function (option) rte_pktmbuf_lastseg :: "u64 \<Rightarrow> mbuf_mem \<Rightarrow> u64 option" where
  "rte_pktmbuf_lastseg a s =
     do { m \<leftarrow> mbuf_at s a;
          if mb_next m \<noteq> 0 then rte_pktmbuf_lastseg (mb_next m) s else Some a }"

definition rte_pktmbuf_mtod :: "rte_mbuf \<Rightarrow> u64" where
  "rte_pktmbuf_mtod m = mb_buf_addr m + ucast (mb_data_off m)"

definition rte_pktmbuf_prepend :: "u64 \<Rightarrow> u16 \<Rightarrow> mbuf_mem \<Rightarrow> (u64 \<times> mbuf_mem) option" where
  "rte_pktmbuf_prepend a len s =
     do { m \<leftarrow> mbuf_at s a;
          if len > rte_pktmbuf_headroom m then Some (0, s)
          else do {
            let m = m\<lparr>mb_data_off := mb_data_off m - len, mb_data_len := mb_data_len m + len,
                      mb_pkt_len := mb_pkt_len m + ucast len\<rparr>;
            Some (rte_pktmbuf_mtod m, s\<lparr>mbuf_at := (mbuf_at s)(a \<mapsto> m)\<rparr>) } }"

definition rte_pktmbuf_append :: "u64 \<Rightarrow> u16 \<Rightarrow> mbuf_mem \<Rightarrow> (u64 \<times> mbuf_mem) option" where
  "rte_pktmbuf_append a len s =
     do { l \<leftarrow> rte_pktmbuf_lastseg a s;
          m_last \<leftarrow> mbuf_at s l;
          if len > rte_pktmbuf_tailroom m_last then Some (0, s)
          else do {
            let tail = rte_pktmbuf_mtod m_last + ucast (mb_data_len m_last);
            s \<leftarrow> mbuf_upd (\<lambda>m. m\<lparr>mb_data_len := mb_data_len m + len\<rparr>) l s;
            s \<leftarrow> mbuf_upd (\<lambda>m. m\<lparr>mb_pkt_len := mb_pkt_len m + ucast len\<rparr>) a s;
            Some (tail, s) } }"

definition rte_pktmbuf_adj :: "u64 \<Rightarrow> u16 \<Rightarrow> mbuf_mem \<Rightarrow> (u64 \<times> mbuf_mem) option" where
  "rte_pktmbuf_adj a len s =
     do { m \<leftarrow> mbuf_at s a;
          if len > mb_data_len m then Some (0, s)
          else do {
            let m = m\<lparr>mb_data_len := mb_data_len m - len, mb_data_off := mb_data_off m + len,
                      mb_pkt_len := mb_pkt_len m - ucast len\<rparr>;
            Some (rte_pktmbuf_mtod m, s\<lparr>mbuf_at := (mbuf_at s)(a \<mapsto> m)\<rparr>) } }"

definition rte_pktmbuf_trim :: "u64 \<Rightarrow> u16 \<Rightarrow> mbuf_mem \<Rightarrow> (int \<times> mbuf_mem) option" where
  "rte_pktmbuf_trim a len s =
     do { l \<leftarrow> rte_pktmbuf_lastseg a s;
          m_last \<leftarrow> mbuf_at s l;
          if len > mb_data_len m_last then Some (- 1, s)
          else do {
            s \<leftarrow> mbuf_upd (\<lambda>m. m\<lparr>mb_data_len := mb_data_len m - len\<rparr>) l s;
            s \<leftarrow> mbuf_upd (\<lambda>m. m\<lparr>mb_pkt_len := mb_pkt_len m - ucast len\<rparr>) a s;
            Some (0, s) } }"

definition rte_pktmbuf_is_contiguous :: "rte_mbuf \<Rightarrow> bool" where
  "rte_pktmbuf_is_contiguous m \<longleftrightarrow> mb_nb_segs m = 1"

definition rte_pktmbuf_chain :: "u64 \<Rightarrow> u64 \<Rightarrow> mbuf_mem \<Rightarrow> (int \<times> mbuf_mem) option" where
  "rte_pktmbuf_chain head tail s =
     do { h \<leftarrow> mbuf_at s head;
          t \<leftarrow> mbuf_at s tail;
          if unat (mb_nb_segs h) + unat (mb_nb_segs t) \<ge> 2 ^ 8 then Some (- EOVERFLOW, s)
          else do {
            cur_tail \<leftarrow> rte_pktmbuf_lastseg head s;
            s \<leftarrow> mbuf_upd (\<lambda>m. m\<lparr>mb_next := tail\<rparr>) cur_tail s;
            s \<leftarrow> mbuf_upd (\<lambda>m. m\<lparr>mb_nb_segs := mb_nb_segs m + mb_nb_segs t\<rparr>) head s;
            s \<leftarrow> mbuf_upd (\<lambda>m. m\<lparr>mb_pkt_len := mb_pkt_len m + mb_pkt_len t\<rparr>) head s;
            s \<leftarrow> mbuf_upd (\<lambda>m. m\<lparr>mb_pkt_len := ucast (mb_data_len m)\<rparr>) tail s;
            Some (0, s) } }"

text \<open>
  The loop of \<open>rte_pktmbuf_clone\<close>: \<open>prev\<close> is the buffer whose \<open>next\<close> field the code points to;
  the result is the last value of \<open>mi\<close> with the number of segments.
\<close>
partial_function (option) clone_loop ::
  "nat \<Rightarrow> u64 \<Rightarrow> u64 \<Rightarrow> u64 \<Rightarrow> u64 \<Rightarrow> u8 \<Rightarrow> mbuf_mem \<Rightarrow> (u64 \<times> u64 \<times> u8 \<times> mbuf_mem) option" where
  "clone_loop lcore mp prev mi md nseg s =
     do { s \<leftarrow> rte_pktmbuf_attach mi md s;
          s \<leftarrow> mbuf_upd (mb_next_update (\<lambda>_. mi)) prev s;
          m \<leftarrow> mbuf_at s md;
          if mb_next m \<noteq> 0
          then do {
            (mi', s) \<leftarrow> rte_pktmbuf_alloc lcore mp s;
            if mi' \<noteq> 0 then clone_loop lcore mp mi mi' (mb_next m) (nseg + 1) s
            else Some (0, mi, nseg + 1, s) }
          else Some (mi, mi, nseg + 1, s) }"

definition rte_pktmbuf_clone :: "nat \<Rightarrow> u64 \<Rightarrow> u64 \<Rightarrow> mbuf_mem \<Rightarrow> (u64 \<times> mbuf_mem) option" where
  "rte_pktmbuf_clone lcore md mp s =
     do { (mc, s) \<leftarrow> rte_pktmbuf_alloc lcore mp s;
          if mc = 0 then Some (0, s)
          else do {
            m \<leftarrow> mbuf_at s md;
            (mi, prev, nseg, s) \<leftarrow> clone_loop lcore mp mc mc md 0 s;
            s \<leftarrow> mbuf_upd (mb_next_update (\<lambda>_. 0)) prev s;
            s \<leftarrow> mbuf_upd (\<lambda>m'. m'\<lparr>mb_nb_segs := nseg, mb_pkt_len := mb_pkt_len m\<rparr>) mc s;
            if mi = 0 then do { s \<leftarrow> rte_pktmbuf_free lcore mc s; Some (0, s) }
            else Some (mc, s) } }"

section \<open>Initialisation (rte_mbuf.c)\<close>

definition zero_mbuf :: rte_mbuf where
  "zero_mbuf = \<lparr>mb_buf_addr = 0, mb_buf_physaddr = 0, mb_buf_len = 0, mb_data_off = 0, mb_refcnt = 0,
     mb_nb_segs = 0, mb_port = 0, mb_ol_flags = 0, mb_packet_type = 0, mb_pkt_len = 0, mb_data_len = 0,
     mb_vlan_tci = 0, mb_hash = 0, mb_seqn = 0, mb_vlan_tci_outer = 0, mb_userdata = 0, mb_pool = 0,
     mb_next = 0, mb_tx_offload = 0, mb_priv_size = 0, mb_timesync = 0, mb_offload_ops = 0\<rparr>"

text \<open>
  \<open>memset(m, 0, elt_size)\<close> for an element that has room for the structure, which its callers see to: the
  structure and the bytes behind it up to the size of the element.
\<close>
definition clear_elt :: "u64 \<Rightarrow> u32 \<Rightarrow> mbuf_mem \<Rightarrow> mbuf_mem" where
  "clear_elt a elt_size s =
     s\<lparr>mbuf_at := (mbuf_at s)(a \<mapsto> zero_mbuf),
       byte_at := (\<lambda>x. if unat (x - (a + sizeof_rte_mbuf)) < unat elt_size - unat sizeof_rte_mbuf
                       then Some 0 else byte_at s x)\<rparr>"

text \<open>
  The private data handed in is \<^term>\<open>None\<close> for \<open>NULL\<close>. The constructors of a pool and of its buffers assert
  that structure, private area and data room fit into an element; a call for which an assertion fails is
  \<^term>\<open>None\<close>: it panics with the checks, and without them writes behind the element.
\<close>
definition rte_pktmbuf_pool_init :: "u64 \<Rightarrow> rte_pktmbuf_pool_private option \<Rightarrow> mbuf_mem \<Rightarrow> mbuf_mem option" where
  "rte_pktmbuf_pool_init mp opaque_arg s =
     do { p \<leftarrow> pktpool_at s mp;
          let sz = unat sizeof_rte_mbuf;
          let user_mbp_priv = (case opaque_arg of
                None \<Rightarrow> \<lparr>mbuf_data_room_size =
                          (if unat (mp_elt_size p) > sz then ucast (mp_elt_size p - of_nat sz) else 0),
                        mbuf_priv_size = 0\<rparr>
              | Some u \<Rightarrow> u);
          if unat (mp_elt_size p) < sz
             \<or> unat (mp_elt_size p) < sz + unat (mbuf_data_room_size user_mbp_priv) + unat (mbuf_priv_size user_mbp_priv)
          then None
          else Some (s\<lparr>pktpool_priv := (pktpool_priv s)(mp \<mapsto> user_mbp_priv)\<rparr>) }"

definition rte_pktmbuf_init :: "u64 \<Rightarrow> u64 \<Rightarrow> mbuf_mem \<Rightarrow> mbuf_mem option" where
  "rte_pktmbuf_init mp a s =
     do { p \<leftarrow> pktpool_at s mp;
          priv_size \<leftarrow> rte_pktmbuf_priv_size s mp;
          let mbuf_size = sizeof_rte_mbuf + ucast priv_size;
          buf_len \<leftarrow> rte_pktmbuf_data_room_size s mp;
          if RTE_ALIGN (unat priv_size) RTE_MBUF_PRIV_ALIGN \<noteq> unat priv_size \<or> unat (mp_elt_size p) < unat mbuf_size then None
          else do {
            let s = clear_elt a (mp_elt_size p) s;
            phys \<leftarrow> rte_mempool_virt2phy s mp a;
            mbuf_upd (\<lambda>m. m\<lparr>mb_priv_size := priv_size, mb_buf_addr := a + mbuf_size,
                mb_buf_physaddr := phys + mbuf_size, mb_buf_len := buf_len,
                mb_data_off := min RTE_PKTMBUF_HEADROOM buf_len, mb_pool := mp, mb_nb_segs := 1,
                mb_port := 0xff\<rparr>) a s } }"

definition rte_ctrlmbuf_init :: "u64 \<Rightarrow> u64 \<Rightarrow> mbuf_mem \<Rightarrow> mbuf_mem option" where
  "rte_ctrlmbuf_init mp a s =
     do { s \<leftarrow> rte_pktmbuf_init mp a s;
          mbuf_upd (\<lambda>m. m\<lparr>mb_ol_flags := mb_ol_flags m OR CTRL_MBUF_FLAG\<rparr>) a s }"

primrec segs_loop :: "nat \<Rightarrow> u64 \<Rightarrow> mbuf_mem \<Rightarrow> nat option" where
  "segs_loop 0 a s = Some 0"
| "segs_loop (Suc n) a s =
     (if a \<noteq> 0 then do { m \<leftarrow> mbuf_at s a; segs_loop n (mb_next m) s } else Some (Suc n))"

text \<open>False is \<open>rte_panic\<close>.\<close>
definition rte_mbuf_sanity_check :: "u64 \<Rightarrow> bool \<Rightarrow> mbuf_mem \<Rightarrow> bool option" where
  "rte_mbuf_sanity_check a is_header s =
     (if a = 0 then Some False
      else do {
        m \<leftarrow> mbuf_at s a;
        if mb_pool m = 0 \<or> mb_buf_physaddr m = 0 \<or> mb_buf_addr m = 0
           \<or> mb_refcnt m = 0 \<or> mb_refcnt m = 0xffff then Some False
        else if \<not> is_header then Some True
        else do { n \<leftarrow> segs_loop (unat (mb_nb_segs m)) a s; Some (n = 0) } })"

section \<open>Packets as lists of segments\<close>

text \<open>The addresses of the segments of the packet at \<open>a\<close>.\<close>
fun segs :: "(u64 \<rightharpoonup> rte_mbuf) \<Rightarrow> u64 \<Rightarrow> u64 list \<Rightarrow> bool" where
  "segs h a [] \<longleftrightarrow> a = 0"
| "segs h a (b # bs) \<longleftrightarrow> a = b \<and> a \<noteq> 0 \<and> (case h a of None \<Rightarrow> False | Some m \<Rightarrow> segs h (mb_next m) bs)"

lemma segs_null [simp]: "segs h 0 as \<longleftrightarrow> as = []"
  by (cases as) auto

lemma segs_unique: "segs h a as \<Longrightarrow> segs h a bs \<Longrightarrow> as = bs"
proof (induction as arbitrary: a bs)
  case (Cons x as)
  then show ?case by (cases bs) (auto split: option.splits)
qed simp

lemma segs_append: "segs h a (bs @ c # cs) \<Longrightarrow> segs h c (c # cs)"
proof (induction bs arbitrary: a)
  case (Cons b bs)
  obtain m where "h a = Some m" "segs h (mb_next m) (bs @ c # cs)" using Cons.prems by (auto split: option.splits)
  then show ?case using Cons.IH by blast
qed simp

lemma segs_distinct: "segs h a as \<Longrightarrow> distinct as"
proof (induction as arbitrary: a)
  case (Cons x as)
  then obtain m where m: "h x = Some m" "segs h (mb_next m) as" by (auto split: option.splits)
  have "x \<notin> set as"
  proof
    assume "x \<in> set as"
    then obtain us vs where u: "as = us @ x # vs" by (meson split_list)
    then have "segs h x (x # vs)" using m(2) segs_append by metis
    then have "x # as = x # vs" using Cons.prems segs_unique by (metis segs.simps(2))
    then show False using u by simp
  qed
  then show ?case using Cons m(2) by simp
qed simp

lemma segs_cong: "segs h a as \<Longrightarrow> (\<forall>b\<in>set as. h' b = h b) \<Longrightarrow> segs h' a as"
  by (induction as arbitrary: a) (auto split: option.splits)

lemma segs_mem: "segs h a as \<Longrightarrow> b \<in> set as \<Longrightarrow> b \<noteq> 0 \<and> h b \<noteq> None"
  by (induction as arbitrary: a) (auto split: option.splits)

section \<open>Freeing a packet\<close>

text \<open>What dropping a reference does to a direct buffer, and when it was the last one.\<close>
definition last_ref :: "rte_mbuf \<Rightarrow> bool" where
  "last_ref m \<longleftrightarrow> mb_refcnt m = 1"

definition released :: "rte_mbuf \<Rightarrow> rte_mbuf" where
  "released m = (if last_ref m then m\<lparr>mb_refcnt := 0, mb_next := 0\<rparr> else m\<lparr>mb_refcnt := mb_refcnt m - 1\<rparr>)"

text \<open>The buffers among \<open>as\<close> that go back to the pool at \<open>p\<close>.\<close>
definition returned :: "(u64 \<rightharpoonup> rte_mbuf) \<Rightarrow> u64 \<Rightarrow> u64 list \<Rightarrow> u64 list" where
  "returned h p as = filter (\<lambda>b. case h b of None \<Rightarrow> False | Some m \<Rightarrow> last_ref m \<and> mb_pool m = p) as"

text \<open>Every pool is well-formed and has room for the buffers of \<open>as\<close> that return to it.\<close>
definition pools_room :: "mbuf_mem \<Rightarrow> u64 list \<Rightarrow> bool" where
  "pools_room s as \<longleftrightarrow> (\<forall>p mp. pktpool_at s p = Some mp \<longrightarrow>
     pool_inv mp \<and> size (pool_mset mp) + length (returned (mbuf_at s) p as) \<le> unat (mp_size mp))"

definition in_pool :: "mbuf_mem \<Rightarrow> u64 \<Rightarrow> bool" where
  "in_pool s a \<longleftrightarrow> (case mbuf_at s a of None \<Rightarrow> False
     | Some m \<Rightarrow> \<not> RTE_MBUF_INDIRECT m \<and> pktpool_at s (mb_pool m) \<noteq> None)"

lemma put_one:
  assumes "pool_inv mp" and "size (pool_mset mp) < unat (mp_size mp)"
  shows "\<exists>mp'. rte_mempool_put lcore mp a = Some mp' \<and> pool_inv mp' \<and> mp_size mp' = mp_size mp
    \<and> pool_mset mp' = add_mset a (pool_mset mp)"
proof -
  obtain mp' where "rte_mempool_put lcore mp a = Some mp'" "pool_inv mp'" "pool_frame mp mp'"
    "pool_mset mp' = add_mset a (pool_mset mp)"
    using mempool_put_result [OF assms(1), of 1 "[a]"] assms(2)
    unfolding rte_mempool_put_def rte_mempool_put_bulk_def by fastforce
  then show ?thesis using pool_frame_fields by metis
qed

text \<open>One segment: the structure is released, and the pool gets it back when it was the last reference.\<close>
lemma free_seg_direct:
  assumes m: "mbuf_at s a = Some m" "\<not> RTE_MBUF_INDIRECT m" "a \<noteq> 0"
    and mp: "pktpool_at s (mb_pool m) = Some mp" "pool_inv mp"
    and room: "last_ref m \<Longrightarrow> size (pool_mset mp) < unat (mp_size mp)"
  shows "\<exists>mp'. rte_pktmbuf_free_seg lcore a s =
      Some (s\<lparr>mbuf_at := (mbuf_at s)(a \<mapsto> released m), pktpool_at := (pktpool_at s)(mb_pool m \<mapsto> mp')\<rparr>)
    \<and> pool_inv mp' \<and> mp_size mp' = mp_size mp
    \<and> pool_mset mp' = pool_mset mp + (if last_ref m then {#a#} else {#})"
proof (cases "last_ref m")
  case True
  obtain mp' where put: "rte_mempool_put lcore mp a = Some mp'" "pool_inv mp'" "mp_size mp' = mp_size mp"
    "pool_mset mp' = add_mset a (pool_mset mp)"
    using put_one [OF mp(2) room [OF True]] by blast
  have "\<not> RTE_MBUF_INDIRECT (m\<lparr>mb_refcnt := 0\<rparr>)" using m(2) by (simp add: RTE_MBUF_INDIRECT_def)
  then show ?thesis using True m mp put
    by (intro exI [of _ mp']) (simp add: rte_pktmbuf_free_seg_def rte_pktmbuf_prefree_seg_def rte_mbuf_refcnt_update_def last_ref_def
        released_def mbuf_upd_def rte_mbuf_raw_free_def)
next
  case False
  have "mb_refcnt m + - 1 \<noteq> 0" using False by (simp add: last_ref_def)
  then show ?thesis using False m mp
    by (intro exI [of _ mp]) (simp add: rte_pktmbuf_free_seg_def rte_pktmbuf_prefree_seg_def
        rte_mbuf_refcnt_update_def last_ref_def released_def fun_upd_idem Let_def)
qed

lemma free_chain:
  assumes "segs (mbuf_at s) a as" and "list_all (in_pool s) as" and "pools_room s as"
  shows "\<exists>s'. rte_pktmbuf_free lcore a s = Some s'
    \<and> (\<forall>b. mbuf_at s' b = (if b \<in> set as then map_option released (mbuf_at s b) else mbuf_at s b))
    \<and> (\<forall>p. rel_option (\<lambda>mp mp'. pool_inv mp' \<and> mp_size mp' = mp_size mp
          \<and> pool_mset mp' = pool_mset mp + mset (returned (mbuf_at s) p as)) (pktpool_at s p) (pktpool_at s' p))"
  using assms
proof (induction as arbitrary: a s)
  case Nil
  then show ?case
    by (auto simp: rte_pktmbuf_free.simps returned_def pools_room_def intro!: option.rel_refl_strong)
next
  case (Cons x as)
  obtain m where x: "a = x" "a \<noteq> 0" and m: "mbuf_at s a = Some m" and sg: "segs (mbuf_at s) (mb_next m) as"
    using Cons.prems(1) by (auto split: option.splits)
  have a: "a \<notin> set as" using segs_distinct [OF Cons.prems(1)] x(1) by simp
  obtain mp where d: "\<not> RTE_MBUF_INDIRECT m" and mp: "pktpool_at s (mb_pool m) = Some mp"
    using Cons.prems(2) m x(1) by (auto simp: in_pool_def)
  have pr: "pool_inv mp" "last_ref m \<Longrightarrow> size (pool_mset mp) < unat (mp_size mp)"
    using Cons.prems(3) m mp x(1) by (fastforce simp: pools_room_def returned_def)+
  obtain mp' where f: "rte_pktmbuf_free_seg lcore a s =
      Some (s\<lparr>mbuf_at := (mbuf_at s)(a \<mapsto> released m), pktpool_at := (pktpool_at s)(mb_pool m \<mapsto> mp')\<rparr>)"
    and mp': "pool_inv mp'" "mp_size mp' = mp_size mp"
      "pool_mset mp' = pool_mset mp + (if last_ref m then {#a#} else {#})"
    using free_seg_direct [OF m d x(2) mp pr] by blast
  let ?s = "s\<lparr>mbuf_at := (mbuf_at s)(a \<mapsto> released m), pktpool_at := (pktpool_at s)(mb_pool m \<mapsto> mp')\<rparr>"
  have ret: "returned (mbuf_at ?s) p as = returned (mbuf_at s) p as" for p
    using a unfolding returned_def by (intro filter_cong) auto
  have ret_x: "returned (mbuf_at s) p (x # as) =
      (if last_ref m \<and> mb_pool m = p then [a] else []) @ returned (mbuf_at s) p as" for p
    using m x(1) by (simp add: returned_def)
  have s1: "segs (mbuf_at ?s) (mb_next m) as" using segs_cong [OF sg] a by simp
  have s2: "list_all (in_pool ?s) as"
    using Cons.prems(2) a by (auto simp: list_all_iff in_pool_def split: option.splits)
  have s3: "pools_room ?s as"
    unfolding pools_room_def ret using Cons.prems(3) [unfolded pools_room_def ret_x] mp mp' by (auto split: if_splits)
  obtain s' where s': "rte_pktmbuf_free lcore (mb_next m) ?s = Some s'"
    and mb: "\<forall>b. mbuf_at s' b = (if b \<in> set as then map_option released (mbuf_at ?s b) else mbuf_at ?s b)"
    and po: "\<forall>p. rel_option (\<lambda>mp mp'. pool_inv mp' \<and> mp_size mp' = mp_size mp
          \<and> pool_mset mp' = pool_mset mp + mset (returned (mbuf_at ?s) p as)) (pktpool_at ?s p) (pktpool_at s' p)"
    using Cons.IH [OF s1 s2 s3] by blast
  have "rte_pktmbuf_free lcore a s = Some s'"
    using x(2) m f s' by (simp add: rte_pktmbuf_free.simps [of lcore a])
  moreover have "mbuf_at s' b = (if b \<in> set (x # as) then map_option released (mbuf_at s b) else mbuf_at s b)" for b
    using mb [rule_format, of b] m x(1) a by auto
  moreover have "rel_option (\<lambda>mp mp'. pool_inv mp' \<and> mp_size mp' = mp_size mp
          \<and> pool_mset mp' = pool_mset mp + mset (returned (mbuf_at s) p (x # as))) (pktpool_at s p) (pktpool_at s' p)" for p
    using po [rule_format, of p] mp mp' unfolding ret ret_x by (auto simp: option_rel_Some1 split: if_splits elim!: option.rel_mono_strong)
  ultimately show ?case by blast
qed

section \<open>Attaching and freeing an indirect buffer\<close>

text \<open>A buffer at \<open>a\<close> whose data is behind its own structure, as \<open>rte_pktmbuf_init\<close> leaves it.\<close>
definition own_buffer :: "mbuf_mem \<Rightarrow> u64 \<Rightarrow> rte_mbuf \<Rightarrow> bool" where
  "own_buffer s a m \<longleftrightarrow> \<not> RTE_MBUF_INDIRECT m \<and>
     (case (pktpool_priv s (mb_pool m), rte_mempool_virt2phy s (mb_pool m) a) of
        (Some pv, Some ph) \<Rightarrow> mb_priv_size m = mbuf_priv_size pv \<and> mb_buf_len m = mbuf_data_room_size pv
          \<and> mb_buf_addr m = a + (sizeof_rte_mbuf + ucast (mbuf_priv_size pv))
          \<and> mb_buf_physaddr m = ph + (sizeof_rte_mbuf + ucast (mbuf_priv_size pv))
      | _ \<Rightarrow> False)"

lemma virt2phy_upd [simp]:
  "rte_mempool_virt2phy (s\<lparr>mbuf_at := f\<rparr>) = rte_mempool_virt2phy s"
  "rte_mempool_virt2phy (s\<lparr>pktpool_at := g\<rparr>) = rte_mempool_virt2phy s"
  "rte_mempool_virt2phy (s\<lparr>byte_at := b\<rparr>) = rte_mempool_virt2phy s"
  by (simp_all add: rte_mempool_virt2phy_def fun_eq_iff)

lemma own_buffer_indirect:
  assumes "own_buffer s a m"
  shows "rte_mbuf_from_indirect (attach_fields m i) = a"
  using assms by (auto simp: own_buffer_def rte_mbuf_from_indirect_def attach_fields_def split: option.splits)

lemma attach_is_indirect: "RTE_MBUF_INDIRECT (attach_fields m i)"
proof -
  have "bit ((mb_ol_flags m OR IND_ATTACHED_MBUF) AND IND_ATTACHED_MBUF) 62"
    by (simp add: IND_ATTACHED_MBUF_def bit_simps)
  then have "(mb_ol_flags m OR IND_ATTACHED_MBUF) AND IND_ATTACHED_MBUF \<noteq> 0" by (metis bit_0_eq bot_apply bot_bool_def)
  then show ?thesis by (simp add: RTE_MBUF_INDIRECT_def attach_fields_def)
qed

lemma attach_fields_refcnt [simp]:
  "attach_fields (m\<lparr>mb_refcnt := n\<rparr>) = attach_fields m" "mb_refcnt (attach_fields m i) = mb_refcnt i"
  "mb_pool (attach_fields m i) = mb_pool i"
  by (simp_all add: attach_fields_def fun_eq_iff)

lemma attach_direct:
  assumes "mbuf_at s a = Some m" and "own_buffer s a m" and "mbuf_at s mi = Some i" and "mi \<noteq> a"
  shows "rte_pktmbuf_attach mi a s =
    Some (s\<lparr>mbuf_at := (mbuf_at s)(a \<mapsto> m\<lparr>mb_refcnt := mb_refcnt m + 1\<rparr>, mi \<mapsto> attach_fields m i)\<rparr>)"
  using assms by (auto simp: rte_pktmbuf_attach_def own_buffer_def rte_mbuf_refcnt_update_def mbuf_upd_def Let_def)

text \<open>What is left of an indirect buffer after it has been freed.\<close>
definition detached :: "rte_mbuf \<Rightarrow> rte_mbuf \<Rightarrow> rte_mbuf" where
  "detached m i = (attach_fields m i)\<lparr>mb_refcnt := 0, mb_priv_size := mb_priv_size i, mb_buf_addr := mb_buf_addr i,
     mb_buf_physaddr := mb_buf_physaddr i, mb_buf_len := mb_buf_len i,
     mb_data_off := min RTE_PKTMBUF_HEADROOM (mb_buf_len i), mb_data_len := 0, mb_ol_flags := 0, mb_next := 0\<rparr>"

lemma detached_fields:
  "(attach_fields m i)\<lparr>mb_refcnt := n, mb_priv_size := mb_priv_size i, mb_buf_addr := mb_buf_addr i,
     mb_buf_physaddr := mb_buf_physaddr i, mb_buf_len := mb_buf_len i,
     mb_data_off := min RTE_PKTMBUF_HEADROOM (mb_buf_len i), mb_data_len := 0, mb_ol_flags := 0\<rparr> =
   (detached m i)\<lparr>mb_refcnt := n\<rparr>"
  by (cases i) (simp add: detached_def attach_fields_def)

lemma detach_attached:
  assumes "mbuf_at s mi = Some ((attach_fields m i)\<lparr>mb_refcnt := n\<rparr>)" and "own_buffer s mi i"
  shows "rte_pktmbuf_detach mi s = Some (s\<lparr>mbuf_at := (mbuf_at s)(mi \<mapsto> (detached m i)\<lparr>mb_refcnt := n\<rparr>)\<rparr>)"
  using assms detached_fields [where m = m and i = i and n = n]
  by (auto simp: own_buffer_def rte_pktmbuf_detach_def rte_pktmbuf_priv_size_def rte_pktmbuf_data_room_size_def
      mbuf_upd_def Let_def split: option.splits)

lemma free_attached:
  assumes a: "mbuf_at s a = Some (m\<lparr>mb_refcnt := mb_refcnt m + 1\<rparr>)" "own_buffer s a m" "mb_refcnt m \<noteq> 0"
    and mi: "mbuf_at s mi = Some (attach_fields m i)" "own_buffer s mi i" "last_ref i" "mi \<noteq> a" "mi \<noteq> 0"
    and mp: "pktpool_at s (mb_pool i) = Some mp" "pool_inv mp" "size (pool_mset mp) < unat (mp_size mp)"
  shows "\<exists>mp'. rte_pktmbuf_free_seg lcore mi s =
      Some (s\<lparr>mbuf_at := (mbuf_at s)(a \<mapsto> m, mi \<mapsto> detached m i), pktpool_at := (pktpool_at s)(mb_pool i \<mapsto> mp')\<rparr>)
    \<and> pool_inv mp' \<and> pool_mset mp' = add_mset mi (pool_mset mp)"
proof -
  obtain mp' where put: "rte_mempool_put lcore mp mi = Some mp'" "pool_inv mp'"
    "pool_mset mp' = add_mset mi (pool_mset mp)"
    using put_one [OF mp(2,3)] by blast
  let ?s1 = "s\<lparr>mbuf_at := (mbuf_at s)(mi \<mapsto> (attach_fields m i)\<lparr>mb_refcnt := 0\<rparr>)\<rparr>"
  let ?s2 = "?s1\<lparr>mbuf_at := (mbuf_at ?s1)(mi \<mapsto> (detached m i)\<lparr>mb_refcnt := 0\<rparr>)\<rparr>"
  have 1: "rte_mbuf_refcnt_update mi (- 1) s = Some (0, ?s1)"
    using mi(1,3) by (simp add: rte_mbuf_refcnt_update_def last_ref_def)
  have 2: "rte_pktmbuf_detach mi ?s1 = Some ?s2"
    using mi(2) by (intro detach_attached) (simp_all add: own_buffer_def)
  have 3: "rte_mbuf_refcnt_update a (- 1) ?s2 = Some (mb_refcnt m, ?s2\<lparr>mbuf_at := (mbuf_at ?s2)(a \<mapsto> m)\<rparr>)"
    using a(1,3) mi(4) by (simp add: rte_mbuf_refcnt_update_def Let_def)
  have ind: "RTE_MBUF_INDIRECT ((attach_fields m i)\<lparr>mb_refcnt := 0\<rparr>)"
    "rte_mbuf_from_indirect ((attach_fields m i)\<lparr>mb_refcnt := 0\<rparr>) = a"
    using attach_is_indirect [of m i] own_buffer_indirect [OF a(2), of i]
    by (simp_all add: RTE_MBUF_INDIRECT_def rte_mbuf_from_indirect_def)
  have d: "(detached m i)\<lparr>mb_refcnt := 0\<rparr> = detached m i" "(detached m i)\<lparr>mb_next := 0\<rparr> = detached m i"
    "mb_pool (detached m i) = mb_pool i" by (simp_all add: detached_def)
  show ?thesis
    using put mp(1) mi(4,5) a(3) ind 2 3
    by (intro exI [of _ mp'])
      (simp add: rte_pktmbuf_free_seg_def rte_pktmbuf_prefree_seg_def 1 mbuf_upd_def rte_mbuf_raw_free_def d fun_upd_twist Let_def)
qed

section \<open>The data stays in its buffer\<close>

definition room_ok :: "rte_mbuf \<Rightarrow> bool" where
  "room_ok m \<longleftrightarrow> unat (mb_data_off m) + unat (mb_data_len m) \<le> unat (mb_buf_len m)"

lemma lastseg_segs:
  assumes "segs (mbuf_at s) a as" and "as \<noteq> []"
  shows "rte_pktmbuf_lastseg a s = Some (last as)"
  using assms
proof (induction as arbitrary: a)
  case (Cons x as)
  then obtain m where m: "mbuf_at s x = Some m" "a = x" "segs (mbuf_at s) (mb_next m) as" by (auto split: option.splits)
  then show ?case using Cons.IH [OF m(3)]
    by (cases as) (auto simp: rte_pktmbuf_lastseg.simps [of x] split: option.splits)
qed simp

lemma unat_add_u16: "unat (x :: u16) + unat y \<le> unat (z :: u16) \<Longrightarrow> unat (x + y) = unat x + unat y"
  using unsigned_less [of z, where ?'a = nat] by (intro unat_add_lem [THEN iffD1]) (simp add: le_less_trans)

lemma tailroom_le:
  assumes "unat (d :: u16) + unat l \<le> unat b"
  shows "n \<le> b - d - l \<longleftrightarrow> unat n + (unat d + unat l) \<le> unat b"
proof -
  have "unat (b - d) = unat b - unat d" using assms by (intro unat_sub) (simp add: word_le_nat_alt)
  moreover from this have "unat (b - d - l) = unat b - unat d - unat l"
    using assms by (subst unat_sub) (simp_all add: word_le_nat_alt)
  ultimately show ?thesis using assms by (auto simp: word_le_nat_alt)
qed

lemma segs_next:
  assumes "\<And>b. map_option mb_next (h' b) = map_option mb_next (h b)"
  shows "segs h a as \<Longrightarrow> segs h' a as"
proof (induction as arbitrary: a)
  case (Cons x as)
  then obtain m where m: "h x = Some m" "a = x" "x \<noteq> 0" "segs h (mb_next m) as" by (auto split: option.splits)
  then obtain m' where "h' x = Some m'" "mb_next m' = mb_next m" using assms [of x] by auto
  then show ?case using m Cons.IH by simp
qed simp

text \<open>Making room in front and giving it back is the identity; the new data is in the buffer.\<close>
lemma prepend_adj:
  assumes "mbuf_at s a = Some m" and "room_ok m" and "len \<le> mb_data_off m"
  shows "\<exists>s' m'. rte_pktmbuf_prepend a len s = Some (rte_pktmbuf_mtod m - ucast len, s') \<and> mbuf_at s' a = Some m'
    \<and> room_ok m' \<and> unat (mb_data_len m') = unat (mb_data_len m) + unat len
    \<and> rte_pktmbuf_adj a len s' = Some (rte_pktmbuf_mtod m, s)"
proof -
  let ?m = "m\<lparr>mb_data_off := mb_data_off m - len, mb_data_len := mb_data_len m + len, mb_pkt_len := mb_pkt_len m + ucast len\<rparr>"
  let ?s = "s\<lparr>mbuf_at := (mbuf_at s)(a \<mapsto> ?m)\<rparr>"
  have off: "unat (mb_data_off m - len) = unat (mb_data_off m) - unat len" "unat len \<le> unat (mb_data_off m)"
    using assms(3) by (simp_all add: unat_sub word_le_nat_alt)
  have dl: "unat (mb_data_len m + len) = unat (mb_data_len m) + unat len"
    using assms(2) off(2) by (intro unat_add_u16 [of _ _ "mb_buf_len m"]) (simp add: room_ok_def)
  have uo: "(ucast (mb_data_off m - len) :: u64) = ucast (mb_data_off m) - ucast len"
    using off by (metis of_nat_diff of_nat_unat)
  have "rte_pktmbuf_prepend a len s = Some (rte_pktmbuf_mtod m - ucast len, ?s)"
    using assms(1,3) uo by (simp add: rte_pktmbuf_prepend_def rte_pktmbuf_headroom_def rte_pktmbuf_mtod_def leD)
  moreover have "rte_pktmbuf_adj a len ?s = Some (rte_pktmbuf_mtod m, s)"
    using assms(1) dl by (simp add: rte_pktmbuf_adj_def rte_pktmbuf_mtod_def word_less_nat_alt not_less fun_upd_idem Let_def)
  ultimately show ?thesis
    using off dl assms(2) by (intro exI [of _ ?s] exI [of _ ?m]) (simp add: room_ok_def)
qed

lemma append_trim:
  assumes "segs (mbuf_at s) a as" and "as \<noteq> []" and "mbuf_at s (last as) = Some m" and "room_ok m"
    and "len \<le> rte_pktmbuf_tailroom m"
  shows "\<exists>s' m'. rte_pktmbuf_append a len s = Some (rte_pktmbuf_mtod m + ucast (mb_data_len m), s')
    \<and> mbuf_at s' (last as) = Some m' \<and> room_ok m' \<and> unat (mb_data_len m') = unat (mb_data_len m) + unat len
    \<and> rte_pktmbuf_trim a len s' = Some (0, s)"
proof -
  let ?l = "last as"
  obtain h where h: "mbuf_at s a = Some h" using assms(1,2) by (cases as) (auto split: option.splits)
  let ?f = "\<lambda>m. m\<lparr>mb_data_len := mb_data_len m + len\<rparr>" and ?g = "\<lambda>m. m\<lparr>mb_pkt_len := mb_pkt_len m + ucast len\<rparr>"
  let ?h = "(mbuf_at s)(?l \<mapsto> ?f m)"
  let ?s = "s\<lparr>mbuf_at := ?h(a \<mapsto> ?g (the (?h a)))\<rparr>"
  have nx: "map_option mb_next (mbuf_at ?s b) = map_option mb_next (mbuf_at s b)" for b
    using assms(3) h by auto
  have "segs (mbuf_at ?s) a as" by (rule segs_next [OF _ assms(1)]) (rule nx)
  then have l: "rte_pktmbuf_lastseg a s = Some ?l" "rte_pktmbuf_lastseg a ?s = Some ?l"
    using lastseg_segs assms(1,2) by blast+
  have tr: "unat len + (unat (mb_data_off m) + unat (mb_data_len m)) \<le> unat (mb_buf_len m)"
    using assms(4,5) by (simp add: room_ok_def rte_pktmbuf_tailroom_def rte_pktmbuf_headroom_def tailroom_le)
  then have dl: "unat (mb_data_len m + len) = unat (mb_data_len m) + unat len"
    by (intro unat_add_u16 [of _ _ "mb_buf_len m"]) simp
  have "rte_pktmbuf_append a len s = Some (rte_pktmbuf_mtod m + ucast (mb_data_len m), ?s)"
    using assms(3,5) h by (simp add: rte_pktmbuf_append_def l mbuf_upd_def leD)
  moreover have "rte_pktmbuf_trim a len ?s = Some (0, s)"
    unfolding rte_pktmbuf_trim_def l(2) bind.bind_lunit
    using assms(3) h dl by (cases "a = ?l") (simp_all add: mbuf_upd_def word_less_nat_alt fun_upd_idem fun_upd_twist)
  ultimately show ?thesis
    using dl tr assms(3) h by (intro exI [of _ ?s] exI [of _ "if ?l = a then ?g (?f m) else ?f m"]) (simp add: room_ok_def)
qed

section \<open>A concrete memory for the witnesses\<close>

definition void_pool :: "u64 rte_mempool" where
  "void_pool = \<lparr>mp_name = ''MProc_pktmbuf_pool'',
     mp_ring = \<lparr>ring_name = ''MP_MProc_pktmbuf_pool'', ring_flags = 0, ring_memzone = None,
       prod = \<lparr>prod_watermark = 16, prod_sp_enqueue = False, prod_size = 16, prod_mask = 15,
               prod_head = 0, prod_tail = 0\<rparr>,
       cons = \<lparr>cons_sc_dequeue = False, cons_size = 16, cons_mask = 15, cons_head = 0, cons_tail = 0\<rparr>,
       ring_slots = replicate 16 0\<rparr>,
     mp_flags = 0, mp_size = 8, mp_cache_size = 0, mp_cache_flushthresh = 0,
     mp_elt_size = 2304, mp_header_size = 64, mp_trailer_size = 0, mp_private_data_size = 4,
     mp_local_cache = replicate 128 \<lparr>cache_len = 0, cache_objs = replicate 1536 0\<rparr>\<rparr>"

lemma void_pool_inv: "pool_inv void_pool"
  by (simp add: pool_inv_def void_pool_def ring_inv_def POWEROF2_def RTE_RING_SZ_MASK_def Let_def cache_ok_def
      RTE_MEMPOOL_CACHE_MAX_SIZE_def RTE_MAX_LCORE_def ring_cap_def list_all_iff)

lemma void_pool_mset: "pool_mset void_pool = {#}"
proof -
  have "size (pool_mset void_pool) = 0"
    unfolding pool_mset_size [OF void_pool_inv] length_ring_list by (simp add: void_pool_def)
  then show ?thesis by simp
qed

text \<open>A buffer as the pool makes it, on loan with the given reference count and next segment.\<close>
definition lent :: "u64 \<Rightarrow> u16 \<Rightarrow> u64 \<Rightarrow> rte_mbuf" where
  "lent a n nx = zero_mbuf\<lparr>mb_refcnt := n, mb_next := nx, mb_pool := 0x100, mb_buf_len := 2176, mb_data_off := 128,
     mb_data_len := 60, mb_pkt_len := 60, mb_buf_addr := a + 128, mb_buf_physaddr := 0x40000000 + (a - 0x1000) + 128,
     mb_nb_segs := 1\<rparr>"

text \<open>A packet of two segments, the second of which has another reference, and a single buffer.\<close>
definition mem_3 :: mbuf_mem where
  "mem_3 = \<lparr>mbuf_at = [0x1000 \<mapsto> lent 0x1000 1 0x2000, 0x2000 \<mapsto> lent 0x2000 2 0, 0x3000 \<mapsto> lent 0x3000 1 0],
     pktpool_at = [0x100 \<mapsto> void_pool],
     pktpool_priv = [0x100 \<mapsto> \<lparr>mbuf_data_room_size = 2176, mbuf_priv_size = 0\<rparr>],
     pktpool_pages = [0x100 \<mapsto> \<lparr>mp_elt_va_start = 0x1000, mp_pg_shift = 30, mp_pg_mask = 0x3fffffff,
                                mp_elt_pa = [0x40000000]\<rparr>],
     byte_at = Map.empty, has_hugepages = True, mem_virt2phy = (\<lambda>_. 0)\<rparr>"

lemma lent_direct [simp]: "\<not> RTE_MBUF_INDIRECT (lent a n nx)"
  by (simp add: RTE_MBUF_INDIRECT_def lent_def zero_mbuf_def)

lemma mem_3_own: "own_buffer mem_3 0x2000 (lent 0x2000 2 0)" "own_buffer mem_3 0x3000 (lent 0x3000 1 0)"
  by (simp_all add: own_buffer_def mem_3_def rte_mempool_virt2phy_def aget_def sizeof_rte_mbuf_def lent_def zero_mbuf_def
      RTE_MBUF_INDIRECT_def)

section \<open>Properties\<close>

text \<open>
  C16. Freeing a packet returns, whatever the number of its segments: every segment loses one
  reference, exactly the segments with their last reference are put back, each to its own pool,
  and no other buffer and no other pool changes. The segments are direct buffers of known pools,
  and no pool gets more objects than it has.
\<close>
theorem pktmbuf_free_returns:
  assumes "segs (mbuf_at s) a as" and "list_all (in_pool s) as" and "pools_room s as"
  shows "\<exists>s'. rte_pktmbuf_free lcore a s = Some s'
    \<and> (\<forall>b. mbuf_at s' b = (if b \<in> set as then map_option released (mbuf_at s b) else mbuf_at s b))
    \<and> (\<forall>p. rel_option (\<lambda>mp mp'. pool_inv mp' \<and> mp_size mp' = mp_size mp
          \<and> pool_mset mp' = pool_mset mp + mset (returned (mbuf_at s) p as)) (pktpool_at s p) (pktpool_at s' p))"
  by (rule free_chain [OF assms])

theorem pktmbuf_free_returns_witness:
  "\<exists>s'. rte_pktmbuf_free 0 0x1000 mem_3 = Some s' \<and> map_option mb_refcnt (mbuf_at s' 0x1000) = Some 0
    \<and> map_option mb_refcnt (mbuf_at s' 0x2000) = Some 1
    \<and> map_option pool_mset (pktpool_at s' 0x100) = Some {#0x1000#}"
proof -
  have "segs (mbuf_at mem_3) 0x1000 [0x1000, 0x2000]"
    by (simp add: mem_3_def lent_def)
  moreover have "list_all (in_pool mem_3) [0x1000, 0x2000]"
    by (simp add: in_pool_def mem_3_def) (simp add: lent_def)
  moreover have "pools_room mem_3 [0x1000, 0x2000]"
    using void_pool_inv
    by (simp add: pools_room_def mem_3_def void_pool_mset returned_def last_ref_def lent_def) (simp add: void_pool_def)
  ultimately obtain s' where s': "rte_pktmbuf_free 0 0x1000 mem_3 = Some s'"
    "\<forall>b. mbuf_at s' b = (if b \<in> set [0x1000, 0x2000] then map_option released (mbuf_at mem_3 b) else mbuf_at mem_3 b)"
    "\<forall>p. rel_option (\<lambda>mp mp'. pool_inv mp' \<and> mp_size mp' = mp_size mp
          \<and> pool_mset mp' = pool_mset mp + mset (returned (mbuf_at mem_3) p [0x1000, 0x2000]))
        (pktpool_at mem_3 p) (pktpool_at s' p)"
    using pktmbuf_free_returns [of mem_3 "0x1000" "[0x1000, 0x2000]" 0] by blast
  then show ?thesis using s'(3) [rule_format, of "0x100"]
    by (auto simp: mem_3_def returned_def last_ref_def released_def lent_def void_pool_mset option_rel_Some1)
qed

text \<open>
  C34. Attaching a buffer to the data of another one and freeing it again restores everything: in
  between it is indirect, shows the data of the other buffer and holds one reference to it; after
  it the other buffer is as it was, the freed one has its own data area back and is in its pool,
  and no other buffer or pool changes.
\<close>
theorem attach_free_roundtrip:
  assumes "mbuf_at s a = Some m" and "own_buffer s a m" and "mb_refcnt m \<noteq> 0"
    and "mbuf_at s mi = Some i" and "own_buffer s mi i" and "last_ref i" and "mi \<noteq> a" and "mi \<noteq> 0"
    and "pktpool_at s (mb_pool i) = Some mp" and "pool_inv mp" and "size (pool_mset mp) < unat (mp_size mp)"
  shows "\<exists>s1 s2 i1 i2 mp'. rte_pktmbuf_attach mi a s = Some s1
    \<and> mbuf_at s1 mi = Some i1 \<and> RTE_MBUF_INDIRECT i1 \<and> rte_mbuf_from_indirect i1 = a
    \<and> rte_pktmbuf_mtod i1 = rte_pktmbuf_mtod m \<and> mb_data_len i1 = mb_data_len m
    \<and> mbuf_at s1 a = Some (m\<lparr>mb_refcnt := mb_refcnt m + 1\<rparr>)
    \<and> rte_pktmbuf_free_seg lcore mi s1 = Some s2
    \<and> s2 = s\<lparr>mbuf_at := (mbuf_at s)(mi \<mapsto> i2), pktpool_at := (pktpool_at s)(mb_pool i \<mapsto> mp')\<rparr>
    \<and> own_buffer s2 mi i2 \<and> mb_refcnt i2 = 0 \<and> mb_next i2 = 0
    \<and> pool_inv mp' \<and> pool_mset mp' = add_mset mi (pool_mset mp)"
proof -
  let ?s1 = "s\<lparr>mbuf_at := (mbuf_at s)(a \<mapsto> m\<lparr>mb_refcnt := mb_refcnt m + 1\<rparr>, mi \<mapsto> attach_fields m i)\<rparr>"
  have at: "rte_pktmbuf_attach mi a s = Some ?s1" by (rule attach_direct [OF assms(1,2,4,7)])
  obtain mp' where f: "rte_pktmbuf_free_seg lcore mi ?s1 =
      Some (?s1\<lparr>mbuf_at := (mbuf_at ?s1)(a \<mapsto> m, mi \<mapsto> detached m i), pktpool_at := (pktpool_at ?s1)(mb_pool i \<mapsto> mp')\<rparr>)"
    and mp': "pool_inv mp'" "pool_mset mp' = add_mset mi (pool_mset mp)"
    using free_attached [of ?s1 a m mi i mp lcore] assms by (auto simp: own_buffer_def)
  let ?s2 = "s\<lparr>mbuf_at := (mbuf_at s)(mi \<mapsto> detached m i), pktpool_at := (pktpool_at s)(mb_pool i \<mapsto> mp')\<rparr>"
  have "(mbuf_at ?s1)(a \<mapsto> m, mi \<mapsto> detached m i) = (mbuf_at s)(mi \<mapsto> detached m i)"
    using assms(1,7) by (auto simp: fun_eq_iff)
  then have f2: "rte_pktmbuf_free_seg lcore mi ?s1 = Some ?s2" using f by simp
  have "own_buffer ?s2 mi (detached m i)"
    using assms(5) by (auto simp: own_buffer_def detached_def RTE_MBUF_INDIRECT_def split: option.splits)
  then show ?thesis
    using at f2 mp' assms(7) attach_is_indirect [of m i] own_buffer_indirect [OF assms(2), of i]
    by (intro exI [of _ ?s1] exI [of _ ?s2] exI [of _ "attach_fields m i"] exI [of _ "detached m i"] exI [of _ mp'])
      (simp add: detached_def rte_pktmbuf_mtod_def attach_fields_def)
qed

theorem attach_free_roundtrip_witness:
  "\<exists>s1 s2. rte_pktmbuf_attach 0x3000 0x2000 mem_3 = Some s1 \<and> rte_pktmbuf_free_seg 0 0x3000 s1 = Some s2
    \<and> map_option mb_refcnt (mbuf_at s1 0x2000) = Some 3 \<and> map_option mb_refcnt (mbuf_at s2 0x2000) = Some 2
    \<and> map_option pool_mset (pktpool_at s2 0x100) = Some {#0x3000#}"
  using attach_free_roundtrip [of mem_3 "0x2000" "lent 0x2000 2 0" "0x3000" "lent 0x3000 1 0" void_pool 0]
    mem_3_own void_pool_inv void_pool_mset
  by (auto simp: mem_3_def lent_def last_ref_def void_pool_def)

text \<open>
  Adding room to a packet, in front or at the end of its last segment, gives the address where
  the new bytes start and keeps the data of the segment inside its buffer with an exact 16-bit length;
  taking the same number of bytes away again restores the packet exactly. More than the room there is
  is refused with no change.
\<close>
theorem data_room_roundtrip:
  assumes "segs (mbuf_at s) a as" and "a \<noteq> 0" and "mbuf_at s a = Some h" and "room_ok h"
    and "mbuf_at s (last as) = Some m" and "room_ok m"
  shows "(if len \<le> rte_pktmbuf_headroom h
     then \<exists>s' h'. rte_pktmbuf_prepend a len s = Some (rte_pktmbuf_mtod h - ucast len, s') \<and> mbuf_at s' a = Some h'
        \<and> room_ok h' \<and> unat (mb_data_len h') = unat (mb_data_len h) + unat len
        \<and> rte_pktmbuf_adj a len s' = Some (rte_pktmbuf_mtod h, s)
     else rte_pktmbuf_prepend a len s = Some (0, s))
   \<and> (if len \<le> rte_pktmbuf_tailroom m
     then \<exists>s' m'. rte_pktmbuf_append a len s = Some (rte_pktmbuf_mtod m + ucast (mb_data_len m), s')
        \<and> mbuf_at s' (last as) = Some m' \<and> room_ok m' \<and> unat (mb_data_len m') = unat (mb_data_len m) + unat len
        \<and> rte_pktmbuf_trim a len s' = Some (0, s)
     else rte_pktmbuf_append a len s = Some (0, s))" (is "?pre \<and> ?app")
proof
  have ne: "as \<noteq> []" using assms(1,2) by auto
  show ?pre
    using prepend_adj [OF assms(3,4), of len] assms(3)
    by (cases "len \<le> mb_data_off h") (auto simp: rte_pktmbuf_headroom_def rte_pktmbuf_prepend_def)
  show ?app
    using append_trim [OF assms(1) ne assms(5,6), of len] assms(5) lastseg_segs [OF assms(1) ne]
    by (cases "len \<le> rte_pktmbuf_tailroom m") (auto simp: rte_pktmbuf_append_def)
qed

theorem data_room_roundtrip_witness:
  "(\<exists>s'. rte_pktmbuf_prepend 0x1000 14 mem_3 = Some (0x1100 - 14, s')
      \<and> rte_pktmbuf_adj 0x1000 14 s' = Some (0x1100, mem_3))
   \<and> (\<exists>s'. rte_pktmbuf_append 0x1000 4 mem_3 = Some (0x2100 + 60, s')
      \<and> rte_pktmbuf_trim 0x1000 4 s' = Some (0, mem_3))
   \<and> rte_pktmbuf_prepend 0x1000 129 mem_3 = Some (0, mem_3)"
proof -
  have s: "segs (mbuf_at mem_3) 0x1000 [0x1000, 0x2000]" by (simp add: mem_3_def lent_def)
  have m: "mbuf_at mem_3 0x1000 = Some (lent 0x1000 1 0x2000)" "mbuf_at mem_3 0x2000 = Some (lent 0x2000 2 0)"
    by (simp_all add: mem_3_def)
  have r: "room_ok (lent a n nx)" "rte_pktmbuf_headroom (lent a n nx) = 128" "rte_pktmbuf_tailroom (lent a n nx) = 1988"
    "rte_pktmbuf_mtod (lent a n nx) = a + 256" "mb_data_len (lent a n nx) = 60" for a n nx
    by (simp_all add: room_ok_def lent_def rte_pktmbuf_headroom_def rte_pktmbuf_tailroom_def rte_pktmbuf_mtod_def)
  note d = data_room_roundtrip [OF s _ m(1) r(1) _ r(1), of "0x2000" 2 0]
  show ?thesis using d [of 14] d [of 4] d [of 129] m(2) by (auto simp: r)
qed

end
