(* ===== verification/Spp_Memcpy.thy ===== *)
theory Spp_Memcpy
  imports Spp_Command Rte_Mbuf
begin

text \<open>
  The copying secondary process (\<open>sec_memcpy/sec_memcpy.c\<close>). It shares the table and the commands
  of \<open>sec_zerocpy\<close>; instead of handing on a received buffer it copies the packet into a buffer of a
  pool that belongs to the out port. This theory models the copy with the fields and the bytes of
  the buffers, the forwarding loop, and the command that assigns a pool to a port, and shows when
  the copy is faithful and keeps every buffer in its pool.
\<close>

section \<open>State\<close>

text \<open>The structures and the data bytes of the buffers, beside the state of the drivers.\<close>
record 'y mbuf_store =
  st_mbuf :: "u64 \<rightharpoonup> rte_mbuf"
  st_byte :: "u64 \<rightharpoonup> u8"
  st_dev :: 'y

type_synonym ('h, 'y) copy_eal = "('h, u64, 'y mbuf_store) spp_eal"

abbreviation store :: "('h, 'y) copy_eal \<Rightarrow> 'y mbuf_store" where
  "store e \<equiv> dev_priv (other_state e)"

definition set_store :: "'y mbuf_store \<Rightarrow> ('h, 'y) copy_eal \<Rightarrow> ('h, 'y) copy_eal" where
  "set_store st e = e\<lparr>other_state := (other_state e)\<lparr>dev_priv := st\<rparr>\<rparr>"

section \<open>Copying\<close>

text \<open>
  \<open>n\<close> bytes between areas that do not overlap, as \<open>rte_memcpy\<close> requires; \<^term>\<open>None\<close> when a byte of
  either area is no data of a buffer.
\<close>
definition rte_memcpy :: "u64 \<Rightarrow> u64 \<Rightarrow> nat \<Rightarrow> (u64 \<rightharpoonup> u8) \<Rightarrow> (u64 \<rightharpoonup> u8) option" where
  "rte_memcpy dst src n b =
     (if list_all (\<lambda>k. b (dst + of_nat k) \<noteq> None \<and> b (src + of_nat k) \<noteq> None) [0..<n]
      then Some (foldl (\<lambda>f k. f(dst + of_nat k := b (src + of_nat k))) b [0..<n])
      else None)"

definition copy_fields :: "rte_mbuf \<Rightarrow> rte_mbuf \<Rightarrow> rte_mbuf" where
  "copy_fields rxm txm =
     txm\<lparr>mb_data_off := mb_data_off rxm, mb_data_len := mb_data_len rxm, mb_port := mb_port rxm,
         mb_vlan_tci := mb_vlan_tci rxm, mb_tx_offload := mb_tx_offload rxm, mb_hash := mb_hash rxm,
         mb_next := 0, mb_pkt_len := mb_pkt_len rxm, mb_nb_segs := mb_nb_segs rxm,
         mb_ol_flags := mb_ol_flags rxm, mb_packet_type := mb_packet_type rxm\<rparr>"

definition copy_one :: "u64 \<Rightarrow> u64 \<Rightarrow> 'y mbuf_store \<Rightarrow> 'y mbuf_store option" where
  "copy_one rxm txm st =
     do { r \<leftarrow> st_mbuf st rxm;
          t \<leftarrow> st_mbuf st txm;
          let t = copy_fields r t;
          b \<leftarrow> rte_memcpy (rte_pktmbuf_mtod t) (rte_pktmbuf_mtod r) (unat (mb_data_len r)) (st_byte st);
          Some (st\<lparr>st_mbuf := (st_mbuf st)(txm \<mapsto> t), st_byte := b\<rparr>) }"

text \<open>\<open>k\<close> buffers from index \<open>i\<close> on.\<close>
fun copy_loop :: "nat \<Rightarrow> nat \<Rightarrow> u64 list \<Rightarrow> u64 list \<Rightarrow> 'y mbuf_store \<Rightarrow> 'y mbuf_store option" where
  "copy_loop 0 i rxm txm st = Some st"
| "copy_loop (Suc k) i rxm txm st =
     do { r \<leftarrow> aget rxm i;
          t \<leftarrow> aget txm i;
          st \<leftarrow> copy_one r t st;
          copy_loop k (i + 1) rxm txm st }"

text \<open>\<open>rte_mempool_put_bulk(rxm[0]->pool, rxm, n)\<close>\<close>
definition put_all_to_first :: "nat \<Rightarrow> u64 list \<Rightarrow> u32 \<Rightarrow> ('h, 'y) copy_eal \<Rightarrow> ('h, 'y) copy_eal option" where
  "put_all_to_first lcore rxm n e =
     do { m \<leftarrow> aget rxm 0;
          a \<leftarrow> mbuf_pool (other_state e) m;
          mp \<leftarrow> mempool_at (other_state e) a;
          mp \<leftarrow> rte_mempool_put_bulk lcore mp rxm n;
          Some (set_pool a mp e) }"

definition copy_mbufs ::
  "nat \<Rightarrow> u64 \<Rightarrow> u8 \<Rightarrow> u64 list \<Rightarrow> u64 list \<Rightarrow> ('h, 'y) copy_eal \<Rightarrow> (int \<times> u64 list \<times> ('h, 'y) copy_eal) option" where
  "copy_mbufs lcore pktmbuf_pool nb_mbuf rxm txm e =
     do { mp \<leftarrow> mempool_at (other_state e) pktmbuf_pool;
          (ret, txm, mp) \<leftarrow> rte_mempool_get_bulk lcore mp txm (ucast nb_mbuf);
          let e = set_pool pktmbuf_pool mp e;
          if ret \<noteq> 0
          then do { e \<leftarrow> put_all_to_first lcore rxm (ucast nb_mbuf) e;
                    Some (- 1, txm, e) }
          else do { st \<leftarrow> copy_loop (unat nb_mbuf) 0 rxm txm (store e);
                    e \<leftarrow> put_all_to_first lcore rxm (ucast nb_mbuf) (set_store st e);
                    Some (1, txm, e) } }"

section \<open>Forwarding\<close>

text \<open>
  One patch. The arrays \<open>bufs\<close> and \<open>m\<close> live through the whole loop; the count of received packets
  is cut to eight bits for the copy.
\<close>
definition copy_patch ::
  "(u64, 'y mbuf_store) drivers \<Rightarrow> nat \<Rightarrow> port list \<Rightarrow> u64 list \<Rightarrow> nat \<Rightarrow> port \<Rightarrow> u64 list \<Rightarrow> u64 list \<Rightarrow>
     ('h, 'y) copy_eal \<Rightarrow> (u64 list \<times> u64 list \<times> ('h, 'y) copy_eal) option" where
  "copy_patch oth lcore arr tx_pools in_port p bufs m e =
     do { (nb_rx, bufs, e) \<leftarrow> call_rx oth (port_rx_func p) e (of_nat in_port) 0 bufs MAX_PKT_BURST;
          if nb_rx = 0 then Some (bufs, m, e)
          else do {
            pool \<leftarrow> aget tx_pools (nat (port_out_port_id p));
            (ret, m, e) \<leftarrow> copy_mbufs lcore pool (ucast nb_rx) bufs m e;
            if ret < 0 then Some (bufs, m, e)
            else do {
              (nb_tx, e) \<leftarrow> call_tx_of oth arr (port_out_port_id p) e (word_of_int (port_out_port_id p)) 0 m nb_rx;
              e \<leftarrow> (if nb_tx < nb_rx
                   then free_unsent (mbuf_put lcore) m (unat nb_rx - unat nb_tx) (unat nb_tx) e
                   else Some e);
              Some (bufs, m, e) } } }"

fun forward_copy_loop ::
  "(u64, 'y mbuf_store) drivers \<Rightarrow> nat \<Rightarrow> port list \<Rightarrow> u64 list \<Rightarrow> nat list \<Rightarrow> u64 list \<Rightarrow> u64 list \<Rightarrow>
     ('h, 'y) copy_eal \<Rightarrow> ('h, 'y) copy_eal option" where
  "forward_copy_loop oth lcore arr tx_pools [] bufs m e = Some e"
| "forward_copy_loop oth lcore arr tx_pools (i # is) bufs m e =
     do { p \<leftarrow> aget arr i;
          if port_status p \<ge> 0 \<and> port_out_port_id p \<ge> 0
          then do { (bufs, m, e) \<leftarrow> copy_patch oth lcore arr tx_pools i p bufs m e;
                    forward_copy_loop oth lcore arr tx_pools is bufs m e }
          else forward_copy_loop oth lcore arr tx_pools is bufs m e }"

text \<open>\<open>z\<close> stands for the bytes on the stack the arrays start with.\<close>
definition forward_copy ::
  "(u64, 'y mbuf_store) drivers \<Rightarrow> nat \<Rightarrow> u64 \<Rightarrow> port list \<Rightarrow> u64 list \<Rightarrow> ('h, 'y) copy_eal \<Rightarrow> ('h, 'y) copy_eal option" where
  "forward_copy oth lcore z arr tx_pools e =
     forward_copy_loop oth lcore arr tx_pools [0..<RTE_MAX_ETHPORTS]
       (replicate (unat MAX_PKT_BURST) z) (replicate (unat MAX_PKT_BURST) z) e"

text \<open>\<open>add tx pool <name> <port>\<close>; an unknown pool is only logged.\<close>
definition cmd_add_tx_pool ::
  "('h, 'm, 'y) spp_eal \<Rightarrow> u64 list \<Rightarrow> string \<Rightarrow> nat option list \<Rightarrow> (u64 list \<times> ('h, 'm, 'y) spp_eal) option" where
  "cmd_add_tx_pool e tx_pools buf tk =
     do { name \<leftarrow> tok_str buf tk 3;
          (mp, e) \<leftarrow> rte_mempool_lookup e name;
          n \<leftarrow> tok_atoi buf tk 4;
          if mp = 0 then Some (tx_pools, e)
          else do { tx_pools \<leftarrow> aset tx_pools (unat (word_of_int n :: u16)) mp; Some (tx_pools, e) } }"

section \<open>The copy of bytes\<close>

lemma of_nat_add_inj:
  assumes "k < 2 ^ 64" and "j < 2 ^ 64" and "(d :: u64) + of_nat k = d + of_nat j"
  shows "k = j"
  using assms by (simp add: of_nat_inverse word_of_nat_eq_iff take_bit_nat_eq_self)

lemma memcpy_fold:
  fixes b :: "u64 \<rightharpoonup> u8"
  assumes "n \<le> 2 ^ 16"
  shows "\<And>k. k < n \<Longrightarrow> foldl (\<lambda>f k. f(dst + of_nat k := b (src + of_nat k))) b [0..<n] (dst + of_nat k) = b (src + of_nat k)"
    and "\<And>x. (\<And>k. k < n \<Longrightarrow> x \<noteq> dst + of_nat k) \<Longrightarrow>
      foldl (\<lambda>f k. f(dst + of_nat k := b (src + of_nat k))) b [0..<n] x = b x"
proof -
  have "(\<forall>k<n. foldl (\<lambda>f k. f(dst + of_nat k := b (src + of_nat k))) b [0..<n] (dst + of_nat k) = b (src + of_nat k))
    \<and> (\<forall>x. (\<forall>k<n. x \<noteq> dst + of_nat k) \<longrightarrow> foldl (\<lambda>f k. f(dst + of_nat k := b (src + of_nat k))) b [0..<n] x = b x)"
    using assms
  proof (induction n)
    case (Suc n)
    have "dst + of_nat k \<noteq> dst + of_nat n" if "k < n" for k
      using of_nat_add_inj [of k n dst] that Suc.prems by auto
    then show ?case using Suc by (auto simp: less_Suc_eq)
  qed simp
  then show "\<And>k. k < n \<Longrightarrow> foldl (\<lambda>f k. f(dst + of_nat k := b (src + of_nat k))) b [0..<n] (dst + of_nat k) = b (src + of_nat k)"
    "\<And>x. (\<And>k. k < n \<Longrightarrow> x \<noteq> dst + of_nat k) \<Longrightarrow>
      foldl (\<lambda>f k. f(dst + of_nat k := b (src + of_nat k))) b [0..<n] x = b x" by blast+
qed

text \<open>Addresses in the data room of a buffer.\<close>
definition in_room :: "rte_mbuf \<Rightarrow> u64 \<Rightarrow> bool" where
  "in_room r x \<longleftrightarrow> unat (x - mb_buf_addr r) < unat (mb_buf_len r)"

text \<open>The data of each buffer is in its room, rooms are memory and do not overlap.\<close>
definition store_ok :: "'y mbuf_store \<Rightarrow> bool" where
  "store_ok st \<longleftrightarrow>
     (\<forall>m r. st_mbuf st m = Some r \<longrightarrow> room_ok r \<and> (\<forall>x. in_room r x \<longrightarrow> st_byte st x \<noteq> None))
     \<and> (\<forall>m m' r r' x. m \<noteq> m' \<and> st_mbuf st m = Some r \<and> st_mbuf st m' = Some r' \<and> in_room r x \<longrightarrow> \<not> in_room r' x)"

text \<open>The packet of the buffer at \<open>r\<close> fits into the room of the buffer at \<open>t\<close>.\<close>
definition fits :: "'y mbuf_store \<Rightarrow> u64 \<Rightarrow> u64 \<Rightarrow> bool" where
  "fits st r t \<longleftrightarrow> (case (st_mbuf st r, st_mbuf st t) of
     (Some a, Some b) \<Rightarrow> unat (mb_data_off a) + unat (mb_data_len a) \<le> unat (mb_buf_len b) | _ \<Rightarrow> False)"

text \<open>
  What the receiver of a buffer sees of its packet: the bytes of the first segment, and the fields that describe
  the packet. The fields that belong to the buffer are left out, the place and size of its room, its pool and its
  reference count, and so are outer tag, sequence number, time stamps, user data and offload operations, which
  \<open>copy_mbufs\<close> does not copy.
\<close>
record packet_view =
  pk_bytes :: "u8 option list"
  pk_data_off :: u16
  pk_data_len :: u16
  pk_pkt_len :: u32
  pk_port :: u8
  pk_nb_segs :: u8
  pk_ol_flags :: u64
  pk_packet_type :: u32
  pk_vlan_tci :: u16
  pk_hash :: u64
  pk_tx_offload :: u64
  pk_next :: u64

definition packet :: "'y mbuf_store \<Rightarrow> u64 \<Rightarrow> packet_view option" where
  "packet st m = map_option (\<lambda>r. \<lparr>pk_bytes = map (\<lambda>k. st_byte st (rte_pktmbuf_mtod r + of_nat k)) [0..<unat (mb_data_len r)],
     pk_data_off = mb_data_off r, pk_data_len = mb_data_len r, pk_pkt_len = mb_pkt_len r, pk_port = mb_port r,
     pk_nb_segs = mb_nb_segs r, pk_ol_flags = mb_ol_flags r, pk_packet_type = mb_packet_type r, pk_vlan_tci = mb_vlan_tci r,
     pk_hash = mb_hash r, pk_tx_offload = mb_tx_offload r, pk_next = mb_next r\<rparr>) (st_mbuf st m)"

text \<open>The packet without its further segments, and with everything else as it was.\<close>
definition unchained :: "packet_view option \<Rightarrow> packet_view option" where
  "unchained = map_option (\<lambda>v. v\<lparr>pk_next := 0\<rparr>)"

lemma store_okD:
  assumes "store_ok st" and "st_mbuf st m = Some r"
  shows "room_ok r" and "\<And>x. in_room r x \<Longrightarrow> st_byte st x \<noteq> None"
    and "\<And>m' r' x. m \<noteq> m' \<Longrightarrow> st_mbuf st m' = Some r' \<Longrightarrow> in_room r x \<Longrightarrow> \<not> in_room r' x"
  using assms unfolding store_ok_def by metis+

lemma in_room_data:
  assumes "k < unat (len :: u16)" and "unat (off :: u16) + unat len \<le> unat (mb_buf_len r)"
  shows "in_room r (mb_buf_addr r + ucast off + of_nat k)"
proof -
  have b: "unat (mb_buf_len r) < 2 ^ 16" using unsigned_less [of "mb_buf_len r", where ?'a = nat] by simp
  have "(ucast off + of_nat k :: u64) = of_nat (unat off + k)" by simp
  moreover have "unat (of_nat (unat off + k) :: u64) = unat off + k"
    using assms b by (subst unat_of_nat) simp
  ultimately have "unat (ucast off + of_nat k :: u64) = unat off + k" by simp
  then show ?thesis using assms by (simp add: in_room_def)
qed

lemma copy_fields_room [simp]:
  "in_room (copy_fields r t) = in_room t" "mb_buf_addr (copy_fields r t) = mb_buf_addr t"
  "mb_data_off (copy_fields r t) = mb_data_off r" "mb_data_len (copy_fields r t) = mb_data_len r"
  "mb_buf_len (copy_fields r t) = mb_buf_len t" "mb_pkt_len (copy_fields r t) = mb_pkt_len r"
  "mb_port (copy_fields r t) = mb_port r" "mb_nb_segs (copy_fields r t) = mb_nb_segs r" "mb_ol_flags (copy_fields r t) = mb_ol_flags r"
  "mb_packet_type (copy_fields r t) = mb_packet_type r" "mb_vlan_tci (copy_fields r t) = mb_vlan_tci r"
  "mb_hash (copy_fields r t) = mb_hash r" "mb_tx_offload (copy_fields r t) = mb_tx_offload r" "mb_next (copy_fields r t) = 0"
  by (simp_all add: copy_fields_def in_room_def fun_eq_iff)

text \<open>One copy: the target shows the packet of the source without further segments, every other buffer its own.\<close>
lemma copy_one_ok:
  fixes st :: "'y mbuf_store"
  assumes ok: "store_ok st" and f: "fits st rx tx" and ne: "rx \<noteq> tx"
  shows "\<exists>st'. copy_one rx tx st = Some st' \<and> store_ok st' \<and> st_dev st' = st_dev st
    \<and> packet st' tx = unchained (packet st rx) \<and> (\<forall>m. m \<noteq> tx \<longrightarrow> st_mbuf st' m = st_mbuf st m \<and> packet st' m = packet st m)
    \<and> map_option mb_buf_len (st_mbuf st' tx) = map_option mb_buf_len (st_mbuf st tx)"
proof -
  obtain r t where r: "st_mbuf st rx = Some r" and t: "st_mbuf st tx = Some t"
    and le: "unat (mb_data_off r) + unat (mb_data_len r) \<le> unat (mb_buf_len t)"
    using f by (auto simp: fits_def split: option.splits)
  have rr: "room_ok r" using store_okD(1) [OF ok r] .
  let ?n = "unat (mb_data_len r)" and ?d = "rte_pktmbuf_mtod (copy_fields r t)" and ?s = "rte_pktmbuf_mtod r"
  let ?b = "foldl (\<lambda>f k. f(?d + of_nat k := st_byte st (?s + of_nat k))) (st_byte st) [0..<?n]"
  have n: "?n \<le> 2 ^ 16" using unsigned_less [of "mb_data_len r", where ?'a = nat] by simp
  have dst: "in_room t (?d + of_nat k)" if "k < ?n" for k
    using in_room_data [OF that le] by (simp add: rte_pktmbuf_mtod_def)
  have src: "in_room m (rte_pktmbuf_mtod m + of_nat k)" if "k < unat (mb_data_len m)" "room_ok m" for k m
    using in_room_data [OF that(1), of "mb_data_off m" m] that(2) by (simp add: rte_pktmbuf_mtod_def room_ok_def)
  have mapped: "st_byte st (?d + of_nat k) \<noteq> None \<and> st_byte st (?s + of_nat k) \<noteq> None" if "k < ?n" for k
    using store_okD(2) [OF ok t dst [OF that]] store_okD(2) [OF ok r src [OF that rr]] by blast
  have out: "?b x = st_byte st x" if "\<not> in_room t x" for x
    by (rule memcpy_fold(2) [OF n]) (use dst that in blast)
  have copied: "?b (?d + of_nat k) = st_byte st (?s + of_nat k)" if "k < ?n" for k
    by (rule memcpy_fold(1) [OF n that])
  have total: "?b x \<noteq> None" if "st_byte st x \<noteq> None" for x
  proof (cases "\<exists>k<?n. x = ?d + of_nat k")
    case True
    then obtain k where k: "k < ?n" "x = ?d + of_nat k" by blast
    then show ?thesis using mapped [OF k(1)] copied [OF k(1)] by simp
  next
    case False
    then have "?b x = st_byte st x" by (intro memcpy_fold(2) [OF n]) blast
    then show ?thesis using that by simp
  qed
  let ?st = "st\<lparr>st_mbuf := (st_mbuf st)(tx \<mapsto> copy_fields r t), st_byte := ?b\<rparr>"
  have one: "copy_one rx tx st = Some ?st"
    using r t mapped by (simp add: copy_one_def rte_memcpy_def list_all_iff Let_def)
  have other: "packet ?st m = packet st m" if "m \<noteq> tx" for m
  proof (cases "st_mbuf st m")
    case (Some q)
    have q: "room_ok q" "\<And>x. in_room q x \<Longrightarrow> \<not> in_room t x"
      using store_okD(1,3) [OF ok Some] that t by blast+
    show ?thesis using that Some out [OF q(2) [OF src [OF _ q(1)]]] by (auto simp: packet_def)
  qed (use that in \<open>simp add: packet_def\<close>)
  have "store_ok ?st"
    using ok t le total unfolding store_ok_def by (auto simp: room_ok_def split: if_splits)
  moreover have "packet ?st tx = unchained (packet st rx)" using r copied by (auto simp: packet_def unchained_def)
  ultimately show ?thesis using one other t by (intro exI [of _ ?st]) simp
qed

lemma fits_cong:
  "st_mbuf st' r = st_mbuf st r \<Longrightarrow> st_mbuf st' t = st_mbuf st t \<Longrightarrow> fits st' r t = fits st r t"
  by (simp add: fits_def)

lemma copy_loop_ok:
  fixes st :: "'y mbuf_store"
  assumes "store_ok st" and "i + k \<le> length rxm" and "i + k \<le> length txm"
    and "distinct (take k (drop i txm))" and "set (take k (drop i rxm)) \<inter> set (take k (drop i txm)) = {}"
    and "\<forall>r\<in>set (take k (drop i rxm)). \<forall>t\<in>set (take k (drop i txm)). fits st r t"
  shows "\<exists>st'. copy_loop k i rxm txm st = Some st' \<and> store_ok st' \<and> st_dev st' = st_dev st
    \<and> (\<forall>m. m \<notin> set (take k (drop i txm)) \<longrightarrow> packet st' m = packet st m)
    \<and> list_all2 (\<lambda>r t. packet st' t = unchained (packet st r)) (take k (drop i rxm)) (take k (drop i txm))"
  using assms
proof (induction k arbitrary: i st)
  case (Suc k)
  let ?r = "rxm ! i" and ?t = "txm ! i"
  have i: "i < length rxm" "i < length txm" using Suc.prems(2,3) by simp_all
  have rs: "take (Suc k) (drop i rxm) = ?r # take k (drop (i + 1) rxm)"
    and ts: "take (Suc k) (drop i txm) = ?t # take k (drop (i + 1) txm)"
    using i by (simp_all add: Cons_nth_drop_Suc [symmetric])
  let ?rs = "take k (drop (i + 1) rxm)" and ?ts = "take k (drop (i + 1) txm)"
  have ne: "?r \<noteq> ?t" "?t \<notin> set ?ts" "?t \<notin> set ?rs" "?r \<notin> set ?ts" "distinct ?ts" "set ?rs \<inter> set ?ts = {}"
    using Suc.prems(4,5) unfolding rs ts by auto
  have f: "fits st ?r ?t" "\<forall>r\<in>set ?rs. \<forall>t\<in>set ?ts. fits st r t"
    using Suc.prems(6) unfolding rs ts by auto
  obtain s1 where s1: "copy_one ?r ?t st = Some s1" "store_ok s1" "st_dev s1 = st_dev st"
    "packet s1 ?t = unchained (packet st ?r)" "\<And>m. m \<noteq> ?t \<Longrightarrow> st_mbuf s1 m = st_mbuf st m"
    "\<And>m. m \<noteq> ?t \<Longrightarrow> packet s1 m = packet st m"
    using copy_one_ok [OF Suc.prems(1) f(1) ne(1)] by blast
  have "\<forall>r\<in>set ?rs. \<forall>t\<in>set ?ts. fits s1 r t"
  proof (intro ballI)
    fix r t assume m: "r \<in> set ?rs" "t \<in> set ?ts"
    then have "r \<noteq> ?t" "t \<noteq> ?t" using ne by auto
    then show "fits s1 r t" using f(2) m s1(5) fits_cong [of s1 r st t] by blast
  qed
  then obtain s2 where s2: "copy_loop k (i + 1) rxm txm s1 = Some s2" "store_ok s2" "st_dev s2 = st_dev s1"
    "\<forall>m. m \<notin> set ?ts \<longrightarrow> packet s2 m = packet s1 m" "list_all2 (\<lambda>r t. packet s2 t = unchained (packet s1 r)) ?rs ?ts"
    using Suc.IH [OF s1(2), of "i + 1"] Suc.prems(2,3) ne(5,6) by auto
  have "packet s1 r = packet st r" if "r \<in> set ?rs" for r using s1(6) that ne(3) by metis
  then have "list_all2 (\<lambda>r t. packet s2 t = unchained (packet st r)) ?rs ?ts"
    using list.rel_mono_strong [OF s2(5)] by simp
  moreover have "copy_loop (Suc k) i rxm txm st = Some s2" using s1(1) s2(1) i by simp
  ultimately show ?case using s1 s2 ne unfolding rs ts by auto
qed simp

section \<open>Where the buffers are during the copy\<close>

text \<open>The buffers of the drivers do not depend on the contents of buffers.\<close>
lemma world_set_store:
  assumes "world_inv (d \<circ> st_dev) e h" and "st_dev st = st_dev (store e)"
  shows "world_inv (d \<circ> st_dev) (set_store st e) h \<and> inside (d \<circ> st_dev) (set_store st e) = inside (d \<circ> st_dev) e"
proof -
  have "inside (d \<circ> st_dev) (set_store st e) = inside (d \<circ> st_dev) e"
    using assms(2) by (simp add: inside_def mem_total_def set_store_def)
  then show ?thesis using assms(1) by (simp add: world_inv_def) (simp add: set_store_def)
qed

text \<open>Buffers of one pool go back to it.\<close>
lemma put_first_ok:
  assumes inv: "world_inv dins e (mset (take (unat n) rxm) + h)" and n: "0 < unat n" "unat n \<le> length rxm"
    and own: "\<forall>m\<in>set (take (unat n) rxm). own (other_state e) b m"
  shows "\<exists>e'. put_all_to_first lcore rxm n e = Some e' \<and> world_inv dins e' h
    \<and> inside dins e' = inside dins e + mset (take (unat n) rxm) \<and> store e' = store e"
proof -
  have "rxm ! 0 \<in> set (take (unat n) rxm)" using n by (auto simp: in_set_conv_nth intro!: exI [of _ 0])
  then have r0: "rxm ! 0 \<in># mset (take (unat n) rxm)" "own (other_state e) b (rxm ! 0)" using own by simp_all
  have "rxm ! 0 \<in># inside dins e + (mset (take (unat n) rxm) + h)" using r0(1) by simp
  then obtain a where "a \<in> dom (mempool_at (other_state e))" "own (other_state e) a (rxm ! 0)"
    using inv unfolding world_inv_def mem_inv_def by blast
  then obtain mp where mp: "mempool_at (other_state e) b = Some mp" using r0(2) by (auto simp: own_def)
  note room = pool_has_room [OF inv mp own]
  have sz: "size (pool_mset mp) + unat n \<le> unat (mp_size mp)" using room(3) n(2) by simp
  obtain mp' where put: "rte_mempool_put_bulk lcore mp rxm n = Some mp'" "pool_inv mp'" "pool_frame mp mp'"
    "pool_mset mp' = pool_mset mp + mset (take (unat n) rxm)"
    using mempool_put_result [OF room(1) n(2) sz] unfolding rte_mempool_put_bulk_def by blast
  have "\<forall>m\<in>#pool_mset mp'. own (other_state e) b m" using put(4) room(2) own by auto
  then have "world_inv dins (set_pool b mp' e) ({#} + h) \<and> inside dins (set_pool b mp' e) + {#} = inside dins e + mset (take (unat n) rxm)"
    using world_set_pool [OF inv mp put(2,3), of "{#}"] put(4) by simp
  then show ?thesis
    using n r0(2) mp put(1) less_le_trans [OF n]
    by (simp add: put_all_to_first_def own_def aget_def) (simp add: set_pool_def)
qed

text \<open>No buffer is in two places.\<close>
definition no_dups :: "'m multiset \<Rightarrow> bool" where
  "no_dups T \<longleftrightarrow> (\<forall>m. count T m \<le> 1)"

lemma no_dups_distinct:
  assumes "no_dups T" and "mset xs \<subseteq># T"
  shows "distinct xs"
proof -
  have "count (mset xs) a \<le> 1" for a
    using assms by (metis le_trans mset_subset_eq_count no_dups_def)
  then show ?thesis
    unfolding distinct_count_atmost_1 by (metis count_eq_zero_iff le_antisym less_one linorder_not_less set_mset_mset)
qed

lemma copy_mbufs_ok:
  fixes e :: "('h, 'y) copy_eal"
  assumes D: "D = d \<circ> st_dev" and inv: "world_inv D e (mset (take (unat nb) rxm) + h)"
    and n: "0 < unat nb" "unat nb \<le> length rxm" "unat nb \<le> length txm"
    and own: "\<forall>m\<in>set (take (unat nb) rxm). own (other_state e) b m"
    and mp: "mempool_at (other_state e) a = Some mp"
    and st: "store_ok (store e)" "no_dups (inside D e + mset (take (unat nb) rxm))"
    and fit: "\<forall>r\<in>set (take (unat nb) rxm). \<forall>t\<in>#pool_mset mp. fits (store e) r t"
  shows "\<exists>ret txm' e'. copy_mbufs lcore a nb rxm txm e = Some (ret, txm', e') \<and>
    (if ret = - 1 then length (ring_list (mp_ring mp)) < unat nb
       \<and> world_inv D e' h \<and> inside D e' = inside D e + mset (take (unat nb) rxm) \<and> store e' = store e
     else ret = 1 \<and> world_inv D e' (mset (take (unat nb) txm') + h)
       \<and> inside D e' + mset (take (unat nb) txm') = inside D e + mset (take (unat nb) rxm)
       \<and> mset (take (unat nb) txm') \<subseteq># pool_mset mp \<and> (\<forall>t\<in>set (take (unat nb) txm'). own (other_state e') a t)
       \<and> list_all2 (\<lambda>r t. packet (store e') t = unchained (packet (store e) r)) (take (unat nb) rxm) (take (unat nb) txm'))"
proof -
  let ?n = "ucast nb :: u32" and ?x = "other_state e" and ?rs = "take (unat nb) rxm"
  have un: "unat ?n = unat nb" using unsigned_less [of nb, where ?'a = nat] by (simp add: unsigned_ucast_eq take_bit_nat_eq_self)
  have fin: "finite (dom (mempool_at ?x))" and po: "\<forall>m\<in>#pool_mset mp. own ?x a m" and pi: "pool_inv mp"
    using inv mp by (simp_all add: world_inv_def mem_inv_def)
  obtain ret tx mp' where get: "rte_mempool_get_bulk lcore mp txm ?n = Some (ret, tx, mp')" "got mp txm (unat nb) ret tx mp'"
    using mempool_get_result [OF pi, of ?n txm lcore] n(3) un unfolding rte_mempool_get_bulk_def by metis
  show ?thesis
  proof (cases "ret = 0")
    case False
    then have "mp' = mp" using get(2) by (simp add: got_def)
    then have "set_pool a mp' e = e" using mp by (simp add: set_pool_def fun_upd_idem)
    moreover obtain e' where "put_all_to_first lcore rxm ?n e = Some e'" "world_inv D e' h"
      "inside D e' = inside D e + mset ?rs" "store e' = store e"
      using put_first_ok [of D e ?n rxm h b lcore] inv n own un by auto
    moreover have "length (ring_list (mp_ring mp)) < unat nb" using get(2) False by (auto simp: got_def)
    ultimately show ?thesis using False mp get(1) by (simp add: copy_mbufs_def)
  next
    case True
    let ?ts = "take (unat nb) tx" and ?e1 = "set_pool a mp' e"
    have g: "pool_inv mp'" "pool_frame mp mp'" "pool_mset mp = pool_mset mp' + mset ?ts" "length tx = length txm"
      using get(2) True by (simp_all add: got_def)
    have i0: "world_inv D e ({#} + (mset ?rs + h))" using inv by simp
    have o0: "\<forall>m\<in>#pool_mset mp'. own ?x a m" using po g(3) by simp
    have w1: "world_inv D ?e1 (mset ?ts + (mset ?rs + h))" "inside D ?e1 + mset ?ts = inside D e"
      using world_set_pool [OF i0 mp g(1,2) o0, of "mset ?ts"] g(3) by simp_all
    have "mset (?ts @ ?rs) \<subseteq># inside D e + mset ?rs" using w1(2) by (metis mset_append mset_subset_eq_add_right mset_subset_eq_mono_add_right_cancel)
    then have "distinct (?ts @ ?rs)" using no_dups_distinct [OF st(2)] by blast
    moreover have "\<forall>r\<in>set ?rs. \<forall>t\<in>set ?ts. fits (store e) r t" using fit g(3) by auto
    moreover have s1: "store ?e1 = store e" by (simp add: set_pool_def)
    ultimately obtain s' where cp: "copy_loop (unat nb) 0 rxm tx (store e) = Some s'" "st_dev s' = st_dev (store e)"
      "list_all2 (\<lambda>r t. packet s' t = unchained (packet (store e) r)) ?rs ?ts"
      using copy_loop_ok [OF st(1), of 0 "unat nb" rxm tx] n g(4) by auto
    let ?e2 = "set_store s' ?e1"
    have w2: "world_inv D ?e2 (mset ?rs + (mset ?ts + h))" "inside D ?e2 = inside D ?e1" "store ?e2 = s'"
      using world_set_store [of d ?e1 "mset ?ts + (mset ?rs + h)" s'] w1(1) cp(2) s1
      by (simp_all add: D union_lcomm) (simp add: set_store_def)
    have "\<forall>m\<in>set ?rs. own (other_state ?e2) b m" using own by (simp add: set_store_def set_pool_def own_def)
    then obtain e' where pf: "put_all_to_first lcore rxm ?n ?e2 = Some e'" "world_inv D e' (mset ?ts + h)"
      "inside D e' = inside D ?e2 + mset ?rs" "store e' = s'"
      using put_first_ok [of D ?e2 ?n rxm "mset ?ts + h" b lcore] w2 n un by auto
    have "inside D e' + mset ?ts = inside D e + mset ?rs"
      unfolding pf(3) w2(2) w1(2) [symmetric] by (simp add: ac_simps)
    moreover have "mset ?ts \<subseteq># pool_mset mp" using g(3) by simp
    moreover have "mbuf_pool (other_state e') = mbuf_pool ?x"
      using pf(1) by (auto simp: put_all_to_first_def set_store_def set_pool_def split: bind_splits)
    then have "\<forall>t\<in>set ?ts. own (other_state e') a t" using po g(3) by (auto simp: own_def)
    ultimately show ?thesis
      using True mp get(1) cp pf s1 by (simp add: copy_mbufs_def)
  qed
qed

text \<open>What a put of buffers of several pools does: all go to the pool of the first.\<close>
lemma put_first_contents:
  assumes "put_all_to_first lcore rxm n e = Some e'" and "own (other_state e) b (rxm ! 0)"
    and "mempool_at (other_state e) b = Some mp" and "pool_inv mp"
    and "unat n \<le> length rxm" and "size (pool_mset mp) + unat n \<le> unat (mp_size mp)"
  shows "\<exists>mp'. mempool_at (other_state e') b = Some mp' \<and> pool_mset mp' = pool_mset mp + mset (take (unat n) rxm)
    \<and> mbuf_pool (other_state e') = mbuf_pool (other_state e)"
  using assms(1-3) mempool_put_result [OF assms(4-6), of lcore "mp_flags mp AND MEMPOOL_F_SP_PUT = 0"]
  by (auto simp: put_all_to_first_def own_def set_pool_def rte_mempool_put_bulk_def aget_eq_Some_iff split: bind_splits)

section \<open>A concrete panel for the witnesses\<close>

text \<open>An empty pool for received packets and a pool for packets to be sent with one buffer.\<close>
definition tx_pool :: "u64 rte_mempool" where
  "tx_pool = void_pool\<lparr>mp_ring := (mp_ring void_pool)\<lparr>prod := (prod (mp_ring void_pool))\<lparr>prod_head := 1, prod_tail := 1\<rparr>,
     ring_slots := 0x20000 # replicate 15 0\<rparr>\<rparr>"

lemma tx_pool_inv: "pool_inv tx_pool"
  by (simp add: pool_inv_def tx_pool_def void_pool_def ring_inv_def POWEROF2_def RTE_RING_SZ_MASK_def Let_def cache_ok_def
      RTE_MEMPOOL_CACHE_MAX_SIZE_def RTE_MAX_LCORE_def ring_cap_def list_all_iff)

lemma sum_list_no_objs: "sum_list (replicate n {#}) = {#}"
  by (induction n) simp_all

lemma tx_pool_mset: "pool_mset tx_pool = {#0x20000#}"
proof -
  have "ring_list (mp_ring tx_pool) = [0x20000]" by (simp add: ring_list_def tx_pool_def void_pool_def ring_get_def)
  moreover have "sum_list (map cache_held (mp_local_cache tx_pool)) = {#}"
    by (simp add: tx_pool_def void_pool_def cache_held_def sum_list_no_objs)
  ultimately show ?thesis by (simp add: pool_mset_def)
qed

definition copy_store :: "unit mbuf_store" where
  "copy_store = \<lparr>st_mbuf = [0x10000 \<mapsto> (lent 0x10000 1 0)\<lparr>mb_pool := 0x5000\<rparr>, 0x20000 \<mapsto> (lent 0x20000 0 0)\<lparr>mb_pool := 0x6000\<rparr>],
     st_byte = (\<lambda>x. if unat (x - 0x10080) < 2176 then Some (ucast x) else if unat (x - 0x20080) < 2176 then Some 0 else None),
     st_dev = ()\<rparr>"

lemma copy_store_ok: "store_ok copy_store"
proof -
  have "\<not> unat (x - 0x20080) < 2176" if "unat (x - 0x10080) < 2176" for x :: u64
  proof -
    have "x - 0x20080 = (x - 0x10080) - 0x10000" by simp
    moreover have "unat ((x - 0x10080) - 0x10000) = unat (x - 0x10080) + 2 ^ 64 - 0x10000"
      using that by (subst unat_sub_if_size) (simp add: word_size)
    ultimately show ?thesis by simp
  qed
  then show ?thesis
    by (auto simp: store_ok_def copy_store_def in_room_def lent_def room_ok_def split: if_splits)
qed

definition copy_panel :: "(u64, unit) copy_eal" where
  "copy_panel = \<lparr>memzone_cnt = 0, memzone = replicate RTE_MAX_MEMZONE null_memzone, malloc_heaps = 0x100000, rte_errno = 0,
     ring_at = Map.empty, ring_tailq = [], rte_eth_devices = replicate 32 null_dev,
     eth_dev_data = replicate 32 (dev_data null_dev), nb_ports = 0,
     other_state = \<lparr>mempool_tailq = [0x5000, 0x6000], mempool_at = [0x5000 \<mapsto> void_pool, 0x6000 \<mapsto> tx_pool],
       mbuf_pool = [0x10000 \<mapsto> 0x5000, 0x20000 \<mapsto> 0x6000, 0x30000 \<mapsto> 0x7000], dev_priv = copy_store\<rparr>\<rparr>"

lemma copy_panel_inside: "inside (\<lambda>_. {#}) copy_panel = {#0x20000#}"
  by (simp add: inside_def mem_total_def map_mset_def copy_panel_def void_pool_mset tx_pool_mset)

lemma copy_panel_inv: "world_inv (\<lambda>_. {#}) copy_panel {#0x10000#}"
proof -
  have "eth_inv copy_panel"
    by (simp add: eth_inv_def copy_panel_def null_dev_def RTE_MAX_ETHPORTS_def RTE_ETH_NAME_MAX_LEN_def list_all_iff)
  moreover have "mem_inv (other_state copy_panel) {#0x10000, 0x20000#}"
    using void_pool_inv tx_pool_inv
    by (auto simp: mem_inv_def copy_panel_def own_def void_pool_mset tx_pool_mset) (simp_all add: tx_pool_def void_pool_def)
  ultimately show ?thesis unfolding world_inv_def copy_panel_inside by (simp add: copy_panel_def)
qed

section \<open>Properties\<close>



text \<open>
  C32. The received buffers of a burst all go to the pool of the first packet: when one of them belongs
  to another pool, the pool of the first holds a foreign buffer afterwards and the invariant of the
  pools is broken for good.
\<close>
theorem copy_foreign_pool:
  assumes "copy_mbufs lcore a nb rxm txm e = Some (ret, txm', e')" and "own (other_state e) b (rxm ! 0)"
    and "a \<noteq> b" and "mempool_at (other_state e) b = Some mp" and "pool_inv mp" and "unat nb \<le> length rxm"
    and "size (pool_mset mp) + unat nb \<le> unat (mp_size mp)"
    and "m \<in> set (take (unat nb) rxm)" and "\<not> own (other_state e) b m"
  shows "\<exists>mp'. mempool_at (other_state e') b = Some mp' \<and> m \<in># pool_mset mp' \<and> \<not> mem_inv (other_state e') T"
proof -
  have un: "unat (ucast nb :: u32) = unat nb"
    using unsigned_less [of nb, where ?'a = nat] by (simp add: unsigned_ucast_eq take_bit_nat_eq_self)
  obtain e1 where e1: "put_all_to_first lcore rxm (ucast nb) e1 = Some e'"
    "mbuf_pool (other_state e1) = mbuf_pool (other_state e)" "mempool_at (other_state e1) b = Some mp"
    using assms(1,3,4) by (auto simp: copy_mbufs_def set_pool_def set_store_def Let_def split: bind_splits if_splits)
  have "own (other_state e1) b (rxm ! 0)" using assms(2) e1(2) by (simp add: own_def)
  then obtain mp' where mp': "mempool_at (other_state e') b = Some mp'" "pool_mset mp' = pool_mset mp + mset (take (unat nb) rxm)"
    "mbuf_pool (other_state e') = mbuf_pool (other_state e)"
    using put_first_contents [OF e1(1) _ e1(3) assms(5)] assms(6,7) un e1(2) by auto
  then have "m \<in># pool_mset mp'" "\<not> own (other_state e') b m" using assms(8,9) by (simp_all add: own_def)
  then show ?thesis using mp'(1) unfolding mem_inv_def by blast
qed

theorem copy_foreign_pool_witness:
  "\<exists>ret txm' e' mp'. copy_mbufs 0 0x6000 2 [0x10000, 0x30000] [0, 0] copy_panel = Some (ret, txm', e')
    \<and> mempool_at (other_state e') 0x5000 = Some mp' \<and> 0x30000 \<in># pool_mset mp'"
proof -
  let ?r = "[0x10000, 0x30000] :: u64 list"
  have f: "mempool_at (other_state copy_panel) 0x6000 = Some tx_pool" "mempool_at (other_state copy_panel) 0x5000 = Some void_pool"
    "mbuf_pool (other_state copy_panel) 0x10000 = Some 0x5000" by (simp_all add: copy_panel_def)
  obtain ret tab mp where g: "rte_mempool_get_bulk 0 tx_pool [0, 0] 2 = Some (ret, tab, mp)" "got tx_pool [0, 0] 2 ret tab mp"
    using mempool_get_result [OF tx_pool_inv, of 2 "[0, 0]" 0] unfolding rte_mempool_get_bulk_def by fastforce
  have "ret \<noteq> 0"
  proof
    assume "ret = 0"
    then have "{#0x20000#} = pool_mset mp + mset (take 2 tab)" "length tab = 2" using g(2) by (simp_all add: got_def tx_pool_mset)
    then have "size {#0x20000 :: u64#} = size (pool_mset mp) + 2" by (metis length_take min.idem size_mset size_union)
    then show False by simp
  qed
  moreover obtain vp where "rte_mempool_put_bulk 0 void_pool ?r 2 = Some vp"
    using mempool_put_result [OF void_pool_inv, of 2 ?r 0 "mp_flags void_pool AND MEMPOOL_F_SP_PUT = 0"] void_pool_mset
    unfolding rte_mempool_put_bulk_def by (auto simp: void_pool_def)
  ultimately have "copy_mbufs 0 0x6000 2 ?r [0, 0] copy_panel \<noteq> None"
    using g(1) f by (simp add: copy_mbufs_def put_all_to_first_def aget_def) (simp add: set_pool_def f)
  then obtain ret txm' e' where c: "copy_mbufs 0 0x6000 2 [0x10000, 0x30000] [0, 0] copy_panel = Some (ret, txm', e')" by auto
  have "own (other_state copy_panel) 0x5000 0x10000" "\<not> own (other_state copy_panel) 0x5000 0x30000"
    "mempool_at (other_state copy_panel) 0x5000 = Some void_pool" by (simp_all add: copy_panel_def own_def)
  then show ?thesis
    using copy_foreign_pool [OF c, of "0x5000" void_pool "0x30000" "{#}"] c void_pool_inv void_pool_mset
    by (auto simp: void_pool_def)
qed

text \<open>
  C33. A copied packet is never given back: the copy takes its buffer from the pool without setting a
  reference count, and a buffer in a pool has none. When a driver is done with the packet and
  frees it, the count wraps around to 65535, no pool changes, and the buffer is lost.
\<close>
theorem copy_leak:
  assumes "mbuf_at s a = Some (copy_fields r t)" and "a \<noteq> 0" and "mb_refcnt t = 0"
  shows "rte_pktmbuf_free lcore a s =
    Some (s\<lparr>mbuf_at := (mbuf_at s)(a \<mapsto> (copy_fields r t)\<lparr>mb_refcnt := 0xffff\<rparr>)\<rparr>)"
proof -
  have "mb_refcnt (copy_fields r t) = 0" "mb_next (copy_fields r t) = 0" using assms(3) by (simp_all add: copy_fields_def)
  moreover have "(0xffff :: u16) = - 1" by code_simp
  ultimately show ?thesis using assms(1,2)
    by (simp only:) (simp add: rte_pktmbuf_free.simps rte_pktmbuf_free_seg_def rte_pktmbuf_prefree_seg_def rte_mbuf_refcnt_update_def Let_def)
qed

theorem copy_leak_witness:
  "\<exists>s'. rte_pktmbuf_free 0 0x4000 (mem_3\<lparr>mbuf_at := [0x4000 \<mapsto> copy_fields (lent 0x1000 1 0) (lent 0x4000 0 0)]\<rparr>) = Some s'
    \<and> pktpool_at s' = pktpool_at mem_3"
  using copy_leak [of "mem_3\<lparr>mbuf_at := [0x4000 \<mapsto> copy_fields (lent 0x1000 1 0) (lent 0x4000 0 0)]\<rparr>" "0x4000"
      "lent 0x1000 1 0" "lent 0x4000 0 0" 0]
  by (simp add: lent_def)

end
