(* ===== verification/Spp_Nfv.thy ===== *)
theory Spp_Nfv
  imports Spp_Panel Spp_Memcpy
begin

text \<open>
  The secondary process \<open>nfv_py/nfv_py.c\<close>. Table, commands and loops are those of \<open>sec_zerocpy\<close>,
  with two differences that matter: packets that were not sent are freed with
  \<open>rte_pktmbuf_free\<close> instead of being put into their pool, and \<open>add ring\<close> knows only the rings of
  the clients and keeps the result of \<open>rte_eth_from_ring\<close> signed. The theory compares the two
  ways of giving a packet back, and shows for the whole process what \<open>Spp_Panel\<close> shows for
  \<open>sec_zerocpy\<close>: the contract \<open>data_plane\<close> holds when every buffer outside the pools is a single
  direct segment with one reference.
\<close>

section \<open>Giving packets back\<close>

text \<open>
  The memory as \<open>librte_mbuf\<close> sees it: structures, bytes and pools of the panel; \<open>g\<close> has what does
  not change while the panel runs, the descriptions of the pools and the physical addresses.
\<close>
definition mem_of :: "mbuf_mem \<Rightarrow> ('h, 'y) copy_eal \<Rightarrow> mbuf_mem" where
  "mem_of g e = g\<lparr>mbuf_at := st_mbuf (store e), pktpool_at := mempool_at (other_state e), byte_at := st_byte (store e)\<rparr>"

definition set_mem :: "mbuf_mem \<Rightarrow> ('h, 'y) copy_eal \<Rightarrow> ('h, 'y) copy_eal" where
  "set_mem s e = e\<lparr>other_state := (other_state e)\<lparr>mempool_at := pktpool_at s,
     dev_priv := (store e)\<lparr>st_mbuf := mbuf_at s, st_byte := byte_at s\<rparr>\<rparr>\<rparr>"

definition nfv_free :: "mbuf_mem \<Rightarrow> nat \<Rightarrow> ('h, 'y) copy_eal \<Rightarrow> u64 \<Rightarrow> ('h, 'y) copy_eal option" where
  "nfv_free g lcore e m = do { s \<leftarrow> rte_pktmbuf_free lcore m (mem_of g e); Some (set_mem s e) }"

section \<open>Forwarding\<close>

fun nfv_forward_loop ::
  "(u64, 'y mbuf_store) drivers \<Rightarrow> mbuf_mem \<Rightarrow> nat \<Rightarrow> u64 \<Rightarrow> port list \<Rightarrow> nat list \<Rightarrow> ('h, 'y) copy_eal \<Rightarrow>
     ('h, 'y) copy_eal option" where
  "nfv_forward_loop oth g lcore z arr [] e = Some e"
| "nfv_forward_loop oth g lcore z arr (i # is) e =
     do { p \<leftarrow> aget arr i;
          if port_status p \<ge> 0 \<and> port_out_port_id p \<ge> 0
          then do {
            e \<leftarrow> burst_move (call_rx oth (port_rx_func p)) (call_tx_of oth arr (port_out_port_id p)) (nfv_free g lcore) z
                   (of_nat i) (word_of_int (port_out_port_id p)) e;
            nfv_forward_loop oth g lcore z arr is e }
          else nfv_forward_loop oth g lcore z arr is e }"

definition nfv_forward ::
  "(u64, 'y mbuf_store) drivers \<Rightarrow> mbuf_mem \<Rightarrow> nat \<Rightarrow> u64 \<Rightarrow> port list \<Rightarrow> ('h, 'y) copy_eal \<Rightarrow> ('h, 'y) copy_eal option" where
  "nfv_forward oth g lcore z arr e = nfv_forward_loop oth g lcore z arr [0..<RTE_MAX_ETHPORTS] e"

type_synonym ('h, 'y) nfv = "('h, u64, 'y mbuf_store) sec"

definition nfv_rxtx :: "(u64, 'y mbuf_store) drivers \<Rightarrow> mbuf_mem \<Rightarrow> nat \<Rightarrow> u64 \<Rightarrow> ('h, 'y) nfv \<Rightarrow> ('h, 'y) copy_eal option" where
  "nfv_rxtx oth g lcore z s =
     (let curr = unat (exec_pos s)
      in do { rf \<leftarrow> aget (rx_funcs s) curr;
              rp \<leftarrow> aget (rx_ports s) curr;
              tp \<leftarrow> aget (tx_ports s) curr;
              burst_move (call_rx oth rf)
                (\<lambda>e p q bufs n. do { tf \<leftarrow> aget (tx_funcs s) curr; call_tx oth tf e p q bufs n })
                (nfv_free g lcore) z (ucast rp) (ucast tp) (sec_eal s) })"

text \<open>One turn of the endless loop of the forwarding core.\<close>
definition nfv_main_loop :: "(u64, 'y mbuf_store) drivers \<Rightarrow> mbuf_mem \<Rightarrow> nat \<Rightarrow> u64 \<Rightarrow> ('h, 'y) nfv \<Rightarrow> ('h, 'y) nfv option" where
  "nfv_main_loop oth g lcore z s =
     (if cmd s = STOP then Some s
      else if cmd s = LOOPBACK \<or> cmd s = RXTX
      then do { e \<leftarrow> nfv_rxtx oth g lcore z s; Some (s\<lparr>sec_eal := e\<rparr>) }
      else if cmd s = FORWARD
      then do { e \<leftarrow> nfv_forward oth g lcore z (ports_fwd_array s) (sec_eal s); Some (s\<lparr>sec_eal := e\<rparr>) }
      else Some s)"

section \<open>Messages\<close>

text \<open>The result of \<open>rte_eth_from_ring\<close> is an index as it is, also when it is negative.\<close>
definition nfv_add_ring ::
  "('h, 'm, 'y) sec_env \<Rightarrow> ('h, 'm, 'y) sec \<Rightarrow> string \<Rightarrow> nat option list \<Rightarrow> ('h, 'm, 'y) sec outcome option" where
  "nfv_add_ring env s buf tk =
     do { ring_id \<leftarrow> tok_atoi buf tk 2;
          (ring, e) \<leftarrow> rte_ring_lookup (sec_eal s) (get_rx_queue_name (word_of_int ring_id));
          if ring = 0 then Some (Exit ''Cannot get RX ring - is server process running?'' (s\<lparr>sec_eal := e\<rparr>))
          else do {
            (port, e) \<leftarrow> rte_eth_from_ring (env_ops env) (env_data_size env) (env_internals_size env) e ring;
            arr \<leftarrow> set_port port (\<lambda>p. p\<lparr>port_status := port, port_kind := RING\<rparr>) (ports_fwd_array s);
            Some (Reply (s\<lparr>ports_fwd_array := arr, sec_eal := e\<rparr>) buf) } }"

definition nfv_add ::
  "('h, 'm, 'y) sec_env \<Rightarrow> ('h, 'm, 'y) sec \<Rightarrow> string \<Rightarrow> nat option list \<Rightarrow> ('h, 'm, 'y) sec outcome option" where
  "nfv_add env s buf tk =
     do { w \<leftarrow> tok_str buf tk 1;
          if w = ''vhost'' then cmd_add_vhost env s buf tk
          else if w = ''ring'' then nfv_add_ring env s buf tk
          else if w = ''rx'' then cmd_add_rx env s buf tk
          else if w = ''tx'' then cmd_add_tx env s buf tk
          else Some (Reply s buf) }"

definition nfv_dispatch ::
  "('h, 'm, 'y) sec_env \<Rightarrow> ('h, 'm, 'y) sec \<Rightarrow> string \<Rightarrow> nat option list \<Rightarrow> ('h, 'm, 'y) sec outcome option" where
  "nfv_dispatch env s buf tk =
     do { w \<leftarrow> tok_str buf tk 0;
          buf \<leftarrow> (if w = ''status'' then cmd_status s else Some buf);
          w \<leftarrow> tok_str buf tk 0;
          if w = ''exit'' then Some (Leave (s\<lparr>cmd := STOP\<rparr>))
          else if w = ''start'' then Some (Reply (s\<lparr>cmd := START\<rparr>) buf)
          else if w = ''stop'' then Some (Reply (s\<lparr>cmd := STOP\<rparr>) buf)
          else if w = ''forward'' then Some (Reply (s\<lparr>cmd := FORWARD\<rparr>) buf)
          else if w = ''add'' then nfv_add env s buf tk
          else if w = ''patch'' then cmd_patch s buf tk
          else if w = ''del'' then cmd_del s buf tk
          else if w = ''save'' then cmd_save s buf tk
          else if w = ''exec'' then cmd_exec s buf tk
          else Some (Reply s buf) }"

definition nfv_message :: "('h, 'm, 'y) sec_env \<Rightarrow> ('h, 'm, 'y) sec \<Rightarrow> string \<Rightarrow> ('h, 'm, 'y) sec outcome option" where
  "nfv_message env s str = do { (buf, tk) \<leftarrow> tokens str; nfv_dispatch env s buf tk }"

section \<open>Two ways to give a packet back\<close>

text \<open>The structure says of each buffer to which pool it belongs.\<close>
definition pools_agree :: "(u64, 'y mbuf_store) dev_mem \<Rightarrow> bool" where
  "pools_agree x \<longleftrightarrow> mbuf_pool x = map_option mb_pool \<circ> st_mbuf (dev_priv x)"

text \<open>A packet of one direct segment that nobody else refers to.\<close>
definition plain :: "'y mbuf_store \<Rightarrow> u64 \<Rightarrow> bool" where
  "plain st m \<longleftrightarrow> m \<noteq> 0 \<and> (case st_mbuf st m of None \<Rightarrow> False
     | Some r \<Rightarrow> last_ref r \<and> mb_next r = 0 \<and> \<not> RTE_MBUF_INDIRECT r)"

text \<open>The structure of \<open>m\<close> as it is in a pool.\<close>
definition shelve :: "u64 \<Rightarrow> 'y mbuf_store \<Rightarrow> 'y mbuf_store" where
  "shelve m st = st\<lparr>st_mbuf := (st_mbuf st)(m := map_option released (st_mbuf st m))\<rparr>"

lemma shelve_dev [simp]: "st_dev (shelve m st) = st_dev st"
  by (simp add: shelve_def)

lemma plain_shelve [simp]: "m \<noteq> a \<Longrightarrow> plain (shelve a st) m = plain st m"
  by (simp add: plain_def shelve_def)

text \<open>Freeing a plain packet is putting it into its pool, and dropping the reference.\<close>
lemma nfv_free_plain:
  assumes "plain (store e) m" and "pools_agree (other_state e)"
  shows "nfv_free g lcore e m = map_option (set_store (shelve m (store e))) (mbuf_put lcore e m)"
proof -
  obtain r where r: "st_mbuf (store e) m = Some r" "last_ref r" "mb_next r = 0" "\<not> RTE_MBUF_INDIRECT r" "m \<noteq> 0"
    using assms(1) by (auto simp: plain_def split: option.splits)
  have p: "mbuf_pool (other_state e) m = Some (mb_pool r)" using assms(2) r(1) by (simp add: pools_agree_def)
  have nx: "rte_pktmbuf_free lcore 0 s = Some s" for s by (simp add: rte_pktmbuf_free.simps)
  have d: "\<not> RTE_MBUF_INDIRECT (r\<lparr>mb_refcnt := 0\<rparr>)" using r(4) by (simp add: RTE_MBUF_INDIRECT_def)
  have "rte_pktmbuf_free lcore m (mem_of g e) =
      do { mp \<leftarrow> mempool_at (other_state e) (mb_pool r);
           mp \<leftarrow> rte_mempool_put lcore mp m;
           Some ((mem_of g e)\<lparr>mbuf_at := (st_mbuf (store e))(m \<mapsto> released r),
                   pktpool_at := (mempool_at (other_state e))(mb_pool r \<mapsto> mp)\<rparr>) }"
    using r d by (simp add: rte_pktmbuf_free.simps [of lcore m] nx rte_pktmbuf_free_seg_def rte_pktmbuf_prefree_seg_def
        rte_mbuf_refcnt_update_def last_ref_def released_def mbuf_upd_def rte_mbuf_raw_free_def mem_of_def bind_assoc)
  then show ?thesis
    using r(1) p by (auto simp: nfv_free_def mbuf_put_def set_mem_def mem_of_def set_store_def shelve_def split: bind_splits)
qed

section \<open>The invariant of the packet buffers\<close>

text \<open>
  The memory shared with the drivers, with the buffers \<open>H\<close> in rings or held: what the drivers keep
  and \<open>H\<close> are plain packets.
\<close>
definition mem_tidy :: "('y \<Rightarrow> u64 multiset) \<Rightarrow> (u64, 'y mbuf_store) dev_mem \<Rightarrow> u64 multiset \<Rightarrow> bool" where
  "mem_tidy d x H \<longleftrightarrow> pools_agree x \<and> no_dups (mem_total (d \<circ> st_dev) x + H)
     \<and> (\<forall>m\<in>#d (st_dev (dev_priv x)) + H. plain (dev_priv x) m)"

text \<open>
  What the process relies on of the other drivers beside \<^const>\<open>driver_ok\<close>: a received packet is
  plain, and packets the driver does not hold stay as they are.
\<close>
definition driver_tidy :: "(u64, 'y mbuf_store) drivers \<Rightarrow> ('y \<Rightarrow> u64 multiset) \<Rightarrow> bool" where
  "driver_tidy oth d \<longleftrightarrow>
     (\<forall>x H p n. mem_tidy d x H \<longrightarrow> (case other_rx oth x p 0 n of (ms, x') \<Rightarrow> mem_tidy d x' (mset ms + H))) \<and>
     (\<forall>x H p ms. mem_tidy d x (mset ms + H) \<longrightarrow>
        (case other_tx oth x p 0 ms of (k, x') \<Rightarrow> mem_tidy d x' (mset (drop (unat k) ms) + H)))"

definition nfv_inv :: "('y \<Rightarrow> u64 multiset) \<Rightarrow> ('h, 'y) copy_eal \<Rightarrow> u64 multiset \<Rightarrow> bool" where
  "nfv_inv d e h \<longleftrightarrow> world_inv (d \<circ> st_dev) e h \<and> mem_tidy d (other_state e) (rings_mset (ring_at e) + h)"

definition nfv_up :: "(u64, 'y mbuf_store) drivers \<Rightarrow> ('y \<Rightarrow> u64 multiset) \<Rightarrow> ('h, 'y) copy_eal \<Rightarrow> u8 \<Rightarrow> bool" where
  "nfv_up oth d e p \<longleftrightarrow> port_up oth (d \<circ> st_dev) e p \<and> driver_tidy oth d"

text \<open>A receive or transmit burst either moves a ring or is the work of another driver.\<close>
lemma rx_by_driver:
  assumes "rte_eth_rx_burst oth e p 0 bufs n = Some (nb, bufs', e')" and "unat p < length (rte_eth_devices e)"
    and "dev_pmd (rte_eth_devices e ! unat p) = Some Pmd_Other" and "unat n \<le> length bufs"
  shows "\<exists>ms x'. other_rx oth (other_state e) p 0 n = (ms, x') \<and> e' = e\<lparr>other_state := x'\<rparr>
    \<and> nb = of_nat (length ms) \<and> bufs' = ms @ drop (length ms) bufs"
  using assms by (auto simp: rte_eth_rx_burst_def split: prod.splits if_splits)

lemma tx_by_driver:
  assumes "rte_eth_tx_burst oth e p 0 bufs n = Some (nb, e')" and "unat p < length (rte_eth_devices e)"
    and "dev_pmd (rte_eth_devices e ! unat p) = Some Pmd_Other" and "unat n \<le> length bufs"
  shows "\<exists>x'. other_tx oth (other_state e) p 0 (take (unat n) bufs) = (nb, x') \<and> e' = e\<lparr>other_state := x'\<rparr>"
  using assms by (auto simp: rte_eth_tx_burst_def split: prod.splits if_splits)

lemma driver_rx_count:
  assumes "world_inv dins e h" and "driver_ok oth dins" and "other_rx oth (other_state e) p 0 n = (ms, x')"
  shows "unat (of_nat (length ms) :: u16) = length ms"
proof -
  have "mem_inv (other_state e) (inside dins e + h)" "mem_total dins (other_state e) \<subseteq># inside dins e + h"
    using assms(1) by (simp_all add: world_inv_def inside_def subset_mset.add_increasing2)
  then have "length ms \<le> unat n" using driver_rx [OF assms(2) _ _ assms(3)] by blast
  then show ?thesis using unsigned_less [of n, where ?'a = nat] by (intro unat_of_nat_u16) simp
qed

lemma tidy_rx:
  assumes "driver_tidy oth d" and "mem_tidy d x H" and "other_rx oth x p 0 n = (ms, x')"
  shows "mem_tidy d x' (mset ms + H)"
  using assms(1) [unfolded driver_tidy_def, THEN conjunct1, rule_format, OF assms(2), where p = p and n = n] assms(3) by simp

lemma tidy_tx:
  assumes "driver_tidy oth d" and "mem_tidy d x (mset ms + H)" and "other_tx oth x p 0 ms = (k, x')"
  shows "mem_tidy d x' (mset (drop (unat k) ms) + H)"
  using assms(1) [unfolded driver_tidy_def, THEN conjunct2, rule_format, OF assms(2), where p = p] assms(3) by simp

lemma not_ring_port:
  assumes "port_up oth dins e p" and "\<not> (\<exists>a\<in>dom (ring_at e). ring_port (rte_eth_devices e ! unat p) a)"
  shows "dev_pmd (rte_eth_devices e ! unat p) = Some Pmd_Other" and "driver_ok oth dins"
  using assms by (auto simp: port_up_def Let_def)

lemma ring_port_up:
  assumes "world_inv dins e h" and "port_up oth dins e p" and "\<exists>a\<in>dom (ring_at e). ring_port (rte_eth_devices e ! unat p) a"
  obtains a r where "ring_at e a = Some r" "ring_port (rte_eth_devices e ! unat p) a" "ring_inv r" "finite (dom (ring_at e))"
  using assms by (auto simp: world_inv_def ran_def)

lemma port_up_bound: "world_inv dins e h \<Longrightarrow> port_up oth dins e p \<Longrightarrow> unat p < length (rte_eth_devices e)"
  by (auto simp: world_inv_length port_up_def)

lemma inside_same_mem:
  assumes "other_state e' = other_state e" and "inside dins e' + A = inside dins e + B"
  shows "rings_mset (ring_at e') + A = rings_mset (ring_at e) + B"
proof -
  have "mem_total dins (other_state e) + (rings_mset (ring_at e') + A) = mem_total dins (other_state e) + (rings_mset (ring_at e) + B)"
    using assms by (simp add: inside_def union_ac)
  then show ?thesis by simp
qed

lemma nfv_rx:
  assumes inv: "nfv_inv d e h" and up: "nfv_up oth d e p" and len: "unat n \<le> length bufs"
  shows "\<exists>nb bufs' e'. rte_eth_rx_burst oth e p 0 bufs n = Some (nb, bufs', e') \<and> unat nb \<le> unat n
    \<and> length bufs' = length bufs \<and> nfv_inv d e' (h + mset (take (unat nb) bufs'))
    \<and> inside (d \<circ> st_dev) e' + mset (take (unat nb) bufs') = inside (d \<circ> st_dev) e \<and> nfv_up oth d e' = nfv_up oth d e"
proof -
  let ?D = "d \<circ> st_dev"
  have w: "world_inv ?D e h" and t: "mem_tidy d (other_state e) (rings_mset (ring_at e) + h)"
    and u: "port_up oth ?D e p" "driver_tidy oth d" using inv up by (simp_all add: nfv_inv_def nfv_up_def)
  note p = port_up_bound [OF w u(1)]
  obtain nb bufs' e' where x: "rte_eth_rx_burst oth e p 0 bufs n = Some (nb, bufs', e')" "unat nb \<le> unat n"
    "length bufs' = length bufs" "world_inv ?D e' (h + mset (take (unat nb) bufs'))"
    "inside ?D e' + mset (take (unat nb) bufs') = inside ?D e" "port_up oth ?D e' = port_up oth ?D e"
    using world_rx [OF w u(1) len] by blast
  have "mem_tidy d (other_state e') (rings_mset (ring_at e') + (h + mset (take (unat nb) bufs')))"
  proof (cases "\<exists>a\<in>dom (ring_at e). ring_port (rte_eth_devices e ! unat p) a")
    case True
    then obtain a r where r: "ring_at e a = Some r" "ring_port (rte_eth_devices e ! unat p) a" "ring_inv r"
      using ring_port_up [OF w u(1)] by metis
    have "other_state e' = other_state e"
      using rx_burst_ring [OF p r(2,1,3) len, of oth] x(1) by (auto simp: moved_ring_def)
    then show ?thesis using t inside_same_mem [of e' e ?D _ "{#}"] x(5) by (simp add: union_ac)
  next
    case False
    note o = not_ring_port [OF u(1) False]
    obtain ms x' where ms: "other_rx oth (other_state e) p 0 n = (ms, x')" "e' = e\<lparr>other_state := x'\<rparr>"
      "nb = of_nat (length ms)" "bufs' = ms @ drop (length ms) bufs"
      using rx_by_driver [OF x(1) p o(1) len] by blast
    have "take (unat nb) bufs' = ms" using driver_rx_count [OF w o(2) ms(1)] by (simp add: ms(3,4))
    moreover have "mem_tidy d x' (mset ms + (rings_mset (ring_at e) + h))"
      by (rule tidy_rx [OF u(2) t ms(1)])
    ultimately show ?thesis by (simp add: ms(2) union_ac)
  qed
  then show ?thesis using x by (simp add: nfv_inv_def nfv_up_def fun_eq_iff)
qed

lemma nfv_tx:
  assumes inv: "nfv_inv d e (h + mset (take (unat n) bufs))" and up: "nfv_up oth d e p" and len: "unat n \<le> length bufs"
  shows "\<exists>nb e'. rte_eth_tx_burst oth e p 0 bufs n = Some (nb, e') \<and> unat nb \<le> unat n
    \<and> nfv_inv d e' (h + mset (drop (unat nb) (take (unat n) bufs)))
    \<and> inside (d \<circ> st_dev) e' = inside (d \<circ> st_dev) e + mset (take (unat nb) bufs) \<and> nfv_up oth d e' = nfv_up oth d e"
proof -
  let ?D = "d \<circ> st_dev" and ?ms = "take (unat n) bufs"
  have w: "world_inv ?D e (h + mset ?ms)" and t: "mem_tidy d (other_state e) (rings_mset (ring_at e) + (h + mset ?ms))"
    and u: "port_up oth ?D e p" "driver_tidy oth d" using inv up by (simp_all add: nfv_inv_def nfv_up_def)
  note p = port_up_bound [OF w u(1)]
  obtain nb e' where x: "rte_eth_tx_burst oth e p 0 bufs n = Some (nb, e')" "unat nb \<le> unat n"
    "world_inv ?D e' (h + mset (drop (unat nb) ?ms))" "inside ?D e' = inside ?D e + mset (take (unat nb) bufs)"
    "port_up oth ?D e' = port_up oth ?D e"
    using world_tx [OF w u(1) len] by blast
  have split: "mset ?ms = mset (take (unat nb) bufs) + mset (drop (unat nb) ?ms)"
    using x(2) by (metis append_take_drop_id min.absorb1 mset_append take_take)
  have "mem_tidy d (other_state e') (rings_mset (ring_at e') + (h + mset (drop (unat nb) ?ms)))"
  proof (cases "\<exists>a\<in>dom (ring_at e). ring_port (rte_eth_devices e ! unat p) a")
    case True
    then obtain a r where r: "ring_at e a = Some r" "ring_port (rte_eth_devices e ! unat p) a" "ring_inv r"
      using ring_port_up [OF w u(1)] by metis
    have o: "other_state e' = other_state e"
      using tx_burst_ring [OF p r(2,1,3) len, of oth] x(1) by (auto simp: moved_ring_def)
    then have "rings_mset (ring_at e') = rings_mset (ring_at e) + mset (take (unat nb) bufs)"
      using inside_same_mem [of e' e ?D "{#}"] x(4) by simp
    then show ?thesis using t by (simp add: o split union_ac)
  next
    case False
    note o = not_ring_port [OF u(1) False]
    obtain x' where ms: "other_tx oth (other_state e) p 0 ?ms = (nb, x')" "e' = e\<lparr>other_state := x'\<rparr>"
      using tx_by_driver [OF x(1) p o(1) len] by blast
    have "mem_tidy d (other_state e) (mset ?ms + (rings_mset (ring_at e) + h))" using t by (simp add: union_ac)
    then have "mem_tidy d x' (mset (drop (unat nb) ?ms) + (rings_mset (ring_at e) + h))"
      by (rule tidy_tx [OF u(2) _ ms(1)])
    then show ?thesis by (simp add: ms(2) union_ac)
  qed
  then show ?thesis using x by (simp add: nfv_inv_def nfv_up_def fun_eq_iff)
qed

lemma mbuf_put_mem:
  assumes "mbuf_put lcore e m = Some e'"
  shows "ring_at e' = ring_at e" and "dev_priv (other_state e') = dev_priv (other_state e)"
    and "mbuf_pool (other_state e') = mbuf_pool (other_state e)"
  using assms by (auto simp: mbuf_put_def split: bind_splits)

lemma nfv_put:
  assumes inv: "nfv_inv d e (add_mset m h)"
  shows "\<exists>e'. nfv_free g lcore e m = Some e' \<and> nfv_inv d e' h
    \<and> inside (d \<circ> st_dev) e' = add_mset m (inside (d \<circ> st_dev) e) \<and> nfv_up oth d e' = nfv_up oth d e"
proof -
  let ?D = "d \<circ> st_dev" and ?R = "rings_mset (ring_at e)"
  have w: "world_inv ?D e (add_mset m h)" and t: "mem_tidy d (other_state e) (?R + add_mset m h)"
    using inv by (simp_all add: nfv_inv_def)
  obtain e1 where e1: "mbuf_put lcore e m = Some e1" "world_inv ?D e1 h" "inside ?D e1 = add_mset m (inside ?D e)"
    "port_up oth ?D e1 = port_up oth ?D e"
    using world_put [OF w] by blast
  let ?st = "shelve m (store e)" and ?e = "set_store (shelve m (store e)) e1"
  note fr = mbuf_put_mem [OF e1(1)]
  have free: "nfv_free g lcore e m = Some ?e"
    using nfv_free_plain [of e m g lcore] t e1(1) by (simp add: mem_tidy_def)
  have w1: "world_inv ?D ?e h" "inside ?D ?e = inside ?D e1"
    using world_set_store [OF e1(2), of ?st] fr(2) by simp_all
  have tot: "mem_total ?D (other_state ?e) + (?R + h) = mem_total ?D (other_state e) + (?R + add_mset m h)"
    using w1(2) e1(3) fr(1) by (simp add: inside_def set_store_def union_ac)
  have nd: "no_dups (mem_total ?D (other_state e) + (?R + add_mset m h))" using t by (simp add: mem_tidy_def)
  then have "m \<notin># mem_total ?D (other_state e) + (?R + h)"
    by (auto simp: no_dups_def count_eq_zero_iff [symmetric] dest!: spec [of _ m])
  then have "m \<notin># d (st_dev (store e)) + (?R + h)" by (simp add: mem_total_def)
  moreover have "\<forall>b\<in>#d (st_dev (store e)) + (?R + h). plain (store e) b" using t by (auto simp: mem_tidy_def)
  ultimately have "\<forall>b\<in>#d (st_dev (store e)) + (?R + h). plain ?st b" by (metis plain_shelve)
  moreover have "pools_agree (other_state ?e)"
    using t fr(3) by (auto simp: mem_tidy_def pools_agree_def set_store_def shelve_def fun_eq_iff option.map_comp comp_def released_def
        intro!: option.map_cong)
  ultimately have "mem_tidy d (other_state ?e) (rings_mset (ring_at ?e) + h)"
    using nd tot fr(1) by (simp add: mem_tidy_def) (simp add: set_store_def)
  moreover have "port_up oth ?D ?e = port_up oth ?D e1" by (simp add: port_up_def set_store_def fun_eq_iff)
  ultimately show ?thesis
    using free w1 e1(3,4) by (simp add: nfv_inv_def nfv_up_def fun_eq_iff)
qed

interpretation nfv_dp: data_plane "nfv_inv d" "inside (d \<circ> st_dev)" "nfv_up oth d" "rte_eth_rx_burst oth" "rte_eth_tx_burst oth"
  "nfv_free g lcore" for d oth g lcore
  by unfold_locales (rule nfv_rx nfv_tx nfv_put; assumption)+

section \<open>The forwarding loop\<close>

lemma nfv_loop_patch: "nfv_forward_loop oth g lcore z arr is e = patch_loop oth (nfv_free g lcore) z arr is e"
  by (induction "is" arbitrary: e) (auto split: Option.bind_split)

abbreviation nfv_patches_up :: "(u64, 'y mbuf_store) drivers \<Rightarrow> ('y \<Rightarrow> u64 multiset) \<Rightarrow> ('h, 'y) copy_eal \<Rightarrow> port list \<Rightarrow> bool" where
  "nfv_patches_up oth d e arr \<equiv> list_all (\<lambda>(i, j). nfv_up oth d e i \<and> nfv_up oth d e j) (active_patches arr)"

lemma nfv_forward_ok:
  assumes "nfv_inv d e h" and "table_ok arr" and "nfv_patches_up oth d e arr"
  shows "\<exists>e'. nfv_forward oth g lcore z arr e = Some e' \<and> nfv_inv d e' h
    \<and> inside (d \<circ> st_dev) e' = inside (d \<circ> st_dev) e \<and> nfv_up oth d e' = nfv_up oth d e"
  using nfv_dp.moves_conserve [OF assms(1,3), of g lcore z]
  by (simp add: nfv_forward_def nfv_loop_patch table_moves [OF assms(2)])

section \<open>Messages\<close>

text \<open>Every message but \<open>add ring\<close> does what it does in \<open>sec_zerocpy\<close>.\<close>
lemma nfv_dispatch_cases:
  assumes "nfv_dispatch env s buf tk = Some out"
  shows "dispatch env s buf tk = Some out \<or>
    (\<exists>buf'. nfv_add_ring env s buf' tk = Some out \<and> (buf' = buf \<or> cmd_status s = Some buf'))"
proof -
  obtain w buf' where t: "tok_str buf tk 0 = Some w" "(if w = ''status'' then cmd_status s else Some buf) = Some buf'"
    using assms by (auto simp: nfv_dispatch_def split: bind_splits)
  note step = dispatch_def nfv_dispatch_def t(1) t(2) Option.bind.simps
  show ?thesis
  proof (cases "tok_str buf' tk 0 = Some ''add'' \<and> tok_str buf' tk 1 = Some ''ring''")
    case True
    then have "nfv_add_ring env s buf' tk = Some out" using assms unfolding step by (simp add: nfv_add_def)
    then show ?thesis using t(2) by (auto split: if_splits)
  next
    case False
    then have "nfv_add env s buf' tk = cmd_add env s buf' tk" if "tok_str buf' tk 0 = Some ''add''"
      using that by (cases "tok_str buf' tk 1") (auto simp: nfv_add_def cmd_add_def)
    then have "dispatch env s buf tk = nfv_dispatch env s buf tk" unfolding step by (cases "tok_str buf' tk 0") auto
    then show ?thesis using assms by simp
  qed
qed

lemma nfv_message_cases:
  assumes "nfv_message env s str = Some out" and "length str = MSG_SIZE"
  shows "handle_message env s str = Some out \<or> (\<exists>buf tk. nfv_add_ring env s buf tk = Some out \<and> length buf = MSG_SIZE)"
proof -
  obtain buf tk where t: "tokens str = Some (buf, tk)" "nfv_dispatch env s buf tk = Some out"
    using assms(1) by (auto simp: nfv_message_def split: bind_splits)
  have len: "length buf = MSG_SIZE" using length_tokenize t(1) assms(2) unfolding tokens_def by fastforce
  show ?thesis using nfv_dispatch_cases [OF t(2)] t(1) len length_cmd_status by (auto simp: handle_message_def)
qed

lemma nfv_add_ring_keeps: "sec_inv s \<Longrightarrow> nfv_add_ring env s buf tk = Some out \<Longrightarrow> keeps (length buf) out"
  by (auto simp: nfv_add_ring_def keeps_def split: bind_splits if_splits prod.splits intro: sec_inv_status)

lemma nfv_message_keeps:
  assumes "sec_inv s" and "nfv_message env s str = Some out" and "length str = MSG_SIZE"
  shows "keeps MSG_SIZE out"
  using nfv_message_cases [OF assms(2,3)] handle_keeps [OF assms(1,3)] nfv_add_ring_keeps [OF assms(1)] by metis

lemma nfv_add_ring_same:
  assumes "nfv_add_ring env s buf tk = Some (Reply s' r)" and "eth_inv (sec_eal s)"
  shows "eal_same (sec_eal s) (sec_eal s')"
proof -
  obtain name a e1 ret where l: "rte_ring_lookup (sec_eal s) name = Some (a, e1)"
    and f: "rte_eth_from_ring (env_ops env) (env_data_size env) (env_internals_size env) e1 a = Some (ret, sec_eal s')"
    using assms(1) by (auto simp: nfv_add_ring_def split: bind_splits if_splits)
  then show ?thesis
    using eal_same_lookup [OF l] eal_same_from_ring [OF f] eth_inv_lookup [OF l] assms(2) eal_same_trans by metis
qed

text \<open>Only \<open>add vhost\<close> touches more of the libraries than the table of ports.\<close>
lemma handle_same:
  assumes "handle_message env s str = Some (Reply s' r)" and "eth_inv (sec_eal s)"
  shows "eal_same (sec_eal s) (sec_eal s') \<or> (\<exists>buf tk. cmd_add_vhost env s buf tk = Some (Reply s' r))"
proof -
  consider "sec_eal s' = sec_eal s" | buf tk where "cmd_add env s buf tk = Some (Reply s' r)"
    using assms(1) by (auto simp: handle_message_def dispatch_def cmds_same_eal split: bind_splits if_splits)
  then show ?thesis
  proof cases
    case (2 buf tk)
    then consider "cmd_add_vhost env s buf tk = Some (Reply s' r)" | "cmd_add_ring env s buf tk = Some (Reply s' r)"
      | "cmd_add_rx env s buf tk = Some (Reply s' r)" | "cmd_add_tx env s buf tk = Some (Reply s' r)" | "s' = s"
      by (auto simp: cmd_add_def split: bind_splits if_splits)
    then show ?thesis
      by cases (use cmd_add_ring_same [OF _ assms(2)] cmd_add_rx_same [OF _ assms(2)] cmd_add_tx_same [OF _ assms(2)] in auto)
  qed simp
qed

section \<open>The whole process\<close>

text \<open>Making a vhost port leaves all packets as they are; \<open>Spp_Nfv_Vhost\<close> shows it of the driver's code.\<close>
definition vhost_tidy :: "('h, u64, 'y mbuf_store) sec_env \<Rightarrow> ('y \<Rightarrow> u64 multiset) \<Rightarrow> bool" where
  "vhost_tidy env d \<longleftrightarrow> (\<forall>name index iface node mp e ret e' h.
     env_from_vhost env name index iface node mp e = Some (ret, e') \<and> nfv_inv d e h \<longrightarrow>
     nfv_inv d e' h \<and> inside (d \<circ> st_dev) e' = inside (d \<circ> st_dev) e)"

lemma eal_same_nfv:
  assumes "eal_same e e'" and "nfv_inv d e h"
  shows "nfv_inv d e' h \<and> inside (d \<circ> st_dev) e' = inside (d \<circ> st_dev) e"
  using assms by (auto simp: eal_same_def nfv_inv_def world_inv_def inside_def)

lemma nfv_message_kept:
  assumes "nfv_message env s str = Some (Reply s' r)" and "length str = MSG_SIZE"
    and "nfv_inv d (sec_eal s) h" and "vhost_tidy env d"
  shows "nfv_inv d (sec_eal s') h \<and> inside (d \<circ> st_dev) (sec_eal s') = inside (d \<circ> st_dev) (sec_eal s)"
proof -
  have e: "eth_inv (sec_eal s)" using assms(3) by (simp add: nfv_inv_def world_inv_def)
  consider "eal_same (sec_eal s) (sec_eal s')" | buf tk where "cmd_add_vhost env s buf tk = Some (Reply s' r)"
    using nfv_message_cases [OF assms(1,2)] handle_same [OF _ e] nfv_add_ring_same [OF _ e] by blast
  then show ?thesis
  proof cases
    case 1
    then show ?thesis using eal_same_nfv assms(3) by blast
  next
    case (2 buf tk)
    obtain mp e1 name index iface node ret where l: "rte_mempool_lookup (sec_eal s) PKTMBUF_POOL_NAME = Some (mp, e1)"
      and v: "env_from_vhost env name index iface node mp e1 = Some (ret, sec_eal s')"
      using 2 by (auto simp: cmd_add_vhost_def Let_def split: bind_splits if_splits)
    note k = eal_same_nfv [OF eal_same_mempool_lookup [OF l] assms(3)]
    then show ?thesis using assms(4) [unfolded vhost_tidy_def] v by metis
  qed
qed

inductive nfv_step ::
  "('h, u64, 'y mbuf_store) sec_env \<Rightarrow> (u64, 'y mbuf_store) drivers \<Rightarrow> ('y \<Rightarrow> u64 multiset) \<Rightarrow> mbuf_mem \<Rightarrow> nat \<Rightarrow> u64 \<Rightarrow>
     ('h, 'y) nfv \<Rightarrow> ('h, 'y) nfv \<Rightarrow> bool"
  for env oth d g lcore z where
  message: "\<lbrakk> length str = MSG_SIZE; nfv_message env s str = Some (Reply s' r);
              nfv_patches_up oth d (sec_eal s') (ports_fwd_array s') \<rbrakk> \<Longrightarrow> nfv_step env oth d g lcore z s s'"
| turn: "nfv_main_loop oth g lcore z s = Some s' \<Longrightarrow> nfv_step env oth d g lcore z s s'"

definition nfv_ok :: "(u64, 'y mbuf_store) drivers \<Rightarrow> ('y \<Rightarrow> u64 multiset) \<Rightarrow> u64 multiset \<Rightarrow> ('h, 'y) nfv \<Rightarrow> bool" where
  "nfv_ok oth d T s \<longleftrightarrow> sec_inv s \<and> nfv_inv d (sec_eal s) {#} \<and> inside (d \<circ> st_dev) (sec_eal s) = T
     \<and> nfv_patches_up oth d (sec_eal s) (ports_fwd_array s)"

lemma nfv_turn_ok:
  assumes "nfv_ok oth d T s"
  shows "\<exists>s'. nfv_main_loop oth g lcore z s = Some s' \<and> nfv_ok oth d T s'"
proof (cases "cmd s = FORWARD")
  case True
  obtain e' where "nfv_forward oth g lcore z (ports_fwd_array s) (sec_eal s) = Some e'" "nfv_inv d e' {#}"
    "inside (d \<circ> st_dev) e' = T" "nfv_up oth d e' = nfv_up oth d (sec_eal s)"
    using nfv_forward_ok [of d "sec_eal s" "{#}" "ports_fwd_array s" oth g lcore z] assms
    by (auto simp: nfv_ok_def sec_inv_def)
  then show ?thesis using True assms by (simp add: nfv_main_loop_def nfv_ok_def)
next
  case False
  then have "nfv_main_loop oth g lcore z s = Some s" using assms by (auto simp: nfv_main_loop_def nfv_ok_def sec_inv_def)
  then show ?thesis using assms by blast
qed

lemma nfv_step_ok:
  assumes "nfv_step env oth d g lcore z s s'" and "nfv_ok oth d T s" and "vhost_tidy env d"
  shows "nfv_ok oth d T s'"
  using assms(1)
proof cases
  case (message str r)
  have "keeps MSG_SIZE (Reply s' r)" using nfv_message_keeps [OF _ message(2,1)] assms(2) by (simp add: nfv_ok_def)
  moreover have "nfv_inv d (sec_eal s') {#} \<and> inside (d \<circ> st_dev) (sec_eal s') = inside (d \<circ> st_dev) (sec_eal s)"
    using nfv_message_kept [OF message(2,1) _ assms(3)] assms(2) unfolding nfv_ok_def by blast
  ultimately show ?thesis using assms(2) message(3) by (simp add: nfv_ok_def keeps_def)
next
  case turn
  then show ?thesis using nfv_turn_ok [OF assms(2), of g lcore z] by auto
qed

lemma nfv_reachable_ok:
  assumes "(nfv_step env oth d g lcore z)\<^sup>*\<^sup>* s s'" and "nfv_ok oth d T s" and "vhost_tidy env d"
  shows "nfv_ok oth d T s'"
  using assms by (induction rule: rtranclp_induct) (auto intro: nfv_step_ok)

section \<open>A process for the witnesses\<close>

text \<open>A network card that neither receives nor sends.\<close>
definition idle_nic :: "(u64, unit mbuf_store) drivers" where
  "idle_nic = \<lparr>other_rx = \<lambda>x p q n. ([], x), other_tx = \<lambda>x p q ms. (0, x)\<rparr>"

lemma idle_nic_ok: "driver_ok idle_nic ((\<lambda>_. {#}) \<circ> st_dev)" "driver_tidy idle_nic (\<lambda>_. {#})"
  by (simp_all add: driver_ok_def driver_tidy_def idle_nic_def)

text \<open>Two ring ports, the first with one packet, a network card, and an empty pool.\<close>
definition nfv_store :: "unit mbuf_store" where
  "nfv_store = \<lparr>st_mbuf = [0x20000 \<mapsto> (lent 0x20000 1 0)\<lparr>mb_pool := 0x5000\<rparr>], st_byte = Map.empty, st_dev = ()\<rparr>"

definition nfv_panel :: "(u64, unit) copy_eal" where
  "nfv_panel = \<lparr>memzone_cnt = 0, memzone = replicate RTE_MAX_MEMZONE null_memzone, malloc_heaps = 0x100000, rte_errno = 0,
     ring_at = [0x1000 \<mapsto> mp_ring tx_pool, 0x2000 \<mapsto> mp_ring void_pool], ring_tailq = [(0x800, 0x1000), (0x808, 0x2000)],
     rte_eth_devices = ring_dev 0x1000 # ring_dev 0x2000 # nic_dev # replicate 29 null_dev,
     eth_dev_data = replicate 32 (dev_data null_dev), nb_ports = 3,
     other_state = \<lparr>mempool_tailq = [0x5000], mempool_at = [0x5000 \<mapsto> void_pool],
       mbuf_pool = [0x20000 \<mapsto> 0x5000], dev_priv = nfv_store\<rparr>\<rparr>"

definition nfv_sec :: "(u64, unit) nfv" where
  "nfv_sec = \<lparr>client_id = 1, cmd = FORWARD, exec_pos = 0, save_pos = 0, rx_ports = replicate 32 0,
     rx_funcs = replicate 32 None, tx_ports = replicate 32 0, tx_funcs = replicate 32 None,
     rx_rings = replicate 32 0, tx_rings = replicate 32 0, ports_fwd_array = panel_table, sec_eal = nfv_panel\<rparr>"

definition nfv_env :: "(u64, u64, unit mbuf_store) sec_env" where
  "nfv_env = \<lparr>env_ops = bump_ops, env_data_size = 2048, env_internals_size = 1040,
     env_from_vhost = (\<lambda>name index iface node mp e. Some (- 1, e)), env_socket_id = 0\<rparr>"

lemma nfv_panel_rings: "rings_mset (ring_at nfv_panel) = {#0x20000#}" "mem_total (\<lambda>_. {#}) (other_state nfv_panel) = {#}"
proof -
  have "ring_list (mp_ring tx_pool) = [0x20000]" "ring_list (mp_ring void_pool) = []"
    by (simp_all add: ring_list_def tx_pool_def void_pool_def ring_get_def)
  then show "rings_mset (ring_at nfv_panel) = {#0x20000#}" by (simp add: map_mset_def nfv_panel_def)
  show "mem_total (\<lambda>_. {#}) (other_state nfv_panel) = {#}"
    by (simp add: mem_total_def map_mset_def nfv_panel_def void_pool_mset)
qed

lemma nfv_panel_plain: "plain (store nfv_panel) 0x20000" "pools_agree (other_state nfv_panel)"
  by (auto simp: plain_def pools_agree_def nfv_panel_def nfv_store_def lent_def zero_mbuf_def last_ref_def RTE_MBUF_INDIRECT_def)

lemma nfv_panel_inv: "nfv_inv (\<lambda>_. {#}) nfv_panel {#}"
proof -
  have D: "(\<lambda>_. {#}) \<circ> st_dev = (\<lambda>_ :: unit mbuf_store. {#})" by (simp add: fun_eq_iff)
  have "mem_inv (other_state nfv_panel) {#0x20000#}"
    using void_pool_inv by (auto simp: mem_inv_def nfv_panel_def own_def void_pool_mset) (simp add: void_pool_def)
  moreover have "\<forall>r\<in>ran (ring_at nfv_panel). ring_inv r"
    using tx_pool_inv void_pool_inv by (auto simp: nfv_panel_def pool_inv_def ran_def split: if_splits)
  moreover have "finite (dom (ring_at nfv_panel))" by (simp add: nfv_panel_def)
  moreover have "eth_inv nfv_panel"
    by (simp add: eth_inv_def nfv_panel_def ring_dev_def nic_dev_def null_dev_def RTE_MAX_ETHPORTS_def RTE_ETH_NAME_MAX_LEN_def list_all_iff)
  ultimately have "world_inv (\<lambda>_. {#}) nfv_panel {#}" by (simp add: world_inv_def inside_def nfv_panel_rings)
  then show ?thesis using nfv_panel_plain
    by (simp add: nfv_inv_def D mem_tidy_def nfv_panel_rings no_dups_def)
qed

lemma nfv_sec_ok: "nfv_ok idle_nic (\<lambda>_. {#}) {#0x20000#} nfv_sec"
proof -
  have up: "nfv_up idle_nic (\<lambda>_. {#}) nfv_panel 0" "nfv_up idle_nic (\<lambda>_. {#}) nfv_panel 1" "nfv_up idle_nic (\<lambda>_. {#}) nfv_panel 2"
    using idle_nic_ok by (simp_all add: nfv_up_def port_up_def nfv_panel_def RTE_MAX_ETHPORTS_def ring_dev_def ring_port_def nic_dev_def
        zero_queue_def)
  have "sec_inv nfv_sec" using panel_table_ok by (simp add: sec_inv_def nfv_sec_def RTE_MAX_ETHPORTS_def)
  moreover have "inside ((\<lambda>_. {#}) \<circ> st_dev) nfv_panel = {#0x20000#}"
    using nfv_panel_rings by (simp add: inside_def comp_def)
  ultimately show ?thesis using nfv_panel_inv up by (simp add: nfv_ok_def) (simp add: nfv_sec_def panel_table_active)
qed

section \<open>Properties\<close>

text \<open>
  C6. The process \<open>nfv_py\<close> as a whole: in every state that messages and forwarding turns reach in any
  order, while the operator patches only ports in service, the forwarding table is well-formed,
  exactly the buffers of the start are in rings, pools and devices, every packet outside the pools is
  still a single direct segment with one reference, and the next forwarding turn returns. That making a
  vhost port leaves the packets alone is shown of the vhost driver in \<open>Spp_Nfv_Vhost\<close>.
\<close>
theorem nfv_safe:
  assumes "(nfv_step env oth d g lcore z)\<^sup>*\<^sup>* s s'" and "nfv_ok oth d T s" and "vhost_tidy env d"
  shows "nfv_ok oth d T s' \<and> (\<exists>s''. nfv_main_loop oth g lcore z s' = Some s'')"
  using nfv_reachable_ok [OF assms] nfv_turn_ok [of oth d T s' g lcore z] by blast

theorem nfv_safe_witness:
  "\<exists>s'. nfv_step nfv_env idle_nic (\<lambda>_. {#}) mem_3 1 0 nfv_sec s' \<and> nfv_ok idle_nic (\<lambda>_. {#}) {#0x20000#} s'
    \<and> (\<exists>s''. nfv_main_loop idle_nic mem_3 1 0 s' = Some s'')"
proof -
  obtain s' where "nfv_main_loop idle_nic mem_3 1 0 nfv_sec = Some s'" using nfv_turn_ok [OF nfv_sec_ok] by blast
  then have step: "nfv_step nfv_env idle_nic (\<lambda>_. {#}) mem_3 1 0 nfv_sec s'" by (rule nfv_step.turn)
  have "vhost_tidy nfv_env (\<lambda>_. {#})" by (simp add: vhost_tidy_def nfv_env_def)
  then show ?thesis
    using nfv_safe [OF r_into_rtranclp [of "nfv_step nfv_env idle_nic (\<lambda>_. {#}) mem_3 1 0", OF step] nfv_sec_ok] step by blast
qed

text \<open>
  C7. What the two programs do with a packet that was not sent, here a chain of direct segments with
  one reference each, in pools that have room for them: \<open>nfv_py\<close> returns every segment to the pool it
  comes from, \<open>sec_zerocpy\<close> only the first one, so that all further segments are lost. For a packet of one segment
  both leave the same pools, and the states differ only in the reference count of its structure.
\<close>
theorem unsent_segments:
  assumes "segs (st_mbuf (store e)) m as" and "as \<noteq> []" and "list_all (in_pool (mem_of g e)) as"
    and "list_all (\<lambda>b. map_option last_ref (st_mbuf (store e) b) = Some True) as" and "pools_room (mem_of g e) as"
    and "pools_agree (other_state e)"
  shows "\<exists>e1 e2. mbuf_put lcore e m = Some e1 \<and> nfv_free g lcore e m = Some e2
    \<and> (\<forall>p mp. mempool_at (other_state e) p = Some mp \<longrightarrow> (\<exists>mp1 mp2.
        mempool_at (other_state e1) p = Some mp1 \<and> pool_mset mp1 = pool_mset mp + mset (filter (own (other_state e) p) [m])
        \<and> mempool_at (other_state e2) p = Some mp2 \<and> pool_mset mp2 = pool_mset mp + mset (filter (own (other_state e) p) as)))
    \<and> (length as = 1 \<longrightarrow> e2 = set_store (shelve m (store e)) e1)"
proof -
  have ret: "returned (mbuf_at (mem_of g e)) p as = filter (own (other_state e) p) as" for p
    using assms(4,6) unfolding returned_def
    by (intro filter_cong) (fastforce simp: mem_of_def own_def pools_agree_def list_all_iff split: option.splits)+
  obtain s' where s': "rte_pktmbuf_free lcore m (mem_of g e) = Some s'"
    "\<forall>p. rel_option (\<lambda>mp mp'. pool_inv mp' \<and> mp_size mp' = mp_size mp
          \<and> pool_mset mp' = pool_mset mp + mset (filter (own (other_state e) p) as)) (mempool_at (other_state e) p) (pktpool_at s' p)"
    using free_chain [of "mem_of g e" m as lcore] assms(1,3,5) ret by (auto simp: mem_of_def)
  have m: "m \<in> set as" "m \<noteq> 0" using assms(1,2) by (cases as; auto split: option.splits)+
  obtain r mp where r: "st_mbuf (store e) m = Some r" "\<not> RTE_MBUF_INDIRECT r" "last_ref r"
    "mempool_at (other_state e) (mb_pool r) = Some mp"
    using assms(3,4) m(1) by (fastforce simp: list_all_iff in_pool_def mem_of_def split: option.splits)
  have pool: "mbuf_pool (other_state e) m = Some (mb_pool r)" using assms(6) r(1) by (simp add: pools_agree_def)
  have "0 < length (filter (own (other_state e) (mb_pool r)) as)" using m(1) pool by (auto simp: own_def filter_empty_conv)
  moreover have "pool_inv mp \<and> size (pool_mset mp) + length (filter (own (other_state e) (mb_pool r)) as) \<le> unat (mp_size mp)"
    using assms(5) r(4) unfolding pools_room_def ret by (simp add: mem_of_def)
  ultimately have "pool_inv mp" "size (pool_mset mp) < unat (mp_size mp)" by linarith+
  then obtain mp' where put: "rte_mempool_put lcore mp m = Some mp'" "pool_mset mp' = add_mset m (pool_mset mp)"
    using put_one by metis
  let ?e1 = "set_pool (mb_pool r) mp' e"
  have e1: "mbuf_put lcore e m = Some ?e1" using pool r(4) put(1) by (simp add: mbuf_put_def set_pool_def)
  have e2: "nfv_free g lcore e m = Some (set_mem s' e)" using s'(1) by (simp add: nfv_free_def)
  have "plain (store e) m" if "length as = 1"
    using that assms(1) r m by (cases as) (auto simp: plain_def)
  then have single: "length as = 1 \<longrightarrow> set_mem s' e = set_store (shelve m (store e)) ?e1"
    using nfv_free_plain [of e m g lcore] assms(6) e1 e2 by simp
  have "\<exists>mp1 mp2. mempool_at (other_state ?e1) p = Some mp1 \<and> pool_mset mp1 = pool_mset mq + mset (filter (own (other_state e) p) [m])
        \<and> mempool_at (other_state (set_mem s' e)) p = Some mp2 \<and> pool_mset mp2 = pool_mset mq + mset (filter (own (other_state e) p) as)"
    if "mempool_at (other_state e) p = Some mq" for p mq
    using that s'(2) [rule_format, of p] put(2) pool r(4)
    by (auto simp: set_pool_def set_mem_def own_def option_rel_Some1)
  then show ?thesis using e1 e2 single by blast
qed

text \<open>Two segments of one pool.\<close>
definition chain_panel :: "(u64, unit) copy_eal" where
  "chain_panel = nfv_panel\<lparr>other_state := (other_state nfv_panel)\<lparr>mbuf_pool := [0x20000 \<mapsto> 0x5000, 0x30000 \<mapsto> 0x5000],
     dev_priv := nfv_store\<lparr>st_mbuf := [0x20000 \<mapsto> (lent 0x20000 1 0x30000)\<lparr>mb_pool := 0x5000\<rparr>,
       0x30000 \<mapsto> (lent 0x30000 1 0)\<lparr>mb_pool := 0x5000\<rparr>]\<rparr>\<rparr>\<rparr>"

theorem unsent_segments_witness:
  "\<exists>e1 e2 mp1 mp2. mbuf_put 0 chain_panel 0x20000 = Some e1 \<and> nfv_free mem_3 0 chain_panel 0x20000 = Some e2
    \<and> mempool_at (other_state e1) 0x5000 = Some mp1 \<and> pool_mset mp1 = {#0x20000#}
    \<and> mempool_at (other_state e2) 0x5000 = Some mp2 \<and> pool_mset mp2 = {#0x20000, 0x30000#}"
proof -
  let ?as = "[0x20000, 0x30000] :: u64 list" and ?e = chain_panel
  note defs = chain_panel_def nfv_panel_def nfv_store_def
  have r: "st_mbuf (store ?e) = [0x20000 \<mapsto> (lent 0x20000 1 0x30000)\<lparr>mb_pool := 0x5000\<rparr>, 0x30000 \<mapsto> (lent 0x30000 1 0)\<lparr>mb_pool := 0x5000\<rparr>]"
    "mempool_at (other_state ?e) = [0x5000 \<mapsto> void_pool]" "mbuf_pool (other_state ?e) = [0x20000 \<mapsto> 0x5000, 0x30000 \<mapsto> 0x5000]"
    by (simp_all add: defs)
  have l: "last_ref (lent a 1 n\<lparr>mb_pool := p\<rparr>)" "mb_next (lent a 1 n\<lparr>mb_pool := p\<rparr>) = n" "\<not> RTE_MBUF_INDIRECT (lent a 1 n\<lparr>mb_pool := p\<rparr>)" for a n p
    by (simp_all add: lent_def last_ref_def RTE_MBUF_INDIRECT_def zero_mbuf_def)
  have s: "segs (st_mbuf (store ?e)) 0x20000 ?as" by (simp add: r l)
  have ip: "list_all (in_pool (mem_of mem_3 ?e)) ?as" by (simp add: in_pool_def mem_of_def r l)
  have lr: "list_all (\<lambda>b. map_option last_ref (st_mbuf (store ?e) b) = Some True) ?as" by (simp add: r l)
  have "unat (mp_size void_pool) = 8" by (simp add: void_pool_def)
  then have room: "pools_room (mem_of mem_3 ?e) ?as"
    using void_pool_inv by (simp add: pools_room_def mem_of_def r void_pool_mset returned_def l)
  have ag: "pools_agree (other_state ?e)" by (auto simp: pools_agree_def r fun_eq_iff)
  have f: "filter (own (other_state ?e) 0x5000) bs = bs" if "set bs \<subseteq> {0x20000, 0x30000}" for bs
    using that by (auto simp: filter_id_conv own_def r)
  obtain e1 e2 where e: "mbuf_put 0 ?e 0x20000 = Some e1" "nfv_free mem_3 0 ?e 0x20000 = Some e2"
    "\<forall>p mp. mempool_at (other_state ?e) p = Some mp \<longrightarrow> (\<exists>mp1 mp2.
        mempool_at (other_state e1) p = Some mp1 \<and> pool_mset mp1 = pool_mset mp + mset (filter (own (other_state ?e) p) [0x20000])
        \<and> mempool_at (other_state e2) p = Some mp2 \<and> pool_mset mp2 = pool_mset mp + mset (filter (own (other_state ?e) p) ?as))"
    using unsent_segments [OF s _ ip lr room ag, of 0] by blast
  have "mempool_at (other_state ?e) 0x5000 = Some void_pool" by (simp add: r)
  from e(3) [rule_format, OF this] show ?thesis using e(1,2) f [of "[0x20000]"] f [of ?as] by (auto simp: void_pool_mset)
qed

end
