(* ===== verification/Rte_Eth_Vhost.thy ===== *)
theory Rte_Eth_Vhost
  imports Spp_Panel
begin

text \<open>
  The vhost port driver (\<open>drivers/net/vhost/rte_eth_vhost.c\<close>), one thread at a time: its queues
  and private data, the burst functions with their counters, the statistics, the callbacks for
  guests that come and go, and making and removing a port. The vhost library is a parameter. Its
  interplay between threads is the subject of \<open>Rte_Vhost_Sync\<close>. Shown is that making a port adds
  exactly one port with the promised properties, and that the control plane may rely on it.
\<close>

section \<open>Data\<close>

text \<open>The pointer \<open>internal\<close> of a queue only tells whether it has been set.\<close>
record vhost_queue =
  vhq_device :: u64
  vhq_internal :: bool
  vhq_mb_pool :: u64
  vhq_rx_pkts :: u64
  vhq_tx_pkts :: u64
  vhq_err_pkts :: u64
  vhq_rx_executing :: bool
  vhq_tx_executing :: bool

record pmd_internal =
  pi_dev_name :: string
  pi_iface_name :: string
  pi_nb_rx_queues :: u32
  pi_nb_tx_queues :: u32
  pi_xfer :: bool
  pi_rx_queues :: "vhost_queue list"
  pi_tx_queues :: "vhost_queue list"

text \<open>
  The private data by address, the list \<open>internals_list\<close>, the \<open>dev_private\<close> pointer of each port,
  the addresses of its data and of its PCI device, whether the session thread runs, and the state
  of the vhost library.
\<close>
record 'w vhost_state =
  vh_internal_at :: "u64 \<rightharpoonup> pmd_internal"
  vh_internals_list :: "u64 list"
  vh_dev_private :: "nat \<rightharpoonup> u64"
  vh_dev_mem :: "nat \<rightharpoonup> u64 \<times> u64"
  vh_session :: bool
  vh_lib :: 'w

type_synonym ('h, 'm, 'w) vhost_eal = "('h, 'm, 'w vhost_state) spp_eal"

abbreviation vh :: "('h, 'm, 'w) vhost_eal \<Rightarrow> 'w vhost_state" where
  "vh e \<equiv> dev_priv (other_state e)"

definition upd_vh :: "('w vhost_state \<Rightarrow> 'w vhost_state) \<Rightarrow> ('h, 'm, 'w) vhost_eal \<Rightarrow> ('h, 'm, 'w) vhost_eal" where
  "upd_vh f e = e\<lparr>other_state := (other_state e)\<lparr>dev_priv := f (vh e)\<rparr>\<rparr>"

definition zero_vhost_queue :: vhost_queue where
  "zero_vhost_queue = \<lparr>vhq_device = 0, vhq_internal = False, vhq_mb_pool = 0, vhq_rx_pkts = 0, vhq_tx_pkts = 0,
     vhq_err_pkts = 0, vhq_rx_executing = False, vhq_tx_executing = False\<rparr>"

section \<open>Bursts\<close>

text \<open>
  \<open>deq\<close> is \<open>rte_vhost_dequeue_burst\<close> on a device and a pool, \<open>enq\<close> is \<open>rte_vhost_enqueue_burst\<close>,
  \<open>free\<close> is \<open>rte_pktmbuf_free\<close>; \<open>s\<close> is what they work on. No other thread runs in between.
\<close>
definition eth_vhost_rx ::
  "(u64 \<Rightarrow> u64 \<Rightarrow> 'm list \<Rightarrow> u16 \<Rightarrow> 's \<Rightarrow> (u16 \<times> 'm list \<times> 's) option) \<Rightarrow> bool \<Rightarrow> vhost_queue \<Rightarrow> 'm list \<Rightarrow> u16 \<Rightarrow> 's \<Rightarrow>
     (u16 \<times> 'm list \<times> vhost_queue \<times> 's) option" where
  "eth_vhost_rx deq xf r bufs nb_bufs s =
     (if \<not> vhq_internal r then Some (0, bufs, r, s)
      else if \<not> xf then Some (0, bufs, r, s)
      else do {
        (nb_rx, bufs, s) \<leftarrow> deq (vhq_device r) (vhq_mb_pool r) bufs nb_bufs s;
        Some (nb_rx, bufs, r\<lparr>vhq_rx_pkts := vhq_rx_pkts r + ucast nb_rx, vhq_rx_executing := False\<rparr>, s) })"

fun free_sent :: "('m \<Rightarrow> 's \<Rightarrow> 's option) \<Rightarrow> 'm list \<Rightarrow> nat \<Rightarrow> nat \<Rightarrow> 's \<Rightarrow> 's option" where
  "free_sent free bufs 0 i s = Some s"
| "free_sent free bufs (Suc k) i s =
     do { m \<leftarrow> aget bufs i; s \<leftarrow> free m s; free_sent free bufs k (i + 1) s }"

text \<open>The difference \<open>nb_bufs - nb_tx\<close> is an \<open>int\<close> added to a 64-bit counter.\<close>
definition eth_vhost_tx ::
  "(u64 \<Rightarrow> 'm list \<Rightarrow> u16 \<Rightarrow> 's \<Rightarrow> (u16 \<times> 's) option) \<Rightarrow> ('m \<Rightarrow> 's \<Rightarrow> 's option) \<Rightarrow>
     bool \<Rightarrow> vhost_queue \<Rightarrow> 'm list \<Rightarrow> u16 \<Rightarrow> 's \<Rightarrow> (u16 \<times> vhost_queue \<times> 's) option" where
  "eth_vhost_tx enq free xf r bufs nb_bufs s =
     (if \<not> vhq_internal r then Some (0, r, s)
      else if \<not> xf then Some (0, r, s)
      else do {
        (nb_tx, s) \<leftarrow> enq (vhq_device r) bufs nb_bufs s;
        let r = r\<lparr>vhq_tx_pkts := vhq_tx_pkts r + ucast nb_tx,
                  vhq_err_pkts := vhq_err_pkts r + word_of_int (uint nb_bufs - uint nb_tx)\<rparr>;
        s \<leftarrow> free_sent free bufs (unat nb_tx) 0 s;
        Some (nb_tx, r\<lparr>vhq_tx_executing := False\<rparr>, s) })"

section \<open>Statistics\<close>

definition RTE_ETHDEV_QUEUE_STAT_CNTRS :: nat where "RTE_ETHDEV_QUEUE_STAT_CNTRS = 16"

record vhost_stats =
  vs_q_ipackets :: "u64 list"
  vs_q_opackets :: "u64 list"
  vs_q_errors :: "u64 list"
  vs_ipackets :: u64
  vs_opackets :: u64
  vs_oerrors :: u64

definition vhost_stats_get :: "pmd_internal \<Rightarrow> vhost_stats" where
  "vhost_stats_get ints =
     (let rx = take (min RTE_ETHDEV_QUEUE_STAT_CNTRS (unat (pi_nb_rx_queues ints))) (pi_rx_queues ints);
          tx = take (min RTE_ETHDEV_QUEUE_STAT_CNTRS (unat (pi_nb_tx_queues ints))) (pi_tx_queues ints)
      in \<lparr>vs_q_ipackets = map vhq_rx_pkts rx, vs_q_opackets = map vhq_tx_pkts tx, vs_q_errors = map vhq_err_pkts tx,
          vs_ipackets = sum_list (map vhq_rx_pkts rx), vs_opackets = sum_list (map vhq_tx_pkts tx),
          vs_oerrors = sum_list (map vhq_err_pkts tx)\<rparr>)"

text \<open>The first \<open>n\<close> queues of an array are changed.\<close>
definition upd_queues :: "u32 \<Rightarrow> (vhost_queue \<Rightarrow> vhost_queue) \<Rightarrow> vhost_queue list \<Rightarrow> vhost_queue list" where
  "upd_queues n f qs = map f (take (unat n) qs) @ drop (unat n) qs"

definition vhost_stats_reset :: "pmd_internal \<Rightarrow> pmd_internal" where
  "vhost_stats_reset ints =
     ints\<lparr>pi_rx_queues := upd_queues (pi_nb_rx_queues ints) (\<lambda>q. q\<lparr>vhq_rx_pkts := 0\<rparr>) (pi_rx_queues ints),
          pi_tx_queues := upd_queues (pi_nb_tx_queues ints) (\<lambda>q. q\<lparr>vhq_tx_pkts := 0, vhq_err_pkts := 0\<rparr>) (pi_tx_queues ints)\<rparr>"

section \<open>Guests come and go\<close>

text \<open>The inner \<^term>\<open>None\<close> is \<open>NULL\<close>, the outer one a list entry that is no private data.\<close>
fun find_internal_loop :: "(u64 \<rightharpoonup> pmd_internal) \<Rightarrow> string \<Rightarrow> u64 list \<Rightarrow> u64 option option" where
  "find_internal_loop ints ifname [] = Some None"
| "find_internal_loop ints ifname (a # q) =
     do { i \<leftarrow> ints a;
          if pi_iface_name i = ifname then Some (Some a) else find_internal_loop ints ifname q }"

definition find_internal_resource :: "string \<Rightarrow> 'w vhost_state \<Rightarrow> u64 option option" where
  "find_internal_resource ifname v = find_internal_loop (vh_internal_at v) ifname (vh_internals_list v)"

definition connect_queues :: "u64 \<Rightarrow> pmd_internal \<Rightarrow> pmd_internal" where
  "connect_queues dev ints =
     ints\<lparr>pi_rx_queues := upd_queues (pi_nb_rx_queues ints) (\<lambda>q. q\<lparr>vhq_device := dev, vhq_internal := True\<rparr>) (pi_rx_queues ints),
          pi_tx_queues := upd_queues (pi_nb_tx_queues ints) (\<lambda>q. q\<lparr>vhq_device := dev, vhq_internal := True\<rparr>) (pi_tx_queues ints),
          pi_xfer := True\<rparr>"

text \<open>The result is the port that goes into \<open>dev->priv\<close> beside the return value.\<close>
definition new_device :: "u64 \<Rightarrow> string \<Rightarrow> ('h, 'm, 'w) vhost_eal \<Rightarrow> (int \<times> nat option \<times> ('h, 'm, 'w) vhost_eal) option" where
  "new_device dev ifname e =
     (if dev = 0 then Some (- 1, None, e)
      else do {
        a \<leftarrow> find_internal_resource ifname (vh e);
        case a of None \<Rightarrow> Some (- 1, None, e)
        | Some a \<Rightarrow> do {
            ints \<leftarrow> vh_internal_at (vh e) a;
            case rte_eth_dev_allocated e (pi_dev_name ints) of
              None \<Rightarrow> Some (- 1, None, e)
            | Some p \<Rightarrow> do {
                b \<leftarrow> vh_dev_private (vh e) p;
                ints \<leftarrow> vh_internal_at (vh e) b;
                Some (0, Some p,
                  upd_vh (\<lambda>v. v\<lparr>vh_internal_at := (vh_internal_at v)(b \<mapsto> connect_queues dev ints)\<rparr>)
                    (upd_dev e p (set_link True))) } } })"

text \<open>\<^term>\<open>None\<close> is the wait for a burst function that is still running.\<close>
definition destroy_device :: "u64 \<Rightarrow> nat option \<Rightarrow> ('h, 'm, 'w) vhost_eal \<Rightarrow> ('h, 'm, 'w) vhost_eal option" where
  "destroy_device dev priv e =
     (if dev = 0 then Some e
      else case priv of None \<Rightarrow> Some e
      | Some p \<Rightarrow> do {
          a \<leftarrow> vh_dev_private (vh e) p;
          ints \<leftarrow> vh_internal_at (vh e) a;
          let nrx = pi_nb_rx_queues ints;
          let ntx = pi_nb_tx_queues ints;
          if list_ex vhq_rx_executing (take (unat nrx) (pi_rx_queues ints))
             \<or> list_ex vhq_tx_executing (take (unat ntx) (pi_tx_queues ints)) then None
          else Some (upd_vh (\<lambda>v. v\<lparr>vh_internal_at := (vh_internal_at v)(a \<mapsto>
                   ints\<lparr>pi_xfer := False,
                        pi_rx_queues := upd_queues nrx (\<lambda>q. q\<lparr>vhq_device := 0\<rparr>) (pi_rx_queues ints),
                        pi_tx_queues := upd_queues ntx (\<lambda>q. q\<lparr>vhq_device := 0\<rparr>) (pi_tx_queues ints)\<rparr>)\<rparr>)
                 (upd_dev e p (set_link False))) })"

section \<open>Making a port\<close>

text \<open>
  The sizes of the structures, which calls of \<open>strdup\<close> succeed (by the string), and
  \<open>rte_vhost_driver_register\<close> and \<open>rte_vhost_driver_unregister\<close>.
\<close>
record ('h, 'w) vhost_env =
  ve_ops :: "'h heap_ops"
  ve_data_size :: u64
  ve_pci_size :: u64
  ve_internal_size :: u64
  ve_strdup :: "string \<Rightarrow> bool"
  ve_register :: "string \<Rightarrow> 'w \<Rightarrow> int \<times> 'w"
  ve_unregister :: "string \<Rightarrow> 'w \<Rightarrow> 'w"

text \<open>Allocations in order until one fails; the addresses that were obtained.\<close>
fun alloc_list :: "'h heap_ops \<Rightarrow> u64 list \<Rightarrow> 'h \<Rightarrow> u64 list \<times> 'h" where
  "alloc_list ops [] h = ([], h)"
| "alloc_list ops (sz # szs) h =
     (case rte_zmalloc ops h sz of (a, h) \<Rightarrow>
        if a = 0 then ([], h) else case alloc_list ops szs h of (as, h) \<Rightarrow> (a # as, h))"

text \<open>
  The error exit frees the data, the PCI device, the private data and the address of the port,
  but neither array of queue pointers. The addresses are those obtained so far, in the order of
  the allocations of \<open>rte_eth_from_vhost_create\<close>.
\<close>
definition create_error :: "'h heap_ops \<Rightarrow> u64 list \<Rightarrow> 'h \<Rightarrow> 'h" where
  "create_error ops as h = foldl (rte_free ops) h (take 1 as @ drop 3 as)"

definition vhost_internal :: "string \<Rightarrow> string \<Rightarrow> u64 \<Rightarrow> pmd_internal" where
  "vhost_internal name iface mb_pool =
     \<lparr>pi_dev_name = name, pi_iface_name = iface, pi_nb_rx_queues = 1, pi_nb_tx_queues = 1, pi_xfer = False,
      pi_rx_queues = zero_vhost_queue\<lparr>vhq_mb_pool := mb_pool\<rparr> # replicate (RTE_PMD_RING_MAX_RX_RINGS - 1) zero_vhost_queue,
      pi_tx_queues = zero_vhost_queue\<lparr>vhq_mb_pool := mb_pool\<rparr> # replicate (RTE_PMD_RING_MAX_TX_RINGS - 1) zero_vhost_queue\<rparr>"

text \<open>The last part of either function: the port \<open>p\<close> gets its data, driver and private data at \<open>a\<close>.\<close>
definition vhost_install ::
  "nat option list \<Rightarrow> u64 \<times> u64 \<Rightarrow> u64 \<Rightarrow> pmd_internal \<Rightarrow> nat \<Rightarrow> ('h, 'm, 'w) vhost_eal \<Rightarrow> int \<times> ('h, 'm, 'w) vhost_eal" where
  "vhost_install queues mem a ints p e =
     (let old = dev_data (rte_eth_devices e ! p);
          data = \<lparr>dd_name = dd_name old, dd_rx_queues = queues, dd_tx_queues = queues,
                  dd_nb_rx_queues = 1, dd_nb_tx_queues = 1, dd_link_status = False,
                  dd_port_id = dd_port_id old, dd_dev_flags = 0, dd_kdrv = RTE_KDRV_UNKNOWN, dd_numa_node = 0\<rparr>
      in (int (unat (dd_port_id data)),
          upd_vh (\<lambda>v. v\<lparr>vh_internal_at := (vh_internal_at v)(a \<mapsto> ints), vh_internals_list := vh_internals_list v @ [a],
                         vh_dev_private := (vh_dev_private v)(p \<mapsto> a), vh_dev_mem := (vh_dev_mem v)(p \<mapsto> mem),
                         vh_session := True\<rparr>)
            (upd_dev e p (\<lambda>d. d\<lparr>dev_data := data, dev_pmd := Some Pmd_Other\<rparr>))))"

text \<open>The MAC address made of the index is not part of the model.\<close>
definition rte_eth_from_vhost_create ::
  "('h, 'w) vhost_env \<Rightarrow> string \<Rightarrow> string \<Rightarrow> u64 \<Rightarrow> ('h, 'm, 'w) vhost_eal \<Rightarrow> int \<times> ('h, 'm, 'w) vhost_eal" where
  "rte_eth_from_vhost_create env name iface_name mb_pool e =
     (let ops = ve_ops env in
      case alloc_list ops [ve_data_size env, 8, 8, ve_pci_size env, ve_internal_size env, 6] (malloc_heaps e) of
        (as, h) \<Rightarrow>
          if length as < 6 then (- 1, e\<lparr>malloc_heaps := create_error ops as h\<rparr>)
          else case rte_eth_dev_allocate (e\<lparr>malloc_heaps := h\<rparr>) name RTE_ETH_DEV_VIRTUAL of
            (None, e) \<Rightarrow> (- 1, e\<lparr>malloc_heaps := create_error ops as h\<rparr>)
          | (Some p, e) \<Rightarrow>
              if \<not> ve_strdup env name \<or> \<not> ve_strdup env iface_name
              then (- 1, e\<lparr>malloc_heaps := create_error ops as h\<rparr>)
              else vhost_install [Some 0] (as ! 0, as ! 3) (as ! 4) (vhost_internal name iface_name mb_pool) p e)"

text \<open>Without arrays of queue pointers and without a pool; both come with the queue setup calls.\<close>
definition eth_dev_vhost_create ::
  "('h, 'w) vhost_env \<Rightarrow> string \<Rightarrow> string \<Rightarrow> ('h, 'm, 'w) vhost_eal \<Rightarrow> int \<times> ('h, 'm, 'w) vhost_eal" where
  "eth_dev_vhost_create env name iface_name e =
     (let ops = ve_ops env in
      case alloc_list ops [ve_data_size env, ve_pci_size env, ve_internal_size env, 6] (malloc_heaps e) of
        (as, h) \<Rightarrow>
          if length as < 4 then (- 1, e\<lparr>malloc_heaps := foldl (rte_free ops) h as\<rparr>)
          else case rte_eth_dev_allocate (e\<lparr>malloc_heaps := h\<rparr>) name RTE_ETH_DEV_VIRTUAL of
            (None, e) \<Rightarrow> (- 1, e\<lparr>malloc_heaps := foldl (rte_free ops) h as\<rparr>)
          | (Some p, e) \<Rightarrow>
              if \<not> ve_strdup env name \<or> \<not> ve_strdup env iface_name
              then (- 1, e\<lparr>malloc_heaps := foldl (rte_free ops) h as\<rparr>)
              else vhost_install [] (as ! 0, as ! 1) (as ! 2) (vhost_internal name iface_name 0) p e)"

definition rte_eth_from_vhost ::
  "('h, 'w) vhost_env \<Rightarrow> string \<Rightarrow> int \<Rightarrow> string \<Rightarrow> u32 \<Rightarrow> u64 \<Rightarrow> ('h, 'm, 'w) vhost_eal \<Rightarrow> (int \<times> ('h, 'm, 'w) vhost_eal) option" where
  "rte_eth_from_vhost env name index iface_name numa_node mb_pool e =
     (case rte_eth_from_vhost_create env name iface_name mb_pool e of
        (port_id, e) \<Rightarrow>
          if port_id \<ge> 0
          then (case ve_register env iface_name (vh_lib (vh e)) of
                  (ret, w) \<Rightarrow>
                    let e = upd_vh (\<lambda>v. v\<lparr>vh_lib := w\<rparr>) e
                    in if ret < 0 then Some (ret, e) else Some (port_id, e))
          else Some (port_id, e))"

text \<open>\<^term>\<open>None\<close>: a port of that name without private data of this driver.\<close>
definition rte_pmd_vhost_devuninit ::
  "('h, 'w) vhost_env \<Rightarrow> string option \<Rightarrow> ('h, 'm, 'w) vhost_eal \<Rightarrow> (int \<times> ('h, 'm, 'w) vhost_eal) option" where
  "rte_pmd_vhost_devuninit env name e =
     (case name of None \<Rightarrow> Some (- EINVAL, e)
      | Some name \<Rightarrow>
          (case rte_eth_dev_allocated e name of
             None \<Rightarrow> Some (- ENODEV, e)
           | Some p \<Rightarrow> do {
               a \<leftarrow> vh_dev_private (vh e) p;
               ints \<leftarrow> vh_internal_at (vh e) a;
               (data, pci) \<leftarrow> vh_dev_mem (vh e) p;
               let e = upd_vh (\<lambda>v. v\<lparr>vh_internals_list := remove1 a (vh_internals_list v),
                     vh_lib := ve_unregister env (pi_iface_name ints) (vh_lib v),
                     vh_internal_at := (vh_internal_at v)(a := None), vh_dev_private := (vh_dev_private v)(p := None),
                     vh_dev_mem := (vh_dev_mem v)(p := None)\<rparr>) e;
               let e = e\<lparr>malloc_heaps := foldl (rte_free (ve_ops env)) (malloc_heaps e) [a, data, pci]\<rparr>;
               Some (0, snd (rte_eth_dev_release_port e (Some p))) }))"

section \<open>The new port\<close>

lemma upd_vh_frame [simp]:
  "ring_at (upd_vh f e) = ring_at e" "rte_eth_devices (upd_vh f e) = rte_eth_devices e" "eth_inv (upd_vh f e) = eth_inv e"
  "nb_ports (upd_vh f e) = nb_ports e" "vh (upd_vh f e) = f (vh e)" "eth_dev_data (upd_vh f e) = eth_dev_data e"
  by (simp_all add: upd_vh_def)

text \<open>What making the port \<open>p\<close> adds, and that all else stays.\<close>
definition vhost_port_added ::
  "string \<Rightarrow> string \<Rightarrow> u64 \<Rightarrow> ('h, 'm, 'w) vhost_eal \<Rightarrow> nat \<Rightarrow> ('h, 'm, 'w) vhost_eal \<Rightarrow> bool" where
  "vhost_port_added name iface mb_pool e p e' \<longleftrightarrow>
     p < RTE_MAX_ETHPORTS \<and> \<not> dev_attached (rte_eth_devices e ! p) \<and> dev_attached (rte_eth_devices e' ! p)
     \<and> dev_type (rte_eth_devices e' ! p) = RTE_ETH_DEV_VIRTUAL \<and> dev_pmd (rte_eth_devices e' ! p) = Some Pmd_Other
     \<and> rte_eth_dev_allocated e' name = Some p \<and> unat (nb_ports e') = Suc (unat (nb_ports e))
     \<and> (\<forall>j. j \<noteq> p \<longrightarrow> rte_eth_devices e' ! j = rte_eth_devices e ! j)
     \<and> (\<exists>a. vh_dev_private (vh e') p = Some a \<and> vh_internals_list (vh e') = vh_internals_list (vh e) @ [a]
          \<and> vh_internal_at (vh e') a = Some (vhost_internal name iface mb_pool))"

text \<open>What is left when a name cannot be copied: the port is taken and found, but has no data of this driver.\<close>
definition vhost_port_left :: "string \<Rightarrow> ('h, 'm, 'w) vhost_eal \<Rightarrow> nat \<Rightarrow> ('h, 'm, 'w) vhost_eal \<Rightarrow> bool" where
  "vhost_port_left name e p e' \<longleftrightarrow>
     p < RTE_MAX_ETHPORTS \<and> \<not> dev_attached (rte_eth_devices e ! p) \<and> dev_attached (rte_eth_devices e' ! p)
     \<and> dev_pmd (rte_eth_devices e' ! p) = dev_pmd (rte_eth_devices e ! p)
     \<and> rte_eth_dev_allocated e' name = Some p \<and> unat (nb_ports e') = Suc (unat (nb_ports e))
     \<and> (\<forall>j. j \<noteq> p \<longrightarrow> rte_eth_devices e' ! j = rte_eth_devices e ! j) \<and> vh e' = vh e"

text \<open>What keeps a vhost port from being made: no memory, the name in use, or no free port.\<close>
definition no_vhost_port :: "('h, 'w) vhost_env \<Rightarrow> ('h, 'm, 'w) vhost_eal \<Rightarrow> string \<Rightarrow> bool" where
  "no_vhost_port env e name \<longleftrightarrow>
     length (fst (alloc_list (ve_ops env) [ve_data_size env, 8, 8, ve_pci_size env, ve_internal_size env, 6] (malloc_heaps e))) < 6
     \<or> rte_eth_dev_allocated e name \<noteq> None \<or> list_all dev_attached (rte_eth_devices e)"

lemma create_cases:
  assumes inv: "eth_inv e" and short: "length name < RTE_ETH_NAME_MAX_LEN"
    and c: "rte_eth_from_vhost_create env name iface mb_pool e = (ret, e')"
  shows "eth_inv e' \<and> ring_at e' = ring_at e \<and> vh_lib (vh e') = vh_lib (vh e) \<and>
    (if no_vhost_port env e name then ret = - 1 \<and> rte_eth_devices e' = rte_eth_devices e \<and> vh e' = vh e
     else if ve_strdup env name \<and> ve_strdup env iface then \<exists>p. ret = int p \<and> vhost_port_added name iface mb_pool e p e'
     else ret = - 1 \<and> (\<exists>p. vhost_port_left name e p e'))"
proof -
  let ?ops = "ve_ops env"
  obtain as h where a: "alloc_list ?ops [ve_data_size env, 8, 8, ve_pci_size env, ve_internal_size env, 6] (malloc_heaps e) = (as, h)"
    by fastforce
  let ?e = "e\<lparr>malloc_heaps := h\<rparr>"
  have inv1: "eth_inv ?e" using inv by simp
  obtain q e1 where alloc: "rte_eth_dev_allocate ?e name RTE_ETH_DEV_VIRTUAL = (q, e1)" by fastforce
  have no: "no_vhost_port env e name \<longleftrightarrow> length as < 6 \<or> q = None"
    using allocate_None [OF inv1 alloc] by (simp add: no_vhost_port_def a rte_eth_dev_allocated_def del: alloc_list.simps)
  consider (fail) "length as < 6 \<or> q = None" | (port) p where "\<not> length as < 6" "q = Some p" by fastforce
  then show ?thesis
  proof cases
    case fail
    then have "q = None \<longrightarrow> e1 = ?e" using allocate_cases [OF inv1 alloc] by auto
    then show ?thesis using fail c a alloc inv no
      by (auto simp: rte_eth_from_vhost_create_def Let_def split: if_splits)
  next
    case (port p)
    obtain d where p: "p < RTE_MAX_ETHPORTS" "\<not> dev_attached (rte_eth_devices e ! p)" "rte_eth_dev_allocated e name = None"
      and deq: "d = (rte_eth_devices e ! p)\<lparr>dev_data := (eth_dev_data e ! p)
               \<lparr>dd_name := snprintf_s RTE_ETH_NAME_MAX_LEN name, dd_port_id := of_nat p\<rparr>,
               dev_attached := True, dev_type := RTE_ETH_DEV_VIRTUAL\<rparr>"
      and e1: "e1 = ?e\<lparr>rte_eth_devices := (rte_eth_devices e)[p := d],
          eth_dev_data := (eth_dev_data e)[p := dev_data d], nb_ports := nb_ports e + 1\<rparr>"
      using allocate_cases [OF inv1 alloc] unfolding port(2) by (auto simp: rte_eth_dev_allocated_def)
    have len: "p < length (rte_eth_devices e)" using p(1) inv by (simp add: eth_inv_def)
    have d: "dev_attached d" "dd_name (dev_data d) = name" "unat (dd_port_id (dev_data d)) = p"
      using short p(1) by (simp_all add: deq snprintf_s_id RTE_MAX_ETHPORTS_def unat_of_nat)
    note ai = allocate_inv [OF inv1 alloc [unfolded port(2)]]
    show ?thesis
    proof (cases "ve_strdup env name \<and> ve_strdup env iface")
      case True
      let ?dd = "\<lparr>dd_name = name, dd_rx_queues = [Some 0], dd_tx_queues = [Some 0],
                    dd_nb_rx_queues = 1, dd_nb_tx_queues = 1, dd_link_status = False,
                    dd_port_id = dd_port_id (dev_data d), dd_dev_flags = 0, dd_kdrv = RTE_KDRV_UNKNOWN, dd_numa_node = 0\<rparr>"
      let ?d = "d\<lparr>dev_data := ?dd, dev_pmd := Some Pmd_Other\<rparr>"
      have ret: "ret = int p" and e': "e' = upd_vh (\<lambda>v. v\<lparr>vh_internal_at := (vh_internal_at v)(as ! 4 \<mapsto> vhost_internal name iface mb_pool),
            vh_internals_list := vh_internals_list v @ [as ! 4], vh_dev_private := (vh_dev_private v)(p \<mapsto> as ! 4),
            vh_dev_mem := (vh_dev_mem v)(p \<mapsto> (as ! 0, as ! 3)), vh_session := True\<rparr>)
          (e1\<lparr>rte_eth_devices := (rte_eth_devices e1)[p := ?d]\<rparr>)"
        using c a alloc port True len d by (auto simp: rte_eth_from_vhost_create_def vhost_install_def upd_dev_def e1 Let_def)
      have "eth_inv (e1\<lparr>rte_eth_devices := (rte_eth_devices e1)[p := ?d]\<rparr>)"
        using eth_inv_dev [OF ai(1), of p ?d] len d short by (simp add: e1)
      moreover have "rte_eth_dev_allocated e' name = Some p"
        using len p d by (intro allocated_update [of p e name ?d]) (simp_all add: e' e1)
      ultimately show ?thesis
        using ret p len d ai(2) no port True by (auto simp: vhost_port_added_def e' e1 deq)
    next
      case False
      have "rte_eth_dev_allocated e1 name = Some p"
        using len p d by (intro allocated_update [of p e name d]) (simp_all add: e1)
      moreover obtain g where "ret = - 1" and e': "e' = e1\<lparr>malloc_heaps := g\<rparr>"
        using c a alloc port False by (auto simp: rte_eth_from_vhost_create_def Let_def)
      ultimately have "vhost_port_left name e p e'" "ret = - 1" "ring_at e' = ring_at e" "vh e' = vh e"
        using p len d ai(2) by (auto simp: vhost_port_left_def rte_eth_dev_allocated_def e' e1 deq)
      moreover have "eth_inv e'" using ai(1) e' by simp
      ultimately show ?thesis using no port False by auto
    qed
  qed
qed

text \<open>Whatever fails, the buffers stay where they are.\<close>
lemma create_frame:
  assumes inv: "eth_inv e" and c: "rte_eth_from_vhost_create env name iface mb_pool e = (ret, e')"
  shows "eth_inv e' \<and> ring_at e' = ring_at e
    \<and> (\<exists>v. other_state e' = (other_state e)\<lparr>dev_priv := v\<rparr> \<and> vh_lib v = vh_lib (vh e))"
proof -
  let ?ops = "ve_ops env"
  obtain as h where a: "alloc_list ?ops [ve_data_size env, 8, 8, ve_pci_size env, ve_internal_size env, 6] (malloc_heaps e) = (as, h)"
    by fastforce
  let ?e = "e\<lparr>malloc_heaps := h\<rparr>"
  have inv1: "eth_inv ?e" using inv by simp
  obtain q e1 where alloc: "rte_eth_dev_allocate ?e name RTE_ETH_DEV_VIRTUAL = (q, e1)" by fastforce
  have fr: "ring_at e1 = ring_at e \<and> other_state e1 = other_state e" using allocate_cases [OF inv1 alloc] by auto
  have same: "\<exists>v. other_state e = (other_state e)\<lparr>dev_priv := v\<rparr> \<and> vh_lib v = vh_lib (vh e)"
    by (intro exI [of _ "vh e"]) simp
  consider (fail) "length as < 6 \<or> q = None" | (port) p where "\<not> length as < 6" "q = Some p" by fastforce
  then show ?thesis
  proof cases
    case fail
    then have "q = None \<longrightarrow> e1 = ?e" using allocate_cases [OF inv1 alloc] by auto
    then show ?thesis using fail c a alloc inv same
      by (auto simp: rte_eth_from_vhost_create_def Let_def split: if_splits)
  next
    case (port p)
    note ai = allocate_inv(1) [OF inv1 alloc [unfolded port(2)]]
    have p: "p < length (rte_eth_devices e1)"
      using allocate_cases [OF inv1 alloc] ai unfolding port(2) by (auto simp: eth_inv_def)
    have nm: "length (dd_name (dev_data (rte_eth_devices e1 ! p))) < RTE_ETH_NAME_MAX_LEN"
      using ai p by (simp add: eth_inv_def list_all_length)
    show ?thesis
    proof (cases "\<not> ve_strdup env name \<or> \<not> ve_strdup env iface")
      case True
      then show ?thesis using c a alloc port ai fr same by (auto simp: rte_eth_from_vhost_create_def Let_def)
    next
      case False
      let ?f = "\<lambda>v. v\<lparr>vh_internal_at := (vh_internal_at v)(as ! 4 \<mapsto> vhost_internal name iface mb_pool),
          vh_internals_list := vh_internals_list v @ [as ! 4], vh_dev_private := (vh_dev_private v)(p \<mapsto> as ! 4),
          vh_dev_mem := (vh_dev_mem v)(p \<mapsto> (as ! 0, as ! 3)), vh_session := True\<rparr>"
      let ?g = "\<lambda>d. d\<lparr>dev_data := \<lparr>dd_name = dd_name (dev_data (rte_eth_devices e1 ! p)),
          dd_rx_queues = [Some 0], dd_tx_queues = [Some 0], dd_nb_rx_queues = 1, dd_nb_tx_queues = 1, dd_link_status = False,
          dd_port_id = dd_port_id (dev_data (rte_eth_devices e1 ! p)), dd_dev_flags = 0, dd_kdrv = RTE_KDRV_UNKNOWN,
          dd_numa_node = 0\<rparr>, dev_pmd := Some Pmd_Other\<rparr>"
      have e': "e' = upd_vh ?f (upd_dev e1 p ?g)"
        using False c a alloc port by (simp add: rte_eth_from_vhost_create_def vhost_install_def Let_def del: alloc_list.simps)
      have "eth_inv (upd_dev e1 p ?g)"
        unfolding upd_dev_def using nm by (intro eth_inv_dev [OF ai p]) simp_all
      moreover have "other_state e' = (other_state e)\<lparr>dev_priv := ?f (vh e)\<rparr>" "ring_at e' = ring_at e"
        using fr by (simp_all add: e' upd_vh_def upd_dev_def)
      ultimately show ?thesis by (intro conjI exI [of _ "?f (vh e)"]) (simp_all add: e')
    qed
  qed
qed

lemma eal_kept_vh:
  assumes "eth_inv e'" and "ring_at e' = ring_at e" and "other_state e' = (other_state e)\<lparr>dev_priv := v\<rparr>"
    and "d (vh_lib v) = d (vh_lib (vh e))"
  shows "eal_kept (d \<circ> vh_lib) e e'"
  using assms by (simp add: eal_kept_def inside_def mem_total_def world_inv_def)

lemma from_vhost_frame:
  assumes "eth_inv e" and "\<And>i w. d (snd (ve_register venv i w)) = d w"
    and "rte_eth_from_vhost venv name index iface node mp e = Some (ret, e')"
  shows "eth_inv e' \<and> ring_at e' = ring_at e
    \<and> (\<exists>v. other_state e' = (other_state e)\<lparr>dev_priv := v\<rparr> \<and> d (vh_lib v) = d (vh_lib (vh e)))"
proof -
  obtain p e1 where c: "rte_eth_from_vhost_create venv name iface mp e = (p, e1)" by fastforce
  obtain v where k: "eth_inv e1" "ring_at e1 = ring_at e" "other_state e1 = (other_state e)\<lparr>dev_priv := v\<rparr>"
    "vh_lib v = vh_lib (vh e)"
    using create_frame [OF assms(1) c] by blast
  obtain r w where w: "ve_register venv iface (vh_lib (vh e1)) = (r, w)" by fastforce
  have dw: "d w = d (vh_lib (vh e1))" using assms(2) [of iface "vh_lib (vh e1)"] w by simp
  have "e' = e1 \<or> e' = upd_vh (\<lambda>v. v\<lparr>vh_lib := w\<rparr>) e1"
    using assms(3) c w by (auto simp: rte_eth_from_vhost_def Let_def split: if_splits)
  then show ?thesis
  proof
    assume "e' = e1"
    then show ?thesis using k by auto
  next
    assume e': "e' = upd_vh (\<lambda>v. v\<lparr>vh_lib := w\<rparr>) e1"
    then have "other_state e' = (other_state e)\<lparr>dev_priv := v\<lparr>vh_lib := w\<rparr>\<rparr>" using k(3) by (simp add: upd_vh_def)
    then show ?thesis using e' k dw by (intro conjI exI [of _ "v\<lparr>vh_lib := w\<rparr>"]) simp_all
  qed
qed

text \<open>The driver keeps no buffers of its own; \<open>d\<close> are those in the vhost library.\<close>
lemma from_vhost_eal_kept:
  assumes "eth_inv e" and "\<And>i w. d (snd (ve_register env i w)) = d w"
    and "rte_eth_from_vhost env name index iface node mb_pool e = Some (ret, e')"
  shows "eal_kept (d \<circ> vh_lib) e e'"
  using from_vhost_frame [of _ d, OF assms] eal_kept_vh [of e' e _ d] by blast

section \<open>Properties\<close>

definition venv_0 :: "int \<Rightarrow> (u64, nat list) vhost_env" where
  "venv_0 reg = \<lparr>ve_ops = bump_ops, ve_data_size = 2048, ve_pci_size = 512, ve_internal_size = 2304,
     ve_strdup = (\<lambda>_. True), ve_register = (\<lambda>_ w. (reg, w)), ve_unregister = (\<lambda>_ w. w)\<rparr>"

text \<open>The panel of the other theories, with its network card as the vhost library.\<close>
definition vhost_panel :: "(u64, nat, nat list) vhost_eal" where
  "vhost_panel = \<lparr>memzone_cnt = 0, memzone = replicate RTE_MAX_MEMZONE null_memzone, malloc_heaps = 0x100000, rte_errno = 0,
     ring_at = Map.empty, ring_tailq = [], rte_eth_devices = nic_dev # replicate 31 null_dev,
     eth_dev_data = replicate 32 (dev_data null_dev), nb_ports = 1,
     other_state = \<lparr>mempool_tailq = [], mempool_at = Map.empty, mbuf_pool = Map.empty,
       dev_priv = \<lparr>vh_internal_at = Map.empty, vh_internals_list = [], vh_dev_private = Map.empty, vh_dev_mem = Map.empty,
         vh_session = False, vh_lib = []\<rparr>\<rparr>\<rparr>"

lemma vhost_panel_inv: "eth_inv vhost_panel"
  by (simp add: eth_inv_def vhost_panel_def nic_dev_def null_dev_def RTE_MAX_ETHPORTS_def RTE_ETH_NAME_MAX_LEN_def list_all_iff)

text \<open>
  C25. Making a vhost port, whatever fails: the call returns, and has one of four outcomes. Without memory,
  a free name or a free port the result is -1 and all ports and the driver are as before. When a name
  cannot be copied the result is -1 too, but a port stays taken and is found under the name, with
  no data of the driver. Otherwise one port that was free, below 32, is added: it is found under the
  given name, is served by the driver with one receive and one transmit queue on the given pool
  and no guest, and its private data is on the list in which \<open>new_device\<close> looks for the
  interface; all other ports are as before. The result is its number, unless the library refuses
  the interface: then it is the negative code of the library, although the new port is there.
\<close>
theorem vhost_adds_port:
  assumes "eth_inv e" and "length name < RTE_ETH_NAME_MAX_LEN"
  shows "\<exists>ret e'. rte_eth_from_vhost env name index iface node mb_pool e = Some (ret, e') \<and> eth_inv e' \<and> ring_at e' = ring_at e \<and>
    (if no_vhost_port env e name then ret = - 1 \<and> rte_eth_devices e' = rte_eth_devices e \<and> vh e' = vh e
     else if \<not> ve_strdup env name \<or> \<not> ve_strdup env iface then ret = - 1 \<and> (\<exists>p. vhost_port_left name e p e')
     else \<exists>p. vhost_port_added name iface mb_pool e p e'
       \<and> (let reg = fst (ve_register env iface (vh_lib (vh e))) in ret = (if reg < 0 then reg else int p)))"
proof -
  obtain r e1 where c: "rte_eth_from_vhost_create env name iface mb_pool e = (r, e1)" by fastforce
  note k = create_cases [OF assms c]
  obtain reg w where w: "ve_register env iface (vh_lib (vh e)) = (reg, w)" by fastforce
  have lib: "vh_lib (vh e1) = vh_lib (vh e)" using k by blast
  show ?thesis
  proof (cases "no_vhost_port env e name \<or> \<not> ve_strdup env name \<or> \<not> ve_strdup env iface")
    case True
    then have "r = - 1" using k by (auto split: if_splits)
    then have "rte_eth_from_vhost env name index iface node mb_pool e = Some (- 1, e1)"
      using c by (simp add: rte_eth_from_vhost_def)
    then show ?thesis using k True by (intro exI [of _ "- 1"] exI [of _ e1]) (auto split: if_splits)
  next
    case False
    then obtain p where p: "r = int p" "vhost_port_added name iface mb_pool e p e1" using k by (auto split: if_splits)
    let ?e = "upd_vh (\<lambda>v. v\<lparr>vh_lib := w\<rparr>) e1"
    have "rte_eth_from_vhost env name index iface node mb_pool e = Some (if reg < 0 then reg else int p, ?e)"
      using c w lib p(1) by (simp add: rte_eth_from_vhost_def Let_def)
    moreover have "vhost_port_added name iface mb_pool e p ?e"
      using p(2) by (simp add: vhost_port_added_def rte_eth_dev_allocated_def)
    ultimately show ?thesis using k False w by (auto simp: Let_def)
  qed
qed

theorem vhost_adds_port_witness:
  "(\<exists>e'. rte_eth_from_vhost (venv_0 0) ''eth_vhost0'' 0 ''/tmp/sock0'' 0 0x5000 vhost_panel = Some (1, e')
      \<and> vhost_port_added ''eth_vhost0'' ''/tmp/sock0'' 0x5000 vhost_panel 1 e')
   \<and> (\<exists>e' p. rte_eth_from_vhost (venv_0 (- 7)) ''eth_vhost0'' 0 ''/tmp/sock0'' 0 0x5000 vhost_panel = Some (- 7, e')
      \<and> vhost_port_added ''eth_vhost0'' ''/tmp/sock0'' 0x5000 vhost_panel p e')
   \<and> (\<exists>e' p. rte_eth_from_vhost ((venv_0 0)\<lparr>ve_strdup := \<lambda>_. False\<rparr>) ''eth_vhost0'' 0 ''/tmp/sock0'' 0 0x5000 vhost_panel = Some (- 1, e')
      \<and> vhost_port_left ''eth_vhost0'' vhost_panel p e')"
proof -
  have no: "\<not> no_vhost_port (venv_0 reg) vhost_panel ''eth_vhost0''"
    "\<not> no_vhost_port ((venv_0 reg)\<lparr>ve_strdup := g\<rparr>) vhost_panel ''eth_vhost0''" for reg g
  proof -
    have "length (fst (alloc_list bump_ops [2048, 8, 8, 512, 2304, 6] 0x100000)) = 6" by code_simp
    moreover have "rte_eth_dev_allocated vhost_panel ''eth_vhost0'' = None" by code_simp
    moreover have "\<not> list_all dev_attached (rte_eth_devices vhost_panel)" by code_simp
    moreover have "malloc_heaps vhost_panel = 0x100000" by (simp add: vhost_panel_def)
    ultimately show "\<not> no_vhost_port (venv_0 reg) vhost_panel ''eth_vhost0''"
      "\<not> no_vhost_port ((venv_0 reg)\<lparr>ve_strdup := g\<rparr>) vhost_panel ''eth_vhost0''"
      by (simp_all add: no_vhost_port_def venv_0_def del: alloc_list.simps)
  qed
  note port = vhost_adds_port [OF vhost_panel_inv, of "''eth_vhost0''" _ 0 "''/tmp/sock0''" 0 "0x5000"]
  have "map_option fst (rte_eth_from_vhost (venv_0 0) ''eth_vhost0'' 0 ''/tmp/sock0'' 0 0x5000 vhost_panel) = Some 1" by code_simp
  then have "\<exists>e'. rte_eth_from_vhost (venv_0 0) ''eth_vhost0'' 0 ''/tmp/sock0'' 0 0x5000 vhost_panel = Some (1, e')
      \<and> vhost_port_added ''eth_vhost0'' ''/tmp/sock0'' 0x5000 vhost_panel 1 e'"
    using port [of "venv_0 0"] by (auto simp: no) (auto simp: venv_0_def RTE_ETH_NAME_MAX_LEN_def)
  moreover have "\<exists>e' p. rte_eth_from_vhost (venv_0 (- 7)) ''eth_vhost0'' 0 ''/tmp/sock0'' 0 0x5000 vhost_panel = Some (- 7, e')
      \<and> vhost_port_added ''eth_vhost0'' ''/tmp/sock0'' 0x5000 vhost_panel p e'"
    using port [of "venv_0 (- 7)"] by (simp add: no) (auto simp: venv_0_def RTE_ETH_NAME_MAX_LEN_def)
  moreover have "\<exists>e' p. rte_eth_from_vhost ((venv_0 0)\<lparr>ve_strdup := \<lambda>_. False\<rparr>) ''eth_vhost0'' 0 ''/tmp/sock0'' 0 0x5000 vhost_panel = Some (- 1, e')
      \<and> vhost_port_left ''eth_vhost0'' vhost_panel p e'"
    using port [of "(venv_0 0)\<lparr>ve_strdup := \<lambda>_. False\<rparr>"] by (simp add: no) (auto simp: RTE_ETH_NAME_MAX_LEN_def)
  ultimately show ?thesis by blast
qed

text \<open>
  C19. The vhost driver keeps the contract the control plane relies on: making a port, whether it
  succeeds or fails, leaves every packet buffer where it is and keeps the state of the libraries
  well-formed, provided that registering an interface does not move buffers.
\<close>
theorem vhost_driver_contract:
  fixes env :: "('h, 'm, 'w vhost_state) sec_env"
  assumes "\<forall>i w. d (snd (ve_register venv i w)) = d w"
  shows "vhost_ok (env\<lparr>env_from_vhost := rte_eth_from_vhost venv\<rparr>) (d \<circ> vh_lib)"
  unfolding vhost_ok_def
proof (intro allI impI, elim conjE)
  fix name index iface node mp ret h and e e' :: "('h, 'm, 'w) vhost_eal"
  assume "env_from_vhost (env\<lparr>env_from_vhost := rte_eth_from_vhost venv\<rparr>) name index iface node mp e = Some (ret, e')"
    and w: "world_inv (d \<circ> vh_lib) e h"
  then have "eal_kept (d \<circ> vh_lib) e e'"
    using from_vhost_eal_kept [of e d venv] assms by (simp add: world_inv_def)
  then show "world_inv (d \<circ> vh_lib) e' h \<and> inside (d \<circ> vh_lib) e' = inside (d \<circ> vh_lib) e"
    using w by (simp add: eal_kept_def)
qed

theorem vhost_driver_contract_witness:
  "vhost_ok \<lparr>env_ops = bump_ops, env_data_size = 2048, env_internals_size = 1040,
     env_from_vhost = rte_eth_from_vhost (venv_0 0), env_socket_id = 0\<rparr> ((mset :: nat list \<Rightarrow> nat multiset) \<circ> vh_lib)"
  using vhost_driver_contract [of mset "venv_0 0" "\<lparr>env_ops = bump_ops, env_data_size = 2048, env_internals_size = 1040,
     env_from_vhost = rte_eth_from_vhost (venv_0 0), env_socket_id = 0\<rparr>"]
  by (simp add: venv_0_def)

end
