(* ===== verification/Spp_Nfv_Vhost.thy ===== *)
theory Spp_Nfv_Vhost
  imports Spp_Nfv Rte_Eth_Vhost
begin

text \<open>
  The vhost driver under \<open>nfv_py\<close>. The process relies on \<^const>\<open>vhost_tidy\<close>: making a vhost port
  leaves all packets as they are. Here this is shown of the driver's own code in \<open>Rte_Eth_Vhost\<close>, which keeps its data
  beside the packet buffers, so that the safety of the process rests on no assumption about
  \<open>rte_eth_from_vhost\<close>, only on the vhost library not moving buffers when an interface is registered.
\<close>

section \<open>The driver beside the packet buffers\<close>

text \<open>The same state of the libraries with other private data of the drivers.\<close>
definition with_priv :: "'z \<Rightarrow> ('h, 'm, 'y) spp_eal \<Rightarrow> ('h, 'm, 'z) spp_eal" where
  "with_priv v e =
     \<lparr>memzone_cnt = memzone_cnt e, memzone = memzone e, malloc_heaps = malloc_heaps e, rte_errno = rte_errno e,
      ring_at = ring_at e, ring_tailq = ring_tailq e, rte_eth_devices = rte_eth_devices e,
      eth_dev_data = eth_dev_data e, nb_ports = nb_ports e,
      other_state = \<lparr>mempool_tailq = mempool_tailq (other_state e), mempool_at = mempool_at (other_state e),
        mbuf_pool = mbuf_pool (other_state e), dev_priv = v\<rparr>\<rparr>"

text \<open>\<open>rte_eth_from_vhost\<close> on the data of the driver; the packet buffers are out of its reach.\<close>
definition nfv_from_vhost ::
  "('h, 'w) vhost_env \<Rightarrow> string \<Rightarrow> int \<Rightarrow> string \<Rightarrow> u32 \<Rightarrow> u64 \<Rightarrow> ('h, 'w vhost_state) copy_eal \<Rightarrow>
     (int \<times> ('h, 'w vhost_state) copy_eal) option" where
  "nfv_from_vhost venv name index iface node mp e =
     do { (ret, e') \<leftarrow> rte_eth_from_vhost venv name index iface node mp (with_priv (st_dev (store e)) e);
          Some (ret, with_priv ((store e)\<lparr>st_dev := vh e'\<rparr>) e') }"

section \<open>Making a port leaves all packets as they are\<close>

lemma with_priv_sel [simp]:
  "ring_at (with_priv v e) = ring_at e" "mempool_at (other_state (with_priv v e)) = mempool_at (other_state e)"
  "mbuf_pool (other_state (with_priv v e)) = mbuf_pool (other_state e)" "dev_priv (other_state (with_priv v e)) = v"
  "eth_inv (with_priv v e) = eth_inv e"
  by (simp_all add: with_priv_def eth_inv_def)

text \<open>New data of the drivers that hold the same buffers change nothing for the packets.\<close>
lemma nfv_inv_priv:
  assumes "nfv_inv d e h" and "eth_inv e'" and "ring_at e' = ring_at e"
    and "mempool_at (other_state e') = mempool_at (other_state e)" and "mbuf_pool (other_state e') = mbuf_pool (other_state e)"
    and "store e' = (store e)\<lparr>st_dev := v\<rparr>" and "d v = d (st_dev (store e))"
  shows "nfv_inv d e' h \<and> inside (d \<circ> st_dev) e' = inside (d \<circ> st_dev) e"
proof -
  have "own (other_state e') = own (other_state e)" using assms(5) by (simp add: own_def fun_eq_iff)
  moreover have "plain (store e') = plain (store e)" "pools_agree (other_state e') = pools_agree (other_state e)"
    using assms(5,6) by (simp_all add: plain_def pools_agree_def fun_eq_iff)
  ultimately show ?thesis
    using assms by (simp add: nfv_inv_def world_inv_def inside_def mem_total_def mem_tidy_def mem_inv_def)
qed

text \<open>The driver keeps the contract that \<open>nfv_py\<close> relies on.\<close>
lemma vhost_driver_tidy:
  fixes env :: "('h, u64, 'w vhost_state mbuf_store) sec_env"
  assumes "\<And>i w. d (snd (ve_register venv i w)) = d w"
  shows "vhost_tidy (env\<lparr>env_from_vhost := nfv_from_vhost venv\<rparr>) (d \<circ> vh_lib)"
  unfolding vhost_tidy_def
proof (intro allI impI, elim conjE)
  fix name index iface node mp ret h and e e' :: "('h, 'w vhost_state) copy_eal"
  assume f: "env_from_vhost (env\<lparr>env_from_vhost := nfv_from_vhost venv\<rparr>) name index iface node mp e = Some (ret, e')"
    and inv: "nfv_inv (d \<circ> vh_lib) e h"
  let ?e = "with_priv (st_dev (store e)) e"
  obtain e1 where e1: "rte_eth_from_vhost venv name index iface node mp ?e = Some (ret, e1)"
    and e': "e' = with_priv ((store e)\<lparr>st_dev := vh e1\<rparr>) e1"
    using f by (auto simp: nfv_from_vhost_def split: bind_splits)
  have "eth_inv ?e" using inv by (simp add: nfv_inv_def world_inv_def)
  from from_vhost_frame [of _ d, OF this assms e1]
  obtain v where v: "eth_inv e1" "ring_at e1 = ring_at e" "other_state e1 = (other_state ?e)\<lparr>dev_priv := v\<rparr>"
    "d (vh_lib v) = d (vh_lib (st_dev (store e)))" by auto
  show "nfv_inv (d \<circ> vh_lib) e' h \<and> inside (d \<circ> vh_lib \<circ> st_dev) e' = inside (d \<circ> vh_lib \<circ> st_dev) e"
    using nfv_inv_priv [OF inv, of e' v] v by (simp add: e')
qed

text \<open>The whole process with the modelled driver, from any well-formed state.\<close>
lemma nfv_vhost_reachable:
  fixes env :: "('h, u64, 'w vhost_state mbuf_store) sec_env"
  assumes "(nfv_step (env\<lparr>env_from_vhost := nfv_from_vhost venv\<rparr>) oth (d \<circ> vh_lib) g lcore z)\<^sup>*\<^sup>* s s'"
    and "nfv_ok oth (d \<circ> vh_lib) T s" and "\<And>i w. d (snd (ve_register venv i w)) = d w"
  shows "nfv_ok oth (d \<circ> vh_lib) T s' \<and> (\<exists>s''. nfv_main_loop oth g lcore z s' = Some s'')"
  using nfv_reachable_ok [OF assms(1,2) vhost_driver_tidy] nfv_turn_ok assms(3) by blast

end
