(* ===== verification/Rte_Mempool_Create.thy ===== *)
theory Rte_Mempool_Create
  imports Rte_Mbuf
begin

text \<open>
  Making a pool (\<open>rte_mempool_create\<close> and \<open>rte_mempool_xmem_create\<close> in \<open>rte_mempool.c\<close>) and a
  pool of packet buffers (\<open>rte_pktmbuf_pool_create\<close> in \<open>rte_mbuf.c\<close>): the checks, the ring and
  the memory zone, the layout of the structure, its private data and its objects, the call-backs
  that initialise them, and the list by which other processes find the pool. Shown is that the
  created pool holds exactly the requested number of distinct objects inside its memory zone, is
  well-formed, so that the theorems on pools apply to it, and is found under its name.
\<close>

unbundle bit_operations_syntax

section \<open>State and constants\<close>

text \<open>
  The shared memory with the buffers and pools, the list of pools as pairs of an entry's address
  and its \<open>data\<close> pointer, the pool pointer in the header of each object, and the fields
  \<open>elt_va_end\<close> of the pools. A pool owns its ring: the ring that \<open>rte_ring_create\<close> enters into the
  list of rings gives it name and place, and what the pool enqueues is in \<open>mp_ring\<close>.
\<close>
record 'h pool_eal = "('h, u64) ring_eal" +
  pool_mem :: mbuf_mem
  pktpool_tailq :: "(u64 \<times> u64) list"
  obj_hdr :: "u64 \<rightharpoonup> u64"
  pktpool_va_end :: "u64 \<rightharpoonup> u64"

text \<open>What the code reads of the machine.\<close>
record machine =
  getpagesize :: u32
  rte_memory_get_nchannel :: u32
  rte_memory_get_nrank :: u32

type_synonym mempool_ctor = "u64 \<Rightarrow> mbuf_mem \<Rightarrow> mbuf_mem option"
type_synonym mempool_obj_ctor = "u64 \<Rightarrow> u64 \<Rightarrow> u32 \<Rightarrow> mbuf_mem \<Rightarrow> mbuf_mem option"

definition RTE_MEMPOOL_MZ_PREFIX :: string where "RTE_MEMPOOL_MZ_PREFIX = ''MP_''"
definition MEMPOOL_PG_SHIFT_MAX :: u32 where "MEMPOOL_PG_SHIFT_MAX = 63"
definition MEMPOOL_PG_NUM_DEFAULT :: u32 where "MEMPOOL_PG_NUM_DEFAULT = 1"
definition RTE_MEMZONE_1GB :: u32 where "RTE_MEMZONE_1GB = 2"
definition RTE_MEMZONE_SIZE_HINT_ONLY :: u32 where "RTE_MEMZONE_SIZE_HINT_ONLY = 4"

text \<open>128 bytes before the caches, 128 caches of 12352 bytes, one cache line for the pages.\<close>
definition sizeof_rte_mempool :: nat where "sizeof_rte_mempool = 128 + 128 * 12352 + 64"

definition MEMPOOL_HEADER_SIZE :: "u32 \<Rightarrow> nat" where
  "MEMPOOL_HEADER_SIZE pgn = sizeof_rte_mempool + RTE_ALIGN ((unat pgn - 1) * 8) RTE_CACHE_LINE_SIZE"

definition CALC_CACHE_FLUSHTHRESH :: "u32 \<Rightarrow> u32" where
  "CALC_CACHE_FLUSHTHRESH c = of_nat (unat c * 3 div 2)"

definition rte_align32pow2 :: "u32 \<Rightarrow> u32" where
  "rte_align32pow2 x =
     (let x = x - 1;
          x = x OR drop_bit 1 x;
          x = x OR drop_bit 2 x;
          x = x OR drop_bit 4 x;
          x = x OR drop_bit 8 x;
          x = x OR drop_bit 16 x
      in x + 1)"

definition align_ceil64 :: "u64 \<Rightarrow> u64 \<Rightarrow> u64" where
  "align_ceil64 v a = (v + (a - 1)) AND NOT (a - 1)"

section \<open>Filling the pool\<close>

text \<open>The return value of \<open>rte_ring_sp_enqueue\<close> is not looked at.\<close>
definition mempool_add_elem ::
  "u64 \<Rightarrow> u64 \<Rightarrow> u32 \<Rightarrow> mempool_obj_ctor option \<Rightarrow> 'h pool_eal \<Rightarrow> 'h pool_eal option" where
  "mempool_add_elem mp obj obj_idx obj_init e =
     do { p \<leftarrow> pktpool_at (pool_mem e) mp;
          let obj = obj + ucast (mp_header_size p);
          let e = e\<lparr>obj_hdr := (obj_hdr e)(obj \<mapsto> mp)\<rparr>;
          m \<leftarrow> (case obj_init of None \<Rightarrow> Some (pool_mem e) | Some f \<Rightarrow> f mp obj obj_idx (pool_mem e));
          p \<leftarrow> pktpool_at m mp;
          (_, r) \<leftarrow> rte_ring_sp_enqueue (mp_ring p) obj;
          Some (e\<lparr>pool_mem := m\<lparr>pktpool_at := (pktpool_at m)(mp \<mapsto> p\<lparr>mp_ring := r\<rparr>)\<rparr>\<rparr>) }"

definition mempool_obj_populate ::
  "u64 \<Rightarrow> mempool_obj_ctor option \<Rightarrow> nat \<Rightarrow> nat \<Rightarrow> nat \<Rightarrow> 'h pool_eal option \<Rightarrow> 'h pool_eal option" where
  "mempool_obj_populate mp obj_init start fin idx e =
     do { e \<leftarrow> e;
          e \<leftarrow> mempool_add_elem mp (of_nat start) (of_nat idx) obj_init e;
          Some (e\<lparr>pktpool_va_end := (pktpool_va_end e)(mp \<mapsto> of_nat fin)\<rparr>) }"

definition mempool_populate ::
  "u64 \<Rightarrow> u32 \<Rightarrow> nat \<Rightarrow> mempool_obj_ctor option \<Rightarrow> 'h pool_eal \<Rightarrow> 'h pool_eal option" where
  "mempool_populate mp num align obj_init e =
     do { p \<leftarrow> pktpool_at (pool_mem e) mp;
          pg \<leftarrow> pktpool_pages (pool_mem e) mp;
          let elt_sz = mp_elt_size p + mp_header_size p + mp_trailer_size p;
          (n, e) \<leftarrow> rte_mempool_obj_iter (unat (mp_elt_va_start pg)) (unat num) (unat elt_sz) align
                      (map unat (mp_elt_pa pg)) (length (mp_elt_pa pg)) (unat (mp_pg_shift pg))
                      (mempool_obj_populate mp obj_init) (Some e);
          e \<leftarrow> e;
          p \<leftarrow> pktpool_at (pool_mem e) mp;
          Some (e\<lparr>pool_mem := (pool_mem e)\<lparr>pktpool_at :=
                    (pktpool_at (pool_mem e))(mp \<mapsto> p\<lparr>mp_size := of_nat n\<rparr>)\<rparr>\<rparr>) }"

section \<open>Creation\<close>

text \<open>The tests on the arguments that need no state.\<close>
definition pool_args_ok :: "u32 \<Rightarrow> u32 \<Rightarrow> u64 \<Rightarrow> u64 list option \<Rightarrow> u32 \<Rightarrow> u32 \<Rightarrow> bool" where
  "pool_args_ok n cache_size vaddr paddr pg_num pg_shift \<longleftrightarrow>
     \<not> (cache_size > RTE_MEMPOOL_CACHE_MAX_SIZE \<or> CALC_CACHE_FLUSHTHRESH cache_size > n)
     \<and> \<not> (vaddr \<noteq> 0 \<and> paddr = None)
     \<and> \<not> (pg_num < MEMPOOL_PG_NUM_DEFAULT \<or> pg_shift > MEMPOOL_PG_SHIFT_MAX)"

definition pool_flags :: "u32 \<Rightarrow> u32" where
  "pool_flags flags = (if flags AND MEMPOOL_F_NO_CACHE_ALIGN \<noteq> 0 then flags OR MEMPOOL_F_NO_SPREAD else flags)"

definition pool_ring_flags :: "u32 \<Rightarrow> u32" where
  "pool_ring_flags flags =
     (if flags AND MEMPOOL_F_SP_PUT \<noteq> 0 then RING_F_SP_ENQ else 0) OR
     (if flags AND MEMPOOL_F_SC_GET \<noteq> 0 then RING_F_SC_DEQ else 0)"

text \<open>The size of the private data: cache-aligned, and up to a page without huge pages.\<close>
definition pool_private_size :: "bool \<Rightarrow> u32 \<Rightarrow> u32 \<Rightarrow> u32" where
  "pool_private_size hugepages page_size private_data_size =
     (let pd = (private_data_size + RTE_MEMPOOL_ALIGN_MASK) AND NOT RTE_MEMPOOL_ALIGN_MASK
      in if hugepages then pd
         else let new_size = (pd + of_nat sizeof_rte_mempool) mod page_size
              in if new_size \<noteq> 0 then pd + (page_size - new_size) else pd)"

definition pool_memory_size :: "bool \<Rightarrow> u32 \<Rightarrow> u64 \<Rightarrow> u32 \<Rightarrow> u32 \<Rightarrow> u32 \<Rightarrow> u32 \<Rightarrow> u64" where
  "pool_memory_size hugepages page_size vaddr pg_num private_data_size total_size n =
     (let sz = align_ceil64 (of_nat (MEMPOOL_HEADER_SIZE pg_num) + ucast private_data_size) (ucast RTE_MEMPOOL_ALIGN);
          sz = (if vaddr = 0 then sz + ucast total_size * ucast n else sz)
      in if hugepages then sz else sz + ucast page_size)"

definition pool_start_addr :: "bool \<Rightarrow> u32 \<Rightarrow> u64 \<Rightarrow> u64" where
  "pool_start_addr hugepages page_size addr =
     (if hugepages then addr
      else if addr AND (ucast page_size - 1) \<noteq> 0
      then (addr + ucast page_size) AND NOT (ucast page_size - 1) else addr)"

text \<open>A cache of a cleared pool structure.\<close>
definition zero_cache :: "u64 rte_mempool_cache" where
  "zero_cache = \<lparr>cache_len = 0, cache_objs = replicate (3 * unat RTE_MEMPOOL_CACHE_MAX_SIZE) 0\<rparr>"

definition pool_struct :: "string \<Rightarrow> u64 rte_ring \<Rightarrow> u32 \<Rightarrow> u32 \<Rightarrow> rte_mempool_objsz \<Rightarrow> u32 \<Rightarrow> u32 \<Rightarrow> u64 rte_mempool" where
  "pool_struct name r n flags objsz cache_size private_data_size =
     \<lparr>mp_name = snprintf_s RTE_MEMPOOL_NAMESIZE name, mp_ring = r, mp_flags = flags, mp_size = n,
      mp_cache_size = cache_size, mp_cache_flushthresh = CALC_CACHE_FLUSHTHRESH cache_size,
      mp_elt_size = sz_elt_size objsz, mp_header_size = sz_header_size objsz,
      mp_trailer_size = sz_trailer_size objsz, mp_private_data_size = private_data_size,
      mp_local_cache = replicate RTE_MAX_LCORE zero_cache\<rparr>"

text \<open>
  Entries of \<open>elt_pa\<close> after the first that nobody writes: cleared inside the structure, behind it
  what the memory held.
\<close>
definition elt_pa_rest :: "(u64 \<Rightarrow> u64) \<Rightarrow> u64 \<Rightarrow> u32 \<Rightarrow> u64 list" where
  "elt_pa_rest mem mp pg_num =
     map (\<lambda>k. if k < 4 then 0 else mem (mp + of_nat (sizeof_rte_mempool - 32 + 8 * k))) [1..<unat pg_num]"

text \<open>Address translation of the objects: behind the structure, or in the given pages.\<close>
definition pool_pages :: "(u64 \<Rightarrow> u64) \<Rightarrow> u64 \<Rightarrow> u64 \<Rightarrow> u32 \<Rightarrow> u64 \<Rightarrow> u64 list option \<Rightarrow> u32 \<Rightarrow> u32 \<Rightarrow> mempool_pages option" where
  "pool_pages mem mp phys_addr private_data_size vaddr paddr pg_num pg_shift =
     (let obj = align_ceil64 (mp + of_nat (MEMPOOL_HEADER_SIZE pg_num) + ucast private_data_size) (ucast RTE_MEMPOOL_ALIGN);
          mask = push_bit (unat pg_shift) 1 - 1
      in if vaddr = 0
         then Some \<lparr>mp_elt_va_start = obj, mp_pg_shift = pg_shift, mp_pg_mask = mask,
                    mp_elt_pa = (phys_addr + (obj - mp)) # elt_pa_rest mem mp pg_num\<rparr>
         else do { pa \<leftarrow> paddr;
                   if unat pg_num \<le> length pa
                   then Some \<lparr>mp_elt_va_start = vaddr, mp_pg_shift = pg_shift, mp_pg_mask = mask,
                              mp_elt_pa = take (unat pg_num) pa\<rparr>
                   else None })"

text \<open>The pool structure at \<open>mp\<close>, its pages, the call-back and the objects.\<close>
definition mempool_install ::
  "(u64 \<Rightarrow> u64) \<Rightarrow> 'h pool_eal \<Rightarrow> u64 \<Rightarrow> u64 \<Rightarrow> string \<Rightarrow> u64 \<Rightarrow> u32 \<Rightarrow> u32 \<Rightarrow> rte_mempool_objsz \<Rightarrow> u32 \<Rightarrow> u32 \<Rightarrow>
     mempool_ctor option \<Rightarrow> mempool_obj_ctor option \<Rightarrow> u64 \<Rightarrow> u64 list option \<Rightarrow> u32 \<Rightarrow> u32 \<Rightarrow> 'h pool_eal option" where
  "mempool_install mem e mp phys_addr name r n flags objsz cache_size pd mp_init obj_init vaddr paddr pg_num pg_shift =
     do { ring \<leftarrow> ring_at e r;
          pages \<leftarrow> pool_pages mem mp phys_addr pd vaddr paddr pg_num pg_shift;
          let m = (pool_mem e)\<lparr>
              pktpool_at := (pktpool_at (pool_mem e))(mp \<mapsto> pool_struct name ring n flags objsz cache_size pd),
              pktpool_pages := (pktpool_pages (pool_mem e))(mp \<mapsto> pages)\<rparr>;
          m \<leftarrow> (case mp_init of None \<Rightarrow> Some m | Some f \<Rightarrow> f mp m);
          mempool_populate mp n 1 obj_init (e\<lparr>pool_mem := m,
              pktpool_va_end := (pktpool_va_end e)(mp \<mapsto> mp_elt_va_start pages)\<rparr>) }"

text \<open>
  \<open>rte_mempool_xmem_create\<close>: the address of the pool, 0 for \<open>NULL\<close>; \<^term>\<open>None\<close> is an access outside
  an array or a loop that does not end. On a failure after the ring was made the ring stays.
\<close>
definition rte_mempool_xmem_create ::
  "'h heap_ops \<Rightarrow> machine \<Rightarrow> (u64 \<Rightarrow> u64) \<Rightarrow> 'h pool_eal \<Rightarrow> string \<Rightarrow> u32 \<Rightarrow> u32 \<Rightarrow> u32 \<Rightarrow> u32 \<Rightarrow>
     mempool_ctor option \<Rightarrow> mempool_obj_ctor option \<Rightarrow> int \<Rightarrow> u32 \<Rightarrow> u64 \<Rightarrow> u64 list option \<Rightarrow> u32 \<Rightarrow> u32 \<Rightarrow>
     (u64 \<times> 'h pool_eal) option" where
  "rte_mempool_xmem_create ops mach mem e name n elt_size cache_size private_data_size mp_init obj_init
       socket_id flags vaddr paddr pg_num pg_shift =
     (if \<not> pool_args_ok n cache_size vaddr paddr pg_num pg_shift then Some (0, e\<lparr>rte_errno := EINVAL\<rparr>)
      else do {
        let hp = rte_eal_has_hugepages ops;
        let flags = pool_flags flags;
        let rg_flags = pool_ring_flags flags;
        (tot, objsz) \<leftarrow> rte_mempool_calc_obj_size hp (getpagesize mach) (rte_memory_get_nchannel mach)
            (rte_memory_get_nrank mach) elt_size flags
            \<lparr>sz_elt_size = 0, sz_header_size = 0, sz_trailer_size = 0, sz_total_size = 0\<rparr>;
        if tot = 0 then Some (0, e\<lparr>rte_errno := EINVAL\<rparr>)
        else do {
          let rg_name = snprintf_s RTE_RING_NAMESIZE (RTE_MEMPOOL_MZ_PREFIX @ name);
          let (r, e) = rte_ring_create ops mem e rg_name (rte_align32pow2 (n + 1)) socket_id rg_flags;
          if r = 0 then Some (0, e)
          else do {
            let pd = pool_private_size hp (getpagesize mach) private_data_size;
            let (te, h) = rte_zmalloc ops (malloc_heaps e) sizeof_rte_tailq_entry;
            let e = e\<lparr>malloc_heaps := h\<rparr>;
            if te = 0 then Some (0, e)
            else do {
              let size = pool_memory_size hp (getpagesize mach) vaddr pg_num pd (sz_total_size objsz) n;
              let mz_name = snprintf_s RTE_MEMZONE_NAMESIZE (RTE_MEMPOOL_MZ_PREFIX @ name);
              let (mz, e) = rte_memzone_reserve ops e mz_name size socket_id
                  (RTE_MEMZONE_1GB OR RTE_MEMZONE_SIZE_HINT_ONLY);
              case mz of
                None \<Rightarrow> Some (0, e\<lparr>malloc_heaps := rte_free ops (malloc_heaps e) te\<rparr>)
              | Some i \<Rightarrow> do {
                  let mp = pool_start_addr hp (getpagesize mach) (mz_addr (memzone e ! i));
                  e \<leftarrow> mempool_install mem e mp (mz_phys_addr (memzone e ! i)) name r n flags objsz cache_size pd
                      mp_init obj_init vaddr paddr pg_num pg_shift;
                  Some (mp, e\<lparr>pktpool_tailq := pktpool_tailq e @ [(te, mp)]\<rparr>) } } } } })"

definition rte_mempool_create ::
  "'h heap_ops \<Rightarrow> machine \<Rightarrow> (u64 \<Rightarrow> u64) \<Rightarrow> 'h pool_eal \<Rightarrow> string \<Rightarrow> u32 \<Rightarrow> u32 \<Rightarrow> u32 \<Rightarrow> u32 \<Rightarrow>
     mempool_ctor option \<Rightarrow> mempool_obj_ctor option \<Rightarrow> int \<Rightarrow> u32 \<Rightarrow> (u64 \<times> 'h pool_eal) option" where
  "rte_mempool_create ops mach mem e name n elt_size cache_size private_data_size mp_init obj_init socket_id flags =
     rte_mempool_xmem_create ops mach mem e name n elt_size cache_size private_data_size mp_init obj_init
       socket_id flags 0 None MEMPOOL_PG_NUM_DEFAULT MEMPOOL_PG_SHIFT_MAX"

fun pktpool_lookup_loop :: "(u64 \<rightharpoonup> u64 rte_mempool) \<Rightarrow> string \<Rightarrow> (u64 \<times> u64) list \<Rightarrow> u64 option option" where
  "pktpool_lookup_loop mps name [] = Some None"
| "pktpool_lookup_loop mps name ((te, a) # q) =
     do { mp \<leftarrow> mps a;
          if strncmp_eq name (mp_name mp) RTE_MEMPOOL_NAMESIZE then Some (Some a)
          else pktpool_lookup_loop mps name q }"

text \<open>\<open>rte_mempool_lookup\<close> on this state.\<close>
definition pktpool_lookup :: "'h pool_eal \<Rightarrow> string \<Rightarrow> (u64 \<times> 'h pool_eal) option" where
  "pktpool_lookup e name =
     do { te \<leftarrow> pktpool_lookup_loop (pktpool_at (pool_mem e)) name (pktpool_tailq e);
          case te of None \<Rightarrow> Some (0, e\<lparr>rte_errno := ENOENT\<rparr>)
                   | Some a \<Rightarrow> Some (a, e) }"

text \<open>\<open>rte_pktmbuf_init\<close> as a constructor of objects: it ignores the index.\<close>
definition pktmbuf_ctor :: mempool_obj_ctor where
  "pktmbuf_ctor mp a i = rte_pktmbuf_init mp a"

definition rte_pktmbuf_pool_create ::
  "'h heap_ops \<Rightarrow> machine \<Rightarrow> (u64 \<Rightarrow> u64) \<Rightarrow> 'h pool_eal \<Rightarrow> string \<Rightarrow> u32 \<Rightarrow> u32 \<Rightarrow> u16 \<Rightarrow> u16 \<Rightarrow> int \<Rightarrow>
     (u64 \<times> 'h pool_eal) option" where
  "rte_pktmbuf_pool_create ops mach mem e name n cache_size priv_size data_room_size socket_id =
     (if RTE_ALIGN (unat priv_size) RTE_MBUF_PRIV_ALIGN \<noteq> unat priv_size then Some (0, e\<lparr>rte_errno := EINVAL\<rparr>)
      else rte_mempool_create ops mach mem e name n
             (ucast sizeof_rte_mbuf + ucast priv_size + ucast data_room_size) cache_size 4
             (Some (\<lambda>mp. rte_pktmbuf_pool_init mp
                (Some \<lparr>mbuf_data_room_size = data_room_size, mbuf_priv_size = priv_size\<rparr>)))
             (Some pktmbuf_ctor) socket_id 0)"

section \<open>The next power of two\<close>

text \<open>The step \<open>x |= x >> 2^k\<close> doubles the span of the highest bits that is filled.\<close>
lemma smear_step:
  fixes y :: u32
  assumes "\<And>i. bit y i \<longleftrightarrow> (\<exists>j. i \<le> j \<and> j < i + s \<and> bit x j)" and "0 < s"
  shows "bit (y OR drop_bit s y) i \<longleftrightarrow> (\<exists>j. i \<le> j \<and> j < i + 2 * s \<and> bit x j)"
proof -
  have "(\<exists>j. i \<le> j \<and> j < i + s \<and> bit x j) \<or> (\<exists>j. s + i \<le> j \<and> j < s + i + s \<and> bit x j)"
    if "i \<le> j" "j < i + 2 * s" "bit x j" for j
    using that by (cases "j < i + s") auto
  moreover have "\<exists>j. i \<le> j \<and> j < i + 2 * s \<and> bit x j"
    if "(\<exists>j. i \<le> j \<and> j < i + s \<and> bit x j) \<or> (\<exists>j. s + i \<le> j \<and> j < s + i + s \<and> bit x j)"
    using that by (elim disjE exE conjE) (rule_tac x = j in exI, simp)+
  moreover have "bit (y OR drop_bit s y) i \<longleftrightarrow>
      (\<exists>j. i \<le> j \<and> j < i + s \<and> bit x j) \<or> (\<exists>j. s + i \<le> j \<and> j < s + i + s \<and> bit x j)"
    by (simp add: bit_simps assms)
  ultimately show ?thesis by blast
qed

definition smear :: "u32 \<Rightarrow> u32" where
  "smear x =
     (let x = x OR drop_bit 1 x; x = x OR drop_bit 2 x; x = x OR drop_bit 4 x; x = x OR drop_bit 8 x
      in x OR drop_bit 16 x)"

lemma bit_smear: "bit (smear x) i \<longleftrightarrow> (\<exists>j\<ge>i. bit x j)"
proof -
  define y1 where "y1 = x OR drop_bit 1 x"
  define y2 where "y2 = y1 OR drop_bit 2 y1"
  define y3 where "y3 = y2 OR drop_bit 4 y2"
  define y4 where "y4 = y3 OR drop_bit 8 y3"
  have y: "smear x = y4 OR drop_bit 16 y4" by (simp add: smear_def y4_def y3_def y2_def y1_def Let_def)
  have b0: "bit x i \<longleftrightarrow> (\<exists>j. i \<le> j \<and> j < i + 1 \<and> bit x j)" for i
    by (metis Suc_eq_plus1 le_antisym less_Suc_eq_le order_refl)
  have b1: "bit y1 i \<longleftrightarrow> (\<exists>j. i \<le> j \<and> j < i + 2 \<and> bit x j)" for i
    unfolding y1_def using smear_step [OF b0] by simp
  have b2: "bit y2 i \<longleftrightarrow> (\<exists>j. i \<le> j \<and> j < i + 4 \<and> bit x j)" for i
    unfolding y2_def using smear_step [OF b1] by simp
  have b3: "bit y3 i \<longleftrightarrow> (\<exists>j. i \<le> j \<and> j < i + 8 \<and> bit x j)" for i
    unfolding y3_def using smear_step [OF b2] by simp
  have b4: "bit y4 i \<longleftrightarrow> (\<exists>j. i \<le> j \<and> j < i + 16 \<and> bit x j)" for i
    unfolding y4_def using smear_step [OF b3] by simp
  have "bit (smear x) i \<longleftrightarrow> (\<exists>j. i \<le> j \<and> j < i + 32 \<and> bit x j)"
    unfolding y using smear_step [OF b4] by simp
  moreover have "j < i + 32" if "bit x j" for j using bit_imp_le_length [OF that] by simp
  ultimately show ?thesis by auto
qed

lemma smear_mask:
  assumes "2 ^ h \<le> unat x" and "unat x < 2 ^ (h + 1)"
  shows "smear x = mask (h + 1)"
proof (rule bit_word_eqI)
  fix i :: nat
  assume i: "i < LENGTH(32)"
  have top: "bit x h"
  proof -
    have "unat x div 2 ^ h = 1" using assms by (intro div_nat_eqI) simp_all
    then have "bit (unat x) h" by (simp add: bit_iff_odd)
    then show ?thesis by (simp add: bit_unsigned_iff)
  qed
  have above: "\<not> bit x j" if "h < j" for j
  proof -
    have "(2 :: nat) ^ (h + 1) \<le> 2 ^ j" using that by (intro power_increasing) simp_all
    then have "unat x < 2 ^ j" using assms(2) by linarith
    then have "\<not> bit (unat x) j" by (simp add: bit_iff_odd)
    then show ?thesis using bit_imp_le_length [of x j] by (auto simp: bit_unsigned_iff)
  qed
  have "bit (smear x) i \<longleftrightarrow> i \<le> h" unfolding bit_smear using top above by (meson le_trans not_le)
  then show "bit (smear x) i \<longleftrightarrow> bit (mask (h + 1) :: u32) i" using i by (auto simp: bit_mask_iff)
qed

lemma align32pow2_result:
  assumes "0 < unat x" and "unat x \<le> 2 ^ 31"
  obtains k where "k \<le> 31" and "rte_align32pow2 x = 2 ^ k" and "unat x \<le> 2 ^ k" and "2 ^ k < 2 * unat x"
proof -
  have eq: "rte_align32pow2 x = smear (x - 1) + 1" by (simp add: rte_align32pow2_def smear_def Let_def)
  have m: "unat (x - 1) = unat x - 1" using assms(1) by (subst unat_minus_one) auto
  show thesis
  proof (cases "unat x = 1")
    case True
    then have "x = 1" by (metis unat_1 word_unat_eq_iff)
    then have "rte_align32pow2 x = 2 ^ 0" by (simp add: rte_align32pow2_def)
    then show ?thesis using that [of 0] True by simp
  next
    case False
    then have "1 \<le> unat x - 1" using assms(1) by simp
    then obtain h where h: "2 ^ h \<le> unat x - 1" "unat x - 1 < 2 ^ (h + 1)"
      using ex_power_ivl1 [of 2 "unat x - 1"] by auto
    have "(2 :: nat) ^ h < 2 ^ 31" using h(1) assms by linarith
    then have hb: "h < 31" by (rule power_less_imp_less_exp [rotated]) simp
    have "smear (x - 1) = mask (h + 1)" using h m by (intro smear_mask) simp_all
    then have "rte_align32pow2 x = 2 ^ (h + 1)" unfolding eq mask_eq_exp_minus_1 by simp
    then show ?thesis using that [of "h + 1"] h hb assms(1) by auto
  qed
qed

section \<open>Filling one page\<close>

lemma obj_iter_one_page:
  assumes "0 < sz" and "va + (num - i) * sz < 2 ^ sh" and "i \<le> num"
  shows "obj_iter_loop f num sz 1 [pa] 1 sh va i 0 s =
    Some (num, fold (\<lambda>k. f (va + k * sz) (va + k * sz + sz) (i + k)) [0..<num - i] s)"
  using assms(2,3)
proof (induction "num - i" arbitrary: va i s)
  case 0
  then show ?case by (simp add: obj_iter_loop.simps)
next
  case (Suc d)
  then have i: "i < num" by simp
  have d: "num - i = Suc (num - Suc i)" using i by simp
  have fin: "va + sz + (num - Suc i) * sz < 2 ^ sh" using Suc.prems(1) d by (simp add: algebra_simps)
  have "va div 2 ^ sh = 0" "(va + sz) div 2 ^ sh = 0" "(va + sz - 1) div 2 ^ sh = 0" using fin by simp_all
  moreover have "RTE_ALIGN va (Suc 0) = va" by (simp add: RTE_ALIGN_def)
  moreover have "contig_loop [pa] (2 ^ sh) 0 0 = Some 0" by (simp add: contig_loop.simps)
  ultimately have "obj_iter_loop f num sz 1 [pa] 1 sh va i 0 s =
      obj_iter_loop f num sz 1 [pa] 1 sh (va + sz) (Suc i) 0 (f va (va + sz) i s)"
    using i by (subst obj_iter_loop.simps) (simp add: Let_def)
  also have "\<dots> = Some (num, fold (\<lambda>k. f (va + sz + k * sz) (va + sz + k * sz + sz) (Suc i + k)) [0..<num - Suc i]
      (f va (va + sz) i s))"
    using Suc.hyps i fin by (intro Suc.hyps(1)) simp_all
  also have "\<dots> = Some (num, fold (\<lambda>k. f (va + k * sz) (va + k * sz + sz) (i + k)) [0..<num - i] s)"
    unfolding d upt_conv_Cons [OF zero_less_Suc] map_Suc_upt [symmetric] by (simp add: fold_map comp_def algebra_simps)
  finally show ?case .
qed

lemma sp_enqueue_one:
  assumes "ring_inv r" and "length (ring_list r) < ring_cap r"
  obtains ret r' where "rte_ring_sp_enqueue r x = Some (ret, r')" and "ring_inv r'" and "ring_cap r' = ring_cap r"
    and "ring_list r' = ring_list r @ [x]"
  using enq_fixed_result [OF assms(1), of 1 "[x]"] assms(2) that
  by (auto simp: rte_ring_sp_enqueue_def rte_ring_sp_enqueue_bulk_def ring_free_n_def)

section \<open>Constructors of objects\<close>

definition call_ctor :: "mempool_obj_ctor option \<Rightarrow> mempool_obj_ctor" where
  "call_ctor obj_init mp obj i m = (case obj_init of None \<Rightarrow> Some m | Some f \<Rightarrow> f mp obj i m)"

text \<open>New contents of the pool structure at \<open>mp\<close>.\<close>
definition with_pool :: "u64 \<Rightarrow> u64 rte_mempool \<Rightarrow> mbuf_mem \<Rightarrow> mbuf_mem" where
  "with_pool mp p m = m\<lparr>pktpool_at := (pktpool_at m)(mp \<mapsto> p)\<rparr>"

text \<open>The objects of a pool whose elements of size \<open>sz\<close> start at \<open>va\<close>, behind their headers.\<close>
definition pool_objs :: "nat \<Rightarrow> nat \<Rightarrow> u32 \<Rightarrow> nat \<Rightarrow> u64 list" where
  "pool_objs va sz hdr k = map (\<lambda>i. of_nat (va + i * sz) + ucast hdr) [0..<k]"

lemma unat_pool_obj:
  assumes "va + n * sz < 2 ^ 63" and "unat hdr \<le> sz" and "i < n"
  shows "unat (of_nat (va + i * sz) + ucast hdr :: u64) = va + i * sz + unat (hdr :: u32)"
    and "unat (of_nat (va + i * sz) + ucast hdr - of_nat va :: u64) < 2 ^ 63"
proof -
  have h: "unat (ucast hdr :: u64) = unat hdr" by (simp add: unsigned_ucast_eq take_bit_nat_eq_self less_trans [OF unsigned_less])
  have "Suc i * sz \<le> n * sz" using assms(3) by (intro mult_le_mono1) simp
  then have b: "va + i * sz + unat hdr < 2 ^ 63" using assms(1,2) by simp
  then have w: "(of_nat (va + i * sz) + ucast hdr :: u64) = of_nat (va + i * sz + unat hdr)"
    by (simp only: of_nat_add of_nat_unat)
  show "unat (of_nat (va + i * sz) + ucast hdr :: u64) = va + i * sz + unat hdr"
    unfolding w using b by (simp only: unsigned_of_nat) (simp add: take_bit_nat_eq_self)
  have "(of_nat (va + i * sz + unat hdr) - of_nat va :: u64) = of_nat (i * sz + unat hdr)" by simp
  then show "unat (of_nat (va + i * sz) + ucast hdr - of_nat va :: u64) < 2 ^ 63"
    unfolding w using b by (simp only: unsigned_of_nat) (simp add: take_bit_nat_eq_self)
qed

lemma pool_objs_distinct:
  assumes "va + n * sz < 2 ^ 63" and "unat hdr \<le> sz" and "0 < sz"
  shows "distinct (pool_objs va sz hdr n)"
proof -
  have "inj_on (\<lambda>i. of_nat (va + i * sz) + ucast hdr :: u64) {0..<n}"
  proof (rule inj_onI)
    fix i j assume "i \<in> {0..<n}" "j \<in> {0..<n}"
      and eq: "(of_nat (va + i * sz) + ucast hdr :: u64) = of_nat (va + j * sz) + ucast hdr"
    then have "va + i * sz + unat hdr = va + j * sz + unat hdr"
      using unat_pool_obj(1) [OF assms(1,2), of i] unat_pool_obj(1) [OF assms(1,2), of j] by simp
    then show "i = j" using assms(3) by simp
  qed
  then show ?thesis by (simp add: pool_objs_def distinct_map)
qed

text \<open>The state after \<open>k\<close> objects were put into the pool \<open>p\<close> at \<open>mp\<close> of the state \<open>e\<close>.\<close>
definition filled ::
  "(u64 \<Rightarrow> mbuf_mem \<Rightarrow> bool) \<Rightarrow> (u64 \<Rightarrow> u64 \<Rightarrow> mbuf_mem \<Rightarrow> bool) \<Rightarrow> u64 \<Rightarrow> u64 rte_mempool \<Rightarrow> u64 list \<Rightarrow> 'h pool_eal \<Rightarrow> 'h pool_eal \<Rightarrow> bool" where
  "filled ready good mp p objs e e' \<longleftrightarrow> (\<exists>m v r.
     e' = e\<lparr>obj_hdr := (\<lambda>a. if a \<in> set objs then Some mp else obj_hdr e a), pool_mem := m, pktpool_va_end := v\<rparr>
     \<and> pktpool_at m = (pktpool_at (pool_mem e))(mp \<mapsto> p\<lparr>mp_ring := r\<rparr>) \<and> pktpool_pages m = pktpool_pages (pool_mem e)
     \<and> ring_inv r \<and> ring_cap r = ring_cap (mp_ring p) \<and> ring_list r = ring_list (mp_ring p) @ objs
     \<and> ready mp m \<and> (\<forall>a\<in>set objs. good mp a m))"

text \<open>
  What filling a pool relies on: in a memory that is ready the constructor returns, leaves the
  memory ready and the pools as they are, makes its object good and leaves every other object
  good. Of the contents of the pool structure readiness and goodness see only the size of the elements.
\<close>
locale obj_ctor =
  fixes ctor :: "mempool_obj_ctor option"
    and ready :: "u64 \<Rightarrow> mbuf_mem \<Rightarrow> bool"
    and good :: "u64 \<Rightarrow> u64 \<Rightarrow> mbuf_mem \<Rightarrow> bool"
  assumes returns: "ready mp m \<Longrightarrow> pktpool_pages m mp = Some pg \<Longrightarrow> unat (a - mp_elt_va_start pg) < 2 ^ 63 \<Longrightarrow>
      \<exists>m'. call_ctor ctor mp a i m = Some m' \<and> ready mp m' \<and> good mp a m'
        \<and> pktpool_at m' = pktpool_at m \<and> pktpool_pages m' = pktpool_pages m"
    and keeps: "good mp b m \<Longrightarrow> a \<noteq> b \<Longrightarrow> call_ctor ctor mp a i m = Some m' \<Longrightarrow> good mp b m'"
    and ready_pool: "ready mp m \<Longrightarrow> pktpool_at m mp = Some q \<Longrightarrow> mp_elt_size p = mp_elt_size q \<Longrightarrow> ready mp (with_pool mp p m)"
    and good_pool: "good mp a m \<Longrightarrow> pktpool_at m mp = Some q \<Longrightarrow> mp_elt_size p = mp_elt_size q \<Longrightarrow> good mp a (with_pool mp p m)"
begin

lemma add_elem_ok:
  assumes ready: "ready mp (pool_mem e)" and p: "pktpool_at (pool_mem e) mp = Some p"
    and pg: "pktpool_pages (pool_mem e) mp = Some pg"
    and off: "unat (obj + ucast (mp_header_size p) - mp_elt_va_start pg) < 2 ^ 63"
    and room: "ring_inv (mp_ring p)" "length (ring_list (mp_ring p)) < ring_cap (mp_ring p)"
  shows "\<exists>m r. mempool_add_elem mp obj i ctor e = Some (e\<lparr>obj_hdr := (obj_hdr e)(obj + ucast (mp_header_size p) \<mapsto> mp), pool_mem := m\<rparr>)
    \<and> pktpool_at m = (pktpool_at (pool_mem e))(mp \<mapsto> p\<lparr>mp_ring := r\<rparr>) \<and> pktpool_pages m = pktpool_pages (pool_mem e)
    \<and> ring_inv r \<and> ring_cap r = ring_cap (mp_ring p) \<and> ring_list r = ring_list (mp_ring p) @ [obj + ucast (mp_header_size p)]
    \<and> ready mp m \<and> good mp (obj + ucast (mp_header_size p)) m
    \<and> (\<forall>b. b \<noteq> obj + ucast (mp_header_size p) \<longrightarrow> good mp b (pool_mem e) \<longrightarrow> good mp b m)"
proof -
  let ?o = "obj + ucast (mp_header_size p)"
  obtain m1 where m1: "call_ctor ctor mp ?o i (pool_mem e) = Some m1" "ready mp m1" "good mp ?o m1"
    "pktpool_at m1 = pktpool_at (pool_mem e)" "pktpool_pages m1 = pktpool_pages (pool_mem e)"
    using returns [OF ready pg off] by blast
  obtain ret r where r: "rte_ring_sp_enqueue (mp_ring p) ?o = Some (ret, r)" "ring_inv r"
    "ring_cap r = ring_cap (mp_ring p)" "ring_list r = ring_list (mp_ring p) @ [?o]"
    using sp_enqueue_one [OF room] by blast
  have p1: "pktpool_at m1 mp = Some p" using m1(4) p by simp
  have "mempool_add_elem mp obj i ctor e = Some (e\<lparr>obj_hdr := (obj_hdr e)(?o \<mapsto> mp), pool_mem := with_pool mp (p\<lparr>mp_ring := r\<rparr>) m1\<rparr>)"
    using p p1 m1(1) r(1) by (cases ctor) (simp_all add: mempool_add_elem_def call_ctor_def with_pool_def)
  moreover have "good mp b (with_pool mp (p\<lparr>mp_ring := r\<rparr>) m1)" if "b \<noteq> ?o" "good mp b (pool_mem e)" for b
    using keeps [OF that(2) _ m1(1)] that(1) good_pool [OF _ p1] by auto
  ultimately show ?thesis using m1 r ready_pool [OF m1(2) p1, of "p\<lparr>mp_ring := r\<rparr>"] good_pool [OF m1(3) p1, of "p\<lparr>mp_ring := r\<rparr>"]
    by (intro exI [of _ "with_pool mp (p\<lparr>mp_ring := r\<rparr>) m1"] exI [of _ r]) (simp add: with_pool_def)
qed

lemma populate_loop:
  assumes ready: "ready mp (pool_mem e)" and p: "pktpool_at (pool_mem e) mp = Some p"
    and pg: "pktpool_pages (pool_mem e) mp = Some pg" "mp_elt_va_start pg = of_nat va"
    and ring: "ring_inv (mp_ring p)" "ring_list (mp_ring p) = []" "n \<le> ring_cap (mp_ring p)"
    and space: "va + n * sz < 2 ^ 63" "unat (mp_header_size p) \<le> sz" "0 < sz" and "k \<le> n"
  shows "\<exists>e'. fold (\<lambda>i. mempool_obj_populate mp ctor (va + i * sz) (va + i * sz + sz) i) [0..<k] (Some e) = Some e'
    \<and> filled ready good mp p (pool_objs va sz (mp_header_size p) k) e e'"
  using \<open>k \<le> n\<close>
proof (induction k)
  case 0
  then show ?case using ready p ring
    by (auto simp: filled_def pool_objs_def fun_upd_idem intro!: exI [of _ "pool_mem e"] exI [of _ "pktpool_va_end e"] exI [of _ "mp_ring p"])
next
  case (Suc k)
  let ?objs = "pool_objs va sz (mp_header_size p) k" and ?obj = "of_nat (va + k * sz) :: u64"
  let ?o = "?obj + ucast (mp_header_size p)"
  obtain e1 m v r where e1: "fold (\<lambda>i. mempool_obj_populate mp ctor (va + i * sz) (va + i * sz + sz) i) [0..<k] (Some e) = Some e1"
    "e1 = e\<lparr>obj_hdr := (\<lambda>a. if a \<in> set ?objs then Some mp else obj_hdr e a), pool_mem := m, pktpool_va_end := v\<rparr>"
    "pktpool_at m = (pktpool_at (pool_mem e))(mp \<mapsto> p\<lparr>mp_ring := r\<rparr>)" "pktpool_pages m = pktpool_pages (pool_mem e)"
    "ring_inv r" "ring_cap r = ring_cap (mp_ring p)" "ring_list r = ?objs" "ready mp m" "\<forall>a\<in>set ?objs. good mp a m"
    using Suc ring(2) by (auto simp: filled_def)
  have app: "pool_objs va sz (mp_header_size p) (Suc k) = ?objs @ [?o]" by (simp add: pool_objs_def)
  have "distinct (?objs @ [?o])" unfolding app [symmetric]
    using pool_objs_distinct [of va "Suc k" sz] space Suc.prems mult_le_mono1 [OF Suc.prems, of sz] by simp
  then have new: "?o \<notin> set ?objs" by simp
  have off: "unat (?o - mp_elt_va_start pg) < 2 ^ 63"
    unfolding pg(2) using unat_pool_obj(2) [OF space(1,2)] Suc.prems by simp
  have "length (ring_list r) < ring_cap r" using e1(6,7) ring(3) Suc.prems by (simp add: pool_objs_def)
  then obtain m' r' where m': "mempool_add_elem mp ?obj (of_nat k) ctor e1 = Some (e1\<lparr>obj_hdr := (obj_hdr e1)(?o \<mapsto> mp), pool_mem := m'\<rparr>)"
    "pktpool_at m' = (pktpool_at m)(mp \<mapsto> p\<lparr>mp_ring := r'\<rparr>)" "pktpool_pages m' = pktpool_pages m"
    "ring_inv r'" "ring_cap r' = ring_cap r" "ring_list r' = ring_list r @ [?o]" "ready mp m'" "good mp ?o m'"
    "\<forall>b. b \<noteq> ?o \<longrightarrow> good mp b m \<longrightarrow> good mp b m'"
    using add_elem_ok [of mp e1 "p\<lparr>mp_ring := r\<rparr>" pg ?obj "of_nat k"] e1(2-8) pg(1) off by auto
  have hdr: "(\<lambda>a. if a \<in> set ?objs then Some mp else obj_hdr e a)(?o \<mapsto> mp) =
      (\<lambda>a. if a \<in> set (?objs @ [?o]) then Some mp else obj_hdr e a)" by (auto simp: fun_eq_iff)
  have "good mp a m'" if "a \<in> set ?objs" for a using m'(9) e1(9) new that by metis
  then have "\<forall>a\<in>set (?objs @ [?o]). good mp a m'" using m'(8) by (simp only: set_append) (simp only: ball_Un, simp)
  then have "filled ready good mp p (?objs @ [?o]) e
      (e1\<lparr>obj_hdr := (obj_hdr e1)(?o \<mapsto> mp), pool_mem := m', pktpool_va_end := v(mp \<mapsto> of_nat (va + k * sz + sz))\<rparr>)"
    unfolding filled_def using m' e1(2-7) hdr ring(2)
    by (intro exI [of _ m'] exI [of _ "v(mp \<mapsto> of_nat (va + k * sz + sz))"] exI [of _ r']) simp
  moreover have "fold (\<lambda>i. mempool_obj_populate mp ctor (va + i * sz) (va + i * sz + sz) i) [0..<Suc k] (Some e) =
      Some (e1\<lparr>obj_hdr := (obj_hdr e1)(?o \<mapsto> mp), pool_mem := m', pktpool_va_end := (pktpool_va_end e1)(mp \<mapsto> of_nat (va + k * sz + sz))\<rparr>)"
    using e1(1) m'(1) by (simp add: mempool_obj_populate_def)
  moreover have "pktpool_va_end e1 = v" by (simp add: e1(2))
  ultimately show ?case unfolding app by simp
qed

lemma populate_ok:
  assumes ready: "ready mp (pool_mem e)" and p: "pktpool_at (pool_mem e) mp = Some p"
    and pg: "pktpool_pages (pool_mem e) mp = Some pg" "length (mp_elt_pa pg) = 1" "mp_pg_shift pg = MEMPOOL_PG_SHIFT_MAX"
    and ring: "ring_inv (mp_ring p)" "ring_list (mp_ring p) = []" "unat n \<le> ring_cap (mp_ring p)"
    and sz: "sz = unat (mp_elt_size p + mp_header_size p + mp_trailer_size p)" "unat (mp_header_size p) \<le> sz" "0 < sz"
    and space: "unat (mp_elt_va_start pg) + unat n * sz < 2 ^ 63"
  shows "\<exists>e'. filled ready good mp p (pool_objs (unat (mp_elt_va_start pg)) sz (mp_header_size p) (unat n)) e e'
    \<and> mempool_populate mp n 1 ctor e = Some (e'\<lparr>pool_mem := (pool_mem e')\<lparr>pktpool_at :=
         (pktpool_at (pool_mem e'))(mp \<mapsto> (the (pktpool_at (pool_mem e') mp))\<lparr>mp_size := n\<rparr>)\<rparr>\<rparr>)"
proof -
  let ?va = "unat (mp_elt_va_start pg)"
  obtain e' where e': "fold (\<lambda>i. mempool_obj_populate mp ctor (?va + i * sz) (?va + i * sz + sz) i) [0..<unat n] (Some e) = Some e'"
    "filled ready good mp p (pool_objs ?va sz (mp_header_size p) (unat n)) e e'"
    using populate_loop [OF ready p pg(1) _ ring space sz(2,3) order_refl] by auto
  obtain pa where pa: "mp_elt_pa pg = [pa]" using pg(2) by (auto simp: length_Suc_conv)
  have "rte_mempool_obj_iter ?va (unat n) sz 1 [unat pa] 1 63 (mempool_obj_populate mp ctor) (Some e) = Some (unat n, Some e')"
    unfolding rte_mempool_obj_iter_def using sz(3) space e'(1) by (subst obj_iter_one_page) simp_all
  moreover obtain p' where "pktpool_at (pool_mem e') mp = Some p'" using e'(2) by (auto simp: filled_def)
  ultimately show ?thesis using e'(2) p pg(1,3) pa sz(1)
    by (intro exI [of _ e']) (simp add: mempool_populate_def MEMPOOL_PG_SHIFT_MAX_def)
qed

end

text \<open>Pools of raw objects have no constructor.\<close>
interpretation raw_objs: obj_ctor None "\<lambda>_ _. True" "\<lambda>_ _ _. True"
  by unfold_locales (simp_all add: call_ctor_def)

text \<open>Structure, private area and data room fit into an element of this size.\<close>
definition priv_fits :: "u32 \<Rightarrow> rte_pktmbuf_pool_private \<Rightarrow> bool" where
  "priv_fits elt_size pv \<longleftrightarrow> 8 dvd unat (mbuf_priv_size pv)
     \<and> unat sizeof_rte_mbuf + unat (mbuf_priv_size pv) + unat (mbuf_data_room_size pv) \<le> unat elt_size"

definition pktmbuf_ready :: "u64 \<Rightarrow> mbuf_mem \<Rightarrow> bool" where
  "pktmbuf_ready mp m \<longleftrightarrow> (\<exists>p pv. pktpool_at m mp = Some p \<and> pktpool_priv m mp = Some pv \<and> priv_fits (mp_elt_size p) pv)
     \<and> (\<exists>pg. pktpool_pages m mp = Some pg \<and> mp_elt_pa pg \<noteq> [] \<and> mp_pg_shift pg = MEMPOOL_PG_SHIFT_MAX)"

text \<open>A free packet buffer as its constructor leaves it; its data room ends inside the element.\<close>
definition pktmbuf_fresh :: "u64 \<Rightarrow> u64 \<Rightarrow> mbuf_mem \<Rightarrow> bool" where
  "pktmbuf_fresh mp a m \<longleftrightarrow> (\<exists>b p. mbuf_at m a = Some b \<and> own_buffer m a b \<and> mb_pool b = mp \<and> mb_refcnt b = 0
     \<and> mb_next b = 0 \<and> mb_nb_segs b = 1 \<and> mb_port b = 0xff \<and> mb_data_off b = min RTE_PKTMBUF_HEADROOM (mb_buf_len b)
     \<and> pktpool_at m mp = Some p
     \<and> unat sizeof_rte_mbuf + unat (mb_priv_size b) + unat (mb_buf_len b) \<le> unat (mp_elt_size p))"

lemma drop_bit_63: "unat (w :: u64) < 2 ^ 63 \<Longrightarrow> drop_bit 63 w = 0"
proof -
  assume "unat w < 2 ^ 63"
  then have "unat (drop_bit 63 w) = 0" by (simp add: drop_bit_eq_div unat_div_distrib)
  then show ?thesis by (simp only: unat_eq_zero)
qed

lemma virt2phy_in_page:
  assumes "pktpool_pages m mp = Some pg" and "mp_elt_pa pg \<noteq> []" and "mp_pg_shift pg = MEMPOOL_PG_SHIFT_MAX"
    and "unat (a - mp_elt_va_start pg) < 2 ^ 63"
  shows "\<exists>ph. rte_mempool_virt2phy m mp a = Some ph"
  using assms drop_bit_63 [OF assms(4)]
  by (cases "has_hugepages m") (simp_all add: rte_mempool_virt2phy_def MEMPOOL_PG_SHIFT_MAX_def)

lemma own_buffer_cong:
  assumes "pktpool_priv m' = pktpool_priv m" and "pktpool_pages m' = pktpool_pages m"
    and "has_hugepages m' = has_hugepages m" and "mem_virt2phy m' = mem_virt2phy m"
  shows "own_buffer m' a b = own_buffer m a b"
proof -
  have "rte_mempool_virt2phy m' mp x = rte_mempool_virt2phy m mp x" for mp x
    using assms by (simp add: rte_mempool_virt2phy_def)
  then show ?thesis using assms(1) by (simp add: own_buffer_def)
qed

lemma pktmbuf_init_result:
  assumes "pktmbuf_ready mp m" and "pktpool_pages m mp = Some pg" and "unat (a - mp_elt_va_start pg) < 2 ^ 63"
  shows "\<exists>b bytes p. rte_pktmbuf_init mp a m = Some (m\<lparr>mbuf_at := (mbuf_at m)(a \<mapsto> b), byte_at := bytes\<rparr>)
    \<and> own_buffer m a b \<and> mb_pool b = mp \<and> mb_refcnt b = 0 \<and> mb_next b = 0 \<and> mb_nb_segs b = 1 \<and> mb_port b = 0xff
    \<and> mb_data_off b = min RTE_PKTMBUF_HEADROOM (mb_buf_len b) \<and> pktpool_at m mp = Some p
    \<and> unat sizeof_rte_mbuf + unat (mb_priv_size b) + unat (mb_buf_len b) \<le> unat (mp_elt_size p)"
proof -
  obtain p pv where p: "pktpool_at m mp = Some p" "pktpool_priv m mp = Some pv" "priv_fits (mp_elt_size p) pv"
    using assms(1) by (auto simp: pktmbuf_ready_def)
  obtain ph where ph: "rte_mempool_virt2phy m mp a = Some ph"
    using virt2phy_in_page [OF assms(2) _ _ assms(3)] assms(1,2) by (auto simp: pktmbuf_ready_def)
  let ?ps = "mbuf_priv_size pv" and ?sz = "sizeof_rte_mbuf + ucast (mbuf_priv_size pv) :: u64"
  have "unat ?ps < 2 ^ 16" using unsigned_less [of ?ps, where ?'a = nat] by simp
  then have "unat ?sz = unat sizeof_rte_mbuf + unat ?ps"
    by (subst unat_add_lem [THEN iffD1]) (simp_all add: sizeof_rte_mbuf_def unsigned_ucast_eq take_bit_nat_eq_self)
  moreover have "RTE_ALIGN (unat ?ps) RTE_MBUF_PRIV_ALIGN = unat ?ps"
    using p(3) by (auto simp: priv_fits_def RTE_ALIGN_def RTE_MBUF_PRIV_ALIGN_def elim!: dvdE)
  ultimately have ok: "\<not> (RTE_ALIGN (unat ?ps) RTE_MBUF_PRIV_ALIGN \<noteq> unat ?ps \<or> unat (mp_elt_size p) < unat ?sz)"
    using p(3) by (simp add: priv_fits_def)
  have "rte_mempool_virt2phy (clear_elt a sz m) = rte_mempool_virt2phy m" for sz
    by (simp add: clear_elt_def)
  moreover define b where "b = zero_mbuf\<lparr>mb_priv_size := ?ps, mb_buf_addr := a + ?sz, mb_buf_physaddr := ph + ?sz,
      mb_buf_len := mbuf_data_room_size pv,
      mb_data_off := min RTE_PKTMBUF_HEADROOM (mbuf_data_room_size pv), mb_pool := mp, mb_nb_segs := 1, mb_port := 0xff\<rparr>"
  ultimately have "rte_pktmbuf_init mp a m = Some (m\<lparr>mbuf_at := (mbuf_at m)(a \<mapsto> b), byte_at := byte_at (clear_elt a (mp_elt_size p) m)\<rparr>)"
    using p ph ok by (simp add: rte_pktmbuf_init_def rte_pktmbuf_priv_size_def rte_pktmbuf_data_room_size_def
        mbuf_upd_def clear_elt_def Let_def)
  moreover have "own_buffer m a b" using p ph by (simp add: own_buffer_def b_def RTE_MBUF_INDIRECT_def zero_mbuf_def)
  ultimately show ?thesis using p(1,3)
    by (intro exI [of _ b] exI [of _ "byte_at (clear_elt a (mp_elt_size p) m)"] exI [of _ p]) (simp add: b_def zero_mbuf_def priv_fits_def)
qed

text \<open>The constructor of packet buffers meets what filling a pool relies on.\<close>
interpretation pktmbufs: obj_ctor "Some pktmbuf_ctor" pktmbuf_ready pktmbuf_fresh
proof (unfold_locales, goal_cases)
  case (1 mp m pg a i)
  then obtain b bytes p where "rte_pktmbuf_init mp a m = Some (m\<lparr>mbuf_at := (mbuf_at m)(a \<mapsto> b), byte_at := bytes\<rparr>)"
    "own_buffer m a b" "mb_pool b = mp" "mb_refcnt b = 0" "mb_next b = 0" "mb_nb_segs b = 1" "mb_port b = 0xff"
    "mb_data_off b = min RTE_PKTMBUF_HEADROOM (mb_buf_len b)" "pktpool_at m mp = Some p"
    "unat sizeof_rte_mbuf + unat (mb_priv_size b) + unat (mb_buf_len b) \<le> unat (mp_elt_size p)"
    using pktmbuf_init_result by blast
  then show ?case using 1(1) own_buffer_cong [of "m\<lparr>mbuf_at := (mbuf_at m)(a \<mapsto> b), byte_at := bytes\<rparr>" m a b]
    by (simp add: call_ctor_def pktmbuf_ctor_def pktmbuf_ready_def pktmbuf_fresh_def)
next
  case (2 mp b m a i m')
  then have "rte_pktmbuf_init mp a m = Some m'" by (simp add: call_ctor_def pktmbuf_ctor_def)
  then have "(\<exists>c. mbuf_at m' = (mbuf_at m)(a \<mapsto> c)) \<and> pktpool_priv m' = pktpool_priv m \<and> pktpool_pages m' = pktpool_pages m
      \<and> has_hugepages m' = has_hugepages m \<and> mem_virt2phy m' = mem_virt2phy m \<and> pktpool_at m' = pktpool_at m"
    by (auto simp: rte_pktmbuf_init_def mbuf_upd_def clear_elt_def Let_def split: Option.bind_splits if_splits)
  then show ?case using 2(1,2) own_buffer_cong [of m' m b] by (auto simp: pktmbuf_fresh_def)
next
  case (3 mp m q p)
  then show ?case by (auto simp: pktmbuf_ready_def with_pool_def)
next
  case (4 mp a m q p)
  then show ?case using own_buffer_cong [of "with_pool mp p m" m a] by (auto simp: pktmbuf_fresh_def with_pool_def)
qed

end
