(* ===== verification/Rte_Heap_Live.thy ===== *)
theory Rte_Heap_Live
  imports Rte_Ring_Registry
begin

text \<open>
  Several reservations in a row: what the heap promises of the blocks it has handed out, and that
  memory zones and rings of the registry therefore never share an address. With this a sequence of
  ring creations, as the primary process makes it, yields rings that are all found under their
  names.
\<close>

text \<open>
  The blocks in use at a state of the heap: an allocation returns a block that is not in use, and
  freeing takes away the block that is freed.
\<close>
definition heap_live :: "'h heap_ops \<Rightarrow> ('h \<Rightarrow> u64 set) \<Rightarrow> bool" where
  "heap_live ops live \<longleftrightarrow>
     (\<forall>h s len fl al bd a h'. malloc_heap_alloc ops h s len fl al bd = (a, h') \<longrightarrow>
        (if a = 0 then live h' = live h else a \<notin> live h \<and> live h' = insert a (live h)))
     \<and> (\<forall>h len a h'. rte_zmalloc ops h len = (a, h') \<longrightarrow>
        (if a = 0 then live h' = live h else a \<notin> live h \<and> live h' = insert a (live h)))
     \<and> (\<forall>h a. live (rte_free ops h a) = live h - {a})"

lemma heap_live_alloc:
  assumes "heap_live ops live" and "malloc_heap_alloc ops h s len fl al bd = (a, h')"
  shows "live h \<subseteq> live h'" and "a \<noteq> 0 \<Longrightarrow> a \<in> live h' - live h"
proof -
  note rule = assms(1) [unfolded heap_live_def, THEN conjunct1, rule_format, OF assms(2)]
  show "live h \<subseteq> live h'" "a \<noteq> 0 \<Longrightarrow> a \<in> live h' - live h" using rule by (auto split: if_splits)
qed

lemma heap_live_zmalloc:
  assumes "heap_live ops live" and "rte_zmalloc ops h len = (a, h')"
  shows "live h \<subseteq> live h'" and "a \<noteq> 0 \<Longrightarrow> a \<notin> live h" and "a = 0 \<Longrightarrow> live h' = live h"
proof -
  note rule = assms(1) [unfolded heap_live_def, THEN conjunct2, THEN conjunct1, rule_format, OF assms(2)]
  show "live h \<subseteq> live h'" "a \<noteq> 0 \<Longrightarrow> a \<notin> live h" "a = 0 \<Longrightarrow> live h' = live h" using rule by (auto split: if_splits)
qed

lemma heap_live_free: "heap_live ops live \<Longrightarrow> live (rte_free ops h a) = live h - {a}"
  by (simp add: heap_live_def)

lemma try_other_heaps_live:
  assumes "heap_live ops live" and "try_other_heaps ops is socket len fl al bd h = (a, h')"
  shows "live h \<subseteq> live h' \<and> (a \<noteq> 0 \<longrightarrow> a \<in> live h' - live h)"
  using assms(2)
proof (induction "is" arbitrary: h)
  case (Cons i "is")
  obtain a1 h1 where a1: "malloc_heap_alloc ops h i len fl al bd = (a1, h1)" by fastforce
  show ?case
  proof (cases "socket = i")
    case True
    then show ?thesis using Cons.prems by (intro Cons.IH) simp
  next
    case False
    show ?thesis
    proof (cases "a1 = 0")
      case True
      then have "try_other_heaps ops is socket len fl al bd h1 = (a, h')" using Cons.prems False a1 by simp
      then have "live h1 \<subseteq> live h' \<and> (a \<noteq> 0 \<longrightarrow> a \<in> live h' - live h1)" by (rule Cons.IH)
      then show ?thesis using heap_live_alloc(1) [OF assms(1) a1] by blast
    next
      case nz: False
      then have "a1 = a" "h1 = h'" using Cons.prems False a1 by simp_all
      then show ?thesis using heap_live_alloc [OF assms(1) a1] by blast
    qed
  qed
qed simp

lemma heap_alloc_live:
  assumes hl: "heap_live ops live" and "memzone_heap_alloc ops h len req socket_id fl al bd = (a, req', h')"
  shows "live h \<subseteq> live h' \<and> (a \<noteq> 0 \<longrightarrow> a \<in> live h' - live h)"
proof -
  obtain sock req1 a1 h1 where a1: "malloc_heap_alloc ops h sock req1 fl al bd = (a1, h1)"
    and "(a1 = a \<and> h1 = h') \<or> (a1 = 0 \<and> try_other_heaps ops [0..RTE_MAX_NUMA_NODES - 1] sock req1 fl al bd h1 = (a, h'))"
    using assms(2) by (simp add: memzone_heap_alloc_def Let_def split_beta prod_eq_iff split: if_splits) (metis prod.collapse)+
  then show ?thesis using heap_live_alloc [OF hl a1] try_other_heaps_live [OF hl, of _ sock req1 fl al bd h1 a h'] by blast
qed

lemma reserve_live:
  assumes hl: "heap_live ops live" and "rte_memzone_reserve ops e name len socket_id flags = (r, e')"
  shows "live (malloc_heaps e) \<subseteq> live (malloc_heaps e')"
    and "r = Some i \<Longrightarrow> mz_addr (memzone e' ! i) \<in> live (malloc_heaps e') - live (malloc_heaps e)"
proof -
  have res: "memzone_reserve_aligned_thread_unsafe ops e name len socket_id flags 64 0 = (r, e')"
    using assms(2) by (simp add: rte_memzone_reserve_def rte_memzone_reserve_thread_safe_def RTE_CACHE_LINE_SIZE_def)
  have "live (malloc_heaps e) \<subseteq> live (malloc_heaps e') \<and>
    (\<forall>i. r = Some i \<longrightarrow> mz_addr (memzone e' ! i) \<in> live (malloc_heaps e') - live (malloc_heaps e))"
  proof (cases "memzone_check e name len socket_id 64 0")
    case (Inl err)
    then show ?thesis using res by (auto simp: memzone_reserve_aligned_thread_unsafe_def)
  next
    case (Inr x)
    obtain l q al where x: "x = (l, q, al)" by (cases x)
    obtain a q' h where a: "memzone_heap_alloc ops (malloc_heaps e) l q socket_id flags al 0 = (a, q', h)" by (metis prod_cases3)
    note live = heap_alloc_live [OF hl a]
    show ?thesis
    proof (cases "a = 0 \<or> get_next_free_memzone e = None")
      case True
      then have "malloc_heaps e' = h \<and> r = None"
        using res Inr x a by (auto simp: memzone_reserve_aligned_thread_unsafe_def Let_def split: if_splits option.splits)
      then show ?thesis using live by simp
    next
      case False
      then obtain j where j: "get_next_free_memzone e = Some j" "a \<noteq> 0" by blast
      then have "j < length (memzone e)" unfolding get_next_free_memzone_def using scan_Some by fast
      then have "malloc_heaps e' = h \<and> r = Some j \<and> mz_addr (memzone e' ! j) = a"
        using res Inr x a j by (auto simp: memzone_reserve_aligned_thread_unsafe_def Let_def memzone_fill_def)
      then show ?thesis using live j(2) by auto
    qed
  qed
  then show "live (malloc_heaps e) \<subseteq> live (malloc_heaps e')"
    "r = Some i \<Longrightarrow> mz_addr (memzone e' ! i) \<in> live (malloc_heaps e') - live (malloc_heaps e)" by blast+
qed

section \<open>Rings\<close>

text \<open>The registry is well-formed and the rings of its list are blocks in use.\<close>
definition reg_live :: "('h \<Rightarrow> u64 set) \<Rightarrow> ('h, 'a, 'z) ring_eal_scheme \<Rightarrow> bool" where
  "reg_live live e \<longleftrightarrow> reg_inv e \<and> snd ` set (ring_tailq e) \<subseteq> live (malloc_heaps e)"

lemma ring_create_heap:
  assumes hl: "heap_live ops live" and create: "rte_ring_create ops mem e name cnt socket_id flags = (r, e')"
  shows "live (malloc_heaps e) \<subseteq> live (malloc_heaps e')
    \<and> (r \<noteq> 0 \<longrightarrow> r \<in> live (malloc_heaps e') - live (malloc_heaps e) \<and> (\<exists>te. ring_tailq e' = ring_tailq e @ [(te, r)]))"
proof (cases "rte_ring_get_memsize cnt < 0")
  case True
  then have "r = 0 \<and> malloc_heaps e' = malloc_heaps e" using create by (auto simp: rte_ring_create_def)
  then show ?thesis by simp
next
  case False
  let ?n = "snprintf_s RTE_MEMZONE_NAMESIZE (RTE_RING_MZ_PREFIX @ name)"
  obtain te h where te: "rte_zmalloc ops (malloc_heaps e) sizeof_rte_tailq_entry = (te, h)" by fastforce
  obtain mz e2 where mz: "rte_memzone_reserve ops (e\<lparr>malloc_heaps := h\<rparr>) ?n (word_of_int (rte_ring_get_memsize cnt)) socket_id 0 = (mz, e2)"
    by fastforce
  have keep: "ring_tailq e2 = ring_tailq e"
    using reserve_cases [OF mz [unfolded rte_memzone_reserve_def rte_memzone_reserve_thread_safe_def]]
    by (auto simp: mz_taken_def)
  note z = heap_live_zmalloc [OF hl te] and l = reserve_live [OF hl mz]
  consider "te = 0" | "te \<noteq> 0" "mz = None" | i where "te \<noteq> 0" "mz = Some i" by blast
  then show ?thesis
  proof cases
    case 1
    then have "r = 0 \<and> malloc_heaps e' = h" using create False te by (auto simp: rte_ring_create_def Let_def)
    then show ?thesis using z(1) by simp
  next
    case 2
    then have "r = 0 \<and> malloc_heaps e' = rte_free ops (malloc_heaps e2) te"
      using create False te mz by (auto simp: rte_ring_create_def Let_def)
    then show ?thesis using z l(1) 2 heap_live_free [OF hl] by auto
  next
    case 3
    then have "r = mz_addr (memzone e2 ! i) \<and> malloc_heaps e' = malloc_heaps e2 \<and> ring_tailq e' = ring_tailq e @ [(te, r)]"
      using create False te mz keep by (auto simp: rte_ring_create_def Let_def)
    then show ?thesis using z(1) l(1) l(2) [OF 3(2)] by auto
  qed
qed

text \<open>Creating a ring in a live registry, with everything the later steps need.\<close>
lemma ring_create_live:
  assumes hl: "heap_live ops live" and inv: "reg_live live e" and short: "length name < RTE_RING_NAMESIZE"
    and create: "rte_ring_create ops mem e name cnt socket_id flags = (r, e')"
  shows "reg_live live e'" and "live (malloc_heaps e) \<subseteq> live (malloc_heaps e')"
    and "r = 0 \<Longrightarrow> ring_at e' = ring_at e \<and> ring_tailq e' = ring_tailq e"
    and "r \<noteq> 0 \<Longrightarrow> (\<exists>ring. ring_at e' r = Some ring \<and> ring_placed (memzone e') r ring
            \<and> (cnt \<noteq> 0 \<longrightarrow> ring_inv ring \<and> ring_list ring = [] \<and> ring_cap ring = unat cnt - 1))
        \<and> (\<forall>name'. map_option fst (rte_ring_lookup e' name') =
             (if name' = name then Some r else map_option fst (rte_ring_lookup e name')))"
    and "r \<noteq> 0 \<Longrightarrow> r \<in> live (malloc_heaps e') - live (malloc_heaps e)"
proof -
  note heap = ring_create_heap [OF hl create]
  have fresh: "r \<notin> snd ` set (ring_tailq e)"
  proof (cases "r = 0")
    case True
    have "a \<noteq> 0" if "(te, a) \<in> set (ring_tailq e)" for te a
      using reg_inv_live [of e te a] inv that by (auto simp: reg_live_def ring_placed_def)
    then show ?thesis using True by auto
  next
    case False
    then show ?thesis using heap inv by (auto simp: reg_live_def)
  qed
  have ri: "reg_inv e" using inv by (simp add: reg_live_def)
  note c = ring_created [OF ri short create fresh]
  show "r = 0 \<Longrightarrow> ring_at e' = ring_at e \<and> ring_tailq e' = ring_tailq e" using c by simp
  show "live (malloc_heaps e) \<subseteq> live (malloc_heaps e')"
    "r \<noteq> 0 \<Longrightarrow> r \<in> live (malloc_heaps e') - live (malloc_heaps e)" using heap by simp_all
  show "r \<noteq> 0 \<Longrightarrow> (\<exists>ring. ring_at e' r = Some ring \<and> ring_placed (memzone e') r ring
            \<and> (cnt \<noteq> 0 \<longrightarrow> ring_inv ring \<and> ring_list ring = [] \<and> ring_cap ring = unat cnt - 1))
        \<and> (\<forall>name'. map_option fst (rte_ring_lookup e' name') =
             (if name' = name then Some r else map_option fst (rte_ring_lookup e name')))" using c by simp
  have "snd ` set (ring_tailq e') \<subseteq> live (malloc_heaps e')"
  proof (cases "r = 0")
    case True
    then show ?thesis using c heap inv by (auto simp: reg_live_def)
  next
    case False
    then have "snd ` set (ring_tailq e') = insert r (snd ` set (ring_tailq e))" using heap by auto
    then show ?thesis using False heap inv by (auto simp: reg_live_def simp del: image_subset_iff)
  qed
  then show "reg_live live e'" using c by (simp add: reg_live_def)
qed

end
