(* ===== verification/Rte_Mempool_Registry.thy ===== *)
theory Rte_Mempool_Registry
  imports Rte_Mempool_Create Rte_Heap_Live Spp_Common
begin

text \<open>
  The pools of the shared memory: each lies in a memory zone with its name, so that no two of them
  share a name, and the pool that \<open>rte_mempool_create\<close> makes is found by every process. The main
  result says what the created pool of packet buffers is: exactly the requested number of fresh
  buffers, inside the zone and apart from each other, in a pool that satisfies the invariant of
  \<open>Rte_Mempool\<close>.
\<close>

unbundle bit_operations_syntax

section \<open>The registry\<close>

definition pool_zone :: "rte_memzone list \<Rightarrow> u64 rte_mempool \<Rightarrow> bool" where
  "pool_zone zs p \<longleftrightarrow> length (mp_name p) + 3 < RTE_MEMZONE_NAMESIZE
     \<and> (\<exists>z\<in>set zs. mz_used z \<and> mz_name z = RTE_MEMPOOL_MZ_PREFIX @ mp_name p)"

definition pools_live :: "('h \<Rightarrow> u64 set) \<Rightarrow> 'h pool_eal \<Rightarrow> bool" where
  "pools_live live e \<longleftrightarrow> reg_live live e \<and>
     list_all (\<lambda>(te, a). a \<in> live (malloc_heaps e) \<and>
        (case pktpool_at (pool_mem e) a of None \<Rightarrow> False | Some p \<Rightarrow> pool_zone (memzone e) p)) (pktpool_tailq e)"

text \<open>What a call keeps that makes no pool.\<close>
definition pools_kept :: "'h pool_eal \<Rightarrow> 'h pool_eal \<Rightarrow> bool" where
  "pools_kept e e' \<longleftrightarrow> pool_mem e' = pool_mem e \<and> pktpool_tailq e' = pktpool_tailq e \<and> obj_hdr e' = obj_hdr e
     \<and> (\<forall>z\<in>set (memzone e). mz_used z \<longrightarrow> z \<in> set (memzone e'))"

lemma pools_kept_refl [simp]: "pools_kept e e"
  by (simp add: pools_kept_def)

lemma pools_kept_trans: "pools_kept e1 e2 \<Longrightarrow> pools_kept e2 e3 \<Longrightarrow> pools_kept e1 e3"
  by (simp add: pools_kept_def)

lemma pools_kept_heap [simp]: "pools_kept e (e'\<lparr>malloc_heaps := h\<rparr>) = pools_kept e e'"
  "pools_kept e (e'\<lparr>rte_errno := x\<rparr>) = pools_kept e e'"
  by (simp_all add: pools_kept_def)

lemma pools_kept_live:
  assumes "pools_live live e" and "pools_kept e e'" and "reg_live live e'"
    and "live (malloc_heaps e) \<subseteq> live (malloc_heaps e')"
  shows "pools_live live e'"
proof -
  have "pool_zone (memzone e') p" if "pool_zone (memzone e) p" for p
    using that assms(2) by (auto simp: pool_zone_def pools_kept_def)
  then show ?thesis using assms by (fastforce simp: pools_live_def list_all_iff pools_kept_def split: option.splits)
qed

lemma mz_taken_kept:
  assumes "mz_taken name e i e'"
  shows "pools_kept e (e' :: 'h pool_eal)"
proof -
  obtain z h where z: "e' = e\<lparr>malloc_heaps := h, memzone_cnt := memzone_cnt e + 1, memzone := (memzone e)[i := z]\<rparr>"
    using assms unfolding mz_taken_def by blast
  have "y \<in> set ((memzone e)[i := z])" if y: "y \<in> set (memzone e)" "mz_used y" for y
  proof -
    obtain j where j: "j < length (memzone e)" "memzone e ! j = y" using y(1) by (auto simp: in_set_conv_nth)
    then have "j \<noteq> i" using mz_taken_slot(2) [OF assms] y(2) by auto
    then show ?thesis using j by (metis length_list_update nth_list_update_neq nth_mem)
  qed
  then show ?thesis by (simp add: z pools_kept_def)
qed

lemma reserve_kept:
  assumes "rte_memzone_reserve ops e name len socket_id flags = (r, e' :: 'h pool_eal)"
  shows "pools_kept e e'"
proof -
  note cases = reserve_cases [OF assms [unfolded rte_memzone_reserve_def rte_memzone_reserve_thread_safe_def]]
  then consider h err where "e' = e\<lparr>malloc_heaps := h, rte_errno := err\<rparr>" | i where "mz_taken name e i e'" by blast
  then show ?thesis by cases (simp_all add: mz_taken_kept)
qed

lemma ring_create_kept:
  assumes "rte_ring_create ops mem e name cnt socket_id flags = (r, e' :: 'h pool_eal)"
  shows "pools_kept e e'"
proof -
  obtain te h where te: "rte_zmalloc ops (malloc_heaps e) sizeof_rte_tailq_entry = (te, h)" by fastforce
  obtain mz e2 where mz: "rte_memzone_reserve ops (e\<lparr>malloc_heaps := h\<rparr>) (snprintf_s RTE_MEMZONE_NAMESIZE (RTE_RING_MZ_PREFIX @ name))
      (word_of_int (rte_ring_get_memsize cnt)) socket_id 0 = (mz, e2)" by fastforce
  have "pools_kept (e\<lparr>malloc_heaps := h\<rparr>) e2" by (rule reserve_kept [OF mz])
  then have "pools_kept e e2" by (simp add: pools_kept_def)
  then have "pools_kept e (e2\<lparr>ring_at := x, ring_tailq := q\<rparr>)" for x q by (simp add: pools_kept_def)
  then show ?thesis using assms te mz \<open>pools_kept e e2\<close>
    by (auto simp: rte_ring_create_def Let_def split: if_splits option.splits)
qed

lemma reserve_rings:
  assumes "rte_memzone_reserve ops e name len socket_id flags = (r, e')" and "reg_live live e"
    and "live (malloc_heaps e) \<subseteq> live (malloc_heaps e')"
  shows "reg_live live e'" and "ring_at e' = ring_at e" and "ring_tailq e' = ring_tailq e"
proof -
  note cases = reserve_cases [OF assms(1) [unfolded rte_memzone_reserve_def rte_memzone_reserve_thread_safe_def]]
  then consider h err where "e' = e\<lparr>malloc_heaps := h, rte_errno := err\<rparr>" | i where "mz_taken name e i e'" by blast
  then have "reg_inv e' \<and> ring_at e' = ring_at e \<and> ring_tailq e' = ring_tailq e"
  proof cases
    case 1
    then show ?thesis using assms(2) by (simp add: reg_live_def reg_inv_def cong: option.case_cong)
  next
    case 2
    obtain z h where z: "e' = e\<lparr>malloc_heaps := h, memzone_cnt := memzone_cnt e + 1, memzone := (memzone e)[i := z]\<rparr>"
      using 2 unfolding mz_taken_def by blast
    have inv: "reg_inv e" using assms(2) by (simp add: reg_live_def)
    have "mz_inv e'" using mz_taken_inv(1) [OF 2] inv by (simp add: reg_inv_def)
    moreover have "case ring_at e a of None \<Rightarrow> False | Some r \<Rightarrow> ring_placed ((memzone e)[i := z]) a r"
      if "(te, a) \<in> set (ring_tailq e)" for te a
      using reg_inv_live [OF inv that] ring_placed_update [OF _ mz_taken_slot(2) [OF 2]] by auto
    ultimately show ?thesis by (auto simp: reg_inv_def list_all_iff z cong: option.case_cong)
  qed
  then show "reg_live live e'" "ring_at e' = ring_at e" "ring_tailq e' = ring_tailq e"
    using assms(2,3) by (auto simp: reg_live_def)
qed

section \<open>Sizes and addresses\<close>

lemma align_ceil64_id:
  assumes "64 dvd unat v" and "unat v + 63 < 2 ^ 64"
  shows "align_ceil64 v 64 = v"
proof -
  have m: "(63 :: u64) = mask 6" by (simp add: mask_eq_exp_minus_1)
  have "unat (v + 63) = unat v + 63" using assms(2) by (simp add: unat_word_ariths)
  then have "unat ((v + 63) AND NOT 63) = unat v + 63 - (unat v + 63) mod 64"
    unfolding m using unat_and_not_mask [of "v + mask 6" 6] by (simp add: mask_eq_exp_minus_1)
  also have "\<dots> = unat v" using assms(1) by (auto simp: dvd_def)
  finally show ?thesis by (simp add: align_ceil64_def word_unat_eq_iff)
qed

lemma private_size_nat:
  assumes "unat pds \<le> 2 ^ 20"
  shows "unat (pool_private_size True ps pds) = RTE_ALIGN (unat pds) 64"
proof -
  have "unat (align_ceil32 pds (2 ^ 6)) = RTE_ALIGN (unat pds) (2 ^ 6)" using assms by (intro align_ceil32_nat) simp_all
  then show ?thesis by (simp add: pool_private_size_def align_ceil32_def RTE_MEMPOOL_ALIGN_MASK_def RTE_MEMPOOL_ALIGN_def)
qed

text \<open>The offset of the objects in the zone.\<close>
definition objs_off :: "u32 \<Rightarrow> nat" where
  "objs_off pd = sizeof_rte_mempool + unat pd"

lemma header_size_1: "MEMPOOL_HEADER_SIZE 1 = sizeof_rte_mempool"
  by (simp add: MEMPOOL_HEADER_SIZE_def RTE_ALIGN_def RTE_CACHE_LINE_SIZE_def)

lemma ucast_u32_u64 [simp]: "unat (ucast (x :: u32) :: u64) = unat x"
  by (simp add: unsigned_ucast_eq take_bit_nat_eq_self less_trans [OF unsigned_less])

lemma pool_memory_size_nat:
  assumes "64 dvd unat pd" and "unat pd \<le> 2 ^ 21" and "unat n < 2 ^ 31"
  shows "unat (pool_memory_size True ps 0 1 pd tot n) = objs_off pd + unat tot * unat n"
proof -
  let ?h = "of_nat sizeof_rte_mempool + ucast pd :: u64"
  have h: "unat ?h = objs_off pd" using assms(2)
    by (simp add: objs_off_def sizeof_rte_mempool_def unat_word_ariths)
  have "64 dvd unat ?h" unfolding h using assms(1) by (simp add: objs_off_def sizeof_rte_mempool_def dvd_add)
  moreover have "unat ?h + 63 < 2 ^ 64" unfolding h using assms(2) by (simp add: objs_off_def sizeof_rte_mempool_def)
  ultimately have al: "align_ceil64 ?h 64 = ?h" by (rule align_ceil64_id)
  have "unat tot * unat n < 2 ^ 32 * 2 ^ 31"
    using unsigned_less [of tot, where ?'a = nat] assms(3) by (intro mult_strict_mono) simp_all
  then have "unat (?h + ucast tot * ucast n) = objs_off pd + unat tot * unat n"
    using h assms(2) by (simp add: unat_word_ariths objs_off_def sizeof_rte_mempool_def)
  then show ?thesis using al by (simp add: pool_memory_size_def header_size_1 RTE_MEMPOOL_ALIGN_def)
qed

lemma pool_pages_at:
  assumes "64 dvd unat mp" and "64 dvd unat pd" and "unat mp + objs_off pd < 2 ^ 63"
  shows "\<exists>pg. pool_pages mem mp phys pd 0 None 1 63 = Some pg \<and> unat (mp_elt_va_start pg) = unat mp + objs_off pd
    \<and> mp_pg_shift pg = 63 \<and> length (mp_elt_pa pg) = 1"
proof -
  let ?o = "mp + of_nat sizeof_rte_mempool + ucast pd :: u64"
  have o: "unat ?o = unat mp + objs_off pd" using assms(3)
    by (simp add: objs_off_def sizeof_rte_mempool_def unat_word_ariths)
  have "64 dvd unat ?o" unfolding o using assms(1,2) by (simp add: objs_off_def sizeof_rte_mempool_def dvd_add)
  moreover have "unat ?o + 63 < 2 ^ 64" unfolding o using assms(3) by simp
  ultimately have "align_ceil64 ?o 64 = ?o" by (rule align_ceil64_id)
  then show ?thesis using o by (simp add: pool_pages_def header_size_1 RTE_MEMPOOL_ALIGN_def elt_pa_rest_def)
qed

section \<open>The new pool\<close>

lemma flushthresh_nat: "c \<le> RTE_MEMPOOL_CACHE_MAX_SIZE \<Longrightarrow> unat (CALC_CACHE_FLUSHTHRESH c) = unat c * 3 div 2"
  by (simp add: CALC_CACHE_FLUSHTHRESH_def RTE_MEMPOOL_CACHE_MAX_SIZE_def word_le_nat_alt unsigned_of_nat take_bit_nat_eq_self)

lemma pool_struct_inv:
  assumes "ring_inv r" and "unat n \<le> ring_cap r" and "cs \<le> RTE_MEMPOOL_CACHE_MAX_SIZE"
  shows "pool_inv ((pool_struct name r0 n0 fl sz cs pd)\<lparr>mp_ring := r, mp_size := n\<rparr>)"
    and "pool_mset ((pool_struct name r0 n0 fl sz cs pd)\<lparr>mp_ring := r, mp_size := n\<rparr>) = mset (ring_list r)"
proof -
  have "sum_list (replicate k {#}) = ({#} :: u64 multiset)" for k by (induction k) simp_all
  moreover have "cache_held zero_cache = {#}" by (simp add: cache_held_def zero_cache_def)
  ultimately show "pool_mset ((pool_struct name r0 n0 fl sz cs pd)\<lparr>mp_ring := r, mp_size := n\<rparr>) = mset (ring_list r)"
    by (simp add: pool_mset_def pool_struct_def)
  show "pool_inv ((pool_struct name r0 n0 fl sz cs pd)\<lparr>mp_ring := r, mp_size := n\<rparr>)"
    using assms flushthresh_nat [OF assms(3)]
    by (simp add: pool_inv_def pool_struct_def list_all_iff cache_ok_def zero_cache_def)
qed

text \<open>
  What a call-back for the pool has to do when the elements have at least \<open>elt\<close> bytes: make the memory ready, and
  leave pools and pages.
\<close>
definition pool_ctor_ok :: "nat \<Rightarrow> (u64 \<Rightarrow> mbuf_mem \<Rightarrow> bool) \<Rightarrow> mempool_ctor option \<Rightarrow> bool" where
  "pool_ctor_ok elt ready init \<longleftrightarrow> (\<forall>mp m p pg. pktpool_at m mp = Some p \<longrightarrow> elt \<le> unat (mp_elt_size p) \<longrightarrow> pktpool_pages m mp = Some pg \<longrightarrow>
     mp_elt_pa pg \<noteq> [] \<longrightarrow> mp_pg_shift pg = MEMPOOL_PG_SHIFT_MAX \<longrightarrow>
     (\<exists>m'. (case init of None \<Rightarrow> Some m | Some f \<Rightarrow> f mp m) = Some m' \<and> ready mp m'
        \<and> pktpool_at m' = pktpool_at m \<and> pktpool_pages m' = pktpool_pages m))"

section \<open>Looking up a pool\<close>

lemma pktpool_lookup_result: "map_option fst (pktpool_lookup e name) =
    map_option (case_option 0 id) (pktpool_lookup_loop (pktpool_at (pool_mem e)) name (pktpool_tailq e))"
  by (cases "pktpool_lookup_loop (pktpool_at (pool_mem e)) name (pktpool_tailq e)")
    (auto simp: pktpool_lookup_def split: option.splits)

lemma pktpool_lookup_extended:
  assumes "\<And>te a. (te, a) \<in> set q \<Longrightarrow> a \<noteq> mp \<and> (\<exists>p'. mps a = Some p' \<and> mp_name p' \<noteq> mp_name p \<and> length (mp_name p') < RTE_MEMPOOL_NAMESIZE)"
    and "length (mp_name p) < RTE_MEMPOOL_NAMESIZE"
  shows "pktpool_lookup_loop (mps(mp \<mapsto> p)) name (q @ [(t, mp)]) =
    (if name = mp_name p then Some (Some mp) else pktpool_lookup_loop mps name q)"
  using assms(1)
proof (induction q)
  case Nil
  then show ?case using assms(2) by (simp add: strncmp_eq_short2)
next
  case (Cons x q)
  obtain te a where x: "x = (te, a)" by (cases x)
  obtain p' where p': "mps a = Some p'" "mp_name p' \<noteq> mp_name p" "length (mp_name p') < RTE_MEMPOOL_NAMESIZE" "a \<noteq> mp"
    using Cons.prems [of te a] x by auto
  have "pktpool_lookup_loop (mps(mp \<mapsto> p)) name (q @ [(t, mp)]) =
      (if name = mp_name p then Some (Some mp) else pktpool_lookup_loop mps name q)"
    using Cons.prems by (intro Cons.IH) auto
  moreover have "(mps(mp \<mapsto> p)) a = Some p'" using p' by simp
  ultimately show ?case using p' by (auto simp: x strncmp_eq_short2 simp del: fun_upd_apply)
qed

lemma pools_live_pool:
  assumes "pools_live live e" and "(te, a) \<in> set (pktpool_tailq e)"
  obtains p where "pktpool_at (pool_mem e) a = Some p" and "pool_zone (memzone e) p" and "a \<in> live (malloc_heaps e)"
  using assms by (fastforce simp: pools_live_def list_all_iff split: option.splits)

lemma pool_name_fresh:
  assumes "pool_zone (memzone e) p" and "mz_taken (RTE_MEMPOOL_MZ_PREFIX @ name) e1 i e2" and "pools_kept e e1"
  shows "mp_name p \<noteq> name"
proof
  assume eq: "mp_name p = name"
  obtain z where z: "z \<in> set (memzone e1)" "mz_used z" "mz_name z = RTE_MEMPOOL_MZ_PREFIX @ name"
    using assms(1,3) eq by (auto simp: pool_zone_def pools_kept_def)
  have "scan (\<lambda>mz. mz_used mz \<and> strncmp_eq (RTE_MEMPOOL_MZ_PREFIX @ name) (mz_name mz) RTE_MEMZONE_NAMESIZE) (memzone e1) = None"
    using assms(2) by (simp add: mz_taken_def memzone_lookup_thread_unsafe_def)
  then show False using z by (auto simp: scan_None)
qed

lemma reg_live_heap:
  assumes "reg_live live e" and "live (malloc_heaps e) \<subseteq> live h"
  shows "reg_live live (e\<lparr>malloc_heaps := h\<rparr>)"
  using assms by (auto simp: reg_live_def reg_inv_def cong: option.case_cong)

lemma truncate_fields:
  assumes "ring_eal.truncate e' = ring_eal.truncate (e :: 'h pool_eal)"
  shows "memzone e' = memzone e" and "malloc_heaps e' = malloc_heaps e" and "reg_live live e' = reg_live live e"
proof -
  have f: "memzone e' = memzone e" "malloc_heaps e' = malloc_heaps e" "memzone_cnt e' = memzone_cnt e"
    "ring_at e' = ring_at e" "ring_tailq e' = ring_tailq e"
    using assms by (simp_all add: ring_eal.truncate_def)
  then show "memzone e' = memzone e" "malloc_heaps e' = malloc_heaps e" by simp_all
  show "reg_live live e' = reg_live live e" by (simp add: reg_live_def reg_inv_def mz_inv_def f cong: option.case_cong)
qed

text \<open>What a successful creation yields.\<close>
definition pool_made ::
  "(u64 \<Rightarrow> u64 \<Rightarrow> mbuf_mem \<Rightarrow> bool) \<Rightarrow> string \<Rightarrow> u32 \<Rightarrow> nat \<Rightarrow> 'h pool_eal \<Rightarrow> u64 \<Rightarrow> 'h pool_eal \<Rightarrow> bool" where
  "pool_made good name n elt e mp e' \<longleftrightarrow> (\<exists>p objs z.
     pktpool_at (pool_mem e') mp = Some p \<and> pool_inv p \<and> mp_name p = name \<and> mp_size p = n \<and> elt \<le> unat (mp_elt_size p)
     \<and> pool_mset p = mset objs \<and> length objs = unat n
     \<and> z \<in> set (memzone e') \<and> mz_addr z = mp \<and> mz_name z = RTE_MEMPOOL_MZ_PREFIX @ name
     \<and> (\<forall>a\<in>set objs. obj_hdr e' a = Some mp \<and> good mp a (pool_mem e')
          \<and> unat mp + sizeof_rte_mempool \<le> unat a \<and> unat a + unat (mp_elt_size p) \<le> unat mp + unat (mz_len z))
     \<and> (\<forall>j<length objs. \<forall>i<j. unat (objs ! i) + unat (mp_elt_size p) < unat (objs ! j))
     \<and> (\<forall>a. a \<noteq> mp \<longrightarrow> pktpool_at (pool_mem e') a = pktpool_at (pool_mem e) a)
     \<and> (\<forall>name'. map_option fst (pktpool_lookup e' name') =
          (if name' = name then Some mp else map_option fst (pktpool_lookup e name'))))"

lemma pool_objs_bounds:
  assumes "va + n * sz < 2 ^ 63" and "0 < unat hdr" and "unat hdr + elt \<le> sz"
  shows "a \<in> set (pool_objs va sz hdr n) \<Longrightarrow> va \<le> unat a \<and> unat a + elt \<le> va + n * sz"
    and "j < n \<Longrightarrow> i < j \<Longrightarrow> unat (pool_objs va sz hdr n ! i) + elt < unat (pool_objs va sz hdr n ! j)"
proof -
  have u: "unat (of_nat (va + k * sz) + ucast hdr :: u64) = va + k * sz + unat hdr" if "k < n" for k
    using unat_pool_obj(1) [OF assms(1) _ that] assms(3) by simp
  have le: "k * sz + sz \<le> l * sz" if "k < l" for k l
    using mult_le_mono1 [of "Suc k" l sz] that by simp
  show "va \<le> unat a \<and> unat a + elt \<le> va + n * sz" if "a \<in> set (pool_objs va sz hdr n)"
  proof -
    obtain k where k: "k < n" "a = of_nat (va + k * sz) + ucast hdr" using \<open>a \<in> _\<close> by (auto simp: pool_objs_def)
    then show ?thesis using u [OF k(1)] le [OF k(1)] assms(3) by simp
  qed
  show "unat (pool_objs va sz hdr n ! i) + elt < unat (pool_objs va sz hdr n ! j)" if "j < n" "i < j"
  proof -
    have "pool_objs va sz hdr n ! k = of_nat (va + k * sz) + ucast hdr" if "k < n" for k
      using that by (simp add: pool_objs_def)
    then show ?thesis using u [of i] u [of j] le [OF \<open>i < j\<close>] that assms(2,3) by simp
  qed
qed

text \<open>The list with the new pool.\<close>
lemma pool_listed:
  fixes e :: "'h pool_eal" and te :: u64
  assumes inv: "pools_live live e" and short: "length name + 3 < RTE_MEMZONE_NAMESIZE"
    and taken: "mz_taken (RTE_MEMPOOL_MZ_PREFIX @ name) e1 i e2" "pools_kept e e1"
    and e2: "pools_kept e e2" "reg_live live e2" "live (malloc_heaps e) \<subseteq> live (malloc_heaps e2)"
    and mp: "mp \<in> live (malloc_heaps e2) - live (malloc_heaps e)"
    and z: "z \<in> set (memzone e2)" "mz_used z" "mz_name z = RTE_MEMPOOL_MZ_PREFIX @ name"
    and e': "ring_eal.truncate e' = ring_eal.truncate e2" "pktpool_tailq e' = pktpool_tailq e2"
      "pktpool_at (pool_mem e') = (pktpool_at (pool_mem e2))(mp \<mapsto> p)" and p: "mp_name p = name"
  defines "f \<equiv> e'\<lparr>pktpool_tailq := pktpool_tailq e' @ [(te, mp)]\<rparr>"
  shows "pools_live live f"
    and "map_option fst (pktpool_lookup f name') = (if name' = name then Some mp else map_option fst (pktpool_lookup e name'))"
proof -
  have old: "pool_mem e2 = pool_mem e" "pktpool_tailq e2 = pktpool_tailq e" using e2(1) by (simp_all add: pools_kept_def)
  have others: "a \<noteq> mp \<and> (\<exists>p'. pktpool_at (pool_mem e) a = Some p' \<and> mp_name p' \<noteq> mp_name p
      \<and> length (mp_name p') < RTE_MEMPOOL_NAMESIZE)" if ta: "(t, a) \<in> set (pktpool_tailq e)" for t a
  proof -
    obtain p' where p': "pktpool_at (pool_mem e) a = Some p'" "pool_zone (memzone e) p'" "a \<in> live (malloc_heaps e)"
      using pools_live_pool [OF inv ta] .
    then show ?thesis using mp pool_name_fresh [OF p'(2) taken] p
      by (auto simp: pool_zone_def RTE_MEMPOOL_NAMESIZE_def RTE_MEMZONE_NAMESIZE_def)
  qed
  have len: "length (mp_name p) < RTE_MEMPOOL_NAMESIZE"
    using short p by (simp add: RTE_MEMPOOL_NAMESIZE_def RTE_MEMZONE_NAMESIZE_def)
  show "map_option fst (pktpool_lookup f name') = (if name' = name then Some mp else map_option fst (pktpool_lookup e name'))"
    using pktpool_lookup_extended [OF others len, where name = name' and t = te] p
    by (auto simp: pktpool_lookup_result f_def e'(2,3) old simp del: fun_upd_apply)
  have "pools_live live e2" by (rule pools_kept_live [OF inv e2])
  note t = truncate_fields [OF e'(1)]
  have pz: "pool_zone (memzone e2) p" using z short p by (auto simp: pool_zone_def)
  have "a \<in> live (malloc_heaps e2) \<and> (case pktpool_at (pool_mem e') a of None \<Rightarrow> False | Some p \<Rightarrow> pool_zone (memzone e2) p)"
    if "(t, a) \<in> set (pktpool_tailq e @ [(te, mp)])" for t a
  proof (cases "a = mp")
    case True
    then show ?thesis using mp pz by (simp add: e'(3))
  next
    case False
    then have "(t, a) \<in> set (pktpool_tailq e2)" using that old by simp
    then show ?thesis using pools_live_pool [OF \<open>pools_live live e2\<close>] False by (metis e'(3) fun_upd_apply option.case(2))
  qed
  moreover have "reg_live live f" using e2(2) t(3) by (simp add: f_def reg_live_def reg_inv_def mz_inv_def cong: option.case_cong)
  ultimately show "pools_live live f"
    unfolding pools_live_def list_all_iff by (auto simp: f_def t e'(2) old cong: option.case_cong)
qed

context obj_ctor
begin

lemma install_ok:
  fixes e :: "'h pool_eal"
  assumes al: "64 dvd unat mp" "64 dvd unat pd"
    and sz: "unat (sz_header_size sz) = 64" "tot = sz_elt_size sz + sz_header_size sz + sz_trailer_size sz" "64 \<le> unat tot"
    and space: "unat mp + objs_off pd + unat n * unat tot < 2 ^ 63"
    and ring: "ring_at e r = Some rg" "ring_inv rg" "ring_list rg = []" "unat n \<le> ring_cap rg"
    and init: "pool_ctor_ok elt ready init" "elt \<le> unat (sz_elt_size sz)"
  defines "objs \<equiv> pool_objs (unat mp + objs_off pd) (unat tot) (sz_header_size sz) (unat n)"
  shows "\<exists>e' r'. mempool_install mem e mp phys name r n fl sz cs pd init ctor 0 None MEMPOOL_PG_NUM_DEFAULT MEMPOOL_PG_SHIFT_MAX = Some e'
    \<and> ring_eal.truncate e' = ring_eal.truncate e \<and> pktpool_tailq e' = pktpool_tailq e
    \<and> pktpool_at (pool_mem e') = (pktpool_at (pool_mem e))(mp \<mapsto> (pool_struct name rg n fl sz cs pd)\<lparr>mp_ring := r', mp_size := n\<rparr>)
    \<and> ring_inv r' \<and> ring_cap r' = ring_cap rg \<and> ring_list r' = objs
    \<and> (\<forall>a\<in>set objs. obj_hdr e' a = Some mp \<and> good mp a (pool_mem e'))"
proof -
  let ?p = "pool_struct name rg n fl sz cs pd"
  obtain pg where pg: "pool_pages mem mp phys pd 0 None 1 63 = Some pg" "unat (mp_elt_va_start pg) = unat mp + objs_off pd"
    "mp_pg_shift pg = 63" "length (mp_elt_pa pg) = 1"
    using pool_pages_at [OF al] space by fastforce
  let ?m = "(pool_mem e)\<lparr>pktpool_at := (pktpool_at (pool_mem e))(mp \<mapsto> ?p), pktpool_pages := (pktpool_pages (pool_mem e))(mp \<mapsto> pg)\<rparr>"
  have "mp_elt_pa pg \<noteq> []" using pg(4) by auto
  then obtain m where m: "(case init of None \<Rightarrow> Some ?m | Some f \<Rightarrow> f mp ?m) = Some m" "ready mp m"
    "pktpool_at m = pktpool_at ?m" "pktpool_pages m = pktpool_pages ?m"
    using init(1) [unfolded pool_ctor_ok_def, rule_format, of ?m mp ?p pg] init(2) pg(3) by (auto simp: MEMPOOL_PG_SHIFT_MAX_def pool_struct_def)
  let ?e = "e\<lparr>pool_mem := m, pktpool_va_end := (pktpool_va_end e)(mp \<mapsto> mp_elt_va_start pg)\<rparr>"
  have "\<exists>e'. filled ready good mp ?p objs ?e e' \<and> mempool_populate mp n 1 ctor ?e =
      Some (e'\<lparr>pool_mem := (pool_mem e')\<lparr>pktpool_at := (pktpool_at (pool_mem e'))(mp \<mapsto> (the (pktpool_at (pool_mem e') mp))\<lparr>mp_size := n\<rparr>)\<rparr>\<rparr>)"
    using populate_ok [of mp ?e ?p pg n "unat tot"] m(2-4) pg(2-4) ring(2-4) sz space
    by (simp add: objs_def pool_struct_def MEMPOOL_PG_SHIFT_MAX_def)
  then obtain e' where pop: "filled ready good mp ?p objs ?e e'" "mempool_populate mp n 1 ctor ?e =
      Some (e'\<lparr>pool_mem := (pool_mem e')\<lparr>pktpool_at := (pktpool_at (pool_mem e'))(mp \<mapsto> (the (pktpool_at (pool_mem e') mp))\<lparr>mp_size := n\<rparr>)\<rparr>\<rparr>)"
    by blast
  obtain m' v r' where
    e': "e' = ?e\<lparr>obj_hdr := (\<lambda>a. if a \<in> set objs then Some mp else obj_hdr ?e a), pool_mem := m', pktpool_va_end := v\<rparr>"
    "pktpool_at m' = (pktpool_at (pool_mem ?e))(mp \<mapsto> ?p\<lparr>mp_ring := r'\<rparr>)"
    "ring_inv r'" "ring_cap r' = ring_cap (mp_ring ?p)" "ring_list r' = ring_list (mp_ring ?p) @ objs" "\<forall>a\<in>set objs. good mp a m'"
    using pop(1) unfolding filled_def by blast
  have mem': "pool_mem e' = m'" by (simp add: e'(1))
  have fields: "obj_hdr e' = (\<lambda>a. if a \<in> set objs then Some mp else obj_hdr e a)" "pktpool_tailq e' = pktpool_tailq e"
    "ring_eal.truncate e' = ring_eal.truncate e" by (simp_all add: e'(1) ring_eal.truncate_def cong: if_cong)
  have rg: "mp_ring ?p = rg" by (simp add: pool_struct_def)
  let ?q = "?p\<lparr>mp_ring := r', mp_size := n\<rparr>"
  have at': "pktpool_at m' = (pktpool_at (pool_mem e))(mp \<mapsto> ?p\<lparr>mp_ring := r'\<rparr>)" using e'(2) m(3) by simp
  have res: "mempool_populate mp n 1 ctor ?e = Some (e'\<lparr>pool_mem := with_pool mp ?q m'\<rparr>)"
    unfolding pop(2) mem' at' with_pool_def by simp
  have "mempool_install mem e mp phys name r n fl sz cs pd init ctor 0 None 1 63 = Some (e'\<lparr>pool_mem := with_pool mp ?q m'\<rparr>)"
    using ring(1) pg(1) m(1) res by (simp add: mempool_install_def)
  moreover have "\<forall>a\<in>set objs. good mp a (with_pool mp ?q m')" using e'(6) good_pool [of mp _ m' "?p\<lparr>mp_ring := r'\<rparr>" ?q] at' by simp
  moreover have "pktpool_at (with_pool mp ?q m') = (pktpool_at (pool_mem e))(mp \<mapsto> ?q)" by (simp add: with_pool_def at')
  moreover have "ring_eal.truncate (e'\<lparr>pool_mem := with_pool mp ?q m'\<rparr>) = ring_eal.truncate e"
    unfolding fields(3) [symmetric] by (simp add: ring_eal.truncate_def)
  ultimately show ?thesis using e'(3-5) ring(3) fields(1,2) unfolding rg MEMPOOL_PG_NUM_DEFAULT_def MEMPOOL_PG_SHIFT_MAX_def
    by (intro exI [of _ "e'\<lparr>pool_mem := with_pool mp ?q m'\<rparr>"] exI [of _ r']) simp
qed

text \<open>From the reserved zone to the pool in the list.\<close>
lemma made_ok:
  fixes e :: "'h pool_eal"
  assumes sound: "heap_sound ops" and hl: "heap_live ops live" and inv: "pools_live live e"
    and short: "length name + 3 < RTE_MEMZONE_NAMESIZE"
    and kept: "pools_kept e e1" and rl: "reg_live live e1" and mono: "live (malloc_heaps e) \<subseteq> live (malloc_heaps e1)"
    and mz: "rte_memzone_reserve ops e1 (RTE_MEMPOOL_MZ_PREFIX @ name) (pool_memory_size True ps 0 1 pd tot n) socket_id mf = (Some i, e2)"
    and pd: "64 dvd unat pd" "unat pd \<le> 2 ^ 21" and n: "unat n < 2 ^ 31" and cs: "cs \<le> RTE_MEMPOOL_CACHE_MAX_SIZE"
    and sz: "unat (sz_header_size sz) = 64" "unat tot = unat (sz_header_size sz) + unat (sz_elt_size sz) + unat (sz_trailer_size sz)"
    and ring: "ring_at e1 r = Some rg" "ring_inv rg" "ring_list rg = []" "unat n \<le> ring_cap rg"
    and init: "pool_ctor_ok elt ready init" "elt \<le> unat (sz_elt_size sz)" and mp: "mp = mz_addr (memzone e2 ! i)"
  shows "\<exists>e'. mempool_install mem e2 mp phys name r n fl sz cs pd init ctor 0 None MEMPOOL_PG_NUM_DEFAULT MEMPOOL_PG_SHIFT_MAX = Some e'
    \<and> mp \<noteq> 0 \<and> pools_live live (e'\<lparr>pktpool_tailq := pktpool_tailq e' @ [(te, mp)]\<rparr>)
    \<and> pool_made good name n elt e mp (e'\<lparr>pktpool_tailq := pktpool_tailq e' @ [(te, mp)]\<rparr>)"
proof -
  let ?nm = "RTE_MEMPOOL_MZ_PREFIX @ name" and ?size = "pool_memory_size True ps 0 1 pd tot n"
  let ?va = "unat mp + objs_off pd" and ?z = "memzone e2 ! i"
  note res = mz [unfolded rte_memzone_reserve_def rte_memzone_reserve_thread_safe_def]
  have size: "unat ?size = objs_off pd + unat tot * unat n" by (rule pool_memory_size_nat [OF pd n])
  then have nz: "?size \<noteq> 0" by (auto simp: objs_off_def sizeof_rte_mempool_def)
  have taken: "mz_taken ?nm e1 i e2" using reserve_cases [OF res] by simp
  have nm: "snprintf_s RTE_MEMZONE_NAMESIZE ?nm = ?nm" using short by (intro snprintf_s_id) (simp add: RTE_MEMPOOL_MZ_PREFIX_def)
  obtain zn h where zn: "mz_used zn" "mz_name zn = ?nm"
    "e2 = e1\<lparr>malloc_heaps := h, memzone_cnt := memzone_cnt e1 + 1, memzone := (memzone e1)[i := zn]\<rparr>"
    using taken nm unfolding mz_taken_def by auto
  have i: "i < length (memzone e2)" "?z = zn" using mz_taken_slot(1) [OF taken] zn(3) by simp_all
  have mp0: "mp \<noteq> 0" using zn(1) i(2) mp by simp
  have len: "unat ?size \<le> unat (mz_len ?z)" using reserve_len [OF res nz] RTE_ALIGN_bounds(1) [of 64 "unat ?size"] by simp
  note place = reserve_place [OF sound mz nz] and lv = reserve_live [OF hl mz]
  have kept2: "pools_kept e e2" using kept reserve_kept [OF mz] by (rule pools_kept_trans)
  have rl2: "reg_live live e2" "ring_at e2 = ring_at e1" using reserve_rings [OF mz rl lv(1)] by simp_all
  have t: "tot = sz_elt_size sz + sz_header_size sz + sz_trailer_size sz" "64 \<le> unat tot"
  proof -
    have "tot = of_nat (unat (sz_header_size sz) + unat (sz_elt_size sz) + unat (sz_trailer_size sz))"
      unfolding sz(2) [symmetric] by simp
    then show "tot = sz_elt_size sz + sz_header_size sz + sz_trailer_size sz" by (simp add: algebra_simps)
  qed (simp add: sz)
  have space: "?va + unat n * unat tot \<le> unat mp + unat (mz_len ?z)" using len size by (simp add: mult.commute)
  then have space2: "?va + unat n * unat tot < 2 ^ 63" using place(2) mp by simp
  then obtain e' r' where e': "mempool_install mem e2 mp phys name r n fl sz cs pd init ctor 0 None MEMPOOL_PG_NUM_DEFAULT MEMPOOL_PG_SHIFT_MAX = Some e'"
    "ring_eal.truncate e' = ring_eal.truncate e2" "pktpool_tailq e' = pktpool_tailq e2"
    "pktpool_at (pool_mem e') = (pktpool_at (pool_mem e2))(mp \<mapsto> (pool_struct name rg n fl sz cs pd)\<lparr>mp_ring := r', mp_size := n\<rparr>)"
    "ring_inv r'" "ring_cap r' = ring_cap rg" "ring_list r' = pool_objs ?va (unat tot) (sz_header_size sz) (unat n)"
    "\<forall>a\<in>set (pool_objs ?va (unat tot) (sz_header_size sz) (unat n)). obj_hdr e' a = Some mp \<and> good mp a (pool_mem e')"
    using install_ok [OF _ pd(1) sz(1) t, of mp n e2 r rg elt init] place(1) mp ring rl2(2) init by fastforce
  let ?p = "(pool_struct name rg n fl sz cs pd)\<lparr>mp_ring := r', mp_size := n\<rparr>"
  let ?f = "e'\<lparr>pktpool_tailq := pktpool_tailq e' @ [(te, mp)]\<rparr>"
  have z: "?z \<in> set (memzone e2)" "mz_used ?z" "mz_name ?z = ?nm" using nth_mem [OF i(1)] i(2) zn(1,2) by simp_all
  have lv2: "mp \<in> live (malloc_heaps e2) - live (malloc_heaps e)" "live (malloc_heaps e) \<subseteq> live (malloc_heaps e2)"
    using lv(1) lv(2) [OF refl] mono mp by auto
  have pn: "mp_name ?p = name"
    using short by (simp add: pool_struct_def snprintf_s_id RTE_MEMPOOL_NAMESIZE_def RTE_MEMZONE_NAMESIZE_def)
  note listed = pool_listed [OF inv short taken kept kept2 rl2(1) lv2(2,1) z e'(2-4) pn, where te = te]
  have b: "\<And>a. a \<in> set (pool_objs ?va (unat tot) (sz_header_size sz) (unat n)) \<Longrightarrow>
        ?va \<le> unat a \<and> unat a + unat (sz_elt_size sz) \<le> ?va + unat n * unat tot"
    "\<And>i j. j < unat n \<Longrightarrow> i < j \<Longrightarrow> unat (pool_objs ?va (unat tot) (sz_header_size sz) (unat n) ! i) + unat (sz_elt_size sz) <
       unat (pool_objs ?va (unat tot) (sz_header_size sz) (unat n) ! j)"
    using pool_objs_bounds [OF space2, of "sz_header_size sz" "unat (sz_elt_size sz)"] sz by simp_all
  have "pool_made good name n elt e mp ?f"
    unfolding pool_made_def
  proof (intro exI conjI)
    show "pktpool_at (pool_mem ?f) mp = Some ?p" by (simp add: e'(4))
    show "elt \<le> unat (mp_elt_size ?p)" using init(2) by (simp add: pool_struct_def)
    show "pool_inv ?p" "pool_mset ?p = mset (pool_objs ?va (unat tot) (sz_header_size sz) (unat n))"
      using pool_struct_inv [OF e'(5) _ cs, of n] ring(4) e'(6,7) by simp_all
    show "\<forall>a\<in>set (pool_objs ?va (unat tot) (sz_header_size sz) (unat n)). obj_hdr ?f a = Some mp \<and> good mp a (pool_mem ?f)
        \<and> unat mp + sizeof_rte_mempool \<le> unat a \<and> unat a + unat (mp_elt_size ?p) \<le> unat mp + unat (mz_len ?z)"
      using e'(8) b(1) space by (fastforce simp: pool_struct_def objs_off_def)
    show "?z \<in> set (memzone ?f)" using z(1) truncate_fields(1) [OF e'(2)] by simp
    show "\<forall>j<length (pool_objs ?va (unat tot) (sz_header_size sz) (unat n)). \<forall>i<j.
        unat (pool_objs ?va (unat tot) (sz_header_size sz) (unat n) ! i) + unat (mp_elt_size ?p) <
        unat (pool_objs ?va (unat tot) (sz_header_size sz) (unat n) ! j)"
      using b(2) by (simp add: pool_struct_def pool_objs_def)
    show "\<forall>a. a \<noteq> mp \<longrightarrow> pktpool_at (pool_mem ?f) a = pktpool_at (pool_mem e) a"
      using kept2 by (simp add: e'(4) pools_kept_def)
  qed (use pn z(3) mp listed(2) in \<open>simp_all add: pool_objs_def\<close>)
  then show ?thesis using e'(1) mp0 listed(1) by blast
qed

lemma create_ok:
  fixes e :: "'h pool_eal"
  assumes hp: "rte_eal_has_hugepages ops" and sound: "heap_sound ops" and hl: "heap_live ops live"
    and inv: "pools_live live e" and short: "length name + 3 < RTE_MEMZONE_NAMESIZE" and n: "unat n < 2 ^ 31"
    and m: "m = unat ((if rte_memory_get_nrank mach = 0 then 1 else rte_memory_get_nrank mach)
                    * (if rte_memory_get_nchannel mach = 0 then 4 else rte_memory_get_nchannel mach))" "0 < m" "m < 2 ^ 20"
    and elt: "unat elt_size < 2 ^ 31" and pds: "unat pds \<le> 2 ^ 20" and flags: "flags AND MEMPOOL_F_NO_CACHE_ALIGN = 0"
    and init: "pool_ctor_ok (unat elt_size) ready init"
  shows "\<exists>mp e'. rte_mempool_create ops mach mem e name n elt_size cs pds init ctor socket_id flags = Some (mp, e')
    \<and> pools_live live e'
    \<and> (if mp = 0 then pools_kept e e' else pool_made good name n (unat elt_size) e mp e')"
proof (cases "pool_args_ok n cs 0 None MEMPOOL_PG_NUM_DEFAULT MEMPOOL_PG_SHIFT_MAX")
  case False
  have "pools_live live (e\<lparr>rte_errno := EINVAL\<rparr>)"
    using inv by (simp add: pools_live_def reg_live_def reg_inv_def cong: option.case_cong)
  then show ?thesis using False by (simp add: rte_mempool_create_def rte_mempool_xmem_create_def)
next
  case args: True
  let ?cnt = "rte_align32pow2 (n + 1)" and ?ps = "getpagesize mach"
  let ?nm = "RTE_MEMPOOL_MZ_PREFIX @ name" and ?rf = "pool_ring_flags flags"
  let ?sz0 = "\<lparr>sz_elt_size = 0, sz_header_size = 0, sz_trailer_size = 0, sz_total_size = 0\<rparr>"
  have fl: "pool_flags flags = flags" using flags by (simp add: pool_flags_def)
  obtain t sz where sz: "rte_mempool_calc_obj_size True ?ps (rte_memory_get_nchannel mach) (rte_memory_get_nrank mach)
      elt_size flags ?sz0 = Some (t, sz)" "t = sz_total_size sz" "unat (sz_header_size sz) = 64"
    "unat t = unat (sz_header_size sz) + unat (sz_elt_size sz) + unat (sz_trailer_size sz)"
    "unat (sz_elt_size sz) = RTE_ALIGN (unat elt_size) 8"
    using calc_obj_size_ok [OF m elt flags] by blast
  have el: "unat elt_size \<le> unat (sz_elt_size sz)" using RTE_ALIGN_bounds(1) [of 8 "unat elt_size"] sz(5) by simp
  have rn: "snprintf_s RTE_RING_NAMESIZE ?nm = ?nm" "snprintf_s RTE_MEMZONE_NAMESIZE ?nm = ?nm" "length ?nm < RTE_RING_NAMESIZE"
    using short by (simp_all add: snprintf_s_id RTE_MEMPOOL_MZ_PREFIX_def RTE_RING_NAMESIZE_def RTE_MEMZONE_NAMESIZE_def)
  obtain r e1 where rc: "rte_ring_create ops mem e ?nm ?cnt socket_id ?rf = (r, e1)" by fastforce
  have rl: "reg_live live e" using inv by (simp add: pools_live_def)
  note ring = ring_create_live [OF hl rl rn(3) rc] and kept = ring_create_kept [OF rc]
  have t: "t \<noteq> 0" using sz(3,4) by auto
  let ?pd = "pool_private_size True ?ps pds" and ?mf = "RTE_MEMZONE_1GB OR RTE_MEMZONE_SIZE_HINT_ONLY"
  obtain te h where te: "rte_zmalloc ops (malloc_heaps e1) sizeof_rte_tailq_entry = (te, h)" by fastforce
  let ?e1 = "e1\<lparr>malloc_heaps := h\<rparr>"
  obtain mz e2 where mz: "rte_memzone_reserve ops ?e1 ?nm (pool_memory_size True ?ps 0 1 ?pd t n) socket_id ?mf = (mz, e2)" by fastforce
  note zl = heap_live_zmalloc [OF hl te]
  have k1: "pools_kept e ?e1" and l1: "reg_live live ?e1" and m1: "live (malloc_heaps e) \<subseteq> live (malloc_heaps ?e1)"
    using kept reg_live_heap [OF ring(1) zl(1)] ring(2) zl(1) by auto
  note simps = rte_mempool_create_def rte_mempool_xmem_create_def args hp fl rn(1,2) sz(1) sz(2) [symmetric] t rc te
    MEMPOOL_PG_NUM_DEFAULT_def MEMPOOL_PG_SHIFT_MAX_def
  consider "r = 0" | "r \<noteq> 0" "te = 0" | "r \<noteq> 0" "te \<noteq> 0" "mz = None" | i where "r \<noteq> 0" "te \<noteq> 0" "mz = Some i" by blast
  then show ?thesis
  proof cases
    case 1
    then show ?thesis using pools_kept_live [OF inv kept ring(1,2)] kept args [unfolded MEMPOOL_PG_NUM_DEFAULT_def MEMPOOL_PG_SHIFT_MAX_def]
      by (simp add: simps)
  next
    case 2
    then show ?thesis using pools_kept_live [OF inv k1 l1 m1] k1 args [unfolded MEMPOOL_PG_NUM_DEFAULT_def MEMPOOL_PG_SHIFT_MAX_def]
      by (simp add: simps)
  next
    case 3
    let ?e2 = "e2\<lparr>malloc_heaps := rte_free ops (malloc_heaps e2) te\<rparr>"
    have k2: "pools_kept e ?e2" using pools_kept_trans [OF k1 reserve_kept [OF mz]] by simp
    note rr = reserve_rings [OF mz l1 reserve_live(1) [OF hl mz]]
    have "te \<notin> live (malloc_heaps e1)" using zl(2) 3(2) .
    then have sub: "live (malloc_heaps e1) \<subseteq> live (malloc_heaps ?e2)"
      using zl(1) reserve_live(1) [OF hl mz] heap_live_free [OF hl] by auto
    have "reg_live live ?e2"
      using rr sub ring(1) by (auto simp: reg_live_def reg_inv_def cong: option.case_cong)
    then have "pools_live live ?e2" using pools_kept_live [OF inv k2] ring(2) sub by simp
    then show ?thesis using 3 k2 mz args [unfolded MEMPOOL_PG_NUM_DEFAULT_def MEMPOOL_PG_SHIFT_MAX_def] by (simp add: simps)
  next
    case 4
    have n1: "unat (n + 1) = unat n + 1" using n by (simp add: unat_word_ariths)
    obtain k where k: "k \<le> 31" "?cnt = 2 ^ k" "unat n + 1 \<le> 2 ^ k"
      using align32pow2_result [of "n + 1"] n n1 by auto
    have "(2 :: nat) ^ k < 2 ^ 32" using k(1) by (intro power_strict_increasing) simp_all
    then have cnt: "unat ?cnt = 2 ^ k" unfolding k(2) by (simp add: unat_of_nat [of "2 ^ k", where ?'a = 32, simplified])
    then have "?cnt \<noteq> 0" by auto
    then obtain rg where rg: "ring_at ?e1 r = Some rg" "ring_inv rg" "ring_list rg = []" "unat n \<le> ring_cap rg"
      using ring(4) [OF 4(1)] cnt k(3) by auto
    have pd: "64 dvd unat ?pd" "unat ?pd \<le> 2 ^ 21"
      using RTE_ALIGN_bounds [of 64 "unat pds"] pds by (simp_all add: private_size_nat [OF pds])
    have cs: "cs \<le> RTE_MEMPOOL_CACHE_MAX_SIZE" using args by (simp add: pool_args_ok_def not_less)
    obtain e' where "mempool_install mem e2 (mz_addr (memzone e2 ! i)) (mz_phys_addr (memzone e2 ! i)) name r n flags sz cs ?pd init ctor
        0 None MEMPOOL_PG_NUM_DEFAULT MEMPOOL_PG_SHIFT_MAX = Some e'"
      "pools_live live (e'\<lparr>pktpool_tailq := pktpool_tailq e' @ [(te, mz_addr (memzone e2 ! i))]\<rparr>)" "mz_addr (memzone e2 ! i) \<noteq> 0"
      "pool_made good name n (unat elt_size) e (mz_addr (memzone e2 ! i)) (e'\<lparr>pktpool_tailq := pktpool_tailq e' @ [(te, mz_addr (memzone e2 ! i))]\<rparr>)"
      using made_ok [OF sound hl inv short k1 l1 m1 mz [unfolded 4(3)] pd n cs sz(3,4) rg init el refl] by blast
    then show ?thesis using 4 mz args [unfolded MEMPOOL_PG_NUM_DEFAULT_def MEMPOOL_PG_SHIFT_MAX_def]
      by (simp add: simps pool_start_addr_def Let_def)
  qed
qed

end

section \<open>Pools of packet buffers\<close>

text \<open>
  What the constructors ask for: the elements have room for the structure and for the data room and private area that
  are given; without given sizes the rest of an element is data room.
\<close>
definition pktmbuf_args :: "u32 \<Rightarrow> rte_pktmbuf_pool_private option \<Rightarrow> bool" where
  "pktmbuf_args elt_size arg \<longleftrightarrow>
     (case arg of None \<Rightarrow> unat sizeof_rte_mbuf \<le> unat elt_size | Some pv \<Rightarrow> priv_fits elt_size pv)"

lemma pktmbuf_pool_ctor:
  assumes "pktmbuf_args elt_size arg"
  shows "pool_ctor_ok (unat elt_size) pktmbuf_ready (Some (\<lambda>mp. rte_pktmbuf_pool_init mp arg))"
proof -
  have room: "128 + unat (ucast (w - 128) :: u16) \<le> unat w" "\<not> unat w < 128 + unat (ucast (w - 128) :: u16)" if "128 < unat w" for w :: u32
  proof -
    have "unat (w - 128) = unat w - 128" using that by (subst unat_sub) (simp_all add: word_le_nat_alt)
    moreover have "unat (ucast (w - 128) :: u16) \<le> unat (w - 128)" by (simp add: unsigned_ucast_eq take_bit_nat_less_eq_self)
    ultimately show "128 + unat (ucast (w - 128) :: u16) \<le> unat w" using that by simp
    then show "\<not> unat w < 128 + unat (ucast (w - 128) :: u16)" by simp
  qed
  show ?thesis
  proof (cases arg)
    case None
    then show ?thesis using assms
      by (auto simp: room pool_ctor_ok_def rte_pktmbuf_pool_init_def pktmbuf_ready_def pktmbuf_args_def priv_fits_def sizeof_rte_mbuf_def Let_def)
  next
    case (Some pv)
    then show ?thesis using assms
      by (auto simp: pool_ctor_ok_def rte_pktmbuf_pool_init_def pktmbuf_ready_def pktmbuf_args_def priv_fits_def Let_def)
  qed
qed

text \<open>
  C15. Creating a pool of packet buffers with huge pages, for elements that have room for the structure of
  a buffer and for the private area and data room asked for, as the constructors assert: the call
  returns, and either fails and leaves the pools and their list as they were, or yields a pool that
  satisfies the invariant of pools and holds exactly the requested number of buffers. Every buffer is a
  fresh one that points back to the pool, lies behind the pool structure inside the pool's own memory
  zone, has its data room inside its own element, and overlaps no other; the pool is found under its name, every other name means what it meant, and no other
  pool changes.
\<close>
theorem pktmbuf_pool_created:
  fixes e :: "'h pool_eal"
  assumes "rte_eal_has_hugepages ops" and "heap_sound ops" and "heap_live ops live"
    and "pools_live live e" and "length name + 3 < RTE_MEMZONE_NAMESIZE" and "unat n < 2 ^ 31"
    and "m = unat ((if rte_memory_get_nrank mach = 0 then 1 else rte_memory_get_nrank mach)
                    * (if rte_memory_get_nchannel mach = 0 then 4 else rte_memory_get_nchannel mach))" and "0 < m" and "m < 2 ^ 20"
    and "unat elt_size < 2 ^ 31" and "pktmbuf_args elt_size arg"
  shows "\<exists>mp e'. rte_mempool_create ops mach mem e name n elt_size cs 4
        (Some (\<lambda>mp. rte_pktmbuf_pool_init mp arg)) (Some pktmbuf_ctor) socket_id 0 = Some (mp, e')
    \<and> pools_live live e'
    \<and> (if mp = 0 then pools_kept e e' else pool_made pktmbuf_fresh name n (unat elt_size) e mp e')"
  using assms by (intro pktmbufs.create_ok) (simp_all add: pktmbuf_pool_ctor)

text \<open>A heap that keeps the list of its blocks and never hands out a block twice.\<close>
definition fresh_alloc :: "nat \<times> u64 list \<Rightarrow> nat \<Rightarrow> nat \<Rightarrow> u64 \<times> nat \<times> u64 list" where
  "fresh_alloc = (\<lambda>(h, bs) len al. let a = RTE_ALIGN h al in
     if 0 < a \<and> a + len < 2 ^ 63 \<and> of_nat a \<notin> set bs then (of_nat a, a + len, of_nat a # bs) else (0, h, bs))"

definition fresh_ops :: "(nat \<times> u64 list) heap_ops" where
  "fresh_ops = \<lparr>malloc_heap_alloc = (\<lambda>h s len flags align bound. fresh_alloc h (unat len) (unat align)),
     malloc_elem_from_data = (\<lambda>h a. \<lparr>elem_size = 64, elem_hugepage_sz = 0x200000, elem_socket_id = 0,
        elem_memseg_id = 0, elem_phys = a\<rparr>),
     greatest_free_size = (\<lambda>h s. 0x40000000), malloc_get_numa_socket = 0, rte_eal_has_hugepages = True,
     rte_zmalloc = (\<lambda>h len. fresh_alloc h (unat len) 64), rte_free = (\<lambda>(h, bs) a. (h, removeAll a bs))\<rparr>"

lemma fresh_alloc_result:
  assumes "fresh_alloc h len al = (a, h')"
  shows "if a = 0 then snd h' = snd h else a \<notin> set (snd h) \<and> snd h' = a # snd h \<and> unat a + len < 2 ^ 63 \<and> (0 < al \<longrightarrow> al dvd unat a)"
proof -
  have u: "unat (of_nat x :: u64) = x" if "x < 2 ^ 63" for x
    using that by (simp add: unsigned_of_nat take_bit_nat_eq_self)
  have z: "(of_nat x :: u64) \<noteq> 0" if "0 < x" "x + y < 2 ^ 63" for x y
  proof -
    have "x < 2 ^ 63" using that by simp
    then show ?thesis using u [of x] that by (metis less_irrefl unat_0)
  qed
  have "unat (of_nat (RTE_ALIGN (fst h) al) :: u64) = RTE_ALIGN (fst h) al" if "RTE_ALIGN (fst h) al + len < 2 ^ 63"
    using that by (intro u) simp
  then show ?thesis using assms RTE_ALIGN_bounds(3) [of al "fst h"] z [of "RTE_ALIGN (fst h) al" len]
    by (auto simp: fresh_alloc_def Let_def split_beta split: if_splits)
qed

lemma fresh_ops_ok: "heap_sound fresh_ops" "heap_live fresh_ops (set \<circ> snd)" "rte_eal_has_hugepages fresh_ops"
proof -
  show "heap_sound fresh_ops" unfolding heap_sound_def
    using fresh_alloc_result by (fastforce simp: fresh_ops_def unat_gt_0 split: if_splits)
  show "heap_live fresh_ops (set \<circ> snd)" unfolding heap_live_def
    using fresh_alloc_result by (fastforce simp: fresh_ops_def split_beta split: if_splits)
qed (simp add: fresh_ops_def)

definition mem_0 :: mbuf_mem where
  "mem_0 = \<lparr>mbuf_at = Map.empty, pktpool_at = Map.empty, pktpool_priv = Map.empty, pktpool_pages = Map.empty,
     byte_at = Map.empty, has_hugepages = True, mem_virt2phy = id\<rparr>"

text \<open>The shared memory after the EAL was initialised: no zone, no ring, no pool.\<close>
definition pool_eal_0 :: "(nat \<times> u64 list) pool_eal" where
  "pool_eal_0 = \<lparr>memzone_cnt = 0, memzone = replicate RTE_MAX_MEMZONE null_memzone, malloc_heaps = (0x100000, []), rte_errno = 0,
     ring_at = Map.empty, ring_tailq = [], pool_mem = mem_0, pktpool_tailq = [], obj_hdr = Map.empty, pktpool_va_end = Map.empty\<rparr>"

definition machine_0 :: machine where
  "machine_0 = \<lparr>getpagesize = 4096, rte_memory_get_nchannel = 4, rte_memory_get_nrank = 0\<rparr>"

lemma pool_eal_0_live: "pools_live (set \<circ> snd) pool_eal_0"
  by (simp add: pools_live_def reg_live_def reg_inv_def mz_inv_def pool_eal_0_def null_memzone_def list_all_iff RTE_MEMZONE_NAMESIZE_def)

lemma scan_replicate: "scan P (replicate n x) = (if P x \<and> 0 < n then Some 0 else None)"
  by (induction n) simp_all

lemma fresh_alloc_at:
  assumes "0 < al" and "al dvd a" and "0 < a" and "a + len < 2 ^ 63" and "of_nat a \<notin> set bs"
  shows "fresh_alloc (a, bs) len al = (of_nat a, a + len, of_nat a # bs)"
proof -
  have "RTE_ALIGN a al = a"
  proof -
    obtain c where c: "a = al * c" using assms(2) by blast
    have "(al * c + (al - 1)) div al = c" using assms(1) by (simp add: div_nat_eqI)
    then show ?thesis by (simp add: RTE_ALIGN_def c)
  qed
  then show ?thesis using assms by (simp add: fresh_alloc_def Let_def)
qed

lemma first_pool_ring:
  "\<exists>e1. rte_ring_create fresh_ops (\<lambda>_. 0) pool_eal_0 (RTE_MEMPOOL_MZ_PREFIX @ PKTMBUF_POOL_NAME) 4096 0 0 = (0x100040, e1)
    \<and> malloc_heaps e1 = (0x1080c0, [0x100040, 0x100000]) \<and> unat (memzone_cnt e1) = 1
    \<and> (\<exists>z. memzone e1 = (memzone pool_eal_0)[0 := z] \<and> mz_name z = RTE_RING_MZ_PREFIX @ RTE_MEMPOOL_MZ_PREFIX @ PKTMBUF_POOL_NAME)"
proof -
  let ?n = "snprintf_s RTE_MEMZONE_NAMESIZE (RTE_RING_MZ_PREFIX @ RTE_MEMPOOL_MZ_PREFIX @ PKTMBUF_POOL_NAME)"
  have sz: "rte_ring_get_memsize 4096 = 32896"
    by (simp add: rte_ring_get_memsize_def sizeof_rte_ring_def RTE_ALIGN_def POWEROF2_def ring_consts)
  have te: "rte_zmalloc fresh_ops (malloc_heaps pool_eal_0) sizeof_rte_tailq_entry = (0x100000, (0x100018, [0x100000]))"
    using fresh_alloc_at [of 64 "0x100000" 24 "[]"] by (simp add: fresh_ops_def sizeof_rte_tailq_entry_def pool_eal_0_def)
  have ck: "memzone_check (pool_eal_0\<lparr>malloc_heaps := h\<rparr>) ?n 32896 0 64 0 = Inr (32896, 32896, 64)" for h
    by (simp add: memzone_check_def memzone_lookup_thread_unsafe_def pool_eal_0_def scan_replicate null_memzone_def RTE_MAX_MEMZONE_def
        rte_is_power_of_2_def SOCKET_ID_ANY_def RTE_MAX_NUMA_NODES_def Let_def)
  have al: "memzone_heap_alloc fresh_ops (0x100018, [0x100000]) 32896 32896 0 0 64 0 = (0x100040, 32896, (0x1080c0, [0x100040, 0x100000]))"
    by (simp add: memzone_heap_alloc_def fresh_ops_def fresh_alloc_def Let_def RTE_ALIGN_def SOCKET_ID_ANY_def)
  have fr: "get_next_free_memzone (pool_eal_0\<lparr>malloc_heaps := h\<rparr>) = Some 0" for h
    by (simp add: get_next_free_memzone_def pool_eal_0_def scan_replicate null_memzone_def RTE_MAX_MEMZONE_def)
  have len: "0 < length (memzone pool_eal_0)" "memzone_cnt pool_eal_0 = 0" by (simp_all add: pool_eal_0_def RTE_MAX_MEMZONE_def)
  have nm: "snprintf_s RTE_MEMZONE_NAMESIZE ?n = RTE_RING_MZ_PREFIX @ RTE_MEMPOOL_MZ_PREFIX @ PKTMBUF_POOL_NAME"
    by (simp add: snprintf_s_def RTE_MEMZONE_NAMESIZE_def RTE_RING_MZ_PREFIX_def RTE_MEMPOOL_MZ_PREFIX_def PKTMBUF_POOL_NAME_def)
  show ?thesis
    using sz te ck fr al len nm
    by (auto simp: rte_ring_create_def rte_memzone_reserve_def rte_memzone_reserve_thread_safe_def
        memzone_reserve_aligned_thread_unsafe_def RTE_CACHE_LINE_SIZE_def memzone_fill_def Let_def
        intro!: exI [of _ "\<lparr>mz_name = _, mz_phys_addr = _, mz_addr = _, mz_len = _, mz_hugepage_sz = _, mz_socket_id = _, mz_flags = _, mz_memseg_id = _\<rparr>"])
qed

text \<open>A second zone fits into this heap.\<close>
lemma second_zone:
  assumes "memzone e = (memzone pool_eal_0)[0 := z]" and "mz_name z = RTE_RING_MZ_PREFIX @ RTE_MEMPOOL_MZ_PREFIX @ PKTMBUF_POOL_NAME"
    and "unat (memzone_cnt e) = 1" and "malloc_heaps e = (h, bs)" and "0 < h" and "h < 2 ^ 40" and "\<forall>b\<in>set bs. unat b < h"
    and "0 < unat len" and "unat len < 2 ^ 50"
  shows "\<exists>i e'. rte_memzone_reserve fresh_ops e (RTE_MEMPOOL_MZ_PREFIX @ PKTMBUF_POOL_NAME) len 0 flags = (Some i, e')
    \<and> mz_addr (memzone e' ! i) \<noteq> 0"
proof -
  let ?n = "RTE_MEMPOOL_MZ_PREFIX @ PKTMBUF_POOL_NAME" and ?a = "RTE_ALIGN h 64" and ?len = "(len + 63) AND NOT 63"
  have d: "\<not> strncmp_eq ?n (RTE_RING_MZ_PREFIX @ ?n) RTE_MEMZONE_NAMESIZE"
    by (simp add: strncmp_eq_def RTE_MEMZONE_NAMESIZE_def RTE_RING_MZ_PREFIX_def RTE_MEMPOOL_MZ_PREFIX_def PKTMBUF_POOL_NAME_def)
  have zs: "set (memzone e) \<subseteq> {z, null_memzone}" "memzone e ! 1 = null_memzone" "1 < length (memzone e)"
    using set_update_subset_insert [of "memzone pool_eal_0" 0 z] by (auto simp: assms(1) pool_eal_0_def RTE_MAX_MEMZONE_def)
  then have lk: "memzone_lookup_thread_unsafe e ?n = None"
    using d by (auto simp: memzone_lookup_thread_unsafe_def scan_None assms(2) null_memzone_def)
  have "null_memzone \<in> set (memzone e)" using zs(2,3) by (metis nth_mem)
  moreover have "mz_addr null_memzone = 0" by (simp add: null_memzone_def)
  ultimately have "get_next_free_memzone e \<noteq> None" by (auto simp: get_next_free_memzone_def scan_None)
  then obtain i where i: "get_next_free_memzone e = Some i" "i < length (memzone e)"
    by (auto simp: get_next_free_memzone_def dest: scan_Some)
  have le: "len \<le> - 1 - 63" using assms(9) by (simp add: word_le_nat_alt)
  note up = round_up_64 [OF le] and al = RTE_ALIGN_bounds [of 64 "unat len"] RTE_ALIGN_bounds [of 64 h]
  have "0 < unat ?len" and l1: "unat ?len \<le> 2 ^ 50 + 64" unfolding up using al assms(8,9) by simp_all
  then have l0: "?len \<noteq> 0" "unat ?len \<le> 2 ^ 50 + 64" using l1 unat_0 less_irrefl by metis+
  have mx: "max 64 ?len = ?len" using up al(1,3) assms(8) by (simp add: word_le_nat_alt max_def) (auto elim!: dvdE)
  have ck: "memzone_check e ?n len 0 64 0 = Inr (?len, ?len, 64)"
    using lk assms(3) le mx by (simp add: memzone_check_def RTE_MAX_MEMZONE_def rte_is_power_of_2_def SOCKET_ID_ANY_def RTE_MAX_NUMA_NODES_def Let_def not_less)
  have a: "?a + unat ?len < 2 ^ 63" "0 < ?a" "h \<le> ?a" using l0 al(4,5) assms(5,6) by auto
  then have ua: "unat (of_nat ?a :: u64) = ?a" by (simp add: unsigned_of_nat take_bit_nat_eq_self)
  then have a2: "(of_nat ?a :: u64) \<notin> set bs" "(of_nat ?a :: u64) \<noteq> 0" using assms(7) a(2,3) by (auto simp: unat_eq_zero [symmetric])
  have "memzone_heap_alloc fresh_ops (malloc_heaps e) ?len ?len 0 flags 64 0 = (of_nat ?a, ?len, (?a + unat ?len, of_nat ?a # bs))"
    using l0(1) a a2 by (simp add: memzone_heap_alloc_def fresh_ops_def fresh_alloc_def assms(4) SOCKET_ID_ANY_def Let_def)
  then show ?thesis using ck i a2(2)
    by (simp add: rte_memzone_reserve_def rte_memzone_reserve_thread_safe_def memzone_reserve_aligned_thread_unsafe_def
        RTE_CACHE_LINE_SIZE_def memzone_fill_def get_next_free_memzone_def Let_def)
qed

lemma first_pool:
  assumes "rte_mempool_create fresh_ops machine_0 (\<lambda>_. 0) pool_eal_0 PKTMBUF_POOL_NAME 3072 2304 512 4 init ctor 0 0 = Some (mp, e')"
  shows "mp \<noteq> 0"
proof -
  let ?nm = "RTE_MEMPOOL_MZ_PREFIX @ PKTMBUF_POOL_NAME" and ?pd = "pool_private_size True 4096 4"
  let ?sz0 = "\<lparr>sz_elt_size = 0, sz_header_size = 0, sz_trailer_size = 0, sz_total_size = 0\<rparr>"
  obtain t sz where sz: "rte_mempool_calc_obj_size True 4096 4 0 2304 0 ?sz0 = Some (t, sz)" "t = sz_total_size sz" "0 < unat t"
    using calc_obj_size_ok [of 4 0 4 2304 0 4096 ?sz0] by auto
  obtain e1 z where e1: "rte_ring_create fresh_ops (\<lambda>_. 0) pool_eal_0 ?nm 4096 0 0 = (0x100040, e1)"
    "malloc_heaps e1 = (0x1080c0, [0x100040, 0x100000])" "unat (memzone_cnt e1) = 1"
    "memzone e1 = (memzone pool_eal_0)[0 := z]" "mz_name z = RTE_RING_MZ_PREFIX @ ?nm"
    using first_pool_ring by blast
  have te: "rte_zmalloc fresh_ops (malloc_heaps e1) sizeof_rte_tailq_entry = (0x1080c0, (0x1080d8, [0x1080c0, 0x100040, 0x100000]))"
    using fresh_alloc_at [of 64 "0x1080c0" 24 "[0x100040, 0x100000]"] by (simp add: fresh_ops_def sizeof_rte_tailq_entry_def e1(2))
  let ?e = "e1\<lparr>malloc_heaps := (0x1080d8, [0x1080c0, 0x100040, 0x100000])\<rparr>"
  have pd: "64 dvd unat ?pd" "unat ?pd \<le> 2 ^ 21"
    using RTE_ALIGN_bounds [of 64 4] by (simp_all add: private_size_nat)
  have "unat (pool_memory_size True 4096 0 1 ?pd t 3072) = objs_off ?pd + unat t * 3072"
    using pool_memory_size_nat [OF pd, of 3072 4096 t] by simp
  moreover have "unat t < 2 ^ 32" using unsigned_less [of t, where ?'a = nat] by simp
  moreover have "0 < objs_off ?pd" "objs_off ?pd < 2 ^ 40" using pd(2) by (simp_all add: objs_off_def sizeof_rte_mempool_def)
  ultimately have len: "0 < unat (pool_memory_size True 4096 0 1 ?pd t 3072)" "unat (pool_memory_size True 4096 0 1 ?pd t 3072) < 2 ^ 50"
    by simp_all
  obtain i e2 where mz: "rte_memzone_reserve fresh_ops ?e ?nm (pool_memory_size True 4096 0 1 ?pd t 3072) 0
      (RTE_MEMZONE_1GB OR RTE_MEMZONE_SIZE_HINT_ONLY) = (Some i, e2)" "mz_addr (memzone e2 ! i) \<noteq> 0"
    using second_zone [of ?e z _ _ "pool_memory_size True 4096 0 1 ?pd t 3072"] e1(3-5) len by fastforce
  have "rte_align32pow2 3073 = 4096" by code_simp
  moreover have nm: "snprintf_s RTE_RING_NAMESIZE ?nm = ?nm" "snprintf_s RTE_MEMZONE_NAMESIZE ?nm = ?nm"
    by (simp_all add: snprintf_s_def RTE_RING_NAMESIZE_def RTE_MEMZONE_NAMESIZE_def RTE_MEMPOOL_MZ_PREFIX_def PKTMBUF_POOL_NAME_def)
  moreover have "pool_args_ok 3072 512 0 None MEMPOOL_PG_NUM_DEFAULT MEMPOOL_PG_SHIFT_MAX"
    by (simp add: pool_args_ok_def RTE_MEMPOOL_CACHE_MAX_SIZE_def CALC_CACHE_FLUSHTHRESH_def)
  moreover have "getpagesize machine_0 = 4096" "rte_memory_get_nchannel machine_0 = 4" "rte_memory_get_nrank machine_0 = 0" "t \<noteq> 0"
    using sz(3) by (auto simp: machine_0_def)
  ultimately show ?thesis using assms sz e1(1) te mz fresh_ops_ok(3)
    by (auto simp: rte_mempool_create_def rte_mempool_xmem_create_def pool_flags_def pool_ring_flags_def pool_start_addr_def
        MEMPOOL_PG_NUM_DEFAULT_def Let_def split: bind_splits)
qed

theorem pktmbuf_pool_created_witness:
  "\<exists>mp e'. rte_mempool_create fresh_ops machine_0 (\<lambda>_. 0) pool_eal_0 PKTMBUF_POOL_NAME 3072 2304 512 4
        (Some (\<lambda>mp. rte_pktmbuf_pool_init mp None)) (Some pktmbuf_ctor) 0 0 = Some (mp, e')
    \<and> mp \<noteq> 0 \<and> pools_live (set \<circ> snd) e' \<and> pool_made pktmbuf_fresh PKTMBUF_POOL_NAME 3072 2304 pool_eal_0 mp e'"
proof -
  have "length PKTMBUF_POOL_NAME + 3 < RTE_MEMZONE_NAMESIZE" "pktmbuf_args 2304 None"
    "(4 :: nat) = unat ((if rte_memory_get_nrank machine_0 = 0 then 1 else rte_memory_get_nrank machine_0)
       * (if rte_memory_get_nchannel machine_0 = 0 then 4 else rte_memory_get_nchannel machine_0))"
    by (simp_all add: PKTMBUF_POOL_NAME_def RTE_MEMZONE_NAMESIZE_def machine_0_def pktmbuf_args_def sizeof_rte_mbuf_def)
  with pktmbuf_pool_created [OF fresh_ops_ok(3,1,2) pool_eal_0_live, of PKTMBUF_POOL_NAME 3072 4 machine_0 2304 None "\<lambda>_. 0" 512 0]
  obtain mp e' where c: "rte_mempool_create fresh_ops machine_0 (\<lambda>_. 0) pool_eal_0 PKTMBUF_POOL_NAME 3072 2304 512 4
        (Some (\<lambda>mp. rte_pktmbuf_pool_init mp None)) (Some pktmbuf_ctor) 0 0 = Some (mp, e')" "pools_live (set \<circ> snd) e'"
    "if mp = 0 then pools_kept pool_eal_0 e' else pool_made pktmbuf_fresh PKTMBUF_POOL_NAME 3072 (unat (2304 :: u32)) pool_eal_0 mp e'"
    by auto
  then show ?thesis using first_pool [OF c(1)] by simp
qed

end
