(* ===== verification/Rte_Hostshmem.thy ===== *)
theory Rte_Hostshmem
  imports Rte_Memzone Spp_Cstring
begin

text \<open>
  Sharing memory with a virtual machine (\<open>lib/librte_hostshmem/rte_hostshmem.c\<close>): memory zones are
  entered into a metadata file, \<open>build_config\<close> collects the huge pages they lie on, orders the
  pages by size and gives every zone its offset in the concatenation of the pages, which is what
  the guest maps. This theory holds the data and the operations.
\<close>

unbundle bit_operations_syntax

section \<open>Data (rte_hostshmem.h)\<close>

definition HOSTSHMEM_MAGIC :: u32 where "HOSTSHMEM_MAGIC = 0x0BADC0DE"
definition HOSTSHMEM_NAME_LEN :: nat where "HOSTSHMEM_NAME_LEN = 32"
definition HOSTSHMEM_MAX_HUGEPAGES :: nat where "HOSTSHMEM_MAX_HUGEPAGES = 32"
definition HOSTSHMEM_MAX_PAGES :: nat where "HOSTSHMEM_MAX_PAGES = 4096"
definition RTE_LIBRTE_HOSTSHMEM_MAX_ENTRIES :: nat where "RTE_LIBRTE_HOSTSHMEM_MAX_ENTRIES = 128"
definition RTE_LIBRTE_HOSTSHMEM_MAX_METADATA_FILES :: nat where "RTE_LIBRTE_HOSTSHMEM_MAX_METADATA_FILES = 32"
definition PATH_MAX :: nat where "PATH_MAX = 4096"

record hostshmem_metadata_entry =
  he_mz :: rte_memzone
  he_offset :: u64

record hostshmem_metadata =
  hm_magic_number :: u32
  hm_name :: string
  hm_entry :: "hostshmem_metadata_entry list"

record hostshmem_hugepage_entry =
  hp_mz :: rte_memzone
  hp_path :: string

record hostshmem_hugepage_metadata =
  hpm_magic_number :: u32
  hpm_name :: string
  hp_entries :: "hostshmem_hugepage_entry list"

record memseg_cache_entry =
  ms_filepath :: string
  ms_offset :: u64
  ms_len :: u64

record hostshmem_config =
  hc_metadata :: "hostshmem_metadata option"
  hc_hp_metadata :: "hostshmem_hugepage_metadata option"
  hc_memseg_cache :: "memseg_cache_entry list"

text \<open>The part of \<open>struct rte_memseg\<close> that is written; \<open>hugepage_sz\<close> and \<open>socket_id\<close> stay 0.\<close>
record hs_page =
  pg_addr :: u64
  pg_phys :: u64
  pg_len :: u64

definition null_ms :: memseg_cache_entry where
  "null_ms = \<lparr>ms_filepath = '''', ms_offset = 0, ms_len = 0\<rparr>"

definition null_entry :: hostshmem_metadata_entry where
  "null_entry = \<lparr>he_mz = null_memzone, he_offset = 0\<rparr>"

definition null_hp :: hostshmem_hugepage_entry where
  "null_hp = \<lparr>hp_mz = null_memzone, hp_path = ''''\<rparr>"

section \<open>Helpers\<close>

text \<open>The index of the configuration; the scan stops at the first unused slot.\<close>
fun get_config_loop :: "hostshmem_config list \<Rightarrow> string \<Rightarrow> nat option" where
  "get_config_loop [] name = None"
| "get_config_loop (c # cs) name =
     (case hc_metadata c of
        None \<Rightarrow> None
      | Some m \<Rightarrow> if strncmp_eq name (hm_name m) HOSTSHMEM_NAME_LEN then Some 0
                  else map_option Suc (get_config_loop cs name))"

definition get_config_by_name :: "hostshmem_config list \<Rightarrow> string \<Rightarrow> nat option" where
  "get_config_by_name g name = get_config_loop g name"

definition mz_overlap :: "rte_memzone \<Rightarrow> rte_memzone \<Rightarrow> bool" where
  "mz_overlap s1 s2 =
     (let start1 = mz_addr s1; end1 = mz_addr s1 + mz_len s1;
          start2 = mz_addr s2; end2 = mz_addr s2 + mz_len s2
      in (start1 \<ge> start2 \<and> start1 < end2) \<or> (start2 \<ge> start1 \<and> start2 < end1))"

text \<open>The index of the zone in the table of memory zones.\<close>
definition get_memzone_by_addr :: "rte_memzone list \<Rightarrow> u64 \<Rightarrow> nat option" where
  "get_memzone_by_addr zs addr = scan (\<lambda>z. mz_addr z = addr) zs"

definition entry_compare :: "hostshmem_metadata_entry \<Rightarrow> hostshmem_metadata_entry \<Rightarrow> int" where
  "entry_compare e1 e2 =
     (if mz_addr (he_mz e1) = 0 \<and> mz_addr (he_mz e2) = 0 then 0
      else if mz_addr (he_mz e1) = 0 then 1
      else if mz_addr (he_mz e2) = 0 then - 1
      else if mz_phys_addr (he_mz e1) > mz_phys_addr (he_mz e2) then 1 else 0)"

text \<open>
  The \<open>qsort\<close> of the GNU C library: a merge sort, which takes the left element when the comparison
  is not positive.
\<close>
fun qsort_merge :: "('a \<Rightarrow> 'a \<Rightarrow> int) \<Rightarrow> 'a list \<Rightarrow> 'a list \<Rightarrow> 'a list" where
  "qsort_merge cmp [] ys = ys"
| "qsort_merge cmp xs [] = xs"
| "qsort_merge cmp (x # xs) (y # ys) =
     (if cmp x y \<le> 0 then x # qsort_merge cmp xs (y # ys) else y # qsort_merge cmp (x # xs) ys)"

function qsort :: "('a \<Rightarrow> 'a \<Rightarrow> int) \<Rightarrow> 'a list \<Rightarrow> 'a list" where
  "qsort cmp xs =
     (let n = length xs in
      if n \<le> 1 then xs
      else qsort_merge cmp (qsort cmp (take (n div 2) xs)) (qsort cmp (drop (n div 2) xs)))"
  by pat_completeness auto
termination
  by (relation "measure (\<lambda>(cmp, xs). length xs)") auto

declare qsort.simps [simp del]

section \<open>The files behind the pages\<close>

text \<open>\<open>strtoull(s, &end, 16)\<close> with \<open>errno\<close>: value, rest and whether the range was left.\<close>
definition strtoull16 :: "string \<Rightarrow> u64 \<times> string \<times> bool" where
  "strtoull16 s =
     (let (v, rest) = strtoul16 s;
          (neg, u) = sign_split (dropWhile is_space s);
          ds = takeWhile is_hex (case u of
                 c0 # c1 # c2 # cs \<Rightarrow>
                   if c0 = CHR ''0'' \<and> (c1 = CHR ''x'' \<or> c1 = CHR ''X'') \<and> is_hex c2 then c2 # cs else u
               | _ \<Rightarrow> u)
      in (v, rest, hex_num ds \<ge> 2 ^ 64))"

text \<open>\<open>GET_PAGEMAP_ADDR\<close>: the address and the text after the delimiter; \<^term>\<open>None\<close> is the jump to \<open>error\<close>.\<close>
definition GET_PAGEMAP_ADDR :: "string \<Rightarrow> char \<Rightarrow> (u64 \<times> string) option" where
  "GET_PAGEMAP_ADDR inp dlm =
     (case strtoull16 inp of
        (addr, c # cs, erange) \<Rightarrow> if erange \<or> c \<noteq> dlm then None else Some (addr, cs)
      | (addr, [], erange) \<Rightarrow> None)"

text \<open>The lines as \<open>fgets\<close> returns them with a buffer of \<open>n + 1\<close> characters.\<close>
function fgets_lines :: "nat \<Rightarrow> string \<Rightarrow> string list" where
  "fgets_lines n s =
     (if s = [] \<or> n = 0 then []
      else let l = takeWhile (\<lambda>c. c \<noteq> CHR 0x0A) s;
               k = min n (if length l < length s then length l + 1 else length l)
           in take k s # fgets_lines n (drop k s))"
  by pat_completeness auto
termination
  by (relation "measure (\<lambda>(n, s). length s)") (auto simp: min_def Let_def)

declare fgets_lines.simps [simp del]

text \<open>
  The search over the lines of \<open>/proc/self/maps\<close>. \<^term>\<open>Inl\<close> is the return value \<open>-1\<close>; the other
  result is the start of the mapping and the path.
\<close>
fun hugefile_loop :: "u64 \<Rightarrow> string list \<Rightarrow> unit + u64 \<times> string" where
  "hugefile_loop virt_addr [] = Inl ()"
| "hugefile_loop virt_addr (buf # lines) =
     (case GET_PAGEMAP_ADDR buf (CHR ''-'') of
        None \<Rightarrow> Inl ()
      | Some (start_addr, inp) \<Rightarrow>
          if start_addr > virt_addr then hugefile_loop virt_addr lines
          else (case GET_PAGEMAP_ADDR inp (CHR '' '') of
                  None \<Rightarrow> Inl ()
                | Some (end_addr, inp) \<Rightarrow>
                    if end_addr \<le> virt_addr then hugefile_loop virt_addr lines
                    else let path = dropWhile (\<lambda>c. c \<noteq> CHR ''/'') inp in
                      if path = [] then hugefile_loop virt_addr lines
                      else if CHR 0x0A \<in> set path
                      then Inr (start_addr, takeWhile (\<lambda>c. c \<noteq> CHR 0x0A) path)
                      else Inl ()))"

text \<open>
  The maps of the process are \<^term>\<open>None\<close> when they cannot be opened. A path that does not fit into
  \<open>filepath\<close> is written past it, which is the outer \<^term>\<open>None\<close>.
\<close>
definition get_hugefile_by_virt_addr ::
  "string option \<Rightarrow> u64 \<Rightarrow> memseg_cache_entry \<Rightarrow> (int \<times> memseg_cache_entry) option" where
  "get_hugefile_by_virt_addr maps virt_addr e =
     (let e = e\<lparr>ms_filepath := ''''\<rparr> in
      case maps of
        None \<Rightarrow> Some (- 1, e)
      | Some txt \<Rightarrow>
          (case hugefile_loop virt_addr (fgets_lines (2 * PATH_MAX - 1) txt) of
             Inl _ \<Rightarrow> Some (- 1, e)
           | Inr (start_addr, path) \<Rightarrow>
               if length path < PATH_MAX
               then Some (0, e\<lparr>ms_filepath := path, ms_offset := virt_addr - start_addr\<rparr>) else None))"

section \<open>Building the configuration\<close>

definition align_floor64 :: "u64 \<Rightarrow> u64 \<Rightarrow> u64" where
  "align_floor64 v a = v AND NOT (a - 1)"

definition align_up64 :: "u64 \<Rightarrow> u64 \<Rightarrow> u64" where
  "align_up64 v a = align_floor64 (v + (a - 1)) a"

text \<open>
  The used entries of \<open>pages\<close> are a list; entries after it are cleared. The search goes once over
  the pages, with the address it looks for moving on at each page it meets: the index of the first
  unused entry, the address, the physical address and the length that are left.
\<close>
fun skip_pages :: "u64 \<Rightarrow> hs_page list \<Rightarrow> u64 \<Rightarrow> u64 \<Rightarrow> u64 \<Rightarrow> u64 \<times> u64 \<times> u64" where
  "skip_pages hsz [] start phys len = (start, phys, len)"
| "skip_pages hsz (p # ps) start phys len =
     (if pg_addr p = start then skip_pages hsz ps (start + hsz) (phys + hsz) (len - hsz)
      else skip_pages hsz ps start phys len)"

text \<open>The pages that are appended while there is room; \<open>room\<close> is the number of unused entries.\<close>
fun add_pages :: "nat \<Rightarrow> u64 \<Rightarrow> u64 \<Rightarrow> u64 \<Rightarrow> u64 \<Rightarrow> hs_page list \<times> u64" where
  "add_pages 0 hsz start phys len = ([], len)"
| "add_pages (Suc room) hsz start phys len =
     (if len = 0 then ([], 0)
      else let (ps, l) = add_pages room hsz (start + hsz) (phys + hsz) (len - hsz)
           in (\<lparr>pg_addr = start, pg_phys = phys, pg_len = hsz\<rparr> # ps, l))"

text \<open>First pass, for one entry; \<^term>\<open>None\<close> is the jump to \<open>fail\<close>.\<close>
definition collect_entry :: "hostshmem_metadata_entry \<Rightarrow> hs_page list \<Rightarrow> hs_page list option" where
  "collect_entry entry pages =
     (let mz = he_mz entry;
          hsz = mz_hugepage_sz mz;
          start_addr = align_floor64 (mz_addr mz) hsz;
          phy_start_addr = align_floor64 (mz_phys_addr mz) hsz;
          offset = mz_addr mz - start_addr;
          len = align_up64 (mz_len mz + offset) hsz
      in if mz_addr mz = 0 \<or> start_addr = 0 \<or> len = 0 then Some pages
         else let (start_addr, phy_start_addr, len) = skip_pages hsz pages start_addr phy_start_addr len in
           if length pages = HOSTSHMEM_MAX_PAGES then None
           else let (new, len) = add_pages (HOSTSHMEM_MAX_PAGES - length pages) hsz start_addr phy_start_addr len in
             if len \<noteq> 0 then None else Some (pages @ new))"

fun collect_pages :: "hostshmem_metadata_entry list \<Rightarrow> hs_page list \<Rightarrow> hs_page list option" where
  "collect_pages [] pages = Some pages"
| "collect_pages (en # es) pages = do { pages \<leftarrow> collect_entry en pages; collect_pages es pages }"

text \<open>Second pass: the index of the first page with the greatest length, counted from \<open>j\<close>.\<close>
fun biggest_page :: "nat \<Rightarrow> u64 \<Rightarrow> nat option \<Rightarrow> hs_page list \<Rightarrow> nat option" where
  "biggest_page j biggest_len idx [] = idx"
| "biggest_page j biggest_len idx (p # ps) =
     (if biggest_len = 0 \<or> pg_len p > biggest_len then biggest_page (Suc j) (pg_len p) (Some j) ps
      else biggest_page (Suc j) biggest_len idx ps)"

text \<open>The page at \<open>k\<close> moves to the front, the pages before it one to the right.\<close>
definition move_to_front :: "nat \<Rightarrow> hs_page list \<Rightarrow> hs_page list" where
  "move_to_front k ps = (case drop k ps of [] \<Rightarrow> ps | p # rest \<Rightarrow> p # take k ps @ rest)"

text \<open>Sorting the pages from the current index on.\<close>
function sort_pages :: "hs_page list \<Rightarrow> hs_page list option" where
  "sort_pages ps =
     (if ps = [] then Some []
      else case biggest_page 0 0 None ps of
             None \<Rightarrow> None
           | Some k \<Rightarrow> (case move_to_front k ps of
                          [] \<Rightarrow> None
                        | p # rest \<Rightarrow> map_option ((#) p) (sort_pages rest)))"
  by pat_completeness auto
termination
proof (relation "measure length", goal_cases)
  case (2 ps k p rest)
  have "length (move_to_front k ps) = length ps"
  proof (cases "drop k ps")
    case (Cons q qs)
    then have "length ps = length (take k ps @ q # qs)" by (metis append_take_drop_id)
    then show ?thesis using Cons by (simp add: move_to_front_def)
  qed (simp add: move_to_front_def)
  then show ?case using 2 by simp
qed simp

declare sort_pages.simps [simp del]

text \<open>
  Third pass: the offset of an address in the sequence of pages; \<^term>\<open>None\<close> when no page has it. A
  cleared entry contains no address.
\<close>
fun page_offset :: "u64 \<Rightarrow> u64 \<Rightarrow> hs_page list \<Rightarrow> u64 option" where
  "page_offset addr offset [] = None"
| "page_offset addr offset (p # ps) =
     (if addr \<ge> pg_addr p \<and> addr < pg_addr p + pg_len p then Some (addr - pg_addr p + offset)
      else page_offset addr (offset + pg_len p) ps)"

fun write_offsets :: "hs_page list \<Rightarrow> hostshmem_metadata_entry list \<Rightarrow> hostshmem_metadata_entry list option" where
  "write_offsets pages [] = Some []"
| "write_offsets pages (en # es) =
     (if mz_addr (he_mz en) = 0 then Some (en # es)
      else do { off \<leftarrow> page_offset (mz_addr (he_mz en)) 0 pages;
                es \<leftarrow> write_offsets pages es;
                Some (en\<lparr>he_offset := off\<rparr> # es) })"

text \<open>
  Fourth pass, from the page list and the local cache: \<open>ms_iter\<close> is the next cache entry, \<open>prev\<close>
  the index of the previous one. The inner \<^term>\<open>None\<close> is the jump to \<open>fail\<close>.
\<close>
fun cache_pages ::
  "string option \<Rightarrow> hs_page list \<Rightarrow> nat \<Rightarrow> nat option \<Rightarrow> memseg_cache_entry list \<Rightarrow> memseg_cache_entry list option option" where
  "cache_pages maps [] ms_iter prev ms = Some (Some ms)"
| "cache_pages maps (p # ps) ms_iter prev ms =
     (if ms_iter = HOSTSHMEM_MAX_PAGES then Some None
      else do {
        c \<leftarrow> aget ms ms_iter;
        (r, c) \<leftarrow> get_hugefile_by_virt_addr maps (pg_addr p) (c\<lparr>ms_len := pg_len p\<rparr>);
        if r < 0 then Some None
        else case prev of
               None \<Rightarrow> cache_pages maps ps (Suc ms_iter) (Some ms_iter) (ms[ms_iter := c])
             | Some k \<Rightarrow> do {
                 q \<leftarrow> aget ms k;
                 if ms_filepath c = ms_filepath q \<and> ms_offset q + ms_len q = ms_offset c
                 then cache_pages maps ps ms_iter prev (ms[k := q\<lparr>ms_len := ms_len q + pg_len p\<rparr>, ms_iter := null_ms])
                 else cache_pages maps ps (Suc ms_iter) (Some ms_iter) (ms[ms_iter := c]) } })"

text \<open>The table of huge pages; a write outside its 32 entries is \<^term>\<open>None\<close>.\<close>
fun write_hps :: "nat \<Rightarrow> hs_page list \<Rightarrow> memseg_cache_entry list \<Rightarrow> hostshmem_hugepage_entry list \<Rightarrow> hostshmem_hugepage_entry list option" where
  "write_hps i [] ms hps = Some hps"
| "write_hps i (p # ps) ms hps =
     do { h \<leftarrow> aget hps i;
          c \<leftarrow> aget ms i;
          write_hps (Suc i) ps ms (hps[i := \<lparr>hp_mz = (hp_mz h)\<lparr>mz_name := ''hugepage_'' @ show_nat i,
              mz_phys_addr := pg_phys p, mz_addr := pg_addr p, mz_len := pg_len p, mz_hugepage_sz := 0,
              mz_socket_id := 0\<rparr>, hp_path = ms_filepath c\<rparr>]) }"

text \<open>
  \<open>build_config\<close> on the configuration it finds under its name; memory for the local copies is
  there. The return value and the configuration; \<^term>\<open>None\<close> is an access outside an array.
\<close>
definition build_config :: "string option \<Rightarrow> hostshmem_config list \<Rightarrow> string \<Rightarrow> (int \<times> hostshmem_config list) option" where
  "build_config maps g name =
     (case get_config_by_name g name of
        None \<Rightarrow> Some (- 1, g)
      | Some ci \<Rightarrow> do {
          cfg \<leftarrow> aget g ci;
          md \<leftarrow> hc_metadata cfg;
          hp \<leftarrow> hc_hp_metadata cfg;
          let e_local = qsort entry_compare (hm_entry md);
          case collect_pages e_local [] of
            None \<Rightarrow> Some (- 1, g)
          | Some pages \<Rightarrow>
              (case sort_pages pages of
                 None \<Rightarrow> Some (- 1, g)
               | Some pages \<Rightarrow>
                   (case write_offsets pages e_local of
                      None \<Rightarrow> Some (- 1, g)
                    | Some e_local \<Rightarrow> do {
                        ms \<leftarrow> cache_pages maps pages 0 None (hc_memseg_cache cfg);
                        case ms of
                          None \<Rightarrow> Some (- 1, g)
                        | Some ms \<Rightarrow> do {
                            hps \<leftarrow> write_hps 0 pages ms (hp_entries hp);
                            Some (0, g[ci := cfg\<lparr>hc_metadata := Some (md\<lparr>hm_entry := e_local\<rparr>),
                                hc_hp_metadata := Some (hp\<lparr>hp_entries := hps\<rparr>), hc_memseg_cache := ms\<rparr>]) } })) })"

section \<open>Entering zones, rings and pools\<close>

text \<open>
  The state: the configurations, the table of memory zones of the EAL, and the zones that were
  marked as not freeable through their field \<open>ioremap_addr\<close>.
\<close>
record hostshmem =
  hs_configs :: "hostshmem_config list"
  hs_memzone :: "rte_memzone list"
  hs_ioremap :: "nat \<rightharpoonup> u64"

text \<open>
  The scan for a free slot: \<^term>\<open>Inl False\<close> for an overlap, \<^term>\<open>Inl True\<close> for no space, else the
  index. The test \<open>&entry->mz.addr_64 != 0\<close> takes the address of the field and is always true.
\<close>
fun free_entry :: "rte_memzone \<Rightarrow> hostshmem_metadata_entry list \<Rightarrow> bool + nat" where
  "free_entry mz [] = Inl True"
| "free_entry mz (en # es) =
     (if mz_overlap mz (he_mz en) then Inl False
      else if mz_addr (he_mz en) = 0 then Inr 0
      else map_sum id Suc (free_entry mz es))"

text \<open>
  The zone is given by its index in the table, the configuration by its index. A zone that was
  stored stays in the metadata when \<open>build_config\<close> fails.
\<close>
definition add_memzone_to_metadata :: "string option \<Rightarrow> hostshmem \<Rightarrow> nat \<Rightarrow> nat \<Rightarrow> (int \<times> hostshmem) option" where
  "add_memzone_to_metadata maps s mzi ci =
     do { mz \<leftarrow> aget (hs_memzone s) mzi;
          cfg \<leftarrow> aget (hs_configs s) ci;
          md \<leftarrow> hc_metadata cfg;
          case free_entry mz (hm_entry md) of
            Inl _ \<Rightarrow> Some (- 1, s)
          | Inr i \<Rightarrow> do {
              let md = md\<lparr>hm_entry := (hm_entry md)[i := (hm_entry md ! i)\<lparr>he_mz := mz\<rparr>]\<rparr>;
              let g = (hs_configs s)[ci := cfg\<lparr>hc_metadata := Some md\<rparr>];
              (r, g) \<leftarrow> build_config maps g (hm_name md);
              let s = s\<lparr>hs_configs := g\<rparr>;
              if r < 0 then Some (- 1, s)
              else Some (0, s\<lparr>hs_ioremap := (hs_ioremap s)(mzi \<mapsto> mz_phys_addr mz)\<rparr>) } }"

definition add_ring_to_metadata :: "string option \<Rightarrow> hostshmem \<Rightarrow> u64 \<Rightarrow> nat \<Rightarrow> (int \<times> hostshmem) option" where
  "add_ring_to_metadata maps s r ci =
     (case get_memzone_by_addr (hs_memzone s) r of
        None \<Rightarrow> Some (- 1, s)
      | Some mzi \<Rightarrow> add_memzone_to_metadata maps s mzi ci)"

text \<open>A pool is given by its address and the address of its ring.\<close>
definition add_mempool_to_metadata :: "string option \<Rightarrow> hostshmem \<Rightarrow> u64 \<Rightarrow> u64 \<Rightarrow> nat \<Rightarrow> (int \<times> hostshmem) option" where
  "add_mempool_to_metadata maps s mp ring ci =
     (case get_memzone_by_addr (hs_memzone s) mp of
        None \<Rightarrow> Some (- 1, s)
      | Some mzi \<Rightarrow> do {
          (r, s) \<leftarrow> add_memzone_to_metadata maps s mzi ci;
          if r < 0 then Some (- 1, s) else add_ring_to_metadata maps s ring ci })"

definition rte_hostshmem_metadata_add_ring :: "string option \<Rightarrow> hostshmem \<Rightarrow> u64 \<Rightarrow> string option \<Rightarrow> (int \<times> hostshmem) option" where
  "rte_hostshmem_metadata_add_ring maps s r name =
     (case name of
        None \<Rightarrow> Some (- 1, s)
      | Some name \<Rightarrow>
          if r = 0 then Some (- 1, s)
          else (case get_config_by_name (hs_configs s) name of
                  None \<Rightarrow> Some (- 1, s)
                | Some ci \<Rightarrow> add_ring_to_metadata maps s r ci))"

definition rte_hostshmem_metadata_add_memzone :: "string option \<Rightarrow> hostshmem \<Rightarrow> nat option \<Rightarrow> string option \<Rightarrow> (int \<times> hostshmem) option" where
  "rte_hostshmem_metadata_add_memzone maps s mz name =
     (case (name, mz) of
        (Some name, Some mzi) \<Rightarrow>
          (case get_config_by_name (hs_configs s) name of
             None \<Rightarrow> Some (- 1, s)
           | Some ci \<Rightarrow> add_memzone_to_metadata maps s mzi ci)
      | _ \<Rightarrow> Some (- 1, s))"

definition rte_hostshmem_metadata_add_mempool :: "string option \<Rightarrow> hostshmem \<Rightarrow> u64 \<Rightarrow> u64 \<Rightarrow> string option \<Rightarrow> (int \<times> hostshmem) option" where
  "rte_hostshmem_metadata_add_mempool maps s mp ring name =
     (case name of
        None \<Rightarrow> Some (- 1, s)
      | Some name \<Rightarrow>
          if mp = 0 then Some (- 1, s)
          else (case get_config_by_name (hs_configs s) name of
                  None \<Rightarrow> Some (- 1, s)
                | Some ci \<Rightarrow> add_mempool_to_metadata maps s mp ring ci))"

section \<open>Creating the metadata and the command line\<close>

text \<open>
  Opening, locking, resizing and mapping the two files are parameters: whether each succeeds for the
  name. When the second file fails the first one stays in the slot, without magic number and name
  of its own; what such a file holds is the parameter \<open>old\<close>.
\<close>
definition rte_hostshmem_metadata_create ::
  "(string \<Rightarrow> bool) \<Rightarrow> (string \<Rightarrow> bool) \<Rightarrow> hostshmem_metadata \<Rightarrow> hostshmem \<Rightarrow> string option \<Rightarrow> int \<times> hostshmem" where
  "rte_hostshmem_metadata_create metadata_file hp_metadata_file old s name =
     (case name of
        None \<Rightarrow> (- 1, s)
      | Some name \<Rightarrow>
          (case scan (\<lambda>c. hc_metadata c = None) (hs_configs s) of
             None \<Rightarrow> (- 1, s)
           | Some i \<Rightarrow>
               if \<not> metadata_file name then (- 1, s)
               else if \<not> hp_metadata_file name
               then (- 1, s\<lparr>hs_configs := (hs_configs s)[i := (hs_configs s ! i)\<lparr>hc_metadata := Some old\<rparr>]\<rparr>)
               else
                 let nm = snprintf_s HOSTSHMEM_NAME_LEN name;
                     md = \<lparr>hm_magic_number = HOSTSHMEM_MAGIC, hm_name = nm,
                           hm_entry = replicate RTE_LIBRTE_HOSTSHMEM_MAX_ENTRIES null_entry\<rparr>;
                     hp = \<lparr>hpm_magic_number = HOSTSHMEM_MAGIC, hpm_name = nm,
                           hp_entries = replicate HOSTSHMEM_MAX_HUGEPAGES null_hp\<rparr>
                 in (0, s\<lparr>hs_configs := (hs_configs s)[i := (hs_configs s ! i)\<lparr>hc_metadata := Some md, hc_hp_metadata := Some hp\<rparr>]\<rparr>)))"

definition HOSTSHMEM_QEMU_CMDLINE_BUFSIZE :: nat where "HOSTSHMEM_QEMU_CMDLINE_BUFSIZE = 1024"

function show_hex :: "nat \<Rightarrow> string" where
  "show_hex n = (if n < 16 then [''0123456789abcdef'' ! n] else show_hex (n div 16) @ [''0123456789abcdef'' ! (n mod 16)])"
  by pat_completeness auto
termination
  by (relation "measure id") auto

declare show_hex.simps [simp del]

text \<open>\<open>HOSTSHMEM_QEMU_CMD_FD_FMT\<close>.\<close>
definition fd_fmt :: "string \<Rightarrow> u64 \<Rightarrow> u64 \<Rightarrow> string" where
  "fd_fmt path off len = '':'' @ path @ '':0x'' @ show_hex (unat off) @ '':0x'' @ show_hex (unat len)"

text \<open>
  One \<open>snprintf\<close> to the end of the text so far, which is complete and shorter than the buffer. A
  text that is longer than the room left moves the pointer past the buffer and the remaining
  length below 0, modulo \<open>2^32\<close>: the result is then \<^term>\<open>Inl\<close> of the remaining length.
\<close>
definition cmd_append :: "string \<Rightarrow> string \<Rightarrow> u32 + string" where
  "cmd_append cmd s =
     (if length (cmd @ s) < HOSTSHMEM_QEMU_CMDLINE_BUFSIZE then Inr (cmd @ s)
      else Inl (of_nat HOSTSHMEM_QEMU_CMDLINE_BUFSIZE - of_nat (length (cmd @ s))))"

text \<open>
  A step that another one follows: \<^term>\<open>Some (Inl ())\<close> is the error "Command line too long", which is
  only noticed when the room is used up exactly; \<^term>\<open>None\<close> is the write behind the buffer that
  follows otherwise.
\<close>
definition cmd_step :: "string \<Rightarrow> string \<Rightarrow> (unit + string) option" where
  "cmd_step cmd s =
     (case cmd_append cmd s of
        Inr cmd \<Rightarrow> Some (Inr cmd)
      | Inl rem \<Rightarrow> if rem = 0 then Some (Inl ()) else None)"

function cmd_entries :: "memseg_cache_entry list \<Rightarrow> nat \<Rightarrow> string \<Rightarrow> u64 \<Rightarrow> (unit + string \<times> u64) option" where
  "cmd_entries ms iter cmd shared =
     do { c \<leftarrow> aget ms iter;
          if ms_len c \<noteq> 0 \<and> iter < RTE_LIBRTE_HOSTSHMEM_MAX_ENTRIES
          then do { r \<leftarrow> cmd_step cmd (fd_fmt (ms_filepath c) (ms_offset c) (ms_len c));
                    case r of Inl u \<Rightarrow> Some (Inl u)
                            | Inr cmd \<Rightarrow> cmd_entries ms (Suc iter) cmd (shared + ms_len c) }
          else Some (Inr (cmd, shared)) }"
  by pat_completeness auto
termination
  by (relation "measure (\<lambda>(ms, iter, cmd, shared). RTE_LIBRTE_HOSTSHMEM_MAX_ENTRIES - iter)") auto

declare cmd_entries.simps [simp del]

definition rte_align64pow2 :: "u64 \<Rightarrow> u64" where
  "rte_align64pow2 v =
     (let v = v - 1;
          v = v OR drop_bit 1 v;
          v = v OR drop_bit 2 v;
          v = v OR drop_bit 4 v;
          v = v OR drop_bit 8 v;
          v = v OR drop_bit 16 v;
          v = v OR drop_bit 32 v
      in v + 1)"

text \<open>
  The size of the metadata rounded to pages is the parameter \<open>md_size\<close>. The result \<^term>\<open>Inl ()\<close> is the
  return value \<open>-1\<close>, \<^term>\<open>Inr\<close> the text that is printed to the buffer of \<open>bufsz\<close> bytes. When the last
  text does not fit, the difference of the lengths is a huge unsigned number and the buffer is
  found too short.
\<close>
definition rte_hostshmem_metadata_cmdline_generate ::
  "u64 \<Rightarrow> hostshmem \<Rightarrow> nat \<Rightarrow> string option \<Rightarrow> (unit + string) option" where
  "rte_hostshmem_metadata_cmdline_generate md_size s bufsz name =
     (case name of
        None \<Rightarrow> Some (Inl ())
      | Some name \<Rightarrow>
          (case get_config_by_name (hs_configs s) name of
             None \<Rightarrow> Some (Inl ())
           | Some ci \<Rightarrow> do {
               cfg \<leftarrow> aget (hs_configs s) ci;
               md \<leftarrow> hc_metadata cfg;
               r \<leftarrow> cmd_entries (hc_memseg_cache cfg) 0 '''' 0;
               case r of
                 Inl u \<Rightarrow> Some (Inl ())
               | Inr (cmd, shared_mem_size) \<Rightarrow> do {
                   let total_size = rte_align64pow2 (shared_mem_size + md_size);
                   r \<leftarrow> cmd_step cmd (fd_fmt ''/dev/zero'' 0 (total_size - shared_mem_size - md_size));
                   case r of
                     Inl u \<Rightarrow> Some (Inl ())
                   | Inr cmd \<Rightarrow>
                       (case cmd_append cmd (fd_fmt (''/var/run/.dpdk_hostshmem_metadata_'' @ hm_name md) 0 md_size) of
                          Inl _ \<Rightarrow> Some (Inl ())
                        | Inr cmd \<Rightarrow>
                            if length cmd > bufsz then Some (Inl ())
                            else Some (Inr (snprintf_s bufsz (''-device hostshmem,size='' @
                                   show_nat (unat (drop_bit 20 total_size)) @ ''M,shm=fd'' @ cmd)))) } }))"

end
