(* ===== verification/Spp_Primary.thy ===== *)
theory Spp_Primary
  imports Spp_Args Rte_Mempool_Registry Rte_Hostshmem
begin

text \<open>
  Start of the primary process (\<open>pri_lvl1/init.c\<close>): the shared table of ports, the pool of packet
  buffers, the network cards, a ring for every client, and the metadata with which a virtual machine
  finds them. A second process that runs the same code as a secondary one finds what the first
  one made. The EAL initialisation, the drivers of the network cards and the files are parameters.
\<close>

unbundle bit_operations_syntax

section \<open>State and environment\<close>

record client =
  cl_rx_q :: u64
  cl_client_id :: u32
  cl_stats_rx :: u64
  cl_stats_rx_drop :: u64

record rte_eth_link =
  link_speed :: u16
  link_duplex :: u16
  link_status :: "1 word"

text \<open>
  The operations of the network cards on their state: configuring a port with numbers of
  queues, setting up a queue of a size, starting, reading the link, and what happens while the
  process waits.
\<close>
record 'n nic_ops =
  rte_eth_dev_configure :: "u8 \<Rightarrow> u16 \<Rightarrow> u16 \<Rightarrow> 'n \<Rightarrow> int \<times> 'n"
  rte_eth_rx_queue_setup :: "u8 \<Rightarrow> u16 \<Rightarrow> u16 \<Rightarrow> u64 \<Rightarrow> 'n \<Rightarrow> int \<times> 'n"
  rte_eth_tx_queue_setup :: "u8 \<Rightarrow> u16 \<Rightarrow> u16 \<Rightarrow> 'n \<Rightarrow> int \<times> 'n"
  rte_eth_promiscuous_enable :: "u8 \<Rightarrow> 'n \<Rightarrow> 'n"
  rte_eth_dev_start :: "u8 \<Rightarrow> 'n \<Rightarrow> int \<times> 'n"
  rte_eth_link_get_nowait :: "u8 \<Rightarrow> 'n \<Rightarrow> rte_eth_link \<times> 'n"
  rte_delay_ms :: "nat \<Rightarrow> 'n \<Rightarrow> 'n"

record ('h, 'n) pri_env =
  pe_ops :: "'h heap_ops"
  pe_machine :: machine
  pe_mem :: "u64 \<Rightarrow> u64"
  pe_socket_id :: int
  pe_secondary :: bool
  pe_eal_init :: int
  pe_total_ports :: u8
  pe_ports_size :: u64
  pe_client_size :: u64
  pe_shared_ports :: port_info
  pe_old_clients :: "nat \<Rightarrow> client"
  pe_nic :: "'n nic_ops"
  pe_maps :: "string option"
  pe_metadata_file :: "string \<Rightarrow> bool"
  pe_hp_metadata_file :: "string \<Rightarrow> bool"
  pe_old_metadata :: hostshmem_metadata
  pe_metadata_size :: u64

record ('h, 'n) primary =
  pr_eal :: "'h pool_eal"
  pr_args :: app_args
  pr_pktmbuf_pool :: u64
  pr_clients :: "client list"
  pr_nics :: 'n
  pr_shm :: hostshmem
  pr_cmdline :: "string option"

definition MBUFS_PER_CLIENT :: u32 where "MBUFS_PER_CLIENT = 1536"
definition MBUFS_PER_PORT :: u32 where "MBUFS_PER_PORT = 1536"
definition MBUF_CACHE_SIZE :: u32 where "MBUF_CACHE_SIZE = 512"
definition MBUF_SIZE :: u32 where "MBUF_SIZE = 2048 + (128 + 128)"
definition RTE_MP_RX_DESC_DEFAULT :: u16 where "RTE_MP_RX_DESC_DEFAULT = 512"
definition RTE_MP_TX_DESC_DEFAULT :: u16 where "RTE_MP_TX_DESC_DEFAULT = 512"
definition CLIENT_QUEUE_RINGSIZE :: u32 where "CLIENT_QUEUE_RINGSIZE = 128"
definition HOSTSHMEM_METADATA_NAME :: string where "HOSTSHMEM_METADATA_NAME = ''pp_hostshmem''"

text \<open>
  Results: \<^term>\<open>Inl\<close> of a message is \<open>rte_exit\<close>, the option is \<^term>\<open>None\<close> for an access outside an
  array or through a null pointer.
\<close>
type_synonym 's exits = "string + 's"

section \<open>The pool and the ports\<close>

definition init_mbuf_pools :: "('h, 'n) pri_env \<Rightarrow> ('h, 'n) primary \<Rightarrow> (int \<times> ('h, 'n) primary) exits option" where
  "init_mbuf_pools env s =
     (let num_mbufs = ucast (num_clients (pr_args s)) * MBUFS_PER_CLIENT
                    + ucast (pi_num_ports (arg_ports (pr_args s))) * MBUFS_PER_PORT
      in if pe_secondary env
         then do { (mp, e) \<leftarrow> pktpool_lookup (pr_eal s) PKTMBUF_POOL_NAME;
                   if mp = 0 then Some (Inl ''Cannot get mempool for mbufs'')
                   else Some (Inr (0, s\<lparr>pr_eal := e, pr_pktmbuf_pool := mp\<rparr>)) }
         else do { (mp, e) \<leftarrow> rte_mempool_create (pe_ops env) (pe_machine env) (pe_mem env) (pr_eal s) PKTMBUF_POOL_NAME
                     num_mbufs MBUF_SIZE MBUF_CACHE_SIZE 4 (Some (\<lambda>mp. rte_pktmbuf_pool_init mp None)) (Some pktmbuf_ctor)
                     (pe_socket_id env) 0;
                   Some (Inr (if mp = 0 then 1 else 0, s\<lparr>pr_eal := e, pr_pktmbuf_pool := mp\<rparr>)) })"

text \<open>One receive and one transmit queue; the return value and the state of the cards.\<close>
definition init_port :: "'n nic_ops \<Rightarrow> u64 \<Rightarrow> u8 \<Rightarrow> 'n \<Rightarrow> int \<times> 'n" where
  "init_port nic pool port_num n =
     (let (retval, n) = rte_eth_dev_configure nic port_num 1 1 n
      in if retval \<noteq> 0 then (retval, n)
         else let (retval, n) = rte_eth_rx_queue_setup nic port_num 0 RTE_MP_RX_DESC_DEFAULT pool n
              in if retval < 0 then (retval, n)
                 else let (retval, n) = rte_eth_tx_queue_setup nic port_num 0 RTE_MP_TX_DESC_DEFAULT n
                      in if retval < 0 then (retval, n)
                         else let n = rte_eth_promiscuous_enable nic port_num n;
                                  (retval, n) = rte_eth_dev_start nic port_num n
                              in if retval < 0 then (retval, n) else (0, n))"

text \<open>The loop over the ports in \<open>init\<close>, from index \<open>i\<close> of \<open>k\<close> ports left.\<close>
fun init_ports :: "'n nic_ops \<Rightarrow> u64 \<Rightarrow> u8 list \<Rightarrow> nat \<Rightarrow> nat \<Rightarrow> 'n \<Rightarrow> 'n exits option" where
  "init_ports nic pool ids i 0 n = Some (Inr n)"
| "init_ports nic pool ids i (Suc k) n =
     do { p \<leftarrow> aget ids i;
          let (retval, n) = init_port nic pool p n;
          if retval \<noteq> 0 then Some (Inl (''Cannot initialise port '' @ show_nat i))
          else init_ports nic pool ids (Suc i) k n }"

section \<open>Waiting for the links\<close>

definition MAX_CHECK_TIME :: nat where "MAX_CHECK_TIME = 90"
definition CHECK_INTERVAL :: nat where "CHECK_INTERVAL = 100"

text \<open>One pass over the ports: whether all are up, and the lines printed when the flag is set.\<close>
fun link_scan :: "'n nic_ops \<Rightarrow> u32 \<Rightarrow> bool \<Rightarrow> u8 list \<Rightarrow> 'n \<Rightarrow> bool \<times> (u8 \<times> rte_eth_link) list \<times> 'n" where
  "link_scan nic port_mask print_flag [] n = (True, [], n)"
| "link_scan nic port_mask print_flag (p # ps) n =
     (if port_mask AND push_bit (unat p) 1 = 0 then link_scan nic port_mask print_flag ps n
      else let (link, n) = rte_eth_link_get_nowait nic p n
           in if print_flag
              then (let (up, out, n) = link_scan nic port_mask print_flag ps n in (up, (p, link) # out, n))
              else if link_status link = 0 then (False, [], n)
              else link_scan nic port_mask print_flag ps n)"

text \<open>The rounds from \<open>count\<close> on: the lines printed, the number of waits, and the cards.\<close>
function link_rounds ::
  "'n nic_ops \<Rightarrow> u32 \<Rightarrow> u8 list \<Rightarrow> nat \<Rightarrow> bool \<Rightarrow> 'n \<Rightarrow> (u8 \<times> rte_eth_link) list \<times> nat \<times> 'n" where
  "link_rounds nic port_mask ps cnt print_flag n =
     (if \<not> cnt \<le> MAX_CHECK_TIME then ([], 0, n)
      else case link_scan nic port_mask print_flag ps n of
        (all_ports_up, out, n) \<Rightarrow>
          if print_flag then (out, 0, n)
          else if all_ports_up
          then link_rounds nic port_mask ps (cnt + 1) True n
          else case link_rounds nic port_mask ps (cnt + 1) (cnt = MAX_CHECK_TIME - 1) (rte_delay_ms nic CHECK_INTERVAL n) of
                 (out, waits, n) \<Rightarrow> (out, Suc waits, n))"
  by pat_completeness auto
termination
  by (relation "measure (\<lambda>(nic, m, ps, c, p, n). Suc MAX_CHECK_TIME - c)") auto

declare link_rounds.simps [simp del]

definition check_all_ports_link_status ::
  "'n nic_ops \<Rightarrow> u8 list \<Rightarrow> nat \<Rightarrow> u32 \<Rightarrow> 'n \<Rightarrow> ((u8 \<times> rte_eth_link) list \<times> nat \<times> 'n) option" where
  "check_all_ports_link_status nic ids port_num port_mask n =
     (if port_num \<le> length ids then Some (link_rounds nic port_mask (take port_num ids) 0 False n) else None)"

section \<open>The rings of the clients\<close>

text \<open>\<open>rte_malloc\<close> allocates as \<open>rte_zmalloc\<close> does, and leaves the memory as it is.\<close>
definition rte_malloc :: "'h heap_ops \<Rightarrow> 'h \<Rightarrow> u64 \<Rightarrow> u64 \<times> 'h" where
  "rte_malloc ops h sz = rte_zmalloc ops h sz"

fun shm_rings_loop :: "('h, 'n) pri_env \<Rightarrow> nat list \<Rightarrow> client list \<Rightarrow> 'h pool_eal \<Rightarrow> (client list exits \<times> 'h pool_eal) option" where
  "shm_rings_loop env [] cls e = Some (Inr cls, e)"
| "shm_rings_loop env (i # is) cls e =
     (let q_name = get_rx_queue_name (of_nat i) in
      do { (r, e) \<leftarrow> (if pe_secondary env then rte_ring_lookup e q_name
                     else Some (rte_ring_create (pe_ops env) (pe_mem env) e q_name CLIENT_QUEUE_RINGSIZE
                                  (pe_socket_id env) (RING_F_SP_ENQ OR RING_F_SC_DEQ)));
           c \<leftarrow> aget cls i;
           cls \<leftarrow> aset cls i (c\<lparr>cl_rx_q := r\<rparr>);
           if r = 0 then Some (Inl (''Cannot create rx ring queue for client '' @ show_nat i), e)
           else shm_rings_loop env is cls e })"

text \<open>The return value is an uninitialised variable; the caller does not look at it.\<close>
definition init_shm_rings :: "('h, 'n) pri_env \<Rightarrow> ('h, 'n) primary \<Rightarrow> ('h, 'n) primary exits option" where
  "init_shm_rings env s =
     (let n = unat (num_clients (pr_args s));
          e = pr_eal s;
          (a, h) = rte_malloc (pe_ops env) (malloc_heaps e) (pe_client_size env * of_nat n)
      in if a = 0 then Some (Inl ''Cannot allocate memory for client program details'')
         else do { (r, e) \<leftarrow> shm_rings_loop env [0..<n] (map (pe_old_clients env) [0..<n]) (e\<lparr>malloc_heaps := h\<rparr>);
                   Some (map_sum id (\<lambda>cls. s\<lparr>pr_eal := e, pr_clients := cls\<rparr>) r) })"

section \<open>Metadata for the virtual machines\<close>

text \<open>The address of the ring of the pool: the ring that was entered under the name of the pool.\<close>
definition pool_ring :: "'h pool_eal \<Rightarrow> u64" where
  "pool_ring e = (case rte_ring_lookup e (RTE_MEMPOOL_MZ_PREFIX @ PKTMBUF_POOL_NAME) of None \<Rightarrow> 0 | Some (a, e) \<Rightarrow> a)"

fun add_client_rings :: "string option \<Rightarrow> nat \<Rightarrow> client list \<Rightarrow> hostshmem \<Rightarrow> hostshmem exits option" where
  "add_client_rings maps i [] shm = Some (Inr shm)"
| "add_client_rings maps i (c # cls) shm =
     do { (r, shm) \<leftarrow> rte_hostshmem_metadata_add_ring maps shm (cl_rx_q c) (Some HOSTSHMEM_METADATA_NAME);
          if r < 0 then Some (Inl (''Cannot add ring client '' @ show_nat i @ '' to HOSTSHMEM metadata''))
          else add_client_rings maps (Suc i) cls shm }"

text \<open>\<open>generate_hostshmem_cmdline\<close>: the text that goes to the file, if there is one.\<close>
definition generate_hostshmem_cmdline :: "u64 \<Rightarrow> hostshmem \<Rightarrow> string option option" where
  "generate_hostshmem_cmdline md_size shm =
     do { r \<leftarrow> rte_hostshmem_metadata_cmdline_generate md_size shm PATH_MAX (Some HOSTSHMEM_METADATA_NAME);
          Some (case r of Inl _ \<Rightarrow> None | Inr txt \<Rightarrow> Some txt) }"

definition init_hostshmem :: "('h, 'n) pri_env \<Rightarrow> nat \<Rightarrow> ('h, 'n) primary \<Rightarrow> ('h, 'n) primary exits option" where
  "init_hostshmem env mz s =
     (let nm = Some HOSTSHMEM_METADATA_NAME;
          maps = pe_maps env;
          (r, shm) = rte_hostshmem_metadata_create (pe_metadata_file env) (pe_hp_metadata_file env) (pe_old_metadata env)
                       ((pr_shm s)\<lparr>hs_memzone := memzone (pr_eal s)\<rparr>) nm
      in if r < 0 then Some (Inl ''Cannot create HOSTSHMEM metadata'')
         else do {
           (r, shm) \<leftarrow> rte_hostshmem_metadata_add_memzone maps shm (Some mz) nm;
           if r \<noteq> 0 then Some (Inl ''Cannot add memzone to HOSTSHMEM metadata'')
           else do {
             (r, shm) \<leftarrow> rte_hostshmem_metadata_add_mempool maps shm (pr_pktmbuf_pool s) (pool_ring (pr_eal s)) nm;
             if r \<noteq> 0 then Some (Inl ''Cannot add mbuf mempool to HOSTSHMEM metadata'')
             else do {
               r \<leftarrow> add_client_rings maps 0 (pr_clients s) shm;
               case r of
                 Inl m \<Rightarrow> Some (Inl m)
               | Inr shm \<Rightarrow> do {
                   txt \<leftarrow> generate_hostshmem_cmdline (pe_metadata_size env) shm;
                   Some (Inr (s\<lparr>pr_shm := shm, pr_cmdline := txt\<rparr>)) } } } })"

section \<open>The whole initialisation\<close>

text \<open>The shared table of ports: its zone, and its contents as the process starts.\<close>
definition init_port_info :: "('h, 'n) pri_env \<Rightarrow> ('h, 'n) primary \<Rightarrow> (nat \<times> ('h, 'n) primary) exits" where
  "init_port_info env s =
     (if pe_secondary env
      then (case rte_memzone_lookup (pr_eal s) MZ_PORT_INFO of
              None \<Rightarrow> Inl ''Cannot get port info structure''
            | Some mz \<Rightarrow> Inr (mz, s\<lparr>pr_args := (pr_args s)\<lparr>arg_ports := pe_shared_ports env\<rparr>\<rparr>))
      else (case rte_memzone_reserve (pe_ops env) (pr_eal s) MZ_PORT_INFO (pe_ports_size env) (pe_socket_id env) 0 of
              (None, e) \<Rightarrow> Inl ''Cannot reserve memory zone for port information''
            | (Some mz, e) \<Rightarrow> Inr (mz, s\<lparr>pr_eal := e, pr_args := (pr_args s)\<lparr>arg_ports := ports_0\<rparr>\<rparr>)))"

definition init_nics :: "('h, 'n) pri_env \<Rightarrow> ('h, 'n) primary \<Rightarrow> ('h, 'n) primary exits option" where
  "init_nics env s =
     (let ports = arg_ports (pr_args s) in
      do { r \<leftarrow> (if pe_secondary env then Some (Inr (pr_nics s))
                else init_ports (pe_nic env) (pr_pktmbuf_pool s) (pi_id ports) 0 (unat (pi_num_ports ports)) (pr_nics s));
           case r of
             Inl m \<Rightarrow> Some (Inl m)
           | Inr n \<Rightarrow> do {
               (out, waits, n) \<leftarrow> check_all_ports_link_status (pe_nic env) (pi_id ports) (unat (pi_num_ports ports)) (- 1) n;
               Some (Inr (s\<lparr>pr_nics := n\<rparr>)) } })"

text \<open>\<open>init\<close> on all arguments of the program.\<close>
definition init :: "('h, 'n) pri_env \<Rightarrow> string list \<Rightarrow> ('h, 'n) primary \<Rightarrow> (int \<times> ('h, 'n) primary) exits option" where
  "init env argv s =
     (if pe_eal_init env < 0 then Some (Inr (- 1, s))
      else case init_port_info env s of
        Inl m \<Rightarrow> Some (Inl m)
      | Inr (mz, s) \<Rightarrow> do {
          (retval, args) \<leftarrow> parse_app_args (pe_total_ports env) (drop (Suc (nat (pe_eal_init env))) argv) (pr_args s);
          let s = s\<lparr>pr_args := args\<rparr>;
          if retval \<noteq> 0 then Some (Inr (- 1, s))
          else do {
            r \<leftarrow> init_mbuf_pools env s;
            case r of
              Inl m \<Rightarrow> Some (Inl m)
            | Inr (retval, s) \<Rightarrow>
                if retval \<noteq> 0 then Some (Inl ''Cannot create needed mbuf pools'')
                else do {
                  r \<leftarrow> init_nics env s;
                  case r of
                    Inl m \<Rightarrow> Some (Inl m)
                  | Inr s \<Rightarrow> do {
                      r \<leftarrow> init_shm_rings env s;
                      case r of
                        Inl m \<Rightarrow> Some (Inl m)
                      | Inr s \<Rightarrow>
                          if pe_secondary env then Some (Inr (0, s))
                          else do {
                            r \<leftarrow> init_hostshmem env mz s;
                            Some (map_sum id (\<lambda>s. (0, s)) r) } } } } })"

section \<open>The wait for the links ends\<close>

lemma link_scan_prints: "map fst (fst (snd (link_scan nic m True ps n))) = filter (\<lambda>p. m AND push_bit (unat p) 1 \<noteq> 0) ps"
  by (induction ps arbitrary: n) (simp_all add: Let_def split_beta)

lemma link_rounds_result:
  assumes "cnt \<le> MAX_CHECK_TIME" and "print_flag \<or> cnt < MAX_CHECK_TIME"
    and "link_rounds nic m ps cnt print_flag n = (out, waits, n')"
  shows "map fst out = filter (\<lambda>p. m AND push_bit (unat p) 1 \<noteq> 0) ps \<and> waits \<le> MAX_CHECK_TIME - cnt"
  using assms
proof (induction nic m ps cnt print_flag n arbitrary: out waits n' rule: link_rounds.induct)
  case (1 nic m ps cnt print_flag n)
  obtain up o1 n1 where s: "link_scan nic m print_flag ps n = (up, o1, n1)" by (metis prod_cases3)
  note r = "1.prems"(3) [unfolded link_rounds.simps [of nic m ps cnt print_flag n] s, simplified "1.prems"(1)]
  consider "print_flag" | "\<not> print_flag" "up" | "\<not> print_flag" "\<not> up" by blast
  then show ?case
  proof cases
    case 1
    then show ?thesis using r s link_scan_prints [of nic m ps n] by simp
  next
    case 2
    then have "map fst out = filter (\<lambda>p. m AND push_bit (unat p) 1 \<noteq> 0) ps \<and> waits \<le> MAX_CHECK_TIME - (cnt + 1)"
      using "1.prems" r s by (intro "1.IH"(1) [OF _ s [symmetric] refl]) auto
    then show ?thesis by linarith
  next
    case 3
    obtain w where w: "link_rounds nic m ps (cnt + 1) (cnt = MAX_CHECK_TIME - 1) (rte_delay_ms nic CHECK_INTERVAL n1) = (out, w, n')"
      "waits = Suc w" using r 3 by (auto split: prod.splits)
    have c: "cnt < MAX_CHECK_TIME" using "1.prems"(2) 3(1) by simp
    have "map fst out = filter (\<lambda>p. m AND push_bit (unat p) 1 \<noteq> 0) ps \<and> w \<le> MAX_CHECK_TIME - (cnt + 1)"
      using c 3 w(1) by (intro "1.IH"(2) [OF _ s [symmetric] refl]) auto
    then show ?thesis using w(2) c by auto
  qed
qed

text \<open>
  C26. Waiting for the links ends: after at most 90 waits of 100 milliseconds the check reports the
  link of every port it was asked for, once and in the order of the table, whether the links
  come up or not.
\<close>
theorem link_check_reports:
  assumes "k \<le> length ids" and "\<forall>p\<in>set (take k ids). unat p < RTE_MAX_ETHPORTS"
  shows "\<exists>out waits n'. check_all_ports_link_status nic ids k (- 1) n = Some (out, waits, n')
    \<and> map fst out = take k ids \<and> waits \<le> MAX_CHECK_TIME"
proof -
  obtain out waits n' where r: "link_rounds nic (- 1) (take k ids) 0 False n = (out, waits, n')" by (metis prod_cases3)
  have "(- 1 :: u32) AND push_bit (unat p) 1 \<noteq> 0" if "unat p < RTE_MAX_ETHPORTS" for p :: u8
    using that by (simp add: RTE_MAX_ETHPORTS_def)
  then have "filter (\<lambda>p. (- 1 :: u32) AND push_bit (unat p) 1 \<noteq> 0) (take k ids) = take k ids"
    using assms(2) by (intro filter_True) blast
  moreover have "map fst out = filter (\<lambda>p. (- 1 :: u32) AND push_bit (unat p) 1 \<noteq> 0) (take k ids) \<and> waits \<le> MAX_CHECK_TIME - 0"
    using r by (intro link_rounds_result) (simp_all add: MAX_CHECK_TIME_def)
  ultimately show ?thesis using assms(1) r by (simp add: check_all_ports_link_status_def)
qed

definition nic_down :: "nat nic_ops" where
  "nic_down = \<lparr>rte_eth_dev_configure = (\<lambda>p r t n. (0, n)), rte_eth_rx_queue_setup = (\<lambda>p q k mp n. (0, n)),
     rte_eth_tx_queue_setup = (\<lambda>p q k n. (0, n)), rte_eth_promiscuous_enable = (\<lambda>p n. n), rte_eth_dev_start = (\<lambda>p n. (0, n)),
     rte_eth_link_get_nowait = (\<lambda>p n. (\<lparr>link_speed = 0, link_duplex = 0, link_status = 0\<rparr>, n)), rte_delay_ms = (\<lambda>k n. n + k)\<rparr>"

theorem link_check_reports_witness:
  "\<exists>out waits n'. check_all_ports_link_status nic_down [0, 3, 0] 2 (- 1) 7 = Some (out, waits, n')
    \<and> map fst out = [0, 3] \<and> waits \<le> MAX_CHECK_TIME"
  using link_check_reports [of 2 "[0, 3, 0]" nic_down 7] by (simp add: RTE_MAX_ETHPORTS_def)

section \<open>The rings of the clients are found\<close>

lemma rx_queue_names:
  assumes "i < 1000" and "j < 1000"
  shows "get_rx_queue_name (of_nat i) = get_rx_queue_name (of_nat j) \<longleftrightarrow> i = j"
proof -
  have "unat (of_nat k :: u32) = k" if "k < 1000" for k using that by (simp add: unsigned_of_nat take_bit_nat_eq_self)
  then show ?thesis using assms by (simp add: get_names take_show_nat_small show_nat_inj)
qed

text \<open>The ring of client \<open>i\<close> is at \<open>a\<close>: found under its name, empty, with room for 127 packets.\<close>
definition client_ring :: "('h \<Rightarrow> u64 set) \<Rightarrow> 'h pool_eal \<Rightarrow> nat \<Rightarrow> u64 \<Rightarrow> bool" where
  "client_ring live e i a \<longleftrightarrow> a \<noteq> 0 \<and> a \<in> live (malloc_heaps e)
     \<and> map_option fst (rte_ring_lookup e (get_rx_queue_name (of_nat i))) = Some a
     \<and> (\<exists>r. ring_at e a = Some r \<and> ring_inv r \<and> ring_list r = [] \<and> ring_cap r = 127)"

lemma ring_create_at:
  assumes "rte_ring_create ops mem e name cnt socket_id flags = (r, e')" and "mz_inv e" and "a \<noteq> r"
  shows "ring_at e' a = ring_at e a"
  using ring_create_cases [OF assms(1,2)] assms(3) by auto

lemma client_ring_made:
  assumes hl: "heap_live ops live" and pl: "pools_live live e" and i: "i < 1000"
    and create: "rte_ring_create ops mem e (get_rx_queue_name (of_nat i)) CLIENT_QUEUE_RINGSIZE socket_id flags = (r, e')"
  shows "pools_live live e'" and "pools_kept e e'"
    and "r \<noteq> 0 \<Longrightarrow> client_ring live e' i r \<and> r \<notin> live (malloc_heaps e)"
    and "j < 1000 \<Longrightarrow> j \<noteq> i \<Longrightarrow> client_ring live e j a \<Longrightarrow> r \<noteq> 0 \<Longrightarrow> client_ring live e' j a"
proof -
  have rl: "reg_live live e" using pl by (simp add: pools_live_def)
  have short: "length (get_rx_queue_name (of_nat i)) < RTE_RING_NAMESIZE"
    using get_rx_queue_name_length(1) [of "of_nat i"] by (simp add: RTE_RING_NAMESIZE_def)
  note c = ring_create_live [OF hl rl short create]
  show kept: "pools_kept e e'" by (rule ring_create_kept [OF create])
  show "pools_live live e'" using pl kept c(1,2) by (rule pools_kept_live)
  show "client_ring live e' i r \<and> r \<notin> live (malloc_heaps e)" if r: "r \<noteq> 0"
    using c(4) [OF r] c(5) [OF r] r by (auto simp: client_ring_def CLIENT_QUEUE_RINGSIZE_def)
  show "client_ring live e' j a" if j: "j < 1000" "j \<noteq> i" "client_ring live e j a" and r: "r \<noteq> 0"
  proof -
    have "a \<noteq> r" using c(5) [OF r] j(3) by (auto simp: client_ring_def)
    moreover have "mz_inv e" using rl by (simp add: reg_live_def reg_inv_def)
    ultimately have at: "ring_at e' a = ring_at e a" using ring_create_at [OF create] by blast
    have ne: "get_rx_queue_name (of_nat j) \<noteq> get_rx_queue_name (of_nat i)" using rx_queue_names [OF j(1) i] j(2) by simp
    show ?thesis using c(4) [OF r] c(2) j(3) at ne by (auto simp: client_ring_def)
  qed
qed

text \<open>The clients of \<open>J\<close> have their rings, and no two of them the same.\<close>
definition rings_ready :: "('h \<Rightarrow> u64 set) \<Rightarrow> 'h pool_eal \<Rightarrow> client list \<Rightarrow> nat set \<Rightarrow> bool" where
  "rings_ready live e cls J \<longleftrightarrow> (\<forall>j\<in>J. client_ring live e j (cl_rx_q (cls ! j))) \<and> inj_on (\<lambda>j. cl_rx_q (cls ! j)) J"

lemma shm_rings_made:
  assumes hl: "heap_live (pe_ops env) live" and pri: "\<not> pe_secondary env"
    and "pools_live live e" and "rings_ready live e cls J"
    and "distinct is" and "J \<inter> set is = {}" and "\<forall>i\<in>J \<union> set is. i < length cls" and "length cls < 1000"
  shows "\<exists>r e'. shm_rings_loop env is cls e = Some (r, e') \<and> pools_live live e' \<and> pools_kept e e'
    \<and> (\<forall>cls'. r = Inr cls' \<longrightarrow> length cls' = length cls \<and> rings_ready live e' cls' (J \<union> set is))"
  using assms(3-)
proof (induction "is" arbitrary: cls e J)
  case (Cons i "is")
  obtain r e1 where c: "rte_ring_create (pe_ops env) (pe_mem env) e (get_rx_queue_name (of_nat i)) CLIENT_QUEUE_RINGSIZE
      (pe_socket_id env) (RING_F_SP_ENQ OR RING_F_SC_DEQ) = (r, e1)" by fastforce
  have i: "i < length cls" "i < 1000" "i \<notin> J" using Cons.prems by auto
  note m = client_ring_made [OF hl Cons.prems(1) i(2) c]
  let ?cls = "cls[i := (cls ! i)\<lparr>cl_rx_q := r\<rparr>]"
  show ?case
  proof (cases "r = 0")
    case True
    then show ?thesis using c i m(1,2) pri by (simp add: aget_def aset_def)
  next
    case False
    have J: "j < 1000" "j \<noteq> i" "?cls ! j = cls ! j" if "j \<in> J" for j
    proof -
      have "j < length cls" using that Cons.prems(5) by simp
      then show "j < 1000" using Cons.prems(6) by simp
      show "j \<noteq> i" using that i(3) by blast
      then show "?cls ! j = cls ! j" by simp
    qed
    have "rings_ready live e1 ?cls (insert i J)"
      unfolding rings_ready_def
    proof (intro conjI ballI)
      fix j assume "j \<in> insert i J"
      then show "client_ring live e1 j (cl_rx_q (?cls ! j))"
        using m(3) [OF False] m(4) [of j] J [of j] i Cons.prems(2) False by (cases "j = i") (auto simp: rings_ready_def)
    next
      have "cl_rx_q (cls ! j) \<noteq> r" if "j \<in> J" for j
        using m(3) [OF False] Cons.prems(2) that by (auto simp: rings_ready_def client_ring_def)
      moreover have "inj_on (\<lambda>j. cl_rx_q (cls ! j)) J" using Cons.prems(2) by (simp add: rings_ready_def)
      then have "inj_on (\<lambda>j. cl_rx_q (?cls ! j)) J" using J(3) by (simp cong: inj_on_cong)
      ultimately show "inj_on (\<lambda>j. cl_rx_q (?cls ! j)) (insert i J)" using i J(3) by (auto simp: inj_on_insert)
    qed
    then have "\<exists>q e'. shm_rings_loop env is ?cls e1 = Some (q, e') \<and> pools_live live e' \<and> pools_kept e1 e'
        \<and> (\<forall>cls'. q = Inr cls' \<longrightarrow> length cls' = length ?cls \<and> rings_ready live e' cls' (insert i J \<union> set is))"
      using Cons.prems m(1) by (intro Cons.IH) auto
    then show ?thesis using c i False m(2) pri pools_kept_trans [of e e1] by (auto simp: aget_def aset_def)
  qed
qed auto

lemma shm_rings_ready:
  assumes "heap_live (pe_ops env) live" and "\<not> pe_secondary env" and "pools_live live (pr_eal s)"
  shows "\<exists>r. init_shm_rings env s = Some r \<and>
    (\<forall>s'. r = Inr s' \<longrightarrow> pools_live live (pr_eal s') \<and> pools_kept (pr_eal s) (pr_eal s')
      \<and> length (pr_clients s') = unat (num_clients (pr_args s))
      \<and> rings_ready live (pr_eal s') (pr_clients s') {..<unat (num_clients (pr_args s))})"
proof -
  let ?n = "unat (num_clients (pr_args s))"
  have n: "?n < 256" using unsigned_less [of "num_clients (pr_args s)", where ?'a = nat] by simp
  obtain a h where a: "rte_malloc (pe_ops env) (malloc_heaps (pr_eal s)) (pe_client_size env * of_nat ?n) = (a, h)" by fastforce
  let ?e = "(pr_eal s)\<lparr>malloc_heaps := h\<rparr>"
  note z = heap_live_zmalloc [OF assms(1) a [unfolded rte_malloc_def]]
  have rl: "reg_live live (pr_eal s)" using assms(3) by (simp add: pools_live_def)
  have "pools_live live ?e" using pools_kept_live [OF assms(3), of ?e] reg_live_heap [OF rl z(1)] z(1) by simp
  then have "\<exists>r e'. shm_rings_loop env [0..<?n] (map (pe_old_clients env) [0..<?n]) ?e = Some (r, e') \<and> pools_live live e' \<and> pools_kept ?e e'
      \<and> (\<forall>cls'. r = Inr cls' \<longrightarrow> length cls' = length (map (pe_old_clients env) [0..<?n])
          \<and> rings_ready live e' cls' ({} \<union> set [0..<?n]))"
    using n by (intro shm_rings_made [OF assms(1,2)]) (auto simp: rings_ready_def)
  then obtain r e' where r: "shm_rings_loop env [0..<?n] (map (pe_old_clients env) [0..<?n]) ?e = Some (r, e')"
    "pools_live live e'" "pools_kept ?e e'"
    "\<And>cls'. r = Inr cls' \<Longrightarrow> length cls' = ?n \<and> rings_ready live e' cls' {..<?n}"
    by (auto simp: lessThan_atLeast0)
  have "pools_kept (pr_eal s) e'" using r(3) by (simp add: pools_kept_def)
  then show ?thesis using r a by (cases r) (auto simp: init_shm_rings_def Let_def)
qed

text \<open>
  C14. The rings of the clients. In a shared memory whose rings and pools are well-formed,
  \<open>init_shm_rings\<close> of the primary process returns; unless it leaves the program with a message, it
  has made a ring for every client: the rings are empty, have room for 127 packets, no two
  clients have the same one, and each is found under the name that the client will ask for. The
  pools stay as they are.
\<close>
theorem shm_rings_created:
  assumes "heap_live (pe_ops env) live" and "\<not> pe_secondary env" and "pools_live live (pr_eal s)"
  shows "\<exists>r. init_shm_rings env s = Some r \<and>
    (\<forall>s'. r = Inr s' \<longrightarrow> pools_live live (pr_eal s') \<and> pools_kept (pr_eal s) (pr_eal s')
      \<and> length (pr_clients s') = unat (num_clients (pr_args s))
      \<and> rings_ready live (pr_eal s') (pr_clients s') {..<unat (num_clients (pr_args s))})"
  using assms by (rule shm_rings_ready)

text \<open>A secondary process takes over the rings it finds.\<close>
lemma shm_rings_found:
  assumes sec: "pe_secondary env" and "\<forall>i\<in>set is. i < length cls \<and> client_ring live e i (f i)" and "distinct is"
  shows "\<exists>cls'. shm_rings_loop env is cls e = Some (Inr cls', e) \<and> length cls' = length cls
    \<and> (\<forall>i\<in>set is. cl_rx_q (cls' ! i) = f i) \<and> (\<forall>i. i \<notin> set is \<longrightarrow> cls' ! i = cls ! i)"
  using assms(2,3)
proof (induction "is" arbitrary: cls)
  case (Cons i "is")
  have i: "i < length cls" "client_ring live e i (f i)" using Cons.prems by auto
  obtain e' where l: "rte_ring_lookup e (get_rx_queue_name (of_nat i)) = Some (f i, e')" "f i \<noteq> 0"
    using i(2) by (auto simp: client_ring_def)
  have "e' = e" using l by (auto simp: rte_ring_lookup_def bind_eq_Some_conv split: option.splits)
  let ?cls = "cls[i := (cls ! i)\<lparr>cl_rx_q := f i\<rparr>]"
  have "\<exists>cls'. shm_rings_loop env is ?cls e = Some (Inr cls', e) \<and> length cls' = length ?cls
      \<and> (\<forall>j\<in>set is. cl_rx_q (cls' ! j) = f j) \<and> (\<forall>j. j \<notin> set is \<longrightarrow> cls' ! j = ?cls ! j)"
    using Cons.prems by (intro Cons.IH) auto
  then obtain cls' where c: "shm_rings_loop env is ?cls e = Some (Inr cls', e)" "length cls' = length ?cls"
    "\<forall>j\<in>set is. cl_rx_q (cls' ! j) = f j" "\<forall>j. j \<notin> set is \<longrightarrow> cls' ! j = ?cls ! j" by blast
  have "cl_rx_q (cls' ! i) = f i" using c(4) Cons.prems(2) i(1) by auto
  then show ?case using c l i(1) sec \<open>e' = e\<close> by (intro exI [of _ cls']) (auto simp: aget_def aset_def)
qed simp

text \<open>
  Both processes see the same rings: when the primary process has made the rings of its clients
  and a secondary process runs \<open>init_shm_rings\<close> on the same shared memory for the same number of
  clients, and finds room for its own table, it succeeds and its clients have the rings of the
  primary process, in the same order.
\<close>
theorem shm_rings_agree:
  assumes "heap_live (pe_ops env) live" and "\<not> pe_secondary env" and "pools_live live (pr_eal s)"
    and "init_shm_rings env s = Some (Inr s1)"
    and "pe_secondary env2" and "pr_eal s2 = pr_eal s1" and "num_clients (pr_args s2) = num_clients (pr_args s)"
    and "heap_live (pe_ops env2) live"
    and "fst (rte_malloc (pe_ops env2) (malloc_heaps (pr_eal s2)) (pe_client_size env2 * of_nat (unat (num_clients (pr_args s2))))) \<noteq> 0"
  shows "\<exists>s3. init_shm_rings env2 s2 = Some (Inr s3) \<and> map cl_rx_q (pr_clients s3) = map cl_rx_q (pr_clients s1)"
proof -
  let ?n = "unat (num_clients (pr_args s))"
  have r: "length (pr_clients s1) = ?n" "rings_ready live (pr_eal s1) (pr_clients s1) {..<?n}"
    using shm_rings_ready [OF assms(1-3)] assms(4) by auto
  obtain a h where a: "rte_malloc (pe_ops env2) (malloc_heaps (pr_eal s2)) (pe_client_size env2 * of_nat ?n) = (a, h)" "a \<noteq> 0"
    using assms(7,9) by (metis fst_conv prod.collapse)
  let ?e = "(pr_eal s2)\<lparr>malloc_heaps := h\<rparr>"
  have sub: "live (malloc_heaps (pr_eal s2)) \<subseteq> live h"
    by (rule heap_live_zmalloc(1) [OF assms(8) a(1) [unfolded rte_malloc_def]])
  have "map_option fst (rte_ring_lookup ?e nm) = map_option fst (rte_ring_lookup (pr_eal s2) nm)" for nm
    by (simp add: lookup_result)
  then have "client_ring live ?e i (cl_rx_q (pr_clients s1 ! i))" if "i < ?n" for i
    using r(2) that sub assms(6) by (auto simp: rings_ready_def client_ring_def)
  then have "\<exists>cls'. shm_rings_loop env2 [0..<?n] (map (pe_old_clients env2) [0..<?n]) ?e = Some (Inr cls', ?e)
      \<and> length cls' = length (map (pe_old_clients env2) [0..<?n])
      \<and> (\<forall>i\<in>set [0..<?n]. cl_rx_q (cls' ! i) = cl_rx_q (pr_clients s1 ! i))
      \<and> (\<forall>i. i \<notin> set [0..<?n] \<longrightarrow> cls' ! i = map (pe_old_clients env2) [0..<?n] ! i)"
    by (intro shm_rings_found [OF assms(5), where live = live]) simp_all
  then obtain cls' where c: "shm_rings_loop env2 [0..<?n] (map (pe_old_clients env2) [0..<?n]) ?e = Some (Inr cls', ?e)"
    "length cls' = ?n" "\<forall>i<?n. cl_rx_q (cls' ! i) = cl_rx_q (pr_clients s1 ! i)" by auto
  have "map cl_rx_q cls' = map cl_rx_q (pr_clients s1)" using c(2,3) r(1) by (intro nth_equalityI) simp_all
  then show ?thesis using c(1) a assms(7) by (simp add: init_shm_rings_def Let_def)
qed

section \<open>A small process\<close>

definition client_0 :: client where
  "client_0 = \<lparr>cl_rx_q = 0, cl_client_id = 0, cl_stats_rx = 0, cl_stats_rx_drop = 0\<rparr>"

definition pri_env_0 :: "bool \<Rightarrow> (nat \<times> u64 list, nat) pri_env" where
  "pri_env_0 sec = \<lparr>pe_ops = fresh_ops, pe_machine = machine_0, pe_mem = (\<lambda>_. 0), pe_socket_id = 0, pe_secondary = sec,
     pe_eal_init = 0, pe_total_ports = 1, pe_ports_size = 9000, pe_client_size = 64, pe_shared_ports = ports_0,
     pe_old_clients = (\<lambda>_. client_0), pe_nic = nic_down, pe_maps = None, pe_metadata_file = (\<lambda>_. True),
     pe_hp_metadata_file = (\<lambda>_. True), pe_old_metadata = \<lparr>hm_magic_number = 0, hm_name = '''', hm_entry = []\<rparr>,
     pe_metadata_size = 0x200000\<rparr>"

definition primary_0 :: "(nat \<times> u64 list) pool_eal \<Rightarrow> (nat \<times> u64 list, nat) primary" where
  "primary_0 e = \<lparr>pr_eal = e, pr_args = args_0\<lparr>num_clients := 1\<rparr>, pr_pktmbuf_pool = 0, pr_clients = [], pr_nics = 0,
     pr_shm = \<lparr>hs_configs = [], hs_memzone = [], hs_ioremap = Map.empty\<rparr>, pr_cmdline = None\<rparr>"

lemma first_ring:
  "\<exists>s1. init_shm_rings (pri_env_0 False) (primary_0 pool_eal_0) = Some (Inr s1)
    \<and> malloc_heaps (pr_eal s1) = (0x100500, [0x100080, 0x100040, 0x100000])"
proof -
  let ?e = "pool_eal_0\<lparr>malloc_heaps := (0x100040, [0x100000])\<rparr>"
  let ?n = "snprintf_s RTE_MEMZONE_NAMESIZE (RTE_RING_MZ_PREFIX @ get_rx_queue_name 0)"
  have sz: "rte_ring_get_memsize 128 = 1152"
    by (simp add: rte_ring_get_memsize_def sizeof_rte_ring_def RTE_ALIGN_def POWEROF2_def ring_consts)
  have m: "rte_malloc fresh_ops (malloc_heaps pool_eal_0) 64 = (0x100000, (0x100040, [0x100000]))"
    using fresh_alloc_at [of 64 "0x100000" 64 "[]"] by (simp add: rte_malloc_def fresh_ops_def pool_eal_0_def)
  have te: "rte_zmalloc fresh_ops (0x100040, [0x100000]) sizeof_rte_tailq_entry = (0x100040, (0x100058, [0x100040, 0x100000]))"
    using fresh_alloc_at [of 64 "0x100040" 24 "[0x100000]"] by (simp add: fresh_ops_def sizeof_rte_tailq_entry_def)
  have ck: "memzone_check (?e\<lparr>malloc_heaps := h\<rparr>) ?n 1152 0 64 0 = Inr (1152, 1152, 64)" for h
    by (simp add: memzone_check_def memzone_lookup_thread_unsafe_def pool_eal_0_def scan_replicate null_memzone_def RTE_MAX_MEMZONE_def
        rte_is_power_of_2_def SOCKET_ID_ANY_def RTE_MAX_NUMA_NODES_def Let_def)
  have al: "memzone_heap_alloc fresh_ops (0x100058, [0x100040, 0x100000]) 1152 1152 0 0 64 0 =
      (0x100080, 1152, (0x100500, [0x100080, 0x100040, 0x100000]))"
    by (simp add: memzone_heap_alloc_def fresh_ops_def fresh_alloc_def Let_def RTE_ALIGN_def SOCKET_ID_ANY_def)
  have fr: "get_next_free_memzone (?e\<lparr>malloc_heaps := h\<rparr>) = Some 0" for h
    by (simp add: get_next_free_memzone_def pool_eal_0_def scan_replicate null_memzone_def RTE_MAX_MEMZONE_def)
  have len: "0 < length (memzone pool_eal_0)" by (simp add: pool_eal_0_def RTE_MAX_MEMZONE_def)
  have "\<exists>e1. rte_ring_create fresh_ops (\<lambda>_. 0) ?e (get_rx_queue_name 0) 128 0 (RING_F_SP_ENQ OR RING_F_SC_DEQ) = (0x100080, e1)
      \<and> malloc_heaps e1 = (0x100500, [0x100080, 0x100040, 0x100000])"
    using sz te ck fr al len
    by (simp add: rte_ring_create_def rte_memzone_reserve_def rte_memzone_reserve_thread_safe_def
        memzone_reserve_aligned_thread_unsafe_def RTE_CACHE_LINE_SIZE_def memzone_fill_def Let_def)
  then show ?thesis using m
    by (auto simp: init_shm_rings_def pri_env_0_def primary_0_def Let_def aget_def aset_def CLIENT_QUEUE_RINGSIZE_def)
qed

lemma pri_env_0_sel: "pe_ops (pri_env_0 sec) = fresh_ops" "pe_secondary (pri_env_0 sec) = sec" "pe_client_size (pri_env_0 sec) = 64"
  "pr_eal (primary_0 e) = e" "num_clients (pr_args (primary_0 e)) = 1"
  by (simp_all add: pri_env_0_def primary_0_def)

theorem shm_rings_created_witness:
  "\<exists>s1. init_shm_rings (pri_env_0 False) (primary_0 pool_eal_0) = Some (Inr s1)
    \<and> length (pr_clients s1) = 1 \<and> rings_ready (set \<circ> snd) (pr_eal s1) (pr_clients s1) {..<1}"
  using first_ring shm_rings_created [of "pri_env_0 False" "set \<circ> snd" "primary_0 pool_eal_0"] fresh_ops_ok(2) pool_eal_0_live
  by (auto simp: pri_env_0_sel)

theorem shm_rings_agree_witness:
  "\<exists>s1 s3. init_shm_rings (pri_env_0 False) (primary_0 pool_eal_0) = Some (Inr s1)
    \<and> init_shm_rings (pri_env_0 True) (primary_0 (pr_eal s1)) = Some (Inr s3)
    \<and> map cl_rx_q (pr_clients s3) = map cl_rx_q (pr_clients s1)"
proof -
  obtain s1 where s1: "init_shm_rings (pri_env_0 False) (primary_0 pool_eal_0) = Some (Inr s1)"
    "malloc_heaps (pr_eal s1) = (0x100500, [0x100080, 0x100040, 0x100000])" using first_ring by blast
  have "fst (rte_malloc fresh_ops (malloc_heaps (pr_eal s1)) 64) \<noteq> 0"
    using fresh_alloc_at [of 64 "0x100500" 64 "[0x100080, 0x100040, 0x100000]"] s1(2) by (simp add: rte_malloc_def fresh_ops_def)
  then show ?thesis
    using s1(1) shm_rings_agree [of "pri_env_0 False" "set \<circ> snd" "primary_0 pool_eal_0" s1 "pri_env_0 True" "primary_0 (pr_eal s1)"]
      fresh_ops_ok(2) pool_eal_0_live by (auto simp: pri_env_0_sel)
qed

end
