(* ===== verification/Spp_Lvl3.thy ===== *)
theory Spp_Lvl3
  imports Spp_Nfv Spp_Sec_Start Spp_Primary
begin

text \<open>
  The primary process \<open>pri_lvl3\<close> of a virtual machine: it takes the pool that the host shares with it, or
  makes one, starts its network cards, and forwards packets on the commands of the controller as
  the secondary processes of the host do. The forwarding loop is that of \<open>nfv_py\<close>, the patch command
  and \<open>add ring\<close> are those of \<open>sec_zerocpy\<close>. Of the variables of that program, \<^typ>\<open>('h, 'm, 'y) sec\<close>, this one
  has the table, the mode, the identifier and the devices; the others stay as they are.
\<close>

section \<open>Command line and start\<close>

text \<open>The options of \<open>pri_lvl1\<close>, none of them required.\<close>
definition lvl3_parse_app_args :: "u8 \<Rightarrow> string list \<Rightarrow> app_args \<Rightarrow> (int \<times> app_args) option" where
  "lvl3_parse_app_args max_ports args st = options_loop max_ports args st"

definition lvl3_init_mbuf_pools :: "('h, 'n) pri_env \<Rightarrow> ('h, 'n) primary \<Rightarrow> (int \<times> ('h, 'n) primary) option" where
  "lvl3_init_mbuf_pools env s =
     (let num_mbufs = ucast (num_clients (pr_args s)) * MBUFS_PER_CLIENT
                    + ucast (pi_num_ports (arg_ports (pr_args s))) * MBUFS_PER_PORT
      in do { (mp, e) \<leftarrow> pktpool_lookup (pr_eal s) LVL3_PKTMBUF_POOL_NAME;
              (mp, e) \<leftarrow> (if mp = 0
                 then rte_mempool_create (pe_ops env) (pe_machine env) (pe_mem env) e LVL3_PKTMBUF_POOL_NAME
                     num_mbufs MBUF_SIZE MBUF_CACHE_SIZE 4 (Some (\<lambda>mp. rte_pktmbuf_pool_init mp None)) (Some pktmbuf_ctor)
                     (pe_socket_id env) 0
                 else Some (mp, e));
              Some (if mp = 0 then 1 else 0, s\<lparr>pr_eal := e, pr_pktmbuf_pool := mp\<rparr>) })"

definition lvl3_init_port_info :: "('h, 'n) pri_env \<Rightarrow> ('h, 'n) primary \<Rightarrow> ('h, 'n) primary exits" where
  "lvl3_init_port_info env s =
     (if pe_secondary env
      then (case rte_memzone_lookup (pr_eal s) VM_MZ_PORT_INFO of
              None \<Rightarrow> Inl ''Cannot get port info structure''
            | Some mz \<Rightarrow> Inr (s\<lparr>pr_args := (pr_args s)\<lparr>arg_ports := pe_shared_ports env\<rparr>\<rparr>))
      else (case rte_memzone_reserve (pe_ops env) (pr_eal s) VM_MZ_PORT_INFO (pe_ports_size env) (pe_socket_id env) 0 of
              (None, e) \<Rightarrow> Inl ''Cannot reserve memory zone for port information''
            | (Some mz, e) \<Rightarrow> Inr (s\<lparr>pr_eal := e, pr_args := (pr_args s)\<lparr>arg_ports := ports_0\<rparr>\<rparr>)))"

text \<open>\<open>init\<close>; the network cards are started as in \<open>pri_lvl1\<close>.\<close>
definition lvl3_init :: "('h, 'n) pri_env \<Rightarrow> string list \<Rightarrow> ('h, 'n) primary \<Rightarrow> (int \<times> ('h, 'n) primary) exits option" where
  "lvl3_init env argv s =
     (if pe_eal_init env < 0 then Some (Inr (- 1, s))
      else case lvl3_init_port_info env s of
        Inl m \<Rightarrow> Some (Inl m)
      | Inr s \<Rightarrow> do {
          (retval, args) \<leftarrow> lvl3_parse_app_args (pe_total_ports env) (drop (Suc (nat (pe_eal_init env))) argv) (pr_args s);
          let s = s\<lparr>pr_args := args\<rparr>;
          if retval \<noteq> 0 then Some (Inr (- 1, s))
          else do {
            (retval, s) \<leftarrow> lvl3_init_mbuf_pools env s;
            if retval \<noteq> 0 then Some (Inl ''Cannot create needed mbuf pools'')
            else do {
              r \<leftarrow> init_nics env s;
              Some (map_sum id (\<lambda>s. (0, s)) r) } } })"

section \<open>State, forwarding and messages\<close>

record ('h, 'm, 'y) lvl3 =
  l3_sec :: "('h, 'm, 'y) sec"
  host_mp :: u64

text \<open>All ports are looked at, not only as many as there are devices.\<close>
definition lvl3_main_init :: "('h, 'm, 'y) lvl3 \<Rightarrow> ('h, 'm, 'y) lvl3 option" where
  "lvl3_main_init s =
     (let sc = l3_sec s
      in do { arr \<leftarrow> mark_phys (sec_eal sc) [0..<RTE_MAX_ETHPORTS] (forward_array_init (ports_fwd_array sc));
              Some (s\<lparr>l3_sec := sc\<lparr>ports_fwd_array := arr\<rparr>\<rparr>) })"

text \<open>One turn of the forwarding core.\<close>
definition lvl3_loop ::
  "(u64, 'y mbuf_store) drivers \<Rightarrow> mbuf_mem \<Rightarrow> nat \<Rightarrow> u64 \<Rightarrow> ('h, u64, 'y mbuf_store) lvl3 \<Rightarrow> ('h, u64, 'y mbuf_store) lvl3 option" where
  "lvl3_loop oth g lcore z s =
     (let sc = l3_sec s
      in if cmd sc = STOP then Some s
         else if cmd sc = FORWARD
         then do { e \<leftarrow> nfv_forward oth g lcore z (ports_fwd_array sc) (sec_eal sc); Some (s\<lparr>l3_sec := sc\<lparr>sec_eal := e\<rparr>\<rparr>) }
         else Some s)"

text \<open>The report is written over the message, without clearing it.\<close>
definition lvl3_status :: "('h, 'm, 'y) lvl3 \<Rightarrow> string \<Rightarrow> string option" where
  "lvl3_status s buf =
     (let sc = l3_sec s
      in do { str \<leftarrow> sprintf_at buf 0
                (''Client ID '' @ show_nat (unat (client_id sc)) @ (if cmd sc = START then '' Running\<newline>'' else '' Idling\<newline>''));
              print_active_ports (client_id sc) (ports_fwd_array sc) str })"

definition host_pool_name :: string where "host_pool_name = ''MProc_pktmbuf_pool''"

definition lvl3_add ::
  "('h, 'm, 'y) sec_env \<Rightarrow> ('h, 'm, 'y) lvl3 \<Rightarrow> string \<Rightarrow> nat option list \<Rightarrow> ('h, 'm, 'y) lvl3 outcome option" where
  "lvl3_add env s buf tk =
     do { w \<leftarrow> tok_str buf tk 1;
          if w = ''ring'' then map_option (map_outcome (\<lambda>sc. s\<lparr>l3_sec := sc\<rparr>)) (cmd_add_ring env (l3_sec s) buf tk)
          else if strncmp_eq w ''pool'' 4
          then do {
            (mp, e) \<leftarrow> rte_mempool_lookup (sec_eal (l3_sec s)) host_pool_name;
            let s = s\<lparr>host_mp := mp, l3_sec := (l3_sec s)\<lparr>sec_eal := e\<rparr>\<rparr>;
            if mp = 0 then Some (Exit ''Cannot get mempool for mbufs'' s) else Some (Reply s buf) }
          else Some (Reply s buf) }"

definition lvl3_dispatch ::
  "('h, 'm, 'y) sec_env \<Rightarrow> ('h, 'm, 'y) lvl3 \<Rightarrow> string \<Rightarrow> nat option list \<Rightarrow> ('h, 'm, 'y) lvl3 outcome option" where
  "lvl3_dispatch env s buf tk =
     (let mode = (\<lambda>c. s\<lparr>l3_sec := (l3_sec s)\<lparr>cmd := c\<rparr>\<rparr>)
      in do { w \<leftarrow> tok_str buf tk 0;
              buf \<leftarrow> (if w = ''status'' then lvl3_status s buf else Some buf);
              w \<leftarrow> tok_str buf tk 0;
              if w = ''exit'' then Some (Leave (mode STOP))
              else if w = ''start'' then Some (Reply (mode START) buf)
              else if w = ''stop'' then Some (Reply (mode STOP) buf)
              else if w = ''forward'' then Some (Reply (mode FORWARD) buf)
              else if strncmp_eq w ''add'' 3 then lvl3_add env s buf tk
              else if w = ''patch'' then map_option (map_outcome (\<lambda>sc. s\<lparr>l3_sec := sc\<rparr>)) (cmd_patch (l3_sec s) buf tk)
              else Some (Reply s buf) })"

definition lvl3_message :: "('h, 'm, 'y) sec_env \<Rightarrow> ('h, 'm, 'y) lvl3 \<Rightarrow> string \<Rightarrow> ('h, 'm, 'y) lvl3 outcome option" where
  "lvl3_message env s str = do { (buf, tk) \<leftarrow> tokens str; lvl3_dispatch env s buf tk }"

text \<open>One turn of the control loop; \<open>server_ip\<close> is null when the option was not given.\<close>
definition lvl3_turn ::
  "('h, 'm, 'y) sec_env \<Rightarrow> app_args \<Rightarrow> ('h, 'm, 'y) lvl3 \<Rightarrow> int \<Rightarrow> bool \<Rightarrow> net_io \<Rightarrow> ('h, 'm, 'y) lvl3 turn option" where
  "lvl3_turn env a s sock connected io =
     (if \<not> connected \<and> sock < 0 \<and> io_socket io < 0 then Some (Finished 1 s)
      else if \<not> connected \<and> sock < 0 \<and> server_ip a = None then None
      else
        let sock = (if \<not> connected \<and> sock < 0 then io_socket io else sock);
            (t, data) = io_recv io
        in if \<not> connected \<and> io_connect io < 0 then Some (Next s sock False)
           else if t > 0
           then do {
             out \<leftarrow> lvl3_message env s (msg_buf (take (nat t) data));
             case out of
               Leave s \<Rightarrow> Some (Finished 0 s)
             | Exit m s \<Rightarrow> Some (Finished 1 s)
             | Reply s str \<Rightarrow> if io_send io = - 1 then Some (Next s sock False) else Some (Next s sock True) }
           else Some (Next s SOCK_RESET False))"

section \<open>Start\<close>

lemma lvl3_main_init_ok:
  assumes "sec_globals (l3_sec s)" and "nfv_inv d (sec_eal (l3_sec s)) {#}"
  shows "\<exists>s0. lvl3_main_init s = Some s0 \<and> nfv_ok oth d (inside (d \<circ> st_dev) (sec_eal (l3_sec s))) (l3_sec s0)
    \<and> active_patches (ports_fwd_array (l3_sec s0)) = []
    \<and> (\<forall>i<RTE_MAX_ETHPORTS. port_status (ports_fwd_array (l3_sec s0) ! i) =
        (if rte_eth_dev_is_valid_port (sec_eal (l3_sec s)) (of_nat i)
            \<and> rte_eth_dev_get_device_type (sec_eal (l3_sec s)) (of_nat i) = RTE_ETH_DEV_PCI then int i else - 99))"
proof -
  let ?s = "l3_sec s" and ?n = RTE_MAX_ETHPORTS
  let ?a = "forward_array_init (ports_fwd_array ?s)"
  have l: "length (ports_fwd_array ?s) = ?n" using assms(1) by (simp add: sec_globals_def)
  then have "length ?a = ?n" by (simp add: forward_array_init_def)
  then obtain arr where a: "mark_phys (sec_eal ?s) [0..<?n] ?a = Some arr" "length arr = ?n"
    "\<forall>i<?n. arr ! i = (if i \<in> set [0..<?n] \<and> rte_eth_dev_is_valid_port (sec_eal ?s) (of_nat i)
        \<and> rte_eth_dev_get_device_type (sec_eal ?s) (of_nat i) = RTE_ETH_DEV_PCI
      then (?a ! i)\<lparr>port_status := int i, port_kind := PHY\<rparr> else ?a ! i)"
    using mark_phys_result [of "[0..<?n]" ?a "sec_eal ?s"] by auto
  have out: "\<forall>i<?n. port_out_port_id (arr ! i) = - 99" using a(3) l by (simp add: forward_array_init_def)
  have no: "active_patches arr = []" using a(2) out by (auto simp: active_patches_def filter_empty_conv in_set_enumerate_eq)
  have "table_ok arr" using a(2) out by (auto simp: table_ok_def patch_ok_def list_all_length)
  then have "sec_inv (?s\<lparr>ports_fwd_array := arr\<rparr>)" using assms(1) by (simp add: sec_inv_def sec_globals_def)
  then show ?thesis using a(1,3) no assms(2) l by (auto simp: lvl3_main_init_def nfv_ok_def forward_array_init_def)
qed

section \<open>Messages keep the invariant\<close>

lemma length_lvl3_status: "lvl3_status s buf = Some buf' \<Longrightarrow> length buf' = length buf"
  by (auto simp: lvl3_status_def Let_def print_active_ports_def dest!: length_print_active length_sprintf_at split: bind_splits)

lemma map_outcome_Reply: "map_outcome f x = Reply s r \<longleftrightarrow> (\<exists>s0. x = Reply s0 r \<and> s = f s0)"
  by (cases x) auto

text \<open>What a command does to the variables it shares with \<open>sec_zerocpy\<close>.\<close>
lemma lvl3_dispatch_cases:
  assumes "lvl3_dispatch env s buf tk = Some (Reply s' r)"
  obtains (same) "sec_eal (l3_sec s') = sec_eal (l3_sec s)" "\<exists>c\<in>{cmd (l3_sec s), STOP, START, FORWARD}. l3_sec s' = (l3_sec s)\<lparr>cmd := c\<rparr>"
      "length r = length buf"
  | (ring) b where "cmd_add_ring env (l3_sec s) b tk = Some (Reply (l3_sec s') r)" "length b = length buf"
  | (pool) a e where "rte_mempool_lookup (sec_eal (l3_sec s)) host_pool_name = Some (a, e)" "l3_sec s' = (l3_sec s)\<lparr>sec_eal := e\<rparr>"
      "length r = length buf"
  | (patch) b where "cmd_patch (l3_sec s) b tk = Some (Reply (l3_sec s') r)" "length b = length buf"
proof -
  obtain w b where t: "tok_str buf tk 0 = Some w" "(if w = ''status'' then lvl3_status s buf else Some buf) = Some b"
    using assms by (auto simp: lvl3_dispatch_def Let_def split: bind_splits)
  have len: "length b = length buf" using t(2) length_lvl3_status by (auto split: if_splits)
  note step = lvl3_dispatch_def Let_def t(1) t(2) Option.bind.simps
  show ?thesis
    using assms len unfolding step
    by (auto simp: lvl3_add_def Let_def map_outcome_Reply split: bind_splits if_splits intro: that) (rule that(3); simp)
qed

lemma lvl3_message_ok:
  assumes "lvl3_message env s str = Some (Reply s' r)" and "length str = MSG_SIZE" and "sec_inv (l3_sec s)"
    and "nfv_inv d (sec_eal (l3_sec s)) {#}"
  shows "sec_inv (l3_sec s') \<and> nfv_inv d (sec_eal (l3_sec s')) {#} \<and> length r = MSG_SIZE
    \<and> inside (d \<circ> st_dev) (sec_eal (l3_sec s')) = inside (d \<circ> st_dev) (sec_eal (l3_sec s))"
proof -
  obtain buf tk where t: "tokens str = Some (buf, tk)" "lvl3_dispatch env s buf tk = Some (Reply s' r)"
    using assms(1) by (auto simp: lvl3_message_def split: bind_splits)
  have len: "length buf = MSG_SIZE" using length_tokenize t(1) assms(2) unfolding tokens_def by fastforce
  have e: "eth_inv (sec_eal (l3_sec s))" using assms(4) by (simp add: nfv_inv_def world_inv_def)
  note kept = eal_same_nfv [OF _ assms(4)]
  from t(2) show ?thesis
  proof (cases rule: lvl3_dispatch_cases)
    case same
    then show ?thesis using assms(3,4) len by (auto simp: sec_inv_def)
  next
    case (ring b)
    then show ?thesis using cmd_add_ring_keeps [OF assms(3)] kept [OF cmd_add_ring_same [OF _ e]] len by (fastforce simp: keeps_def)
  next
    case (pool a e)
    then show ?thesis using kept [OF eal_same_mempool_lookup] assms(3) len by (fastforce simp: keeps_def)
  next
    case (patch b)
    then show ?thesis using cmd_patch_keeps [OF assms(3)] cmds_same_eal(1) assms(4) len by (fastforce simp: keeps_def)
  qed
qed

section \<open>The whole process\<close>

inductive lvl3_step ::
  "('h, u64, 'y mbuf_store) sec_env \<Rightarrow> (u64, 'y mbuf_store) drivers \<Rightarrow> ('y \<Rightarrow> u64 multiset) \<Rightarrow> mbuf_mem \<Rightarrow> nat \<Rightarrow> u64 \<Rightarrow>
     ('h, u64, 'y mbuf_store) lvl3 \<Rightarrow> ('h, u64, 'y mbuf_store) lvl3 \<Rightarrow> bool"
  for env oth d g lcore z where
  message: "\<lbrakk> length str = MSG_SIZE; lvl3_message env s str = Some (Reply s' r);
              nfv_patches_up oth d (sec_eal (l3_sec s')) (ports_fwd_array (l3_sec s')) \<rbrakk> \<Longrightarrow> lvl3_step env oth d g lcore z s s'"
| turn: "lvl3_loop oth g lcore z s = Some s' \<Longrightarrow> lvl3_step env oth d g lcore z s s'"

lemma lvl3_turn_ok:
  assumes "nfv_ok oth d T (l3_sec s)"
  shows "\<exists>s'. lvl3_loop oth g lcore z s = Some s' \<and> nfv_ok oth d T (l3_sec s')"
proof (cases "cmd (l3_sec s) = FORWARD")
  case True
  obtain e where "nfv_forward oth g lcore z (ports_fwd_array (l3_sec s)) (sec_eal (l3_sec s)) = Some e" "nfv_inv d e {#}"
    "inside (d \<circ> st_dev) e = T" "nfv_up oth d e = nfv_up oth d (sec_eal (l3_sec s))"
    using nfv_forward_ok [of d "sec_eal (l3_sec s)" "{#}" "ports_fwd_array (l3_sec s)" oth g lcore z] assms
    by (auto simp: nfv_ok_def sec_inv_def)
  then show ?thesis using True assms by (simp add: lvl3_loop_def nfv_ok_def)
next
  case False
  then show ?thesis using assms by (simp add: lvl3_loop_def Let_def)
qed

lemma lvl3_reachable_ok:
  assumes "(lvl3_step env oth d g lcore z)\<^sup>*\<^sup>* s s'" and "nfv_ok oth d T (l3_sec s)"
  shows "nfv_ok oth d T (l3_sec s')"
  using assms
proof (induction rule: rtranclp_induct)
  case (step s1 s2)
  from step.hyps(2) show ?case
  proof cases
    case (message str r)
    then show ?thesis using lvl3_message_ok [OF message(2,1)] step.IH [OF step.prems] by (auto simp: nfv_ok_def)
  next
    case turn
    then show ?thesis using lvl3_turn_ok [OF step.IH [OF step.prems], of g lcore z] by auto
  qed
qed

text \<open>A turn of the control loop that goes on is at most one message.\<close>
lemma lvl3_turn_step:
  assumes "lvl3_turn env a s sock connected io = Some (Next s' sock' connected')" and "recv_ok io"
    and "nfv_patches_up oth d (sec_eal (l3_sec s')) (ports_fwd_array (l3_sec s'))"
  shows "(lvl3_step env oth d g lcore z)\<^sup>*\<^sup>* s s'"
proof -
  have len: "length (msg_buf (take k (snd (io_recv io)))) = MSG_SIZE" for k using assms(2) by (simp add: msg_buf_def recv_ok_def)
  have "s' = s \<or> (\<exists>k r. lvl3_message env s (msg_buf (take k (snd (io_recv io)))) = Some (Reply s' r))"
    using assms(1) by (auto simp: lvl3_turn_def Let_def split_beta split: if_splits bind_splits outcome.splits)
  then show ?thesis using lvl3_step.message [OF len _ assms(3)] by blast
qed

text \<open>
  Without \<open>-s\<close> the first socket ends in a null pointer; without \<open>-p\<close> and \<open>-n\<close>, which the parser does not ask for, and
  without a pool of the host there is no pool, since one with no buffers is smaller than its cache.
\<close>
lemma lvl3_turn_null: "\<not> connected \<Longrightarrow> sock < 0 \<Longrightarrow> 0 \<le> io_socket io \<Longrightarrow> server_ip a = None \<Longrightarrow> lvl3_turn env a s sock connected io = None"
  by (simp add: lvl3_turn_def)

lemma lvl3_no_options:
  assumes "0 \<le> pe_eal_init env" and "drop (Suc (nat (pe_eal_init env))) argv = []" and "\<not> pe_secondary env"
    and "lvl3_init_port_info env s = Inr s1" and "num_clients (pr_args s) = 0"
    and "pktpool_lookup (pr_eal s1) LVL3_PKTMBUF_POOL_NAME = Some (0, e)"
  shows "lvl3_init env argv s = Some (Inl ''Cannot create needed mbuf pools'')"
proof -
  have "num_clients (pr_args s1) = 0" "pi_num_ports (arg_ports (pr_args s1)) = 0"
    using assms(3-5) by (auto simp: lvl3_init_port_info_def ports_0_def split: prod.splits option.splits)
  then have "lvl3_init_mbuf_pools env s1 = Some (1, s1\<lparr>pr_eal := e\<lparr>rte_errno := EINVAL\<rparr>, pr_pktmbuf_pool := 0\<rparr>)"
    using assms(6) by (simp add: lvl3_init_mbuf_pools_def rte_mempool_create_def rte_mempool_xmem_create_def pool_args_ok_def
        MBUF_CACHE_SIZE_def CALC_CACHE_FLUSHTHRESH_def)
  moreover have "options_loop (pe_total_ports env) [] (pr_args s1) = Some (0, pr_args s1)" by (simp add: options_loop.simps)
  ultimately show ?thesis using assms(1,2,4) by (simp add: lvl3_init_def lvl3_parse_app_args_def)
qed

section \<open>Properties\<close>

text \<open>
  C9. The process \<open>pri_lvl3\<close> from its start on: the forwarding table is set up, nothing is patched and
  exactly the network cards are active; and in every state that messages and forwarding turns then reach
  in any order, while the operator patches only ports in service, the table is well-formed, exactly
  the buffers of the start are in rings, pools and devices, and the next forwarding turn returns.
\<close>
theorem lvl3_safe:
  assumes "sec_globals (l3_sec s)" and "nfv_inv d (sec_eal (l3_sec s)) {#}"
  shows "\<exists>s0. lvl3_main_init s = Some s0 \<and> active_patches (ports_fwd_array (l3_sec s0)) = []
    \<and> (\<forall>i<RTE_MAX_ETHPORTS. port_status (ports_fwd_array (l3_sec s0) ! i) =
        (if rte_eth_dev_is_valid_port (sec_eal (l3_sec s)) (of_nat i)
            \<and> rte_eth_dev_get_device_type (sec_eal (l3_sec s)) (of_nat i) = RTE_ETH_DEV_PCI then int i else - 99))
    \<and> (\<forall>s'. (lvl3_step env oth d g lcore z)\<^sup>*\<^sup>* s0 s' \<longrightarrow>
        nfv_ok oth d (inside (d \<circ> st_dev) (sec_eal (l3_sec s))) (l3_sec s') \<and> (\<exists>s''. lvl3_loop oth g lcore z s' = Some s''))"
proof -
  obtain s0 where s0: "lvl3_main_init s = Some s0" "nfv_ok oth d (inside (d \<circ> st_dev) (sec_eal (l3_sec s))) (l3_sec s0)"
    "active_patches (ports_fwd_array (l3_sec s0)) = []"
    "\<forall>i<RTE_MAX_ETHPORTS. port_status (ports_fwd_array (l3_sec s0) ! i) =
        (if rte_eth_dev_is_valid_port (sec_eal (l3_sec s)) (of_nat i)
            \<and> rte_eth_dev_get_device_type (sec_eal (l3_sec s)) (of_nat i) = RTE_ETH_DEV_PCI then int i else - 99)"
    using lvl3_main_init_ok [OF assms] by blast
  then show ?thesis using lvl3_reachable_ok [OF _ s0(2)] lvl3_turn_ok by blast
qed

text \<open>The variables of a process with two ring ports and a card.\<close>
definition lvl3_0 :: "(u64, u64, unit mbuf_store) lvl3" where
  "lvl3_0 = \<lparr>l3_sec = nfv_sec\<lparr>cmd := STOP\<rparr>, host_mp = 0\<rparr>"

theorem lvl3_safe_witness:
  "\<exists>s0. lvl3_main_init lvl3_0 = Some s0 \<and> active_patches (ports_fwd_array (l3_sec s0)) = []
    \<and> port_status (ports_fwd_array (l3_sec s0) ! 2) = 2 \<and> port_status (ports_fwd_array (l3_sec s0) ! 0) = - 99
    \<and> nfv_ok idle_nic (\<lambda>_. {#}) {#0x20000#} (l3_sec s0) \<and> (\<exists>s''. lvl3_loop idle_nic mem_3 1 0 s0 = Some s'')"
proof -
  have e: "sec_eal (l3_sec lvl3_0) = nfv_panel" by (simp add: lvl3_0_def nfv_sec_def)
  have g: "sec_globals (l3_sec lvl3_0)" "nfv_inv (\<lambda>_. {#}) (sec_eal (l3_sec lvl3_0)) {#}"
    using panel_table_ok nfv_panel_inv by (simp_all add: e) (simp add: lvl3_0_def sec_globals_def nfv_sec_def table_ok_def RTE_MAX_ETHPORTS_def)
  have "inside ((\<lambda>_. {#}) \<circ> st_dev) nfv_panel = {#0x20000#}" using nfv_panel_rings by (simp add: inside_def comp_def)
  moreover have "rte_eth_dev_is_valid_port nfv_panel 2" "rte_eth_dev_get_device_type nfv_panel 2 = RTE_ETH_DEV_PCI"
    "rte_eth_dev_get_device_type nfv_panel 0 \<noteq> RTE_ETH_DEV_PCI"
    by (simp_all add: rte_eth_dev_is_valid_port_def rte_eth_dev_get_device_type_def nfv_panel_def nic_dev_def ring_dev_def RTE_MAX_ETHPORTS_def)
  moreover have "(2::nat) < RTE_MAX_ETHPORTS" "0 < RTE_MAX_ETHPORTS" by (simp_all add: RTE_MAX_ETHPORTS_def)
  ultimately show ?thesis using lvl3_safe [OF g, of nfv_env idle_nic mem_3 1 0] unfolding e by fastforce
qed

end
