(* ===== verification/Rte_Eth_Vhost_Ops.thy ===== *)
theory Rte_Eth_Vhost_Ops
  imports Rte_Eth_Vhost
begin

text \<open>
  The other operations of the vhost driver (\<open>rte_eth_vhost.c\<close>): the device operations behind
  \<open>eth_dev_ops\<close>, a port out of the arguments of the EAL, and the start of the session thread. Shown is
  the life of a port: a guest connects, leaves, another one connects, and the port is removed.
\<close>

section \<open>Device operations\<close>

definition drivername :: string where "drivername = ''VHOST PMD''"

definition vhost_dev_configure :: "('h, 'm, 'w) vhost_eal \<Rightarrow> nat \<Rightarrow> int \<times> ('h, 'm, 'w) vhost_eal" where
  "vhost_dev_configure e p = (0, e)"

text \<open>\<^term>\<open>None\<close>: the port has no private data of this driver.\<close>
definition vhost_dev_start :: "('h, 'w) vhost_env \<Rightarrow> ('h, 'm, 'w) vhost_eal \<Rightarrow> nat \<Rightarrow> (int \<times> ('h, 'm, 'w) vhost_eal) option" where
  "vhost_dev_start env e p =
     do { a \<leftarrow> vh_dev_private (vh e) p;
          ints \<leftarrow> vh_internal_at (vh e) a;
          let (ret, w) = ve_register env (pi_iface_name ints) (vh_lib (vh e));
          Some (ret, upd_vh (\<lambda>v. v\<lparr>vh_lib := w\<rparr>) e) }"

definition vhost_dev_stop :: "('h, 'w) vhost_env \<Rightarrow> ('h, 'm, 'w) vhost_eal \<Rightarrow> nat \<Rightarrow> ('h, 'm, 'w) vhost_eal option" where
  "vhost_dev_stop env e p =
     do { a \<leftarrow> vh_dev_private (vh e) p;
          ints \<leftarrow> vh_internal_at (vh e) a;
          Some (upd_vh (\<lambda>v. v\<lparr>vh_lib := ve_unregister env (pi_iface_name ints) (vh_lib v)\<rparr>) e) }"

text \<open>Neither function compares the queue number with the size of an array.\<close>
definition vhost_rx_queue_setup ::
  "('h, 'm, 'w) vhost_eal \<Rightarrow> nat \<Rightarrow> u16 \<Rightarrow> u64 \<Rightarrow> (int \<times> ('h, 'm, 'w) vhost_eal) option" where
  "vhost_rx_queue_setup e p rx_queue_id mb_pool =
     do { a \<leftarrow> vh_dev_private (vh e) p;
          ints \<leftarrow> vh_internal_at (vh e) a;
          q \<leftarrow> aget (pi_rx_queues ints) (unat rx_queue_id);
          rxq \<leftarrow> aset (pi_rx_queues ints) (unat rx_queue_id) (q\<lparr>vhq_mb_pool := mb_pool\<rparr>);
          qs \<leftarrow> aset (dd_rx_queues (dev_data (rte_eth_devices e ! p))) (unat rx_queue_id) (Some (unat rx_queue_id));
          Some (0, upd_vh (\<lambda>v. v\<lparr>vh_internal_at := (vh_internal_at v)(a \<mapsto> ints\<lparr>pi_rx_queues := rxq\<rparr>)\<rparr>)
                 (upd_dev e p (\<lambda>d. d\<lparr>dev_data := (dev_data d)\<lparr>dd_rx_queues := qs\<rparr>\<rparr>))) }"

definition vhost_tx_queue_setup :: "('h, 'm, 'w) vhost_eal \<Rightarrow> nat \<Rightarrow> u16 \<Rightarrow> (int \<times> ('h, 'm, 'w) vhost_eal) option" where
  "vhost_tx_queue_setup e p tx_queue_id =
     do { a \<leftarrow> vh_dev_private (vh e) p;
          ints \<leftarrow> vh_internal_at (vh e) a;
          q \<leftarrow> aget (pi_tx_queues ints) (unat tx_queue_id);
          qs \<leftarrow> aset (dd_tx_queues (dev_data (rte_eth_devices e ! p))) (unat tx_queue_id) (Some (unat tx_queue_id));
          Some (0, upd_dev e p (\<lambda>d. d\<lparr>dev_data := (dev_data d)\<lparr>dd_tx_queues := qs\<rparr>\<rparr>)) }"

definition vhost_dev_info :: "pmd_internal \<Rightarrow> rte_eth_dev_info" where
  "vhost_dev_info ints = \<lparr>driver_name = drivername, max_mac_addrs = 1, max_rx_pktlen = - 1,
     max_rx_queues = ucast (pi_nb_rx_queues ints), max_tx_queues = ucast (pi_nb_tx_queues ints), min_rx_bufsize = 0\<rparr>"

section \<open>The session thread\<close>

text \<open>
  The thread that receives the callbacks: \<open>cb\<close> is what registering them returns. \<open>Inl\<close> is
  the end of the process; when the library returns, the table of callbacks is freed.
\<close>
definition vhost_driver_session :: "'h heap_ops \<Rightarrow> int \<Rightarrow> 'h \<Rightarrow> string + 'h" where
  "vhost_driver_session ops cb h =
     (let (vhost_ops, h) = rte_zmalloc ops h 16
      in if vhost_ops = 0 then Inl ''Can't allocate memory''
         else if cb < 0 then Inl ''Can't register callbacks''
         else Inr (rte_free ops h vhost_ops))"

definition vhost_driver_session_start :: "int \<Rightarrow> string + unit" where
  "vhost_driver_session_start ret = (if ret \<noteq> 0 then Inl ''Can't create a thread'' else Inr ())"

section \<open>A port from arguments\<close>

definition open_iface :: "string option \<Rightarrow> int \<times> string option" where
  "open_iface value = (case value of None \<Rightarrow> (- 1, None) | Some s \<Rightarrow> (0, Some s))"

text \<open>Digits to the base 8.\<close>
definition oct_num :: "string \<Rightarrow> nat" where
  "oct_num ds = foldl (\<lambda>v c. 8 * v + digit_val c) 0 ds"

text \<open>Whether \<open>strtol\<close> with base 0 sets \<open>errno\<close> to \<open>ERANGE\<close>.\<close>
definition strtol0_range :: "string \<Rightarrow> bool" where
  "strtol0_range s =
     (let (neg, u) = sign_split (dropWhile is_space s);
          v = (case u of
                 c0 # c1 # c2 # cs \<Rightarrow>
                   if c0 = CHR ''0'' \<and> (c1 = CHR ''x'' \<or> c1 = CHR ''X'') \<and> is_hex c2 then hex_num (takeWhile is_hex (c2 # cs))
                   else if c0 = CHR ''0'' then oct_num (takeWhile (\<lambda>c. is_digit c \<and> digit_val c < 8) u)
                   else dec_val (takeWhile is_digit u)
               | c0 # cs \<Rightarrow>
                   if c0 = CHR ''0'' then oct_num (takeWhile (\<lambda>c. is_digit c \<and> digit_val c < 8) u)
                   else dec_val (takeWhile is_digit u)
               | [] \<Rightarrow> 0)
      in if neg then v > 2 ^ 63 else v > 2 ^ 63 - 1)"

text \<open>
  The parser of \<open>librte_kvargs\<close> is a parameter: the values of the key \<open>iface\<close>, \<^term>\<open>None\<close> when the
  arguments are not valid. \<open>errno\<close> is not cleared before, so that an old \<open>ERANGE\<close> counts. The
  result of making the port is dropped.
\<close>
definition rte_pmd_vhost_devinit ::
  "(string option \<Rightarrow> string option list option) \<Rightarrow> ('h, 'w) vhost_env \<Rightarrow> bool \<Rightarrow> string \<Rightarrow> string option \<Rightarrow>
     ('h, 'm, 'w) vhost_eal \<Rightarrow> int \<times> ('h, 'm, 'w) vhost_eal" where
  "rte_pmd_vhost_devinit kvargs env erange name params e =
     (case kvargs params of
        None \<Rightarrow> (- 1, e)
      | Some ifaces \<Rightarrow>
          if length name < length ''eth_vhost'' then (- 1, e)
          else if erange \<or> strtol0_range (drop (length ''eth_vhost'') name) then (- 1, e)
          else (case ifaces of
                  [value] \<Rightarrow>
                    (case open_iface value of
                       (ret, Some iface_name) \<Rightarrow> (0, snd (eth_dev_vhost_create env name iface_name e))
                     | (ret, None) \<Rightarrow> (ret, e))
                | _ \<Rightarrow> (0, e)))"

section \<open>The life of a port\<close>

text \<open>
  The port \<open>p\<close> of a name is served by this driver with private data at \<open>a\<close>, which is on the list once
  and is the only entry for the interface; no burst function runs.
\<close>
definition vhost_ready :: "string \<Rightarrow> string \<Rightarrow> nat \<Rightarrow> u64 \<Rightarrow> ('h, 'm, 'w) vhost_eal \<Rightarrow> bool" where
  "vhost_ready name iface p a e \<longleftrightarrow>
     p < length (rte_eth_devices e) \<and> rte_eth_dev_allocated e name = Some p \<and> vh_dev_private (vh e) p = Some a
     \<and> vh_dev_mem (vh e) p \<noteq> None \<and> distinct (vh_internals_list (vh e)) \<and> a \<in> set (vh_internals_list (vh e))
     \<and> list_all (\<lambda>b. case vh_internal_at (vh e) b of None \<Rightarrow> False | Some i \<Rightarrow> (pi_iface_name i = iface) = (b = a)) (vh_internals_list (vh e))
     \<and> (case vh_internal_at (vh e) a of None \<Rightarrow> False | Some i \<Rightarrow> pi_dev_name i = name
          \<and> list_all (\<lambda>q. \<not> vhq_rx_executing q) (pi_rx_queues i) \<and> list_all (\<lambda>q. \<not> vhq_tx_executing q) (pi_tx_queues i))"

lemma find_internal_one:
  assumes "list_all (\<lambda>b. case ints b of None \<Rightarrow> False | Some i \<Rightarrow> (pi_iface_name i = iface) = (b = a)) q"
  shows "find_internal_loop ints iface q = Some (if a \<in> set q then Some a else None)"
  using assms by (induction q) (auto split: option.splits)

text \<open>A guest has left: the queues have no device, but the driver still knows them.\<close>
definition disconnected :: "pmd_internal \<Rightarrow> pmd_internal" where
  "disconnected ints =
     ints\<lparr>pi_xfer := False,
          pi_rx_queues := upd_queues (pi_nb_rx_queues ints) (\<lambda>q. q\<lparr>vhq_internal := True, vhq_device := 0\<rparr>) (pi_rx_queues ints),
          pi_tx_queues := upd_queues (pi_nb_tx_queues ints) (\<lambda>q. q\<lparr>vhq_internal := True, vhq_device := 0\<rparr>) (pi_tx_queues ints)\<rparr>"

lemma upd_queues_twice: "upd_queues n g (upd_queues n f qs) = upd_queues n (g \<circ> f) qs"
proof (cases "unat n \<le> length qs")
  case True
  then show ?thesis by (simp add: upd_queues_def)
next
  case False
  then show ?thesis by (simp add: upd_queues_def)
qed

lemma upd_queues_all: "(\<And>q. P q \<Longrightarrow> P (f q)) \<Longrightarrow> list_all P qs \<Longrightarrow> list_all P (upd_queues n f qs)"
  by (auto simp: upd_queues_def list_all_iff dest: in_set_takeD in_set_dropD)

lemma list_ex_take: "list_all (\<lambda>q. \<not> P q) qs \<Longrightarrow> \<not> list_ex P (take n qs)"
  by (auto simp: list_all_iff list_ex_iff dest: in_set_takeD)

lemma scan_same: "i < length xs \<Longrightarrow> P x = P (xs ! i) \<Longrightarrow> scan P (xs[i := x]) = scan P xs"
proof (induction xs arbitrary: i)
  case (Cons y ys)
  then show ?case by (cases i) auto
qed simp

lemma link_allocated: "p < length (rte_eth_devices e) \<Longrightarrow>
    rte_eth_dev_allocated (upd_vh f (upd_dev e p (set_link b))) name = rte_eth_dev_allocated e name"
  by (simp add: rte_eth_dev_allocated_def upd_dev_def scan_same set_link_def)

text \<open>The states a guest leads through.\<close>
definition guest_change :: "bool \<Rightarrow> nat \<Rightarrow> u64 \<Rightarrow> pmd_internal \<Rightarrow> ('h, 'm, 'w) vhost_eal \<Rightarrow> ('h, 'm, 'w) vhost_eal" where
  "guest_change b p a ints e = upd_vh (\<lambda>v. v\<lparr>vh_internal_at := (vh_internal_at v)(a \<mapsto> ints)\<rparr>) (upd_dev e p (set_link b))"

lemma ready_change:
  assumes "vhost_ready name iface p a e" and "pi_dev_name i = name" and "pi_iface_name i = iface"
    and "list_all (\<lambda>q. \<not> vhq_rx_executing q) (pi_rx_queues i)" and "list_all (\<lambda>q. \<not> vhq_tx_executing q) (pi_tx_queues i)"
  shows "vhost_ready name iface p a (guest_change b p a i e)"
proof -
  have "list_all (\<lambda>c. case ((vh_internal_at (vh e))(a \<mapsto> i)) c of None \<Rightarrow> False | Some j \<Rightarrow> (pi_iface_name j = iface) = (c = a))
      (vh_internals_list (vh e))"
    using assms(1,3) by (auto simp: vhost_ready_def list_all_iff split: option.splits)
  then show ?thesis using assms
    by (simp add: vhost_ready_def guest_change_def link_allocated) (simp add: upd_dev_def list_all_iff)
qed

lemma guest_connects:
  assumes r: "vhost_ready name iface p a e" and i: "vh_internal_at (vh e) a = Some ints" and "dev \<noteq> 0"
  shows "new_device dev iface e = Some (0, Some p, guest_change True p a (connect_queues dev ints) e)"
    and "vhost_ready name iface p a (guest_change True p a (connect_queues dev ints) e)"
proof -
  have f: "find_internal_resource iface (vh e) = Some (Some a)"
    using r find_internal_one by (fastforce simp: find_internal_resource_def vhost_ready_def)
  have n: "pi_dev_name ints = name" "pi_iface_name ints = iface" using r i by (auto simp: vhost_ready_def list_all_iff split: option.splits)
  show "new_device dev iface e = Some (0, Some p, guest_change True p a (connect_queues dev ints) e)"
    using f r i n assms(3) by (simp add: new_device_def guest_change_def vhost_ready_def)
  show "vhost_ready name iface p a (guest_change True p a (connect_queues dev ints) e)"
    using r i n by (intro ready_change [OF r]) (auto simp: connect_queues_def vhost_ready_def intro!: upd_queues_all)
qed

lemma guest_leaves:
  assumes r: "vhost_ready name iface p a e" and i: "vh_internal_at (vh e) a = Some (connect_queues dev ints)" and "dev \<noteq> 0"
  shows "destroy_device dev (Some p) e = Some (guest_change False p a (disconnected ints) e)"
    and "vhost_ready name iface p a (guest_change False p a (disconnected ints) e)"
proof -
  have idle: "list_all (\<lambda>q. \<not> vhq_rx_executing q) (pi_rx_queues (connect_queues dev ints))"
    "list_all (\<lambda>q. \<not> vhq_tx_executing q) (pi_tx_queues (connect_queues dev ints))" using r i by (simp_all add: vhost_ready_def)
  have d: "(connect_queues dev ints)\<lparr>pi_xfer := False,
      pi_rx_queues := upd_queues (pi_nb_rx_queues ints) (\<lambda>q. q\<lparr>vhq_device := 0\<rparr>) (pi_rx_queues (connect_queues dev ints)),
      pi_tx_queues := upd_queues (pi_nb_tx_queues ints) (\<lambda>q. q\<lparr>vhq_device := 0\<rparr>) (pi_tx_queues (connect_queues dev ints))\<rparr> = disconnected ints"
    by (simp add: connect_queues_def disconnected_def upd_queues_twice comp_def)
  have nb: "pi_nb_rx_queues (connect_queues dev ints) = pi_nb_rx_queues ints" "pi_nb_tx_queues (connect_queues dev ints) = pi_nb_tx_queues ints"
    by (simp_all add: connect_queues_def)
  show "destroy_device dev (Some p) e = Some (guest_change False p a (disconnected ints) e)"
    using r i list_ex_take [OF idle(1)] list_ex_take [OF idle(2)] d assms(3)
    by (simp add: destroy_device_def vhost_ready_def nb guest_change_def)
  have n: "pi_dev_name ints = name" "pi_iface_name ints = iface"
    using r i by (auto simp: vhost_ready_def list_all_iff connect_queues_def split: option.splits)
  have "disconnected ints = disconnected (connect_queues dev ints)" by (simp add: connect_queues_def disconnected_def upd_queues_twice comp_def)
  then show "vhost_ready name iface p a (guest_change False p a (disconnected ints) e)"
    using idle n by (intro ready_change [OF r]) (auto simp: disconnected_def connect_queues_def intro!: upd_queues_all)
qed

lemma port_removed:
  assumes r: "vhost_ready name iface p a e" and "dev \<noteq> 0"
  shows "\<exists>e'. rte_pmd_vhost_devuninit env (Some name) e = Some (0, e') \<and> \<not> dev_attached (rte_eth_devices e' ! p)
    \<and> vh_internal_at (vh e') a = None \<and> a \<notin> set (vh_internals_list (vh e')) \<and> new_device dev iface e' = Some (- 1, None, e')"
proof -
  obtain ints data pci where i: "vh_internal_at (vh e) a = Some ints" "vh_dev_mem (vh e) p = Some (data, pci)"
    using r by (cases "vh_internal_at (vh e) a"; cases "vh_dev_mem (vh e) p") (auto simp: vhost_ready_def)
  obtain e' where e': "rte_pmd_vhost_devuninit env (Some name) e = Some (0, e')" "vh_internals_list (vh e') = remove1 a (vh_internals_list (vh e))"
    "vh_internal_at (vh e') = (vh_internal_at (vh e))(a := None)" "\<not> dev_attached (rte_eth_devices e' ! p)"
    using r i by (simp add: rte_pmd_vhost_devuninit_def vhost_ready_def rte_eth_dev_release_port_def Let_def)
  have a: "a \<notin> set (vh_internals_list (vh e'))" using r by (simp add: e'(2) vhost_ready_def)
  have "list_all (\<lambda>b. case vh_internal_at (vh e') b of None \<Rightarrow> False | Some j \<Rightarrow> (pi_iface_name j = iface) = (b = a)) (vh_internals_list (vh e'))"
    using r a unfolding e'(2,3) by (auto simp: vhost_ready_def list_all_iff dest: notin_set_remove1)
  then have "find_internal_resource iface (vh e') = Some None" using a by (simp add: find_internal_resource_def find_internal_one)
  then show ?thesis using e' a assms(2) by (auto simp: new_device_def)
qed

section \<open>Properties\<close>

text \<open>
  C20. The life of a vhost port. A guest that connects to the interface brings the link of the right
  port up and connects its queues; when it leaves, the link goes down, no queue has the device of
  the guest any more and both burst functions do nothing, all other ports are as before, and the
  port is ready for the next guest. Removing the port then succeeds, and a guest that
  connects to the interface afterwards is refused.
\<close>
theorem vhost_guest_cycle:
  assumes "vhost_ready name iface p a e" and "vh_internal_at (vh e) a = Some ints" and "dev \<noteq> 0" and "dev' \<noteq> 0"
  shows "\<exists>e1 e2 e3. new_device dev iface e = Some (0, Some p, e1) \<and> dd_link_status (dev_data (rte_eth_devices e1 ! p))
    \<and> vh_internal_at (vh e1) a = Some (connect_queues dev ints)
    \<and> destroy_device dev (Some p) e1 = Some e2 \<and> \<not> dd_link_status (dev_data (rte_eth_devices e2 ! p))
    \<and> vh_internal_at (vh e2) a = Some (disconnected ints) \<and> vhost_ready name iface p a e2
    \<and> (\<forall>deq enq free q bufs n s. eth_vhost_rx deq (pi_xfer (disconnected ints)) q bufs n s = Some (0, bufs, q, s)
         \<and> eth_vhost_tx enq free (pi_xfer (disconnected ints)) q bufs n s = Some (0, q, s))
    \<and> (\<forall>j. j \<noteq> p \<longrightarrow> rte_eth_devices e2 ! j = rte_eth_devices e ! j)
    \<and> rte_pmd_vhost_devuninit env (Some name) e2 = Some (0, e3) \<and> \<not> dev_attached (rte_eth_devices e3 ! p)
    \<and> new_device dev' iface e3 = Some (- 1, None, e3)"
proof -
  let ?e1 = "guest_change True p a (connect_queues dev ints) e"
  let ?e2 = "guest_change False p a (disconnected ints) ?e1"
  note up = guest_connects [OF assms(1-3)]
  have i1: "vh_internal_at (vh ?e1) a = Some (connect_queues dev ints)" by (simp add: guest_change_def)
  note down = guest_leaves [OF up(2) i1 assms(3)]
  have p: "p < length (rte_eth_devices e)" using assms(1) by (simp add: vhost_ready_def)
  have links: "dd_link_status (dev_data (rte_eth_devices ?e1 ! p))" "\<not> dd_link_status (dev_data (rte_eth_devices ?e2 ! p))"
    "\<forall>j. j \<noteq> p \<longrightarrow> rte_eth_devices ?e2 ! j = rte_eth_devices e ! j"
    using p by (simp_all add: guest_change_def upd_dev_def set_link_def)
  have i2: "vh_internal_at (vh ?e2) a = Some (disconnected ints)" by (simp add: guest_change_def)
  have x: "\<not> pi_xfer (disconnected ints)" by (simp add: disconnected_def)
  obtain e3 where "rte_pmd_vhost_devuninit env (Some name) ?e2 = Some (0, e3)" "\<not> dev_attached (rte_eth_devices e3 ! p)"
    "new_device dev' iface e3 = Some (- 1, None, e3)" using port_removed [OF down(2) assms(4), of env] by blast
  then show ?thesis using up(1) i1 down links i2 x
    by (intro exI [of _ ?e1] exI [of _ ?e2] exI [of _ e3]) (simp add: eth_vhost_rx_def eth_vhost_tx_def)
qed

lemma vhost_panel_port:
  "case rte_eth_from_vhost (venv_0 0) ''eth_vhost0'' 0 ''/tmp/sock0'' 0 0x5000 vhost_panel of
     None \<Rightarrow> False
   | Some (r, e) \<Rightarrow> (case vh_dev_private (vh e) 1 of None \<Rightarrow> False | Some a \<Rightarrow>
       vhost_ready ''eth_vhost0'' ''/tmp/sock0'' 1 a e \<and> vh_internal_at (vh e) a = Some (vhost_internal ''eth_vhost0'' ''/tmp/sock0'' 0x5000))"
  by code_simp

theorem vhost_guest_cycle_witness:
  "\<exists>r e e1 e2. rte_eth_from_vhost (venv_0 0) ''eth_vhost0'' 0 ''/tmp/sock0'' 0 0x5000 vhost_panel = Some (r, e)
    \<and> new_device 0x7000 ''/tmp/sock0'' e = Some (0, Some 1, e1) \<and> dd_link_status (dev_data (rte_eth_devices e1 ! 1))
    \<and> destroy_device 0x7000 (Some 1) e1 = Some e2 \<and> \<not> dd_link_status (dev_data (rte_eth_devices e2 ! 1))
    \<and> (\<exists>e3. rte_pmd_vhost_devuninit (venv_0 0) (Some ''eth_vhost0'') e2 = Some (0, e3)
         \<and> new_device 0x8000 ''/tmp/sock0'' e3 = Some (- 1, None, e3))"
proof -
  obtain r e a where e: "rte_eth_from_vhost (venv_0 0) ''eth_vhost0'' 0 ''/tmp/sock0'' 0 0x5000 vhost_panel = Some (r, e)"
    "vhost_ready ''eth_vhost0'' ''/tmp/sock0'' 1 a e" "vh_internal_at (vh e) a = Some (vhost_internal ''eth_vhost0'' ''/tmp/sock0'' 0x5000)"
    using vhost_panel_port by (auto split: option.splits)
  show ?thesis using vhost_guest_cycle [OF e(2,3), of "0x7000" "0x8000" "venv_0 0"] e(1) by auto
qed

text \<open>
  A port from arguments may be missing although the result is 0: when making it fails, and when the
  interface is not given exactly once.
\<close>
lemma vhost_devinit_silent:
  assumes "kvargs params = Some vals" and "length ''eth_vhost'' \<le> length name"
    and "\<not> strtol0_range (drop (length ''eth_vhost'') name)"
    and "case vals of [v] \<Rightarrow> \<exists>i. v = Some i \<and> eth_dev_vhost_create env name i e = (- 1, e) | _ \<Rightarrow> True"
  shows "rte_pmd_vhost_devinit kvargs env False name params e = (0, e)"
  using assms by (auto simp: rte_pmd_vhost_devinit_def open_iface_def not_less split: list.splits)

end
