(* ===== verification/Rte_Vhost_Sync.thy ===== *)
theory Rte_Vhost_Sync
  imports Spp_Prelude
begin

text \<open>
  The handshake of the vhost driver (\<open>drivers/net/vhost/rte_eth_vhost.c\<close>) between the cores that
  poll its queues and the session thread that attaches and detaches guests. Every queue is polled
  by one thread; \<open>eth_vhost_rx\<close> and \<open>eth_vhost_tx\<close> announce with \<open>rx_executing\<close> or \<open>tx_executing\<close>
  that they are about to use the device, \<open>destroy_device\<close> withdraws \<open>xfer\<close> and waits for the
  announcements to end. The steps are single reads and writes of shared memory. With \<open>tso\<close> off,
  writes are seen at once by all threads; with \<open>tso\<close> on, they pass through a first-in first-out
  store buffer per thread, as on the x86 processors the program is built for, where
  \<open>rte_atomic16_set\<close> is a plain store.
\<close>

section \<open>State\<close>

text \<open>Where the thread of a queue is in its burst function; in \<open>Q_Using d\<close> the library works on device \<open>d\<close>.\<close>
datatype qpc = Q_Idle | Q_Checked | Q_Flagged | Q_Entered | Q_Using u64 | Q_Leaving

text \<open>\<open>vq_executing\<close> is \<open>rx_executing\<close> of a receive queue, \<open>tx_executing\<close> of a transmit queue.\<close>
record vq =
  vq_device :: u64
  vq_internal :: bool
  vq_executing :: bool
  vq_pc :: qpc
  vq_buf :: "bool list"

text \<open>Where the session thread is: at queue \<open>k\<close> of a loop of \<open>new_device\<close> or \<open>destroy_device\<close>.\<close>
datatype cpc = C_None | C_New u64 nat | C_Present u64 | C_Wait u64 nat | C_Clear u64 nat

datatype ctl_store = St_device nat u64 | St_internal nat | St_xfer bool

text \<open>
  The queues, receive queues first, as the loops go through them. \<open>alive\<close> is the device that
  the vhost library keeps: from the call of \<open>new_device\<close> to the return of \<open>destroy_device\<close>.
\<close>
record vhost =
  vqs :: "vq list"
  xfer :: bool
  ctl :: cpc
  ctl_buf :: "ctl_store list"
  alive :: "u64 option"

section \<open>Steps\<close>

definition set_executing :: "bool \<Rightarrow> bool \<Rightarrow> vq \<Rightarrow> vq" where
  "set_executing tso v q = (if tso then q\<lparr>vq_buf := vq_buf q @ [v]\<rparr> else q\<lparr>vq_executing := v\<rparr>)"

fun apply_store :: "ctl_store \<Rightarrow> vhost \<Rightarrow> vhost" where
  "apply_store (St_device i d) s = s\<lparr>vqs := (vqs s)[i := (vqs s ! i)\<lparr>vq_device := d\<rparr>]\<rparr>"
| "apply_store (St_internal i) s = s\<lparr>vqs := (vqs s)[i := (vqs s ! i)\<lparr>vq_internal := True\<rparr>]\<rparr>"
| "apply_store (St_xfer b) s = s\<lparr>xfer := b\<rparr>"

definition ctl_write :: "bool \<Rightarrow> ctl_store \<Rightarrow> vhost \<Rightarrow> vhost" where
  "ctl_write tso st s = (if tso then s\<lparr>ctl_buf := ctl_buf s @ [st]\<rparr> else apply_store st s)"

text \<open>
  The burst functions, one access to shared memory after the other. Only the first test, of \<open>internal\<close> and of
  \<open>xfer\<close>, is one step: \<open>internal\<close> is set and never cleared, so that reading it earlier can at most
  leave the function earlier.
\<close>
definition vq_step :: "bool \<Rightarrow> bool \<Rightarrow> vq \<Rightarrow> vq" where
  "vq_step tso x q =
     (case vq_pc q of
        Q_Idle \<Rightarrow> if vq_internal q \<and> x then q\<lparr>vq_pc := Q_Checked\<rparr> else q
      | Q_Checked \<Rightarrow> set_executing tso True (q\<lparr>vq_pc := Q_Flagged\<rparr>)
      | Q_Flagged \<Rightarrow> if x then q\<lparr>vq_pc := Q_Entered\<rparr> else q\<lparr>vq_pc := Q_Leaving\<rparr>
      | Q_Entered \<Rightarrow> q\<lparr>vq_pc := Q_Using (vq_device q)\<rparr>
      | Q_Using _ \<Rightarrow> q\<lparr>vq_pc := Q_Leaving\<rparr>
      | Q_Leaving \<Rightarrow> set_executing tso False (q\<lparr>vq_pc := Q_Idle\<rparr>))"

text \<open>
  The session thread: a guest with device \<open>d\<close> connects, the loop of \<open>new_device\<close>, \<open>xfer\<close> is set;
  the guest disconnects and \<open>xfer\<close> is cleared, the loop that waits for every queue, the loop that
  clears the device pointers, and the device is given up. The vhost library calls \<open>new_device\<close> only for a
  device that is not running, so that for one device the two alternate; a second guest on the same
  interface while the first one is connected is not part of the model.
\<close>
definition session_step :: "bool \<Rightarrow> u64 \<Rightarrow> vhost \<Rightarrow> vhost" where
  "session_step tso d s =
     (case ctl s of
        C_None \<Rightarrow> s\<lparr>ctl := C_New d 0, alive := Some d\<rparr>
      | C_New d k \<Rightarrow> if k < length (vqs s)
          then ctl_write tso (St_internal k) (ctl_write tso (St_device k d) (s\<lparr>ctl := C_New d (k + 1)\<rparr>))
          else ctl_write tso (St_xfer True) (s\<lparr>ctl := C_Present d\<rparr>)
      | C_Present d \<Rightarrow> ctl_write tso (St_xfer False) (s\<lparr>ctl := C_Wait d 0\<rparr>)
      | C_Wait d k \<Rightarrow> if k < length (vqs s)
          then (if vq_executing (vqs s ! k) then s else s\<lparr>ctl := C_Wait d (k + 1)\<rparr>)
          else s\<lparr>ctl := C_Clear d 0\<rparr>
      | C_Clear d k \<Rightarrow> if k < length (vqs s)
          then ctl_write tso (St_device k 0) (s\<lparr>ctl := C_Clear d (k + 1)\<rparr>)
          else s\<lparr>ctl := C_None, alive := None\<rparr>)"

datatype vhost_event = Ev_Queue nat | Ev_Session u64 | Ev_Flush_Queue nat | Ev_Flush_Session

text \<open>Inapplicable events are \<^term>\<open>None\<close>.\<close>
fun vhost_step :: "bool \<Rightarrow> vhost_event \<Rightarrow> vhost \<Rightarrow> vhost option" where
  "vhost_step tso (Ev_Queue i) s =
     (if i < length (vqs s) then Some (s\<lparr>vqs := (vqs s)[i := vq_step tso (xfer s) (vqs s ! i)]\<rparr>) else None)"
| "vhost_step tso (Ev_Session d) s = (if d \<noteq> 0 then Some (session_step tso d s) else None)"
| "vhost_step tso (Ev_Flush_Queue i) s =
     (if i < length (vqs s)
      then (case vq_buf (vqs s ! i) of [] \<Rightarrow> None
            | v # b \<Rightarrow> Some (s\<lparr>vqs := (vqs s)[i := (vqs s ! i)\<lparr>vq_executing := v, vq_buf := b\<rparr>]\<rparr>))
      else None)"
| "vhost_step tso Ev_Flush_Session s =
     (case ctl_buf s of [] \<Rightarrow> None | st # b \<Rightarrow> Some (apply_store st (s\<lparr>ctl_buf := b\<rparr>)))"

text \<open>The driver after \<open>rte_eth_from_vhost_create\<close>, with zeroed private data.\<close>
definition vhost_start :: "nat \<Rightarrow> vhost" where
  "vhost_start n = \<lparr>vqs = replicate n \<lparr>vq_device = 0, vq_internal = False, vq_executing = False, vq_pc = Q_Idle, vq_buf = []\<rparr>,
     xfer = False, ctl = C_None, ctl_buf = [], alive = None\<rparr>"

inductive vhost_reach :: "bool \<Rightarrow> nat \<Rightarrow> vhost \<Rightarrow> bool" for tso n where
  start: "vhost_reach tso n (vhost_start n)"
| step: "vhost_reach tso n s \<Longrightarrow> vhost_step tso ev s = Some s' \<Longrightarrow> vhost_reach tso n s'"

text \<open>Whoever uses a device uses the one that exists.\<close>
definition vhost_safe :: "vhost \<Rightarrow> bool" where
  "vhost_safe s \<longleftrightarrow> list_all (\<lambda>q. case vq_pc q of Q_Using d \<Rightarrow> alive s = Some d | _ \<Rightarrow> True) (vqs s)"

section \<open>With writes that are seen at once\<close>

definition vq_inv :: "vq \<Rightarrow> bool" where
  "vq_inv q \<longleftrightarrow> vq_buf q = [] \<and> (vq_executing q \<longleftrightarrow> vq_pc q \<noteq> Q_Idle \<and> vq_pc q \<noteq> Q_Checked)"

definition not_using :: "vq \<Rightarrow> bool" where
  "not_using q \<longleftrightarrow> vq_pc q \<noteq> Q_Entered \<and> (\<forall>d. vq_pc q \<noteq> Q_Using d)"

definition using_only :: "u64 \<Rightarrow> vq \<Rightarrow> bool" where
  "using_only d q \<longleftrightarrow> vq_device q = d \<and> (\<forall>x. vq_pc q = Q_Using x \<longrightarrow> x = d)"

fun ctl_inv :: "cpc \<Rightarrow> vhost \<Rightarrow> bool" where
  "ctl_inv C_None s \<longleftrightarrow> \<not> xfer s \<and> list_all not_using (vqs s)"
| "ctl_inv (C_New d k) s \<longleftrightarrow> \<not> xfer s \<and> alive s = Some d \<and> list_all not_using (vqs s)
     \<and> (\<forall>j<length (vqs s). j < k \<longrightarrow> vq_device (vqs s ! j) = d)"
| "ctl_inv (C_Present d) s \<longleftrightarrow> xfer s \<and> alive s = Some d \<and> list_all (using_only d) (vqs s)"
| "ctl_inv (C_Wait d k) s \<longleftrightarrow> \<not> xfer s \<and> alive s = Some d \<and> list_all (using_only d) (vqs s)
     \<and> (\<forall>j<length (vqs s). j < k \<longrightarrow> not_using (vqs s ! j))"
| "ctl_inv (C_Clear d k) s \<longleftrightarrow> \<not> xfer s \<and> alive s = Some d \<and> list_all not_using (vqs s)"

definition vhost_inv :: "vhost \<Rightarrow> bool" where
  "vhost_inv s \<longleftrightarrow> ctl_buf s = [] \<and> list_all vq_inv (vqs s) \<and> ctl_inv (ctl s) s"

lemma vq_step_inv: "vq_inv q \<Longrightarrow> vq_inv (vq_step False x q)"
  by (auto simp: vq_inv_def vq_step_def set_executing_def split: qpc.splits)

lemma vq_step_not_using: "not_using q \<Longrightarrow> not_using (vq_step False False q)"
  by (auto simp: not_using_def vq_step_def set_executing_def split: qpc.splits)

lemma vq_step_using_only: "using_only d q \<Longrightarrow> using_only d (vq_step False x q)"
  by (auto simp: using_only_def vq_step_def set_executing_def split: qpc.splits)

lemma vq_step_device: "vq_device (vq_step tso x q) = vq_device q"
  by (auto simp: vq_step_def set_executing_def split: qpc.splits)

lemmas vq_steps = vq_step_inv vq_step_not_using vq_step_using_only

lemma queue_step_inv:
  assumes "vhost_inv s" and "i < length (vqs s)"
  shows "vhost_inv (s\<lparr>vqs := (vqs s)[i := vq_step False (xfer s) (vqs s ! i)]\<rparr>)"
  using assms
  by (cases "ctl s") (auto simp: vhost_inv_def list_all_length nth_list_update vq_step_device intro: vq_steps)

lemma session_step_inv:
  assumes inv: "vhost_inv s" and "d \<noteq> 0"
  shows "vhost_inv (session_step False d s)"
proof (cases "ctl s")
  case (C_Wait e k)
  have "not_using (vqs s ! k)" if "k < length (vqs s)" "\<not> vq_executing (vqs s ! k)"
    using inv that by (auto simp: vhost_inv_def vq_inv_def not_using_def list_all_length)
  then show ?thesis using inv C_Wait
    by (auto simp: vhost_inv_def session_step_def list_all_length less_Suc_eq)
qed (use inv in \<open>auto simp: vhost_inv_def session_step_def ctl_write_def list_all_length nth_list_update
       vq_inv_def not_using_def using_only_def less_Suc_eq\<close>)

lemma reach_inv: "vhost_reach False n s \<Longrightarrow> vhost_inv s"
proof (induction rule: vhost_reach.induct)
  case start
  show ?case by (simp add: vhost_inv_def vhost_start_def vq_inv_def not_using_def list_all_iff)
next
  case (step s ev s')
  then show ?case
  proof (cases ev)
    case (Ev_Flush_Queue i)
    then show ?thesis using step by (auto simp: vhost_inv_def vq_inv_def list_all_length split: if_splits list.splits)
  next
    case Ev_Flush_Session
    then show ?thesis using step by (auto simp: vhost_inv_def split: list.splits)
  qed (auto intro: queue_step_inv session_step_inv split: if_splits)
qed

lemma inv_safe: "vhost_inv s \<Longrightarrow> vhost_safe s"
  by (cases "ctl s") (auto simp: vhost_inv_def vhost_safe_def list_all_length not_using_def using_only_def split: qpc.splits)

text \<open>A queue that keeps \<open>destroy_device\<close> waiting stops doing so after at most three steps of its own.\<close>
lemma wait_ends:
  assumes "vhost_inv s" and "ctl s = C_Wait d k" and "k < length (vqs s)"
  shows "\<exists>m\<le>3. \<not> vq_executing ((vq_step False (xfer s) ^^ m) (vqs s ! k))"
proof -
  let ?q = "vqs s ! k"
  have q: "vq_inv ?q" and x: "\<not> xfer s" using assms by (auto simp: vhost_inv_def list_all_length)
  show ?thesis
  proof (cases "vq_pc ?q")
    case Q_Leaving
    then show ?thesis using x by (intro exI [of _ 1]) (simp add: vq_step_def set_executing_def)
  next
    case Q_Flagged
    then show ?thesis using x by (intro exI [of _ 2]) (simp add: vq_step_def set_executing_def numeral_2_eq_2)
  next
    case Q_Entered
    then show ?thesis using x by (intro exI [of _ 3]) (simp add: vq_step_def set_executing_def numeral_3_eq_3)
  next
    case (Q_Using e)
    then show ?thesis using x by (intro exI [of _ 2]) (simp add: vq_step_def set_executing_def numeral_2_eq_2)
  qed (use q in \<open>auto simp: vq_inv_def intro: exI [of _ 0]\<close>)
qed

section \<open>With store buffers\<close>

fun vhost_run :: "bool \<Rightarrow> vhost_event list \<Rightarrow> vhost \<Rightarrow> vhost option" where
  "vhost_run tso [] s = Some s"
| "vhost_run tso (ev # evs) s = vhost_step tso ev s \<bind> vhost_run tso evs"

lemma run_reach: "vhost_reach tso n s \<Longrightarrow> vhost_run tso evs s = Some s' \<Longrightarrow> vhost_reach tso n s'"
  by (induction evs arbitrary: s) (auto intro: vhost_reach.step split: bind_splits)

text \<open>A guest connects; the receive queue starts a burst while the guest disconnects.\<close>
definition tso_events :: "vhost_event list" where
  "tso_events = [Ev_Session 5, Ev_Session 5, Ev_Session 5, Ev_Flush_Session, Ev_Flush_Session, Ev_Flush_Session,
     Ev_Queue 0, Ev_Queue 0, Ev_Session 5, Ev_Session 5, Ev_Session 5, Ev_Queue 0, Ev_Queue 0, Ev_Session 5, Ev_Session 5]"

section \<open>Properties\<close>

text \<open>
  C17. When writes are seen at once, no burst function ever works on a device that does not exist,
  however the polling threads and the session thread interleave and however often guests come and
  go; and a queue that makes \<open>destroy_device\<close> wait stops doing so after at most three steps of its
  own thread.
\<close>
theorem vhost_sync_safe:
  assumes "vhost_reach False n s"
  shows "vhost_safe s \<and> (\<forall>d k. ctl s = C_Wait d k \<and> k < length (vqs s) \<longrightarrow>
    (\<exists>m\<le>3. \<not> vq_executing ((vq_step False (xfer s) ^^ m) (vqs s ! k))))"
  using inv_safe [OF reach_inv [OF assms]] wait_ends [OF reach_inv [OF assms]] by blast

theorem vhost_sync_safe_witness:
  "\<exists>s. vhost_run False [Ev_Session 5, Ev_Session 5, Ev_Session 5, Ev_Queue 0, Ev_Queue 0, Ev_Queue 0, Ev_Session 5] (vhost_start 1) = Some s
    \<and> ctl s = C_Wait 5 0 \<and> vq_executing (vqs s ! 0) \<and> vhost_safe s
    \<and> (\<exists>m\<le>3. \<not> vq_executing ((vq_step False (xfer s) ^^ m) (vqs s ! 0)))"
proof -
  obtain s where s: "vhost_run False [Ev_Session 5, Ev_Session 5, Ev_Session 5, Ev_Queue 0, Ev_Queue 0, Ev_Queue 0, Ev_Session 5] (vhost_start 1) = Some s"
    "ctl s = C_Wait 5 0" "vq_executing (vqs s ! 0)" "length (vqs s) = 1"
    by (simp add: vhost_start_def session_step_def ctl_write_def vq_step_def set_executing_def)
  have "vhost_reach False 1 s" using run_reach [OF vhost_reach.start s(1)] .
  from vhost_sync_safe [OF this] show ?thesis using s by auto
qed

text \<open>
  C18. With the store buffers of x86 the handshake fails: the announcement of a burst and the
  withdrawal of \<open>xfer\<close> can both still be in store buffers when the other thread reads. Then
  \<open>destroy_device\<close> does not wait and returns, and the burst function works on a device that does
  not exist any more.
\<close>
theorem vhost_tso_unsafe: "\<exists>s. vhost_reach True 1 s \<and> alive s = None \<and> vq_pc (vqs s ! 0) = Q_Using 5 \<and> \<not> vhost_safe s"
proof -
  obtain s where s: "vhost_run True tso_events (vhost_start 1) = Some s" "alive s = None" "vq_pc (vqs s ! 0) = Q_Using 5"
    "length (vqs s) = 1"
    by (simp add: tso_events_def vhost_start_def session_step_def ctl_write_def vq_step_def set_executing_def)
  have "\<not> vhost_safe s" using s by (auto simp: vhost_safe_def list_all_length)
  then show ?thesis using run_reach [OF vhost_reach.start s(1)] s by blast
qed

end
