(* ===== verification/Rte_Hostshmem_Guest.thy ===== *)
theory Rte_Hostshmem_Guest
  imports Rte_Hostshmem Rte_Mempool_Registry
begin

text \<open>
  The other side of the shared memory (\<open>lib/librte_eal/linuxapp/eal/eal_hostshmem.c\<close>): a process that
  is started with the metadata of another one copies the metadata into a configuration file of its
  own, maps the huge pages at the addresses they have in the other process, and enters the zones,
  pools and rings it finds into its own tables. The calls of the operating system are parameters.
  Shown is that afterwards names lead to the same zones, rings and pools as in the other process.
\<close>

section \<open>Data\<close>

record rte_memseg =
  seg_phys_addr :: u64
  seg_addr :: u64
  seg_ioremap_addr :: u64
  seg_len :: u64
  seg_hugepage_sz :: u64
  seg_socket_id :: int
  seg_nchannel :: u32
  seg_nrank :: u32

text \<open>The fields of \<open>struct hostshmemconfig\<close> this side uses.\<close>
record hostshmemconfig =
  gc_metadata :: hostshmem_metadata
  gc_hp_metadata :: hostshmem_hugepage_metadata

text \<open>The pointer \<open>hostshmem_new_config\<close>: null, the value of a failed \<open>mmap\<close>, or a configuration.\<close>
datatype config_ptr = Cfg_null | Cfg_failed | Cfg hostshmemconfig

definition zero_config :: hostshmemconfig where
  "zero_config = \<lparr>gc_metadata = \<lparr>hm_magic_number = 0, hm_name = '''', hm_entry = replicate RTE_LIBRTE_HOSTSHMEM_MAX_ENTRIES null_entry\<rparr>,
     gc_hp_metadata = \<lparr>hpm_magic_number = 0, hpm_name = '''', hp_entries = replicate HOSTSHMEM_MAX_HUGEPAGES null_hp\<rparr>\<rparr>"

text \<open>
  What the system calls return: those on the configuration file (file descriptor, error number,
  success, and what a secondary process finds in it), opening a file, mapping the two metadata files,
  and the address at which \<open>mmap\<close> puts a file for a wanted address and length. The last two
  fields say whether the lists of pools and rings exist.
\<close>
record guest_os =
  os_config_fd :: int
  os_errno :: int
  os_flock_ex :: bool
  os_ftruncate :: bool
  os_config_mmap :: bool
  os_flock_sh :: bool
  os_unlink :: bool
  os_config :: hostshmemconfig
  os_open :: "string \<Rightarrow> int"
  os_metadata :: "int \<Rightarrow> hostshmem_metadata option"
  os_hp_metadata :: "int \<Rightarrow> hostshmem_hugepage_metadata option"
  os_mmap :: "int \<Rightarrow> u64 \<Rightarrow> u64 \<Rightarrow> u64"
  os_mempool_list :: bool
  os_ring_list :: bool

definition MAP_FAILED :: u64 where "MAP_FAILED = - 1"

definition HOSTSHMEM_METADATA_PATH :: "string \<Rightarrow> string" where
  "HOSTSHMEM_METADATA_PATH name = ''/var/run/.dpdk_hostshmem_metadata_'' @ name"

definition HOSTSHMEM_HP_METADATA_PATH :: "string \<Rightarrow> string" where
  "HOSTSHMEM_HP_METADATA_PATH name = ''/var/run/.dpdk_hostshmem_hp_metadata_'' @ name"

section \<open>The configuration\<close>

definition create_new_config :: "guest_os \<Rightarrow> config_ptr \<Rightarrow> int \<times> config_ptr" where
  "create_new_config os cfg =
     (if os_config_fd os < 0 then (- 1, cfg)
      else if \<not> os_flock_ex os then (- 1, cfg)
      else if \<not> os_ftruncate os then (- 1, cfg)
      else if \<not> os_config_mmap os then (- 1, Cfg_failed)
      else if \<not> os_flock_sh os then (- 1, Cfg zero_config)
      else (0, Cfg zero_config))"

text \<open>A file that nobody locks is left over and removed.\<close>
definition open_new_config :: "guest_os \<Rightarrow> config_ptr \<Rightarrow> int \<times> config_ptr" where
  "open_new_config os cfg =
     (if os_config_fd os < 0 \<and> os_errno os = ENOENT then (0, cfg)
      else if os_config_fd os < 0 then (- 1, cfg)
      else if os_flock_ex os then (if \<not> os_unlink os then (- 1, cfg) else (0, cfg))
      else if \<not> os_config_mmap os then (- 1, Cfg_failed)
      else if \<not> os_flock_sh os then (- 1, Cfg (os_config os))
      else (0, Cfg (os_config os)))"

definition read_metadata :: "guest_os \<Rightarrow> int \<Rightarrow> config_ptr \<Rightarrow> (int \<times> config_ptr) option" where
  "read_metadata os fd cfg =
     (case os_metadata os fd of
        None \<Rightarrow> Some (- 1, cfg)
      | Some m \<Rightarrow> (case cfg of Cfg c \<Rightarrow> Some (0, Cfg (c\<lparr>gc_metadata := m\<rparr>)) | _ \<Rightarrow> None))"

definition read_hp_metadata :: "guest_os \<Rightarrow> int \<Rightarrow> config_ptr \<Rightarrow> (int \<times> config_ptr) option" where
  "read_hp_metadata os fd cfg =
     (case os_hp_metadata os fd of
        None \<Rightarrow> Some (- 1, cfg)
      | Some m \<Rightarrow> (case cfg of Cfg c \<Rightarrow> Some (0, Cfg (c\<lparr>gc_hp_metadata := m\<rparr>)) | _ \<Rightarrow> None))"

text \<open>
  The entries that are printed, up to the first one not in use. Its address is looked at before the
  index is, here and in \<open>map_hp_entries\<close>, so that a full table is read one entry too far.
\<close>
fun dump_loop :: "('a \<Rightarrow> rte_memzone) \<Rightarrow> 'a list \<Rightarrow> 'a list option" where
  "dump_loop mz [] = None"
| "dump_loop mz (en # es) = (if mz_addr (mz en) = 0 then Some [] else map_option ((#) en) (dump_loop mz es))"

definition hostshmem_metadata_dump :: "config_ptr \<Rightarrow> (hostshmem_metadata_entry list \<times> hostshmem_hugepage_entry list) option" where
  "hostshmem_metadata_dump cfg =
     (case cfg of
        Cfg_null \<Rightarrow> Some ([], [])
      | Cfg_failed \<Rightarrow> None
      | Cfg c \<Rightarrow> do { es \<leftarrow> dump_loop he_mz (hm_entry (gc_metadata c));
                     hps \<leftarrow> dump_loop hp_mz (hp_entries (gc_hp_metadata c));
                     Some (es, hps) })"

text \<open>For the metadata of the given name.\<close>
definition get_metadata_and_config :: "guest_os \<Rightarrow> bool \<Rightarrow> string \<Rightarrow> config_ptr \<Rightarrow> (int \<times> config_ptr) option" where
  "get_metadata_and_config os secondary name cfg =
     (if secondary
      then let (r, cfg) = open_new_config os cfg
           in if r < 0 then Some (- 1, cfg) else map_option (\<lambda>_. (0, cfg)) (hostshmem_metadata_dump cfg)
      else
        let (r, cfg) = (if cfg = Cfg_null then create_new_config os cfg else (0, cfg));
            fd = os_open os (snprintf_s PATH_MAX (HOSTSHMEM_METADATA_PATH name))
        in if r < 0 then Some (- 1, cfg)
           else if fd < 0 then Some (- 1, cfg)
           else do {
             (r, cfg) \<leftarrow> read_metadata os fd cfg;
             let hp_fd = os_open os (snprintf_s PATH_MAX (HOSTSHMEM_HP_METADATA_PATH name));
             if r < 0 then Some (- 1, cfg)
             else if hp_fd < 0 then Some (- 1, cfg)
             else do {
               (r, cfg) \<leftarrow> read_hp_metadata os hp_fd cfg;
               if r < 0 then Some (- 1, cfg) else map_option (\<lambda>_. (0, cfg)) (hostshmem_metadata_dump cfg) } })"

section \<open>Mapping the pages\<close>

definition hp_memseg :: "machine \<Rightarrow> rte_memzone \<Rightarrow> rte_memseg" where
  "hp_memseg mach mz =
     \<lparr>seg_phys_addr = mz_phys_addr mz, seg_addr = mz_addr mz, seg_ioremap_addr = mz_phys_addr mz, seg_len = mz_len mz,
      seg_hugepage_sz = mz_hugepage_sz mz, seg_socket_id = mz_socket_id mz,
      seg_nchannel = rte_memory_get_nchannel mach, seg_nrank = rte_memory_get_nrank mach\<rparr>"

text \<open>The entries from index \<open>i\<close> on.\<close>
fun map_hp_loop ::
  "guest_os \<Rightarrow> machine \<Rightarrow> int \<Rightarrow> hostshmem_hugepage_entry list \<Rightarrow> nat \<Rightarrow> rte_memseg list \<Rightarrow> (int \<times> rte_memseg list) option" where
  "map_hp_loop os mach fd_zero [] i tbl = None"
| "map_hp_loop os mach fd_zero (hp # hps) i tbl =
     (let ms = hp_memseg mach (hp_mz hp);
          base_zero = os_mmap os fd_zero (seg_addr ms) (seg_len ms);
          fd = os_open os (hp_path hp);
          base = os_mmap os fd (seg_addr ms) (seg_len ms)
      in if mz_addr (hp_mz hp) = 0 then Some (0, tbl)
         else if base_zero = MAP_FAILED \<or> base_zero \<noteq> seg_addr ms then Some (- 1, tbl)
         else if fd < 0 then Some (- 1, tbl)
         else if base = MAP_FAILED \<or> base \<noteq> seg_addr ms then Some (- 1, tbl)
         else do { tbl \<leftarrow> aset tbl i ms;
                   map_hp_loop os mach fd_zero hps (i + 1) tbl })"

definition map_hp_entries :: "guest_os \<Rightarrow> machine \<Rightarrow> config_ptr \<Rightarrow> rte_memseg list \<Rightarrow> (int \<times> rte_memseg list) option" where
  "map_hp_entries os mach cfg tbl =
     (let fd_zero = os_open os ''/dev/zero''
      in if cfg = Cfg_null then Some (- 1, tbl)
         else if fd_zero < 0 then Some (- 1, tbl)
         else (case cfg of
                 Cfg c \<Rightarrow> map_hp_loop os mach fd_zero (hp_entries (gc_hp_metadata c)) 0 tbl
               | _ \<Rightarrow> None))"

text \<open>
  \<open>hostshmem_config\<close> is set to null at the start and nothing else assigns it, so that the call of
  \<open>map_all_segments\<close> is never reached.
\<close>
definition rte_eal_hostshmem_init ::
  "guest_os \<Rightarrow> machine \<Rightarrow> bool \<Rightarrow> string option \<Rightarrow> config_ptr \<Rightarrow> rte_memseg list \<Rightarrow> (int \<times> config_ptr \<times> rte_memseg list) option" where
  "rte_eal_hostshmem_init os mach secondary hsm_metadata cfg tbl =
     do { (r, cfg) \<leftarrow> (case hsm_metadata of
                        None \<Rightarrow> Some (0, cfg)
                      | Some name \<Rightarrow> get_metadata_and_config os secondary name cfg);
          if r < 0 then Some (- 1, cfg, tbl)
          else if cfg = Cfg_null then Some (0, cfg, tbl)
          else do { (r, tbl) \<leftarrow> map_hp_entries os mach cfg tbl;
                    Some (if r < 0 then - 1 else 0, cfg, tbl) } }"

section \<open>Zones, pools and rings\<close>

text \<open>Every entry is taken, used or not; the result says whether there was room for all.\<close>
fun add_zones :: "hostshmem_metadata_entry list \<Rightarrow> 'h pool_eal \<Rightarrow> (bool \<times> 'h pool_eal) option" where
  "add_zones [] e = Some (True, e)"
| "add_zones (en # es) e =
     (if unat (memzone_cnt e) = RTE_MAX_MEMZONE then Some (False, e)
      else do { zs \<leftarrow> aset (memzone e) (unat (memzone_cnt e)) (he_mz en);
                add_zones es (e\<lparr>memzone := zs, memzone_cnt := memzone_cnt e + 1\<rparr>) })"

fun find_pools :: "'h heap_ops \<Rightarrow> nat list \<Rightarrow> 'h pool_eal \<Rightarrow> (bool \<times> 'h pool_eal) option" where
  "find_pools ops [] e = Some (True, e)"
| "find_pools ops (i # is) e =
     do { mz \<leftarrow> aget (memzone e) i;
          if \<not> strncmp_eq (mz_name mz) RTE_MEMPOOL_MZ_PREFIX 3 then find_pools ops is e
          else
            let (te, h) = rte_zmalloc ops (malloc_heaps e) sizeof_rte_tailq_entry;
                e = e\<lparr>malloc_heaps := h\<rparr>
            in if te = 0 then Some (False, e)
               else find_pools ops is (e\<lparr>pktpool_tailq := pktpool_tailq e @ [(te, mz_addr mz)]\<rparr>) }"

text \<open>The pointer of the ring to its zone is that of the other process and is set anew.\<close>
fun find_rings :: "'h heap_ops \<Rightarrow> nat list \<Rightarrow> 'h pool_eal \<Rightarrow> (bool \<times> 'h pool_eal) option" where
  "find_rings ops [] e = Some (True, e)"
| "find_rings ops (i # is) e =
     do { mz \<leftarrow> aget (memzone e) i;
          if \<not> strncmp_eq (mz_name mz) RTE_RING_MZ_PREFIX 3 then find_rings ops is e
          else do {
            r \<leftarrow> ring_at e (mz_addr mz);
            let e = e\<lparr>ring_at := (ring_at e)(mz_addr mz \<mapsto> r\<lparr>ring_memzone := Some i\<rparr>)\<rparr>;
            let (te, h) = rte_zmalloc ops (malloc_heaps e) sizeof_rte_tailq_entry;
            let e = e\<lparr>malloc_heaps := h\<rparr>;
            if te = 0 then Some (False, e)
            else find_rings ops is (e\<lparr>ring_tailq := ring_tailq e @ [(te, mz_addr mz)]\<rparr>) } }"

definition rte_eal_hostshmem_obj_init ::
  "'h heap_ops \<Rightarrow> guest_os \<Rightarrow> bool \<Rightarrow> config_ptr \<Rightarrow> 'h pool_eal \<Rightarrow> (int \<times> 'h pool_eal) option" where
  "rte_eal_hostshmem_obj_init ops os secondary cfg e =
     (if secondary \<or> cfg = Cfg_null then Some (0, e)
      else if \<not> os_mempool_list os then Some (- 1, e)
      else if \<not> os_ring_list os then Some (- 1, e)
      else (case cfg of
              Cfg c \<Rightarrow>
                do { (ok, e) \<leftarrow> add_zones (hm_entry (gc_metadata c)) e;
                     if \<not> ok then Some (- 1, e)
                     else do {
                       (ok, e) \<leftarrow> find_pools ops [0..<unat (memzone_cnt e)] e;
                       if \<not> ok then Some (- 1, e)
                       else do {
                         (ok, e) \<leftarrow> find_rings ops [0..<unat (memzone_cnt e)] e;
                         Some (if ok then 0 else - 1, e) } } }
            | _ \<Rightarrow> None))"

section \<open>What the loops do\<close>

lemma add_zones_result:
  assumes "length (memzone e) = RTE_MAX_MEMZONE" and "unat (memzone_cnt e) + length es \<le> RTE_MAX_MEMZONE"
  shows "\<exists>zs. add_zones es e = Some (True, e\<lparr>memzone := zs, memzone_cnt := memzone_cnt e + of_nat (length es)\<rparr>)
    \<and> zs = take (unat (memzone_cnt e)) (memzone e) @ map he_mz es @ drop (unat (memzone_cnt e) + length es) (memzone e)"
  using assms
proof (induction es arbitrary: e)
  case (Cons en es)
  let ?n = "unat (memzone_cnt e)"
  let ?e = "e\<lparr>memzone := (memzone e)[?n := he_mz en], memzone_cnt := memzone_cnt e + 1\<rparr>"
  have n: "?n < RTE_MAX_MEMZONE" "unat (memzone_cnt e + 1) = Suc ?n"
    using Cons.prems(2) by (auto simp: RTE_MAX_MEMZONE_def unat_word_ariths)
  obtain zs where zs: "add_zones es ?e = Some (True, ?e\<lparr>memzone := zs, memzone_cnt := memzone_cnt e + 1 + of_nat (length es)\<rparr>)"
    "zs = take (Suc ?n) ((memzone e)[?n := he_mz en]) @ map he_mz es @ drop (Suc ?n + length es) ((memzone e)[?n := he_mz en])"
    using Cons.IH [of ?e] Cons.prems n by auto
  have "take (Suc ?n) ((memzone e)[?n := he_mz en]) = take ?n (memzone e) @ [he_mz en]"
    using n(1) Cons.prems(1) by (simp add: take_Suc_conv_app_nth)
  then show ?case using zs n Cons.prems(1) by (simp add: aset_def add.assoc)
qed simp

text \<open>The zones among the indexes \<open>is\<close> whose name starts with a prefix of three characters.\<close>
definition zones_of :: "string \<Rightarrow> rte_memzone list \<Rightarrow> nat list \<Rightarrow> rte_memzone list" where
  "zones_of pre zs is = filter (\<lambda>z. strncmp_eq (mz_name z) pre 3) (map ((!) zs) is)"

lemma zones_of_simps [simp]: "zones_of pre zs [] = []"
  "zones_of pre zs (i # is) = (if strncmp_eq (mz_name (zs ! i)) pre 3 then zs ! i # zones_of pre zs is else zones_of pre zs is)"
  by (simp_all add: zones_of_def)

definition heap_full :: "'h heap_ops \<Rightarrow> bool" where
  "heap_full ops \<longleftrightarrow> (\<exists>h. fst (rte_zmalloc ops h sizeof_rte_tailq_entry) = 0)"

lemma find_pools_result:
  assumes "\<forall>i\<in>set is. i < length (memzone e)"
  shows "\<exists>ok e'. find_pools ops is e = Some (ok, e') \<and> (\<not> ok \<longrightarrow> heap_full ops) \<and> (ok \<longrightarrow> (\<exists>tes h.
    length tes = length (zones_of RTE_MEMPOOL_MZ_PREFIX (memzone e) is)
    \<and> e' = e\<lparr>malloc_heaps := h,
        pktpool_tailq := pktpool_tailq e @ zip tes (map mz_addr (zones_of RTE_MEMPOOL_MZ_PREFIX (memzone e) is))\<rparr>))"
  using assms
proof (induction "is" arbitrary: e)
  case Nil
  show ?case by (intro exI [of _ True] exI [of _ e] conjI impI exI [of _ "[]"] exI [of _ "malloc_heaps e"]) simp_all
next
  case (Cons i "is")
  let ?z = "memzone e ! i"
  have i: "aget (memzone e) i = Some ?z" using Cons.prems by (simp add: aget_def)
  show ?case
  proof (cases "strncmp_eq (mz_name ?z) RTE_MEMPOOL_MZ_PREFIX 3")
    case False
    then show ?thesis using Cons.IH [of e] Cons.prems i by simp
  next
    case True
    obtain te h where h: "rte_zmalloc ops (malloc_heaps e) sizeof_rte_tailq_entry = (te, h)" by fastforce
    show ?thesis
    proof (cases "te = 0")
      case True
      then have "heap_full ops" using h unfolding heap_full_def by (metis fst_conv)
      then show ?thesis using True \<open>strncmp_eq _ _ _\<close> i h by simp (rule exI [of _ False], simp)
    next
      case False
      let ?e = "e\<lparr>malloc_heaps := h, pktpool_tailq := pktpool_tailq e @ [(te, mz_addr ?z)]\<rparr>"
      obtain ok e' where IH: "find_pools ops is ?e = Some (ok, e')" "\<not> ok \<longrightarrow> heap_full ops"
        "ok \<longrightarrow> (\<exists>tes h. length tes = length (zones_of RTE_MEMPOOL_MZ_PREFIX (memzone e) is)
          \<and> e' = ?e\<lparr>malloc_heaps := h,
              pktpool_tailq := pktpool_tailq ?e @ zip tes (map mz_addr (zones_of RTE_MEMPOOL_MZ_PREFIX (memzone e) is))\<rparr>)"
        using Cons.IH [of ?e] Cons.prems by auto
      have "\<exists>tes' h'. length tes' = Suc (length (zones_of RTE_MEMPOOL_MZ_PREFIX (memzone e) is))
          \<and> e' = e\<lparr>malloc_heaps := h',
              pktpool_tailq := pktpool_tailq e @ zip tes' (map mz_addr (?z # zones_of RTE_MEMPOOL_MZ_PREFIX (memzone e) is))\<rparr>"
        if ok using IH(3) [rule_format, OF that] by (elim exE, rule_tac x = "te # tes" in exI) auto
      then show ?thesis using IH(1,2) True False i h by simp
    qed
  qed
qed

lemma zones_of_upt: "zones_of pre zs [0..<n] = filter (\<lambda>z. strncmp_eq (mz_name z) pre 3) (take n zs)" if "n \<le> length zs"
proof -
  have "map ((!) zs) [0..<n] = take n zs" using that by (auto intro!: nth_equalityI)
  then show ?thesis by (simp add: zones_of_def)
qed

text \<open>Two rings that differ at most in the pointer to their zone.\<close>
definition ring_like :: "'a rte_ring option \<Rightarrow> 'a rte_ring option \<Rightarrow> bool" where
  "ring_like r r' \<longleftrightarrow> map_option (ring_memzone_update (\<lambda>_. None)) r = map_option (ring_memzone_update (\<lambda>_. None)) r'"

lemma ring_like_refl [simp]: "ring_like r r"
  by (simp add: ring_like_def)

lemma ring_like_trans: "ring_like r r' \<Longrightarrow> ring_like r' r'' \<Longrightarrow> ring_like r r''"
  by (simp add: ring_like_def)

lemma ring_like_Some: "ring_like (Some r) r' \<Longrightarrow> \<exists>i. r' = Some (r\<lparr>ring_memzone := i\<rparr>)"
proof (cases r')
  case (Some s)
  assume "ring_like (Some r) r'"
  then have "s = r\<lparr>ring_memzone := ring_memzone s\<rparr>" using Some by (cases r, cases s) (simp add: ring_like_def)
  then show ?thesis using Some by blast
qed (simp add: ring_like_def)

lemma find_rings_result:
  assumes "\<forall>i\<in>set is. i < length (memzone e)"
    and "\<forall>z\<in>set (zones_of RTE_RING_MZ_PREFIX (memzone e) is). ring_at e (mz_addr z) \<noteq> None"
  shows "\<exists>ok e'. find_rings ops is e = Some (ok, e') \<and> (\<not> ok \<longrightarrow> heap_full ops) \<and> (ok \<longrightarrow> (\<exists>tes h ra.
    length tes = length (zones_of RTE_RING_MZ_PREFIX (memzone e) is) \<and> (\<forall>a. ring_like (ring_at e a) (ra a))
    \<and> e' = e\<lparr>malloc_heaps := h, ring_at := ra,
        ring_tailq := ring_tailq e @ zip tes (map mz_addr (zones_of RTE_RING_MZ_PREFIX (memzone e) is))\<rparr>))"
  using assms
proof (induction "is" arbitrary: e)
  case Nil
  show ?case
    by (intro exI [of _ True] exI [of _ e] conjI impI exI [of _ "[]"] exI [of _ "malloc_heaps e"] exI [of _ "ring_at e"]) simp_all
next
  case (Cons i "is")
  let ?z = "memzone e ! i"
  have i: "aget (memzone e) i = Some ?z" using Cons.prems by (simp add: aget_def)
  show ?case
  proof (cases "strncmp_eq (mz_name ?z) RTE_RING_MZ_PREFIX 3")
    case False
    then show ?thesis using Cons.IH [of e] Cons.prems i by simp
  next
    case True
    then obtain r where r: "ring_at e (mz_addr ?z) = Some r" using Cons.prems(2) by auto
    obtain te h where h: "rte_zmalloc ops (malloc_heaps e) sizeof_rte_tailq_entry = (te, h)" by fastforce
    show ?thesis
    proof (cases "te = 0")
      case True
      then have "heap_full ops" using h unfolding heap_full_def by (metis fst_conv)
      then show ?thesis using True \<open>strncmp_eq _ _ _\<close> i h r by simp (rule exI [of _ False], simp)
    next
      case False
      let ?ra = "(ring_at e)(mz_addr ?z \<mapsto> r\<lparr>ring_memzone := Some i\<rparr>)"
      let ?e = "e\<lparr>ring_at := ?ra, malloc_heaps := h, ring_tailq := ring_tailq e @ [(te, mz_addr ?z)]\<rparr>"
      have like: "ring_like (ring_at e a) (?ra a)" for a using r by (simp add: ring_like_def)
      have p: "\<forall>i\<in>set is. i < length (memzone ?e)"
        "\<forall>z\<in>set (zones_of RTE_RING_MZ_PREFIX (memzone ?e) is). ring_at ?e (mz_addr z) \<noteq> None"
        using Cons.prems True by auto
      obtain ok e' where IH: "find_rings ops is ?e = Some (ok, e')" "\<not> ok \<longrightarrow> heap_full ops"
        "ok \<longrightarrow> (\<exists>tes h ra. length tes = length (zones_of RTE_RING_MZ_PREFIX (memzone ?e) is) \<and> (\<forall>a. ring_like (ring_at ?e a) (ra a))
          \<and> e' = ?e\<lparr>malloc_heaps := h, ring_at := ra,
              ring_tailq := ring_tailq ?e @ zip tes (map mz_addr (zones_of RTE_RING_MZ_PREFIX (memzone ?e) is))\<rparr>)"
        using Cons.IH [OF p] by blast
      have "\<exists>tes' h' ra. length tes' = Suc (length (zones_of RTE_RING_MZ_PREFIX (memzone e) is)) \<and> (\<forall>a. ring_like (ring_at e a) (ra a))
          \<and> e' = e\<lparr>malloc_heaps := h', ring_at := ra,
              ring_tailq := ring_tailq e @ zip tes' (map mz_addr (?z # zones_of RTE_RING_MZ_PREFIX (memzone e) is))\<rparr>"
        if o: ok
      proof -
        obtain tes h' ra where t: "length tes = length (zones_of RTE_RING_MZ_PREFIX (memzone e) is)" "\<forall>a. ring_like (?ra a) (ra a)"
          "e' = ?e\<lparr>malloc_heaps := h', ring_at := ra,
              ring_tailq := ring_tailq ?e @ zip tes (map mz_addr (zones_of RTE_RING_MZ_PREFIX (memzone e) is))\<rparr>"
          using IH(3) o by auto
        have "ring_like (ring_at e a) (ra a)" for a using ring_like_trans [OF like] t(2) by blast
        then show ?thesis using t(1,3) by (intro exI [of _ "te # tes"] exI [of _ h'] exI [of _ ra]) simp
      qed
      then show ?thesis using IH(1,2) True False i h r by simp
    qed
  qed
qed

section \<open>Lookups\<close>

lemma ring_lookup_one:
  assumes "\<forall>(te, d)\<in>set q. \<exists>r. rs d = Some r \<and> (strncmp_eq name (ring_name r) RTE_RING_NAMESIZE \<longleftrightarrow> d = a)" and "a \<in> snd ` set q"
  shows "ring_lookup_loop rs name q = Some (Some a)"
  using assms
proof (induction q)
  case (Cons p q)
  obtain te d where p: "p = (te, d)" by (cases p)
  obtain r where r: "rs d = Some r" "strncmp_eq name (ring_name r) RTE_RING_NAMESIZE \<longleftrightarrow> d = a" using Cons.prems(1) p by auto
  show ?case using r p Cons by (cases "d = a") auto
qed simp

lemma pktpool_lookup_one:
  assumes "\<forall>(te, d)\<in>set q. \<exists>p. ps d = Some p \<and> (strncmp_eq name (mp_name p) RTE_MEMPOOL_NAMESIZE \<longleftrightarrow> d = a)" and "a \<in> snd ` set q"
  shows "pktpool_lookup_loop ps name q = Some (Some a)"
  using assms
proof (induction q)
  case (Cons p q)
  obtain te d where p: "p = (te, d)" by (cases p)
  obtain r where r: "ps d = Some r" "strncmp_eq name (mp_name r) RTE_MEMPOOL_NAMESIZE \<longleftrightarrow> d = a" using Cons.prems(1) p by auto
  show ?case using r p Cons by (cases "d = a") auto
qed simp

lemma scan_first: "i < length xs \<Longrightarrow> P (xs ! i) \<Longrightarrow> \<forall>j<length xs. P (xs ! j) \<longrightarrow> j = i \<Longrightarrow> scan P xs = Some i"
proof -
  assume a: "i < length xs" "P (xs ! i)" "\<forall>j<length xs. P (xs ! j) \<longrightarrow> j = i"
  then obtain k where "scan P xs = Some k" using scan_None [of P xs] nth_mem by (metis not_None_eq)
  then show ?thesis using scan_Some [of P xs k] a(3) by simp
qed

section \<open>Two processes\<close>

text \<open>
  The zone of an entry with the name of a ring is the zone of a ring on the list of the other
  process; the same for pools.
\<close>
definition ring_zone :: "'h pool_eal \<Rightarrow> rte_memzone \<Rightarrow> bool" where
  "ring_zone host z \<longleftrightarrow> (\<exists>r. ring_at host (mz_addr z) = Some r \<and> mz_addr z \<in> snd ` set (ring_tailq host)
     \<and> length (ring_name r) < RTE_RING_NAMESIZE
     \<and> mz_name z = snprintf_s RTE_MEMZONE_NAMESIZE (RTE_RING_MZ_PREFIX @ ring_name r))"

definition mempool_zone :: "'h pool_eal \<Rightarrow> rte_memzone \<Rightarrow> bool" where
  "mempool_zone host z \<longleftrightarrow> (\<exists>p. pktpool_at (pool_mem host) (mz_addr z) = Some p \<and> mz_addr z \<in> snd ` set (pktpool_tailq host)
     \<and> length (mp_name p) + 3 < RTE_MEMZONE_NAMESIZE \<and> mz_name z = RTE_MEMPOOL_MZ_PREFIX @ mp_name p)"

text \<open>The entries are zones of the other process, each at most once, or cleared.\<close>
definition shares :: "'h pool_eal \<Rightarrow> hostshmem_metadata_entry list \<Rightarrow> bool" where
  "shares host es \<longleftrightarrow> mz_unique host \<and> list_all (\<lambda>z. length (mz_name z) < RTE_MEMZONE_NAMESIZE) (memzone host)
     \<and> length es = RTE_LIBRTE_HOSTSHMEM_MAX_ENTRIES
     \<and> (\<forall>i<length es. \<forall>j<length es. mz_used (he_mz (es ! i)) \<and> he_mz (es ! i) = he_mz (es ! j) \<longrightarrow> i = j)
     \<and> list_all (\<lambda>z. if mz_used z then z \<in> set (memzone host) else mz_name z = '''') (map he_mz es)
     \<and> list_all (\<lambda>z. strncmp_eq (mz_name z) RTE_RING_MZ_PREFIX 3 \<longrightarrow> ring_zone host z) (map he_mz es)
     \<and> list_all (\<lambda>z. strncmp_eq (mz_name z) RTE_MEMPOOL_MZ_PREFIX 3 \<longrightarrow> mempool_zone host z) (map he_mz es)"

text \<open>Before: empty tables, and the memory of the other process at the same addresses.\<close>
definition mapped :: "'h pool_eal \<Rightarrow> hostshmem_metadata_entry list \<Rightarrow> 'g pool_eal \<Rightarrow> bool" where
  "mapped host es e \<longleftrightarrow> memzone_cnt e = 0 \<and> length (memzone e) = RTE_MAX_MEMZONE \<and> list_all (\<lambda>z. \<not> mz_used z) (memzone e)
     \<and> ring_tailq e = [] \<and> pktpool_tailq e = []
     \<and> list_all (\<lambda>z. ring_at e (mz_addr z) = ring_at host (mz_addr z)
          \<and> pktpool_at (pool_mem e) (mz_addr z) = pktpool_at (pool_mem host) (mz_addr z)) (map he_mz es)"

lemma prefix_used: "shares host es \<Longrightarrow> z \<in> he_mz ` set es \<Longrightarrow> strncmp_eq (mz_name z) pre 3 \<Longrightarrow> pre \<noteq> [] \<Longrightarrow> mz_used z"
  by (auto simp: shares_def list_all_iff strncmp_eq_def split: if_splits)

lemma shares_same_name:
  assumes "shares host es" and "z \<in> he_mz ` set es" and "z' \<in> he_mz ` set es" and "mz_used z" and "mz_used z'" and "mz_name z = mz_name z'"
  shows "z = z'"
proof -
  have "z \<in> set (memzone host)" "z' \<in> set (memzone host)"
    using assms(1-5) by (auto simp: shares_def list_all_iff split: if_splits)
  then obtain i j where "i < length (memzone host)" "j < length (memzone host)" "z = memzone host ! i" "z' = memzone host ! j"
    by (auto simp: in_set_conv_nth)
  moreover have "mz_unique host" using assms(1) by (simp add: shares_def)
  ultimately show ?thesis using assms(4-6) unfolding mz_unique_def by blast
qed

lemma ring_lookup_found:
  "ring_lookup_loop rs name q = Some (Some a) \<Longrightarrow> \<exists>r. rs a = Some r \<and> strncmp_eq name (ring_name r) RTE_RING_NAMESIZE"
  by (induction q) (auto split: bind_splits if_splits)

lemma pktpool_lookup_found:
  "pktpool_lookup_loop ps name q = Some (Some a) \<Longrightarrow> \<exists>p. ps a = Some p \<and> strncmp_eq name (mp_name p) RTE_MEMPOOL_NAMESIZE"
  by (induction q) (auto split: bind_splits if_splits)

lemma ring_lookup_host:
  "rte_ring_lookup host name = Some (a, e) \<Longrightarrow> a \<noteq> 0 \<Longrightarrow> \<exists>r. ring_at host a = Some r \<and> strncmp_eq name (ring_name r) RTE_RING_NAMESIZE"
  using ring_lookup_found by (fastforce simp: rte_ring_lookup_def split: bind_splits option.splits)

lemma pktpool_lookup_host:
  "pktpool_lookup host name = Some (a, e) \<Longrightarrow> a \<noteq> 0 \<Longrightarrow>
     \<exists>p. pktpool_at (pool_mem host) a = Some p \<and> strncmp_eq name (mp_name p) RTE_MEMPOOL_NAMESIZE"
  using pktpool_lookup_found by (fastforce simp: pktpool_lookup_def split: bind_splits option.splits)

text \<open>The zones among the entries whose name starts with a prefix.\<close>
abbreviation shared_zones :: "string \<Rightarrow> hostshmem_metadata_entry list \<Rightarrow> rte_memzone list" where
  "shared_zones pre es \<equiv> filter (\<lambda>z. strncmp_eq (mz_name z) pre 3) (map he_mz es)"

lemma snd_zip: "length xs = length ys \<Longrightarrow> snd ` set (zip xs ys) = set ys"
  by (metis map_snd_zip set_map)

lemma guest_ring_lookup:
  assumes sh: "shares host es" and z: "z \<in> set (shared_zones RTE_RING_MZ_PREFIX es)" "mz_addr z = a"
    and host: "rte_ring_lookup host name = Some (a, host)"
    and like: "\<forall>z\<in>set (shared_zones RTE_RING_MZ_PREFIX es). ring_like (ring_at host (mz_addr z)) (rs (mz_addr z))"
    and tes: "length tes = length (shared_zones RTE_RING_MZ_PREFIX es)"
  shows "ring_lookup_loop rs name (zip tes (map mz_addr (shared_zones RTE_RING_MZ_PREFIX es))) = Some (Some a)"
proof -
  let ?Z = "shared_zones RTE_RING_MZ_PREFIX es"
  have rz: "ring_zone host y" "mz_used y" "y \<in> he_mz ` set es" if "y \<in> set ?Z" for y
    using that sh prefix_used [OF sh, of y RTE_RING_MZ_PREFIX] by (auto simp: shares_def list_all_iff RTE_RING_MZ_PREFIX_def)
  obtain r where r: "ring_at host a = Some r" "length (ring_name r) < RTE_RING_NAMESIZE"
    "mz_name z = snprintf_s RTE_MEMZONE_NAMESIZE (RTE_RING_MZ_PREFIX @ ring_name r)"
    using rz(1) [OF z(1)] z(2) by (auto simp: ring_zone_def)
  have nm: "name = ring_name r"
    using ring_lookup_host [OF host] rz(2) [OF z(1)] z(2) r(1,2) by (auto simp: strncmp_eq_short2)
  have one: "\<exists>r. rs (mz_addr y) = Some r \<and> (strncmp_eq name (ring_name r) RTE_RING_NAMESIZE \<longleftrightarrow> mz_addr y = a)" if y: "y \<in> set ?Z" for y
  proof -
    obtain s where s: "ring_at host (mz_addr y) = Some s" "length (ring_name s) < RTE_RING_NAMESIZE"
      "mz_name y = snprintf_s RTE_MEMZONE_NAMESIZE (RTE_RING_MZ_PREFIX @ ring_name s)"
      using rz(1) [OF y] by (auto simp: ring_zone_def)
    obtain i where i: "rs (mz_addr y) = Some (s\<lparr>ring_memzone := i\<rparr>)" using like y s(1) ring_like_Some by metis
    have "y = z" if "ring_name s = name"
      using shares_same_name [OF sh rz(3) [OF y] rz(3) [OF z(1)] rz(2) [OF y] rz(2) [OF z(1)]] s(3) r(3) nm that by simp
    then show ?thesis using i s(1,2) r(1) nm z(2) by (auto simp: strncmp_eq_short2)
  qed
  have "\<forall>(te, d)\<in>set (zip tes (map mz_addr ?Z)). \<exists>r. rs d = Some r \<and> (strncmp_eq name (ring_name r) RTE_RING_NAMESIZE \<longleftrightarrow> d = a)"
    using one by (auto dest!: set_zip_rightD)
  moreover have "a \<in> snd ` set (zip tes (map mz_addr ?Z))" using tes z by (subst snd_zip) auto
  ultimately show ?thesis by (rule ring_lookup_one)
qed

lemma guest_pool_lookup:
  assumes sh: "shares host es" and z: "z \<in> set (shared_zones RTE_MEMPOOL_MZ_PREFIX es)" "mz_addr z = a"
    and host: "pktpool_lookup host name = Some (a, host)"
    and same: "\<forall>z\<in>set (shared_zones RTE_MEMPOOL_MZ_PREFIX es). ps (mz_addr z) = pktpool_at (pool_mem host) (mz_addr z)"
    and tes: "length tes = length (shared_zones RTE_MEMPOOL_MZ_PREFIX es)"
  shows "pktpool_lookup_loop ps name (zip tes (map mz_addr (shared_zones RTE_MEMPOOL_MZ_PREFIX es))) = Some (Some a)"
proof -
  let ?Z = "shared_zones RTE_MEMPOOL_MZ_PREFIX es"
  have rz: "mempool_zone host y" "mz_used y" "y \<in> he_mz ` set es" if "y \<in> set ?Z" for y
    using that sh prefix_used [OF sh, of y RTE_MEMPOOL_MZ_PREFIX] by (auto simp: shares_def list_all_iff RTE_MEMPOOL_MZ_PREFIX_def)
  have short: "length n < RTE_MEMPOOL_NAMESIZE" if "length n + 3 < RTE_MEMZONE_NAMESIZE" for n :: string
    using that by (simp add: RTE_MEMPOOL_NAMESIZE_def RTE_MEMZONE_NAMESIZE_def)
  obtain r where r: "pktpool_at (pool_mem host) a = Some r" "length (mp_name r) < RTE_MEMPOOL_NAMESIZE"
    "mz_name z = RTE_MEMPOOL_MZ_PREFIX @ mp_name r"
    using rz(1) [OF z(1)] z(2) short by (auto simp: mempool_zone_def)
  have nm: "name = mp_name r"
    using pktpool_lookup_host [OF host] rz(2) [OF z(1)] z(2) r(1,2) by (auto simp: strncmp_eq_short2)
  have one: "\<exists>r. ps (mz_addr y) = Some r \<and> (strncmp_eq name (mp_name r) RTE_MEMPOOL_NAMESIZE \<longleftrightarrow> mz_addr y = a)" if y: "y \<in> set ?Z" for y
  proof -
    obtain s where s: "ps (mz_addr y) = Some s" "pktpool_at (pool_mem host) (mz_addr y) = Some s" "length (mp_name s) < RTE_MEMPOOL_NAMESIZE"
      "mz_name y = RTE_MEMPOOL_MZ_PREFIX @ mp_name s"
      using rz(1) [OF y] same y short by (auto simp: mempool_zone_def)
    have "y = z" if "mp_name s = name"
      using shares_same_name [OF sh rz(3) [OF y] rz(3) [OF z(1)] rz(2) [OF y] rz(2) [OF z(1)]] s(4) r(3) nm that by simp
    then show ?thesis using s r(1) nm z(2) by (auto simp: strncmp_eq_short2)
  qed
  have "\<forall>(te, d)\<in>set (zip tes (map mz_addr ?Z)). \<exists>r. ps d = Some r \<and> (strncmp_eq name (mp_name r) RTE_MEMPOOL_NAMESIZE \<longleftrightarrow> d = a)"
    using one by (auto dest!: set_zip_rightD)
  moreover have "a \<in> snd ` set (zip tes (map mz_addr ?Z))" using tes z by (subst snd_zip) auto
  ultimately show ?thesis by (rule pktpool_lookup_one)
qed

lemma guest_zone_lookup:
  assumes sh: "shares host es" and rest: "list_all (\<lambda>z. \<not> mz_used z) zs" and j: "j < length es" "mz_used (he_mz (es ! j))"
  shows "scan (\<lambda>mz. mz_used mz \<and> strncmp_eq (mz_name (he_mz (es ! j))) (mz_name mz) RTE_MEMZONE_NAMESIZE) (map he_mz es @ zs) = Some j"
proof (rule scan_first)
  have in_es: "he_mz (es ! k) \<in> he_mz ` set es" if "k < length es" for k using that by simp
  have "he_mz (es ! j) \<in> set (memzone host)" using sh j by (auto simp: shares_def list_all_length split: if_splits)
  then have len: "length (mz_name (he_mz (es ! j))) < RTE_MEMZONE_NAMESIZE" using sh by (auto simp: shares_def list_all_iff)
  show "\<forall>k<length (map he_mz es @ zs). mz_used ((map he_mz es @ zs) ! k)
      \<and> strncmp_eq (mz_name (he_mz (es ! j))) (mz_name ((map he_mz es @ zs) ! k)) RTE_MEMZONE_NAMESIZE \<longrightarrow> k = j"
  proof (intro allI impI)
    fix k assume k: "k < length (map he_mz es @ zs)" and m: "mz_used ((map he_mz es @ zs) ! k)
      \<and> strncmp_eq (mz_name (he_mz (es ! j))) (mz_name ((map he_mz es @ zs) ! k)) RTE_MEMZONE_NAMESIZE"
    have kes: "k < length es"
    proof (rule ccontr)
      assume "\<not> k < length es"
      then have "(map he_mz es @ zs) ! k \<in> set zs" using k by (simp add: nth_append)
      then show False using m rest by (auto simp: list_all_iff)
    qed
    then have "he_mz (es ! j) = he_mz (es ! k)"
      using m len shares_same_name [OF sh in_es [OF j(1)] in_es [OF kes] j(2)] by (auto simp: nth_append strncmp_eq_short)
    then show "k = j" using sh j kes unfolding shares_def by metis
  qed
qed (use j in \<open>simp_all add: nth_append\<close>)

text \<open>Names lead to the same zones, rings and pools as in the other process.\<close>
definition same_objects :: "'h pool_eal \<Rightarrow> hostshmem_metadata_entry list \<Rightarrow> 'g pool_eal \<Rightarrow> bool" where
  "same_objects host es e \<longleftrightarrow>
     (\<forall>j<length es. mz_used (he_mz (es ! j)) \<longrightarrow>
        rte_memzone_lookup e (mz_name (he_mz (es ! j))) = Some j \<and> memzone e ! j = he_mz (es ! j))
     \<and> (\<forall>z\<in>set (shared_zones RTE_RING_MZ_PREFIX es). ring_like (ring_at host (mz_addr z)) (ring_at e (mz_addr z))
        \<and> (\<forall>name. rte_ring_lookup host name = Some (mz_addr z, host) \<longrightarrow> rte_ring_lookup e name = Some (mz_addr z, e)))
     \<and> (\<forall>z\<in>set (shared_zones RTE_MEMPOOL_MZ_PREFIX es).
        pktpool_at (pool_mem e) (mz_addr z) = pktpool_at (pool_mem host) (mz_addr z)
        \<and> (\<forall>name. pktpool_lookup host name = Some (mz_addr z, host) \<longrightarrow> pktpool_lookup e name = Some (mz_addr z, e)))"

lemma guest_same_objects:
  assumes sh: "shares host es" and mp: "mapped host es e" and rest: "list_all (\<lambda>z. \<not> mz_used z) zs"
    and tes: "length tp = length (shared_zones RTE_MEMPOOL_MZ_PREFIX es)" "length tr = length (shared_zones RTE_RING_MZ_PREFIX es)"
    and like: "\<forall>a. ring_like (ring_at e a) (ra a)"
    and e': "memzone e' = map he_mz es @ zs" "ring_at e' = ra" "pool_mem e' = pool_mem e"
      "pktpool_tailq e' = zip tp (map mz_addr (shared_zones RTE_MEMPOOL_MZ_PREFIX es))"
      "ring_tailq e' = zip tr (map mz_addr (shared_zones RTE_RING_MZ_PREFIX es))"
  shows "same_objects host es e'"
proof -
  have at: "ring_at e (mz_addr z) = ring_at host (mz_addr z)" "pktpool_at (pool_mem e) (mz_addr z) = pktpool_at (pool_mem host) (mz_addr z)"
    if "z \<in> set (map he_mz es)" for z using mp that by (auto simp: mapped_def list_all_iff)
  have rl: "ring_like (ring_at host (mz_addr z)) (ra (mz_addr z))" if "z \<in> set (shared_zones RTE_RING_MZ_PREFIX es)" for z
    using like [rule_format, of "mz_addr z"] at(1) [of z] that by simp
  have "rte_ring_lookup e' name = Some (mz_addr z, e')"
    if "z \<in> set (shared_zones RTE_RING_MZ_PREFIX es)" "rte_ring_lookup host name = Some (mz_addr z, host)" for z name
    using guest_ring_lookup [OF sh that(1) refl that(2) _ tes(2)] rl by (simp add: rte_ring_lookup_def e')
  moreover have "pktpool_lookup e' name = Some (mz_addr z, e')"
    if "z \<in> set (shared_zones RTE_MEMPOOL_MZ_PREFIX es)" "pktpool_lookup host name = Some (mz_addr z, host)" for z name
    using guest_pool_lookup [OF sh that(1) refl that(2) _ tes(1), of "pktpool_at (pool_mem e)"] at(2)
    by (simp add: pktpool_lookup_def e')
  moreover have "rte_memzone_lookup e' (mz_name (he_mz (es ! j))) = Some j \<and> memzone e' ! j = he_mz (es ! j)"
    if "j < length es" "mz_used (he_mz (es ! j))" for j
    using guest_zone_lookup [OF sh rest that] that(1)
    by (simp add: rte_memzone_lookup_def memzone_lookup_thread_unsafe_def e' nth_append)
  ultimately show ?thesis using rl at(2) unfolding same_objects_def e'(2,3) by simp
qed

lemma guest_obj_init:
  assumes sh: "shares host es" and mp: "mapped host es e" and c: "hm_entry (gc_metadata c) = es"
    and os: "os_mempool_list os" "os_ring_list os"
  shows "\<exists>ret e'. rte_eal_hostshmem_obj_init ops os False (Cfg c) e = Some (ret, e') \<and>
    (ret = - 1 \<and> heap_full ops \<or> ret = 0 \<and> same_objects host es e' \<and> memzone_cnt e' = 128
       \<and> memzone e' = map he_mz es @ drop 128 (memzone e))"
proof -
  have len: "length es = 128" using sh by (simp add: shares_def RTE_LIBRTE_HOSTSHMEM_MAX_ENTRIES_def)
  have g: "memzone_cnt e = 0" "length (memzone e) = RTE_MAX_MEMZONE" "ring_tailq e = []" "pktpool_tailq e = []"
    "list_all (\<lambda>z. \<not> mz_used z) (memzone e)" using mp by (simp_all add: mapped_def)
  let ?zs = "map he_mz es @ drop 128 (memzone e)"
  let ?e1 = "e\<lparr>memzone := ?zs, memzone_cnt := 128\<rparr>"
  have a: "add_zones es e = Some (True, ?e1)"
    using add_zones_result [of e es] g(1,2) len by (simp add: RTE_MAX_MEMZONE_def)
  have is_ok: "\<forall>i\<in>set [0..<128]. i < length ?zs" using len by simp
  have zo: "zones_of pre ?zs [0..<128] = shared_zones pre es" for pre
    by (subst zones_of_upt) (simp_all add: len)
  obtain ok e2 where p: "find_pools ops [0..<128] ?e1 = Some (ok, e2)" "\<not> ok \<longrightarrow> heap_full ops"
    "ok \<longrightarrow> (\<exists>tes h. length tes = length (shared_zones RTE_MEMPOOL_MZ_PREFIX es)
       \<and> e2 = ?e1\<lparr>malloc_heaps := h, pktpool_tailq := zip tes (map mz_addr (shared_zones RTE_MEMPOOL_MZ_PREFIX es))\<rparr>)"
    using find_pools_result [of "[0..<128]" ?e1 ops] is_ok g(4) by (auto simp: zo)
  show ?thesis
  proof (cases ok)
    case False
    then show ?thesis using a p os c by (simp add: rte_eal_hostshmem_obj_init_def)
  next
    case True
    then obtain tp h where t: "length tp = length (shared_zones RTE_MEMPOOL_MZ_PREFIX es)"
      "e2 = ?e1\<lparr>malloc_heaps := h, pktpool_tailq := zip tp (map mz_addr (shared_zones RTE_MEMPOOL_MZ_PREFIX es))\<rparr>"
      using p(3) by blast
    have rz: "ring_zone host z" "z \<in> set (map he_mz es)" if "z \<in> set (shared_zones RTE_RING_MZ_PREFIX es)" for z
      using that sh by (auto simp: shares_def list_all_iff)
    have "ring_at e (mz_addr z) \<noteq> None" if "z \<in> set (shared_zones RTE_RING_MZ_PREFIX es)" for z
      using rz [OF that] mp by (fastforce simp: mapped_def list_all_iff ring_zone_def)
    then have pre: "\<forall>z\<in>set (zones_of RTE_RING_MZ_PREFIX (memzone e2) [0..<128]). ring_at e2 (mz_addr z) \<noteq> None"
      by (simp add: t(2) zo)
    have p2: "\<forall>i\<in>set [0..<128]. i < length (memzone e2)" using is_ok by (simp add: t(2))
    obtain ok' e3 where r: "find_rings ops [0..<128] e2 = Some (ok', e3)" "\<not> ok' \<longrightarrow> heap_full ops"
      "ok' \<longrightarrow> (\<exists>tes h ra. length tes = length (zones_of RTE_RING_MZ_PREFIX (memzone e2) [0..<128])
         \<and> (\<forall>a. ring_like (ring_at e2 a) (ra a)) \<and> e3 = e2\<lparr>malloc_heaps := h, ring_at := ra,
        ring_tailq := ring_tailq e2 @ zip tes (map mz_addr (zones_of RTE_RING_MZ_PREFIX (memzone e2) [0..<128]))\<rparr>)"
      using find_rings_result [OF p2 pre, of ops] by blast
    have run: "rte_eal_hostshmem_obj_init ops os False (Cfg c) e = Some (if ok' then 0 else - 1, e3)"
      using a p(1) r(1) os c True t(2) by (simp add: rte_eal_hostshmem_obj_init_def)
    show ?thesis
    proof (cases ok')
      case False
      then show ?thesis using run r(2) by simp
    next
      case True
      then obtain tr h' ra where u: "length tr = length (shared_zones RTE_RING_MZ_PREFIX es)" "\<forall>a. ring_like (ring_at e a) (ra a)"
        "e3 = e2\<lparr>malloc_heaps := h', ring_at := ra,
            ring_tailq := ring_tailq e2 @ zip tr (map mz_addr (shared_zones RTE_RING_MZ_PREFIX es))\<rparr>"
        using r(3) by (auto simp: t(2) zo)
      have "list_all (\<lambda>z. \<not> mz_used z) (drop 128 (memzone e))" using g(5) by (auto simp: list_all_iff dest: in_set_dropD)
      then have "same_objects host es e3"
        by (rule guest_same_objects [OF sh mp _ t(1) u(1,2)]) (simp_all add: u(3) t(2) g)
      then show ?thesis using run True by (simp add: u(3) t(2))
    qed
  qed
qed

lemma count_unused:
  assumes "mz_inv e" and "memzone_cnt e = 128" and "memzone e = map he_mz es @ zs" and "length es = 128" and "list_all (\<lambda>z. \<not> mz_used z) zs"
  shows "list_all (mz_used \<circ> he_mz) es"
proof -
  have "filter mz_used zs = []" using assms(5) by (auto simp: filter_empty_conv list_all_iff)
  then have "length (filter mz_used (map he_mz es)) = length es" using assms(1-4) by (simp add: mz_inv_def)
  then have "filter mz_used (map he_mz es) = map he_mz es" by (metis filter_id_conv length_filter_less length_map less_irrefl)
  then show ?thesis by (auto simp: filter_id_conv list_all_iff)
qed

text \<open>
  All entries are counted, so that the table of zones keeps its invariant only when all of them are
  in use.
\<close>
lemma guest_finds:
  assumes sh: "shares host es" and mp: "mapped host es e" and c: "hm_entry (gc_metadata c) = es"
    and os: "os_mempool_list os" "os_ring_list os"
  shows "\<exists>ret e'. rte_eal_hostshmem_obj_init ops os False (Cfg c) e = Some (ret, e') \<and>
    (ret = - 1 \<and> heap_full ops
     \<or> ret = 0 \<and> same_objects host es e' \<and> (mz_inv e' \<longrightarrow> list_all (mz_used \<circ> he_mz) es))"
proof -
  have len: "length es = 128" using sh by (simp add: shares_def RTE_LIBRTE_HOSTSHMEM_MAX_ENTRIES_def)
  have "list_all (\<lambda>z. \<not> mz_used z) (drop 128 (memzone e))" using mp by (auto simp: mapped_def list_all_iff dest: in_set_dropD)
  then show ?thesis using guest_obj_init [OF sh mp c os, of ops] count_unused [OF _ _ _ len] by blast
qed

section \<open>The pages\<close>

text \<open>The operating system maps a page where it is wanted.\<close>
definition maps_exactly :: "guest_os \<Rightarrow> hostshmem_hugepage_entry list \<Rightarrow> bool" where
  "maps_exactly os hps \<longleftrightarrow> os_open os ''/dev/zero'' \<ge> 0 \<and> list_all (\<lambda>hp. os_open os (hp_path hp) \<ge> 0 \<and> mz_addr (hp_mz hp) \<noteq> MAP_FAILED
     \<and> (\<forall>fd. os_mmap os fd (mz_addr (hp_mz hp)) (mz_len (hp_mz hp)) = mz_addr (hp_mz hp))) hps"

lemma dump_loop_None [simp]: "dump_loop mz es = None \<longleftrightarrow> list_all (\<lambda>en. mz_used (mz en)) es"
  by (induction es) auto

lemma map_hp_loop_result:
  assumes "list_all (\<lambda>hp. mz_used (hp_mz hp)) us" and "i + length us \<le> length tbl" and "fd \<ge> 0"
    and "list_all (\<lambda>hp. os_open os (hp_path hp) \<ge> 0 \<and> mz_addr (hp_mz hp) \<noteq> MAP_FAILED
     \<and> (\<forall>fd. os_mmap os fd (mz_addr (hp_mz hp)) (mz_len (hp_mz hp)) = mz_addr (hp_mz hp))) us"
  shows "map_hp_loop os mach fd (us @ hps) i tbl =
    map_hp_loop os mach fd hps (i + length us) (take i tbl @ map (hp_memseg mach \<circ> hp_mz) us @ drop (i + length us) tbl)"
  using assms
proof (induction us arbitrary: i tbl)
  case (Cons hp us)
  let ?m = "hp_memseg mach (hp_mz hp)"
  have i: "i < length tbl" using Cons.prems(2) by simp
  have "map_hp_loop os mach fd ((hp # us) @ hps) i tbl = map_hp_loop os mach fd (us @ hps) (i + 1) (tbl[i := ?m])"
    using Cons.prems i by (simp add: hp_memseg_def aset_def)
  also have "\<dots> = map_hp_loop os mach fd hps (i + 1 + length us)
      (take (i + 1) (tbl[i := ?m]) @ map (hp_memseg mach \<circ> hp_mz) us @ drop (i + 1 + length us) (tbl[i := ?m]))"
    using Cons.prems by (intro Cons.IH) auto
  also have "take (i + 1) (tbl[i := ?m]) = take i tbl @ [?m]" using i by (simp add: take_Suc_conv_app_nth)
  finally show ?case using i by simp
qed simp

section \<open>Properties\<close>

text \<open>C13. A process that is started with the metadata of another one: when the calls of the
  operating system succeed, initialisation copies both metadata tables, maps every page in use at the
  address it has in the other process and enters it as a segment, in the order of the table and
  before the segments that were there. A table that is full has no end mark, and is read one
  entry too far: the entries of the zones when they are printed, those of the pages also when they are mapped.\<close>
theorem guest_maps_pages:
  assumes "os_config_fd os \<ge> 0" and "os_flock_ex os" and "os_ftruncate os" and "os_config_mmap os" and "os_flock_sh os"
    and "os_open os (snprintf_s PATH_MAX (HOSTSHMEM_METADATA_PATH name)) = fd" and "fd \<ge> 0" and "os_metadata os fd = Some md"
    and "os_open os (snprintf_s PATH_MAX (HOSTSHMEM_HP_METADATA_PATH name)) = hp_fd" and "hp_fd \<ge> 0" and "os_hp_metadata os hp_fd = Some hp"
    and "maps_exactly os us" and "list_all (\<lambda>e. mz_used (hp_mz e)) us" and "length us \<le> length tbl"
    and "hp_entries hp = us @ rest" and "rest \<noteq> [] \<longrightarrow> \<not> mz_used (hp_mz (hd rest))"
  shows "rte_eal_hostshmem_init os mach False (Some name) Cfg_null tbl =
    (if rest = [] \<or> list_all (mz_used \<circ> he_mz) (hm_entry md) then None
     else Some (0, Cfg \<lparr>gc_metadata = md, gc_hp_metadata = hp\<rparr>, map (hp_memseg mach \<circ> hp_mz) us @ drop (length us) tbl))"
proof -
  have zero: "os_open os ''/dev/zero'' \<ge> 0" using assms(12) by (simp add: maps_exactly_def)
  have "map_hp_loop os mach (os_open os ''/dev/zero'') (us @ rest) 0 tbl
      = map_hp_loop os mach (os_open os ''/dev/zero'') rest (length us) (map (hp_memseg mach \<circ> hp_mz) us @ drop (length us) tbl)"
    using map_hp_loop_result [of us 0 tbl "os_open os ''/dev/zero''" os mach rest] assms(12-14) zero by (simp add: maps_exactly_def)
  then have "map_hp_entries os mach (Cfg \<lparr>gc_metadata = md, gc_hp_metadata = hp\<rparr>) tbl =
      (if rest = [] then None else Some (0, map (hp_memseg mach \<circ> hp_mz) us @ drop (length us) tbl))"
    using zero assms(15,16) by (cases rest) (simp_all add: map_hp_entries_def)
  moreover have "list_all (\<lambda>en. mz_used (hp_mz en)) (us @ rest) \<longleftrightarrow> rest = []" using assms(13,16) by (cases rest) simp_all
  then have "get_metadata_and_config os False name Cfg_null =
      (if rest = [] \<or> list_all (mz_used \<circ> he_mz) (hm_entry md) then None else Some (0, Cfg \<lparr>gc_metadata = md, gc_hp_metadata = hp\<rparr>))"
    using assms(1-11,15) dump_loop_None [of he_mz "hm_entry md"] dump_loop_None [of hp_mz "hp_entries hp"]
    by (cases "dump_loop he_mz (hm_entry md)"; cases "dump_loop hp_mz (hp_entries hp)")
      (simp_all add: get_metadata_and_config_def create_new_config_def read_metadata_def read_hp_metadata_def zero_config_def
        hostshmem_metadata_dump_def comp_def del: dump_loop_None)
  ultimately show ?thesis by (auto simp: rte_eal_hostshmem_init_def)
qed

text \<open>One page in use, and every file can be opened.\<close>
definition guest_page :: hostshmem_hugepage_entry where
  "guest_page = \<lparr>hp_mz = null_memzone\<lparr>mz_addr := 0x40000000, mz_len := 0x200000, mz_hugepage_sz := 0x200000\<rparr>, hp_path = ''/hugepages/rtemap_0''\<rparr>"

definition guest_hp :: hostshmem_hugepage_metadata where
  "guest_hp = \<lparr>hpm_magic_number = HOSTSHMEM_MAGIC, hpm_name = ''vm1'', hp_entries = [guest_page, null_hp]\<rparr>"

definition guest_os_0 :: guest_os where
  "guest_os_0 = \<lparr>os_config_fd = 3, os_errno = 0, os_flock_ex = True, os_ftruncate = True, os_config_mmap = True, os_flock_sh = True,
     os_unlink = True, os_config = zero_config, os_open = (\<lambda>_. 4), os_metadata = (\<lambda>_. Some (gc_metadata zero_config)),
     os_hp_metadata = (\<lambda>_. Some guest_hp), os_mmap = (\<lambda>fd a len. a), os_mempool_list = True, os_ring_list = True\<rparr>"

theorem guest_maps_pages_witness:
  "rte_eal_hostshmem_init guest_os_0 machine_0 False (Some ''vm1'') Cfg_null [hp_memseg machine_0 null_memzone, hp_memseg machine_0 null_memzone] =
     Some (0, Cfg \<lparr>gc_metadata = gc_metadata zero_config, gc_hp_metadata = guest_hp\<rparr>, [hp_memseg machine_0 (hp_mz guest_page), hp_memseg machine_0 null_memzone])"
  by (subst guest_maps_pages [where us = "[guest_page]" and rest = "[null_hp]" and fd = 4 and hp_fd = 4
        and md = "gc_metadata zero_config" and hp = guest_hp])
    (simp_all add: guest_os_0_def guest_hp_def guest_page_def maps_exactly_def null_hp_def null_memzone_def MAP_FAILED_def
      list_all_iff zero_config_def null_entry_def RTE_LIBRTE_HOSTSHMEM_MAX_ENTRIES_def)

end
