(* ===== verification/Rte_Hostshmem_Image.thy ===== *)
theory Rte_Hostshmem_Image
  imports Rte_Hostshmem "HOL-Library.Sublist"
begin

text \<open>
  Correctness of the shared memory layout: the two sorts are stable sorts, although the comparison
  function of the first one is not symmetric and the second one is a selection sort that moves
  elements; the pages of a zone stay together; and every byte of a zone is found in the image at
  the offset that the metadata gives for the zone plus its distance from the start of the zone.
\<close>

unbundle bit_operations_syntax

section \<open>Sorting the entries\<close>

definition entry_key :: "hostshmem_metadata_entry \<Rightarrow> nat" where
  "entry_key en = (if mz_addr (he_mz en) = 0 then 2 ^ 64 else unat (mz_phys_addr (he_mz en)))"

lemma entry_compare_key: "entry_compare a b \<le> 0 \<longleftrightarrow> entry_key a \<le> entry_key b"
proof -
  have "unat x < 2 ^ 64" for x :: u64 using unsigned_less [of x, where ?'a = nat] by simp
  then have "unat x \<le> 2 ^ 64" "\<not> (2 ^ 64 \<le> unat x)" for x :: u64 by (simp_all add: less_imp_le not_le)
  then show ?thesis by (auto simp: entry_compare_def entry_key_def word_less_nat_alt)
qed

lemma mset_qsort_merge [simp]: "mset (qsort_merge cmp xs ys) = mset xs + mset ys"
  by (induction cmp xs ys rule: qsort_merge.induct) simp_all

lemma qsort_merge_sorted:
  assumes "\<And>x y. cmp x y \<le> 0 \<longleftrightarrow> f x \<le> f y" and "sorted (map f xs)" and "sorted (map f ys)"
  shows "sorted (map f (qsort_merge cmp xs ys))"
  using assms
proof (induction cmp xs ys rule: qsort_merge.induct)
  case (3 cmp x xs y ys)
  have set: "set (qsort_merge cmp as bs) = set as \<union> set bs" for as bs
    by (metis mset_qsort_merge set_mset_mset set_mset_union)
  show ?case
  proof (cases "f x \<le> f y")
    case True
    then have "sorted (map f (qsort_merge cmp xs (y # ys)))" "\<forall>z\<in>set xs \<union> set (y # ys). f x \<le> f z"
      using 3(1) 3(3-) by (auto intro: order_trans)
    then show ?thesis using True 3(3) set by simp
  next
    case False
    then have "sorted (map f (qsort_merge cmp (x # xs) ys))" "\<forall>z\<in>set (x # xs) \<union> set ys. f y \<le> f z"
      using 3(2) 3(3-) by (auto intro: order_trans)
    then show ?thesis using False 3(3) set by simp
  qed
qed simp_all

lemma qsort_merge_stable:
  assumes "\<And>x y. cmp x y \<le> 0 \<longleftrightarrow> f x \<le> f y" and "sorted (map f xs)" and "sorted (map f ys)"
  shows "filter (\<lambda>z. k = f z) (qsort_merge cmp xs ys) = filter (\<lambda>z. k = f z) xs @ filter (\<lambda>z. k = f z) ys"
  using assms
proof (induction cmp xs ys rule: qsort_merge.induct)
  case (3 cmp x xs y ys)
  show ?case
  proof (cases "f x \<le> f y")
    case True
    then have "filter (\<lambda>z. k = f z) (qsort_merge cmp xs (y # ys)) = filter (\<lambda>z. k = f z) xs @ filter (\<lambda>z. k = f z) (y # ys)"
      using 3 by (intro 3(1)) simp_all
    then show ?thesis using True 3(3) by auto
  next
    case False
    have "filter (\<lambda>z. k = f z) (x # xs) = []" if "k = f y"
    proof -
      have "f y < f z" if "z \<in> set (x # xs)" for z using that False 3(4) by (auto intro: less_le_trans)
      then show ?thesis using that by (force simp: filter_empty_conv)
    qed
    moreover have "filter (\<lambda>z. k = f z) (qsort_merge cmp (x # xs) ys) = filter (\<lambda>z. k = f z) (x # xs) @ filter (\<lambda>z. k = f z) ys"
      using False 3 by (intro 3(2)) simp_all
    ultimately show ?thesis using False 3(3) by auto
  qed
qed simp_all

text \<open>The C library's sort with a comparison that only tells "greater" is a stable sort.\<close>
lemma qsort_sort_key:
  assumes "\<And>x y. cmp x y \<le> 0 \<longleftrightarrow> f x \<le> f y"
  shows "qsort cmp xs = sort_key f xs"
proof -
  have "mset (qsort cmp xs) = mset xs \<and> sorted (map f (qsort cmp xs))
      \<and> (\<forall>k. filter (\<lambda>z. k = f z) (qsort cmp xs) = filter (\<lambda>z. k = f z) xs)"
  proof (induction "length xs" arbitrary: xs rule: less_induct)
    case less
    let ?n = "length xs div 2"
    show ?case
    proof (cases "length xs \<le> 1")
      case True
      then have "sorted (map f xs)" by (cases xs) auto
      then show ?thesis using True by (simp add: qsort.simps [of cmp xs])
    next
      case False
      then have "length (take ?n xs) < length xs" "length (drop ?n xs) < length xs" by auto
      note ih = less(1) [OF this(1)] less(1) [OF this(2)]
      have q: "qsort cmp xs = qsort_merge cmp (qsort cmp (take ?n xs)) (qsort cmp (drop ?n xs))"
        using False by (subst qsort.simps) (simp add: Let_def)
      have "mset (qsort cmp xs) = mset (take ?n xs @ drop ?n xs)" using ih by (simp only: q mset_qsort_merge mset_append)
      moreover have "filter (\<lambda>z. k = f z) (qsort cmp xs) = filter (\<lambda>z. k = f z) (take ?n xs @ drop ?n xs)" for k
        using ih qsort_merge_stable [where cmp = cmp and f = f, OF assms] unfolding q filter_append by simp
      ultimately show ?thesis using qsort_merge_sorted [where cmp = cmp and f = f, OF assms] ih q by simp
    qed
  qed
  then show ?thesis by (intro properties_for_sort_key [symmetric]) auto
qed

lemma qsort_entries: "qsort entry_compare es = sort_key entry_key es"
  by (rule qsort_sort_key) (rule entry_compare_key)

section \<open>Sorting the pages\<close>

definition page_key :: "hs_page \<Rightarrow> int" where
  "page_key p = - int (unat (pg_len p))"

text \<open>The search keeps the first of the longest pages.\<close>
lemma biggest_page_rest:
  assumes "b \<noteq> 0"
  shows "(biggest_page j b idx ps = idx \<and> (\<forall>p\<in>set ps. pg_len p \<le> b)) \<or>
    (\<exists>k<length ps. biggest_page j b idx ps = Some (j + k) \<and> b < pg_len (ps ! k)
       \<and> (\<forall>p\<in>set ps. pg_len p \<le> pg_len (ps ! k)) \<and> (\<forall>i<k. pg_len (ps ! i) < pg_len (ps ! k)))"
  using assms
proof (induction ps arbitrary: j b idx)
  case (Cons p ps)
  define b' where "b' = (if b < pg_len p then pg_len p else b)"
  define idx' where "idx' = (if b < pg_len p then Some j else idx)"
  have r: "biggest_page j b idx (p # ps) = biggest_page (Suc j) b' idx' ps"
    using Cons.prems by (simp add: b'_def idx'_def)
  have b': "b' \<noteq> 0" "pg_len p \<le> b'" "b \<le> b'" using Cons.prems by (auto simp: b'_def not_less)
  from Cons.IH [OF b'(1), of "Suc j" idx'] show ?case
  proof
    assume a: "biggest_page (Suc j) b' idx' ps = idx' \<and> (\<forall>p\<in>set ps. pg_len p \<le> b')"
    show ?case
    proof (cases "b < pg_len p")
      case True
      then show ?thesis using a r by (intro disjI2 exI [of _ 0]) (simp add: b'_def idx'_def)
    next
      case False
      then have "b' = b" "idx' = idx" by (simp_all add: b'_def idx'_def)
      then show ?thesis using a r False by (intro disjI1) (simp only: r, simp)
    qed
  next
    assume "\<exists>k<length ps. biggest_page (Suc j) b' idx' ps = Some (Suc j + k) \<and> b' < pg_len (ps ! k)
       \<and> (\<forall>p\<in>set ps. pg_len p \<le> pg_len (ps ! k)) \<and> (\<forall>i<k. pg_len (ps ! i) < pg_len (ps ! k))"
    then obtain k where k: "k < length ps" "biggest_page (Suc j) b' idx' ps = Some (Suc j + k)" "b' < pg_len (ps ! k)"
      "\<forall>p\<in>set ps. pg_len p \<le> pg_len (ps ! k)" "\<forall>i<k. pg_len (ps ! i) < pg_len (ps ! k)" by blast
    have "pg_len ((p # ps) ! i) < pg_len (ps ! k)" if "i < Suc k" for i
      using that k(3,5) b'(2) by (cases i) auto
    then show ?case using k b' r by (intro disjI2 exI [of _ "Suc k"]) auto
  qed
qed simp

lemma biggest_page_first:
  assumes "ps \<noteq> []" and "\<forall>p\<in>set ps. pg_len p \<noteq> 0"
  obtains k where "k < length ps" and "biggest_page 0 0 None ps = Some k"
    and "\<forall>p\<in>set ps. pg_len p \<le> pg_len (ps ! k)" and "\<forall>i<k. pg_len (ps ! i) < pg_len (ps ! k)"
proof -
  obtain p qs where ps: "ps = p # qs" using assms(1) by (cases ps) auto
  have p: "pg_len p \<noteq> 0" using assms(2) ps by simp
  have r: "biggest_page 0 0 None ps = biggest_page 1 (pg_len p) (Some 0) qs" by (simp add: ps)
  from biggest_page_rest [OF p, of 1 "Some 0" qs] show thesis
  proof
    assume "biggest_page 1 (pg_len p) (Some 0) qs = Some 0 \<and> (\<forall>q\<in>set qs. pg_len q \<le> pg_len p)"
    then show thesis using that [of 0] r by (simp add: ps)
  next
    assume "\<exists>k<length qs. biggest_page 1 (pg_len p) (Some 0) qs = Some (1 + k) \<and> pg_len p < pg_len (qs ! k)
       \<and> (\<forall>p\<in>set qs. pg_len p \<le> pg_len (qs ! k)) \<and> (\<forall>i<k. pg_len (qs ! i) < pg_len (qs ! k))"
    then obtain k where k: "k < length qs" "biggest_page 1 (pg_len p) (Some 0) qs = Some (1 + k)" "pg_len p < pg_len (qs ! k)"
      "\<forall>p\<in>set qs. pg_len p \<le> pg_len (qs ! k)" "\<forall>i<k. pg_len (qs ! i) < pg_len (qs ! k)" by blast
    have "pg_len (ps ! i) < pg_len (qs ! k)" if "i < Suc k" for i using that k(3,5) ps by (cases i) auto
    then show thesis using that [of "Suc k"] k r by (auto simp: ps)
  qed
qed

lemma sort_key_first:
  assumes "k < length xs" and "\<forall>x\<in>set xs. f (xs ! k) \<le> f x" and "\<forall>i<k. f (xs ! k) < f (xs ! i)"
  shows "sort_key f xs = xs ! k # sort_key f (take k xs @ drop (Suc k) xs)"
proof (rule properties_for_sort_key)
  let ?r = "take k xs @ drop (Suc k) xs"
  have xs: "xs = take k xs @ xs ! k # drop (Suc k) xs" using assms(1) by (rule id_take_nth_drop)
  have "mset xs = mset (take k xs @ xs ! k # drop (Suc k) xs)" using xs by simp
  then show "mset (xs ! k # sort_key f ?r) = mset xs" by simp
  have sub: "set ?r \<subseteq> set xs" using set_take_subset [of k xs] set_drop_subset [of "Suc k" xs] by auto
  then show "sorted (map f (xs ! k # sort_key f ?r))" using assms(2) by auto
  fix y
  have "filter (\<lambda>x. f y = f x) (take k xs) = []" if "f y = f (xs ! k)"
    using that assms(1,3) by (fastforce simp: filter_empty_conv in_set_conv_nth)
  then have "filter (\<lambda>x. f y = f x) (xs ! k # ?r) = filter (\<lambda>x. f y = f x) (take k xs @ xs ! k # drop (Suc k) xs)" by auto
  moreover have "filter (\<lambda>x. f y = f x) (sort_key f ?r) = filter (\<lambda>x. f y = f x) ?r"
    using sort_key_stable [of f "f y" ?r] by (simp add: eq_commute)
  then have "filter (\<lambda>x. f y = f x) (xs ! k # sort_key f ?r) = filter (\<lambda>x. f y = f x) (xs ! k # ?r)"
    by (simp only: filter.simps)
  ultimately show "filter (\<lambda>x. f y = f x) (xs ! k # sort_key f ?r) = filter (\<lambda>x. f y = f x) xs"
    using xs by simp
qed

text \<open>The pages are sorted by descending length, and pages of equal length keep their order.\<close>
lemma sort_pages_sort_key:
  "\<forall>p\<in>set ps. pg_len p \<noteq> 0 \<Longrightarrow> sort_pages ps = Some (sort_key page_key ps)"
proof (induction ps rule: sort_pages.induct)
  case (1 ps)
  show ?case
  proof (cases "ps = []")
    case False
    obtain k where k: "k < length ps" "biggest_page 0 0 None ps = Some k"
      "\<forall>p\<in>set ps. pg_len p \<le> pg_len (ps ! k)" "\<forall>i<k. pg_len (ps ! i) < pg_len (ps ! k)"
      using biggest_page_first [OF False 1(2)] .
    let ?r = "take k ps @ drop (Suc k) ps"
    have m: "move_to_front k ps = ps ! k # ?r" using k(1) by (simp add: move_to_front_def Cons_nth_drop_Suc [symmetric])
    have "set ?r \<subseteq> set ps" using set_take_subset [of k ps] set_drop_subset [of "Suc k" ps] by auto
    then have "sort_pages ?r = Some (sort_key page_key ?r)" using 1(1) [OF False k(2) m] 1(2) by blast
    moreover have "sort_key page_key ps = ps ! k # sort_key page_key ?r"
      using k by (intro sort_key_first) (auto simp: page_key_def word_le_def word_less_def)
    ultimately show ?thesis using False k(2) m by (simp add: sort_pages.simps [of ps])
  qed (simp add: sort_pages.simps)
qed

section \<open>The pages of a zone\<close>

definition page_at :: "u64 \<Rightarrow> u64 \<Rightarrow> u64 \<Rightarrow> nat \<Rightarrow> hs_page" where
  "page_at hsz start phys k = \<lparr>pg_addr = start + of_nat k * hsz, pg_phys = phys + of_nat k * hsz, pg_len = hsz\<rparr>"

definition zone_start :: "rte_memzone \<Rightarrow> u64" where
  "zone_start mz = align_floor64 (mz_addr mz) (mz_hugepage_sz mz)"

definition zone_pstart :: "rte_memzone \<Rightarrow> u64" where
  "zone_pstart mz = align_floor64 (mz_phys_addr mz) (mz_hugepage_sz mz)"

definition zone_np :: "rte_memzone \<Rightarrow> nat" where
  "zone_np mz = unat (align_up64 (mz_len mz + (mz_addr mz - zone_start mz)) (mz_hugepage_sz mz)) div unat (mz_hugepage_sz mz)"

definition zone_pages :: "rte_memzone \<Rightarrow> hs_page list" where
  "zone_pages mz = map (page_at (mz_hugepage_sz mz) (zone_start mz) (zone_pstart mz)) [0..<zone_np mz]"

text \<open>
  A zone as the EAL makes it: in the lower part of the address space, on pages whose size is a
  power of two, not on the page at address 0, and at the same place in its physical page as in
  its virtual page.
\<close>
definition zone_ok :: "nat \<Rightarrow> rte_memzone \<Rightarrow> bool" where
  "zone_ok b mz \<longleftrightarrow> b < 48 \<and> mz_hugepage_sz mz = 2 ^ b \<and> mz_len mz \<noteq> 0 \<and> 2 ^ b \<le> unat (mz_addr mz)
     \<and> unat (mz_addr mz) + unat (mz_len mz) \<le> 2 ^ 62 \<and> unat (mz_phys_addr mz) + unat (mz_len mz) \<le> 2 ^ 62
     \<and> unat (mz_addr mz) mod 2 ^ b = unat (mz_phys_addr mz) mod 2 ^ b"

lemma unat_pow2: "b < 64 \<Longrightarrow> unat (2 ^ b :: u64) = 2 ^ b"
proof -
  assume b: "b < 64"
  then have "unat (of_nat (2 ^ b) :: u64) = 2 ^ b" by (simp only: unsigned_of_nat) (simp add: take_bit_nat_eq_self)
  then show ?thesis by simp
qed

lemma align_floor64_nat: "unat (align_floor64 v (2 ^ b)) = unat v div 2 ^ b * 2 ^ b"
  unfolding align_floor64_def mask_eq_exp_minus_1 [symmetric] unat_and_not_mask by (simp add: minus_mod_eq_div_mult)

lemma zone_nat:
  assumes "zone_ok b mz"
  shows "unat (mz_hugepage_sz mz) = 2 ^ b"
    and "unat (zone_start mz) = unat (mz_addr mz) div 2 ^ b * 2 ^ b"
    and "unat (zone_pstart mz) = unat (mz_phys_addr mz) div 2 ^ b * 2 ^ b"
    and "zone_np mz * 2 ^ b = RTE_ALIGN (unat (mz_len mz) + unat (mz_addr mz) mod 2 ^ b) (2 ^ b)"
    and "align_up64 (mz_len mz + (mz_addr mz - zone_start mz)) (mz_hugepage_sz mz) = of_nat (zone_np mz) * mz_hugepage_sz mz"
proof -
  let ?H = "2 ^ b :: nat" and ?a = "unat (mz_addr mz)" and ?l = "unat (mz_len mz)"
  have b: "b < 48" "mz_hugepage_sz mz = 2 ^ b" and le: "?a + ?l \<le> 2 ^ 62" using assms by (simp_all add: zone_ok_def)
  show h: "unat (mz_hugepage_sz mz) = ?H" using b by (simp add: unat_pow2)
  show st: "unat (zone_start mz) = ?a div ?H * ?H" by (simp add: zone_start_def b(2) align_floor64_nat)
  show "unat (zone_pstart mz) = unat (mz_phys_addr mz) div ?H * ?H" by (simp add: zone_pstart_def b(2) align_floor64_nat)
  have H: "?H < 2 ^ 48" using b(1) by (intro power_strict_increasing) simp_all
  have "unat (mz_addr mz - zone_start mz) = ?a - ?a div ?H * ?H"
    using st by (subst unat_sub) (simp_all add: word_le_nat_alt)
  then have off: "unat (mz_addr mz - zone_start mz) = ?a mod ?H" by (simp add: minus_div_mult_eq_mod)
  have m: "?a mod ?H < ?H" by simp
  let ?v = "mz_len mz + (mz_addr mz - zone_start mz)"
  have "l + x + (y - 1) < 2 ^ 64" if "l \<le> 2 ^ 62" "x < y" "y < 2 ^ 48" for l x y :: nat using that by simp
  then have bd: "?l + ?a mod ?H + (?H - 1) < 2 ^ 64" using le m H by (meson add_leD2)
  then have "?l + ?a mod ?H < 2 ^ 64" by linarith
  then have v: "unat ?v = ?l + ?a mod ?H" unfolding unat_word_ariths off by simp
  have "unat (of_nat (?H - 1) :: u64) = ?H - 1" using bd by (simp only: unsigned_of_nat) (simp add: take_bit_nat_eq_self)
  then have "unat (mask b :: u64) = ?H - 1" by (simp add: mask_eq_exp_minus_1 of_nat_diff)
  then have "unat (?v + mask b) = ?l + ?a mod ?H + (?H - 1)"
    unfolding unat_word_ariths(1) [of ?v] v using bd by simp
  then have up: "unat (align_up64 ?v (mz_hugepage_sz mz)) = RTE_ALIGN (?l + ?a mod ?H) ?H"
    unfolding align_up64_def b(2) align_floor64_nat mask_eq_exp_minus_1 [symmetric] RTE_ALIGN_def by simp
  have dv: "?H dvd RTE_ALIGN (?l + ?a mod ?H) ?H" by (rule RTE_ALIGN_bounds(3)) simp
  then show np: "zone_np mz * ?H = RTE_ALIGN (?l + ?a mod ?H) ?H" using up h by (simp add: zone_np_def)
  have "unat (of_nat (zone_np mz) * mz_hugepage_sz mz :: u64) = unat (of_nat (zone_np mz * ?H) :: u64)"
    by (simp add: b(2))
  also have "\<dots> = zone_np mz * ?H"
    using up np unsigned_less [of "align_up64 ?v (mz_hugepage_sz mz)", where ?'a = nat]
    by (simp only: unsigned_of_nat) (simp add: take_bit_nat_eq_self)
  finally show "align_up64 ?v (mz_hugepage_sz mz) = of_nat (zone_np mz) * mz_hugepage_sz mz"
    using up np by (simp add: word_unat_eq_iff)
qed

text \<open>The pages cover the zone.\<close>
lemma zone_cover:
  assumes "zone_ok b mz"
  shows "0 < zone_np mz"
    and "unat (zone_start mz) \<le> unat (mz_addr mz)" and "unat (mz_addr mz) < unat (zone_start mz) + 2 ^ b"
    and "unat (zone_pstart mz) \<le> unat (mz_phys_addr mz)" and "unat (mz_phys_addr mz) < unat (zone_pstart mz) + 2 ^ b"
    and "unat (mz_addr mz) + unat (mz_len mz) \<le> unat (zone_start mz) + zone_np mz * 2 ^ b"
    and "unat (zone_start mz) + zone_np mz * 2 ^ b < 2 ^ 63" and "unat (zone_pstart mz) + zone_np mz * 2 ^ b < 2 ^ 63"
    and "unat (zone_pstart mz) + (zone_np mz - 1) * 2 ^ b < unat (mz_phys_addr mz) + unat (mz_len mz)"
    and "zone_start mz \<noteq> 0"
proof -
  let ?H = "2 ^ b :: nat" and ?a = "unat (mz_addr mz)" and ?p = "unat (mz_phys_addr mz)" and ?l = "unat (mz_len mz)"
  note z = zone_nat [OF assms]
  have ok: "b < 48" "?a + ?l \<le> 2 ^ 62" "?p + ?l \<le> 2 ^ 62" "?H \<le> ?a" "?a mod ?H = ?p mod ?H" "0 < ?l"
    using assms by (simp_all add: zone_ok_def unat_gt_0)
  have H: "0 < ?H" "?H < 2 ^ 48" using ok(1) by (simp, intro power_strict_increasing) simp_all
  have da: "?a div ?H * ?H + ?a mod ?H = ?a" "?p div ?H * ?H + ?p mod ?H = ?p" by (rule div_mult_mod_eq)+
  have m: "?a mod ?H < ?H" "?p mod ?H < ?H" by simp_all
  have r: "?l + ?a mod ?H \<le> zone_np mz * ?H" "zone_np mz * ?H < ?l + ?a mod ?H + ?H"
    using RTE_ALIGN_bounds(1,2) [OF H(1), of "?l + ?a mod ?H"] unfolding z(4) by simp_all
  show np: "0 < zone_np mz" using r(1) ok(6) by (cases "zone_np mz") auto
  show "unat (zone_start mz) \<le> ?a" "?a < unat (zone_start mz) + ?H" "unat (zone_pstart mz) \<le> ?p" "?p < unat (zone_pstart mz) + ?H"
    unfolding z(2,3) using da m by linarith+
  show "?a + ?l \<le> unat (zone_start mz) + zone_np mz * ?H" unfolding z(2) using da r(1) by linarith
  have "x + np < 2 ^ 63" if "x + y = a" "np < l + y + h" "a + l \<le> 2 ^ 62" "h < 2 ^ 48" for x y a np l h :: nat
    using that by simp
  then show "unat (zone_start mz) + zone_np mz * ?H < 2 ^ 63" "unat (zone_pstart mz) + zone_np mz * ?H < 2 ^ 63"
    unfolding z(2,3) using da r(2) ok(2,3,5) H(2) by metis+
  have "(zone_np mz - 1) * ?H < ?l + ?a mod ?H" using r(2) np by (cases "zone_np mz") simp_all
  then show "unat (zone_pstart mz) + (zone_np mz - 1) * ?H < ?p + ?l" unfolding z(3) using da ok(5) by linarith
  have "?H \<le> ?a div ?H * ?H" using ok(4) H(1) by (simp add: Suc_leI div_greater_zero_iff)
  then show "zone_start mz \<noteq> 0" using z(2) H(1) by (metis le_zero_eq less_numeral_extra(3) unat_0)
qed

lemma zone_page_nat:
  assumes "zone_ok b mz" and "k < zone_np mz"
  shows "unat (pg_addr (page_at (mz_hugepage_sz mz) (zone_start mz) (zone_pstart mz) k)) = unat (zone_start mz) + k * 2 ^ b"
    and "unat (pg_phys (page_at (mz_hugepage_sz mz) (zone_start mz) (zone_pstart mz) k)) = unat (zone_pstart mz) + k * 2 ^ b"
    and "unat (pg_len (page_at (mz_hugepage_sz mz) (zone_start mz) (zone_pstart mz) k)) = 2 ^ b"
proof -
  have k: "k * 2 ^ b \<le> zone_np mz * 2 ^ b" using assms(2) by simp
  have b: "mz_hugepage_sz mz = of_nat (2 ^ b)" using assms(1) by (simp add: zone_ok_def)
  have u: "unat (x + of_nat k * mz_hugepage_sz mz) = unat x + k * 2 ^ b" if "unat x + zone_np mz * 2 ^ b < 2 ^ 63" for x :: u64
  proof -
    have "y + m < 2 ^ 64" if "y + n < 2 ^ 63" "m \<le> n" for y m n :: nat using that by simp
    then have lt: "unat x + k * 2 ^ b < 2 ^ 64" using that k by blast
    have "x + of_nat k * mz_hugepage_sz mz = of_nat (unat x + k * 2 ^ b)" by (simp add: b)
    then show ?thesis using lt by (simp only: unsigned_of_nat) (simp add: take_bit_nat_eq_self)
  qed
  show "unat (pg_addr (page_at (mz_hugepage_sz mz) (zone_start mz) (zone_pstart mz) k)) = unat (zone_start mz) + k * 2 ^ b"
    "unat (pg_phys (page_at (mz_hugepage_sz mz) (zone_start mz) (zone_pstart mz) k)) = unat (zone_pstart mz) + k * 2 ^ b"
    "unat (pg_len (page_at (mz_hugepage_sz mz) (zone_start mz) (zone_pstart mz) k)) = 2 ^ b"
    using u zone_cover(7,8) [OF assms(1)] zone_nat(1) [OF assms(1)] by (simp_all add: page_at_def)
qed


lemma zone_pages_Cons:
  assumes "zone_ok b mz"
  shows "zone_pages mz = page_at (mz_hugepage_sz mz) (zone_start mz) (zone_pstart mz) 0 #
    map (page_at (mz_hugepage_sz mz) (zone_start mz) (zone_pstart mz)) [1..<zone_np mz]"
  using zone_cover(1) [OF assms] by (simp add: zone_pages_def upt_conv_Cons)

lemma page_at_shift: "page_at h (s + h) (p + h) k = page_at h s p (Suc k)"
  by (simp add: page_at_def algebra_simps)

lemma unat_of_nat_mult: "n * unat h < 2 ^ 64 \<Longrightarrow> unat (of_nat n * h :: u64) = n * unat h"
proof -
  assume lt: "n * unat h < 2 ^ 64"
  have "of_nat n * h = of_nat (n * unat h)" by simp
  then show ?thesis using lt by (simp only: unsigned_of_nat) (simp add: take_bit_nat_eq_self)
qed

text \<open>Adding pages while there is room, and passing the pages that are there already.\<close>
lemma add_pages_all:
  assumes "n \<le> room" and "n * unat h < 2 ^ 64" and "h \<noteq> 0"
  shows "add_pages room h s p (of_nat n * h) = (map (page_at h s p) [0..<n], 0)"
  using assms
proof (induction room arbitrary: n s p)
  case (Suc room)
  show ?case
  proof (cases n)
    case (Suc m)
    have nz: "of_nat n * h \<noteq> 0"
      using unat_of_nat_mult [OF Suc.prems(2)] Suc Suc.prems(3) by (metis mult_is_0 nat.simps(3) unat_0 unat_eq_zero)
    have "m * unat h < 2 ^ 64" using Suc Suc.prems(2) by simp
    then have IH: "add_pages room h (s + h) (p + h) (of_nat m * h) = (map (page_at h (s + h) (p + h)) [0..<m], 0)"
      using Suc Suc.prems by (intro Suc.IH) simp_all
    have "of_nat n * h - h = of_nat m * h" using Suc by (simp add: algebra_simps)
    moreover have "map (page_at h s p) [0..<n] = page_at h s p 0 # map (page_at h (s + h) (p + h)) [0..<m]"
      by (simp add: Suc map_upt_Suc page_at_shift del: upt_Suc)
    ultimately show ?thesis using nz IH by (simp add: page_at_def [of h s p 0])
  qed simp
qed simp

lemma skip_pages_none: "\<forall>q\<in>set ps. pg_addr q \<noteq> s \<Longrightarrow> skip_pages h ps s p l = (s, p, l)"
  by (induction ps) simp_all

lemma skip_pages_append: "\<forall>q\<in>set ps. pg_addr q \<noteq> s \<Longrightarrow> skip_pages h (ps @ qs) s p l = skip_pages h qs s p l"
  by (induction ps) simp_all

text \<open>
  One zone: the pages it has in common with the pages so far are at most its first page, at the
  end of the list.
\<close>
lemma collect_entry_zone:
  assumes ok: "zone_ok b (he_mz en)"
    and ps: "ps = xs \<or> ps = xs @ [hd (zone_pages (he_mz en))]"
    and new: "\<forall>q\<in>set xs. pg_addr q \<noteq> zone_start (he_mz en)"
    and room: "length xs + zone_np (he_mz en) < HOSTSHMEM_MAX_PAGES"
  shows "collect_entry en ps = Some (xs @ zone_pages (he_mz en))"
proof -
  define mz where "mz = he_mz en"
  let ?h = "mz_hugepage_sz mz" and ?s = "zone_start mz" and ?p = "zone_pstart mz" and ?n = "zone_np mz"
  note z = zone_nat [OF ok, folded mz_def] and c = zone_cover [OF ok, folded mz_def]
  have len: "align_up64 (mz_len mz + (mz_addr mz - ?s)) ?h = of_nat ?n * ?h" by (rule z(5))
  have b64: "?n * unat ?h < 2 ^ 64" using c(7) unfolding z(1) by (rule order.strict_trans2 [OF le_add2 [THEN le_less_trans]]) simp
  have h0: "?h \<noteq> 0" using z(1) by (metis power_not_zero unat_0 zero_neq_numeral)
  have l0: "of_nat ?n * ?h \<noteq> 0"
    using unat_of_nat_mult [OF b64] c(1) h0 by (metis mult_is_0 not_less0 unat_0 unat_eq_zero)
  have a0: "mz_addr mz \<noteq> 0" using c(2,10) by (metis le_zero_eq unat_0 unat_eq_zero)
  note defs = collect_entry_def mz_def [symmetric] zone_start_def [symmetric] zone_pstart_def [symmetric] len
  from ps show ?thesis
  proof
    assume [simp]: "ps = xs"
    have "add_pages (HOSTSHMEM_MAX_PAGES - length xs) ?h ?s ?p (of_nat ?n * ?h) = (zone_pages mz, 0)"
      unfolding zone_pages_def using room h0 b64 by (intro add_pages_all) (simp_all add: mz_def)
    then show ?thesis
      using room new h0 l0 a0 c(10) skip_pages_none [of xs ?s] by (simp add: defs Let_def)
  next
    assume ps: "ps = xs @ [hd (zone_pages (he_mz en))]"
    obtain m where m: "?n = Suc m" using c(1) by (cases ?n) simp_all
    have "m * unat ?h < 2 ^ 64" using b64 m by simp
    then have ad: "add_pages (HOSTSHMEM_MAX_PAGES - Suc (length xs)) ?h (?s + ?h) (?p + ?h) (of_nat m * ?h) =
        (map (page_at ?h (?s + ?h) (?p + ?h)) [0..<m], 0)"
      using room h0 m by (intro add_pages_all) (simp_all add: mz_def)
    have zp: "zone_pages mz = page_at ?h ?s ?p 0 # map (page_at ?h (?s + ?h) (?p + ?h)) [0..<m]"
      by (simp add: zone_pages_def m map_upt_Suc page_at_shift del: upt_Suc)
    have "skip_pages ?h ps ?s ?p (of_nat ?n * ?h) = (?s + ?h, ?p + ?h, of_nat m * ?h)"
      using new by (simp add: ps mz_def [symmetric] skip_pages_append zp) (simp add: page_at_def m algebra_simps)
    then show ?thesis
      using room ad l0 a0 c(10) m by (simp add: defs Let_def) (simp add: ps mz_def [symmetric] zp)
  qed
qed

section \<open>The pages of all zones\<close>

text \<open>
  Pages of the same address space: two pages are the same or they have no byte in common,
  neither at their virtual nor at their physical addresses.
\<close>
definition page_apart :: "hs_page \<Rightarrow> hs_page \<Rightarrow> bool" where
  "page_apart p q \<longleftrightarrow>
     (unat (pg_addr p) + unat (pg_len p) \<le> unat (pg_addr q) \<or> unat (pg_addr q) + unat (pg_len q) \<le> unat (pg_addr p))
   \<and> (unat (pg_phys p) + unat (pg_len p) \<le> unat (pg_phys q) \<or> unat (pg_phys q) + unat (pg_len q) \<le> unat (pg_phys p))"

definition page_before :: "hs_page \<Rightarrow> hs_page \<Rightarrow> bool" where
  "page_before p q \<longleftrightarrow> unat (pg_phys p) + unat (pg_len p) \<le> unat (pg_phys q)"

definition zones_coherent :: "rte_memzone list \<Rightarrow> bool" where
  "zones_coherent zs \<longleftrightarrow> (\<forall>x\<in>set zs. \<forall>y\<in>set zs. \<forall>p\<in>set (zone_pages x). \<forall>q\<in>set (zone_pages y). p = q \<or> page_apart p q)"

lemma zones_coherent_mono: "zones_coherent ys \<Longrightarrow> set xs \<subseteq> set ys \<Longrightarrow> zones_coherent xs"
  unfolding zones_coherent_def by blast

lemma zone_page:
  assumes "zone_ok b z" and "p \<in> set (zone_pages z)"
  shows "unat (pg_len p) = 2 ^ b" and "unat (pg_phys p) < unat (mz_phys_addr z) + unat (mz_len z)"
    and "p = hd (zone_pages z) \<or> unat (mz_phys_addr z) < unat (pg_phys p)"
    and "unat (zone_pstart z) \<le> unat (pg_phys p)"
    and "unat (pg_addr p) + unat (pg_len p) < 2 ^ 63"
proof -
  obtain k where k: "k < zone_np z" "p = page_at (mz_hugepage_sz z) (zone_start z) (zone_pstart z) k"
    using assms(2) by (auto simp: zone_pages_def)
  note n = zone_page_nat [OF assms(1) k(1), folded k(2)] and c = zone_cover [OF assms(1)]
  show "unat (pg_len p) = 2 ^ b" by (rule n(3))
  have "k * 2 ^ b \<le> (zone_np z - 1) * 2 ^ b" using k(1) by (intro mult_le_mono1) simp
  then show "unat (pg_phys p) < unat (mz_phys_addr z) + unat (mz_len z)" unfolding n(2) using c(9) by linarith
  show "unat (zone_pstart z) \<le> unat (pg_phys p)" unfolding n(2) by simp
  show "p = hd (zone_pages z) \<or> unat (mz_phys_addr z) < unat (pg_phys p)"
  proof (cases k)
    case 0
    then show ?thesis using k(2) by (simp add: zone_pages_Cons [OF assms(1)])
  next
    case (Suc j)
    then have "2 ^ b \<le> k * 2 ^ b" by simp
    then show ?thesis unfolding n(2) using c(5) by linarith
  qed
  have "k * 2 ^ b + 2 ^ b \<le> zone_np z * 2 ^ b" using mult_le_mono1 [of "Suc k" "zone_np z" "2 ^ b"] k(1) by simp
  then show "unat (pg_addr p) + unat (pg_len p) < 2 ^ 63" unfolding n using c(7) by linarith
qed

lemma zone_first_page:
  assumes "zone_ok b z"
  shows "hd (zone_pages z) \<in> set (zone_pages z)" and "pg_addr (hd (zone_pages z)) = zone_start z"
    and "pg_phys (hd (zone_pages z)) = zone_pstart z"
  using zone_pages_Cons [OF assms] by (simp_all add: page_at_def)

text \<open>The pages of a zone ascend, and every page of a zone below lies below or is the first page.\<close>
lemma zone_pages_rise:
  assumes "zone_ok b z"
  shows "sorted_wrt page_before (zone_pages z)"
proof -
  have "page_before (zone_pages z ! i) (zone_pages z ! j)" if "i < j" "j < length (zone_pages z)" for i j
  proof -
    have "j < zone_np z" "i < zone_np z" using that by (simp_all add: zone_pages_def)
    moreover have "i * 2 ^ b + 2 ^ b \<le> j * 2 ^ b" using mult_le_mono1 [of "Suc i" j "2 ^ b"] that(1) by simp
    ultimately show ?thesis using zone_page_nat [OF assms]
      by (simp add: zone_pages_def page_before_def)
  qed
  then show ?thesis by (simp add: sorted_wrt_iff_nth_less)
qed

lemma zone_page_below:
  assumes ok: "zone_ok b z" "zone_ok c y" and le: "unat (mz_phys_addr y) + unat (mz_len y) \<le> unat (mz_phys_addr z)"
    and co: "q = hd (zone_pages z) \<or> page_apart q (hd (zone_pages z))" and q: "q \<in> set (zone_pages y)"
    and ne: "q \<noteq> hd (zone_pages z)"
  shows "pg_addr q \<noteq> zone_start z" and "\<forall>p\<in>set (zone_pages z). page_before q p"
proof -
  have a: "page_apart q (hd (zone_pages z))" using co ne by blast
  have l: "unat (pg_len q) = 2 ^ c" "unat (pg_len (hd (zone_pages z))) = 2 ^ b"
    using zone_page(1) [OF ok(2) q] zone_page(1) [OF ok(1) zone_first_page(1) [OF ok(1)]] by simp_all
  have pos: "(0::nat) < 2 ^ c" "(0::nat) < 2 ^ b" by simp_all
  show "pg_addr q \<noteq> zone_start z"
    using a unfolding page_apart_def l zone_first_page(2) [OF ok(1)] using pos by auto
  have "unat (pg_phys q) < unat (zone_pstart z) + 2 ^ b"
    using zone_page(2) [OF ok(2) q] le zone_cover(5) [OF ok(1)] by linarith
  then have "unat (pg_phys q) + 2 ^ c \<le> unat (zone_pstart z)"
    using a unfolding page_apart_def l zone_first_page(3) [OF ok(1)] by linarith
  then show "\<forall>p\<in>set (zone_pages z). page_before q p"
    unfolding page_before_def l using zone_page(4) [OF ok(1)] le_trans by blast
qed

text \<open>
  What the first pass has done after some of the zones: the pages ascend, they are the pages of the
  zones, and those of a zone stand side by side.
\<close>
definition zones_placed :: "rte_memzone list \<Rightarrow> hs_page list \<Rightarrow> bool" where
  "zones_placed zs ps \<longleftrightarrow> sorted_wrt page_before ps \<and> set ps = (\<Union>z\<in>set zs. set (zone_pages z))
     \<and> (\<forall>z\<in>set zs. sublist (zone_pages z) ps) \<and> length ps \<le> sum_list (map zone_np zs)"

lemma collect_entry_placed:
  assumes pl: "zones_placed zs ps" and ok: "\<forall>z\<in>set zs. \<exists>b. zone_ok b z" "zone_ok b (he_mz en)"
    and co: "zones_coherent (zs @ [he_mz en])"
    and le: "\<forall>y\<in>set zs. unat (mz_phys_addr y) + unat (mz_len y) \<le> unat (mz_phys_addr (he_mz en))"
    and room: "sum_list (map zone_np (zs @ [he_mz en])) < HOSTSHMEM_MAX_PAGES"
  shows "\<exists>ps'. collect_entry en ps = Some ps' \<and> zones_placed (zs @ [he_mz en]) ps'"
proof -
  define z where "z = he_mz en"
  let ?f = "hd (zone_pages z)"
  have ps: "sorted_wrt page_before ps" "set ps = (\<Union>z\<in>set zs. set (zone_pages z))"
    "\<forall>z\<in>set zs. sublist (zone_pages z) ps" "length ps \<le> sum_list (map zone_np zs)"
    using pl by (simp_all add: zones_placed_def)
  have fz: "?f \<in> set (zone_pages z)" "zone_pages z = ?f # List.tl (zone_pages z)"
    using zone_pages_Cons [OF ok(2)] by (simp_all add: z_def)
  have below: "pg_addr q \<noteq> zone_start z \<and> (\<forall>p\<in>set (zone_pages z). page_before q p)" if q: "q \<in> set ps" "q \<noteq> ?f" for q
  proof -
    obtain y where y: "y \<in> set zs" "q \<in> set (zone_pages y)" using q(1) ps(2) by blast
    obtain c where c: "zone_ok c y" using ok(1) y(1) by blast
    have "q = ?f \<or> page_apart q ?f" using co y fz(1) by (auto simp: zones_coherent_def z_def)
    then show ?thesis using zone_page_below [OF ok(2) c] le y q(2) by (auto simp: z_def)
  qed
  have irr: "\<not> page_before ?f ?f"
    using zone_page(1) [OF ok(2)] fz(1) by (simp add: page_before_def z_def)
  obtain xs where xs: "ps = xs \<or> ps = xs @ [?f]" "?f \<notin> set xs"
  proof (cases "?f \<in> set ps")
    case True
    then obtain xs ys where s: "ps = xs @ ?f # ys" by (meson split_list)
    have "y \<notin> set ys" for y
    proof
      assume y: "y \<in> set ys"
      then have b: "page_before ?f y" using ps(1) s by (simp add: sorted_wrt_append)
      then have "y \<noteq> ?f" using irr by metis
      then have "page_before y ?f" using below [of y] y s fz(1) by simp
      with b irr show False by (simp add: page_before_def)
    qed
    then have "ps = xs @ [?f]" using s by (cases ys) auto
    moreover have "?f \<notin> set xs" using ps(1) s irr by (auto simp: sorted_wrt_append)
    ultimately show thesis using that by blast
  qed (use that in blast)
  have sub: "set xs \<subseteq> set ps" "length xs \<le> length ps" using xs(1) by auto
  have r: "collect_entry en ps = Some (xs @ zone_pages z)"
    using xs sub below ps(4) room ok(2) unfolding z_def by (intro collect_entry_zone) (auto simp: z_def)
  have px: "prefix ps (xs @ zone_pages z)" using xs(1)
  proof
    assume "ps = xs @ [?f]"
    then show ?thesis using fz(2) by (metis append.assoc append_Cons append_Nil prefixI)
  qed simp
  have "zones_placed (zs @ [z]) (xs @ zone_pages z)"
    unfolding zones_placed_def
  proof (intro conjI ballI)
    have "sorted_wrt page_before xs" using ps(1) xs(1) by (auto simp: sorted_wrt_append)
    then show "sorted_wrt page_before (xs @ zone_pages z)"
      using zone_pages_rise [OF ok(2)] below sub xs(2) unfolding sorted_wrt_append z_def by blast
    have "set (xs @ zone_pages z) = set ps \<union> set (zone_pages z)" using xs(1) fz(1) by auto
    then show "set (xs @ zone_pages z) = (\<Union>z\<in>set (zs @ [z]). set (zone_pages z))" using ps(2) by auto
    show "length (xs @ zone_pages z) \<le> sum_list (map zone_np (zs @ [z]))"
      using sub(2) ps(4) by (simp add: zone_pages_def)
    fix y assume "y \<in> set (zs @ [z])"
    then show "sublist (zone_pages y) (xs @ zone_pages z)"
      using ps(3) px by (auto intro: sublist_order.order.trans prefix_imp_sublist)
  qed
  then show ?thesis using r z_def by auto
qed

lemma collect_pages_placed:
  assumes "zones_placed zs ps" and "\<forall>z\<in>set (zs @ map he_mz es). \<exists>b. zone_ok b z" and "zones_coherent (zs @ map he_mz es)"
    and "sorted_wrt (\<lambda>y z. unat (mz_phys_addr y) + unat (mz_len y) \<le> unat (mz_phys_addr z)) (zs @ map he_mz es)"
    and "sum_list (map zone_np (zs @ map he_mz es)) < HOSTSHMEM_MAX_PAGES"
  shows "\<exists>ps'. collect_pages es ps = Some ps' \<and> zones_placed (zs @ map he_mz es) ps'"
  using assms
proof (induction es arbitrary: zs ps)
  case (Cons en es)
  obtain b where b: "zone_ok b (he_mz en)" using Cons.prems(2) by auto
  have "\<exists>ps'. collect_entry en ps = Some ps' \<and> zones_placed (zs @ [he_mz en]) ps'"
    using Cons.prems b zones_coherent_mono [OF Cons.prems(3), of "zs @ [he_mz en]"]
    by (intro collect_entry_placed) (auto simp: sorted_wrt_append)
  then obtain ps' where ps': "collect_entry en ps = Some ps'" "zones_placed (zs @ [he_mz en]) ps'" by blast
  have "\<exists>ps''. collect_pages es ps' = Some ps'' \<and> zones_placed ((zs @ [he_mz en]) @ map he_mz es) ps''"
    using Cons.prems ps'(2) by (intro Cons.IH) simp_all
  then show ?case using ps'(1) by auto
qed simp

lemma collect_pages_append: "collect_pages (es @ fs) ps = do { ps \<leftarrow> collect_pages es ps; collect_pages fs ps }"
proof (induction es arbitrary: ps)
  case (Cons en es)
  then show ?case by (cases "collect_entry en ps") simp_all
qed simp

lemma collect_pages_unused: "\<forall>en\<in>set es. mz_addr (he_mz en) = 0 \<Longrightarrow> collect_pages es ps = Some ps"
  by (induction es) (simp_all add: collect_entry_def Let_def)

text \<open>A sorted list consists of what is below a key, what has the key, and what is above.\<close>
lemma sorted_split:
  "sorted (map f xs) \<Longrightarrow> xs = filter (\<lambda>x. f x < c) xs @ filter (\<lambda>x. f x = c) xs @ filter (\<lambda>x. c < f x) xs"
proof (induction xs)
  case (Cons x xs)
  have le: "\<forall>y\<in>set xs. f x \<le> f y" using Cons.prems by auto
  consider "f x < c" | "f x = c" | "c < f x" by (rule linorder_cases)
  then show ?case
  proof cases
    case 1
    then show ?thesis using Cons by auto
  next
    case 2
    then have "filter (\<lambda>y. f y < c) xs = []" using le by (auto simp: filter_empty_conv)
    then show ?thesis using Cons 2 by simp
  next
    case 3
    then have "filter (\<lambda>y. f y < c) xs = []" "filter (\<lambda>y. f y = c) xs = []" using le by (auto simp: filter_empty_conv)
    then show ?thesis using Cons 3 by simp
  qed
qed simp

text \<open>Sorting keeps neighbours with the same key together.\<close>
lemma sublist_sort_key:
  assumes "sublist ys xs" and "\<forall>y\<in>set ys. f y = c"
  shows "sublist ys (sort_key f xs)"
proof -
  obtain as bs where xs: "xs = as @ ys @ bs" using assms(1) by (auto simp: sublist_def)
  have "filter (\<lambda>x. f x = c) ys = ys" using assms(2) by simp
  then have "sublist ys (filter (\<lambda>x. f x = c) xs)" unfolding xs by (auto simp: sublist_def)
  then have "sublist ys (filter (\<lambda>x. f x = c) (sort_key f xs))" by (simp add: sort_key_stable)
  moreover have "sublist (filter (\<lambda>x. f x = c) (sort_key f xs)) (sort_key f xs)"
    using sorted_split [OF sorted_sort_key [of f xs], of c] unfolding sublist_def by metis
  ultimately show ?thesis by (rule sublist_order.order.trans)
qed

section \<open>The image\<close>

text \<open>
  What the guest sees: the pages one after the other. The physical address of the byte at an
  offset of the image.
\<close>
fun image_phys :: "hs_page list \<Rightarrow> nat \<Rightarrow> nat option" where
  "image_phys [] off = None"
| "image_phys (p # ps) off =
     (if off < unat (pg_len p) then Some (unat (pg_phys p) + off) else image_phys ps (off - unat (pg_len p)))"

abbreviation pages_len :: "hs_page list \<Rightarrow> nat" where
  "pages_len ps \<equiv> sum_list (map (\<lambda>p. unat (pg_len p)) ps)"

lemma image_phys_append: "image_phys (ps @ qs) (pages_len ps + k) = image_phys qs k"
  by (induction ps) simp_all

lemma page_offset_at:
  assumes "\<forall>q\<in>set as. page_apart q p \<and> unat (pg_addr q) + unat (pg_len q) < 2 ^ 63"
    and "unat (pg_addr p) + unat (pg_len p) < 2 ^ 63" and "i < unat (pg_len p)"
  shows "page_offset (pg_addr p + of_nat i) off (as @ p # bs) = Some (of_nat (pages_len as + i) + off)"
  using assms(1)
proof (induction as arbitrary: off)
  case Nil
  have w: "unat (x + y) = unat x + unat y" if "unat x + unat y < 2 ^ 63" for x y :: u64
    using that by (simp add: unat_word_ariths)
  have "i < 2 ^ 64" using assms(2,3) by simp
  then have "unat (of_nat i :: u64) = i" by (simp only: unsigned_of_nat) (simp add: take_bit_nat_eq_self)
  then show ?case using assms(2,3) w [of "pg_addr p" "of_nat i"] w [of "pg_addr p" "pg_len p"]
    by (simp add: word_le_nat_alt word_less_nat_alt)
next
  case (Cons q as)
  have w: "unat (x + y) = unat x + unat y" if "unat x + unat y < 2 ^ 63" for x y :: u64
    using that by (simp add: unat_word_ariths)
  have "i < 2 ^ 64" using assms(2,3) by simp
  then have "unat (of_nat i :: u64) = i" by (simp only: unsigned_of_nat) (simp add: take_bit_nat_eq_self)
  then have "\<not> (pg_addr q \<le> pg_addr p + of_nat i \<and> pg_addr p + of_nat i < pg_addr q + pg_len q)"
    using assms(2,3) Cons.prems w [of "pg_addr p" "of_nat i"] w [of "pg_addr q" "pg_len q"]
    by (auto simp: word_le_nat_alt word_less_nat_alt page_apart_def)
  then have "page_offset (pg_addr p + of_nat i) off ((q # as) @ p # bs) = page_offset (pg_addr p + of_nat i) (off + pg_len q) (as @ p # bs)"
    by auto
  also have "\<dots> = Some (of_nat (pages_len as + i) + (off + pg_len q))" using Cons by simp
  finally show ?case by (simp add: algebra_simps)
qed

text \<open>A zone whose pages stand side by side: its offset and the bytes that follow it in the image.\<close>
lemma zone_bytes:
  assumes ok: "zone_ok b z" and m: "m < zone_np z * 2 ^ b"
  shows "image_phys (zone_pages z @ bs) m = Some (unat (zone_pstart z) + m)"
proof -
  let ?pg = "page_at (mz_hugepage_sz z) (zone_start z) (zone_pstart z)" and ?k = "m div 2 ^ b"
  have k: "?k < zone_np z" using m by (simp add: less_mult_imp_div_less)
  then have "[0..<zone_np z] = [0..<?k] @ ?k # [Suc ?k..<zone_np z]"
    by (metis less_imp_le_nat upt_add_eq_append upt_conv_Cons le_add_diff_inverse zero_le)
  then have zp: "zone_pages z @ bs = map ?pg [0..<?k] @ ?pg ?k # map ?pg [Suc ?k..<zone_np z] @ bs"
    by (simp add: zone_pages_def)
  have "pages_len (map ?pg [0..<n]) = n * 2 ^ b" for n
    using zone_nat(1) [OF ok] by (induction n) (simp_all add: page_at_def)
  then have m': "m = pages_len (map ?pg [0..<?k]) + m mod 2 ^ b" by (simp only: div_mult_mod_eq)
  have "image_phys (zone_pages z @ bs) m = image_phys (?pg ?k # map ?pg [Suc ?k..<zone_np z] @ bs) (m mod 2 ^ b)"
    unfolding zp by (subst m') (rule image_phys_append)
  also have "\<dots> = Some (unat (pg_phys (?pg ?k)) + m mod 2 ^ b)" using zone_page_nat(3) [OF ok k] by simp
  also have "\<dots> = Some (unat (zone_pstart z) + m)" unfolding zone_page_nat(2) [OF ok k] add.assoc div_mult_mod_eq ..
  finally show ?thesis .
qed

lemma zone_in_image:
  assumes ok: "zone_ok b z" and pages: "pages = as @ zone_pages z @ bs"
    and apart: "\<forall>q\<in>set as. page_apart q (hd (zone_pages z)) \<and> unat (pg_addr q) + unat (pg_len q) < 2 ^ 63"
  defines "off \<equiv> pages_len as + unat (mz_addr z) mod 2 ^ b"
  shows "page_offset (mz_addr z) 0 pages = Some (of_nat off)"
    and "\<And>i. i < unat (mz_len z) \<Longrightarrow> image_phys pages (off + i) = Some (unat (mz_phys_addr z) + i)"
proof -
  let ?f = "hd (zone_pages z)" and ?j = "unat (mz_addr z) mod 2 ^ b"
  have f: "?f \<in> set (zone_pages z)" "zone_pages z = ?f # List.tl (zone_pages z)" "pg_addr ?f = zone_start z"
    using zone_pages_Cons [OF ok] zone_first_page [OF ok] by simp_all
  have da: "unat (mz_addr z) = unat (zone_start z) + ?j" "unat (mz_phys_addr z) = unat (zone_pstart z) + ?j"
    using ok unfolding zone_nat(2,3) [OF ok] zone_ok_def by (metis div_mult_mod_eq)+
  have "mz_addr z = of_nat (unat (zone_start z) + ?j)" by (simp only: da(1) [symmetric]) simp
  then have addr: "mz_addr z = pg_addr ?f + of_nat ?j" using f(3) by simp
  have "page_offset (pg_addr ?f + of_nat ?j) 0 (as @ ?f # List.tl (zone_pages z) @ bs) = Some (of_nat (pages_len as + ?j) + 0)"
    using apart zone_page(1,5) [OF ok f(1)] by (intro page_offset_at) simp_all
  moreover have "as @ ?f # List.tl (zone_pages z) @ bs = pages" 
    unfolding pages by (subst (3) f(2)) simp
  ultimately show "page_offset (mz_addr z) 0 pages = Some (of_nat off)"
    unfolding addr [symmetric] off_def by simp
  fix i assume i: "i < unat (mz_len z)"
  have "?j + i < zone_np z * 2 ^ b" using i zone_cover(6) [OF ok] da(1) by linarith
  then have "image_phys (zone_pages z @ bs) (?j + i) = Some (unat (zone_pstart z) + (?j + i))" by (rule zone_bytes [OF ok])
  then show "image_phys pages (off + i) = Some (unat (mz_phys_addr z) + i)"
    unfolding pages off_def add.assoc image_phys_append da(2) by simp
qed

section \<open>From the entries to the image\<close>

definition used_entries :: "hostshmem_metadata_entry list \<Rightarrow> hostshmem_metadata_entry list" where
  "used_entries es = filter (\<lambda>en. mz_addr (he_mz en) \<noteq> 0) es"

text \<open>Zones of one address space without common bytes, on less than 4096 pages.\<close>
definition zones_fit :: "rte_memzone list \<Rightarrow> bool" where
  "zones_fit zs \<longleftrightarrow> (\<forall>z\<in>set zs. \<exists>b. zone_ok b z) \<and> zones_coherent zs \<and> distinct zs
     \<and> (\<forall>x\<in>set zs. \<forall>y\<in>set zs. x = y \<or> unat (mz_phys_addr x) + unat (mz_len x) \<le> unat (mz_phys_addr y)
                                  \<or> unat (mz_phys_addr y) + unat (mz_len y) \<le> unat (mz_phys_addr x))
     \<and> sum_list (map zone_np zs) < HOSTSHMEM_MAX_PAGES"

text \<open>The sorted entries: the used ones by their physical address, then the unused ones.\<close>
lemma qsort_entries_split:
  "qsort entry_compare es = sort_key entry_key (used_entries es) @ filter (\<lambda>en. mz_addr (he_mz en) = 0) es"
proof -
  have lt: "unat x < 2 ^ 64" for x :: u64 using unsigned_less [of x, where ?'a = nat] by simp
  have "(entry_key en < 2 ^ 64) = (mz_addr (he_mz en) \<noteq> 0)" "(entry_key en = 2 ^ 64) = (mz_addr (he_mz en) = 0)"
    "\<not> 2 ^ 64 < entry_key en" for en
    using lt [of "mz_phys_addr (he_mz en)"] by (auto simp: entry_key_def)
  then have "sort_key entry_key es = filter (\<lambda>en. mz_addr (he_mz en) \<noteq> 0) (sort_key entry_key es)
       @ filter (\<lambda>en. entry_key en = 2 ^ 64) (sort_key entry_key es)"
    and u: "(\<lambda>en. mz_addr (he_mz en) = 0) = (\<lambda>en. entry_key en = 2 ^ 64)"
    using sorted_split [OF sorted_sort_key [of entry_key es], of "2 ^ 64"] by auto
  then show ?thesis unfolding qsort_entries used_entries_def u sort_key_stable by (simp add: filter_sort)
qed

lemma sorted_zones_rise:
  assumes "zones_fit (map he_mz es)"
  shows "sorted_wrt (\<lambda>y z. unat (mz_phys_addr y) + unat (mz_len y) \<le> unat (mz_phys_addr z)) (map he_mz (sort_key entry_key es))"
proof -
  let ?zs = "map he_mz (sort_key entry_key es)"
  have "sorted (map entry_key (sort_key entry_key es))" by (rule sorted_sort_key)
  then have key: "entry_key (sort_key entry_key es ! i) \<le> entry_key (sort_key entry_key es ! j)" if "i < j" "j < length es" for i j
    using that by (simp add: sorted_iff_nth_mono)
  have ms: "mset ?zs = mset (map he_mz es)" by simp
  then have d: "distinct ?zs" "set ?zs = set (map he_mz es)"
    using assms mset_eq_imp_distinct_iff [OF ms] by (simp_all add: zones_fit_def)
  have "unat (mz_phys_addr (?zs ! i)) + unat (mz_len (?zs ! i)) \<le> unat (mz_phys_addr (?zs ! j))"
    if ij: "i < j" "j < length ?zs" for i j
  proof -
    have m: "?zs ! i \<in> set (map he_mz es)" "?zs ! j \<in> set (map he_mz es)" using ij d(2) nth_mem [of _ ?zs] by auto
    obtain b c where ok: "zone_ok b (?zs ! i)" "zone_ok c (?zs ! j)" using m assms by (meson zones_fit_def)
    have nz: "mz_addr (?zs ! i) \<noteq> 0" "mz_addr (?zs ! j) \<noteq> 0" "0 < unat (mz_len (?zs ! j))"
      using ok by (auto simp: zone_ok_def unat_gt_0)
    have "?zs ! i \<noteq> ?zs ! j" using nth_eq_iff_index_eq [OF d(1), of i j] ij by simp
    then have or: "unat (mz_phys_addr (?zs ! i)) + unat (mz_len (?zs ! i)) \<le> unat (mz_phys_addr (?zs ! j))
        \<or> unat (mz_phys_addr (?zs ! j)) + unat (mz_len (?zs ! j)) \<le> unat (mz_phys_addr (?zs ! i))"
      using assms m unfolding zones_fit_def by blast
    have "unat (mz_phys_addr (?zs ! i)) \<le> unat (mz_phys_addr (?zs ! j))"
      using key [of i j] ij nz by (simp add: entry_key_def)
    then show ?thesis using or nz(3) by linarith
  qed
  then show ?thesis by (simp add: sorted_wrt_iff_nth_less)
qed

lemma zones_placed_pages:
  assumes "zones_placed zs ps" and "zones_fit zs"
  shows "distinct ps" and "\<forall>p\<in>set ps. \<forall>q\<in>set ps. p = q \<or> page_apart p q"
    and "\<forall>p\<in>set ps. pg_len p \<noteq> 0 \<and> unat (pg_len p) \<le> 2 ^ 48 \<and> unat (pg_addr p) + unat (pg_len p) < 2 ^ 63"
proof -
  have in_zone: "\<exists>z b. z \<in> set zs \<and> zone_ok b z \<and> p \<in> set (zone_pages z)" if "p \<in> set ps" for p
    using that assms unfolding zones_placed_def zones_fit_def by blast
  have len: "pg_len p \<noteq> 0 \<and> unat (pg_len p) \<le> 2 ^ 48 \<and> unat (pg_addr p) + unat (pg_len p) < 2 ^ 63" if p: "p \<in> set ps" for p
  proof -
    obtain z b where z: "zone_ok b z" "p \<in> set (zone_pages z)" using in_zone [OF p] by blast
    have "unat (pg_len p) = 2 ^ b" "b < 48" using zone_page(1) [OF z] z(1) by (simp_all add: zone_ok_def)
    moreover have "(2::nat) ^ b \<le> 2 ^ 48" if "b < 48" using that by (intro power_increasing) simp_all
    ultimately show ?thesis using zone_page(5) [OF z] by auto
  qed
  then show "\<forall>p\<in>set ps. pg_len p \<noteq> 0 \<and> unat (pg_len p) \<le> 2 ^ 48 \<and> unat (pg_addr p) + unat (pg_len p) < 2 ^ 63" by blast
  have "\<not> page_before p p" if "p \<in> set ps" for p using len [OF that] by (simp add: page_before_def unat_gt_0)
  moreover have "sorted_wrt page_before ps" using assms(1) by (simp add: zones_placed_def)
  ultimately show "distinct ps" by (auto simp: distinct_conv_nth sorted_wrt_iff_nth_less) (metis linorder_neqE_nat nth_mem)
  show "\<forall>p\<in>set ps. \<forall>q\<in>set ps. p = q \<or> page_apart p q"
  proof (intro ballI)
    fix p q assume "p \<in> set ps" "q \<in> set ps"
    then obtain x y where xy: "x \<in> set zs" "y \<in> set zs" "p \<in> set (zone_pages x)" "q \<in> set (zone_pages y)"
      using in_zone by metis
    have "zones_coherent zs" using assms(2) by (simp add: zones_fit_def)
    then show "p = q \<or> page_apart p q" unfolding zones_coherent_def using xy by simp
  qed
qed

text \<open>An image serves a zone at an offset when the bytes there are those of the zone.\<close>
definition image_serves :: "hs_page list \<Rightarrow> rte_memzone \<Rightarrow> u64 \<Rightarrow> bool" where
  "image_serves pages z off \<longleftrightarrow> (\<forall>i<unat (mz_len z). image_phys pages (unat off + i) = Some (unat (mz_phys_addr z) + i))"

lemma sorted_pages_serve:
  assumes pl: "zones_placed zs ps" and fit: "zones_fit zs" and z: "z \<in> set zs"
  shows "\<exists>off. page_offset (mz_addr z) 0 (sort_key page_key ps) = Some off \<and> image_serves (sort_key page_key ps) z off"
proof -
  let ?pages = "sort_key page_key ps"
  note ps = zones_placed_pages [OF pl fit]
  obtain b where ok: "zone_ok b z" using fit z by (auto simp: zones_fit_def)
  have "page_key p = - uint (mz_hugepage_sz z)" if "p \<in> set (zone_pages z)" for p
    using that by (auto simp: zone_pages_def page_at_def page_key_def)
  then have "sublist (zone_pages z) ?pages"
    using pl z by (intro sublist_sort_key) (auto simp: zones_placed_def)
  then obtain as bs where pages: "?pages = as @ zone_pages z @ bs" by (auto simp: sublist_def)
  have d: "distinct ?pages" "set ?pages = set ps" using ps(1) by simp_all
  have sub: "set as \<subseteq> set ps" using d(2) unfolding pages by auto
  have f: "hd (zone_pages z) \<in> set (zone_pages z)" by (rule zone_first_page(1) [OF ok])
  then have "hd (zone_pages z) \<in> set ps" "hd (zone_pages z) \<notin> set as" using d unfolding pages by auto
  then have apart: "\<forall>q\<in>set as. page_apart q (hd (zone_pages z)) \<and> unat (pg_addr q) + unat (pg_len q) < 2 ^ 63"
    using ps(2,3) sub by (metis subsetD)
  let ?off = "pages_len as + unat (mz_addr z) mod 2 ^ b"
  have "unat (pg_len p) \<le> 2 ^ 48" if "p \<in> set as" for p using that ps(3) sub by blast
  then have "pages_len as \<le> sum_list (map (\<lambda>_. 2 ^ 48) as)" by (rule sum_list_mono)
  then have "pages_len as \<le> length as * 2 ^ 48" by (simp add: sum_list_triv)
  moreover have "length as \<le> length ?pages" unfolding pages by simp
  then have "length as < HOSTSHMEM_MAX_PAGES" using pl fit by (simp add: zones_placed_def zones_fit_def)
  moreover have "unat (mz_addr z) mod 2 ^ b < 2 ^ b" by simp
  moreover have "(2::nat) ^ b \<le> 2 ^ 48" using ok by (intro power_increasing) (simp_all add: zone_ok_def)
  moreover have "p + x < 2 ^ 64" if "p \<le> n * 2 ^ 48" "n < HOSTSHMEM_MAX_PAGES" "x < h" "h \<le> 2 ^ 48" for p x n h :: nat
    using that by (simp add: HOSTSHMEM_MAX_PAGES_def)
  ultimately have "?off < 2 ^ 64" by blast
  then have "unat (of_nat ?off :: u64) = ?off" by (simp only: unsigned_of_nat) (simp add: take_bit_nat_eq_self)
  then show ?thesis using zone_in_image [OF ok pages apart] unfolding image_serves_def by (intro exI conjI) (assumption, simp)
qed

end
