(* ===== verification/Rte_Hostshmem_Build.thy ===== *)
theory Rte_Hostshmem_Build
  imports Rte_Hostshmem_Image
begin

text \<open>
  The configuration of the shared memory as a whole: what \<open>build_config\<close> makes of the entries of a
  metadata file, from the sorted entries to the table of huge pages, when it succeeds, and when the
  table of huge pages is too small for the pages.
\<close>

section \<open>Pages, offsets, files\<close>

lemma build_pages:
  assumes "zones_fit (map he_mz (used_entries es))"
  obtains pages where "collect_pages (qsort entry_compare es) [] \<bind> sort_pages = Some pages"
    and "\<forall>en\<in>set (used_entries es). \<exists>off. page_offset (mz_addr (he_mz en)) 0 pages = Some off \<and> image_serves pages (he_mz en) off"
    and "set pages = (\<Union>en\<in>set (used_entries es). set (zone_pages (he_mz en)))"
    and "distinct pages" and "length pages < HOSTSHMEM_MAX_PAGES"
proof -
  let ?us = "sort_key entry_key (used_entries es)"
  have ms: "mset (map he_mz ?us) = mset (map he_mz (used_entries es))" by simp
  have fit: "zones_fit (map he_mz ?us)"
    using assms mset_eq_imp_distinct_iff [OF ms] mset_eq_setD [OF ms]
      sum_mset_sum_list [of "map zone_np (map he_mz ?us)"] sum_mset_sum_list [of "map zone_np (map he_mz (used_entries es))"]
    by (simp add: zones_fit_def zones_coherent_def)
  have "\<exists>ps. collect_pages ?us [] = Some ps \<and> zones_placed ([] @ map he_mz ?us) ps"
    using fit sorted_zones_rise [OF assms] by (intro collect_pages_placed) (simp_all add: zones_fit_def zones_placed_def)
  then obtain ps where ps: "collect_pages ?us [] = Some ps" "zones_placed (map he_mz ?us) ps" by auto
  have c: "collect_pages (qsort entry_compare es) [] = Some ps"
    unfolding qsort_entries_split collect_pages_append ps(1) by (simp add: collect_pages_unused)
  note pp = zones_placed_pages [OF ps(2) fit]
  have so: "sort_pages ps = Some (sort_key page_key ps)" using pp(3) by (intro sort_pages_sort_key) blast
  show thesis
  proof (rule that)
    show "collect_pages (qsort entry_compare es) [] \<bind> sort_pages = Some (sort_key page_key ps)" using c so by simp
    show "\<forall>en\<in>set (used_entries es). \<exists>off. page_offset (mz_addr (he_mz en)) 0 (sort_key page_key ps) = Some off \<and>
        image_serves (sort_key page_key ps) (he_mz en) off"
      using sorted_pages_serve [OF ps(2) fit] by simp
    show "set (sort_key page_key ps) = (\<Union>en\<in>set (used_entries es). set (zone_pages (he_mz en)))"
      using ps(2) by (simp add: zones_placed_def)
    show "distinct (sort_key page_key ps)" using pp(1) by simp
    show "length (sort_key page_key ps) < HOSTSHMEM_MAX_PAGES" using ps(2) fit by (simp add: zones_placed_def zones_fit_def)
  qed
qed

lemma write_offsets_used:
  assumes "\<forall>en\<in>set us. mz_addr (he_mz en) \<noteq> 0 \<and> page_offset (mz_addr (he_mz en)) 0 pages = Some (f en)"
    and "\<forall>en\<in>set ns. mz_addr (he_mz en) = 0"
  shows "write_offsets pages (us @ ns) = Some (map (\<lambda>en. en\<lparr>he_offset := f en\<rparr>) us @ ns)"
  using assms(1)
proof (induction us)
  case Nil
  then show ?case using assms(2) by (cases ns) simp_all
qed simp

text \<open>The map of the process names a file, with a path that fits, for the address.\<close>
definition file_known :: "string option \<Rightarrow> u64 \<Rightarrow> bool" where
  "file_known maps a = (case maps of
     None \<Rightarrow> False
   | Some txt \<Rightarrow> (case hugefile_loop a (fgets_lines (2 * PATH_MAX - 1) txt) of
                    Inl _ \<Rightarrow> False | Inr (start, path) \<Rightarrow> length path < PATH_MAX))"

lemma get_hugefile_known: "file_known maps a \<Longrightarrow> \<exists>e'. get_hugefile_by_virt_addr maps a e = Some (0, e')"
  by (auto simp: file_known_def get_hugefile_by_virt_addr_def Let_def split: option.splits sum.splits prod.splits)

lemma cache_pages_known:
  assumes "\<forall>p\<in>set pages. file_known maps (pg_addr p)" and "n + length pages \<le> HOSTSHMEM_MAX_PAGES"
    and "length ms = HOSTSHMEM_MAX_PAGES" and "pred_option (\<lambda>k. k < HOSTSHMEM_MAX_PAGES) prev"
  shows "\<exists>ms'. cache_pages maps pages n prev ms = Some (Some ms') \<and> length ms' = HOSTSHMEM_MAX_PAGES"
  using assms
proof (induction pages arbitrary: n prev ms)
  case (Cons p ps)
  have n: "n < HOSTSHMEM_MAX_PAGES" "aget ms n = Some (ms ! n)" using Cons.prems by (simp_all add: aget_def)
  obtain c where c: "get_hugefile_by_virt_addr maps (pg_addr p) ((ms ! n)\<lparr>ms_len := pg_len p\<rparr>) = Some (0, c)"
    using Cons.prems(1) get_hugefile_known by (metis list.set_intros(1))
  have fresh: "\<exists>ms'. cache_pages maps ps (Suc n) (Some n) (ms[n := c]) = Some (Some ms') \<and> length ms' = HOSTSHMEM_MAX_PAGES"
    using Cons.prems n by (intro Cons.IH) simp_all
  show ?case
  proof (cases prev)
    case None
    then show ?thesis using fresh n c by simp
  next
    case (Some k)
    then have k: "aget ms k = Some (ms ! k)" using Cons.prems by (simp add: aget_def)
    have "\<exists>ms'. cache_pages maps ps n prev (ms[k := q, n := null_ms]) = Some (Some ms') \<and> length ms' = HOSTSHMEM_MAX_PAGES" for q
      using Cons.prems by (intro Cons.IH) simp_all
    then show ?thesis using fresh n c k Some by (simp add: Let_def)
  qed
qed simp

text \<open>The page that an entry of the table of huge pages describes.\<close>
definition hp_page :: "hostshmem_hugepage_entry \<Rightarrow> hs_page" where
  "hp_page h = \<lparr>pg_addr = mz_addr (hp_mz h), pg_phys = mz_phys_addr (hp_mz h), pg_len = mz_len (hp_mz h)\<rparr>"

lemma write_hps_fits:
  "i + length ps \<le> length hps \<Longrightarrow> i + length ps \<le> length ms \<Longrightarrow>
   \<exists>hps'. write_hps i ps ms hps = Some hps' \<and> length hps' = length hps \<and> take i hps' = take i hps
     \<and> map hp_page (take (length ps) (drop i hps')) = ps"
proof (induction ps arbitrary: i hps)
  case (Cons p ps)
  let ?h = "\<lparr>hp_mz = (hp_mz (hps ! i))\<lparr>mz_name := ''hugepage_'' @ show_nat i, mz_phys_addr := pg_phys p, mz_addr := pg_addr p,
     mz_len := pg_len p, mz_hugepage_sz := 0, mz_socket_id := 0\<rparr>, hp_path = ms_filepath (ms ! i)\<rparr>"
  have "\<exists>hps'. write_hps (Suc i) ps ms (hps[i := ?h]) = Some hps' \<and> length hps' = length (hps[i := ?h])
      \<and> take (Suc i) hps' = take (Suc i) (hps[i := ?h]) \<and> map hp_page (take (length ps) (drop (Suc i) hps')) = ps"
    using Cons.prems by (intro Cons.IH) simp_all
  then obtain hps' where h: "write_hps (Suc i) ps ms (hps[i := ?h]) = Some hps'" "length hps' = length hps"
    "take (Suc i) hps' = take (Suc i) (hps[i := ?h])" "map hp_page (take (length ps) (drop (Suc i) hps')) = ps" by auto
  have i: "i < length hps" "i < length ms" using Cons.prems by simp_all
  have "hps' ! i = take (Suc i) hps' ! i" by simp
  also have "\<dots> = ?h" unfolding h(3) using i(1) by simp
  finally have nth: "hps' ! i = ?h" .
  have "take i hps' = take i (take (Suc i) hps')" by (simp add: min_def)
  also have "\<dots> = take i hps" unfolding h(3) by (simp add: min_def)
  finally have tk: "take i hps' = take i hps" .
  have "drop i hps' = ?h # drop (Suc i) hps'" using Cons_nth_drop_Suc [of i hps'] i(1) h(2) nth by simp
  moreover have "hp_page ?h = p" by (simp add: hp_page_def)
  ultimately show ?case using h tk i by (simp add: aget_def)
qed simp

lemma write_hps_overflow: "length hps < i + length ps \<Longrightarrow> ps \<noteq> [] \<Longrightarrow> write_hps i ps ms hps = None"
proof (induction ps arbitrary: i hps)
  case (Cons p ps)
  show ?case
  proof (cases "i < length hps")
    case True
    then have "ps \<noteq> []" using Cons.prems by auto
    then have "write_hps (Suc i) ps ms (hps[i := h]) = None" for h using Cons.prems by (intro Cons.IH) simp_all
    then show ?thesis by (cases "aget hps i"; cases "aget ms i") simp_all
  qed (simp add: aget_def)
qed simp

lemma get_config_loop_less: "get_config_loop g name = Some ci \<Longrightarrow> ci < length g"
  by (induction g arbitrary: ci) (auto split: option.splits if_splits)

text \<open>
  Up to the table of huge pages: the pages are there with an offset for every zone, and the cache of
  files is filled.
\<close>
lemma build_config_pages:
  assumes name: "get_config_by_name g name = Some ci"
    and md: "hc_metadata (g ! ci) = Some md" and hp: "hc_hp_metadata (g ! ci) = Some hp"
    and cache: "length (hc_memseg_cache (g ! ci)) = HOSTSHMEM_MAX_PAGES"
    and fit: "zones_fit (map he_mz (used_entries (hm_entry md)))"
    and known: "\<forall>en\<in>set (used_entries (hm_entry md)). \<forall>p\<in>set (zone_pages (he_mz en)). file_known maps (pg_addr p)"
  obtains pages ms f where
    "length pages = card (\<Union>en\<in>set (used_entries (hm_entry md)). set (zone_pages (he_mz en)))"
    and "length ms = HOSTSHMEM_MAX_PAGES" and "length pages < HOSTSHMEM_MAX_PAGES"
    and "\<forall>en\<in>set (used_entries (hm_entry md)). image_serves pages (he_mz en) (f en)"
    and "build_config maps g name = do {
       hps \<leftarrow> write_hps 0 pages ms (hp_entries hp);
       Some (0, g[ci := (g ! ci)\<lparr>hc_metadata := Some (md\<lparr>hm_entry :=
           map (\<lambda>en. en\<lparr>he_offset := f en\<rparr>) (sort_key entry_key (used_entries (hm_entry md)))
           @ filter (\<lambda>en. mz_addr (he_mz en) = 0) (hm_entry md)\<rparr>),
         hc_hp_metadata := Some (hp\<lparr>hp_entries := hps\<rparr>), hc_memseg_cache := ms\<rparr>]) }"
proof -
  let ?es = "hm_entry md"
  obtain pages where p: "collect_pages (qsort entry_compare ?es) [] \<bind> sort_pages = Some pages"
    "\<forall>en\<in>set (used_entries ?es). \<exists>off. page_offset (mz_addr (he_mz en)) 0 pages = Some off \<and> image_serves pages (he_mz en) off"
    "set pages = (\<Union>en\<in>set (used_entries ?es). set (zone_pages (he_mz en)))"
    "distinct pages" "length pages < HOSTSHMEM_MAX_PAGES"
    using build_pages [OF fit] .
  obtain f where f: "\<forall>en\<in>set (used_entries ?es). page_offset (mz_addr (he_mz en)) 0 pages = Some (f en) \<and> image_serves pages (he_mz en) (f en)"
    using p(2) by metis
  have "\<exists>ms. cache_pages maps pages 0 None (hc_memseg_cache (g ! ci)) = Some (Some ms) \<and> length ms = HOSTSHMEM_MAX_PAGES"
    using known p(3,5) cache by (intro cache_pages_known) auto
  then obtain ms where ms: "cache_pages maps pages 0 None (hc_memseg_cache (g ! ci)) = Some (Some ms)" "length ms = HOSTSHMEM_MAX_PAGES"
    by blast
  have off: "write_offsets pages (qsort entry_compare ?es) =
      Some (map (\<lambda>en. en\<lparr>he_offset := f en\<rparr>) (sort_key entry_key (used_entries ?es)) @ filter (\<lambda>en. mz_addr (he_mz en) = 0) ?es)"
    unfolding qsort_entries_split using f by (intro write_offsets_used) (simp_all add: used_entries_def)
  obtain ps where ps: "collect_pages (qsort entry_compare ?es) [] = Some ps" "sort_pages ps = Some pages"
    using p(1) by (auto simp: bind_eq_Some_conv)
  have ci: "aget g ci = Some (g ! ci)" using name get_config_loop_less by (auto simp: get_config_by_name_def aget_def)
  show thesis
  proof (rule that)
    show "length pages = card (\<Union>en\<in>set (used_entries ?es). set (zone_pages (he_mz en)))"
      using distinct_card [OF p(4)] p(3) by simp
    show "\<forall>en\<in>set (used_entries ?es). image_serves pages (he_mz en) (f en)" using f by blast
    show "build_config maps g name = do {
       hps \<leftarrow> write_hps 0 pages ms (hp_entries hp);
       Some (0, g[ci := (g ! ci)\<lparr>hc_metadata := Some (md\<lparr>hm_entry :=
           map (\<lambda>en. en\<lparr>he_offset := f en\<rparr>) (sort_key entry_key (used_entries ?es))
           @ filter (\<lambda>en. mz_addr (he_mz en) = 0) ?es\<rparr>),
         hc_hp_metadata := Some (hp\<lparr>hp_entries := hps\<rparr>), hc_memseg_cache := ms\<rparr>]) }"
      by (simp add: build_config_def name ci md hp ps off ms(1) Let_def)
  qed (use ms(2) p(5) in simp_all)
qed

text \<open>
  C11. The image of the shared zones. When the zones of a configuration lie in one address space
  without common bytes, on at most 32 pages in all, and the map of the process names a file for each
  of these pages, \<open>build_config\<close> succeeds, keeps the zones, and gives every zone an offset such that
  in the concatenation of the pages that the table of huge pages lists, each byte of the zone
  is found at its distance from the offset.
\<close>
theorem build_config_image:
  assumes "get_config_by_name g name = Some ci"
    and "hc_metadata (g ! ci) = Some md" and "hc_hp_metadata (g ! ci) = Some hp"
    and "length (hc_memseg_cache (g ! ci)) = HOSTSHMEM_MAX_PAGES" and "length (hp_entries hp) = HOSTSHMEM_MAX_HUGEPAGES"
    and "zones_fit (map he_mz (used_entries (hm_entry md)))"
    and "\<forall>en\<in>set (used_entries (hm_entry md)). \<forall>p\<in>set (zone_pages (he_mz en)). file_known maps (pg_addr p)"
    and "card (\<Union>en\<in>set (used_entries (hm_entry md)). set (zone_pages (he_mz en))) \<le> HOSTSHMEM_MAX_HUGEPAGES"
  shows "\<exists>g' md' hp' n. build_config maps g name = Some (0, g')
     \<and> hc_metadata (g' ! ci) = Some md' \<and> hc_hp_metadata (g' ! ci) = Some hp'
     \<and> mset (map he_mz (hm_entry md')) = mset (map he_mz (hm_entry md))
     \<and> (\<forall>en\<in>set (used_entries (hm_entry md')). image_serves (map hp_page (take n (hp_entries hp'))) (he_mz en) (he_offset en))"
proof -
  obtain pages ms f where p: "length pages = card (\<Union>en\<in>set (used_entries (hm_entry md)). set (zone_pages (he_mz en)))"
    "length ms = HOSTSHMEM_MAX_PAGES" "length pages < HOSTSHMEM_MAX_PAGES"
    "\<forall>en\<in>set (used_entries (hm_entry md)). image_serves pages (he_mz en) (f en)"
    "build_config maps g name = do {
       hps \<leftarrow> write_hps 0 pages ms (hp_entries hp);
       Some (0, g[ci := (g ! ci)\<lparr>hc_metadata := Some (md\<lparr>hm_entry :=
           map (\<lambda>en. en\<lparr>he_offset := f en\<rparr>) (sort_key entry_key (used_entries (hm_entry md)))
           @ filter (\<lambda>en. mz_addr (he_mz en) = 0) (hm_entry md)\<rparr>),
         hc_hp_metadata := Some (hp\<lparr>hp_entries := hps\<rparr>), hc_memseg_cache := ms\<rparr>]) }"
    using build_config_pages [OF assms(1-4,6,7)] .
  obtain hps where h: "write_hps 0 pages ms (hp_entries hp) = Some hps" "map hp_page (take (length pages) hps) = pages"
    using write_hps_fits [of 0 pages "hp_entries hp" ms] p(1-3) assms(5,8) by (auto simp: HOSTSHMEM_MAX_HUGEPAGES_def)
  have ci: "ci < length g" using assms(1) get_config_loop_less by (simp add: get_config_by_name_def)
  have u: "used_entries (map (\<lambda>en. en\<lparr>he_offset := f en\<rparr>) us @ ns) = map (\<lambda>en. en\<lparr>he_offset := f en\<rparr>) us"
    if "\<forall>en\<in>set us. mz_addr (he_mz en) \<noteq> 0" "\<forall>en\<in>set ns. mz_addr (he_mz en) = 0" for us ns
    using that by (simp add: used_entries_def)
  let ?es = "map (\<lambda>en. en\<lparr>he_offset := f en\<rparr>) (sort_key entry_key (used_entries (hm_entry md)))
           @ filter (\<lambda>en. mz_addr (he_mz en) = 0) (hm_entry md)"
  have used: "used_entries ?es = map (\<lambda>en. en\<lparr>he_offset := f en\<rparr>) (sort_key entry_key (used_entries (hm_entry md)))"
    by (rule u) (simp_all add: used_entries_def)
  have "image_mset he_mz (mset ?es) = image_mset he_mz (mset (used_entries (hm_entry md)) + mset (filter (\<lambda>en. mz_addr (he_mz en) = 0) (hm_entry md)))"
    by (simp add: image_mset.compositionality comp_def)
  also have "\<dots> = image_mset he_mz (mset (hm_entry md))"
    using multiset_partition [of "mset (hm_entry md)" "\<lambda>en. mz_addr (he_mz en) \<noteq> 0"] by (simp add: used_entries_def)
  finally have ms: "mset (map he_mz ?es) = mset (map he_mz (hm_entry md))" by (simp only: mset_map)
  let ?md = "md\<lparr>hm_entry := ?es\<rparr>" and ?hp = "hp\<lparr>hp_entries := hps\<rparr>"
  let ?g = "g[ci := (g ! ci)\<lparr>hc_metadata := Some ?md, hc_hp_metadata := Some ?hp, hc_memseg_cache := ms\<rparr>]"
  have "build_config maps g name = Some (0, ?g)" using p(5) h(1) by simp
  moreover have "\<forall>en\<in>set (used_entries ?es). image_serves (map hp_page (take (length pages) hps)) (he_mz en) (he_offset en)"
    unfolding used h(2) using p(4) by simp
  ultimately show ?thesis
    using ci ms by (intro exI [of _ ?g] exI [of _ ?md] exI [of _ ?hp] exI [of _ "length pages"]) simp
qed

text \<open>
  The table of huge pages has 32 entries, and nothing keeps the number of pages below that: when
  the zones of a configuration lie on more pages (the code allows up to 4096), \<open>build_config\<close>
  writes behind the table.
\<close>
theorem build_config_overflow:
  assumes "get_config_by_name g name = Some ci"
    and "hc_metadata (g ! ci) = Some md" and "hc_hp_metadata (g ! ci) = Some hp"
    and "length (hc_memseg_cache (g ! ci)) = HOSTSHMEM_MAX_PAGES" and "length (hp_entries hp) = HOSTSHMEM_MAX_HUGEPAGES"
    and "zones_fit (map he_mz (used_entries (hm_entry md)))"
    and "\<forall>en\<in>set (used_entries (hm_entry md)). \<forall>p\<in>set (zone_pages (he_mz en)). file_known maps (pg_addr p)"
    and "HOSTSHMEM_MAX_HUGEPAGES < card (\<Union>en\<in>set (used_entries (hm_entry md)). set (zone_pages (he_mz en)))"
  shows "build_config maps g name = None"
proof -
  obtain pages ms f where p: "length pages = card (\<Union>en\<in>set (used_entries (hm_entry md)). set (zone_pages (he_mz en)))"
    "build_config maps g name = do {
       hps \<leftarrow> write_hps 0 pages ms (hp_entries hp);
       Some (0, g[ci := (g ! ci)\<lparr>hc_metadata := Some (md\<lparr>hm_entry :=
           map (\<lambda>en. en\<lparr>he_offset := f en\<rparr>) (sort_key entry_key (used_entries (hm_entry md)))
           @ filter (\<lambda>en. mz_addr (he_mz en) = 0) (hm_entry md)\<rparr>),
         hc_hp_metadata := Some (hp\<lparr>hp_entries := hps\<rparr>), hc_memseg_cache := ms\<rparr>]) }"
    using build_config_pages [OF assms(1-4,6,7)] .
  have "write_hps 0 pages ms (hp_entries hp) = None" using p(1) assms(5,8) by (intro write_hps_overflow) auto
  then show ?thesis using p(2) by simp
qed

section \<open>Zones of one segment\<close>

text \<open>Zones of one contiguous segment, with its pages counted from the start of the segment.\<close>
definition segment_zones :: "nat \<Rightarrow> u64 \<Rightarrow> u64 \<Rightarrow> nat \<Rightarrow> rte_memzone list \<Rightarrow> bool" where
  "segment_zones b a p n zs \<longleftrightarrow> b < 48 \<and> unat a + n * 2 ^ b < 2 ^ 63 \<and> unat p + n * 2 ^ b < 2 ^ 63
     \<and> (\<forall>z\<in>set zs. set (zone_pages z) \<subseteq> page_at (2 ^ b) a p ` {..<n})"

lemma page_at_apart:
  assumes "b < 48" and "unat a + n * 2 ^ b < 2 ^ 63" and "unat p + n * 2 ^ b < 2 ^ 63" and "i < n" and "j < n" and "i \<noteq> j"
  shows "page_apart (page_at (2 ^ b) a p i) (page_at (2 ^ b) a p j)"
proof -
  have u: "unat (x + of_nat k * 2 ^ b :: u64) = unat x + k * 2 ^ b" if "unat x + n * 2 ^ b < 2 ^ 63" "k < n" for x k
  proof -
    have "k * 2 ^ b \<le> n * 2 ^ b" using that(2) by (intro mult_le_mono1) simp
    then have "unat x + k * 2 ^ b < 2 ^ 63" using that(1) by linarith
    then have "unat x + k * 2 ^ b < 2 ^ 64" by simp
    moreover have "x + of_nat k * 2 ^ b = of_nat (unat x + k * 2 ^ b)" by simp
    ultimately show ?thesis by (simp only: unsigned_of_nat) (simp add: take_bit_nat_eq_self)
  qed
  have "i * 2 ^ b + 2 ^ b \<le> j * 2 ^ b \<or> j * 2 ^ b + 2 ^ b \<le> i * (2 ^ b :: nat)"
    using mult_le_mono1 [of "Suc i" j "2 ^ b"] mult_le_mono1 [of "Suc j" i "2 ^ b"] assms(6) by (cases "i < j") auto
  then show ?thesis using u assms unat_pow2 [of b] by (auto simp: page_apart_def page_at_def)
qed

lemma segment_coherent: "segment_zones b a p n zs \<Longrightarrow> zones_coherent zs"
  unfolding zones_coherent_def
proof (intro ballI)
  fix x y q r assume s: "segment_zones b a p n zs" and m: "x \<in> set zs" "y \<in> set zs" "q \<in> set (zone_pages x)" "r \<in> set (zone_pages y)"
  obtain i j where "q = page_at (2 ^ b) a p i" "i < n" "r = page_at (2 ^ b) a p j" "j < n"
    using s m unfolding segment_zones_def by (meson imageE lessThan_iff subsetD)
  then show "q = r \<or> page_apart q r" using s page_at_apart [of b a n p i j] by (cases "i = j") (simp_all add: segment_zones_def)
qed

definition shm_maps :: string where
  "shm_maps = ''40000000-48000000 rw-s 00000000 00:00 0 /mnt/huge/rtemap_0'' @ [CHR 0x0A]"

definition shm_zone :: "string \<Rightarrow> u64 \<Rightarrow> u64 \<Rightarrow> rte_memzone" where
  "shm_zone nm off len = null_memzone\<lparr>mz_name := nm, mz_phys_addr := 0x100000000 + off, mz_addr := 0x40000000 + off, mz_len := len, mz_hugepage_sz := 0x200000\<rparr>"

definition shm_config :: "rte_memzone list \<Rightarrow> hostshmem_config" where
  "shm_config zs = \<lparr>hc_metadata = Some \<lparr>hm_magic_number = HOSTSHMEM_MAGIC, hm_name = ''vm1'',
       hm_entry = map (\<lambda>z. \<lparr>he_mz = z, he_offset = 0\<rparr>) zs @ [null_entry]\<rparr>,
     hc_hp_metadata = Some \<lparr>hpm_magic_number = HOSTSHMEM_MAGIC, hpm_name = ''vm1'', hp_entries = replicate HOSTSHMEM_MAX_HUGEPAGES null_hp\<rparr>,
     hc_memseg_cache = replicate HOSTSHMEM_MAX_PAGES null_ms\<rparr>"

lemma shm_zone_pages:
  assumes "unat off < 2 ^ 21" and "len \<noteq> 0" and "unat off + unat len \<le> n * 2 ^ 21" and "(n - 1) * 2 ^ 21 < unat off + unat len" and "n \<le> 64"
  shows "zone_ok 21 (shm_zone nm off len)" and "zone_np (shm_zone nm off len) = n"
    and "zone_pages (shm_zone nm off len) = map (page_at (2 ^ 21) 0x40000000 0x100000000) [0..<n]"
proof -
  let ?z = "shm_zone nm off len"
  have a: "unat (0x40000000 + off) = 0x40000000 + unat off" "unat (0x100000000 + off) = 0x100000000 + unat off"
    using assms(1) by (simp_all add: unat_word_ariths)
  have ml: "mz_len ?z = len" "mz_addr ?z = 0x40000000 + off" "mz_phys_addr ?z = 0x100000000 + off" "mz_hugepage_sz ?z = 2 ^ 21"
    by (simp_all add: shm_zone_def)
  have md: "(0x40000000 + unat off) mod 2 ^ 21 = unat off" "(0x100000000 + unat off) mod 2 ^ 21 = unat off"
    using assms(1) by (simp_all add: mod_if)
  show ok: "zone_ok 21 ?z" unfolding zone_ok_def ml a md using assms by simp
  have "zone_np ?z * 2 ^ 21 = RTE_ALIGN (unat len + unat off) (2 ^ 21)" using zone_nat(4) [OF ok] unfolding ml a md .
  then show np: "zone_np ?z = n" using RTE_ALIGN_bounds(1,2) [of "2 ^ 21" "unat len + unat off"] assms(3,4) by simp
  have "unat (zone_start ?z) = 0x40000000" "unat (zone_pstart ?z) = 0x100000000"
    using assms(1) unfolding zone_nat(2,3) [OF ok] ml a by simp_all
  then have "zone_start ?z = 0x40000000" "zone_pstart ?z = 0x100000000" by (simp_all add: word_unat_eq_iff)
  then show "zone_pages ?z = map (page_at (2 ^ 21) 0x40000000 0x100000000) [0..<n]" by (simp add: zone_pages_def np ml)
qed

lemma shm_maps_line: "fgets_lines (2 * PATH_MAX - 1) shm_maps = [shm_maps]"
  by (simp add: fgets_lines.simps PATH_MAX_def shm_maps_def)

lemma shm_maps_start: "GET_PAGEMAP_ADDR shm_maps (CHR ''-'') = Some (0x40000000, ''48000000 rw-s 00000000 00:00 0 /mnt/huge/rtemap_0'' @ [CHR 0x0A])"
  by (simp add: GET_PAGEMAP_ADDR_def strtoull16_def strtoul16_def shm_maps_def is_space_def is_hex_def hex_num_def hex_val_def Let_def)

lemma shm_maps_end: "GET_PAGEMAP_ADDR (''48000000 rw-s 00000000 00:00 0 /mnt/huge/rtemap_0'' @ [CHR 0x0A]) (CHR '' '') =
    Some (0x48000000, ''rw-s 00000000 00:00 0 /mnt/huge/rtemap_0'' @ [CHR 0x0A])"
  by (simp add: GET_PAGEMAP_ADDR_def strtoull16_def strtoul16_def shm_maps_def is_space_def is_hex_def hex_num_def hex_val_def Let_def)

lemma shm_maps_file:
  "0x40000000 \<le> a \<Longrightarrow> a < 0x48000000 \<Longrightarrow> hugefile_loop a [shm_maps] = Inr (0x40000000, ''/mnt/huge/rtemap_0'')"
  unfolding hugefile_loop.simps shm_maps_start option.case prod.case shm_maps_end
  by (auto simp: linorder_not_le linorder_not_less)

lemma shm_maps_known: "0x40000000 \<le> a \<Longrightarrow> a < 0x48000000 \<Longrightarrow> file_known (Some shm_maps) a"
  unfolding file_known_def option.case shm_maps_line by (simp add: shm_maps_file PATH_MAX_def del: hugefile_loop.simps)

lemma shm_maps_hugefile:
  "0x40000000 \<le> a \<Longrightarrow> a < 0x48000000 \<Longrightarrow> get_hugefile_by_virt_addr (Some shm_maps) a e =
     Some (0, e\<lparr>ms_filepath := ''/mnt/huge/rtemap_0'', ms_offset := a - 0x40000000\<rparr>)"
  unfolding get_hugefile_by_virt_addr_def option.case shm_maps_line
  by (simp add: shm_maps_file PATH_MAX_def del: hugefile_loop.simps)

lemma shm_pages_known:
  assumes "p \<in> set (map (page_at (2 ^ 21) 0x40000000 0x100000000) [0..<n])" and "n \<le> 64"
  shows "file_known (Some shm_maps) (pg_addr p)"
proof -
  obtain k where k: "p = page_at (2 ^ 21) 0x40000000 0x100000000 k" "k < 64" using assms by auto
  have "(0x40000000 :: u64) + of_nat k * 2 ^ 21 = of_nat (0x40000000 + k * 2 ^ 21)" by simp
  moreover have "unat (of_nat (0x40000000 + k * 2 ^ 21) :: u64) = 0x40000000 + k * 2 ^ 21"
    using k(2) by (simp only: unsigned_of_nat) (simp add: take_bit_nat_eq_self)
  ultimately have "unat (pg_addr p) = 0x40000000 + k * 2 ^ 21" using k(1) by (simp add: page_at_def)
  then show ?thesis using k(2) by (intro shm_maps_known) (simp_all add: word_le_nat_alt word_less_nat_alt)
qed

text \<open>Two zones that share a page, and a zone on 33 pages.\<close>
definition shm_a :: rte_memzone where "shm_a = shm_zone ''RG_a'' 0x100 0x300"
definition shm_b :: rte_memzone where "shm_b = shm_zone ''RG_b'' 0x800 0x200000"
definition shm_c :: rte_memzone where "shm_c = shm_zone ''RG_c'' 0 0x4200000"

lemma shm_a_pages: "zone_ok 21 shm_a" "zone_np shm_a = 1" "zone_pages shm_a = map (page_at (2 ^ 21) 0x40000000 0x100000000) [0..<1]"
  using shm_zone_pages [of "0x100" "0x300" 1 "''RG_a''"] by (simp_all add: shm_a_def del: upt_Suc upt_rec_numeral)

lemma shm_b_pages: "zone_ok 21 shm_b" "zone_np shm_b = 2" "zone_pages shm_b = map (page_at (2 ^ 21) 0x40000000 0x100000000) [0..<2]"
  using shm_zone_pages [of "0x800" "0x200000" 2 "''RG_b''"] by (simp_all add: shm_b_def del: upt_Suc upt_rec_numeral)

lemma shm_c_pages: "zone_ok 21 shm_c" "zone_np shm_c = 33" "zone_pages shm_c = map (page_at (2 ^ 21) 0x40000000 0x100000000) [0..<33]"
  using shm_zone_pages [of "0" "0x4200000" 33 "''RG_c''"] by (simp_all add: shm_c_def del: upt_Suc upt_rec_numeral)

lemma shm_coherent: "zones_coherent [shm_b, shm_a]" "zones_coherent [shm_c]"
  by (rule segment_coherent [of 21 "0x40000000" "0x100000000" 33]; auto simp: segment_zones_def shm_a_pages(3) shm_b_pages(3) shm_c_pages(3))+

lemma shm_fit: "zones_fit [shm_b, shm_a]" "zones_fit [shm_c]"
proof -
  have "unat (mz_phys_addr shm_a) + unat (mz_len shm_a) \<le> unat (mz_phys_addr shm_b)" "mz_name shm_a \<noteq> mz_name shm_b"
    by (simp_all add: shm_a_def shm_b_def shm_zone_def)
  then show "zones_fit [shm_b, shm_a]"
    using shm_coherent(1) shm_a_pages(1,2) shm_b_pages(1,2) by (auto simp: zones_fit_def HOSTSHMEM_MAX_PAGES_def)
  show "zones_fit [shm_c]"
    using shm_coherent(2) shm_c_pages(1,2) by (auto simp: zones_fit_def HOSTSHMEM_MAX_PAGES_def)
qed

lemma shm_config_sel:
  "get_config_by_name [shm_config zs] ''vm1'' = Some 0"
  "hc_metadata ([shm_config zs] ! 0) = Some \<lparr>hm_magic_number = HOSTSHMEM_MAGIC, hm_name = ''vm1'',
       hm_entry = map (\<lambda>z. \<lparr>he_mz = z, he_offset = 0\<rparr>) zs @ [null_entry]\<rparr>"
  "hc_hp_metadata ([shm_config zs] ! 0) = Some \<lparr>hpm_magic_number = HOSTSHMEM_MAGIC, hpm_name = ''vm1'', hp_entries = replicate HOSTSHMEM_MAX_HUGEPAGES null_hp\<rparr>"
  "length (hc_memseg_cache ([shm_config zs] ! 0)) = HOSTSHMEM_MAX_PAGES"
proof -
  have "strncmp_eq ''vm1'' ''vm1'' HOSTSHMEM_NAME_LEN" by code_simp
  then show "get_config_by_name [shm_config zs] ''vm1'' = Some 0" by (simp add: get_config_by_name_def shm_config_def)
qed (simp_all add: shm_config_def)

lemma shm_used:
  "\<forall>z\<in>set zs. mz_addr z \<noteq> 0 \<Longrightarrow> used_entries (map (\<lambda>z. \<lparr>he_mz = z, he_offset = 0\<rparr>) zs @ [null_entry]) = map (\<lambda>z. \<lparr>he_mz = z, he_offset = 0\<rparr>) zs"
  by (induction zs) (simp_all add: used_entries_def null_entry_def null_memzone_def)

lemma shm_addr: "mz_addr shm_a \<noteq> 0" "mz_addr shm_b \<noteq> 0" "mz_addr shm_c \<noteq> 0"
  by (simp_all add: shm_a_def shm_b_def shm_c_def shm_zone_def)

theorem build_config_image_witness:
  "\<exists>g' md' hp' n. build_config (Some shm_maps) [shm_config [shm_b, shm_a]] ''vm1'' = Some (0, g')
     \<and> hc_metadata (g' ! 0) = Some md' \<and> hc_hp_metadata (g' ! 0) = Some hp'
     \<and> mset (map he_mz (hm_entry md')) = {#shm_b, shm_a, null_memzone#}
     \<and> (\<forall>en\<in>set (used_entries (hm_entry md')). image_serves (map hp_page (take n (hp_entries hp'))) (he_mz en) (he_offset en))"
proof -
  let ?u = "(\<Union>en\<in>set (map (\<lambda>z. \<lparr>he_mz = z, he_offset = 0\<rparr>) [shm_b, shm_a]). set (zone_pages (he_mz en)))"
  have "?u = page_at (2 ^ 21) 0x40000000 0x100000000 ` {0..<2}" by (auto simp: shm_a_pages(3) shm_b_pages(3))
  moreover have "card (page_at (2 ^ 21) 0x40000000 0x100000000 ` {0..<2}) \<le> card {0..<2::nat}" by (rule card_image_le) simp
  ultimately have "card ?u \<le> HOSTSHMEM_MAX_HUGEPAGES" by (simp add: HOSTSHMEM_MAX_HUGEPAGES_def)
  then show ?thesis
    using build_config_image [of "[shm_config [shm_b, shm_a]]" "''vm1''" 0 _ _ "Some shm_maps", OF shm_config_sel] shm_used [of "[shm_b, shm_a]"]
      shm_addr shm_fit(1) shm_pages_known [of _ 1] shm_pages_known [of _ 2] shm_a_pages(3) shm_b_pages(3)
    by (simp add: null_entry_def)
qed

theorem build_config_overflow_witness: "build_config (Some shm_maps) [shm_config [shm_c]] ''vm1'' = None"
proof (rule build_config_overflow [OF shm_config_sel])
  have u: "used_entries (map (\<lambda>z. \<lparr>he_mz = z, he_offset = 0\<rparr>) [shm_c] @ [null_entry]) = [\<lparr>he_mz = shm_c, he_offset = 0\<rparr>]"
    using shm_used [of "[shm_c]"] shm_addr by simp
  show "zones_fit (map he_mz (used_entries (hm_entry \<lparr>hm_magic_number = HOSTSHMEM_MAGIC, hm_name = ''vm1'',
       hm_entry = map (\<lambda>z. \<lparr>he_mz = z, he_offset = 0\<rparr>) [shm_c] @ [null_entry]\<rparr>)))"
    using u shm_fit(2) by simp
  have "inj_on (page_at (2 ^ 21) 0x40000000 0x100000000) {0..<33}"
  proof (rule inj_onI, rule ccontr)
    fix i j assume a: "i \<in> {0..<33}" "j \<in> {0..<33}" "page_at (2 ^ 21) 0x40000000 0x100000000 i = page_at (2 ^ 21) 0x40000000 0x100000000 j" "i \<noteq> j"
    then have "page_apart (page_at (2 ^ 21) 0x40000000 0x100000000 i) (page_at (2 ^ 21) 0x40000000 0x100000000 j)"
      by (intro page_at_apart [where n = 33]) simp_all
    then show False using a(3) by (simp add: page_apart_def page_at_def)
  qed
  then have "card (set (zone_pages shm_c)) = 33" unfolding shm_c_pages(3) by (simp add: card_image)
  then show "HOSTSHMEM_MAX_HUGEPAGES < card (\<Union>en\<in>set (used_entries (hm_entry \<lparr>hm_magic_number = HOSTSHMEM_MAGIC, hm_name = ''vm1'',
       hm_entry = map (\<lambda>z. \<lparr>he_mz = z, he_offset = 0\<rparr>) [shm_c] @ [null_entry]\<rparr>)). set (zone_pages (he_mz en)))"
    using u by (simp add: HOSTSHMEM_MAX_HUGEPAGES_def)
  show "\<forall>en\<in>set (used_entries (hm_entry \<lparr>hm_magic_number = HOSTSHMEM_MAGIC, hm_name = ''vm1'',
       hm_entry = map (\<lambda>z. \<lparr>he_mz = z, he_offset = 0\<rparr>) [shm_c] @ [null_entry]\<rparr>)). \<forall>p\<in>set (zone_pages (he_mz en)). file_known (Some shm_maps) (pg_addr p)"
    using u shm_pages_known [of _ 33] shm_c_pages(3) by simp
qed simp

text \<open>
  Building again does not clear the rest of the file cache: when a page that was entered later lets
  earlier entries grow together, the entries behind the last new one stay. Here the last page is
  listed twice after the second time.
\<close>
lemma cache_stale_entry:
  "\<exists>ms. cache_pages (Some shm_maps) (map (page_at (2 ^ 21) 0x40000000 0x100000000) [0, 2, 5]) 0 None [null_ms, null_ms, null_ms, null_ms] = Some (Some ms)
     \<and> (let file = (\<lambda>k n. \<lparr>ms_filepath = ''/mnt/huge/rtemap_0'', ms_offset = k * 0x200000, ms_len = n * 0x200000\<rparr>) in
        ms = [file 0 1, file 2 1, file 5 1, null_ms]
        \<and> cache_pages (Some shm_maps) (map (page_at (2 ^ 21) 0x40000000 0x100000000) [0, 1, 2, 5]) 0 None ms =
            Some (Some [file 0 3, file 5 1, file 5 1, null_ms]))"
  by (simp add: shm_maps_hugefile page_at_def aget_def null_ms_def HOSTSHMEM_MAX_PAGES_def Let_def)

end
