(* ===== verification/Rte_Hostshmem_Share.thy ===== *)
theory Rte_Hostshmem_Share
  imports Rte_Hostshmem_Guest Rte_Hostshmem_Build
begin

text \<open>
  Both sides of the shared memory together. Whatever calls the host makes to enter zones, rings and
  pools into its metadata, succeeding or failing, every table of entries holds zones of the host,
  each once, and then unused entries. This is what the other process needs to find the same objects.
\<close>

section \<open>The tables of the host\<close>

text \<open>Zones in use hold at least one byte and do not wrap; the others are cleared.\<close>
definition zones_real :: "rte_memzone list \<Rightarrow> bool" where
  "zones_real zs \<longleftrightarrow> list_all (\<lambda>z. if mz_used z then mz_addr z < mz_addr z + mz_len z else z = null_memzone) zs"

definition entries_sound :: "rte_memzone list \<Rightarrow> hostshmem_metadata_entry list \<Rightarrow> bool" where
  "entries_sound zs es \<longleftrightarrow> length es = RTE_LIBRTE_HOSTSHMEM_MAX_ENTRIES \<and>
     (\<exists>us n. map he_mz es = us @ replicate n null_memzone \<and> distinct us \<and> list_all mz_used us \<and> set us \<subseteq> set zs)"

definition configs_sound :: "rte_memzone list \<Rightarrow> hostshmem_config list \<Rightarrow> bool" where
  "configs_sound zs g \<longleftrightarrow> list_all (\<lambda>c. case hc_metadata c of None \<Rightarrow> True | Some md \<Rightarrow> entries_sound zs (hm_entry md)) g"

text \<open>The calls a process makes on its metadata, starting with no table.\<close>
inductive shm_reach :: "rte_memzone list \<Rightarrow> hostshmem \<Rightarrow> bool" for zs where
  start: "list_all (\<lambda>c. hc_metadata c = None) g \<Longrightarrow> shm_reach zs \<lparr>hs_configs = g, hs_memzone = zs, hs_ioremap = io\<rparr>"
| create: "shm_reach zs s \<Longrightarrow> rte_hostshmem_metadata_create file hp_file old s name = (r, s') \<Longrightarrow>
     entries_sound zs (hm_entry old) \<Longrightarrow> shm_reach zs s'"
| memzone: "shm_reach zs s \<Longrightarrow> rte_hostshmem_metadata_add_memzone maps s mz name = Some (r, s') \<Longrightarrow> shm_reach zs s'"
| ring: "shm_reach zs s \<Longrightarrow> rte_hostshmem_metadata_add_ring maps s a name = Some (r, s') \<Longrightarrow> shm_reach zs s'"
| mempool: "shm_reach zs s \<Longrightarrow> rte_hostshmem_metadata_add_mempool maps s mp rg name = Some (r, s') \<Longrightarrow> shm_reach zs s'"

section \<open>They stay sound\<close>

lemma write_offsets_zones: "write_offsets pages es = Some es' \<Longrightarrow> map he_mz es' = map he_mz es"
  by (induction pages es arbitrary: es' rule: write_offsets.induct) (auto split: if_splits bind_splits)

lemma entries_sorted:
  assumes "entries_sound zs es" and "write_offsets pages (qsort entry_compare es) = Some es'"
  shows "entries_sound zs es'"
proof -
  obtain us n where us: "map he_mz es = us @ replicate n null_memzone" "distinct us" "list_all mz_used us" "set us \<subseteq> set zs"
    using assms(1) by (auto simp: entries_sound_def)
  let ?ss = "map he_mz (sort_key entry_key (used_entries es))"
  have nn: "\<not> mz_used null_memzone" by (simp add: null_memzone_def)
  have fu: "filter mz_used (map he_mz es) = us" and fn: "filter (\<lambda>z. \<not> mz_used z) (map he_mz es) = replicate n null_memzone"
    using us(1,3) nn by (auto simp: filter_id_conv filter_empty_conv list_all_iff)
  have used: "map he_mz (used_entries es) = us" using fu by (simp add: used_entries_def filter_map comp_def)
  have rest: "map he_mz (filter (\<lambda>en. mz_addr (he_mz en) = 0) es) = replicate n null_memzone"
    using fn by (simp add: filter_map comp_def)
  have "mset ?ss = mset us" by (simp flip: used)
  then have ss: "distinct ?ss" "set ?ss = set us" using us(2) mset_eq_imp_distinct_iff [of ?ss us] mset_eq_setD [of ?ss us] by blast+
  have m: "map he_mz es' = ?ss @ replicate n null_memzone"
    using write_offsets_zones [OF assms(2)] rest by (simp add: qsort_entries_split)
  have "length (map he_mz es') = length (map he_mz es)" unfolding m us(1) by (simp flip: used)
  then have "length es' = RTE_LIBRTE_HOSTSHMEM_MAX_ENTRIES" using assms(1) unfolding entries_sound_def length_map by simp
  then show ?thesis unfolding entries_sound_def
    by (intro conjI exI [of _ ?ss] exI [of _ n]) (use m ss us(3,4) in \<open>simp_all only: list_all_iff\<close>)
qed

lemma configs_update: "configs_sound zs g \<Longrightarrow> (\<And>md. hc_metadata c = Some md \<Longrightarrow> entries_sound zs (hm_entry md)) \<Longrightarrow> configs_sound zs (g[i := c])"
  unfolding configs_sound_def list_all_iff using set_update_subset_insert [of g i c] by (auto split: option.splits)

lemma configs_get: "configs_sound zs g \<Longrightarrow> aget g i = Some c \<Longrightarrow> hc_metadata c = Some md \<Longrightarrow> entries_sound zs (hm_entry md)"
  unfolding configs_sound_def list_all_iff aget_def by (auto split: if_splits dest!: nth_mem bspec)

lemma build_config_sound: "configs_sound zs g \<Longrightarrow> build_config maps g name = Some (r, g') \<Longrightarrow> configs_sound zs g'"
  by (auto simp: build_config_def Let_def split: option.splits bind_splits intro!: configs_update)
    (blast intro: entries_sorted configs_get)

lemma free_entry_first:
  assumes "map he_mz es = us @ replicate n null_memzone" and "list_all mz_used us" and "free_entry mz es = Inr i"
  shows "i = length us \<and> 0 < n \<and> (\<forall>z\<in>set us. \<not> mz_overlap mz z)"
  using assms
proof (induction us arbitrary: es i)
  case Nil
  then show ?case by (cases es; cases n) (auto simp: null_memzone_def split: if_splits)
next
  case (Cons u us)
  then obtain en es' where es: "es = en # es'" "he_mz en = u" "map he_mz es' = us @ replicate n null_memzone" by (cases es) auto
  then obtain j where "free_entry mz es' = Inr j" "i = Suc j" "\<not> mz_overlap mz u"
    using Cons.prems(2,3) by (cases "free_entry mz es'") (auto split: if_splits)
  then show ?case using Cons.IH [OF es(3)] Cons.prems(2) by auto
qed

lemma entry_added:
  assumes zr: "zones_real zs" and es: "entries_sound zs es" and free: "free_entry mz es = Inr i" and mz: "mz \<in> set zs"
  shows "entries_sound zs (es[i := (es ! i)\<lparr>he_mz := mz\<rparr>])"
proof -
  obtain us n where us: "map he_mz es = us @ replicate n null_memzone" "distinct us" "list_all mz_used us" "set us \<subseteq> set zs"
    using es by (auto simp: entries_sound_def)
  note i = free_entry_first [OF us(1,3) free]
  obtain k where k: "n = Suc k" using i by (cases n) auto
  have m: "map he_mz (es[i := (es ! i)\<lparr>he_mz := mz\<rparr>]) = us @ mz # replicate k null_memzone"
    using i k us(1) by (simp add: map_update)
  show ?thesis
  proof (cases "mz_used mz")
    case True
    then have "mz_overlap mz mz" using zr mz by (auto simp: zones_real_def list_all_iff mz_overlap_def Let_def)
    then have "mz \<notin> set us" using i by auto
    then show ?thesis using m us True mz es unfolding entries_sound_def
      by (auto intro!: exI [of _ "us @ [mz]"] exI [of _ k])
  next
    case False
    then have "mz = null_memzone" using zr mz by (auto simp: zones_real_def list_all_iff split: if_splits)
    then show ?thesis using m us es k unfolding entries_sound_def
      by (auto intro!: exI [of _ us] exI [of _ "Suc k"])
  qed
qed

definition shm_sound :: "rte_memzone list \<Rightarrow> hostshmem \<Rightarrow> bool" where
  "shm_sound zs s \<longleftrightarrow> hs_memzone s = zs \<and> configs_sound zs (hs_configs s)"

lemma add_memzone_sound:
  assumes "zones_real zs" and "shm_sound zs s" and "add_memzone_to_metadata maps s mzi ci = Some (r, s')"
  shows "shm_sound zs s'"
proof -
  obtain mz cfg md where g: "aget zs mzi = Some mz" "aget (hs_configs s) ci = Some cfg" "hc_metadata cfg = Some md"
    and s: "hs_memzone s = zs" "configs_sound zs (hs_configs s)"
    using assms(2,3) by (auto simp: add_memzone_to_metadata_def shm_sound_def split: bind_splits)
  have mz: "mz \<in> set zs" using g(1) by (auto simp: aget_def split: if_splits)
  have es: "entries_sound zs (hm_entry md)" by (rule configs_get [OF s(2) g(2,3)])
  show ?thesis
  proof (cases "free_entry mz (hm_entry md)")
    case (Inl b)
    then show ?thesis using assms(2,3) g s by (simp add: add_memzone_to_metadata_def)
  next
    case (Inr i)
    let ?md = "md\<lparr>hm_entry := (hm_entry md)[i := (hm_entry md ! i)\<lparr>he_mz := mz\<rparr>]\<rparr>"
    let ?g = "(hs_configs s)[ci := cfg\<lparr>hc_metadata := Some ?md\<rparr>]"
    have "configs_sound zs ?g" using entry_added [OF assms(1) es Inr mz] s(2) by (intro configs_update) auto
    then have "configs_sound zs (hs_configs s')"
      using assms(3) g s Inr build_config_sound [of zs ?g]
      by (auto simp: add_memzone_to_metadata_def Let_def split: bind_splits if_splits)
    moreover have "hs_memzone s' = zs"
      using assms(3) g s Inr by (auto simp: add_memzone_to_metadata_def Let_def split: bind_splits if_splits)
    ultimately show ?thesis by (simp add: shm_sound_def)
  qed
qed

lemma add_ring_sound:
  "zones_real zs \<Longrightarrow> shm_sound zs s \<Longrightarrow> add_ring_to_metadata maps s a ci = Some (r, s') \<Longrightarrow> shm_sound zs s'"
  by (auto simp: add_ring_to_metadata_def split: option.splits dest: add_memzone_sound)

lemma add_mempool_sound:
  "zones_real zs \<Longrightarrow> shm_sound zs s \<Longrightarrow> add_mempool_to_metadata maps s mp rg ci = Some (r, s') \<Longrightarrow> shm_sound zs s'"
  by (auto simp: add_mempool_to_metadata_def split: option.splits bind_splits if_splits; blast intro: add_memzone_sound add_ring_sound)

lemma metadata_create_sound:
  assumes "shm_sound zs s" and "entries_sound zs (hm_entry old)"
    and "rte_hostshmem_metadata_create file hp_file old s name = (r, s')"
  shows "shm_sound zs s'"
proof -
  have "entries_sound zs (replicate RTE_LIBRTE_HOSTSHMEM_MAX_ENTRIES null_entry)"
    by (auto simp: entries_sound_def null_entry_def intro: exI [of _ "[]"])
  then show ?thesis using assms
    by (auto simp: rte_hostshmem_metadata_create_def shm_sound_def Let_def split: option.splits if_splits intro!: configs_update)
qed

lemma shm_reach_sound:
  assumes "zones_real zs" and "shm_reach zs s"
  shows "shm_sound zs s"
  using assms(2)
proof induction
  case (start g io)
  then show ?case by (auto simp: shm_sound_def configs_sound_def list_all_iff)
next
  case create
  then show ?case by (blast intro: metadata_create_sound)
next
  case memzone
  then show ?case using assms(1)
    by (auto simp: rte_hostshmem_metadata_add_memzone_def split: option.splits intro: add_memzone_sound)
next
  case ring
  then show ?case using assms(1)
    by (auto simp: rte_hostshmem_metadata_add_ring_def split: option.splits if_splits intro: add_ring_sound)
next
  case mempool
  then show ?case using assms(1)
    by (auto simp: rte_hostshmem_metadata_add_mempool_def split: option.splits if_splits intro: add_mempool_sound)
qed

section \<open>What the other process finds\<close>

text \<open>The names of rings and pools are used for nothing else.\<close>
definition named_zones :: "'h pool_eal \<Rightarrow> bool" where
  "named_zones host \<longleftrightarrow> list_all (\<lambda>z. mz_used z \<longrightarrow>
     (strncmp_eq (mz_name z) RTE_RING_MZ_PREFIX 3 \<longrightarrow> ring_zone host z)
     \<and> (strncmp_eq (mz_name z) RTE_MEMPOOL_MZ_PREFIX 3 \<longrightarrow> mempool_zone host z)) (memzone host)"

lemma sound_shares:
  assumes es: "entries_sound (memzone host) es" and "mz_inv host" and "mz_unique host" and nz: "named_zones host"
  shows "shares host es"
proof -
  obtain us n where us: "map he_mz es = us @ replicate n null_memzone" "distinct us" "list_all mz_used us" "set us \<subseteq> set (memzone host)"
    using es by (auto simp: entries_sound_def)
  have null: "\<not> mz_used null_memzone" "mz_name null_memzone = ''''" by (simp_all add: null_memzone_def)
  have empty: "\<not> strncmp_eq '''' RTE_RING_MZ_PREFIX 3" "\<not> strncmp_eq '''' RTE_MEMPOOL_MZ_PREFIX 3"
    by (simp_all add: strncmp_eq_def RTE_RING_MZ_PREFIX_def RTE_MEMPOOL_MZ_PREFIX_def)
  have nth: "he_mz (es ! i) = (if i < length us then us ! i else null_memzone)" if "i < length es" for i
  proof -
    have "length es = length us + n" using arg_cong [OF us(1), of length] by simp
    then show ?thesis using arg_cong [OF us(1), of "\<lambda>zs. zs ! i"] that by (simp add: nth_append)
  qed
  have "i = j" if "i < length es" "j < length es" "mz_used (he_mz (es ! i))" "he_mz (es ! i) = he_mz (es ! j)" for i j
    using that null(1) us(2) by (auto simp: nth nth_eq_iff_index_eq split: if_splits)
  then show ?thesis unfolding shares_def us(1)
    using assms us(3,4) null empty by (auto simp: mz_inv_def named_zones_def entries_sound_def list_all_iff)
qed

text \<open>C12. The shared memory as a whole. The host enters zones, rings and pools into its metadata by any
  calls, in any order, some of which may fail; the other process has mapped the memory and
  reads a table of entries. Either its heap has no room for a list entry, and the result is
  \<open>-1\<close>; or it is zero, and every name leads to the same zone, ring or pool, at the same address,
  as in the host. All 128 entries are counted as zones, so that the table of zones keeps
  its invariant only when all of them are in use.\<close>
theorem guest_sees_host:
  assumes "shm_reach (memzone host) s" and "zones_real (memzone host)"
    and "aget (hs_configs s) ci = Some cfg" and "hc_metadata cfg = Some md"
    and "mz_inv host" and "mz_unique host" and "named_zones host"
    and "mapped host (hm_entry md) e" and "hm_entry (gc_metadata c) = hm_entry md"
    and "os_mempool_list os" and "os_ring_list os"
  shows "\<exists>ret e'. rte_eal_hostshmem_obj_init ops os False (Cfg c) e = Some (ret, e') \<and>
    (ret = - 1 \<and> heap_full ops
     \<or> ret = 0 \<and> same_objects host (hm_entry md) e' \<and> (mz_inv e' \<longrightarrow> list_all (mz_used \<circ> he_mz) (hm_entry md)))"
proof -
  have "configs_sound (memzone host) (hs_configs s)" using shm_reach_sound [OF assms(2,1)] by (simp add: shm_sound_def)
  then have "entries_sound (memzone host) (hm_entry md)" using assms(3,4) by (rule configs_get)
  then show ?thesis using assms(5-11) by (intro guest_finds sound_shares)
qed

section \<open>An example\<close>

text \<open>A process with one ring, which it enters into its metadata.\<close>
definition guest_ring_zone :: rte_memzone where
  "guest_ring_zone = shm_zone ''RG_MProc_Client_0_RX'' 0 0x2000"

definition guest_ring_0 :: "u64 rte_ring" where
  "guest_ring_0 = \<lparr>ring_name = ''MProc_Client_0_RX'', ring_flags = 0, ring_memzone = Some 0,
     prod = \<lparr>prod_watermark = 4, prod_sp_enqueue = False, prod_size = 4, prod_mask = 3, prod_head = 0, prod_tail = 0\<rparr>,
     cons = \<lparr>cons_sc_dequeue = False, cons_size = 4, cons_mask = 3, cons_head = 0, cons_tail = 0\<rparr>, ring_slots = [0, 0, 0, 0]\<rparr>"

definition guest_host :: "(nat \<times> u64 list) pool_eal" where
  "guest_host = pool_eal_0\<lparr>memzone_cnt := 1, memzone := guest_ring_zone # replicate 2559 null_memzone,
     ring_at := [0x40000000 \<mapsto> guest_ring_0], ring_tailq := [(0x100040, 0x40000000)]\<rparr>"

definition guest_before :: "(nat \<times> u64 list) pool_eal" where
  "guest_before = pool_eal_0\<lparr>ring_at := [0x40000000 \<mapsto> guest_ring_0]\<rparr>"

lemmas guest_example = guest_ring_zone_def shm_zone_def guest_ring_0_def guest_host_def guest_before_def pool_eal_0_def null_memzone_def

lemma guest_host_ok: "zones_real (memzone guest_host)" "mz_inv guest_host" "mz_unique guest_host" "named_zones guest_host"
proof -
  show "zones_real (memzone guest_host)" by (simp add: zones_real_def guest_example list_all_iff)
  show "mz_inv guest_host" by (simp add: mz_inv_def guest_example list_all_iff RTE_MAX_MEMZONE_def RTE_MEMZONE_NAMESIZE_def)
  show "mz_unique guest_host" by (auto simp: mz_unique_def guest_example nth_Cons split: nat.splits)
  have "ring_zone guest_host guest_ring_zone"
    by (simp add: ring_zone_def guest_example RTE_RING_NAMESIZE_def RTE_MEMZONE_NAMESIZE_def RTE_RING_MZ_PREFIX_def snprintf_s_def)
  moreover have "\<not> strncmp_eq (mz_name guest_ring_zone) RTE_MEMPOOL_MZ_PREFIX 3"
    by (simp add: guest_ring_zone_def shm_zone_def strncmp_eq_def RTE_MEMPOOL_MZ_PREFIX_def)
  ultimately show "named_zones guest_host"
    by (simp add: named_zones_def guest_host_def list_all_iff) (simp add: null_memzone_def)
qed

text \<open>No metadata, then an empty table, then the ring entered.\<close>
definition guest_shm_0 :: hostshmem where
  "guest_shm_0 = \<lparr>hs_configs = [\<lparr>hc_metadata = None, hc_hp_metadata = None, hc_memseg_cache = replicate HOSTSHMEM_MAX_PAGES null_ms\<rparr>],
     hs_memzone = memzone guest_host, hs_ioremap = Map.empty\<rparr>"

definition guest_shm_1 :: hostshmem where
  "guest_shm_1 = snd (rte_hostshmem_metadata_create (\<lambda>_. True) (\<lambda>_. True) (gc_metadata zero_config) guest_shm_0 (Some ''vm1''))"

definition guest_entry :: hostshmem_metadata_entry where
  "guest_entry = \<lparr>he_mz = guest_ring_zone, he_offset = 0\<rparr>"

definition guest_cfg :: "hostshmem_metadata_entry list \<Rightarrow> hostshmem_config" where
  "guest_cfg es = \<lparr>hc_metadata = Some \<lparr>hm_magic_number = HOSTSHMEM_MAGIC, hm_name = ''vm1'', hm_entry = es\<rparr>,
     hc_hp_metadata = Some \<lparr>hpm_magic_number = HOSTSHMEM_MAGIC, hpm_name = ''vm1'', hp_entries = replicate HOSTSHMEM_MAX_HUGEPAGES null_hp\<rparr>,
     hc_memseg_cache = replicate HOSTSHMEM_MAX_PAGES null_ms\<rparr>"

lemma guest_shm_1_configs: "guest_shm_1 = guest_shm_0\<lparr>hs_configs := [guest_cfg (replicate 128 null_entry)]\<rparr>"
  by (simp add: guest_shm_1_def rte_hostshmem_metadata_create_def guest_shm_0_def guest_cfg_def Let_def snprintf_s_def
      HOSTSHMEM_NAME_LEN_def RTE_LIBRTE_HOSTSHMEM_MAX_ENTRIES_def)

lemma guest_cfg_name: "get_config_by_name [guest_cfg es] ''vm1'' = Some 0"
proof -
  have "strncmp_eq ''vm1'' ''vm1'' HOSTSHMEM_NAME_LEN" by code_simp
  then show ?thesis by (simp add: get_config_by_name_def guest_cfg_def)
qed

lemma guest_zone_used: "mz_addr guest_ring_zone = 0x40000000" "mz_used guest_ring_zone"
  by (simp_all add: guest_ring_zone_def shm_zone_def)

lemma guest_built:
  "\<exists>cfg off. build_config (Some shm_maps) [guest_cfg (guest_entry # replicate 127 null_entry)] ''vm1'' = Some (0, [cfg])
     \<and> hc_metadata cfg = Some \<lparr>hm_magic_number = HOSTSHMEM_MAGIC, hm_name = ''vm1'', hm_entry = guest_entry\<lparr>he_offset := off\<rparr> # replicate 127 null_entry\<rparr>"
proof -
  let ?es = "guest_entry # replicate 127 null_entry"
  have zp: "zone_ok 21 guest_ring_zone" "zone_np guest_ring_zone = 1"
    "zone_pages guest_ring_zone = map (page_at (2 ^ 21) 0x40000000 0x100000000) [0..<1]"
    using shm_zone_pages [of 0 "0x2000" 1 "''RG_MProc_Client_0_RX''"] by (simp_all add: guest_ring_zone_def del: upt_Suc upt_rec_numeral)
  have u: "used_entries ?es = [guest_entry]" "filter (\<lambda>en. mz_addr (he_mz en) = 0) ?es = replicate 127 null_entry"
    using guest_zone_used by (simp_all add: used_entries_def guest_entry_def) (simp_all add: null_entry_def null_memzone_def)
  have "zones_coherent [guest_ring_zone]"
    by (rule segment_coherent [of 21 "0x40000000" "0x100000000" 33]) (auto simp: segment_zones_def zp(3))
  then have "zones_fit [guest_ring_zone]" using zp(1,2) by (auto simp: zones_fit_def HOSTSHMEM_MAX_PAGES_def)
  then obtain pages ms f where p: "length pages = card (set (zone_pages guest_ring_zone))" "length ms = HOSTSHMEM_MAX_PAGES"
    "build_config (Some shm_maps) [guest_cfg ?es] ''vm1'' = do {
       hps \<leftarrow> write_hps 0 pages ms (replicate HOSTSHMEM_MAX_HUGEPAGES null_hp);
       Some (0, [(guest_cfg ?es)\<lparr>hc_metadata := Some \<lparr>hm_magic_number = HOSTSHMEM_MAGIC, hm_name = ''vm1'',
           hm_entry = guest_entry\<lparr>he_offset := f guest_entry\<rparr> # replicate 127 null_entry\<rparr>,
         hc_hp_metadata := Some \<lparr>hpm_magic_number = HOSTSHMEM_MAGIC, hpm_name = ''vm1'', hp_entries = hps\<rparr>, hc_memseg_cache := ms\<rparr>]) }"
    using build_config_pages [OF guest_cfg_name [of ?es], of
        "\<lparr>hm_magic_number = HOSTSHMEM_MAGIC, hm_name = ''vm1'', hm_entry = ?es\<rparr>"
        "\<lparr>hpm_magic_number = HOSTSHMEM_MAGIC, hpm_name = ''vm1'', hp_entries = replicate HOSTSHMEM_MAX_HUGEPAGES null_hp\<rparr>" "Some shm_maps" thesis]
      u zp(3) shm_pages_known [of _ 1] by (simp add: guest_cfg_def guest_entry_def del: upt_Suc upt_rec_numeral)
  have "length pages \<le> 1" unfolding p(1) zp(3) by simp
  then obtain hps where "write_hps 0 pages ms (replicate HOSTSHMEM_MAX_HUGEPAGES null_hp) = Some hps"
    using write_hps_fits [of 0 pages "replicate HOSTSHMEM_MAX_HUGEPAGES null_hp" ms] p(2)
    by (auto simp: HOSTSHMEM_MAX_HUGEPAGES_def HOSTSHMEM_MAX_PAGES_def)
  then show ?thesis using p(3) by auto
qed

lemma guest_shm_reach:
  "\<exists>s cfg off. shm_reach (memzone guest_host) s \<and> aget (hs_configs s) 0 = Some cfg
     \<and> hc_metadata cfg = Some \<lparr>hm_magic_number = HOSTSHMEM_MAGIC, hm_name = ''vm1'', hm_entry = guest_entry\<lparr>he_offset := off\<rparr> # replicate 127 null_entry\<rparr>"
proof -
  have e0: "entries_sound (memzone guest_host) (hm_entry (gc_metadata zero_config))"
    by (auto simp: entries_sound_def zero_config_def null_entry_def intro: exI [of _ "[]"])
  have r0: "shm_reach (memzone guest_host) guest_shm_0" unfolding guest_shm_0_def by (rule shm_reach.start) simp
  obtain r where "rte_hostshmem_metadata_create (\<lambda>_. True) (\<lambda>_. True) (gc_metadata zero_config) guest_shm_0 (Some ''vm1'') = (r, guest_shm_1)"
    unfolding guest_shm_1_def by (metis prod.collapse)
  then have r1: "shm_reach (memzone guest_host) guest_shm_1" using e0 by (rule shm_reach.create [OF r0])
  obtain cfg off where b: "build_config (Some shm_maps) [guest_cfg (guest_entry # replicate 127 null_entry)] ''vm1'' = Some (0, [cfg])"
    "hc_metadata cfg = Some \<lparr>hm_magic_number = HOSTSHMEM_MAGIC, hm_name = ''vm1'', hm_entry = guest_entry\<lparr>he_offset := off\<rparr> # replicate 127 null_entry\<rparr>"
    using guest_built by blast
  have z: "get_memzone_by_addr (memzone guest_host) 0x40000000 = Some 0" "aget (memzone guest_host) 0 = Some guest_ring_zone"
    using guest_zone_used by (simp_all add: get_memzone_by_addr_def guest_host_def aget_def)
  have rep: "replicate 128 null_entry = null_entry # replicate 127 null_entry" by (simp add: numeral_eq_Suc)
  have free: "free_entry guest_ring_zone (replicate 128 null_entry) = Inr 0" unfolding rep
    by (simp add: null_entry_def null_memzone_def mz_overlap_def guest_ring_zone_def shm_zone_def)
  have upd: "(replicate 128 null_entry)[0 := null_entry\<lparr>he_mz := guest_ring_zone\<rparr>] = guest_entry # replicate 127 null_entry"
    unfolding rep by (simp add: guest_entry_def null_entry_def)
  have "rte_hostshmem_metadata_add_ring (Some shm_maps) guest_shm_1 0x40000000 (Some ''vm1'')
      = Some (0, guest_shm_0\<lparr>hs_configs := [cfg], hs_ioremap := [0 \<mapsto> mz_phys_addr guest_ring_zone]\<rparr>)"
    using z free upd b(1) by (simp add: guest_shm_1_configs rte_hostshmem_metadata_add_ring_def guest_cfg_name add_ring_to_metadata_def
        add_memzone_to_metadata_def guest_shm_0_def aget_def) (simp add: guest_cfg_def)
  then have "shm_reach (memzone guest_host) (guest_shm_0\<lparr>hs_configs := [cfg], hs_ioremap := [0 \<mapsto> mz_phys_addr guest_ring_zone]\<rparr>)"
    by (rule shm_reach.ring [OF r1])
  then show ?thesis using b(2) by (intro exI [of _ "guest_shm_0\<lparr>hs_configs := [cfg], hs_ioremap := [0 \<mapsto> mz_phys_addr guest_ring_zone]\<rparr>"] exI [of _ cfg] exI [of _ off]) (simp add: aget_def)
qed

lemma guest_mapped: "mapped guest_host (guest_entry\<lparr>he_offset := off\<rparr> # replicate 127 null_entry) guest_before"
  by (simp add: mapped_def list_all_iff guest_entry_def null_entry_def guest_example RTE_MAX_MEMZONE_def)

theorem guest_sees_host_witness:
  "\<exists>off c e'. rte_eal_hostshmem_obj_init (fresh_ops\<lparr>rte_zmalloc := \<lambda>h len. (0x100040, h)\<rparr>) guest_os_0 False (Cfg c) guest_before = Some (0, e')
    \<and> same_objects guest_host (guest_entry\<lparr>he_offset := off\<rparr> # replicate 127 null_entry) e' \<and> \<not> mz_inv e'"
proof -
  let ?ops = "fresh_ops\<lparr>rte_zmalloc := \<lambda>h len. (0x100040, h)\<rparr>"
  obtain s cfg off where r: "shm_reach (memzone guest_host) s" "aget (hs_configs s) 0 = Some cfg"
    "hc_metadata cfg = Some \<lparr>hm_magic_number = HOSTSHMEM_MAGIC, hm_name = ''vm1'', hm_entry = guest_entry\<lparr>he_offset := off\<rparr> # replicate 127 null_entry\<rparr>"
    using guest_shm_reach by blast
  let ?es = "guest_entry\<lparr>he_offset := off\<rparr> # replicate 127 null_entry"
  let ?c = "zero_config\<lparr>gc_metadata := (gc_metadata zero_config)\<lparr>hm_entry := ?es\<rparr>\<rparr>"
  have "\<not> heap_full ?ops" by (simp add: heap_full_def)
  moreover have "\<not> list_all (mz_used \<circ> he_mz) ?es" by (simp add: list_all_iff null_entry_def null_memzone_def)
  ultimately show ?thesis
    using guest_sees_host [OF r(1) guest_host_ok(1) r(2,3) guest_host_ok(2,3,4), of guest_before ?c guest_os_0 ?ops] guest_mapped
    by (auto simp: guest_os_0_def)
qed

end
