(* ===== verification/Spp_Primary_Main.thy ===== *)
theory Spp_Primary_Main
  imports Spp_Primary Spp_Command
begin

text \<open>
  The primary process after its start (\<open>pri_lvl1/main.c\<close>): the sums over the counters of all
  clients and ports that it displays, the reset of the counters of the clients, and the messages of
  the controller. An access outside an array or through a null pointer is \<^term>\<open>None\<close>.
\<close>

section \<open>The display of the counters\<close>

record stats_sums =
  st_port_tx :: "u64 list"
  st_port_tx_drop :: "u64 list"
  st_client_tx :: "u64 list"
  st_client_tx_drop :: "u64 list"

text \<open>\<open>a[k] += v\<close>.\<close>
definition add_at :: "u64 list \<Rightarrow> nat \<Rightarrow> u64 \<Rightarrow> u64 list option" where
  "add_at xs k v = do { x \<leftarrow> aget xs k; aset xs k (x + v) }"

fun stats_ports :: "port_info \<Rightarrow> nat \<Rightarrow> nat list \<Rightarrow> stats_sums \<Rightarrow> stats_sums option" where
  "stats_ports ports i [] st = Some st"
| "stats_ports ports i (j # js) st =
     do { p \<leftarrow> aget (pi_id ports) j;
          tx \<leftarrow> aget (pi_tx_stats ports) i;
          tx_val \<leftarrow> aget (txs_tx tx) (unat p);
          drop_val \<leftarrow> aget (txs_tx_drop tx) (unat p);
          pt \<leftarrow> add_at (st_port_tx st) j tx_val;
          pd \<leftarrow> add_at (st_port_tx_drop st) j drop_val;
          ct \<leftarrow> add_at (st_client_tx st) i tx_val;
          cd \<leftarrow> add_at (st_client_tx_drop st) i drop_val;
          stats_ports ports i js \<lparr>st_port_tx = pt, st_port_tx_drop = pd, st_client_tx = ct, st_client_tx_drop = cd\<rparr> }"

fun stats_clients :: "port_info \<Rightarrow> nat list \<Rightarrow> stats_sums \<Rightarrow> stats_sums option" where
  "stats_clients ports [] st = Some st"
| "stats_clients ports (i # is) st =
     do { st \<leftarrow> stats_ports ports i [0..<unat (pi_num_ports ports)] st; stats_clients ports is st }"

definition stats_0 :: stats_sums where
  "stats_0 = \<lparr>st_port_tx = replicate RTE_MAX_ETHPORTS 0, st_port_tx_drop = replicate RTE_MAX_ETHPORTS 0,
     st_client_tx = replicate MAX_CLIENTS 0, st_client_tx_drop = replicate MAX_CLIENTS 0\<rparr>"

text \<open>A line for every port: number, received, sent; and for every client.\<close>
record stats_display =
  sd_ports :: "(u8 \<times> u64 \<times> u64) list"
  sd_clients :: "(u64 \<times> u64 \<times> u64 \<times> u64) list"

fun show_ports :: "port_info \<Rightarrow> stats_sums \<Rightarrow> nat list \<Rightarrow> (u8 \<times> u64 \<times> u64) list option" where
  "show_ports ports st [] = Some []"
| "show_ports ports st (i # is) =
     do { p \<leftarrow> aget (pi_id ports) i;
          rx \<leftarrow> aget (rxs_rx (pi_rx_stats ports)) i;
          tx \<leftarrow> aget (st_port_tx st) i;
          ls \<leftarrow> show_ports ports st is;
          Some ((p, rx, tx) # ls) }"

fun show_clients :: "client list \<Rightarrow> stats_sums \<Rightarrow> nat list \<Rightarrow> (u64 \<times> u64 \<times> u64 \<times> u64) list option" where
  "show_clients cls st [] = Some []"
| "show_clients cls st (i # is) =
     do { c \<leftarrow> aget cls i;
          tx \<leftarrow> aget (st_client_tx st) i;
          td \<leftarrow> aget (st_client_tx_drop st) i;
          ls \<leftarrow> show_clients cls st is;
          Some ((cl_stats_rx c, cl_stats_rx_drop c, tx, td) # ls) }"

definition do_stats_display :: "port_info \<Rightarrow> client list \<Rightarrow> u8 \<Rightarrow> stats_display option" where
  "do_stats_display ports cls n =
     do { st \<leftarrow> stats_clients ports [0..<unat n] stats_0;
          ps \<leftarrow> show_ports ports st [0..<unat (pi_num_ports ports)];
          cs \<leftarrow> show_clients cls st [0..<unat n];
          Some \<lparr>sd_ports = ps, sd_clients = cs\<rparr> }"

fun clear_stats_loop :: "nat list \<Rightarrow> client list \<Rightarrow> client list option" where
  "clear_stats_loop [] cls = Some cls"
| "clear_stats_loop (i # is) cls =
     do { c \<leftarrow> aget cls i;
          cls \<leftarrow> aset cls i (c\<lparr>cl_stats_rx := 0, cl_stats_rx_drop := 0\<rparr>);
          clear_stats_loop is cls }"

definition clear_stats :: "u8 \<Rightarrow> client list \<Rightarrow> client list option" where
  "clear_stats n cls = clear_stats_loop [0..<unat n] cls"

section \<open>The messages of the controller\<close>

text \<open>The state of the control thread: the devices and the mode.\<close>
record ('h, 'm, 'y) pri_main =
  pm_eal :: "('h, 'm, 'y) spp_eal"
  pm_cmd :: cmd_type

definition pri_status :: "('h, 'm, 'y) pri_main \<Rightarrow> string option" where
  "pri_status s =
     sprintf_at (replicate MSG_SIZE NUL) 0 (if pm_cmd s = START then ''Server Running\<newline>'' else ''Server Idling\<newline>'')"

definition pri_add ::
  "('h, 'm, 'y) sec_env \<Rightarrow> ('h, 'm, 'y) pri_main \<Rightarrow> string \<Rightarrow> nat option list \<Rightarrow> ('h, 'm, 'y) pri_main outcome option" where
  "pri_add env s buf tk =
     do { is_ring \<leftarrow> tok_is buf tk 1 ''ring'';
          if \<not> is_ring then Some (Reply s buf)
          else do {
            n \<leftarrow> tok_atoi buf tk 2;
            (ring, e) \<leftarrow> rte_ring_lookup (pm_eal s) (get_rx_queue_name (word_of_int n));
            if ring = 0 then Some (Exit ''Cannot get RX ring - is server process running?'' (s\<lparr>pm_eal := e\<rparr>))
            else do {
              (ret, e) \<leftarrow> rte_eth_from_ring_s0 (env_ops env) (env_data_size env) (env_internals_size env) e ring;
              Some (Reply (s\<lparr>pm_eal := e\<rparr>) buf) } } }"

definition pri_del :: "('h, 'm, 'y) pri_main \<Rightarrow> string \<Rightarrow> nat option list \<Rightarrow> ('h, 'm, 'y) pri_main outcome option" where
  "pri_del s buf tk =
     (let s = s\<lparr>pm_cmd := STOP\<rparr> in
      do { is_ring \<leftarrow> tok_is buf tk 1 ''ring'';
           if is_ring then do { n \<leftarrow> tok_atoi buf tk 2; Some (Reply s buf) }
           else Some (Reply s buf) })"

text \<open>As in the secondary process, the comparisons go on with the report after \<open>status\<close>.\<close>
definition pri_dispatch ::
  "('h, 'm, 'y) sec_env \<Rightarrow> ('h, 'm, 'y) pri_main \<Rightarrow> string \<Rightarrow> nat option list \<Rightarrow> ('h, 'm, 'y) pri_main outcome option" where
  "pri_dispatch env s buf tk =
     do { w \<leftarrow> tok_str buf tk 0;
          buf \<leftarrow> (if w = ''status'' then pri_status s else Some buf);
          w \<leftarrow> tok_str buf tk 0;
          if w = ''exit'' then Some (Leave (s\<lparr>pm_cmd := STOP\<rparr>))
          else if w = ''start'' then Some (Reply (s\<lparr>pm_cmd := START\<rparr>) buf)
          else if w = ''stop'' then Some (Reply (s\<lparr>pm_cmd := STOP\<rparr>) buf)
          else if w = ''add'' then pri_add env s buf tk
          else if w = ''del'' then pri_del s buf tk
          else Some (Reply s buf) }"

definition pri_message :: "('h, 'm, 'y) sec_env \<Rightarrow> ('h, 'm, 'y) pri_main \<Rightarrow> string \<Rightarrow> ('h, 'm, 'y) pri_main outcome option" where
  "pri_message env s str = do { (buf, tk) \<leftarrow> tokens str; pri_dispatch env s buf tk }"

text \<open>
  Socket and connection at the head of the loop. \<open>server_ip\<close> is null when the option was not given,
  and \<open>inet_addr\<close> follows the pointer: \<^term>\<open>None\<close>.
\<close>
definition pri_connect ::
  "app_args \<Rightarrow> ('h, 'm, 'y) pri_main \<Rightarrow> int \<Rightarrow> bool \<Rightarrow> net_io \<Rightarrow> (('h, 'm, 'y) pri_main turn + int) option" where
  "pri_connect a s sock connected io =
     (if connected then Some (Inr sock)
      else if sock < 0 \<and> io_socket io < 0 then Some (Inl (Finished 1 s))
      else if sock < 0 \<and> server_ip a = None then None
      else
        let sock = (if sock < 0 then io_socket io else sock)
        in Some (if io_connect io < 0 then Inl (Next s sock False) else Inr sock))"

text \<open>One turn of the loop of \<open>main\<close>.\<close>
definition pri_turn ::
  "('h, 'm, 'y) sec_env \<Rightarrow> app_args \<Rightarrow> ('h, 'm, 'y) pri_main \<Rightarrow> int \<Rightarrow> bool \<Rightarrow> net_io \<Rightarrow> ('h, 'm, 'y) pri_main turn option" where
  "pri_turn env a s sock connected io =
     do { c \<leftarrow> pri_connect a s sock connected io;
      case c of
        Inl t \<Rightarrow> Some t
      | Inr sock \<Rightarrow>
          let (t, data) = io_recv io
          in if t > 0
             then do {
               out \<leftarrow> pri_message env s (msg_buf (take (nat t) data));
               case out of
                 Leave s \<Rightarrow> Some (Finished 0 s)
               | Exit m s \<Rightarrow> Some (Finished 1 s)
               | Reply s str \<Rightarrow> if io_send io = - 1 then Some (Next s sock False) else Some (Next s sock True) }
             else Some (Next s SOCK_RESET False) }"

section \<open>The sums\<close>

text \<open>What client \<open>i\<close> sent and dropped on the \<open>j\<close>-th port.\<close>
definition sent :: "port_info \<Rightarrow> nat \<Rightarrow> nat \<Rightarrow> u64" where
  "sent ports i j = txs_tx (pi_tx_stats ports ! i) ! unat (pi_id ports ! j)"

definition dropped :: "port_info \<Rightarrow> nat \<Rightarrow> nat \<Rightarrow> u64" where
  "dropped ports i j = txs_tx_drop (pi_tx_stats ports ! i) ! unat (pi_id ports ! j)"

text \<open>The arrays of the shared table have their sizes, and its ports are ports.\<close>
definition stats_ok :: "port_info \<Rightarrow> bool" where
  "stats_ok ports \<longleftrightarrow> length (pi_id ports) = RTE_MAX_ETHPORTS \<and> unat (pi_num_ports ports) \<le> RTE_MAX_ETHPORTS
     \<and> (\<forall>j<unat (pi_num_ports ports). unat (pi_id ports ! j) < RTE_MAX_ETHPORTS)
     \<and> length (rxs_rx (pi_rx_stats ports)) = RTE_MAX_ETHPORTS \<and> length (pi_tx_stats ports) = MAX_CLIENTS
     \<and> list_all (\<lambda>t. length (txs_tx t) = RTE_MAX_ETHPORTS \<and> length (txs_tx_drop t) = RTE_MAX_ETHPORTS) (pi_tx_stats ports)"

text \<open>The sums \<open>st'\<close> are the sums \<open>st\<close> after \<open>p j\<close> and \<open>c i\<close> were added to the four arrays.\<close>
definition sums_add :: "stats_sums \<Rightarrow> stats_sums \<Rightarrow> (nat \<Rightarrow> u64 \<times> u64) \<Rightarrow> (nat \<Rightarrow> u64 \<times> u64) \<Rightarrow> bool" where
  "sums_add st st' p c \<longleftrightarrow>
     length (st_port_tx st') = RTE_MAX_ETHPORTS \<and> length (st_port_tx_drop st') = RTE_MAX_ETHPORTS
   \<and> length (st_client_tx st') = MAX_CLIENTS \<and> length (st_client_tx_drop st') = MAX_CLIENTS
   \<and> (\<forall>j<RTE_MAX_ETHPORTS. st_port_tx st' ! j = st_port_tx st ! j + fst (p j) \<and> st_port_tx_drop st' ! j = st_port_tx_drop st ! j + snd (p j))
   \<and> (\<forall>i<MAX_CLIENTS. st_client_tx st' ! i = st_client_tx st ! i + fst (c i) \<and> st_client_tx_drop st' ! i = st_client_tx_drop st ! i + snd (c i))"

lemma sums_add_trans:
  "sums_add st st1 p c \<Longrightarrow> sums_add st1 st2 p' c' \<Longrightarrow>
   sums_add st st2 (\<lambda>j. (fst (p j) + fst (p' j), snd (p j) + snd (p' j))) (\<lambda>i. (fst (c i) + fst (c' i), snd (c i) + snd (c' i)))"
  by (simp add: sums_add_def add.assoc)

lemma sums_add_cong:
  "sums_add st st' p c \<Longrightarrow> (\<And>j. j < RTE_MAX_ETHPORTS \<Longrightarrow> p j = p' j) \<Longrightarrow> (\<And>i. i < MAX_CLIENTS \<Longrightarrow> c i = c' i) \<Longrightarrow> sums_add st st' p' c'"
  by (simp add: sums_add_def)

lemma add_at_ok: "k < length xs \<Longrightarrow> add_at xs k v = Some (xs[k := xs ! k + v])"
  by (simp add: add_at_def aget_def aset_def)

definition add_cell :: "nat \<Rightarrow> nat \<Rightarrow> u64 \<Rightarrow> u64 \<Rightarrow> stats_sums \<Rightarrow> stats_sums" where
  "add_cell i j v d st = \<lparr>st_port_tx = (st_port_tx st)[j := st_port_tx st ! j + v],
     st_port_tx_drop = (st_port_tx_drop st)[j := st_port_tx_drop st ! j + d],
     st_client_tx = (st_client_tx st)[i := st_client_tx st ! i + v],
     st_client_tx_drop = (st_client_tx_drop st)[i := st_client_tx_drop st ! i + d]\<rparr>"

abbreviation sums_shape :: "stats_sums \<Rightarrow> bool" where
  "sums_shape st \<equiv> sums_add st st (\<lambda>_. (0, 0)) (\<lambda>_. (0, 0))"

lemma add_cell_sums:
  assumes "sums_shape st" and "i < MAX_CLIENTS" and "j < RTE_MAX_ETHPORTS"
  shows "sums_add st (add_cell i j v d st) (\<lambda>k. if k = j then (v, d) else (0, 0)) (\<lambda>k. if k = i then (v, d) else (0, 0))"
  using assms by (simp add: sums_add_def add_cell_def nth_list_update)

lemma stats_ports_step:
  assumes "stats_ok ports" and "sums_shape st" and "i < MAX_CLIENTS" and "j < unat (pi_num_ports ports)"
  shows "stats_ports ports i (j # js) st = stats_ports ports i js (add_cell i j (sent ports i j) (dropped ports i j) st)"
proof -
  have j: "j < RTE_MAX_ETHPORTS" "unat (pi_id ports ! j) < RTE_MAX_ETHPORTS" using assms(1,4) by (auto simp: stats_ok_def)
  have t: "length (txs_tx (pi_tx_stats ports ! i)) = RTE_MAX_ETHPORTS" "length (txs_tx_drop (pi_tx_stats ports ! i)) = RTE_MAX_ETHPORTS"
    using assms(1,3) by (auto simp: stats_ok_def list_all_length)
  show ?thesis using assms j t
    by (simp add: aget_def add_at_ok sent_def dropped_def add_cell_def stats_ok_def sums_add_def)
qed

lemma sums_shape_after: "sums_add st st' p c \<Longrightarrow> sums_shape st'"
  by (simp add: sums_add_def)

lemma stats_ports_sums:
  assumes ok: "stats_ok ports" and i: "i < MAX_CLIENTS"
    and "sums_shape st" and "distinct js" and "\<forall>j\<in>set js. j < unat (pi_num_ports ports)"
  shows "\<exists>st'. stats_ports ports i js st = Some st'
    \<and> sums_add st st' (\<lambda>j. if j \<in> set js then (sent ports i j, dropped ports i j) else (0, 0))
         (\<lambda>k. if k = i then (\<Sum>j\<leftarrow>js. sent ports i j, \<Sum>j\<leftarrow>js. dropped ports i j) else (0, 0))"
  using assms(3-)
proof (induction js arbitrary: st)
  case (Cons j js)
  let ?st = "add_cell i j (sent ports i j) (dropped ports i j) st"
  have j: "j < unat (pi_num_ports ports)" "j < RTE_MAX_ETHPORTS" "j \<notin> set js" using Cons.prems ok by (auto simp: stats_ok_def)
  note c = add_cell_sums [OF Cons.prems(1) i j(2), of "sent ports i j" "dropped ports i j"]
  obtain st' where st': "stats_ports ports i js ?st = Some st'"
    "sums_add ?st st' (\<lambda>j. if j \<in> set js then (sent ports i j, dropped ports i j) else (0, 0))
       (\<lambda>k. if k = i then (\<Sum>j\<leftarrow>js. sent ports i j, \<Sum>j\<leftarrow>js. dropped ports i j) else (0, 0))"
    using Cons.IH [OF sums_shape_after [OF c]] Cons.prems by auto
  have "sums_add st st' (\<lambda>k. if k \<in> set (j # js) then (sent ports i k, dropped ports i k) else (0, 0))
      (\<lambda>k. if k = i then (\<Sum>j\<leftarrow>j # js. sent ports i j, \<Sum>j\<leftarrow>j # js. dropped ports i j) else (0, 0))"
    using j(3) by (intro sums_add_cong [OF sums_add_trans [OF c st'(2)]]) auto
  then show ?case using st'(1) stats_ports_step [OF ok Cons.prems(1) i j(1)] by auto
qed (simp cong: if_cong)

lemma stats_clients_sums:
  assumes ok: "stats_ok ports" and "sums_shape st" and "distinct is" and "\<forall>i\<in>set is. i < MAX_CLIENTS"
  defines "js \<equiv> [0..<unat (pi_num_ports ports)]"
  shows "\<exists>st'. stats_clients ports is st = Some st'
    \<and> sums_add st st' (\<lambda>j. if j \<in> set js then (\<Sum>i\<leftarrow>is. sent ports i j, \<Sum>i\<leftarrow>is. dropped ports i j) else (0, 0))
         (\<lambda>i. if i \<in> set is then (\<Sum>j\<leftarrow>js. sent ports i j, \<Sum>j\<leftarrow>js. dropped ports i j) else (0, 0))"
  using assms(2-4)
proof (induction "is" arbitrary: st)
  case (Cons i "is")
  have i: "i < MAX_CLIENTS" "i \<notin> set is" using Cons.prems by auto
  obtain st1 where s1: "stats_ports ports i js st = Some st1"
    "sums_add st st1 (\<lambda>j. if j \<in> set js then (sent ports i j, dropped ports i j) else (0, 0))
         (\<lambda>k. if k = i then (\<Sum>j\<leftarrow>js. sent ports i j, \<Sum>j\<leftarrow>js. dropped ports i j) else (0, 0))"
    using stats_ports_sums [OF ok i(1) Cons.prems(1), of js] by (auto simp: js_def)
  obtain st2 where s2: "stats_clients ports is st1 = Some st2"
    "sums_add st1 st2 (\<lambda>j. if j \<in> set js then (\<Sum>i\<leftarrow>is. sent ports i j, \<Sum>i\<leftarrow>is. dropped ports i j) else (0, 0))
         (\<lambda>i. if i \<in> set is then (\<Sum>j\<leftarrow>js. sent ports i j, \<Sum>j\<leftarrow>js. dropped ports i j) else (0, 0))"
    using Cons.IH [OF sums_shape_after [OF s1(2)]] Cons.prems by auto
  have "sums_add st st2 (\<lambda>j. if j \<in> set js then (\<Sum>i\<leftarrow>i # is. sent ports i j, \<Sum>i\<leftarrow>i # is. dropped ports i j) else (0, 0))
         (\<lambda>k. if k \<in> set (i # is) then (\<Sum>j\<leftarrow>js. sent ports k j, \<Sum>j\<leftarrow>js. dropped ports k j) else (0, 0))"
    using i(2) by (intro sums_add_cong [OF sums_add_trans [OF s1(2) s2(2)]]) auto
  then show ?case using s1(1) s2(1) by (auto simp: js_def)
qed (simp cong: if_cong)

lemma show_ports_map:
  "\<forall>i\<in>set is. i < length (pi_id ports) \<and> i < length (rxs_rx (pi_rx_stats ports)) \<and> i < length (st_port_tx st) \<Longrightarrow>
   show_ports ports st is = Some (map (\<lambda>i. (pi_id ports ! i, rxs_rx (pi_rx_stats ports) ! i, st_port_tx st ! i)) is)"
  by (induction "is") (simp_all add: aget_def)

lemma show_clients_map:
  "\<forall>i\<in>set is. i < length cls \<and> i < length (st_client_tx st) \<and> i < length (st_client_tx_drop st) \<Longrightarrow>
   show_clients cls st is = Some (map (\<lambda>i. (cl_stats_rx (cls ! i), cl_stats_rx_drop (cls ! i), st_client_tx st ! i, st_client_tx_drop st ! i)) is)"
  by (induction "is") (simp_all add: aget_def)

lemma sum_list_swap2: "(\<Sum>i\<leftarrow>xs. \<Sum>j\<leftarrow>ys. f i j) = (\<Sum>j\<leftarrow>ys. \<Sum>i\<leftarrow>xs. f i j :: 'a :: comm_monoid_add)"
  by (induction xs) (simp_all add: sum_list_addf)

text \<open>
  C27. The display of the counters. For at most 16 clients it shows for every port of the table what all
  clients sent on it, and for every client what it sent and dropped on all ports, with all
  additions modulo \<open>2^64\<close>; the two views agree in the total. For more than 16 clients, which the
  command line allows, it reads and writes outside its arrays.
\<close>
theorem stats_display_sums:
  assumes ok: "stats_ok ports" and cls: "unat n \<le> length cls"
  shows "if unat n \<le> MAX_CLIENTS
    then \<exists>d. do_stats_display ports cls n = Some d
      \<and> sd_ports d = map (\<lambda>j. (pi_id ports ! j, rxs_rx (pi_rx_stats ports) ! j, \<Sum>i\<leftarrow>[0..<unat n]. sent ports i j)) [0..<unat (pi_num_ports ports)]
      \<and> sd_clients d = map (\<lambda>i. (cl_stats_rx (cls ! i), cl_stats_rx_drop (cls ! i),
            \<Sum>j\<leftarrow>[0..<unat (pi_num_ports ports)]. sent ports i j, \<Sum>j\<leftarrow>[0..<unat (pi_num_ports ports)]. dropped ports i j)) [0..<unat n]
      \<and> (\<Sum>(p, rx, tx)\<leftarrow>sd_ports d. tx) = (\<Sum>(rx, rd, tx, td)\<leftarrow>sd_clients d. tx)
    else pi_num_ports ports \<noteq> 0 \<longrightarrow> do_stats_display ports cls n = None"
proof (cases "unat n \<le> MAX_CLIENTS")
  case True
  have sh: "sums_shape stats_0" by (simp add: sums_add_def stats_0_def)
  obtain st where st: "stats_clients ports [0..<unat n] stats_0 = Some st"
    "sums_add stats_0 st (\<lambda>j. if j \<in> set [0..<unat (pi_num_ports ports)] then (\<Sum>i\<leftarrow>[0..<unat n]. sent ports i j, \<Sum>i\<leftarrow>[0..<unat n]. dropped ports i j) else (0, 0))
       (\<lambda>i. if i \<in> set [0..<unat n] then (\<Sum>j\<leftarrow>[0..<unat (pi_num_ports ports)]. sent ports i j, \<Sum>j\<leftarrow>[0..<unat (pi_num_ports ports)]. dropped ports i j) else (0, 0))"
    using stats_clients_sums [OF ok sh, of "[0..<unat n]"] True by auto
  have np: "unat (pi_num_ports ports) \<le> RTE_MAX_ETHPORTS" using ok by (simp add: stats_ok_def)
  have p: "st_port_tx st ! j = (\<Sum>i\<leftarrow>[0..<unat n]. sent ports i j)" if "j < unat (pi_num_ports ports)" for j
    using st(2) that np by (simp add: sums_add_def stats_0_def)
  have c: "st_client_tx st ! i = (\<Sum>j\<leftarrow>[0..<unat (pi_num_ports ports)]. sent ports i j)"
    "st_client_tx_drop st ! i = (\<Sum>j\<leftarrow>[0..<unat (pi_num_ports ports)]. dropped ports i j)" if "i < unat n" for i
    using st(2) that True by (simp_all add: sums_add_def stats_0_def)
  have sp: "show_ports ports st [0..<unat (pi_num_ports ports)] = Some (map (\<lambda>j. (pi_id ports ! j, rxs_rx (pi_rx_stats ports) ! j, \<Sum>i\<leftarrow>[0..<unat n]. sent ports i j)) [0..<unat (pi_num_ports ports)])"
    using ok np st(2) p by (subst show_ports_map) (auto simp: stats_ok_def sums_add_def)
  have sc: "show_clients cls st [0..<unat n] = Some (map (\<lambda>i. (cl_stats_rx (cls ! i), cl_stats_rx_drop (cls ! i),
            \<Sum>j\<leftarrow>[0..<unat (pi_num_ports ports)]. sent ports i j, \<Sum>j\<leftarrow>[0..<unat (pi_num_ports ports)]. dropped ports i j)) [0..<unat n])"
    using cls True st(2) c by (subst show_clients_map) (auto simp: sums_add_def)
  show ?thesis using True st(1) sp sc sum_list_swap2 [of "\<lambda>j i. sent ports i j"]
    by (simp add: do_stats_display_def comp_def)
next
  case False
  show ?thesis
  proof (cases "pi_num_ports ports = 0")
    case np: False
    have "stats_clients ports (is @ MAX_CLIENTS # ks) st = None" if "sums_shape st" "\<forall>i\<in>set is. i < MAX_CLIENTS" "distinct is" for "is" ks st
      using that
    proof (induction "is" arbitrary: st)
      case Nil
      obtain m where m: "unat (pi_num_ports ports) = Suc m" using np by (metis not0_implies_Suc unat_eq_zero)
      show ?case using ok by (simp add: m upt_conv_Cons aget_def stats_ok_def bind_eq_None_conv del: upt_Suc)
    next
      case (Cons i "is")
      obtain st1 where "stats_ports ports i [0..<unat (pi_num_ports ports)] st = Some st1" "sums_shape st1"
        using stats_ports_sums [OF ok _ Cons.prems(1), of i "[0..<unat (pi_num_ports ports)]"] Cons.prems sums_shape_after by fastforce
      then show ?case using Cons by simp
    qed
    then have "stats_clients ports ([0..<MAX_CLIENTS] @ MAX_CLIENTS # [Suc MAX_CLIENTS..<unat n]) stats_0 = None"
      by (simp add: sums_add_def stats_0_def)
    moreover have "[0..<unat n] = [0..<MAX_CLIENTS] @ MAX_CLIENTS # [Suc MAX_CLIENTS..<unat n]"
      using False upt_add_eq_append [of 0 MAX_CLIENTS "unat n - MAX_CLIENTS"] by (simp add: upt_conv_Cons)
    ultimately show ?thesis using False by (simp add: do_stats_display_def)
  qed (use False in simp)
qed

definition ports_2 :: port_info where
  "ports_2 = ports_0\<lparr>pi_num_ports := 2, pi_id := [0, 3] @ replicate 30 0\<rparr>"

theorem stats_display_sums_witness:
  "do_stats_display ports_2 (replicate 17 client_0) 17 = None
   \<and> (\<exists>d. do_stats_display ports_2 (replicate 2 client_0) 2 = Some d \<and> length (sd_ports d) = 2)"
proof -
  have np: "unat (pi_num_ports ports_2) = 2" by (simp add: ports_2_def)
  have "unat (pi_id ports_2 ! j) < 32" if "j < 2" for j
    using less_2_cases [OF that] by (auto simp: ports_2_def)
  then have ok: "stats_ok ports_2" unfolding stats_ok_def np
    by (simp add: ports_2_def ports_0_def RTE_MAX_ETHPORTS_def MAX_CLIENTS_def no_stats_def list_all_iff)
  have "unat (17 :: u8) = 17" "unat (2 :: u8) = 2" by simp_all
  then show ?thesis
    using stats_display_sums [OF ok, of 17 "replicate 17 client_0"] stats_display_sums [OF ok, of 2 "replicate 2 client_0"] np
    by (auto simp: MAX_CLIENTS_def)
qed

section \<open>Messages\<close>

lemma pri_line:
  assumes "list_all short_word (c # args)" and "length args \<le> 3"
  obtains buf tk where "pri_message env s (cmd_line c args) = pri_dispatch env s buf tk"
    and "\<And>k. k \<le> length args \<Longrightarrow> tok_str buf tk k = Some ((c # args) ! k)" and "\<And>k. length args < k \<Longrightarrow> tok_str buf tk k = None"
proof -
  obtain buf tk where "tokens (cmd_line c args) = Some (buf, tk)"
    "\<forall>k\<le>length args. tok_str buf tk k = Some ((c # args) ! k)" "\<forall>k>length args. tok_str buf tk k = None"
    using tokens_line [OF assms] by blast
  then show thesis by (intro that [of buf tk]) (simp_all add: pri_message_def)
qed

lemma pri_words [simp]:
  "short_word ''start''" "short_word ''stop''" "short_word ''exit''" "short_word ''del''"
  by (simp_all add: short_word_def is_word_def NUL_def)

lemma pri_one_word:
  assumes "short_word c"
  obtains buf tk where "pri_message env s (cmd_line c []) = pri_dispatch env s buf tk"
    and "tok_str buf tk 0 = Some c" and "tok_str buf tk 1 = None"
  using pri_line [of c "[]" env s] assms that by auto

lemma pri_ring_word:
  assumes "short_word c" and "n < 2 ^ 31"
  obtains buf tk where "pri_message env s (cmd_line c [''ring'', show_nat n]) = pri_dispatch env s buf tk"
    and "tok_str buf tk 0 = Some c" and "tok_str buf tk 1 = Some ''ring''" and "tok_str buf tk 2 = Some (show_nat n)"
proof (rule pri_line [of c "[''ring'', show_nat n]" env s])
  fix buf tk
  assume "pri_message env s (cmd_line c [''ring'', show_nat n]) = pri_dispatch env s buf tk"
    and t: "\<And>k. k \<le> length [''ring'', show_nat n] \<Longrightarrow> tok_str buf tk k = Some ((c # [''ring'', show_nat n]) ! k)"
  then show thesis using that [of buf tk] t [of 0] t [of 1] t [of 2] by simp
qed (use assms in simp_all)

lemma pri_mode_words:
  "\<exists>buf. pri_message env s (cmd_line ''start'' []) = Some (Reply (s\<lparr>pm_cmd := START\<rparr>) buf)"
  "\<exists>buf. pri_message env s (cmd_line ''stop'' []) = Some (Reply (s\<lparr>pm_cmd := STOP\<rparr>) buf)"
  "pri_message env s (cmd_line ''exit'' []) = Some (Leave (s\<lparr>pm_cmd := STOP\<rparr>))"
proof -
  show "\<exists>buf. pri_message env s (cmd_line ''start'' []) = Some (Reply (s\<lparr>pm_cmd := START\<rparr>) buf)"
    by (rule pri_one_word [of "''start''" env s]) (auto simp: pri_dispatch_def)
  show "\<exists>buf. pri_message env s (cmd_line ''stop'' []) = Some (Reply (s\<lparr>pm_cmd := STOP\<rparr>) buf)"
    by (rule pri_one_word [of "''stop''" env s]) (auto simp: pri_dispatch_def)
  show "pri_message env s (cmd_line ''exit'' []) = Some (Leave (s\<lparr>pm_cmd := STOP\<rparr>))"
    by (rule pri_one_word [of "''exit''" env s]) (auto simp: pri_dispatch_def)
qed

lemma sprintf_message: "length t < MSG_SIZE \<Longrightarrow> sprintf_at (replicate MSG_SIZE NUL) 0 t = Some (msg_buf t)"
  by (simp add: sprintf_at_def msg_buf_def) (metis Suc_diff_Suc replicate_Suc)

lemma cstr_message: "length t < MSG_SIZE \<Longrightarrow> NUL \<notin> set t \<Longrightarrow> cstr_at (msg_buf t) 0 = Some t"
  by (auto simp: cstr_at_def msg_buf_def Let_def takeWhile_append)

lemma pri_status_word:
  "\<exists>buf. pri_message env s (cmd_line ''status'' []) = Some (Reply s buf)
     \<and> cstr_at buf 0 = Some (if pm_cmd s = START then ''Server Running\<newline>'' else ''Server Idling\<newline>'')"
proof -
  let ?t = "if pm_cmd s = START then ''Server Running\<newline>'' else ''Server Idling\<newline>''"
  have t: "tokens (cmd_line ''status'' []) = Some (msg_buf ''status'', Some 0 # replicate (MAX_PARAMETER - 1) None)"
    by code_simp
  have l: "length ?t < MSG_SIZE" "NUL \<notin> set ?t" by (auto simp: MSG_SIZE_def NUL_def)
  have buf: "pri_status s = Some (msg_buf ?t)" unfolding pri_status_def by (rule sprintf_message [OF l(1)])
  have str: "cstr_at (msg_buf ?t) 0 = Some ?t" by (rule cstr_message [OF l])
  have "tok_str (msg_buf ''status'') (Some 0 # replicate (MAX_PARAMETER - 1) None) 0 = Some ''status''" by code_simp
  then have "pri_message env s (cmd_line ''status'' []) = Some (Reply s (msg_buf ?t))"
    using buf str t by (simp add: pri_message_def pri_dispatch_def tok_str_def aget_def)
  then show ?thesis using str by blast
qed

lemma pri_ring_words:
  assumes "n < 2 ^ 31"
  shows "\<exists>buf. pri_message env s (cmd_line ''del'' [''ring'', show_nat n]) = Some (Reply (s\<lparr>pm_cmd := STOP\<rparr>) buf)"
    and "\<exists>buf. pri_message env s (cmd_line ''add'' [''ring'', show_nat n]) =
      do { (a, e) \<leftarrow> rte_ring_lookup (pm_eal s) (get_rx_queue_name (of_nat n));
           if a = 0 then Some (Exit ''Cannot get RX ring - is server process running?'' (s\<lparr>pm_eal := e\<rparr>))
           else do { (ret, e) \<leftarrow> rte_eth_from_ring_s0 (env_ops env) (env_data_size env) (env_internals_size env) e a;
                     Some (Reply (s\<lparr>pm_eal := e\<rparr>) buf) } }"
proof -
  show "\<exists>buf. pri_message env s (cmd_line ''del'' [''ring'', show_nat n]) = Some (Reply (s\<lparr>pm_cmd := STOP\<rparr>) buf)"
    by (rule pri_ring_word [of "''del''" n env s]) (use assms in \<open>auto simp: pri_dispatch_def pri_del_def tok_is_def tok_atoi_def Let_def\<close>)
  obtain buf tk where b: "pri_message env s (cmd_line ''add'' [''ring'', show_nat n]) = pri_dispatch env s buf tk"
    "tok_str buf tk 0 = Some ''add''" "tok_str buf tk 1 = Some ''ring''" "tok_str buf tk 2 = Some (show_nat n)"
    using pri_ring_word [of "''add''" n env s] assms by auto
  show "\<exists>buf. pri_message env s (cmd_line ''add'' [''ring'', show_nat n]) =
      do { (a, e) \<leftarrow> rte_ring_lookup (pm_eal s) (get_rx_queue_name (of_nat n));
           if a = 0 then Some (Exit ''Cannot get RX ring - is server process running?'' (s\<lparr>pm_eal := e\<rparr>))
           else do { (ret, e) \<leftarrow> rte_eth_from_ring_s0 (env_ops env) (env_data_size env) (env_internals_size env) e a;
                     Some (Reply (s\<lparr>pm_eal := e\<rparr>) buf) } }"
    using b assms by (intro exI [of _ buf]) (simp add: pri_dispatch_def pri_add_def tok_is_def tok_atoi_def atoi_show_nat)
qed

lemma pri_crash_words:
  "pri_message env s (cmd_line ''add'' []) = None" "pri_message env s (cmd_line ''del'' []) = None"
proof -
  show "pri_message env s (cmd_line ''add'' []) = None"
    by (rule pri_one_word [of "''add''" env s]) (simp_all add: pri_dispatch_def pri_add_def tok_is_def)
  show "pri_message env s (cmd_line ''del'' []) = None"
    by (rule pri_one_word [of "''del''" env s]) (simp_all add: pri_dispatch_def pri_del_def tok_is_def Let_def)
qed

lemma pri_blank: "k < MSG_SIZE \<Longrightarrow> pri_message env s (msg_buf (replicate k (CHR '' ''))) = None"
proof -
  assume k: "k < MSG_SIZE"
  let ?b = "msg_buf (replicate k (CHR '' ''))"
  have "takeWhile (\<lambda>c. c = CHR '' '') ?b = replicate k (CHR '' '')"
    by (auto simp: msg_buf_def takeWhile_append NUL_def)
  moreover have "aget ?b k = Some NUL" using k by (simp add: msg_buf_def aget_def nth_append)
  ultimately have "strtok_at ?b 0 = Some (None, ?b, k)" by (simp add: strtok_at_def Let_def)
  then have "tokens ?b = Some (?b, replicate MAX_PARAMETER None)"
    by (simp add: tokens_def tokenize.simps aset_def MAX_PARAMETER_def list_update_same_conv)
  then show ?thesis by (simp add: pri_message_def pri_dispatch_def tok_str_def aget_def MAX_PARAMETER_def)
qed

text \<open>
  C28. The messages \<open>start\<close>, \<open>stop\<close>, \<open>exit\<close> and \<open>del ring\<close> switch the mode of the primary process, the
  last three to \<open>STOP\<close>, and only \<open>exit\<close> ends its loop; \<open>status\<close> changes nothing and reports the mode;
  \<open>add ring\<close> ends the process when there is no such ring, and otherwise tries to make a port of the
  ring and answers whether or not that succeeded. A message without words, and \<open>add\<close> and \<open>del\<close>
  without a second word, make the process compare a string with the null pointer.
\<close>
theorem primary_messages:
  assumes "n < 2 ^ 31"
  shows "(\<exists>buf. pri_message env s (cmd_line ''start'' []) = Some (Reply (s\<lparr>pm_cmd := START\<rparr>) buf))
   \<and> (\<exists>buf. pri_message env s (cmd_line ''stop'' []) = Some (Reply (s\<lparr>pm_cmd := STOP\<rparr>) buf))
   \<and> pri_message env s (cmd_line ''exit'' []) = Some (Leave (s\<lparr>pm_cmd := STOP\<rparr>))
   \<and> (\<exists>buf. pri_message env s (cmd_line ''status'' []) = Some (Reply s buf)
        \<and> cstr_at buf 0 = Some (if pm_cmd s = START then ''Server Running\<newline>'' else ''Server Idling\<newline>''))
   \<and> (\<exists>buf. pri_message env s (cmd_line ''del'' [''ring'', show_nat n]) = Some (Reply (s\<lparr>pm_cmd := STOP\<rparr>) buf))
   \<and> (\<exists>buf. pri_message env s (cmd_line ''add'' [''ring'', show_nat n]) =
        do { (a, e) \<leftarrow> rte_ring_lookup (pm_eal s) (get_rx_queue_name (of_nat n));
             if a = 0 then Some (Exit ''Cannot get RX ring - is server process running?'' (s\<lparr>pm_eal := e\<rparr>))
             else do { (ret, e) \<leftarrow> rte_eth_from_ring_s0 (env_ops env) (env_data_size env) (env_internals_size env) e a;
                       Some (Reply (s\<lparr>pm_eal := e\<rparr>) buf) } })
   \<and> (k < MSG_SIZE \<longrightarrow> pri_message env s (msg_buf (replicate k (CHR '' ''))) = None)
   \<and> pri_message env s (cmd_line ''add'' []) = None \<and> pri_message env s (cmd_line ''del'' []) = None"
  by (intro conjI impI pri_mode_words pri_status_word pri_ring_words [OF assms] pri_blank pri_crash_words)

theorem primary_messages_witness:
  "(\<exists>buf. pri_message env_0 \<lparr>pm_eal = dup_panel, pm_cmd = START\<rparr> (cmd_line ''del'' [''ring'', show_nat 3])
     = Some (Reply \<lparr>pm_eal = dup_panel, pm_cmd = STOP\<rparr> buf))
   \<and> pri_message env_0 \<lparr>pm_eal = dup_panel, pm_cmd = START\<rparr> (msg_buf '' '') = None"
  using primary_messages [of 3 env_0 "\<lparr>pm_eal = dup_panel, pm_cmd = START\<rparr>" 1] by (simp add: MSG_SIZE_def)

end
