(* ===== verification/Spec2Isabelle.thy ===== *)
theory Spec2Isabelle
  imports Spp_Sec_Start Spp_Patch_Race Spp_Nfv_Vhost Spp_Lvl3 Rte_Eth_Vhost_Ops Rte_Vhost_Sync Rte_Hostshmem_Share Spp_Primary_Main
begin

text \<open>
  Soft Patch Panel (SPP): a verification development.

  \<^bold>\<open>The program.\<close> SPP connects virtual machines, containers and network cards on one host. A primary
  process sets up shared memory, a pool of packet buffers and rings. Secondary processes
  (\<open>examples/multi_process/patch_panel\<close> of \<open>src/dpdk-2.2.0\<close>: \<open>sec_zerocpy\<close>, \<open>sec_memcpy\<close>, \<open>nfv_py\<close>) attach to
  them and move packets between ports under the command of a controller (\<open>spp.py\<close>), which sends lines
  of text such as \<open>add ring 3\<close> or \<open>patch 0 2\<close> over a socket. One core of such a process runs the
  forwarding loop, another one handles the commands; both share the table \<open>ports_fwd_array\<close> without
  a lock. Ports are network cards, rings made into ports by \<open>drivers/net/ring\<close>, and vhost devices
  made into ports by \<open>drivers/net/vhost\<close>, which SPP adds to DPDK. All of them take packet buffers
  from the pools of \<open>librte_mempool\<close> and hand them on through the rings of \<open>librte_ring\<close>.

  \<^bold>\<open>The theories,\<close> from the libraries to the program:

  \<^item> \<open>Spp_Prelude\<close>: machine words, arrays with bounds (\<open>aget\<close>, \<open>aset\<close>), error numbers, C strings of
    limited size, and lemmas on masks and alignment. An access outside an array, a null pointer, a
    failing assertion and a loop that does not end are \<^const>\<open>None\<close> in every theory.
  \<^item> \<open>Rte_Memzone\<close> (\<open>eal_common_memzone.c\<close>): reserving, freeing and finding named memory; the malloc
    heap below it is a parameter (\<open>heap_ops\<close>).
  \<^item> \<open>Rte_Ring\<close>, \<open>Rte_Ring_Correct\<close> (\<open>librte_ring\<close>): the ring with its 32-bit indexes, the unrolled copy
    macros and the single and multi producer and consumer operations; an abstract queue is
    \<open>Burst_Queue\<close>, a locale that the ring interprets: any run of bursts is first-in first-out.
    \<open>Rte_Ring_Registry\<close>: rings by name.
  \<^item> \<open>Rte_Mempool\<close>, \<open>Rte_Mempool_Layout\<close> (\<open>librte_mempool\<close>): getting and putting objects through the
    per-core caches, the counters, object sizes and placement in pages; \<open>Object_Pool\<close> is the locale of
    what a pool promises, interpreted by the model.
    \<open>Rte_Mempool_Create\<close>, \<open>Rte_Mempool_Registry\<close>: making a pool in its memory zone, filling it through a
    constructor of objects (the locale \<open>obj_ctor\<close>), and finding it by name. \<open>Rte_Heap_Live\<close>: what the
    heap promises over several reservations, and sequences of ring creations.
  \<^item> \<open>Rte_Mbuf\<close> (\<open>librte_mbuf\<close>): packet buffers with their 16-bit reference counts, indirect buffers,
    packets of several segments. Freeing is a loop over a linked list (\<open>partial_function\<close>): it is
    shown to end on every list of segments.
  \<^item> \<open>Rte_Ethdev\<close>, \<open>Rte_Eth_Ring\<close>, \<open>Rte_Eth_Ring_Dev\<close> (\<open>librte_ether\<close>, \<open>drivers/net/ring\<close>): the table of 32
    ports, burst dispatch, the burst functions on rings, and making ports out of rings.
  \<^item> \<open>Rte_Eth_Vhost\<close>, \<open>Rte_Eth_Vhost_Ops\<close>, \<open>Rte_Vhost_Sync\<close> (\<open>drivers/net/vhost\<close>): the vhost driver one
    thread at a time, the life of a port from its making to its removal, and the handshake between polling cores and the session thread as steps on shared memory, with and
    without the store buffers of x86.
  \<^item> \<open>Spp_Common\<close> (\<open>shared/common.h\<close>), \<open>Spp_Cstring\<close>, \<open>Spp_Cbuf\<close>: names of rings and pools, numbers as text,
    \<open>sprintf\<close>, \<open>strtok\<close> and \<open>atoi\<close> on arrays of characters.
  \<^item> \<open>Spp_Burst\<close>: one transfer between two ports, and the locale \<open>data_plane\<close> of what it needs of the
    ports and pools; \<open>Spp_World\<close>: the state of ports, rings, pools and other drivers, the ownership
    invariant, and the interpretation of \<open>data_plane\<close> on it.
  \<^item> \<open>Spp_Zerocpy\<close>, \<open>Spp_Command\<close> (\<open>sec_zerocpy.c\<close>): the table, the forwarding loop, and every command with
    its parsing, errors and replies; \<open>Spp_Panel\<close>: commands and forwarding turns in any order;
    \<open>Spp_Sec_Start\<close>: command line, start and message loop, which establish the invariant;
    \<open>Spp_Patch_Race\<close>: the single stores of a patch under traffic.
  \<^item> \<open>Spp_Memcpy\<close> (\<open>sec_memcpy.c\<close>): forwarding by copying.
  \<^item> \<open>Spp_Nfv\<close> (\<open>nfv_py.c\<close>): the secondary process that frees unsent packets with all their segments, its
    own interpretation of \<open>data_plane\<close>, and the comparison with \<open>sec_zerocpy\<close>. \<open>Spp_Nfv_Vhost\<close>: the same process with
    the vhost driver of \<open>Rte_Eth_Vhost\<close>, which is shown to leave the packets as they are.
  \<^item> \<open>Rte_Hostshmem\<close> (\<open>librte_hostshmem\<close>): the metadata with which a virtual machine finds zones, rings and
    pools of the host; \<open>Rte_Hostshmem_Image\<close>: the sorts, the pages of the zones and their place in the
    image; \<open>Rte_Hostshmem_Build\<close>: \<open>build_config\<close> as a whole.
    \<open>Rte_Hostshmem_Guest\<close> (\<open>eal_hostshmem.c\<close>): the process on the other side, which copies the metadata, maps
    the pages and enters zones, pools and rings into its tables; \<open>Rte_Hostshmem_Share\<close>: the calls of the
    host as a reachability relation, and both sides together.
  \<^item> \<open>Spp_Args\<close>, \<open>Spp_Primary\<close>, \<open>Spp_Primary_Main\<close> (\<open>pri_lvl1\<close>): command line, initialisation, counters and
    messages of the primary process; \<open>Spp_Lvl3\<close> (\<open>pri_lvl3\<close>): the primary process of a virtual machine, which
    forwards as \<open>nfv_py\<close> does, from its start on.

  \<^bold>\<open>What is shown.\<close> The buffers of the system are a multiset, those in rings, in pools and with the
  drivers. Forwarding, for any well-formed table and any number of turns, returns and conserves
  it; it performs exactly one transfer per patch in force; between rings the packets stay in order.
  Every message that is carried out keeps the table well-formed, and so does any interleaving of
  whole commands and whole forwarding turns in which patches name ports in service. The libraries are shown to keep what this rests on:
  rings are queues, pools lose nothing, names find what was created under them, making a port adds
  one port. The primary process makes a ring for every client that the secondary processes find, and
  the offsets it gives to a virtual machine lead to every byte of the shared zones. A process on the
  other side of the shared memory finds under every name the object the host has under it. The
  theorems of kind error are about what the code does wrong: they are faithful to the code and are
  listed as findings.

  \<^bold>\<open>Assumptions.\<close> Drivers other than the ring driver keep \<open>driver_ok\<close>: they return at most what was asked
  for and neither lose nor invent buffers; the loop-back card \<open>loop_nic\<close> shows that it can hold. Making
  a vhost port leaves the buffers alone (\<open>vhost_ok\<close>), which \<open>Rte_Eth_Vhost\<close> proves of the driver's code.
  In \<open>Spp_World\<close> forwarding turns and commands are atomic; \<open>Spp_Patch_Race\<close> drops this for the patch
  command, where it matters. Rings are used by one producer and one consumer at a time except in
  \<open>Rte_Ring\<close>, where the compare-and-set of the multi-producer functions is modelled as succeeding.

  The heap never hands out a block that is in use (\<open>heap_live\<close>) and hands out aligned blocks of the size asked
  for (\<open>heap_sound\<close>); the heap \<open>fresh_ops\<close> shows that both can hold. Zones for a virtual machine lie in
  one address space without common bytes (\<open>zones_fit\<close>). The elements of a pool of packet buffers have the
  room that the assertions of the constructors ask for (\<open>pktmbuf_args\<close>). For \<open>nfv_py\<close> drivers hand out
  packets whose segments are ordinary buffers (\<open>driver_tidy\<close>), and making a vhost port leaves packets as
  they are (\<open>vhost_tidy\<close>), which \<open>Spp_Nfv_Vhost\<close> proves of the driver's code. Memory that is mapped at the
  address it has in another process shows what that process has there (\<open>mapped\<close>), and the names of
  rings and pools are used for nothing else (\<open>named_zones\<close>).

  \<^bold>\<open>Bounds.\<close> Indexes of rings, counts of packets, reference counts and port numbers are words of their
  width and wrap as in C. There is no fuel: loops are structural over the array or list they walk,
  have a measure (\<open>tokenize\<close> is limited by its array, \<open>gcd_loop\<close> by its second argument), or are
  \<open>partial_function\<close> with a separate proof that they end.

  \<^bold>\<open>Not modelled.\<close> The primary process \<open>pri_lvl2\<close>, \<open>nfv\<close> and the guest
  variants, which repeat the code of the processes above with other names; in \<open>eal_hostshmem.c\<close> the path
  over PCI devices (\<open>map_all_segments\<close>, \<open>cleanup_segments\<close>), whose configuration pointer is null
  throughout; the vhost protocol of \<open>librte_vhost\<close> and the drivers of network cards,
  taken as parameters; socket input and output, taken as a parameter of one turn of the control
  loops; opening and mapping files, whose success is a parameter; logging. The Python controller,
  QEMU and the rest of DPDK are outside the development.
\<close>

end
